(* ===== verification/Prelude.thy ===== *)
theory Prelude
  imports Main "HOL-Library.Word"
begin

unbundle bit_operations_syntax

section \<open>Shared types, errors and automation\<close>

text \<open>
  The types every component shares. A byte buffer (\<open>std::vector<std::uint8_t>\<close>) is a list of
  8-bit words, a decoded dictionary string (\<open>TokenWords\<close>) a list of 16-bit words, and a
  \<open>std::string\<close> the HOL type \<open>string\<close>, whose characters are bytes. A structure field keeps
  the width it has in the code; \<open>std::size_t\<close> offsets into a buffer are \<open>nat\<close>. A function
  that can throw returns a sum: \<open>Inl\<close> is the exception with its message, \<open>Inr\<close> the result.
\<close>

type_synonym byte = "8 word"
type_synonym u16 = "16 word"
type_synonym u32 = "32 word"
type_synonym u64 = "64 word"
type_synonym bytes = "byte list"
type_synonym token_words = "u16 list"

datatype exn =
    RuntimeError string
  | InvalidArgument string
  | LengthError string
  | JsonError nat string

type_synonym 'a result = "exn + 'a"

text \<open>Sequencing of two steps, the second of which runs only when the first returned.\<close>

definition and_then :: "'e + 'a \<Rightarrow> ('a \<Rightarrow> 'e + 'b) \<Rightarrow> 'e + 'b" where
  "and_then m f = (case m of Inl e \<Rightarrow> Inl e | Inr x \<Rightarrow> f x)"

text \<open>Rules that run a step whose outcome is known.\<close>

named_theorems run_simps \<open>evaluation of a step with a known outcome\<close>

lemma and_then_Inl [simp, run_simps]: "and_then (Inl e) f = Inl e"
  by (simp add: and_then_def)

lemma and_then_Inr [simp, run_simps]: "and_then (Inr x) f = f x"
  by (simp add: and_then_def)

lemma and_then_cong [fundef_cong]:
  assumes "m = m'" and "\<And>x. m' = Inr x \<Longrightarrow> f x = f' x"
  shows "and_then m f = and_then m' f'"
  using assms by (cases m') (auto simp: and_then_def)

lemma and_then_eq_Inr:
  "and_then m f = Inr y \<longleftrightarrow> (\<exists>x. m = Inr x \<and> f x = Inr y)"
  by (cases m) auto

lemma and_then_eq_Inl:
  "and_then m f = Inl e \<longleftrightarrow> m = Inl e \<or> (\<exists>x. m = Inr x \<and> f x = Inl e)"
  by (cases m) auto

definition returns :: "'e + 'a \<Rightarrow> bool" where
  "returns m \<longleftrightarrow> (case m of Inl _ \<Rightarrow> False | Inr _ \<Rightarrow> True)"

lemma returns_simps [simp]: "\<not> returns (Inl e)" "returns (Inr x)"
  by (simp_all add: returns_def)

lemma returns_iff: "returns m \<longleftrightarrow> (\<exists>x. m = Inr x)"
  by (cases m) auto

lemma returns_and_then: "returns (and_then m f) \<longleftrightarrow> (\<exists>x. m = Inr x \<and> returns (f x))"
  by (cases m) auto

subsection \<open>Lists and slices\<close>

text \<open>The bytes \<open>[begin, end)\<close> of a buffer.\<close>

definition slice :: "'a list \<Rightarrow> nat \<Rightarrow> nat \<Rightarrow> 'a list" where
  "slice xs b e = take (e - b) (drop b xs)"

lemma length_slice [simp]: "length (slice xs b e) = min (e - b) (length xs - b)"
  by (simp add: slice_def min.commute)

lemma nth_slice: "b + i < e \<Longrightarrow> e \<le> length xs \<Longrightarrow> slice xs b e ! i = xs ! (b + i)"
  by (simp add: slice_def)

lemma slice_empty [simp]: "e \<le> b \<Longrightarrow> slice xs b e = []"
  by (simp add: slice_def)

lemma slice_append:
  assumes "b \<le> m" and "m \<le> e"
  shows "slice xs b m @ slice xs m e = slice xs b e"
proof -
  have "e - b = (m - b) + (e - m)" using assms by simp
  moreover have "drop (m - b) (drop b xs) = drop m xs" using assms by simp
  ultimately show ?thesis unfolding slice_def by (metis take_add)
qed

lemma slice_middle:
  "slice (xs @ ys @ zs) (length xs) (length xs + length ys) = ys"
  by (simp add: slice_def)

lemma map_slice: "map f (slice xs b e) = slice (map f xs) b e"
  by (simp add: slice_def take_map drop_map)

lemma set_slice: "set (slice xs b e) \<subseteq> set xs"
  unfolding slice_def by (meson in_set_dropD in_set_takeD subsetI)

text \<open>A list of half-open ranges that covers \<open>[b, e)\<close> in order, without gap or overlap.\<close>

fun tiles :: "(nat \<times> nat) list \<Rightarrow> nat \<Rightarrow> nat \<Rightarrow> bool" where
  "tiles [] b e \<longleftrightarrow> b = e"
| "tiles ((l, r) # rs) b e \<longleftrightarrow> l = b \<and> l \<le> r \<and> tiles rs r e"

lemma tiles_append: "tiles (xs @ ys) b e \<longleftrightarrow> (\<exists>m. tiles xs b m \<and> tiles ys m e)"
  by (induction xs b e rule: tiles.induct) auto

lemma tiles_le: "tiles rs b e \<Longrightarrow> b \<le> e"
  by (induction rs b e rule: tiles.induct) auto

lemma tiles_snoc:
  "tiles rs b m \<Longrightarrow> m \<le> e \<Longrightarrow> tiles (rs @ [(m, e)]) b e"
  by (auto simp: tiles_append)

lemma tiles_bounds:
  "tiles rs b e \<Longrightarrow> (l, r) \<in> set rs \<Longrightarrow> b \<le> l \<and> l \<le> r \<and> r \<le> e"
proof (induction rs b e rule: tiles.induct)
  case (1 b e)
  then show ?case by simp
next
  case (2 l' r' rs b e)
  then show ?case using tiles_le by fastforce
qed

text \<open>A list of nonempty half-open ranges inside \<open>[b, e]\<close>, in order and disjoint; gaps are allowed.\<close>

fun gapped :: "(nat \<times> nat) list \<Rightarrow> nat \<Rightarrow> nat \<Rightarrow> bool" where
  "gapped [] b e \<longleftrightarrow> b \<le> e"
| "gapped ((l, r) # rs) b e \<longleftrightarrow> b \<le> l \<and> l < r \<and> gapped rs r e"

lemma gapped_append: "gapped (xs @ ys) b e \<longleftrightarrow> (\<exists>m. gapped xs b m \<and> gapped ys m e)"
proof (induction xs b e rule: gapped.induct)
  case (1 b e)
  show ?case by (cases ys) (auto intro: le_trans)
next
  case (2 l r rs b e)
  then show ?case by auto
qed

lemma gapped_le: "gapped rs b e \<Longrightarrow> b \<le> e"
  by (induction rs b e rule: gapped.induct) auto

lemma gapped_lower: "gapped rs b e \<Longrightarrow> b' \<le> b \<Longrightarrow> gapped rs b' e"
  by (cases rs) auto

lemma gapped_upper: "gapped rs b e \<Longrightarrow> e \<le> e' \<Longrightarrow> gapped rs b e'"
  by (induction rs b e rule: gapped.induct) auto

lemma gapped_bounds:
  "gapped rs b e \<Longrightarrow> x \<in> set rs \<Longrightarrow> b \<le> fst x \<and> fst x < snd x \<and> snd x \<le> e"
proof (induction rs b e rule: gapped.induct)
  case (1 b e)
  then show ?case by simp
next
  case (2 l r rs b e)
  then show ?case using gapped_le by fastforce
qed

lemma gapped_later: "gapped (y # rs) b e \<Longrightarrow> x \<in> set rs \<Longrightarrow> snd y \<le> fst x"
  by (cases y) (auto dest: gapped_bounds)

lemma gapped_filter: "gapped (map g xs) b e \<Longrightarrow> gapped (map g (filter p xs)) b e"
proof (induction xs arbitrary: b)
  case Nil
  then show ?case by simp
next
  case (Cons x xs)
  then show ?case by (cases "g x") (auto intro: gapped_lower less_imp_le le_less_trans)
qed

lemma gapped_refine:
  assumes "gapped (map g xs) b e"
    and "\<And>x. x \<in> set xs \<Longrightarrow> gapped (map g (f x)) (fst (g x)) (snd (g x))"
  shows "gapped (map g (concat (map f xs))) b e"
  using assms
proof (induction xs arbitrary: b)
  case Nil
  then show ?case by simp
next
  case (Cons x xs)
  then obtain l r where x: "g x = (l, r)" by (cases "g x")
  then have "gapped (map g (f x)) b r" "gapped (map g (concat (map f xs))) r e"
    using Cons.prems(1) Cons.prems(2) [of x] Cons.IH [of r] Cons.prems(2)
    by (auto intro: gapped_lower)
  then show ?case by (auto simp: gapped_append)
qed

text \<open>Every point of the range lies in exactly one tile.\<close>

lemma tiles_cover:
  "tiles rs b e \<Longrightarrow> b \<le> i \<Longrightarrow> i < e \<Longrightarrow> \<exists>(l, r) \<in> set rs. l \<le> i \<and> i < r"
proof (induction rs b e rule: tiles.induct)
  case (1 b e)
  then show ?case by simp
next
  case (2 l' r' rs b e)
  show ?case
  proof (cases "i < r'")
    case True
    with 2 show ?thesis by auto
  next
    case False
    with 2 show ?thesis by force
  qed
qed

subsection \<open>Words\<close>

lemma unat_byte_less [simp]: "unat (b :: byte) < 256"
  using unsigned_less [where 'b=8 and 'a=nat and w=b] by simp

lemma unat_u16_less [simp]: "unat (w :: u16) < 65536"
  using unsigned_less [where 'b=16 and 'a=nat and w=w] by simp

lemma unat_byte_le: "unat (b :: byte) \<le> 255"
  using unat_byte_less [of b] by linarith

lemma unat_u16_le: "unat (w :: u16) \<le> 65535"
  using unat_u16_less [of w] by linarith

lemma unat_plus_1:
  fixes w v :: "'w::len word"
  assumes "w < v"
  shows "unat (w + 1) = unat w + 1"
proof -
  have "unat w < unat v" using assms by (simp add: word_less_nat_alt)
  moreover have "unat v < 2 ^ LENGTH('w)" by (rule unsigned_less)
  ultimately have "Suc (unat w) < 2 ^ LENGTH('w)" by linarith
  then show ?thesis by (simp add: unat_word_ariths)
qed

text \<open>A high part shifted left and a smaller low part share no bit, so \<open>OR\<close> adds them.\<close>

lemma or_eq_plus_nat:
  fixes a b :: nat
  assumes "b < 2 ^ n"
  shows "push_bit n a OR b = a * 2 ^ n + b"
proof -
  have "take_bit n b = b" using assms by (simp add: take_bit_nat_eq_self)
  then have "push_bit n a AND b = 0"
    by (metis (no_types, lifting) bit_0_eq bit_and_iff bit_eq_iff bit_push_bit_iff
        bit_take_bit_iff bot_apply bot_bool_def linorder_not_le)
  then have "push_bit n a OR b = push_bit n a + b"
    by (simp add: disjunctive_add_eq_or)
  then show ?thesis by (simp add: push_bit_eq_mult)
qed

end
