(* ===== verification/Bytes.thy ===== *)
theory Bytes
  imports Prelude
begin

section \<open>Big-endian reads and range checks (\<open>src/core/io.cpp\<close>)\<close>

text \<open>
  The reads every other component goes through. Each one checks that its bytes are inside the
  buffer and throws otherwise. The file access of \<open>read_file\<close> is input/output and is not modelled:
  a component takes the bytes it returns.
\<close>

definition byte_at :: "bytes \<Rightarrow> nat \<Rightarrow> byte" where
  "byte_at bs i = bs ! i"

definition read_be16 :: "bytes \<Rightarrow> nat \<Rightarrow> u16 result" where
  "read_be16 bs off =
     (if off + 2 > length bs
      then Inl (RuntimeError ''unexpected end of BOO file while reading u16'')
      else Inr (push_bit 8 (ucast (byte_at bs off)) OR ucast (byte_at bs (off + 1))))"

definition read_be24 :: "bytes \<Rightarrow> nat \<Rightarrow> u32 result" where
  "read_be24 bs off =
     (if off + 3 > length bs
      then Inl (RuntimeError ''unexpected end of BOO file while reading u24'')
      else Inr (push_bit 16 (ucast (byte_at bs off)) OR
                push_bit 8 (ucast (byte_at bs (off + 1))) OR
                ucast (byte_at bs (off + 2))))"

definition read_be32 :: "bytes \<Rightarrow> nat \<Rightarrow> u32 result" where
  "read_be32 bs off =
     (if off + 4 > length bs
      then Inl (RuntimeError ''unexpected end of BOO file while reading u32'')
      else Inr (push_bit 24 (ucast (byte_at bs off)) OR
                push_bit 16 (ucast (byte_at bs (off + 1))) OR
                push_bit 8 (ucast (byte_at bs (off + 2))) OR
                ucast (byte_at bs (off + 3))))"

text \<open>The offset and size are 64-bit; the subtraction is reached only when it cannot wrap.\<close>

definition byte_range_is_valid :: "bytes \<Rightarrow> u64 \<Rightarrow> u64 \<Rightarrow> bool" where
  "byte_range_is_valid bs off sz \<longleftrightarrow>
     off \<le> of_nat (length bs) \<and> sz \<le> of_nat (length bs) - off"

subsection \<open>The value a read returns\<close>

text \<open>The number the bytes spell, most significant byte first.\<close>

definition be_value :: "bytes \<Rightarrow> nat" where
  "be_value bs = foldl (\<lambda>v b. v * 256 + unat b) 0 bs"

lemma be_value_append: "be_value (bs @ [b]) = be_value bs * 256 + unat b"
  by (simp add: be_value_def)

lemma be_value_less: "be_value bs < 256 ^ length bs"
proof (induction bs rule: rev_induct)
  case Nil
  then show ?case by (simp add: be_value_def)
next
  case (snoc b bs)
  have "be_value (bs @ [b]) \<le> be_value bs * 256 + 255"
    using unat_byte_le [of b] by (simp add: be_value_append)
  also have "\<dots> < 256 ^ length (bs @ [b])" using snoc by simp
  finally show ?case .
qed

lemma be_value_field: "i + 2 \<le> length bs \<Longrightarrow> be_value (slice bs i (i + 2)) < 65536"
  using be_value_less [of "slice bs i (i + 2)"] by simp

lemma unat_high_or:
  fixes a :: byte and w :: "'w::len word"
  assumes w: "unat w < 2 ^ k" and k: "k + 8 \<le> LENGTH('w)"
  shows "unat (push_bit k (ucast a) OR w) = unat a * 2 ^ k + unat w"
proof -
  have "(256::nat) = 2 ^ 8" by simp
  also have "\<dots> \<le> 2 ^ LENGTH('w)" using k by (intro power_increasing) auto
  finally have "unat a < 2 ^ LENGTH('w)" using unat_byte_less [of a] by linarith
  then have a: "unat (ucast a :: 'w word) = unat a"
    by (simp add: unsigned_ucast_eq take_bit_nat_eq_self)
  have "unat a * 2 ^ k < 256 * 2 ^ k" by simp
  also have "(256::nat) * 2 ^ k = 2 ^ (k + 8)" by (simp add: power_add)
  also have "(2::nat) ^ (k + 8) \<le> 2 ^ LENGTH('w)" using k by (intro power_increasing) auto
  finally have p: "unat (push_bit k (ucast a :: 'w word)) = push_bit k (unat a)"
    unfolding unsigned_push_bit_eq a
    by (intro take_bit_nat_eq_self) (simp add: push_bit_eq_mult)
  show ?thesis
    by (simp add: unsigned_or_eq p or_eq_plus_nat [OF w])
qed

lemma unat_wide_byte [simp]:
  "unat (ucast (b :: byte) :: u16) = unat b"
  "unat (ucast (b :: byte) :: u32) = unat b"
  "unat (ucast (b :: byte) :: u64) = unat b"
  by (simp_all add: unsigned_ucast_eq take_bit_nat_eq_self_iff less_le_trans [OF unat_byte_less])

lemma unat_be16 [simp]:
  "unat (push_bit 8 (ucast (a :: byte)) OR ucast (b :: byte) :: u16) = unat a * 256 + unat b"
  by (subst unat_high_or) auto

lemma unat_be24 [simp]:
  "unat (push_bit 16 (ucast (a :: byte)) OR push_bit 8 (ucast (b :: byte)) OR
         ucast (c :: byte) :: u32) = unat a * 65536 + unat b * 256 + unat c"
proof -
  have w: "unat (push_bit 8 (ucast b) OR ucast c :: u32) = unat b * 256 + unat c"
    by (subst unat_high_or) auto
  show ?thesis
    by (subst unat_high_or) (use unat_byte_le [of b] unat_byte_le [of c] in \<open>auto simp: w\<close>)
qed

lemma unat_be32 [simp]:
  "unat (push_bit 24 (ucast (a :: byte)) OR push_bit 16 (ucast (b :: byte)) OR
         push_bit 8 (ucast (c :: byte)) OR ucast (d :: byte) :: u32) =
   unat a * 16777216 + unat b * 65536 + unat c * 256 + unat d"
proof -
  have w: "unat (push_bit 16 (ucast b) OR push_bit 8 (ucast c) OR ucast d :: u32) =
           unat b * 65536 + unat c * 256 + unat d"
    by simp
  show ?thesis
    by (subst unat_high_or)
      (use unat_byte_le [of b] unat_byte_le [of c] unat_byte_le [of d] in
        \<open>auto simp: w\<close>)
qed

lemma slice_bytes:
  "i + 2 \<le> length bs \<Longrightarrow> slice bs i (i + 2) = [bs ! i, bs ! (i + 1)]"
  "i + 3 \<le> length bs \<Longrightarrow> slice bs i (i + 3) = [bs ! i, bs ! (i + 1), bs ! (i + 2)]"
  "i + 4 \<le> length bs \<Longrightarrow>
     slice bs i (i + 4) = [bs ! i, bs ! (i + 1), bs ! (i + 2), bs ! (i + 3)]"
  by (auto intro!: nth_equalityI simp: slice_def nth_Cons' less_Suc_eq numeral_eq_Suc)

lemma read_be16_value:
  "off + 2 \<le> length bs \<Longrightarrow>
   \<exists>v. read_be16 bs off = Inr v \<and> unat v = be_value (slice bs off (off + 2))"
  by (auto simp add: read_be16_def be_value_def slice_bytes byte_at_def simp del: add_2_eq_Suc')

lemma read_be24_value:
  "off + 3 \<le> length bs \<Longrightarrow>
   \<exists>v. read_be24 bs off = Inr v \<and> unat v = be_value (slice bs off (off + 3))"
  by (auto simp add: read_be24_def be_value_def slice_bytes byte_at_def simp del: add_2_eq_Suc')

lemma read_be32_value:
  "off + 4 \<le> length bs \<Longrightarrow>
   \<exists>v. read_be32 bs off = Inr v \<and> unat v = be_value (slice bs off (off + 4))"
  by (auto simp add: read_be32_def be_value_def slice_bytes byte_at_def simp del: add_2_eq_Suc')

subsection \<open>What a client of a read relies on\<close>

text \<open>
  The contract of a fixed-width read: inside the buffer it returns the number its bytes spell,
  outside it throws. The three reads of the code provide it.
\<close>

locale fixed_width_read =
  fixes read :: "bytes \<Rightarrow> nat \<Rightarrow> 'w::len word result"
    and width :: nat
    and message :: string
  assumes read_inside: "off + width \<le> length bs \<Longrightarrow>
      \<exists>v. read bs off = Inr v \<and> unat v = be_value (slice bs off (off + width))"
    and read_outside: "length bs < off + width \<Longrightarrow> read bs off = Inl (RuntimeError message)"
begin

lemma read_eq:
  "read bs off = (if off + width \<le> length bs
                  then Inr (of_nat (be_value (slice bs off (off + width))))
                  else Inl (RuntimeError message))"
proof (cases "off + width \<le> length bs")
  case True
  from read_inside [OF this] obtain v
    where "read bs off = Inr v" and "unat v = be_value (slice bs off (off + width))" by blast
  moreover from this(2) have "of_nat (be_value (slice bs off (off + width))) = v"
    by (metis of_nat_unat ucast_id)
  ultimately show ?thesis using True by simp
next
  case False
  then show ?thesis by (simp add: read_outside)
qed

lemma read_returns: "returns (read bs off) \<longleftrightarrow> off + width \<le> length bs"
  by (simp add: read_eq)

text \<open>A read depends on its own bytes only: what surrounds them does not change it.\<close>

lemma read_framed:
  assumes "length mid = width"
  shows "read (pre @ mid @ post) (length pre) = Inr (of_nat (be_value mid))"
  using assms by (auto simp: read_eq slice_def)

lemma read_shift:
  assumes "off + width \<le> length bs"
  shows "read (pre @ bs @ post) (length pre + off) = read bs off"
  using assms by (auto simp: read_eq slice_def)

end

interpretation be16: fixed_width_read read_be16 2
  "''unexpected end of BOO file while reading u16''"
  by unfold_locales (use read_be16_value in \<open>auto simp: read_be16_def\<close>)

interpretation be24: fixed_width_read read_be24 3
  "''unexpected end of BOO file while reading u24''"
  by unfold_locales (use read_be24_value in \<open>auto simp: read_be24_def\<close>)

interpretation be32: fixed_width_read read_be32 4
  "''unexpected end of BOO file while reading u32''"
  by unfold_locales (use read_be32_value in \<open>auto simp: read_be32_def\<close>)

lemma read_be16_Inr: "off + 2 \<le> length bs \<Longrightarrow> \<exists>v. read_be16 bs off = Inr v"
  by (simp add: be16.read_eq)

lemma read_be24_Inr: "off + 3 \<le> length bs \<Longrightarrow> \<exists>v. read_be24 bs off = Inr v"
  by (simp add: be24.read_eq)

lemma read_be32_Inr: "off + 4 \<le> length bs \<Longrightarrow> \<exists>v. read_be32 bs off = Inr v"
  by (simp add: be32.read_eq)

lemmas read_be_Inr = read_be16_Inr read_be24_Inr read_be32_Inr

text \<open>Every multi-byte read throws exactly when its bytes are not all inside the buffer, and
  otherwise returns the big-endian number they spell.\<close>

lemma be_reads_spec:
  "read_be16 bs off = (if off + 2 \<le> length bs
     then Inr (of_nat (be_value (slice bs off (off + 2))))
     else Inl (RuntimeError ''unexpected end of BOO file while reading u16'')) \<and>
   read_be24 bs off = (if off + 3 \<le> length bs
     then Inr (of_nat (be_value (slice bs off (off + 3))))
     else Inl (RuntimeError ''unexpected end of BOO file while reading u24'')) \<and>
   read_be32 bs off = (if off + 4 \<le> length bs
     then Inr (of_nat (be_value (slice bs off (off + 4))))
     else Inl (RuntimeError ''unexpected end of BOO file while reading u32''))"
  by (intro conjI; rule be16.read_eq be24.read_eq be32.read_eq)

lemma byte_range_unat:
  assumes "length bs < 2 ^ 64"
  shows "byte_range_is_valid bs off sz \<longleftrightarrow> unat off + unat sz \<le> length bs"
proof -
  have len: "unat (of_nat (length bs) :: u64) = length bs"
    using assms by (simp add: unsigned_of_nat take_bit_nat_eq_self)
  have "unat (of_nat (length bs) - off) = length bs - unat off"
    if "off \<le> of_nat (length bs)"
    using that by (simp add: unat_sub_if_size len word_le_nat_alt)
  then show ?thesis
    by (auto simp: byte_range_is_valid_def word_le_nat_alt len)
qed

text \<open>A byte range is accepted exactly when its end, computed without wrap-around, is inside the
  file; an offset and a size whose 64-bit sum wraps are refused.\<close>

lemma byte_range_is_valid_iff:
  assumes "length bs < 2 ^ 64"
  shows "byte_range_is_valid bs off sz \<longleftrightarrow> unat off + unat sz \<le> length bs"
  using assms by (rule byte_range_unat)

end
