(* ===== verification/Ebcdic.thy ===== *)
theory Ebcdic
  imports Bytes "HOL-Library.Char_ord"
begin

section \<open>EBCDIC code pages and token words (\<open>src/core/ebcdic.cpp\<close>, \<open>src/cp/\<close>)\<close>

text \<open>
  The three code-page tables, the codec that reads them, the case tables for dictionary words and
  the projection of token words to UTF-8 text. A codec object is its code page: \<open>EbcdicCodec\<close> holds
  nothing but a pointer to one of the tables.
\<close>

subsection \<open>The tables\<close>

definition cp037_to_unicode :: "u16 list" where
  "cp037_to_unicode =
   [0x0000, 0x0001, 0x0002, 0x0003, 0x009C, 0x0009, 0x0086, 0x007F,
    0x0097, 0x008D, 0x008E, 0x000B, 0x000C, 0x000D, 0x000E, 0x000F,
    0x0010, 0x0011, 0x0012, 0x0013, 0x009D, 0x0085, 0x0008, 0x0087,
    0x0018, 0x0019, 0x0092, 0x008F, 0x001C, 0x001D, 0x001E, 0x001F,
    0x0080, 0x0081, 0x0082, 0x0083, 0x0084, 0x000A, 0x0017, 0x001B,
    0x0088, 0x0089, 0x008A, 0x008B, 0x008C, 0x0005, 0x0006, 0x0007,
    0x0090, 0x0091, 0x0016, 0x0093, 0x0094, 0x0095, 0x0096, 0x0004,
    0x0098, 0x0099, 0x009A, 0x009B, 0x0014, 0x0015, 0x009E, 0x001A,
    0x0020, 0x00A0, 0x00E2, 0x00E4, 0x00E0, 0x00E1, 0x00E3, 0x00E5,
    0x00E7, 0x00F1, 0x00A2, 0x002E, 0x003C, 0x0028, 0x002B, 0x007C,
    0x0026, 0x00E9, 0x00EA, 0x00EB, 0x00E8, 0x00ED, 0x00EE, 0x00EF,
    0x00EC, 0x00DF, 0x0021, 0x0024, 0x002A, 0x0029, 0x003B, 0x00AC,
    0x002D, 0x002F, 0x00C2, 0x00C4, 0x00C0, 0x00C1, 0x00C3, 0x00C5,
    0x00C7, 0x00D1, 0x00A6, 0x002C, 0x0025, 0x005F, 0x003E, 0x003F,
    0x00F8, 0x00C9, 0x00CA, 0x00CB, 0x00C8, 0x00CD, 0x00CE, 0x00CF,
    0x00CC, 0x0060, 0x003A, 0x0023, 0x0040, 0x0027, 0x003D, 0x0022,
    0x00D8, 0x0061, 0x0062, 0x0063, 0x0064, 0x0065, 0x0066, 0x0067,
    0x0068, 0x0069, 0x00AB, 0x00BB, 0x00F0, 0x00FD, 0x00FE, 0x00B1,
    0x00B0, 0x006A, 0x006B, 0x006C, 0x006D, 0x006E, 0x006F, 0x0070,
    0x0071, 0x0072, 0x00AA, 0x00BA, 0x00E6, 0x00B8, 0x00C6, 0x00A4,
    0x00B5, 0x007E, 0x0073, 0x0074, 0x0075, 0x0076, 0x0077, 0x0078,
    0x0079, 0x007A, 0x00A1, 0x00BF, 0x00D0, 0x00DD, 0x00DE, 0x00AE,
    0x005E, 0x00A3, 0x00A5, 0x00B7, 0x00A9, 0x00A7, 0x00B6, 0x00BC,
    0x00BD, 0x00BE, 0x005B, 0x005D, 0x00AF, 0x00A8, 0x00B4, 0x00D7,
    0x007B, 0x0041, 0x0042, 0x0043, 0x0044, 0x0045, 0x0046, 0x0047,
    0x0048, 0x0049, 0x00AD, 0x00F4, 0x00F6, 0x00F2, 0x00F3, 0x00F5,
    0x007D, 0x004A, 0x004B, 0x004C, 0x004D, 0x004E, 0x004F, 0x0050,
    0x0051, 0x0052, 0x00B9, 0x00FB, 0x00FC, 0x00F9, 0x00FA, 0x00FF,
    0x005C, 0x00F7, 0x0053, 0x0054, 0x0055, 0x0056, 0x0057, 0x0058,
    0x0059, 0x005A, 0x00B2, 0x00D4, 0x00D6, 0x00D2, 0x00D3, 0x00D5,
    0x0030, 0x0031, 0x0032, 0x0033, 0x0034, 0x0035, 0x0036, 0x0037,
    0x0038, 0x0039, 0x00B3, 0x00DB, 0x00DC, 0x00D9, 0x00DA, 0x009F]"

definition cp500_to_token_word :: "u16 list" where
  "cp500_to_token_word =
   [0xFFFF, 0x0001, 0xFFFF, 0xFFFF, 0x2666, 0xFFFF, 0xFFFF, 0xFFFF,
    0xFFFF, 0x25CB, 0xFFFF, 0xFFFF, 0xFFFF, 0xFFFF, 0xFFFF, 0xFFFF,
    0x25BA, 0xFFFF, 0xFFFF, 0xFFFF, 0x2191, 0x2193, 0xFFFF, 0xFFFF,
    0xFFFF, 0xFFFF, 0xFFFF, 0x2510, 0x250C, 0xFFFF, 0x2514, 0x2518,
    0x00D7, 0x2551, 0x2550, 0x2554, 0x2566, 0xFFFF, 0x2557, 0xFFFF,
    0x2584, 0x2580, 0x2192, 0x2190, 0x253C, 0x2500, 0x2265, 0x2264,
    0x2560, 0x256C, 0x2563, 0x255A, 0x2569, 0x255D, 0xE936, 0x258C,
    0x2588, 0x2590, 0x25A0, 0x252C, 0xFFFF, 0x251C, 0x2534, 0x2524,
    0x0020, 0x00A0, 0x00E2, 0x00E4, 0x00E0, 0x00E1, 0x00E3, 0x00E5,
    0x00E7, 0x00F1, 0x005B, 0x002E, 0x003C, 0x0028, 0x002B, 0x0021,
    0x0026, 0x00E9, 0x00EA, 0x00EB, 0x00E8, 0x00ED, 0x00EE, 0x00EF,
    0x00EC, 0x00DF, 0x005D, 0x0024, 0x002A, 0x0029, 0x003B, 0x005E,
    0x002D, 0x002F, 0x00C2, 0x00C4, 0x00C0, 0x00C1, 0x00C3, 0x00C5,
    0x00C7, 0x00D1, 0x00A6, 0x002C, 0x0025, 0x005F, 0x003E, 0x003F,
    0x00F8, 0x00C9, 0x00CA, 0x00CB, 0x00C8, 0x00CD, 0x00CE, 0x00CF,
    0x00CC, 0x0060, 0x003A, 0x0023, 0x0040, 0x0027, 0x003D, 0x0022,
    0x00D8, 0x0061, 0x0062, 0x0063, 0x0064, 0x0065, 0x0066, 0x0067,
    0x0068, 0x0069, 0x00AB, 0x00BB, 0x00F0, 0x00FD, 0x00FE, 0x00B1,
    0x00B0, 0x006A, 0x006B, 0x006C, 0x006D, 0x006E, 0x006F, 0x0070,
    0x0071, 0x0072, 0x00AA, 0x00BA, 0x00E6, 0x00B8, 0x00C6, 0x00A4,
    0x00B5, 0x007E, 0x0073, 0x0074, 0x0075, 0x0076, 0x0077, 0x0078,
    0x0079, 0x007A, 0x00A1, 0x00BF, 0x00D0, 0x00DD, 0x00DE, 0x00AE,
    0x00A2, 0x00A3, 0x00A5, 0x00B7, 0x00A9, 0x00A7, 0x00B6, 0x00BC,
    0x00BD, 0x00BE, 0x00AC, 0x007C, 0x00AF, 0x00A8, 0x00B4, 0x2502,
    0x007B, 0x0041, 0x0042, 0x0043, 0x0044, 0x0045, 0x0046, 0x0047,
    0x0048, 0x0049, 0x00AD, 0x00F4, 0x00F6, 0x00F2, 0x00F3, 0x00F5,
    0x007D, 0x004A, 0x004B, 0x004C, 0x004D, 0x004E, 0x004F, 0x0050,
    0x0051, 0x0052, 0x00B9, 0x00FB, 0x00FC, 0x00F9, 0x00FA, 0x00FF,
    0x005C, 0x00F7, 0x0053, 0x0054, 0x0055, 0x0056, 0x0057, 0x0058,
    0x0059, 0x005A, 0x00B2, 0x00D4, 0x00D6, 0x00D2, 0x00D3, 0x00D5,
    0x0030, 0x0031, 0x0032, 0x0033, 0x0034, 0x0035, 0x0036, 0x0037,
    0x0038, 0x0039, 0x00B3, 0x00DB, 0x00DC, 0x00D9, 0x00DA, 0xFFFF]"

definition cp351_to_token_word :: "u16 list" where
  "cp351_to_token_word =
   [0xFFFF, 0x0001, 0x0002, 0xFFFF, 0xFFFF, 0xFFFF, 0xFFFF, 0xFFFF,
    0x2580, 0xFFFF, 0xFFFF, 0xFFFF, 0xFFFF, 0xFFFF, 0xFFFF, 0xFFFF,
    0x25BA, 0xFFFF, 0xFFFF, 0xFFFF, 0xFFFF, 0xFFFF, 0xFFFF, 0xFFFF,
    0x2588, 0xFFFF, 0xFFFF, 0x2510, 0x250C, 0xFFFF, 0x2514, 0x2518,
    0xFFFF, 0xFFFF, 0xFFFF, 0xFFFF, 0xFFFF, 0xFFFF, 0xFFFF, 0xFFFF,
    0x2584, 0xFFFF, 0xFFFF, 0x00A7, 0x253C, 0x2500, 0xFFFF, 0xFFFF,
    0xFFFF, 0x00B9, 0x00B2, 0x00B3, 0xFFFF, 0xFFFF, 0xE936, 0xFFFF,
    0xFFFF, 0xFFFF, 0x00B6, 0x252C, 0xFFFF, 0x251C, 0x2534, 0x2524,
    0x0020, 0xFFFF, 0xFFFF, 0xFFFF, 0xFFFF, 0xFFFF, 0xFFFF, 0xFFFF,
    0xFFFF, 0xFFFF, 0x00A2, 0x002E, 0x003C, 0x0028, 0x002B, 0x007C,
    0x0026, 0xFFFF, 0xFFFF, 0xFFFF, 0xFFFF, 0xFFFF, 0xFFFF, 0xFFFF,
    0xFFFF, 0xFFFF, 0x0021, 0x0024, 0x002A, 0x0029, 0x003B, 0x005E,
    0x002D, 0x002F, 0xFFFF, 0xFFFF, 0xFFFF, 0xFFFF, 0xFFFF, 0xFFFF,
    0xFFFF, 0xFFFF, 0x00A6, 0x002C, 0x0025, 0x005F, 0x003E, 0x003F,
    0xFFFF, 0x00AC, 0xFFFF, 0xFFFF, 0xFFFF, 0xFFFF, 0xFFFF, 0x00B0,
    0xFFFF, 0x0060, 0x003A, 0x0023, 0x0040, 0x0027, 0x003D, 0x0022,
    0xFFFF, 0x0061, 0x0062, 0x0063, 0x0064, 0x0065, 0x0066, 0x0067,
    0x0068, 0x0069, 0x2191, 0x2193, 0xFFFF, 0xFFFF, 0xFFFF, 0x2192,
    0xFFFF, 0x006A, 0x006B, 0x006C, 0x006D, 0x006E, 0x006F, 0x0070,
    0x0071, 0x0072, 0xFFFF, 0xFFFF, 0x00A4, 0x25CB, 0x00B1, 0x2190,
    0xFFFF, 0x007E, 0x0073, 0x0074, 0x0075, 0x0076, 0x0077, 0x0078,
    0x0079, 0x007A, 0xFFFF, 0xFFFF, 0xFFFF, 0x005B, 0xFFFF, 0xFFFF,
    0xFFFF, 0xFFFF, 0xFFFF, 0xFFFF, 0xFFFF, 0x25A0, 0x00D7, 0xFFFF,
    0x00F7, 0x2666, 0x25BC, 0x25B2, 0xFFFF, 0x005D, 0xFFFF, 0x2502,
    0x007B, 0x0041, 0x0042, 0x0043, 0x0044, 0x0045, 0x0046, 0x0047,
    0x0048, 0x0049, 0xFFFF, 0xFFFF, 0xFFFF, 0xFFFF, 0xFFFF, 0xFFFF,
    0x007D, 0x004A, 0x004B, 0x004C, 0x004D, 0x004E, 0x004F, 0x0050,
    0x0051, 0x0052, 0xFFFF, 0xFFFF, 0xFFFF, 0xFFFF, 0xFFFF, 0xFFFF,
    0x005C, 0xFFFF, 0x0053, 0x0054, 0x0055, 0x0056, 0x0057, 0x0058,
    0x0059, 0x005A, 0xFFFF, 0xFFFF, 0xFFFF, 0xFFFF, 0xFFFF, 0xFFFF,
    0x0030, 0x0031, 0x0032, 0x0033, 0x0034, 0x0035, 0x0036, 0x0037,
    0x0038, 0x0039, 0xFFFF, 0xFFFF, 0xFFFF, 0xFFFF, 0xFFFF, 0xFFFF]"

datatype code_page = Cp037 | Cp500 | Cp351

fun table_for :: "code_page \<Rightarrow> u16 list" where
  "table_for Cp037 = cp037_to_unicode"
| "table_for Cp500 = cp500_to_token_word"
| "table_for Cp351 = cp351_to_token_word"

subsection \<open>The codec\<close>

text \<open>\<open>static_cast<char>\<close> keeps the low byte.\<close>

definition char_of_word :: "u16 \<Rightarrow> char" where
  "char_of_word w = char_of (unat w)"

definition unicode_to_ascii :: "u16 \<Rightarrow> char \<Rightarrow> char" where
  "unicode_to_ascii word replacement =
     (if word \<ge> 0x20 \<and> word \<le> 0x7E then char_of_word word
      else if word = 0x00A0 then CHR '' ''
      else if word = 0x00A9 then CHR ''c''
      else replacement)"

definition decode_word :: "code_page \<Rightarrow> byte \<Rightarrow> u16" where
  "decode_word cp b = table_for cp ! unat b"

definition decode_ascii_byte :: "code_page \<Rightarrow> byte \<Rightarrow> char" where
  "decode_ascii_byte cp b = unicode_to_ascii (decode_word cp b) CHR ''?''"

definition decode_ascii :: "code_page \<Rightarrow> bytes \<Rightarrow> nat \<Rightarrow> nat \<Rightarrow> string \<Rightarrow> string result" where
  "decode_ascii cp bs off count range_error =
     (if off + count > length bs then Inl (RuntimeError range_error)
      else Inr (map (\<lambda>i. decode_ascii_byte cp (byte_at bs (off + i))) [0..<count]))"

subsection \<open>Case of token words\<close>

definition map_token_word_to_upper_ascii :: "u16 \<Rightarrow> u16" where
  "map_token_word_to_upper_ascii word =
     (if word \<ge> 0x61 \<and> word \<le> 0x7A then word - 32 else word)"

definition map_token_word_to_lower_ascii :: "u16 \<Rightarrow> u16" where
  "map_token_word_to_lower_ascii word =
     (if word \<ge> 0x41 \<and> word \<le> 0x5A then word + 32 else word)"

definition map_token_word_to_upper :: "u16 \<Rightarrow> u16" where
  "map_token_word_to_upper word =
     (if word \<ge> 0xE0 \<and> word \<le> 0xFE \<and> word \<noteq> 0xF7 then word - 0x20
      else if word = 0xDF then 0x53
      else map_token_word_to_upper_ascii word)"

definition map_token_word_to_lower :: "u16 \<Rightarrow> u16" where
  "map_token_word_to_lower word =
     (if word \<ge> 0xC0 \<and> word \<le> 0xDE \<and> word \<noteq> 0xD7 then word + 0x20
      else map_token_word_to_lower_ascii word)"

subsection \<open>Projection to text\<close>

definition token_word_ascii_width :: "u16 \<Rightarrow> nat" where
  "token_word_ascii_width word = (if word \<ge> 0x00A1 \<and> word \<le> 0x00FF then 2 else 1)"

definition token_word_to_ascii :: "u16 \<Rightarrow> string" where
  "token_word_to_ascii word =
     (if word \<ge> 0x20 \<and> word \<le> 0x7E then [char_of_word word]
      else if word = 0x00A0 then [CHR '' '']
      else if word \<ge> 0x00A1 \<and> word \<le> 0x00FF
        then [char_of_word (0xC0 OR drop_bit 6 word), char_of_word (0x80 OR (word AND 0x3F))]
      else [CHR ''?''])"

fun token_words_to_ascii :: "token_words \<Rightarrow> string" where
  "token_words_to_ascii [] = []"
| "token_words_to_ascii (word # words) = token_word_to_ascii word @ token_words_to_ascii words"

text \<open>The byte offset each word of the projection starts at, with the total length at the end.\<close>

fun projection_offsets :: "nat \<Rightarrow> token_words \<Rightarrow> nat list" where
  "projection_offsets at [] = [at]"
| "projection_offsets at (word # words) =
     at # projection_offsets (at + token_word_ascii_width word) words"

subsection \<open>Laws\<close>

lemma length_tables [simp]: "length (table_for cp) = 256"
  by (cases cp) (simp_all add: cp037_to_unicode_def cp500_to_token_word_def
      cp351_to_token_word_def)

lemma decode_ascii_returns: "returns (decode_ascii cp bs off n m) \<longleftrightarrow> off + n \<le> length bs"
  by (simp add: decode_ascii_def)

lemma length_token_word_to_ascii [simp]:
  "length (token_word_to_ascii w) = token_word_ascii_width w"
  by (auto simp: token_word_to_ascii_def token_word_ascii_width_def word_le_nat_alt)

lemma length_token_words_to_ascii:
  "length (token_words_to_ascii words) = sum_list (map token_word_ascii_width words)"
  by (induction words) auto

lemma token_words_to_ascii_append [simp]:
  "token_words_to_ascii (xs @ ys) = token_words_to_ascii xs @ token_words_to_ascii ys"
  by (induction xs) auto

lemma token_word_ascii_width_pos: "0 < token_word_ascii_width w"
  by (simp add: token_word_ascii_width_def)

lemma length_projection_offsets [simp]:
  "length (projection_offsets at words) = length words + 1"
  by (induction words arbitrary: at) auto

lemma projection_offsets_nth:
  "i \<le> length words \<Longrightarrow>
   projection_offsets at words ! i = at + length (token_words_to_ascii (take i words))"
proof (induction words arbitrary: at i)
  case Nil
  then show ?case by simp
next
  case (Cons w ws)
  then show ?case by (cases i) auto
qed

text \<open>The EBCDIC spelling of the characters all three pages share: the letters, the digits and the
  blank.\<close>

definition invariant_ebcdic :: "char \<Rightarrow> byte" where
  "invariant_ebcdic c =
     (let n = of_char c in
      if CHR ''A'' \<le> c \<and> c \<le> CHR ''I'' then 0xC1 + (n - 0x41)
      else if CHR ''J'' \<le> c \<and> c \<le> CHR ''R'' then 0xD1 + (n - 0x4A)
      else if CHR ''S'' \<le> c \<and> c \<le> CHR ''Z'' then 0xE2 + (n - 0x53)
      else if CHR ''a'' \<le> c \<and> c \<le> CHR ''i'' then 0x81 + (n - 0x61)
      else if CHR ''j'' \<le> c \<and> c \<le> CHR ''r'' then 0x91 + (n - 0x6A)
      else if CHR ''s'' \<le> c \<and> c \<le> CHR ''z'' then 0xA2 + (n - 0x73)
      else if CHR ''0'' \<le> c \<and> c \<le> CHR ''9'' then 0xF0 + (n - 0x30)
      else 0x40)"

definition invariant_characters :: string where
  "invariant_characters =
     ''ABCDEFGHIJKLMNOPQRSTUVWXYZabcdefghijklmnopqrstuvwxyz0123456789 ''"

text \<open>Whatever code page a book selects, the EBCDIC letters, digits and blank decode to the same
  ASCII characters.\<close>

lemma code_pages_agree_on_invariants:
  "map (decode_ascii_byte cp \<circ> invariant_ebcdic) invariant_characters = invariant_characters"
  by (cases cp)
    (simp_all add: invariant_characters_def invariant_ebcdic_def decode_ascii_byte_def
      decode_word_def unicode_to_ascii_def char_of_word_def less_eq_char_def
      char_of_eq_iff cp037_to_unicode_def cp500_to_token_word_def cp351_to_token_word_def)

lemma unicode_to_ascii_printable:
  assumes "CHR '' '' \<le> r" and "r \<le> CHR ''~''"
  shows "CHR '' '' \<le> unicode_to_ascii w r \<and> unicode_to_ascii w r \<le> CHR ''~''"
  using assms
  by (auto simp: unicode_to_ascii_def char_of_word_def word_le_nat_alt less_eq_char_def)

text \<open>Decoding text either throws the caller's message, exactly when the range leaves the file, or
  returns one printable ASCII character for every byte.\<close>

lemma decode_ascii_spec:
  "case decode_ascii cp bs off n message of
     Inl e \<Rightarrow> length bs < off + n \<and> e = RuntimeError message
   | Inr s \<Rightarrow> off + n \<le> length bs \<and> length s = n \<and>
             list_all (\<lambda>c. CHR '' '' \<le> c \<and> c \<le> CHR ''~'') s"
proof -
  have "CHR '' '' \<le> decode_ascii_byte cp b \<and> decode_ascii_byte cp b \<le> CHR ''~''" for b
    unfolding decode_ascii_byte_def
    by (rule unicode_to_ascii_printable) (simp_all add: less_eq_char_def)
  then show ?thesis by (auto simp: decode_ascii_def list_all_iff)
qed

lemmas case_table_defs =
  map_token_word_to_upper_def map_token_word_to_lower_def
  map_token_word_to_upper_ascii_def map_token_word_to_lower_ascii_def

text \<open>The dictionary's case tables are inverse to each other up to case: folding twice changes
  nothing, the last fold decides, and the only letter that does not come back is sharp s, whose
  upper case is S.\<close>

lemma case_tables_laws:
  "map_token_word_to_upper (map_token_word_to_upper w) = map_token_word_to_upper w \<and>
   map_token_word_to_lower (map_token_word_to_lower w) = map_token_word_to_lower w \<and>
   map_token_word_to_upper (map_token_word_to_lower w) = map_token_word_to_upper w \<and>
   map_token_word_to_lower (map_token_word_to_upper w) =
     (if w = 0xDF then 0x73 else map_token_word_to_lower w)"
  unfolding case_table_defs
  by (intro conjI)
    (auto simp: word_le_nat_alt word_unat_eq_iff unat_sub_if_size unat_plus_if_size word_size)

end
