(* ===== verification/Strings.thy ===== *)
theory Strings
  imports Prelude "HOL-Library.Char_ord" "HOL-Library.Sublist"
begin

section \<open>Text helpers (\<open>src/core/strings.cpp\<close>)\<close>

text \<open>
  The string routines of the core: trimming, the ASCII case fold, case-insensitive search and
  replacement, and the title and identifier normalisations built on them. Character classes are
  those of \<open><cctype>\<close> in the C locale, which the library never changes.
\<close>

subsection \<open>Character classes of the C locale\<close>

definition char_code :: "char \<Rightarrow> nat" where
  "char_code c = of_char c"

definition isspace :: "char \<Rightarrow> bool" where
  "isspace c \<longleftrightarrow> char_code c = 32 \<or> 9 \<le> char_code c \<and> char_code c \<le> 13"

definition isdigit :: "char \<Rightarrow> bool" where
  "isdigit c \<longleftrightarrow> CHR ''0'' \<le> c \<and> c \<le> CHR ''9''"

definition isupper :: "char \<Rightarrow> bool" where
  "isupper c \<longleftrightarrow> CHR ''A'' \<le> c \<and> c \<le> CHR ''Z''"

definition islower :: "char \<Rightarrow> bool" where
  "islower c \<longleftrightarrow> CHR ''a'' \<le> c \<and> c \<le> CHR ''z''"

definition isalpha :: "char \<Rightarrow> bool" where
  "isalpha c \<longleftrightarrow> isupper c \<or> islower c"

definition isalnum :: "char \<Rightarrow> bool" where
  "isalnum c \<longleftrightarrow> isalpha c \<or> isdigit c"

definition ispunct :: "char \<Rightarrow> bool" where
  "ispunct c \<longleftrightarrow> 33 \<le> char_code c \<and> char_code c \<le> 126 \<and> \<not> isalnum c"

definition toupper :: "char \<Rightarrow> char" where
  "toupper c = (if islower c then char_of (char_code c - 32) else c)"




text \<open>Facts about characters reduce to facts about their codes.\<close>

lemma char_code_eq: "c = d \<longleftrightarrow> char_code c = char_code d"
  by (simp add: char_code_def)

lemma char_code_le: "c \<le> d \<longleftrightarrow> char_code c \<le> char_code d"
  by (simp add: char_code_def less_eq_char_def)

lemma char_code_char_of [simp]: "char_code (char_of n) = n mod 256"
  by (simp add: char_code_def)

lemma char_code_less [simp]: "char_code c < 256"
  by (simp add: char_code_def)

lemma char_code_mod [simp]: "char_code c mod 256 = char_code c"
  by (simp add: char_code_def)

lemma char_code_diff_mod [simp]: "(char_code c - n) mod 256 = char_code c - n"
  by (simp add: less_imp_diff_less)

lemma char_code_Char [simp]:
  "char_code (Char b0 b1 b2 b3 b4 b5 b6 b7) =
     of_bool b0 + 2 * (of_bool b1 + 2 * (of_bool b2 + 2 * (of_bool b3 + 2 * (of_bool b4 +
     2 * (of_bool b5 + 2 * (of_bool b6 + 2 * of_bool b7))))))"
  by (simp add: char_code_def)

lemmas ctype_codes = isspace_def isdigit_def isupper_def islower_def isalpha_def
  isalnum_def ispunct_def toupper_def char_code_eq char_code_le

subsection \<open>\<open>std::string::find\<close>\<close>

definition starts_with :: "string \<Rightarrow> string \<Rightarrow> bool" where
  "starts_with s needle \<longleftrightarrow> take (length needle) s = needle"

fun find_first :: "string \<Rightarrow> string \<Rightarrow> nat option" where
  "find_first [] needle = (if needle = [] then Some 0 else None)"
| "find_first (c # cs) needle =
     (if starts_with (c # cs) needle then Some 0 else map_option Suc (find_first cs needle))"

definition find_from :: "string \<Rightarrow> string \<Rightarrow> nat \<Rightarrow> nat option" where
  "find_from s needle pos =
     (if pos \<le> length s then map_option (\<lambda>i. pos + i) (find_first (drop pos s) needle) else None)"

subsection \<open>Trimming\<close>

definition trim_right_spaces :: "string \<Rightarrow> string" where
  "trim_right_spaces value = rev (dropWhile (\<lambda>c. c = CHR '' '') (rev value))"

definition ascii_blank :: "char \<Rightarrow> bool" where
  "ascii_blank ch \<longleftrightarrow> isspace ch \<or> char_code ch < 0x20"

definition trim_ascii_where :: "string \<Rightarrow> (char \<Rightarrow> bool) \<Rightarrow> string" where
  "trim_ascii_where value drp = dropWhile drp (rev (dropWhile drp (rev value)))"

definition trim_ascii_whitespace :: "string \<Rightarrow> string" where
  "trim_ascii_whitespace value = trim_ascii_where value ascii_blank"

definition trim_ascii :: "string \<Rightarrow> string" where
  "trim_ascii value = trim_ascii_where value (\<lambda>ch. ascii_blank ch \<or> ch = CHR ''?'')"

subsection \<open>Case-insensitive comparison\<close>

definition ascii_lower_char :: "char \<Rightarrow> char" where
  "ascii_lower_char ch =
     (if CHR ''A'' \<le> ch \<and> ch \<le> CHR ''Z'' then char_of (char_code ch - 0x41 + 0x61) else ch)"

definition ascii_lower :: "string \<Rightarrow> string" where
  "ascii_lower value = map ascii_lower_char value"

fun equal_folded :: "string \<Rightarrow> string \<Rightarrow> bool" where
  "equal_folded [] [] = True"
| "equal_folded (a # as) (b # bs) =
     (if ascii_lower_char a \<noteq> ascii_lower_char b then False else equal_folded as bs)"
| "equal_folded _ _ = False"

definition ascii_equals_case_insensitive :: "string \<Rightarrow> string \<Rightarrow> bool" where
  "ascii_equals_case_insensitive left right =
     (if length left \<noteq> length right then False else equal_folded left right)"

definition ascii_starts_with_case_insensitive_at :: "string \<Rightarrow> nat \<Rightarrow> string \<Rightarrow> bool" where
  "ascii_starts_with_case_insensitive_at value offset pre =
     (if offset + length pre > length value then False
      else equal_folded (take (length pre) (drop offset value)) pre)"

definition ascii_starts_with_case_insensitive :: "string \<Rightarrow> string \<Rightarrow> bool" where
  "ascii_starts_with_case_insensitive value pre = ascii_starts_with_case_insensitive_at value 0 pre"

definition ascii_contains_case_insensitive :: "string \<Rightarrow> string \<Rightarrow> bool" where
  "ascii_contains_case_insensitive value needle =
     (if length needle > length value then False
      else list_ex (\<lambda>offset. equal_folded (take (length needle) (drop offset value)) needle)
             [0..<Suc (length value - length needle)])"

subsection \<open>Replacement\<close>

text \<open>
  The loop of \<open>replace_all_case_insensitive\<close> as it is written, over the mutated value and the
  offset; \<open>None\<close> is a call that does not return. The function the rest of the model uses walks the
  remaining suffix instead; \<open>replace_loop_suffix\<close> shows the two agree.
\<close>

partial_function (option) replace_loop ::
  "string \<Rightarrow> nat \<Rightarrow> string \<Rightarrow> string \<Rightarrow> string option" where
  "replace_loop value offset needle replacement =
     (if offset < length value then
        (if ascii_starts_with_case_insensitive_at value offset needle
         then replace_loop (take offset value @ replacement @ drop (offset + length needle) value)
                (offset + length replacement) needle replacement
         else replace_loop value (offset + 1) needle replacement)
      else Some value)"

function replace_all_case_insensitive :: "string \<Rightarrow> string \<Rightarrow> string \<Rightarrow> string" where
  "replace_all_case_insensitive [] needle replacement = []"
| "replace_all_case_insensitive (c # cs) needle replacement =
     (if needle \<noteq> [] \<and> ascii_starts_with_case_insensitive (c # cs) needle
      then replacement @
           replace_all_case_insensitive (drop (length needle) (c # cs)) needle replacement
      else c # replace_all_case_insensitive cs needle replacement)"
  by pat_completeness auto
termination
  by (relation "measure (\<lambda>(value, _, _). length value)") (auto simp: neq_Nil_conv)

subsection \<open>Decimal numerals (\<open>std::to_string\<close>)\<close>

definition digit_char :: "nat \<Rightarrow> char" where
  "digit_char d = char_of (48 + d)"

fun decimal :: "nat \<Rightarrow> string" where
  "decimal n = (if n < 10 then [digit_char n] else decimal (n div 10) @ [digit_char (n mod 10)])"

declare decimal.simps [simp del]

subsection \<open>Capitalisation and normalised values\<close>

fun capitalize_words_from :: "bool \<Rightarrow> string \<Rightarrow> string" where
  "capitalize_words_from _ [] = []"
| "capitalize_words_from capitalize_next (ch # rest) =
     (if isalpha ch
      then (if capitalize_next then toupper ch else ch) # capitalize_words_from False rest
      else ch # capitalize_words_from
                  (ch = CHR '' '' \<or> ch = CHR '':'' \<or> ch = CHR ''('' \<or> ch = CHR ''-'') rest)"

definition capitalize_bookmanager_words :: "string \<Rightarrow> string" where
  "capitalize_bookmanager_words value = capitalize_words_from True value"

definition restore_product_names :: "string \<Rightarrow> string" where
  "restore_product_names v0 =
     (let v1 = replace_all_case_insensitive v0 ''AS/400'' ''AS/400'';
          v2 = replace_all_case_insensitive v1 ''(TM)'' ''(TM)'';
          v3 = replace_all_case_insensitive v2 ''Officevision'' ''OfficeVision''
      in replace_all_case_insensitive v3 ''Cross-Reference'' ''Cross-Reference'')"

definition normalize_logical_control_value :: "string \<Rightarrow> string \<Rightarrow> string" where
  "normalize_logical_control_value key value =
     (if key = ''CDOCNUM'' then map toupper value
      else if key = ''CTITLE'' \<or> key = ''CSTITLE''
        then restore_product_names (capitalize_bookmanager_words value)
      else if key = ''CCOPYRIGHT'' then replace_all_case_insensitive value ''IBM'' ''IBM''
      else if key = ''CDATE'' then capitalize_bookmanager_words value
      else value)"

definition minor_words :: "string list" where
  "minor_words = [''a'', ''an'', ''and'', ''for'', ''in'', ''of'', ''on'', ''or'', ''the'',
                  ''to'', ''with'']"

text \<open>The parts of a word between hyphens; the first part of the first word keeps its case.\<close>

function normalize_title_parts :: "bool \<Rightarrow> bool \<Rightarrow> string \<Rightarrow> string" where
  "normalize_title_parts first_word first_part rest =
     (let part = takeWhile (\<lambda>c. c \<noteq> CHR ''-'') rest;
          lower_part = ascii_lower part;
          shown = (if \<not> (first_word \<and> first_part) \<and> lower_part \<in> set minor_words
                   then lower_part else part);
          out = (if first_part then [] else [CHR ''-'']) @ shown
      in if CHR ''-'' \<in> set rest
         then out @ normalize_title_parts first_word False (drop (length part + 1) rest)
         else out)"
  by pat_completeness auto
termination
  by (relation "measure (\<lambda>(_, _, rest). length rest)")
    (auto intro!: diff_less length_pos_if_in_set)

declare normalize_title_parts.simps [simp del]

function normalize_title_words :: "bool \<Rightarrow> string \<Rightarrow> string" where
  "normalize_title_words first_word [] = []"
| "normalize_title_words first_word (c # cs) =
     (if isspace c then c # normalize_title_words first_word cs
      else let word = takeWhile (\<lambda>x. \<not> isspace x) (c # cs)
           in normalize_title_parts first_word True word @
              normalize_title_words False (drop (length word) (c # cs)))"
  by pat_completeness auto
termination
  by (relation "measure (\<lambda>(_, rest). length rest)") auto

definition drop_dangling_punctuation :: "string \<Rightarrow> string" where
  "drop_dangling_punctuation value =
     (if length value \<ge> 2 \<and> isspace (value ! (length value - 2)) \<and>
         last value \<in> set ''()<>/-:=\"''
      then trim_ascii (butlast value) else value)"

definition normalize_toc_title :: "string \<Rightarrow> string" where
  "normalize_toc_title value =
     (let v0 = fold (\<lambda>marker v. replace_all_case_insensitive v marker [])
                 [''<IMAGE>'', ''<INTERNET>'', ''<OTHER>'', ''<>''] value;
          v1 = drop_dangling_punctuation (trim_ascii v0);
          v2 = normalize_title_words True (capitalize_bookmanager_words v1);
          v3 = restore_product_names v2;
          v4 = replace_all_case_insensitive v3 ''Ocl'' ''OCL'';
          v5 = replace_all_case_insensitive v4 ''Dbcs'' ''DBCS''
      in replace_all_case_insensitive v5 ''User Id'' ''User ID'')"

definition normalize_toc_id :: "string \<Rightarrow> string" where
  "normalize_toc_id value = map toupper value"

fun collapse_from :: "bool \<Rightarrow> string \<Rightarrow> string \<Rightarrow> string" where
  "collapse_from in_space output [] = output"
| "collapse_from in_space output (ch # rest) =
     (if isspace ch \<or> char_code ch < 0x20 then collapse_from True output rest
      else let spaced = (if in_space \<and> output \<noteq> [] then output @ [CHR '' ''] else output)
           in collapse_from False (spaced @ [ch]) rest)"

definition collapse_ascii_whitespace :: "string \<Rightarrow> string" where
  "collapse_ascii_whitespace value = trim_ascii (collapse_from False [] value)"

subsection \<open>Search\<close>

lemma starts_with_prefix: "starts_with s needle \<longleftrightarrow> prefix needle s"
  unfolding starts_with_def by (metis append_eq_conv_conj prefix_def)

lemma starts_with_append [simp]: "starts_with (needle @ s) needle"
  by (simp add: starts_with_def)

lemma find_first_Some:
  "find_first s needle = Some i \<Longrightarrow>
   i + length needle \<le> length s \<and> starts_with (drop i s) needle \<and>
   (\<forall>j < i. \<not> starts_with (drop j s) needle)"
proof (induction s needle arbitrary: i rule: find_first.induct)
  case (1 needle)
  then show ?case by (auto simp: starts_with_def split: if_splits)
next
  case (2 c cs needle)
  show ?case
  proof (cases "starts_with (c # cs) needle")
    case True
    with "2.prems" show ?thesis by (auto simp: starts_with_prefix dest: prefix_length_le)
  next
    case False
    with "2.prems" obtain k where k: "find_first cs needle = Some k" "i = Suc k" by auto
    from "2.IH" [OF False k(1)] show ?thesis
      using k False by (auto simp: less_Suc_eq_0_disj)
  qed
qed

lemma find_first_None:
  "find_first s needle = None \<Longrightarrow> \<not> starts_with (drop j s) needle"
proof (induction s needle arbitrary: j rule: find_first.induct)
  case (1 needle)
  then show ?case by (auto simp: starts_with_def split: if_splits)
next
  case (2 c cs needle)
  then show ?case by (cases j) (auto split: if_splits simp: starts_with_def)
qed

lemma find_from_Some:
  "find_from s needle pos = Some i \<Longrightarrow>
   pos \<le> i \<and> i + length needle \<le> length s \<and> starts_with (drop i s) needle"
  by (auto simp: find_from_def add.assoc dest!: find_first_Some split: if_splits)
    (metis add.commute le_diff_conv2 add.assoc)

subsection \<open>Trimming\<close>

lemma dropWhile_rev_rev: "\<exists>post. xs = rev (dropWhile p (rev xs)) @ post \<and> list_all p post"
  by (rule exI [where x = "rev (takeWhile p (rev xs))"])
    (metis list_all_iff rev_append rev_rev_ident set_rev set_takeWhileD takeWhile_dropWhile_id)

lemma trim_ascii_where_infix:
  "\<exists>pre post. value = pre @ trim_ascii_where value drp @ post \<and>
     list_all drp pre \<and> list_all drp post"
proof -
  obtain post where post: "value = rev (dropWhile drp (rev value)) @ post" "list_all drp post"
    using dropWhile_rev_rev by blast
  let ?m = "rev (dropWhile drp (rev value))"
  have "?m = takeWhile drp ?m @ trim_ascii_where value drp"
    unfolding trim_ascii_where_def by simp
  moreover have "list_all drp (takeWhile drp ?m)"
    by (metis list_all_iff set_takeWhileD)
  ultimately show ?thesis using post by (metis append.assoc)
qed

lemma dropWhile_hd: "dropWhile p xs \<noteq> [] \<Longrightarrow> \<not> p (hd (dropWhile p xs))"
  by (induction xs) auto

lemma trim_ascii_where_ends:
  assumes "trim_ascii_where value drp \<noteq> []"
  shows "\<not> drp (hd (trim_ascii_where value drp)) \<and> \<not> drp (last (trim_ascii_where value drp))"
proof -
  define m where "m = rev (dropWhile drp (rev value))"
  have t: "trim_ascii_where value drp = dropWhile drp m"
    by (simp add: trim_ascii_where_def m_def)
  then have ne: "dropWhile drp m \<noteq> []" using assms by simp
  then have "m \<noteq> []" by auto
  then have "\<not> drp (last m)"
    unfolding m_def by (simp add: last_rev dropWhile_hd del: dropWhile_eq_Nil_conv)
  moreover have "last (dropWhile drp m) = last m"
    using ne by (metis last_appendR takeWhile_dropWhile_id)
  ultimately show ?thesis unfolding t by (metis dropWhile_hd ne)
qed

lemma dropWhile_keep: "xs = [] \<or> \<not> p (hd xs) \<Longrightarrow> dropWhile p xs = xs"
  by (cases xs) auto

lemma trim_ascii_where_idem [simp]:
  "trim_ascii_where (trim_ascii_where value drp) drp = trim_ascii_where value drp"
proof -
  define t where "t = trim_ascii_where value drp"
  have "t = [] \<or> \<not> drp (hd t)" and "rev t = [] \<or> \<not> drp (hd (rev t))"
    using trim_ascii_where_ends [of "value" drp] by (auto simp: t_def hd_rev)
  then show ?thesis
    unfolding t_def [symmetric] trim_ascii_where_def [of t] by (simp add: dropWhile_keep)
qed

text \<open>Trimming removes a run of droppable characters from each end and nothing else, leaves no
  droppable character at an end, and trimming again changes nothing.\<close>

lemma trim_ascii_where_spec:
  "(\<exists>pre post. value = pre @ trim_ascii_where value drp @ post \<and>
      list_all drp pre \<and> list_all drp post) \<and>
   (trim_ascii_where value drp = [] \<or>
      (\<not> drp (hd (trim_ascii_where value drp)) \<and> \<not> drp (last (trim_ascii_where value drp)))) \<and>
   trim_ascii_where (trim_ascii_where value drp) drp = trim_ascii_where value drp"
  using trim_ascii_where_infix trim_ascii_where_ends by auto

subsection \<open>The case fold\<close>

lemma ascii_lower_simps [simp]:
  "ascii_lower [] = []"
  "ascii_lower (c # cs) = ascii_lower_char c # ascii_lower cs"
  "ascii_lower (xs @ ys) = ascii_lower xs @ ascii_lower ys"
  "length (ascii_lower xs) = length xs"
  by (simp_all add: ascii_lower_def)

lemma ascii_lower_take: "ascii_lower (take n xs) = take n (ascii_lower xs)"
  by (simp add: ascii_lower_def take_map)

lemma ascii_lower_drop: "ascii_lower (drop n xs) = drop n (ascii_lower xs)"
  by (simp add: ascii_lower_def drop_map)

lemma equal_folded_iff: "equal_folded xs ys \<longleftrightarrow> ascii_lower xs = ascii_lower ys"
  by (induction xs ys rule: equal_folded.induct) auto

lemma ascii_equals_iff: "ascii_equals_case_insensitive l r \<longleftrightarrow> ascii_lower l = ascii_lower r"
  unfolding ascii_equals_case_insensitive_def equal_folded_iff
  by (metis ascii_lower_simps(4))

lemma ascii_starts_at_iff:
  assumes "offset \<le> length v"
  shows "ascii_starts_with_case_insensitive_at v offset pre \<longleftrightarrow>
         prefix (ascii_lower pre) (ascii_lower (drop offset v))"
proof -
  have "prefix (ascii_lower pre) (ascii_lower (drop offset v)) \<longleftrightarrow>
        take (length pre) (ascii_lower (drop offset v)) = ascii_lower pre"
    by (metis append_eq_conv_conj ascii_lower_simps(4) prefix_def)
  then show ?thesis using assms
    by (auto simp: ascii_starts_with_case_insensitive_at_def equal_folded_iff ascii_lower_take
        ascii_lower_drop) (metis ascii_lower_simps(4) length_take length_drop min.absorb_iff2
        add_leD2 le_diff_conv2 add.commute linorder_not_le order_less_imp_le)+
qed

lemma ascii_starts_iff:
  "ascii_starts_with_case_insensitive v pre \<longleftrightarrow> prefix (ascii_lower pre) (ascii_lower v)"
  by (simp add: ascii_starts_with_case_insensitive_def ascii_starts_at_iff)

lemma ascii_starts_length: "ascii_starts_with_case_insensitive v pre \<Longrightarrow> length pre \<le> length v"
  using ascii_starts_iff prefix_length_le by fastforce

lemma ascii_contains_iff:
  "ascii_contains_case_insensitive v needle \<longleftrightarrow> sublist (ascii_lower needle) (ascii_lower v)"
proof
  assume "ascii_contains_case_insensitive v needle"
  then obtain i where "take (length needle) (ascii_lower (drop i v)) = ascii_lower needle"
    by (auto simp: ascii_contains_case_insensitive_def list_ex_iff equal_folded_iff
        ascii_lower_take simp del: upt_Suc split: if_splits)
  then have "ascii_lower v =
      take i (ascii_lower v) @ ascii_lower needle @ drop (length needle) (ascii_lower (drop i v))"
    by (metis append_take_drop_id ascii_lower_drop)
  then show "sublist (ascii_lower needle) (ascii_lower v)" by (metis sublist_appendI)
next
  assume "sublist (ascii_lower needle) (ascii_lower v)"
  then obtain xs ys where v: "ascii_lower v = xs @ ascii_lower needle @ ys"
    by (auto simp: sublist_def)
  then have len: "length v = length xs + length needle + length ys"
    by (metis ascii_lower_simps(4) length_append add.assoc)
  have "ascii_lower (take (length needle) (drop (length xs) v)) = ascii_lower needle"
    by (simp add: ascii_lower_take ascii_lower_drop v)
  moreover have "length xs \<in> set [0..<Suc (length v - length needle)]" using len by auto
  ultimately show "ascii_contains_case_insensitive v needle"
    using len unfolding ascii_contains_case_insensitive_def list_ex_iff equal_folded_iff
    by (auto simp del: upt_Suc)
qed

text \<open>The case-insensitive search finds a needle exactly when the folded needle occurs in the
  folded text.\<close>

lemma ascii_contains_spec:
  "ascii_contains_case_insensitive v needle = sublist (ascii_lower needle) (ascii_lower v)"
  by (rule ascii_contains_iff)

subsection \<open>Replacement: the loop returns, and what it returns\<close>

lemma replace_loop_suffix:
  assumes "needle \<noteq> []" and "offset \<le> length v"
  shows "replace_loop v offset needle r =
         Some (take offset v @ replace_all_case_insensitive (drop offset v) needle r)"
  using assms(2)
proof (induction "length v - offset" arbitrary: v offset rule: less_induct)
  case less
  show ?case
  proof (cases "offset < length v")
    case False
    then show ?thesis using less.prems by (simp add: replace_loop.simps)
  next
    case True
    then obtain c cs where cs: "drop offset v = c # cs" and cs': "cs = drop (offset + 1) v"
      by (metis Cons_nth_drop_Suc Suc_eq_plus1)
    have at: "ascii_starts_with_case_insensitive_at v offset needle =
              ascii_starts_with_case_insensitive (c # cs) needle"
      using True by (simp add: ascii_starts_at_iff ascii_starts_iff cs)
    show ?thesis
    proof (cases "ascii_starts_with_case_insensitive (c # cs) needle")
      case hit: True
      let ?v = "take offset v @ r @ drop (offset + length needle) v"
      have fits: "offset + length needle \<le> length v"
        using ascii_starts_length [OF hit] True by (simp add: cs [symmetric])
      have "length ?v - (offset + length r) < length v - offset"
        using fits True assms(1) by (auto simp: neq_Nil_conv)
      moreover have "offset + length r \<le> length ?v" using True by simp
      ultimately have "replace_loop ?v (offset + length r) needle r =
          Some (take (offset + length r) ?v @
                replace_all_case_insensitive (drop (offset + length r) ?v) needle r)"
        using less.hyps by blast
      then show ?thesis
        using hit at True assms(1)
        by (simp add: replace_loop.simps [of v] cs)
          (metis add.commute cs drop_drop)
    next
      case miss: False
      have "replace_loop v (offset + 1) needle r =
          Some (take (offset + 1) v @ replace_all_case_insensitive (drop (offset + 1) v) needle r)"
        using True by (intro less.hyps) auto
      moreover have "take (offset + 1) v = take offset v @ [c]"
        using True cs by (metis Suc_eq_plus1 nth_via_drop take_Suc_conv_app_nth)
      ultimately show ?thesis
        using miss at True by (simp add: replace_loop.simps [of v] cs cs')
    qed
  qed
qed

text \<open>With an empty needle the loop would replace at the same place for ever.\<close>

lemma replace_loop_empty_needle:
  assumes "replace_loop v offset [] r = Some w"
  shows "length v \<le> offset"
proof -
  have "needle = [] \<longrightarrow> length v \<le> offset" if "replace_loop v offset needle r = Some w" for needle
  proof (rule replace_loop.raw_induct
      [where P = "\<lambda>v offset needle r w. needle = [] \<longrightarrow> length v \<le> offset", OF _ that])
    fix loop :: "string \<Rightarrow> nat \<Rightarrow> string \<Rightarrow> string \<Rightarrow> string option" and v offset needle r w
    assume IH: "\<And>v offset needle r w. loop v offset needle r = Some w \<Longrightarrow>
                  needle = [] \<longrightarrow> length v \<le> offset"
      and eq: "(if offset < length v then
          if ascii_starts_with_case_insensitive_at v offset needle
          then loop (take offset v @ r @ drop (offset + length needle) v) (offset + length r) needle r
          else loop v (offset + 1) needle r
        else Some v) = Some w"
    show "needle = [] \<longrightarrow> length v \<le> offset"
    proof
      assume n: "needle = []"
      show "length v \<le> offset"
      proof (rule ccontr)
        assume "\<not> length v \<le> offset"
        then have lt: "offset < length v" by simp
        then have "ascii_starts_with_case_insensitive_at v offset needle"
          by (simp add: ascii_starts_at_iff n)
        with eq lt have "loop (take offset v @ r @ drop offset v) (offset + length r) needle r = Some w"
          by (simp add: n)
        from IH [OF this] n lt show False by simp
      qed
    qed
  qed
  from this [OF assms] show ?thesis by simp
qed

text \<open>The replacement loop returns for every needle that is not empty, with the value obtained by
  replacing left to right without looking at replaced text again; with an empty needle it
  returns on no text but the empty one.\<close>

lemma replace_loop_total:
  "replace_loop v 0 needle r =
     (if needle = [] \<and> v \<noteq> [] then None else Some (replace_all_case_insensitive v needle r))"
proof (cases "needle = [] \<and> v \<noteq> []")
  case True
  then have "replace_loop v 0 needle r \<noteq> Some w" for w
    using replace_loop_empty_needle [of v 0 r w] by auto
  then show ?thesis using True by auto
next
  case False
  then show ?thesis
    by (cases "needle = []") (auto simp: replace_loop_suffix replace_loop.simps [of "[]"])
qed

subsection \<open>The normalisers change letter case only\<close>

lemma ascii_lower_toupper [simp]: "ascii_lower_char (toupper c) = ascii_lower_char c"
  by (auto simp: ascii_lower_char_def ctype_codes)

lemma ascii_lower_char_idem [simp]: "ascii_lower_char (ascii_lower_char c) = ascii_lower_char c"
  by (simp add: ascii_lower_char_def ctype_codes)

lemma ascii_lower_idem [simp]: "ascii_lower (ascii_lower s) = ascii_lower s"
  by (induction s) auto

lemma ascii_lower_map_toupper [simp]: "ascii_lower (map toupper s) = ascii_lower s"
  by (induction s) auto

lemma ascii_lower_capitalize [simp]: "ascii_lower (capitalize_words_from b s) = ascii_lower s"
  by (induction b s rule: capitalize_words_from.induct) auto

lemma ascii_lower_replace_recased:
  assumes "ascii_lower r = ascii_lower needle"
  shows "ascii_lower (replace_all_case_insensitive v needle r) = ascii_lower v"
  using assms
proof (induction v needle r rule: replace_all_case_insensitive.induct)
  case (1 needle r)
  then show ?case by simp
next
  case (2 c cs needle r)
  show ?case
  proof (cases "needle \<noteq> [] \<and> ascii_starts_with_case_insensitive (c # cs) needle")
    case True
    then have "ascii_lower (c # cs) =
        ascii_lower needle @ ascii_lower (drop (length needle) (c # cs))"
      by (metis append_eq_conv_conj ascii_lower_drop ascii_lower_simps(4) ascii_starts_iff
          prefix_def)
    moreover have "ascii_lower (replace_all_case_insensitive (drop (length needle) (c # cs)) needle r)
        = ascii_lower (drop (length needle) (c # cs))"
      using True "2.IH"(1) "2.prems" by blast
    ultimately show ?thesis using True "2.prems" by simp
  next
    case False
    then show ?thesis using "2.IH"(2) "2.prems" by auto
  qed
qed

lemma ascii_lower_restore [simp]: "ascii_lower (restore_product_names v) = ascii_lower v"
  by (simp add: restore_product_names_def ascii_lower_replace_recased ascii_lower_char_def
      less_eq_char_def char_code_def char_of_eq_iff)

lemma ascii_lower_parts:
  "ascii_lower (normalize_title_parts first_word first_part rest) =
   ascii_lower ((if first_part then [] else [CHR ''-'']) @ rest)"
proof (induction first_word first_part rest rule: normalize_title_parts.induct)
  case (1 first_word first_part rest)
  let ?part = "takeWhile (\<lambda>c. c \<noteq> CHR ''-'') rest"
  let ?next = "drop (length ?part + 1) rest"
  let ?sep = "if first_part then [] else [CHR ''-'']"
  show ?case
  proof (cases "CHR ''-'' \<in> set rest")
    case True
    then have "dropWhile (\<lambda>c. c \<noteq> CHR ''-'') rest = CHR ''-'' # ?next"
      by (induction rest) auto
    then have rest: "rest = ?part @ CHR ''-'' # ?next"
      by (metis takeWhile_dropWhile_id)
    have "ascii_lower (normalize_title_parts first_word False ?next) =
          ascii_lower ([CHR ''-''] @ ?next)"
      using "1.IH" True by simp
    then have "ascii_lower (normalize_title_parts first_word first_part rest) =
          ascii_lower ?sep @ ascii_lower ?part @ ascii_lower ([CHR ''-''] @ ?next)"
      using True by (subst normalize_title_parts.simps) (simp add: Let_def)
    also have "\<dots> = ascii_lower (?sep @ rest)"
      by (subst (3) rest) simp
    finally show ?thesis .
  next
    case False
    then have part: "?part = rest" by (simp add: takeWhile_eq_all_conv) blast
    show ?thesis using False
      by (subst normalize_title_parts.simps) (simp add: part Let_def)
  qed
qed

lemma ascii_lower_title_words [simp]:
  "ascii_lower (normalize_title_words first_word s) = ascii_lower s"
proof (induction first_word s rule: normalize_title_words.induct)
  case (1 first_word)
  then show ?case by simp
next
  case (2 first_word c cs)
  show ?case
  proof (cases "isspace c")
    case True
    then show ?thesis using "2.IH"(1) by simp
  next
    case False
    let ?w = "takeWhile (\<lambda>x. \<not> isspace x) (c # cs)"
    have "ascii_lower (normalize_title_words False (drop (length ?w) (c # cs))) =
          ascii_lower (drop (length ?w) (c # cs))"
      using "2.IH"(2) False by blast
    then have "ascii_lower (normalize_title_words first_word (c # cs)) =
          ascii_lower (?w @ drop (length ?w) (c # cs))"
      using False by (simp add: ascii_lower_parts Let_def)
    also have "?w @ drop (length ?w) (c # cs) = c # cs"
      by (metis append_take_drop_id takeWhile_eq_take)
    finally show ?thesis .
  qed
qed

text \<open>Normalising a book property or a contents title changes letter case only: a property keeps
  every character, and a title every character that is left once the selector markers, the
  surrounding blanks and a dangling punctuation mark are gone.\<close>

lemma normalisation_only_recases:
  "ascii_lower (normalize_logical_control_value key v) = ascii_lower v \<and>
   ascii_lower (normalize_toc_id v) = ascii_lower v \<and>
   ascii_lower (normalize_toc_title v) =
     ascii_lower (drop_dangling_punctuation (trim_ascii
       (fold (\<lambda>marker v. replace_all_case_insensitive v marker [])
         [''<IMAGE>'', ''<INTERNET>'', ''<OTHER>'', ''<>''] v)))"
  by (simp add: normalize_logical_control_value_def normalize_toc_id_def normalize_toc_title_def
      Let_def capitalize_bookmanager_words_def ascii_lower_replace_recased ascii_lower_char_def
      less_eq_char_def char_code_def char_of_eq_iff)

subsection \<open>Collapsing white space\<close>

lemma collapse_from_shape:
  assumes "list_all (\<lambda>c. \<not> ascii_blank c \<or> c = CHR '' '') out"
    and "\<not> sublist [CHR '' '', CHR '' ''] out" and "out = [] \<or> last out \<noteq> CHR '' ''"
  shows "list_all (\<lambda>c. \<not> ascii_blank c \<or> c = CHR '' '') (collapse_from b out s) \<and>
         \<not> sublist [CHR '' '', CHR '' ''] (collapse_from b out s)"
  using assms
proof (induction b out s rule: collapse_from.induct)
  case (1 b out)
  then show ?case by simp
next
  case (2 b out ch rest)
  show ?case
  proof (cases "ascii_blank ch")
    case True
    then show ?thesis using 2 by (simp add: ascii_blank_def)
  next
    case False
    then have ch: "ch \<noteq> CHR '' ''" by (auto simp: ascii_blank_def isspace_def)
    let ?spaced = "if b \<and> out \<noteq> [] then out @ [CHR '' ''] else out"
    have "\<not> sublist [CHR '' '', CHR '' ''] (?spaced @ [ch])"
    proof
      assume "sublist [CHR '' '', CHR '' ''] (?spaced @ [ch])"
      then obtain xs ys where e: "?spaced @ [ch] = xs @ [CHR '' '', CHR '' ''] @ ys"
        by (auto simp: sublist_def)
      show False
      proof (cases ys rule: rev_cases)
        case Nil
        then show False using e ch by (metis append.right_neutral last_ConsL last_ConsR
              last_appendR last_snoc list.distinct(1))
      next
        case (snoc zs z)
        then have "?spaced = xs @ [CHR '' '', CHR '' ''] @ zs" using e by simp
        then show False using "2.prems"(2,3)
          by (cases zs rule: rev_cases) (auto simp: sublist_def split: if_splits)
      qed
    qed
    then show ?thesis using False 2 ch
      by (simp add: ascii_blank_def Let_def)
  qed
qed

text \<open>A collapsed text has no blank but the single space, never two of them in a row, and
  nothing left to trim.\<close>

lemma collapse_ascii_whitespace_spec:
  "set (filter ascii_blank (collapse_ascii_whitespace v)) \<subseteq> {CHR '' ''} \<and>
   \<not> sublist [CHR '' '', CHR '' ''] (collapse_ascii_whitespace v) \<and>
   trim_ascii (collapse_ascii_whitespace v) = collapse_ascii_whitespace v"
proof (intro conjI)
  let ?raw = "collapse_from False [] v"
  have raw: "list_all (\<lambda>c. \<not> ascii_blank c \<or> c = CHR '' '') ?raw"
      "\<not> sublist [CHR '' '', CHR '' ''] ?raw"
    using collapse_from_shape [of "[]" False v] by auto
  have sub: "sublist (collapse_ascii_whitespace v) ?raw"
    unfolding collapse_ascii_whitespace_def trim_ascii_def
    using trim_ascii_where_infix [of ?raw] by (metis sublist_appendI)
  then have "set (collapse_ascii_whitespace v) \<subseteq> set ?raw" by (rule set_mono_sublist)
  with raw(1) show "set (filter ascii_blank (collapse_ascii_whitespace v)) \<subseteq> {CHR '' ''}"
    by (auto simp: list_all_iff)
  show "\<not> sublist [CHR '' '', CHR '' ''] (collapse_ascii_whitespace v)"
    using raw(2) sub sublist_order.order_trans by blast
  show "trim_ascii (collapse_ascii_whitespace v) = collapse_ascii_whitespace v"
    by (simp add: collapse_ascii_whitespace_def trim_ascii_def)
qed

end
