(* ===== verification/Container.thy ===== *)
theory Container
  imports Ebcdic Strings
begin

section \<open>The container prologue (\<open>src/container/prologue.cpp\<close>)\<close>

text \<open>
  The page structure of a BOO file: the page-0 header, the directory page and the map from logical
  to physical pages. Every field of a structure is a field of the record with the same name; the
  path is only copied into error messages.
\<close>

definition boo_page_size :: u32 where
  "boo_page_size = 4096"

abbreviation page_bytes :: nat where
  "page_bytes \<equiv> 4096"

lemma page_in_file:
  fixes page :: nat
  shows "page < n div page_bytes \<Longrightarrow> page * page_bytes + page_bytes \<le> n"
  using less_eq_div_iff_mult_less_eq [of page_bytes "page + 1" n] by simp

lemma unat_boo_page_size [simp]: "unat boo_page_size = page_bytes"
  by (simp add: boo_page_size_def)

record boo_metadata =
  meta_path :: string
  file_size :: u64
  page_size :: u32
  page_count :: u32

record boo_page0_header =
  directory_page_number :: u16
  unknown_0002 :: u16
  unknown_0004 :: u32
  copyright_text :: string
  unknown_0102 :: "bytes option"

record boo_directory =
  page_number :: u32
  version_text :: string
  version_variant :: byte
  token_threshold :: byte
  last_page_number :: u16
  token_map_offset :: u16
  dictionary_start_page :: u16
  dictionary_page_count :: u16
  content_page_index_offset :: u16
  logical_record_count :: u16
  content_start_page :: u16
  content_page_count :: u16
  stream_table_offset :: u16
  stream_table_count :: u16
  secondary_table_offset :: u16
  dir_date :: string
  dir_time :: string
  extended_token_prefix :: byte
  dictionary_text_parameter :: u16

record container_prologue =
  metadata :: boo_metadata
  file_header :: boo_page0_header
  directory :: boo_directory

definition physical_page_for_logical :: "boo_directory \<Rightarrow> u32 \<Rightarrow> u32 result" where
  "physical_page_for_logical dir logical_page =
     (if logical_page = 0 then Inl (RuntimeError ''BOO logical page numbers are 1-based'')
      else Inr (page_number dir + logical_page - 1))"

text \<open>The byte offset of a page is a product of two 32-bit numbers.\<close>

definition page_offset :: "u32 \<Rightarrow> nat" where
  "page_offset page = unat (page * boo_page_size)"

lemma page_offset_exact: "unat page < 2 ^ 20 \<Longrightarrow> page_offset page = unat page * page_bytes"
  by (simp add: page_offset_def unat_word_ariths)

lemma ucast_u16_eq_0 [simp]: "(ucast (w :: u16) :: u32) = 0 \<longleftrightarrow> w = 0"
  by (simp add: unat_eq_zero [symmetric] unsigned_ucast_eq take_bit_nat_eq_self
      less_trans [OF unat_u16_less] del: unat_eq_zero)

text \<open>The fields of the directory page that starts at \<open>base\<close>, in the order the code reads them.\<close>

definition read_directory :: "bytes \<Rightarrow> u16 \<Rightarrow> boo_directory result" where
  "read_directory bs directory_page =
     (let base = unat directory_page * page_bytes;
          text_error = ''unexpected end of BOO file while reading text''
      in and_then (decode_ascii Cp037 bs (base + 0x10) 4 text_error) (\<lambda>version.
         and_then (read_be16 bs (base + 0x4C)) (\<lambda>text_parameter.
         and_then (read_be16 bs (base + 0x16)) (\<lambda>last_page.
         and_then (read_be16 bs (base + 0x22)) (\<lambda>token_map.
         and_then (read_be16 bs (base + 0x28)) (\<lambda>dictionary_start.
         and_then (read_be16 bs (base + 0x2E)) (\<lambda>dictionary_count.
         and_then (read_be16 bs (base + 0x34)) (\<lambda>content_index.
         and_then (read_be16 bs (base + 0x36)) (\<lambda>record_count.
         and_then (read_be16 bs (base + 0x38)) (\<lambda>content_count.
         and_then (read_be16 bs (base + 0x3A)) (\<lambda>content_start.
         and_then (read_be16 bs (base + 0x3C)) (\<lambda>stream_offset.
         and_then (read_be16 bs (base + 0x3E)) (\<lambda>stream_count.
         and_then (read_be16 bs (base + 0x40)) (\<lambda>secondary.
         and_then (decode_ascii Cp037 bs (base + 0x44) 8 text_error) (\<lambda>date.
         and_then (decode_ascii Cp037 bs (base + 0x4E) 8 text_error) (\<lambda>time.
         Inr \<lparr> page_number = ucast directory_page,
               version_text = version,
               version_variant = byte_at bs (base + 0x13),
               token_threshold = byte_at bs (base + 0x14),
               last_page_number = last_page,
               token_map_offset = token_map,
               dictionary_start_page = dictionary_start,
               dictionary_page_count = dictionary_count,
               content_page_index_offset = content_index,
               logical_record_count = record_count,
               content_start_page = content_start,
               content_page_count = content_count,
               stream_table_offset = stream_offset,
               stream_table_count = stream_count,
               secondary_table_offset = secondary,
               dir_date = date,
               dir_time = time,
               extended_token_prefix = byte_at bs (base + 0x15),
               dictionary_text_parameter = text_parameter \<rparr>))))))))))))))))"

definition read_page0_header :: "bytes \<Rightarrow> boo_page0_header result" where
  "read_page0_header bs =
     and_then (read_be16 bs 0) (\<lambda>directory_page.
     and_then (read_be16 bs 2) (\<lambda>w2.
     and_then (read_be32 bs 4) (\<lambda>w4.
     and_then (decode_ascii Cp037 bs 0x0C 128 ''unexpected end of BOO file while reading text'')
       (\<lambda>text.
     Inr \<lparr> directory_page_number = directory_page,
           unknown_0002 = w2,
           unknown_0004 = w4,
           copyright_text = trim_right_spaces text,
           unknown_0102 =
             (if length bs \<ge> 0x0106
              then Some [byte_at bs 0x0102, byte_at bs 0x0103, byte_at bs 0x0104, byte_at bs 0x0105]
              else None) \<rparr>))))"

definition empty_header_message :: string where
  "empty_header_message =
     ''BOO file header is empty: it names page 0, the header itself, as '' @
     ''the directory page. The file is not a complete BOO container -- an '' @
     ''interrupted copy leaves it at full length with its structure '' @ ''pages unwritten: ''"

definition read_container_prologue :: "bytes \<Rightarrow> string \<Rightarrow> container_prologue result" where
  "read_container_prologue bs path =
     (if length bs < page_bytes
      then Inl (RuntimeError (''BOO file is smaller than one 4096-byte page: '' @ path))
      else if length bs mod page_bytes \<noteq> 0
      then Inl (RuntimeError (''BOO file size is not a multiple of 4096 bytes: '' @ path))
      else
        let meta = \<lparr> meta_path = path, file_size = of_nat (length bs), page_size = boo_page_size,
                     page_count = of_nat (length bs div page_bytes) \<rparr>
        in and_then (read_page0_header bs) (\<lambda>header.
           let directory_page = directory_page_number header in
           if directory_page = 0 then Inl (RuntimeError (empty_header_message @ path))
           else if ucast directory_page \<ge> page_count meta
           then Inl (RuntimeError ''BOO directory page is outside the file'')
           else and_then (read_directory bs directory_page) (\<lambda>dir.
                and_then (physical_page_for_logical dir (ucast (last_page_number dir)))
                  (\<lambda>last_physical_page.
                if last_physical_page \<ge> page_count meta
                then Inl (RuntimeError
                  (''BOO directory last-page field points outside the '' @ ''file''))
                else Inr \<lparr> metadata = meta, file_header = header, directory = dir \<rparr>))))"

subsection \<open>When a container opens\<close>

lemma decode_ascii_Inr:
  "off + n \<le> length bs \<Longrightarrow>
   decode_ascii cp bs off n m = Inr (map (\<lambda>i. decode_ascii_byte cp (byte_at bs (off + i))) [0..<n])"
  by (simp add: decode_ascii_def)

lemmas field_reads = be16.read_eq be32.read_eq decode_ascii_Inr

lemma read_page0_header_Inr:
  assumes "page_bytes \<le> length bs"
  shows "\<exists>h. read_page0_header bs = Inr h \<and>
             directory_page_number h = of_nat (be_value (slice bs 0 2))"
  using assms by (simp add: read_page0_header_def field_reads numeral_2_eq_2)

lemma read_directory_fields:
  "read_directory bs d = Inr dir \<Longrightarrow>
   page_number dir = ucast d \<and> read_be16 bs (unat d * page_bytes + 0x16) = Inr (last_page_number dir)"
  unfolding read_directory_def Let_def and_then_eq_Inr by auto

lemma read_directory_returns:
  assumes "unat d * page_bytes + page_bytes \<le> length bs"
  shows "returns (read_directory bs d)"
  using assms
  by (simp only: read_directory_def Let_def returns_and_then) (simp add: field_reads)

lemma read_directory_Inr:
  assumes "unat d * page_bytes + page_bytes \<le> length bs"
  shows "\<exists>dir. read_directory bs d = Inr dir \<and> page_number dir = ucast d \<and>
     last_page_number dir =
       of_nat (be_value (slice bs (unat d * page_bytes + 0x16) (unat d * page_bytes + 0x18)))"
proof -
  from read_directory_returns [OF assms] obtain dir where dir: "read_directory bs d = Inr dir"
    by (auto simp: returns_iff)
  from read_directory_fields [OF this] show ?thesis
    using assms dir be16.read_eq [of bs "unat d * page_bytes + 0x16"]
    by (simp add: add.commute [of 24])
qed

text \<open>A file is a container when it is a whole number of pages, at least one; page 0 names another
  page of the file as the directory; and the last logical page the directory names is a page of
  the file.\<close>

definition well_formed_container :: "bytes \<Rightarrow> bool" where
  "well_formed_container bs \<longleftrightarrow>
     (let pages = length bs div page_bytes;
          dir = be_value (slice bs 0 2);
          last = be_value (slice bs (dir * page_bytes + 0x16) (dir * page_bytes + 0x18))
      in page_bytes \<le> length bs \<and> page_bytes dvd length bs \<and> 0 < dir \<and> dir < pages \<and>
         0 < last \<and> dir + last - 1 < pages)"

lemma physical_page_nat:
  assumes "lp \<noteq> 0" and "unat (page_number dir) < 65536" and "unat lp < 65536"
  shows "\<exists>p. physical_page_for_logical dir lp = Inr p \<and> unat p = unat (page_number dir) + unat lp - 1"
proof -
  have lp: "1 \<le> unat lp" using assms(1) by (metis One_nat_def Suc_leI unat_gt_0)
  have "unat (page_number dir + lp) = unat (page_number dir) + unat lp"
    using assms by (simp add: unat_word_ariths)
  then have "unat (page_number dir + lp - 1) = unat (page_number dir) + unat lp - 1"
    using lp by (simp add: unat_sub_if_size)
  then show ?thesis using assms(1) by (simp add: physical_page_for_logical_def)
qed

lemma read_container_prologue_returns:
  assumes "length bs < 2 ^ 44"
  shows "returns (read_container_prologue bs path) \<longleftrightarrow> well_formed_container bs"
proof (cases "page_bytes \<le> length bs \<and> page_bytes dvd length bs")
  case False
  then show ?thesis
    by (auto simp: read_container_prologue_def well_formed_container_def Let_def dvd_eq_mod_eq_0)
next
  case True
  define dp where "dp = be_value (slice bs 0 2)"
  define pages where "pages = length bs div page_bytes"
  obtain h where h: "read_page0_header bs = Inr h" and hd: "directory_page_number h = of_nat dp"
    using read_page0_header_Inr True unfolding dp_def by blast
  have dp: "dp < 65536" using be_value_field [of 0 bs] True by (simp add: dp_def numeral_2_eq_2)
  then have udp: "unat (of_nat dp :: u16) = dp"
    by (simp add: unsigned_of_nat take_bit_nat_eq_self)
  have "pages < 2 ^ 32" using assms by (simp add: pages_def)
  then have up: "unat (of_nat pages :: u32) = pages"
    by (simp add: unsigned_of_nat take_bit_nat_eq_self)
  have wide: "unat (ucast w :: u32) = unat w" for w :: u16
    by (simp add: unsigned_ucast_eq take_bit_nat_eq_self less_trans [OF unat_u16_less])
  have zero: "(of_nat dp :: u16) = 0 \<longleftrightarrow> dp = 0" by (metis udp unat_0 unat_eq_zero)
  have out: "(of_nat pages :: u32) \<le> ucast (of_nat dp :: u16) \<longleftrightarrow> pages \<le> dp"
    by (simp add: word_le_nat_alt up wide udp)
  show ?thesis
  proof (cases "0 < dp \<and> dp < pages")
    case False
    then show ?thesis using True
      by (auto simp: read_container_prologue_def well_formed_container_def Let_def h hd zero
          out [unfolded pages_def] dp_def [symmetric] pages_def)
  next
    case dir: True
    have "(dp + 1) * page_bytes \<le> pages * page_bytes" using dir by (intro mult_le_mono1) auto
    also have "\<dots> = length bs" using True by (simp add: pages_def)
    finally have fits: "unat (of_nat dp :: u16) * page_bytes + page_bytes \<le> length bs"
      by (simp add: udp)
    from read_directory_Inr [OF fits] obtain d where d: "read_directory bs (of_nat dp) = Inr d"
      and pn: "page_number d = ucast (of_nat dp :: u16)"
      and lp: "last_page_number d =
          of_nat (be_value (slice bs (dp * page_bytes + 0x16) (dp * page_bytes + 0x18)))"
      by (auto simp: udp)
    define last where "last = be_value (slice bs (dp * page_bytes + 0x16) (dp * page_bytes + 0x18))"
    have "last < 65536"
      using be_value_field [of "dp * page_bytes + 0x16" bs] fits
      by (simp add: last_def udp add.commute [of 24])
    then have ul: "unat (last_page_number d) = last"
      by (simp add: lp last_def [symmetric] unsigned_of_nat take_bit_nat_eq_self)
    have lz: "(ucast (last_page_number d) :: u32) = 0 \<longleftrightarrow> last = 0"
      by (metis ul unat_0 unat_eq_zero wide)
    have "returns (and_then (physical_page_for_logical d (ucast (last_page_number d)))
            (\<lambda>p. if p \<ge> of_nat pages then Inl e else Inr x)) \<longleftrightarrow> 0 < last \<and> dp + last - 1 < pages"
      for e :: exn and x :: container_prologue
    proof (cases "last = 0")
      case True
      then show ?thesis using lz by (simp add: physical_page_for_logical_def)
    next
      case False
      then obtain p where p: "physical_page_for_logical d (ucast (last_page_number d)) = Inr p"
        and up': "unat p = dp + last - 1"
        using physical_page_nat [of "ucast (last_page_number d)" d] lz
        by (auto simp: pn wide udp ul dp \<open>last < 65536\<close>)
      show ?thesis using False by (simp add: p word_le_nat_alt up up' not_le)
    qed
    then show ?thesis using True dir
      by (simp add: read_container_prologue_def well_formed_container_def Let_def h hd zero
          out dp_def [symmetric] pages_def [symmetric] d last_def [symmetric]
          dvd_eq_mod_eq_0)
  qed
qed



text \<open>A directory as a small version 1.2 book has it, for the examples.\<close>

definition example_directory :: boo_directory where
  "example_directory =
     \<lparr> page_number = 1, version_text = '' 1.2'', version_variant = 0xF2, token_threshold = 0xC0,
       last_page_number = 3, token_map_offset = 0x100, dictionary_start_page = 2,
       dictionary_page_count = 1, content_page_index_offset = 0x400, logical_record_count = 1,
       content_start_page = 3, content_page_count = 1, stream_table_offset = 0x500,
       stream_table_count = 1, secondary_table_offset = 0, dir_date = ''01/01/90'',
       dir_time = ''00:00:00'', extended_token_prefix = 0xF0, dictionary_text_parameter = 500 \<rparr>"

end
