(* ===== verification/Page_Runs.thy ===== *)
theory Page_Runs
  imports Container
begin

section \<open>Page runs (\<open>src/container/page_runs.cpp\<close>)\<close>

text \<open>
  The partition of the file's pages into maximal runs of one page class, each with the role the
  directory suggests. Page numbers and the byte offset \<open>page * boo_page_size\<close> are 32-bit, as in
  the code.
\<close>

datatype boo_page_role =
  Role_file_header | Role_directory | Role_dictionary | Role_content | Role_logical_records
| Role_unknown

record boo_page_run =
  start_page :: u32
  run_page_count :: u32
  page_class :: u16
  role :: boo_page_role

definition classify_run :: "u32 \<Rightarrow> u16 \<Rightarrow> boo_directory \<Rightarrow> boo_page_role result" where
  "classify_run start cls dir =
     (if start = 0 then Inr Role_file_header
      else if start = page_number dir then Inr Role_directory
      else and_then (physical_page_for_logical dir (ucast (dictionary_start_page dir))) (\<lambda>p.
        if start = p \<and> cls = 0x0100 then Inr Role_dictionary
        else and_then (physical_page_for_logical dir (ucast (content_start_page dir))) (\<lambda>p.
          if start = p \<and> cls = 0x0000 then Inr Role_content
          else if cls = 0x0001 then Inr Role_logical_records
          else Inr Role_unknown)))"

definition close_run :: "boo_directory \<Rightarrow> u32 \<Rightarrow> u32 \<Rightarrow> u16 \<Rightarrow> boo_page_run result" where
  "close_run dir run_start run_end cls =
     and_then (classify_run run_start cls dir) (\<lambda>r.
     Inr \<lparr> start_page = run_start, run_page_count = run_end - run_start, page_class = cls,
           role = r \<rparr>)"

lemma countdown_less:
  "(page :: u32) < count \<Longrightarrow> unat count - unat (page + 1) < unat count - unat page"
  using unat_plus_1 [of page count] by (simp add: word_less_nat_alt)

function scan_runs ::
  "bytes \<Rightarrow> boo_directory \<Rightarrow> u32 \<Rightarrow> u32 \<Rightarrow> u32 \<Rightarrow> u16 \<Rightarrow> boo_page_run list result" where
  "scan_runs bs dir count page run_start run_class =
     (if page < count then
        and_then (read_be16 bs (page_offset page)) (\<lambda>cls.
        if cls = run_class then scan_runs bs dir count (page + 1) run_start run_class
        else and_then (close_run dir run_start page run_class) (\<lambda>run.
             and_then (scan_runs bs dir count (page + 1) page cls) (\<lambda>runs.
             Inr (run # runs))))
      else and_then (close_run dir run_start count run_class) (\<lambda>run. Inr [run]))"
  by pat_completeness auto
termination
  by (relation "measure (\<lambda>(_, _, count, page, _, _). unat count - unat page)")
    (simp_all add: countdown_less)

declare scan_runs.simps [simp del]

definition build_page_runs :: "bytes \<Rightarrow> boo_directory \<Rightarrow> boo_page_run list result" where
  "build_page_runs bs dir =
     (let count = of_nat (length bs div page_bytes) in
      if count = 0 then Inr []
      else and_then (read_be16 bs 0) (\<lambda>cls. scan_runs bs dir count 1 0 cls))"

subsection \<open>The runs partition the pages\<close>

text \<open>The class word page \<open>i\<close> starts with, at its true offset.\<close>

definition page_class_at :: "bytes \<Rightarrow> nat \<Rightarrow> nat" where
  "page_class_at bs i = be_value (slice bs (i * page_bytes) (i * page_bytes + 2))"

definition run_range :: "boo_page_run \<Rightarrow> nat \<times> nat" where
  "run_range r = (unat (start_page r), unat (start_page r) + unat (run_page_count r))"

definition run_is_uniform :: "bytes \<Rightarrow> boo_page_run \<Rightarrow> bool" where
  "run_is_uniform bs r \<longleftrightarrow>
     list_all (\<lambda>i. page_class_at bs i = unat (page_class r))
       [unat (start_page r)..<unat (start_page r) + unat (run_page_count r)]"

definition logical_pages_set :: "boo_directory \<Rightarrow> bool" where
  "logical_pages_set dir \<longleftrightarrow> dictionary_start_page dir \<noteq> 0 \<and> content_start_page dir \<noteq> 0"

lemma close_run_Inr:
  assumes "logical_pages_set dir"
  shows "\<exists>r. close_run dir s e cls = Inr r \<and> start_page r = s \<and> run_page_count r = e - s \<and>
             page_class r = cls"
  using assms
  by (simp add: close_run_def classify_run_def physical_page_for_logical_def logical_pages_set_def)

lemma read_page_class:
  assumes "unat page < 2 ^ 20" and "(unat page + 1) * page_bytes \<le> length bs"
  shows "\<exists>cls. read_be16 bs (page_offset page) = Inr cls \<and> unat cls = page_class_at bs (unat page)"
  using read_be16_value [of "unat page * page_bytes" bs] assms
  by (auto simp: page_offset_exact page_class_at_def)

lemma scan_runs_Inr:
  assumes "logical_pages_set dir" and "unat count * page_bytes \<le> length bs"
    and "unat count \<le> 2 ^ 20" and "run_start < page" and "page \<le> count"
    and "\<forall>i \<in> {unat run_start..<unat page}. page_class_at bs i = unat cls"
  shows "\<exists>r rs. scan_runs bs dir count page run_start cls = Inr (r # rs) \<and> page_class r = cls \<and>
           tiles (map run_range (r # rs)) (unat run_start) (unat count) \<and>
           list_all (run_is_uniform bs) (r # rs) \<and>
           successively (\<lambda>x y. page_class x \<noteq> page_class y) (r # rs)"
  using assms
proof (induction bs dir count page run_start cls rule: scan_runs.induct)
  case (1 bs dir count page run_start cls)
  note le = \<open>run_start < page\<close> \<open>page \<le> count\<close>
  have len: "unat (e - run_start) = unat e - unat run_start" if "run_start < e" for e
    using that by (simp add: unat_sub_if_size word_less_nat_alt)
  show ?case
  proof (cases "page < count")
    case False
    then have e: "page = count" using le by simp
    obtain r where r: "close_run dir run_start count cls = Inr r" "start_page r = run_start"
        "run_page_count r = count - run_start" "page_class r = cls"
      using close_run_Inr [OF "1.prems"(1)] by blast
    then show ?thesis using False le "1.prems"(6)
      by (subst scan_runs.simps)
        (auto simp: e run_range_def run_is_uniform_def list_all_iff len word_less_nat_alt)
  next
    case True
    then have pc: "unat page + 1 \<le> unat count" by (simp add: word_less_nat_alt)
    then have "(unat page + 1) * page_bytes \<le> length bs"
      using "1.prems"(2) by (meson le_trans mult_le_mono1)
    then obtain c where c: "read_be16 bs (page_offset page) = Inr c"
        and cv: "unat c = page_class_at bs (unat page)"
      using read_page_class [of page bs] pc "1.prems"(3) by auto
    have s: "unat (page + 1) = unat page + 1" using True by (rule unat_plus_1)
    have next_le: "page + 1 \<le> count" using pc s by (simp add: word_le_nat_alt)
    have next_gt: "page < page + 1" using s by (simp add: word_less_nat_alt)
    show ?thesis
    proof (cases "c = cls")
      case same: True
      have "\<forall>i \<in> {unat run_start..<unat (page + 1)}. page_class_at bs i = unat cls"
        using "1.prems"(6) cv same by (auto simp: s less_Suc_eq)
      moreover have "run_start < page + 1" using le next_gt by simp
      ultimately show ?thesis
        using "1.IH"(1) [OF True c same] "1.prems"(1-3) next_le True c same
        by (subst scan_runs.simps) simp
    next
      case diff: False
      obtain r where r: "close_run dir run_start page cls = Inr r" "start_page r = run_start"
          "run_page_count r = page - run_start" "page_class r = cls"
        using close_run_Inr [OF "1.prems"(1)] by blast
      have "\<forall>i \<in> {unat page..<unat (page + 1)}. page_class_at bs i = unat c"
        using cv by (auto simp: s)
      then obtain r' rs where rest: "scan_runs bs dir count (page + 1) page c = Inr (r' # rs)"
          "page_class r' = c" "tiles (map run_range (r' # rs)) (unat page) (unat count)"
          "list_all (run_is_uniform bs) (r' # rs)"
          "successively (\<lambda>x y. page_class x \<noteq> page_class y) (r' # rs)"
        using "1.IH"(2) [OF True c diff r(1)] "1.prems"(1-3) next_le next_gt by blast
      have "run_range r = (unat run_start, unat page)"
        using r le by (simp add: run_range_def len word_less_nat_alt)
      moreover have "run_is_uniform bs r"
        using r le "1.prems"(6) by (auto simp: run_is_uniform_def list_all_iff len word_less_nat_alt)
      ultimately show ?thesis
        using rest r diff le True c
        by (subst scan_runs.simps) (auto simp: word_less_nat_alt)
    qed
  qed
qed

text \<open>C38: For a file of at most 4 GiB with a directory that names its dictionary and content pages, the
  page runs cover all pages in order without gap or overlap, every page of a run carries the run's
  class, and neighbouring runs differ in class, so no run can be extended.\<close>

theorem build_page_runs_partition:
  assumes "logical_pages_set dir" and "length bs \<le> 2 ^ 32"
  shows "\<exists>runs. build_page_runs bs dir = Inr runs \<and>
           tiles (map run_range runs) 0 (length bs div page_bytes) \<and>
           list_all (run_is_uniform bs) runs \<and>
           successively (\<lambda>x y. page_class x \<noteq> page_class y) runs"
proof -
  define count :: u32 where "count = of_nat (length bs div page_bytes)"
  have small: "length bs div page_bytes \<le> 2 ^ 20" using assms(2) by simp
  then have uc: "unat count = length bs div page_bytes"
    by (simp add: count_def unsigned_of_nat take_bit_nat_eq_self)
  show ?thesis
  proof (cases "count = 0")
    case True
    then show ?thesis using uc by (simp add: build_page_runs_def count_def [symmetric])
  next
    case False
    then have c1: "1 \<le> unat count" by (metis One_nat_def Suc_leI unat_gt_0)
    have fits: "unat count * page_bytes \<le> length bs" by (simp add: uc)
    then have "page_bytes \<le> length bs" using c1 by linarith
    then obtain cls where cls: "read_be16 bs 0 = Inr cls" "unat cls = page_class_at bs 0"
      using read_be16_value [of 0 bs] by (auto simp: page_class_at_def)
    have "\<exists>r rs. scan_runs bs dir count 1 0 cls = Inr (r # rs) \<and> page_class r = cls \<and>
           tiles (map run_range (r # rs)) (unat (0 :: u32)) (unat count) \<and>
           list_all (run_is_uniform bs) (r # rs) \<and>
           successively (\<lambda>x y. page_class x \<noteq> page_class y) (r # rs)"
      using assms(1) fits small c1 cls(2)
      by (intro scan_runs_Inr) (auto simp: uc word_le_nat_alt)
    then show ?thesis using False cls(1)
      by (auto simp: build_page_runs_def count_def [symmetric] uc)
  qed
qed

theorem build_page_runs_partition_witness:
  "logical_pages_set example_directory \<and>
   (\<exists>runs. build_page_runs (replicate 8192 0) example_directory = Inr runs \<and>
      tiles (map run_range runs) 0 2)"
  using build_page_runs_partition [of example_directory "replicate 8192 0"]
  by (auto simp: logical_pages_set_def example_directory_def)

text \<open>The offset the code reads a page's class at is the page number reduced modulo 2^20, times the
  page size: exact in every file of at most 4 GiB, and the offset of another page beyond.\<close>

lemma page_offset_wraps:
  "page_offset page = unat page mod 2 ^ 20 * page_bytes"
proof -
  have "unat page * page_bytes mod 2 ^ 32 = unat page mod 2 ^ 20 * page_bytes"
    using mult_mod_right [of page_bytes "unat page" "2 ^ 20"] by (simp add: mult.commute)
  then show ?thesis by (simp add: page_offset_def unat_word_ariths)
qed

end
