(* ===== verification/Dictionary.thy ===== *)
theory Dictionary
  imports Container "HOL-Library.AList"
begin

section \<open>The token dictionary (\<open>src/container/logical.cpp\<close>)\<close>

text \<open>
  Compact lengths, the delta-coded word lists and the pages that hold them. The \<open>std::map\<close> from
  keys to words is an association list written with \<open>AList.update\<close>; the code only looks keys up
  and asks whether the map is empty. A by-reference offset is returned beside the result.
\<close>

type_synonym dictionary = "(u16 \<times> token_words) list"

subsection \<open>Compact lengths\<close>

definition read_compact_length :: "bytes \<Rightarrow> nat \<Rightarrow> nat \<Rightarrow> u16 option \<times> nat" where
  "read_compact_length bs off end_off =
     (if off \<ge> end_off then (None, off)
      else let first = byte_at bs off in
        if first \<le> 0xEF then (Some (ucast first), off + 1)
        else if off + 1 \<ge> end_off then (None, off + 1)
        else let second = byte_at bs (off + 1)
             in (Some (push_bit 8 (ucast first - 0xF0) + ucast second), off + 2))"

subsection \<open>The code page of the literals\<close>

definition dictionary_literal_codec :: "boo_directory \<Rightarrow> code_page result" where
  "dictionary_literal_codec dir =
     (let parameter = dictionary_text_parameter dir;
          selector =
            (if version_text dir = '' 1.0'' then 351
             else if version_text dir = '' 1.1'' then (if parameter = 0 then 351 else parameter)
             else if version_text dir = '' 1.2'' then parameter
             else 0)
      in if selector = 351 then Inr Cp351
         else if selector = 500 then Inr Cp500
         else Inl (RuntimeError
           (''unsupported BOO dictionary text: directory version '' @ [CHR 0x27] @
            version_text dir @ [CHR 0x27] @ '' with text parameter '' @ decimal (unat parameter))))"

subsection \<open>Delta-coded words\<close>

definition decode_dictionary_words :: "bytes \<Rightarrow> nat \<Rightarrow> nat \<Rightarrow> code_page \<Rightarrow> token_words" where
  "decode_dictionary_words bs off count cp =
     map (\<lambda>i. decode_word cp (byte_at bs (off + i))) [0..<count]"

fun lowercase_positions :: "token_words \<Rightarrow> bytes \<Rightarrow> token_words" where
  "lowercase_positions v [] = v"
| "lowercase_positions v (p # ps) =
     lowercase_positions
       (if unat p < length v then v[unat p := map_token_word_to_lower (v ! unat p)] else v) ps"

fun uppercase_positions :: "token_words \<Rightarrow> bytes \<Rightarrow> token_words" where
  "uppercase_positions v [] = v"
| "uppercase_positions v (p # ps) =
     uppercase_positions
       (if unat p < length v then v[unat p := map_token_word_to_upper (v ! unat p)] else v) ps"

definition lowercase_words :: "token_words \<Rightarrow> token_words" where
  "lowercase_words v = map map_token_word_to_lower v"

definition uppercase_words :: "token_words \<Rightarrow> token_words" where
  "uppercase_words v = map map_token_word_to_upper v"

text \<open>One operation of the loop, from the cursor behind its first byte: the new value and cursor, or
  \<open>None\<close> where the loop breaks.\<close>

definition delta_step ::
  "bytes \<Rightarrow> nat \<Rightarrow> nat \<Rightarrow> code_page \<Rightarrow> byte \<Rightarrow> token_words \<Rightarrow> (token_words \<times> nat) option" where
  "delta_step bs cursor end_off cp opc v =
     (let mode = drop_bit 6 opc; count = unat (opc AND 0x3F) in
      if mode = 0 then
        if cursor + count > end_off then None
        else Some (lowercase_positions (uppercase_words v) (slice bs cursor (cursor + count)),
                   cursor + count)
      else if mode = 1 then
        if cursor \<ge> end_off then None
        else let literal_count = unat (byte_at bs cursor AND 0x3F); at = cursor + 1 in
          if at + literal_count > end_off then None
          else Some (lowercase_words (take (min count (length v)) v) @
                       decode_dictionary_words bs at literal_count cp,
                     at + literal_count)
      else if mode = 2 then
        if cursor + count > end_off then None
        else Some (uppercase_positions (lowercase_words v) (slice bs cursor (cursor + count)),
                   cursor + count)
      else
        if cursor + count > end_off then None
        else Some (lowercase_words v @ decode_dictionary_words bs cursor count cp,
                   cursor + count))"

lemma delta_step_cursor:
  "delta_step bs cursor end_off cp opc v = Some (v', c') \<Longrightarrow> cursor \<le> c' \<and> c' \<le> end_off"
  by (auto simp: delta_step_def Let_def split: if_splits)

function delta_loop ::
  "dictionary \<Rightarrow> u16 \<Rightarrow> token_words \<Rightarrow> bytes \<Rightarrow> nat \<Rightarrow> nat \<Rightarrow> code_page \<Rightarrow> dictionary" where
  "delta_loop ts key v bs cursor end_off cp =
     (if cursor < end_off then
        (case delta_step bs (cursor + 1) end_off cp (byte_at bs cursor) v of
           None \<Rightarrow> ts
         | Some (v', c') \<Rightarrow> delta_loop (AList.update key v' ts) (key + 1) v' bs c' end_off cp)
      else ts)"
  by pat_completeness auto
termination
  by (relation "measure (\<lambda>(_, _, _, _, cursor, end_off, _). end_off - cursor)")
    (auto dest!: delta_step_cursor)

declare delta_loop.simps [simp del]

definition decode_dictionary_delta_range ::
  "dictionary \<Rightarrow> u16 \<Rightarrow> bytes \<Rightarrow> nat \<Rightarrow> nat \<Rightarrow> code_page \<Rightarrow> dictionary" where
  "decode_dictionary_delta_range ts first_key bs begin_off end_off cp =
     (if begin_off \<ge> end_off then ts
      else let base_count = unat (byte_at bs begin_off); cursor = begin_off + 1 in
        if cursor + base_count > end_off then ts
        else let v = decode_dictionary_words bs cursor base_count cp
             in delta_loop (AList.update first_key v ts) (first_key + 1) v bs
                  (cursor + base_count) end_off cp)"

subsection \<open>Dictionary pages\<close>

lemma compact_high_value:
  assumes "\<not> (f :: byte) \<le> 0xEF"
  shows "unat (push_bit 8 (ucast f - 0xF0) + ucast (s :: byte) :: u16) = (unat f - 0xF0) * 256 + unat s"
proof -
  have f: "0xF0 \<le> unat f" using assms by (simp add: word_le_nat_alt)
  then have "unat (ucast f - 0xF0 :: u16) = unat f - 0xF0"
    by (simp add: unat_sub_if_size)
  then have "unat (push_bit 8 (ucast f - 0xF0 :: u16)) = (unat f - 0xF0) * 256"
    using f unat_byte_le [of f]
    by (simp only: unsigned_push_bit_eq, subst take_bit_nat_eq_self) (auto simp: push_bit_eq_mult)
  moreover have "unat f - 0xF0 \<le> 15" using unat_byte_le [of f] by linarith
  then have "(unat f - 0xF0) * 256 + unat s < 65536" using unat_byte_le [of s] by linarith
  ultimately show ?thesis by (simp add: unat_plus_if_size word_size)
qed

lemma read_compact_length_cursor:
  "read_compact_length bs off e = (Some n, off') \<Longrightarrow> off < off' \<and> off' \<le> e \<and> unat n < 4096"
  using unat_byte_le [of "byte_at bs off"] unat_byte_le [of "byte_at bs (off + 1)"]
  by (auto simp: read_compact_length_def Let_def compact_high_value split: if_splits)

function nested_loop ::
  "bytes \<Rightarrow> code_page \<Rightarrow> dictionary \<Rightarrow> nat \<Rightarrow> nat \<Rightarrow> dictionary result" where
  "nested_loop bs cp ts nested_offset top_end =
     (if nested_offset < top_end then
        (case read_compact_length bs nested_offset top_end of
           (None, _) \<Rightarrow> Inr ts
         | (Some nested_length, nested_payload) \<Rightarrow>
             if nested_length = 0 \<or> nested_payload + unat nested_length > top_end then Inr ts
             else let nested_end = nested_payload + unat nested_length in
               and_then
                 (if nested_payload + 2 < nested_end
                  then and_then (read_be16 bs nested_payload) (\<lambda>key.
                    Inr (decode_dictionary_delta_range ts key bs (nested_payload + 2) nested_end cp))
                  else Inr ts)
                 (\<lambda>ts'. nested_loop bs cp ts' nested_end top_end))
      else Inr ts)"
  by pat_completeness auto
termination
  by (relation "measure (\<lambda>(_, _, _, nested_offset, top_end). top_end - nested_offset)")
    (auto dest!: read_compact_length_cursor [OF sym])

declare nested_loop.simps [simp del]

definition decode_top_entry ::
  "bytes \<Rightarrow> code_page \<Rightarrow> dictionary \<Rightarrow> nat \<Rightarrow> nat \<Rightarrow> dictionary result" where
  "decode_top_entry bs cp ts top_payload top_end =
     (if top_payload + 3 \<le> top_end then
        let prefix_length = unat (byte_at bs (top_payload + 2));
            nested_begin = top_payload + 3 + prefix_length
        in if nested_begin < top_end then nested_loop bs cp ts nested_begin top_end else Inr ts
      else Inr ts)"

function top_loop ::
  "bytes \<Rightarrow> code_page \<Rightarrow> dictionary \<Rightarrow> nat \<Rightarrow> nat \<Rightarrow> dictionary result" where
  "top_loop bs cp ts top_offset page_end =
     (if top_offset < page_end then
        (case read_compact_length bs top_offset page_end of
           (None, _) \<Rightarrow> Inr ts
         | (Some top_length, top_payload) \<Rightarrow>
             if top_length = 0 \<or> top_payload + unat top_length > page_end then Inr ts
             else let top_end = top_payload + unat top_length in
               and_then (decode_top_entry bs cp ts top_payload top_end)
                 (\<lambda>ts'. top_loop bs cp ts' top_end page_end))
      else Inr ts)"
  by pat_completeness auto
termination
  by (relation "measure (\<lambda>(_, _, _, top_offset, page_end). page_end - top_offset)")
    (auto dest!: read_compact_length_cursor [OF sym])

declare top_loop.simps [simp del]

definition decode_dictionary_page ::
  "bytes \<Rightarrow> code_page \<Rightarrow> dictionary \<Rightarrow> u32 \<Rightarrow> dictionary result" where
  "decode_dictionary_page bs cp ts page =
     (if unat page \<ge> length bs div page_bytes then Inr ts
      else let page_base = page_offset page in
        and_then (read_be16 bs page_base) (\<lambda>cls.
        if cls \<noteq> 0x0100 then Inr ts
        else and_then (read_be16 bs (page_base + 2)) (\<lambda>used_end.
          top_loop bs cp ts (page_base + 4) (page_base + min (unat used_end) page_bytes))))"

fun decode_dictionary_pages ::
  "bytes \<Rightarrow> boo_directory \<Rightarrow> code_page \<Rightarrow> dictionary \<Rightarrow> nat list \<Rightarrow> dictionary result" where
  "decode_dictionary_pages bs dir cp ts [] = Inr ts"
| "decode_dictionary_pages bs dir cp ts (logical_page # rest) =
     and_then (physical_page_for_logical dir (of_nat logical_page)) (\<lambda>page.
     and_then (decode_dictionary_page bs cp ts page) (\<lambda>ts'.
     decode_dictionary_pages bs dir cp ts' rest))"

definition decode_experimental_dictionary :: "bytes \<Rightarrow> boo_directory \<Rightarrow> dictionary result" where
  "decode_experimental_dictionary bs dir =
     and_then (dictionary_literal_codec dir) (\<lambda>cp.
     let first = unat (dictionary_start_page dir)
     in decode_dictionary_pages bs dir cp [] [first..<first + unat (dictionary_page_count dir)])"

text \<open>A one-byte token is looked up through the directory's token map, a two-byte token is its own
  key.\<close>

definition resolve_experimental_token ::
  "bytes \<Rightarrow> boo_directory \<Rightarrow> dictionary \<Rightarrow> byte \<Rightarrow> byte option \<Rightarrow> token_words" where
  "resolve_experimental_token bs dir ts first second =
     (let lookup = \<lambda>key. (case map_of ts key of None \<Rightarrow> [] | Some v \<Rightarrow> v) in
      case second of
        Some s \<Rightarrow> lookup (push_bit 8 (ucast first) OR ucast s)
      | None \<Rightarrow>
          let entry = unat (page_number dir) * page_bytes + unat (token_map_offset dir)
                      + unat first * 2
          in if entry + 2 > length bs then []
             else (case read_be16 bs entry of Inl _ \<Rightarrow> [] | Inr key \<Rightarrow> lookup key))"

subsection \<open>Compact lengths round trip\<close>

definition encode_compact_length :: "nat \<Rightarrow> bytes" where
  "encode_compact_length n =
     (if n \<le> 0xEF then [of_nat n] else [of_nat (0xF0 + n div 256), of_nat (n mod 256)])"

lemma read_compact_length_encode:
  assumes "n < 4096" and "length pre + length (encode_compact_length n) \<le> e"
  shows "read_compact_length (pre @ encode_compact_length n @ post) (length pre) e =
           (Some (of_nat n), length pre + length (encode_compact_length n))"
proof (cases "n \<le> 0xEF")
  case True
  then have le: "(of_nat n :: byte) \<le> 0xEF"
    by (simp add: word_le_nat_alt unsigned_of_nat take_bit_nat_eq_self)
  have "(ucast (of_nat n :: byte) :: u16) = of_nat n"
    using True by (simp add: word_unat_eq_iff unsigned_ucast_eq unsigned_of_nat take_bit_nat_eq_self)
  then show ?thesis using True assms le
    by (simp add: read_compact_length_def encode_compact_length_def byte_at_def)
next
  case False
  have d: "n div 256 \<le> 15" using assms(1) by linarith
  have first: "unat (of_nat (0xF0 + n div 256) :: byte) = 0xF0 + n div 256"
    unfolding unsigned_of_nat using d by (subst take_bit_nat_eq_self) simp_all
  have second: "unat (of_nat (n mod 256) :: byte) = n mod 256"
    unfolding unsigned_of_nat by (subst take_bit_nat_eq_self) simp_all
  have high: "\<not> (of_nat (0xF0 + n div 256) :: byte) \<le> 0xEF"
    unfolding word_le_nat_alt first by simp
  have "unat (push_bit 8 (ucast (of_nat (0xF0 + n div 256) :: byte) - 0xF0) +
               ucast (of_nat (n mod 256) :: byte) :: u16) = n"
    unfolding compact_high_value [OF high] first second by simp
  then have "(push_bit 8 (ucast (of_nat (0xF0 + n div 256) :: byte) - 0xF0) +
               ucast (of_nat (n mod 256) :: byte) :: u16) = of_nat n"
    by (metis of_nat_unat ucast_id)
  then show ?thesis using False assms high
    by (simp add: read_compact_length_def encode_compact_length_def byte_at_def Let_def nth_append
        del: of_nat_add)
qed

subsection \<open>What the delta coding means\<close>

text \<open>The four operations of a word list, each on the word before it, and their bytes.\<close>

datatype delta_op =
    Upper_but bytes
  | Keep_then nat bytes
  | Lower_but bytes
  | Append bytes

fun apply_delta :: "code_page \<Rightarrow> delta_op \<Rightarrow> token_words \<Rightarrow> token_words" where
  "apply_delta cp (Upper_but ps) v = lowercase_positions (uppercase_words v) ps"
| "apply_delta cp (Keep_then n lits) v =
     lowercase_words (take n v) @ map (decode_word cp) lits"
| "apply_delta cp (Lower_but ps) v = uppercase_positions (lowercase_words v) ps"
| "apply_delta cp (Append lits) v = lowercase_words v @ map (decode_word cp) lits"

fun encode_delta :: "delta_op \<Rightarrow> bytes" where
  "encode_delta (Upper_but ps) = of_nat (length ps) # ps"
| "encode_delta (Keep_then n lits) = of_nat (64 + n) # of_nat (length lits) # lits"
| "encode_delta (Lower_but ps) = of_nat (128 + length ps) # ps"
| "encode_delta (Append lits) = of_nat (192 + length lits) # lits"

fun delta_fits :: "delta_op \<Rightarrow> bool" where
  "delta_fits (Upper_but ps) \<longleftrightarrow> length ps < 64"
| "delta_fits (Keep_then n lits) \<longleftrightarrow> n < 64 \<and> length lits < 64"
| "delta_fits (Lower_but ps) \<longleftrightarrow> length ps < 64"
| "delta_fits (Append lits) \<longleftrightarrow> length lits < 64"

lemma delta_opcode:
  assumes "m < 4" and "n < 64"
  shows "drop_bit 6 (of_nat (64 * m + n) :: byte) = of_nat m"
    and "unat ((of_nat (64 * m + n) :: byte) AND 0x3F) = n"
proof -
  have u: "unat (of_nat (64 * m + n) :: byte) = 64 * m + n"
    unfolding unsigned_of_nat using assms by (subst take_bit_nat_eq_self) simp_all
  have "unat (of_nat m :: byte) = m"
    unfolding unsigned_of_nat using assms by (subst take_bit_nat_eq_self) simp_all
  moreover have "(64 * m + n) div 64 = m" using assms by simp
  ultimately show "drop_bit 6 (of_nat (64 * m + n) :: byte) = of_nat m"
    unfolding word_unat_eq_iff unsigned_drop_bit_eq u
    using assms by (simp add: drop_bit_eq_div take_bit_nat_eq_self)
  have "(0x3F :: byte) = mask 6" by (simp add: mask_eq_exp_minus_1)
  then have "unat ((of_nat (64 * m + n) :: byte) AND 0x3F) =
      unat (take_bit 6 (of_nat (64 * m + n) :: byte))"
    by (simp only: take_bit_eq_mask)
  also have "\<dots> = (64 * m + n) mod 64"
    unfolding unsigned_take_bit_eq u by (simp add: take_bit_eq_mod)
  also have "\<dots> = n" using assms by simp
  finally show "unat ((of_nat (64 * m + n) :: byte) AND 0x3F) = n" .
qed


lemma byte_at_append [simp]: "byte_at (pre @ b # post) (length pre) = b"
  by (simp add: byte_at_def)

lemma decode_dictionary_words_slice:
  "decode_dictionary_words (pre @ lits @ post) (length pre) (length lits) cp =
     map (decode_word cp) lits"
  by (rule nth_equalityI) (simp_all add: decode_dictionary_words_def byte_at_def nth_append)

lemma delta_step_encode:
  assumes "delta_fits d" and "length pre + length (encode_delta d) \<le> e"
  shows "delta_step (pre @ encode_delta d @ post) (length pre + 1) e cp (hd (encode_delta d)) v =
           Some (apply_delta cp d v, length pre + length (encode_delta d))"
proof (cases d)
  case (Upper_but ps)
  have "slice (pre @ encode_delta d @ post) (length pre + 1) (length pre + 1 + length ps) = ps"
    using slice_middle [of "pre @ [of_nat (length ps)]" ps post] Upper_but by simp
  moreover have "drop_bit 6 (of_nat (length ps) :: byte) = 0"
    and "unat ((of_nat (length ps) :: byte) AND 0x3F) = length ps"
    using delta_opcode [of 0 "length ps"] assms(1) Upper_but by simp_all
  ultimately show ?thesis using assms Upper_but by (simp add: delta_step_def Let_def)
next
  case (Keep_then n lits)
  have "decode_dictionary_words (pre @ encode_delta d @ post) (length pre + 2) (length lits) cp =
      map (decode_word cp) lits"
    using decode_dictionary_words_slice
      [of "pre @ [of_nat (64 + n), of_nat (length lits)]" lits post cp] Keep_then by simp
  moreover have "byte_at (pre @ encode_delta d @ post) (length pre + 1) = of_nat (length lits)"
    using byte_at_append [of "pre @ [of_nat (64 + n)]" "of_nat (length lits)" "lits @ post"]
      Keep_then by simp
  moreover have "drop_bit 6 (of_nat (64 + n) :: byte) = 1"
    and "unat ((of_nat (64 + n) :: byte) AND 0x3F) = n"
    and "unat ((of_nat (length lits) :: byte) AND 0x3F) = length lits"
    using delta_opcode [of 1 n] delta_opcode [of 0 "length lits"] assms(1) Keep_then
    by simp_all
  moreover have "take (min n (length v)) v = take n v" by (simp add: min_def)
  ultimately show ?thesis using assms Keep_then
    by (simp add: delta_step_def Let_def del: of_nat_add)
next
  case (Lower_but ps)
  have "slice (pre @ encode_delta d @ post) (length pre + 1) (length pre + 1 + length ps) = ps"
    using slice_middle [of "pre @ [of_nat (128 + length ps)]" ps post] Lower_but by simp
  moreover have "drop_bit 6 (of_nat (128 + length ps) :: byte) = 2"
    and "unat ((of_nat (128 + length ps) :: byte) AND 0x3F) = length ps"
    using delta_opcode [of 2 "length ps"] assms(1) Lower_but by simp_all
  ultimately show ?thesis using assms Lower_but
    by (simp add: delta_step_def Let_def del: of_nat_add)
next
  case (Append lits)
  have "decode_dictionary_words (pre @ encode_delta d @ post) (length pre + 1) (length lits) cp =
      map (decode_word cp) lits"
    using decode_dictionary_words_slice [of "pre @ [of_nat (192 + length lits)]" lits post cp]
      Append by simp
  moreover have "drop_bit 6 (of_nat (192 + length lits) :: byte) = 3"
    and "unat ((of_nat (192 + length lits) :: byte) AND 0x3F) = length lits"
    using delta_opcode [of 3 "length lits"] assms(1) Append by simp_all
  ultimately show ?thesis using assms Append
    by (simp add: delta_step_def Let_def del: of_nat_add)
qed

text \<open>The values a list of operations goes through, and the dictionary with them under consecutive
  keys.\<close>

fun delta_values :: "code_page \<Rightarrow> token_words \<Rightarrow> delta_op list \<Rightarrow> token_words list" where
  "delta_values cp v [] = []"
| "delta_values cp v (d # ds) = apply_delta cp d v # delta_values cp (apply_delta cp d v) ds"

fun record_values :: "dictionary \<Rightarrow> u16 \<Rightarrow> token_words list \<Rightarrow> dictionary" where
  "record_values ts key [] = ts"
| "record_values ts key (v # vs) = record_values (AList.update key v ts) (key + 1) vs"

lemma encode_delta_Cons: "\<exists>b bs. encode_delta d = b # bs"
  by (cases d) simp_all

lemma delta_loop_encode:
  assumes "list_all delta_fits ds"
  shows "delta_loop ts key v (pre @ concat (map encode_delta ds) @ post) (length pre)
           (length pre + length (concat (map encode_delta ds))) cp =
         record_values ts key (delta_values cp v ds)"
  using assms
proof (induction ds arbitrary: ts key v pre)
  case Nil
  then show ?case by (simp add: delta_loop.simps)
next
  case (Cons d ds)
  let ?rest = "concat (map encode_delta ds) @ post"
  let ?e = "length pre + length (concat (map encode_delta (d # ds)))"
  obtain b bs where d: "encode_delta d = b # bs" using encode_delta_Cons by blast
  have at: "byte_at (pre @ encode_delta d @ ?rest) (length pre) = hd (encode_delta d)"
    by (simp add: d)
  have step: "delta_step (pre @ encode_delta d @ ?rest) (length pre + 1) ?e cp
      (hd (encode_delta d)) v = Some (apply_delta cp d v, length pre + length (encode_delta d))"
    using Cons.prems by (intro delta_step_encode) simp_all
  have more: "length pre < ?e" by (simp add: d)
  have "delta_loop ts key v (pre @ encode_delta d @ ?rest) (length pre) ?e cp =
      delta_loop (AList.update key (apply_delta cp d v) ts) (key + 1) (apply_delta cp d v)
        (pre @ encode_delta d @ ?rest) (length pre + length (encode_delta d)) ?e cp"
    by (subst delta_loop.simps, subst at, subst step) (use more in simp)
  also have "\<dots> = record_values (AList.update key (apply_delta cp d v) ts) (key + 1)
      (delta_values cp (apply_delta cp d v) ds)"
    using Cons.IH [of "AList.update key (apply_delta cp d v) ts" "key + 1" "apply_delta cp d v"
        "pre @ encode_delta d"] Cons.prems by (simp add: add.assoc)
  finally show ?case by simp
qed

lemma decode_delta_range_encode:
  assumes "length base < 256" and "list_all delta_fits ds"
  shows "decode_dictionary_delta_range ts key
           (pre @ (of_nat (length base) # base @ concat (map encode_delta ds)) @ post) (length pre)
           (length pre + (1 + length base + length (concat (map encode_delta ds)))) cp =
         record_values ts key
           (map (decode_word cp) base # delta_values cp (map (decode_word cp) base) ds)"
proof -
  let ?bs = "pre @ (of_nat (length base) # base @ concat (map encode_delta ds)) @ post"
  have "unat (byte_at ?bs (length pre)) = length base"
    using assms(1) by (simp add: unsigned_of_nat take_bit_nat_eq_self)
  moreover have "decode_dictionary_words ?bs (length pre + 1) (length base) cp =
      map (decode_word cp) base"
    using decode_dictionary_words_slice
      [of "pre @ [of_nat (length base)]" base "concat (map encode_delta ds) @ post" cp] by simp
  moreover have "delta_loop ts' (key + 1) v ?bs (length pre + 1 + length base)
      (length pre + (1 + length base + length (concat (map encode_delta ds)))) cp =
      record_values ts' (key + 1) (delta_values cp v ds)" for ts' v
    using delta_loop_encode
      [OF assms(2), of ts' "key + 1" v "pre @ of_nat (length base) # base" post cp]
    by (simp add: add.assoc add.commute add.left_commute)
  ultimately show ?thesis by (simp add: decode_dictionary_delta_range_def Let_def)
qed

lemma word_add_1_of_nat: "(key :: u16) + 1 + of_nat i = key + of_nat (Suc i)"
  by simp

lemma u16_add_inj:
  assumes "i < 65536" and "j < 65536" and "(key :: u16) + of_nat i = key + of_nat j"
  shows "i = j"
proof -
  have "unat (of_nat i :: u16) = i" "unat (of_nat j :: u16) = j"
    using assms(1,2) by (simp_all add: unsigned_of_nat take_bit_nat_eq_self)
  then show ?thesis using assms(3) by (metis add_left_cancel)
qed

lemma map_of_record_values_other:
  "(\<forall>i < length vs. k \<noteq> key + of_nat i) \<Longrightarrow>
   map_of (record_values ts key vs) k = map_of ts k"
proof (induction vs arbitrary: ts key)
  case Nil
  then show ?case by simp
next
  case (Cons v vs)
  have "k \<noteq> key" using spec [OF Cons.prems, of 0] by simp
  moreover have "\<forall>i < length vs. k \<noteq> key + 1 + of_nat i"
  proof (intro allI impI)
    fix i assume "i < length vs"
    then show "k \<noteq> key + 1 + of_nat i"
      unfolding word_add_1_of_nat using spec [OF Cons.prems, of "Suc i"] by (simp del: of_nat_Suc)
  qed
  then have "map_of (record_values (AList.update key v ts) (key + 1) vs) k =
      map_of (AList.update key v ts) k" by (rule Cons.IH)
  ultimately show ?case by (simp add: update_conv')
qed

lemma map_of_record_values:
  "length vs \<le> 65536 \<Longrightarrow> i < length vs \<Longrightarrow>
   map_of (record_values ts key vs) (key + of_nat i) = Some (vs ! i)"
proof (induction vs arbitrary: ts key i)
  case Nil
  then show ?case by simp
next
  case (Cons v vs)
  show ?case
  proof (cases i)
    case 0
    have "\<forall>j < length vs. key \<noteq> key + 1 + of_nat j"
    proof (intro allI impI)
      fix j assume "j < length vs"
      then have "Suc j < 65536" using Cons.prems(1) by simp
      then have "key + of_nat 0 \<noteq> key + of_nat (Suc j)"
        using u16_add_inj [of 0 "Suc j" key] by fastforce
      then show "key \<noteq> key + 1 + of_nat j"
        unfolding word_add_1_of_nat by (simp del: of_nat_Suc)
    qed
    from map_of_record_values_other [OF this] show ?thesis by (simp add: 0 update_conv')
  next
    case (Suc j)
    have "map_of (record_values (AList.update key v ts) (key + 1) vs) (key + 1 + of_nat j) =
        Some (vs ! j)"
      by (rule Cons.IH) (use Cons.prems Suc in simp_all)
    then show ?thesis unfolding word_add_1_of_nat Suc by (simp del: of_nat_Suc)
  qed
qed


lemma length_delta_values [simp]: "length (delta_values cp v ds) = length ds"
  by (induction ds arbitrary: v) simp_all

lemma delta_values_nth:
  "i \<le> length ds \<Longrightarrow>
   (v # delta_values cp v ds) ! i = fold (apply_delta cp) (take i ds) v"
proof (induction ds arbitrary: v i)
  case Nil
  then show ?case by simp
next
  case (Cons d ds)
  then show ?case by (cases i) simp_all
qed

text \<open>A compact length is read back from its one- or two-byte form, for every value below 4096.\<close>

lemma compact_length_round_trip:
  assumes "n < 4096"
  shows "read_compact_length (pre @ encode_compact_length n @ post) (length pre)
           (length (pre @ encode_compact_length n)) =
         (Some (of_nat n), length (pre @ encode_compact_length n))"
  using assms read_compact_length_encode [of n pre "length (pre @ encode_compact_length n)" post]
  by simp

text \<open>C7: A delta-coded range defines consecutive keys: the word under the i-th key is the base word with
  the first i operations applied, whatever the dictionary held before.\<close>

theorem delta_range_meaning:
  assumes "length base < 256" and "list_all delta_fits ds" and "length ds < 65536"
    and "i \<le> length ds"
  shows "map_of (decode_dictionary_delta_range ts key
             (pre @ (of_nat (length base) # base @ concat (map encode_delta ds)) @ post)
             (length pre)
             (length pre + (1 + length base + length (concat (map encode_delta ds)))) cp)
           (key + of_nat i) =
         Some (fold (apply_delta cp) (take i ds) (map (decode_word cp) base))"
  unfolding decode_delta_range_encode [OF assms(1,2)]
  using map_of_record_values
    [of "map (decode_word cp) base # delta_values cp (map (decode_word cp) base) ds" i ts key]
    delta_values_nth [of i ds "map (decode_word cp) base" cp] assms(3,4)
  by simp

theorem delta_range_meaning_witness:
  "map_of (decode_dictionary_delta_range [] 7 [2, 0xC1, 0xC2, 0x41, 1, 0xC3] 0 6 Cp500) 8 =
     Some (fold (apply_delta Cp500) [Keep_then 1 [0xC3]] (map (decode_word Cp500) [0xC1, 0xC2]))"
  using delta_range_meaning [of "[0xC1, 0xC2]" "[Keep_then 1 [0xC3]]" 1 "[]" 7 "[]" "[]" Cp500]
  by simp (simp add: eval_nat_numeral)

subsection \<open>Decoding the dictionary never reads outside the file\<close>

lemma nested_loop_returns:
  "top_end \<le> length bs \<Longrightarrow> returns (nested_loop bs cp ts nested_offset top_end)"
proof (induction bs cp ts nested_offset top_end rule: nested_loop.induct)
  case (1 bs cp ts nested_offset top_end)
  show ?case
  proof (cases "nested_offset < top_end")
    case False
    then show ?thesis by (simp add: nested_loop.simps)
  next
    case True
    obtain l p where r: "read_compact_length bs nested_offset top_end = (l, p)" by fastforce
    show ?thesis
    proof (cases "l = None \<or> the l = 0 \<or> p + unat (the l) > top_end")
      case True
      then show ?thesis using r by (subst nested_loop.simps) (auto split: option.splits)
    next
      case False
      then obtain n where n: "l = Some n" "n \<noteq> 0" "p + unat n \<le> top_end"
        by (cases l) auto
      show ?thesis
      proof (cases "p + 2 < p + unat n")
        case keyed: True
        then obtain key where "read_be16 bs p = Inr key"
          using read_be16_Inr [of p bs] n "1.prems" by auto
        then show ?thesis
          using "1.IH" [OF True r [symmetric] n(1)] n "1.prems" True r keyed
          by (subst nested_loop.simps) (simp add: Let_def)
      next
        case unkeyed: False
        then show ?thesis
          using "1.IH" [OF True r [symmetric] n(1)] n "1.prems" True r
          by (subst nested_loop.simps) (simp add: Let_def)
      qed
    qed
  qed
qed

lemma decode_top_entry_returns:
  "top_end \<le> length bs \<Longrightarrow> returns (decode_top_entry bs cp ts top_payload top_end)"
  by (simp add: decode_top_entry_def Let_def nested_loop_returns)

lemma top_loop_returns:
  "page_end \<le> length bs \<Longrightarrow> returns (top_loop bs cp ts top_offset page_end)"
proof (induction bs cp ts top_offset page_end rule: top_loop.induct)
  case (1 bs cp ts top_offset page_end)
  show ?case
  proof (cases "top_offset < page_end")
    case False
    then show ?thesis by (simp add: top_loop.simps)
  next
    case True
    obtain l p where r: "read_compact_length bs top_offset page_end = (l, p)" by fastforce
    show ?thesis
    proof (cases "l = None \<or> the l = 0 \<or> p + unat (the l) > page_end")
      case True
      then show ?thesis using r by (subst top_loop.simps) (auto split: option.splits)
    next
      case False
      then obtain n where n: "l = Some n" "n \<noteq> 0" "p + unat n \<le> page_end"
        by (cases l) auto
      then obtain ts' where ts': "decode_top_entry bs cp ts p (p + unat n) = Inr ts'"
        using decode_top_entry_returns [of "p + unat n" bs cp ts p] "1.prems"
        by (auto simp: returns_iff)
      then show ?thesis
        using "1.IH" [OF True r [symmetric] n(1) _ refl ts'] n "1.prems" True r
        by (subst top_loop.simps) (simp add: Let_def)
    qed
  qed
qed

lemma page_offset_le: "page_offset page \<le> unat page * page_bytes"
  by (simp add: page_offset_def unat_word_ariths)

lemma decode_dictionary_page_returns:
  "returns (decode_dictionary_page bs cp ts page)"
proof (cases "unat page < length bs div page_bytes")
  case False
  then show ?thesis by (simp add: decode_dictionary_page_def)
next
  case True
  from page_in_file [OF this] have fits: "page_offset page + page_bytes \<le> length bs"
    using page_offset_le [of page] by simp
  obtain c where c: "read_be16 bs (page_offset page) = Inr c"
    using read_be16_Inr [of "page_offset page" bs] fits by auto
  obtain u where u: "read_be16 bs (page_offset page + 2) = Inr u"
    using read_be16_Inr [of "page_offset page + 2" bs] fits by auto
  have "page_offset page + min (unat u) page_bytes \<le> length bs" using fits by linarith
  then show ?thesis using True
    by (simp add: decode_dictionary_page_def Let_def c u top_loop_returns del: add_2_eq_Suc')
qed

lemma of_nat_u32_eq_0: "n < 2 ^ 32 \<Longrightarrow> (of_nat n :: u32) = 0 \<longleftrightarrow> n = 0"
  by (subst unat_eq_zero [symmetric]) (simp add: unsigned_of_nat take_bit_nat_eq_self)

lemma decode_dictionary_pages_returns:
  "list_all (\<lambda>n. n < 2 ^ 32) pages \<Longrightarrow>
   returns (decode_dictionary_pages bs dir cp ts pages) \<longleftrightarrow> 0 \<notin> set pages"
proof (induction pages arbitrary: ts)
  case Nil
  then show ?case by simp
next
  case (Cons n pages)
  show ?case
  proof (cases "n = 0")
    case True
    then show ?thesis by (simp add: physical_page_for_logical_def)
  next
    case False
    then obtain p where p: "physical_page_for_logical dir (of_nat n) = Inr p"
      using Cons.prems of_nat_u32_eq_0 [of n] by (simp add: physical_page_for_logical_def)
    obtain ts' where "decode_dictionary_page bs cp ts p = Inr ts'"
      using decode_dictionary_page_returns [of bs cp ts p] by (auto simp: returns_iff)
    then show ?thesis using False Cons p by simp
  qed
qed

text \<open>C8: Reading the dictionary fails only on the directory: on a text selector no table exists for, or
  on a dictionary that claims to start at logical page 0. No content of the dictionary pages makes
  it fail or read past the end of the file.\<close>

theorem decode_dictionary_fails_only_on_directory:
  "returns (decode_experimental_dictionary bs dir) =
     (returns (dictionary_literal_codec dir) \<and>
      (if dictionary_page_count dir = 0 then True else dictionary_start_page dir \<noteq> 0))"
proof -
  let ?first = "unat (dictionary_start_page dir)" and ?n = "unat (dictionary_page_count dir)"
  have "?first + ?n < 2 ^ 32"
    using unat_u16_le [of "dictionary_start_page dir"]
      unat_u16_le [of "dictionary_page_count dir"] by simp
  then have "list_all (\<lambda>n. n < 2 ^ 32) [?first..<?first + ?n]"
    by (auto simp: list_all_iff)
  moreover have "0 \<in> set [?first..<?first + ?n] \<longleftrightarrow> ?first = 0 \<and> ?n \<noteq> 0" by auto
  ultimately show ?thesis
    by (cases "dictionary_literal_codec dir")
      (auto simp: decode_experimental_dictionary_def Let_def decode_dictionary_pages_returns
        unat_eq_zero)
qed

end
