(* ===== verification/Paged_Index.thy ===== *)
theory Paged_Index
  imports Container
begin

section \<open>Paged 16-bit indexes (\<open>src/container/logical.cpp\<close>)\<close>

text \<open>
  The chained tables that list the first logical record of each content page and of each topic. The
  loop keeps the set of tables it has visited, which is what stops it on a cyclic chain.
\<close>

definition read_index_values :: "bytes \<Rightarrow> nat \<Rightarrow> nat \<Rightarrow> u32 list result" where
  "read_index_values bs table count =
     fold (\<lambda>index acc. and_then acc (\<lambda>vs.
            and_then (read_be16 bs (table + 4 + index * 2)) (\<lambda>v. Inr (vs @ [ucast v]))))
       [0..<count] (Inr [])"

lemma visited_shrinks:
  assumes "\<not> (table + 4 > length bs \<or> table \<in> set visited)"
  shows "card ({..length bs} - set (table # visited)) < card ({..length bs} - set visited)"
proof (rule psubset_card_mono)
  have "table \<in> {..length bs} - set visited" using assms by simp
  moreover have "table \<notin> {..length bs} - set (table # visited)" by simp
  moreover have "{..length bs} - set (table # visited) \<subseteq> {..length bs} - set visited"
    by (simp only: list.set) blast
  ultimately show "{..length bs} - set (table # visited) \<subset> {..length bs} - set visited"
    by (metis psubsetI)
qed (rule finite_Diff, rule finite_atMost)

function index_loop ::
  "bytes \<Rightarrow> boo_directory \<Rightarrow> nat \<Rightarrow> bool \<Rightarrow> nat list \<Rightarrow> nat \<Rightarrow> u32 list \<Rightarrow> u32 list result" where
  "index_loop bs dir expected_count include_terminal visited table values =
     (if table + 4 > length bs \<or> table \<in> set visited then Inr []
      else
        and_then (read_be16 bs table) (\<lambda>count.
        and_then (read_be16 bs (table + 2)) (\<lambda>nxt.
        if length values + unat count > expected_count \<or>
           table + 4 + unat count * 2 > length bs then Inr []
        else and_then (read_index_values bs table (unat count)) (\<lambda>read.
        let values' = values @ read in
        if length values' = expected_count then
          (if include_terminal then
             let terminal = table + 4 + unat count * 2 in
             if terminal + 2 > length bs then Inr []
             else and_then (read_be16 bs terminal) (\<lambda>v. Inr (values' @ [ucast v]))
           else Inr values')
        else if nxt = 0 then Inr []
        else and_then (physical_page_for_logical dir (ucast nxt)) (\<lambda>page.
          index_loop bs dir expected_count include_terminal (table # visited)
            (unat page * page_bytes) values')))))"
  by pat_completeness auto
termination
  by (relation "measure (\<lambda>(bs, _, _, _, visited, _, _). card ({..length bs} - set visited))")
    (rule wf_measure, unfold in_measure case_prod_conv, rule visited_shrinks)

declare index_loop.simps [simp del]

definition parse_paged_u16_index ::
  "bytes \<Rightarrow> boo_directory \<Rightarrow> nat \<Rightarrow> nat \<Rightarrow> bool \<Rightarrow> u32 list result" where
  "parse_paged_u16_index bs dir root expected_count include_terminal =
     index_loop bs dir expected_count include_terminal [] root []"

definition parse_content_page_record_starts :: "bytes \<Rightarrow> boo_directory \<Rightarrow> u32 list result" where
  "parse_content_page_record_starts bs dir =
     and_then
       (parse_paged_u16_index bs dir
          (unat (page_number dir) * page_bytes + unat (content_page_index_offset dir))
          (unat (content_page_count dir)) True)
       (\<lambda>starts. Inr (if starts = [] then starts else butlast starts @ [last starts + 1]))"

definition parse_topic_record_starts :: "bytes \<Rightarrow> boo_directory \<Rightarrow> u32 list result" where
  "parse_topic_record_starts bs dir =
     and_then
       (parse_paged_u16_index bs dir
          (unat (page_number dir) * page_bytes + unat (stream_table_offset dir))
          (unat (stream_table_count dir)) False)
       (\<lambda>starts. Inr (if starts = [] then starts
                       else starts @ [ucast (logical_record_count dir) + 1]))"

subsection \<open>Reading one table\<close>

lemma read_index_values_Inr:
  assumes "table + 4 + count * 2 \<le> length bs"
  shows "read_index_values bs table count =
    Inr (map (\<lambda>i. of_nat (be_value (slice bs (table + 4 + i * 2) (table + 4 + i * 2 + 2)))) [0..<count])"
  using assms
proof (induction count)
  case 0
  then show ?case by (simp add: read_index_values_def)
next
  case (Suc n)
  have "table + 4 + n * 2 + 2 \<le> length bs" using Suc.prems by simp
  then obtain v where v: "read_be16 bs (table + 4 + n * 2) = Inr v"
    "unat v = be_value (slice bs (table + 4 + n * 2) (table + 4 + n * 2 + 2))"
    using read_be16_value by blast
  have "(ucast v :: u32) = of_nat (unat v)" by (simp add: of_nat_unat)
  then show ?case using Suc v(1)
    by (simp add: read_index_values_def v(2) del: add_2_eq_Suc')
qed

lemma index_loop_returns:
  "\<exists>out. index_loop bs dir expected_count include_terminal visited table values = Inr out \<and>
     (out = [] \<or> length out = expected_count + of_bool include_terminal)"
proof (induction bs dir expected_count include_terminal visited table "values"
    rule: index_loop.induct)
  case (1 bs dir expected_count include_terminal visited table "values")
  show ?case
  proof (cases "table + 4 > length bs \<or> table \<in> set visited")
    case True
    then show ?thesis by (subst index_loop.simps) auto
  next
    case False
    then obtain count nxt where r: "read_be16 bs table = Inr count" "read_be16 bs (table + 2) = Inr nxt"
      using read_be16_Inr [of table bs] read_be16_Inr [of "table + 2" bs] by auto
    show ?thesis
    proof (cases "length values + unat count > expected_count \<or>
        table + 4 + unat count * 2 > length bs")
      case True
      with False r show ?thesis by (subst index_loop.simps) auto
    next
      case fits: False
      then obtain read where read: "read_index_values bs table (unat count) = Inr read"
          "length read = unat count"
        using read_index_values_Inr [of table "unat count" bs] by simp
      show ?thesis
      proof (cases "length values + unat count = expected_count \<or> nxt = 0")
        case True
        then show ?thesis
          using read_be16_Inr [of "table + 4 + unat count * 2" bs] False r fits read
          by (subst index_loop.simps) (auto simp: Let_def)
      next
        case more: False
        then obtain page where page: "physical_page_for_logical dir (ucast nxt) = Inr page"
          by (auto simp: physical_page_for_logical_def)
        then show ?thesis
          using "1.IH" [OF False r fits read(1) refl] False r fits read more
          by (subst index_loop.simps) (auto simp: Let_def)
      qed
    qed
  qed
qed

text \<open>What a table on the page says, read off its bytes.\<close>

definition table_count :: "bytes \<Rightarrow> nat \<Rightarrow> nat" where
  "table_count bs table = be_value (slice bs table (table + 2))"

definition table_values :: "bytes \<Rightarrow> nat \<Rightarrow> u32 list" where
  "table_values bs table =
     map (\<lambda>i. of_nat (be_value (slice bs (table + 4 + i * 2) (table + 4 + i * 2 + 2))))
       [0..<table_count bs table]"

definition table_fits :: "bytes \<Rightarrow> nat \<Rightarrow> bool" where
  "table_fits bs table \<longleftrightarrow> table + 4 + table_count bs table * 2 \<le> length bs"

definition next_table :: "bytes \<Rightarrow> boo_directory \<Rightarrow> nat \<Rightarrow> nat option" where
  "next_table bs dir table =
     (let logical = be_value (slice bs (table + 2) (table + 2 + 2))
      in if logical = 0 then None
         else Some (unat (page_number dir + of_nat logical - 1) * page_bytes))"

text \<open>A chain of tables: each lies in the file and names its successor.\<close>

fun linked_tables :: "bytes \<Rightarrow> boo_directory \<Rightarrow> nat list \<Rightarrow> bool" where
  "linked_tables bs dir [] = False"
| "linked_tables bs dir [t] = table_fits bs t"
| "linked_tables bs dir (t # u # ts) =
     (table_fits bs t \<and> next_table bs dir t = Some u \<and> linked_tables bs dir (u # ts))"

lemma index_loop_sound:
  "index_loop bs dir expected_count False visited table values = Inr out \<Longrightarrow> out \<noteq> [] \<Longrightarrow>
   \<exists>ts. linked_tables bs dir (table # ts) \<and> distinct (table # ts) \<and>
        set (table # ts) \<inter> set visited = {} \<and>
        out = values @ concat (map (table_values bs) (table # ts))"
proof (induction bs dir expected_count False visited table "values"
    rule: index_loop.induct)
  case (1 bs dir expected_count visited table "values")
  have inside: "\<not> (table + 4 > length bs \<or> table \<in> set visited)"
    using "1.prems" by (subst (asm) index_loop.simps) (auto split: if_splits)
  then have "table + 2 \<le> length bs" "table + 2 + 2 \<le> length bs" by simp_all
  then obtain count nxt where r: "read_be16 bs table = Inr count"
      "read_be16 bs (table + 2) = Inr nxt"
    and c: "unat count = table_count bs table"
    and n: "unat nxt = be_value (slice bs (table + 2) (table + 2 + 2))"
    using read_be16_value [of table bs] read_be16_value [of "table + 2" bs]
    unfolding table_count_def by blast
  have fits: "\<not> (length values + unat count > expected_count \<or>
        table + 4 + unat count * 2 > length bs)"
    using "1.prems" inside r by (subst (asm) index_loop.simps) (auto split: if_splits)
  then have read: "read_index_values bs table (unat count) = Inr (table_values bs table)"
    using read_index_values_Inr [of table "unat count" bs] by (simp add: table_values_def c)
  have len: "length (table_values bs table) = unat count" by (simp add: table_values_def c)
  have tf: "table_fits bs table" using fits by (simp add: table_fits_def c)
  show ?case
  proof (cases "length (values @ table_values bs table) = expected_count")
    case True
    then have "out = values @ table_values bs table"
      using "1.prems"(1) inside r fits read len
      by (subst (asm) index_loop.simps) (auto simp: Let_def)
    then show ?thesis using inside tf by (intro exI [where x = "[]"]) auto
  next
    case False
    have nz: "nxt \<noteq> 0"
      using "1.prems" inside r fits read len False
      by (subst (asm) index_loop.simps) (auto simp: Let_def split: if_splits)
    then have "(ucast nxt :: u32) \<noteq> 0" by simp
    then have page: "physical_page_for_logical dir (ucast nxt) = Inr (page_number dir + ucast nxt - 1)"
      by (simp add: physical_page_for_logical_def)
    have nt: "next_table bs dir table = Some (unat (page_number dir + ucast nxt - 1) * page_bytes)"
      unfolding next_table_def n [symmetric] Let_def using nz by (simp add: unat_eq_zero)
    have "index_loop bs dir expected_count False (table # visited)
        (unat (page_number dir + ucast nxt - 1) * page_bytes)
        (values @ table_values bs table) = Inr out"
      using "1.prems"(1) inside r fits read False nz page
      by (subst (asm) index_loop.simps) (simp add: Let_def)
    from "1.hyps" [OF inside r fits read refl False nz page this "1.prems"(2)]
    obtain ts where
      "linked_tables bs dir (unat (page_number dir + ucast nxt - 1) * page_bytes # ts)"
      "distinct (unat (page_number dir + ucast nxt - 1) * page_bytes # ts)"
      "set (unat (page_number dir + ucast nxt - 1) * page_bytes # ts) \<inter> set (table # visited) = {}"
      "out = (values @ table_values bs table) @
        concat (map (table_values bs) (unat (page_number dir + ucast nxt - 1) * page_bytes # ts))"
      by blast
    then show ?thesis using inside tf nt
      by (intro exI [where x = "unat (page_number dir + ucast nxt - 1) * page_bytes # ts"])
        auto
  qed
qed

text \<open>Both index readers are total and all-or-nothing: on every file and directory they return without
  an error, and what they return is either empty or has exactly one entry more than the directory
  announces, the topics' last entry being the first record number behind the last topic.\<close>

lemma record_starts_all_or_nothing:
  "(\<exists>starts. parse_topic_record_starts bs dir = Inr starts \<and>
      (starts = [] \<or> length starts = unat (stream_table_count dir) + 1 \<and>
                     last starts = ucast (logical_record_count dir) + 1)) \<and>
   (\<exists>starts. parse_content_page_record_starts bs dir = Inr starts \<and>
      (starts = [] \<or> length starts = unat (content_page_count dir) + 1))"
proof
  obtain out where "parse_paged_u16_index bs dir
      (unat (page_number dir) * page_bytes + unat (stream_table_offset dir))
      (unat (stream_table_count dir)) False = Inr out"
    "out = [] \<or> length out = unat (stream_table_count dir)"
    using index_loop_returns [of bs dir "unat (stream_table_count dir)" False "[]"
      "unat (page_number dir) * page_bytes + unat (stream_table_offset dir)" "[]"]
    unfolding parse_paged_u16_index_def by auto
  then show "\<exists>starts. parse_topic_record_starts bs dir = Inr starts \<and>
      (starts = [] \<or> length starts = unat (stream_table_count dir) + 1 \<and>
                     last starts = ucast (logical_record_count dir) + 1)"
    by (auto simp: parse_topic_record_starts_def)
next
  obtain out where "parse_paged_u16_index bs dir
      (unat (page_number dir) * page_bytes + unat (content_page_index_offset dir))
      (unat (content_page_count dir)) True = Inr out"
    "out = [] \<or> length out = unat (content_page_count dir) + 1"
    using index_loop_returns [of bs dir "unat (content_page_count dir)" True "[]"
      "unat (page_number dir) * page_bytes + unat (content_page_index_offset dir)" "[]"]
    unfolding parse_paged_u16_index_def by auto
  then show "\<exists>starts. parse_content_page_record_starts bs dir = Inr starts \<and>
      (starts = [] \<or> length starts = unat (content_page_count dir) + 1)"
    by (auto simp: parse_content_page_record_starts_def)
qed

text \<open>C37: What a paged index returns without a terminal entry is the concatenation of the tables of a
  chain that starts at the root, lies in the file and never returns to a table.\<close>

theorem paged_index_follows_chain:
  assumes "parse_paged_u16_index bs dir root expected_count False = Inr out" and "out \<noteq> []"
  shows "\<exists>tables. linked_tables bs dir tables \<and> distinct tables \<and> hd tables = root \<and>
           out = concat (map (table_values bs) tables)"
  using index_loop_sound [of bs dir expected_count "[]" root "[]" out] assms
  unfolding parse_paged_u16_index_def by (metis append_Nil list.sel(1))

theorem paged_index_follows_chain_witness:
  "\<exists>tables. linked_tables [0, 1, 0, 0, 0, 5] example_directory tables \<and> distinct tables \<and>
     hd tables = 0 \<and> [5] = concat (map (table_values [0, 1, 0, 0, 0, 5]) tables)"
  by (rule paged_index_follows_chain [of _ _ 0 1])
    (simp_all add: parse_paged_u16_index_def index_loop.simps read_be16_def byte_at_def
      read_index_values_def)

end
