(* ===== verification/Tokens.thy ===== *)
theory Tokens
  imports Dictionary
begin

section \<open>Logical tokens and display lines\<close>

text \<open>
  The token-level intermediate form of one logical record: \<open>src/container/logical.cpp\<close> decodes the
  payload into tokens, \<open>src/layout/display_lines.cpp\<close> splits the tokens into length-prefixed display
  lines, and \<open>src/ir/book_ir.cpp\<close> checks the result. Byte ranges are pairs of offsets; the page
  numbers they come from have at most 17 bits, so the 32-bit casts of the code are exact.
\<close>

subsection \<open>Data (\<open>src/geist/detail/ir/book_ir.hpp\<close>)\<close>

record encoded_logical_token =
  enc_value :: u16
  enc_width :: nat

datatype token_framing_role = Unframed | Line_length | Line_content

record logical_token_ir =
  token_index :: nat
  encoded :: encoded_logical_token
  decoded_words :: token_words
  byte_range :: "nat \<times> nat"
  has_spacing_control :: bool
  spacing_control :: u16
  unmapped_word_indices :: "nat list"
  framing :: token_framing_role

datatype margin_mark_place_ir = No_mark | Row_margin | Title_column

record display_line_ir =
  prefix_token :: nat
  token_end :: nat
  margin_mark :: "u32 option"
  margin_mark_token :: "nat option"
  margin_mark_place :: margin_mark_place_ir

record logical_record_ir =
  logical_record :: nat
  payload_range :: "nat \<times> nat"
  tokens :: "logical_token_ir list"
  display_lines :: "display_line_ir list"
  display_lines_parse :: bool

definition all_space_words :: "token_words \<Rightarrow> bool" where
  "all_space_words words \<longleftrightarrow> words \<noteq> [] \<and> list_all (\<lambda>w. w = 0x20) words"

definition space_run_of_width :: "token_words \<Rightarrow> nat \<Rightarrow> bool" where
  "space_run_of_width words width \<longleftrightarrow> length words = width \<and> list_all (\<lambda>w. w = 0x20) words"

definition project_token_words :: "logical_record_ir \<Rightarrow> token_words list" where
  "project_token_words r = map decoded_words (tokens r)"

definition project_encoded_tokens :: "logical_record_ir \<Rightarrow> encoded_logical_token list" where
  "project_encoded_tokens r = map encoded (tokens r)"

subsection \<open>Decoding tokens (\<open>src/container/logical.cpp\<close>)\<close>

definition unmapped_indices :: "token_words \<Rightarrow> nat list" where
  "unmapped_indices words = filter (\<lambda>i. words ! i = 0xFFFF) [0..<length words]"

definition starts_with_control :: "token_words \<Rightarrow> bool" where
  "starts_with_control words \<longleftrightarrow> words \<noteq> [] \<and> hd words < 4"

definition decode_one_token ::
  "bytes \<Rightarrow> boo_directory \<Rightarrow> dictionary \<Rightarrow> nat \<Rightarrow> nat \<Rightarrow> nat \<Rightarrow> logical_token_ir \<times> nat" where
  "decode_one_token bs dir ts cursor two_byte_end index =
     (let first = byte_at bs cursor;
          wide = first \<ge> token_threshold dir \<and> cursor + 1 < two_byte_end;
          second = byte_at bs (cursor + 1);
          cursor' = (if wide then cursor + 2 else cursor + 1);
          words = resolve_experimental_token bs dir ts first (if wide then Some second else None)
      in (\<lparr> token_index = index,
            encoded = (if wide
                       then \<lparr> enc_value = push_bit 8 (ucast first) OR ucast second, enc_width = 2 \<rparr>
                       else \<lparr> enc_value = ucast first, enc_width = 1 \<rparr>),
            decoded_words = words,
            byte_range = (cursor, cursor'),
            has_spacing_control = starts_with_control words,
            spacing_control = (if starts_with_control words then hd words else 3),
            unmapped_word_indices = unmapped_indices words,
            framing = Unframed \<rparr>,
          cursor'))"

lemma decode_one_token_cursor:
  "decode_one_token bs dir ts cursor two_byte_end index = (t, c) \<Longrightarrow> cursor < c"
  by (auto simp: decode_one_token_def Let_def split: if_splits)

text \<open>The loops \<open>while (cursor < stop)\<close> that push one token after the other.\<close>

function walk_tokens ::
  "bytes \<Rightarrow> boo_directory \<Rightarrow> dictionary \<Rightarrow> nat \<Rightarrow> nat \<Rightarrow> nat \<Rightarrow> nat \<Rightarrow> logical_token_ir list \<times> nat" where
  "walk_tokens bs dir ts two_byte_end cursor stop index =
     (if cursor < stop then
        (case decode_one_token bs dir ts cursor two_byte_end index of (t, cursor') \<Rightarrow>
           (case walk_tokens bs dir ts two_byte_end cursor' stop (index + 1) of (rest, stopped) \<Rightarrow>
              (t # rest, stopped)))
      else ([], cursor))"
  by pat_completeness auto
termination
  by (relation "measure (\<lambda>(_, _, _, _, cursor, stop, _). stop - cursor)")
    (auto dest!: decode_one_token_cursor [OF sym])

declare walk_tokens.simps [simp del]

function decode_display_line_tokens ::
  "bytes \<Rightarrow> boo_directory \<Rightarrow> dictionary \<Rightarrow> nat \<Rightarrow> nat \<Rightarrow> nat \<Rightarrow> logical_token_ir list option" where
  "decode_display_line_tokens bs dir ts cursor payload_end index =
     (if cursor < payload_end then
        let line_end = cursor + 1 + unat (byte_at bs cursor) in
        if line_end > payload_end then None
        else
          (case decode_one_token bs dir ts cursor (cursor + 1) index of (lead, cursor') \<Rightarrow>
             (case walk_tokens bs dir ts payload_end cursor' line_end (index + 1) of (content, stopped) \<Rightarrow>
                if stopped \<noteq> line_end then None
                else map_option (\<lambda>rest. lead # content @ rest)
                       (decode_display_line_tokens bs dir ts line_end payload_end
                          (index + 1 + length content))))
      else Some [])"
  by pat_completeness auto
termination
  by (relation "measure (\<lambda>(_, _, _, cursor, payload_end, _). payload_end - cursor)") auto

declare decode_display_line_tokens.simps [simp del]

subsection \<open>Display lines (\<open>src/layout/display_lines.cpp\<close>)\<close>

definition plain_line :: "nat \<Rightarrow> nat \<Rightarrow> display_line_ir" where
  "plain_line at e = \<lparr> prefix_token = at, token_end = e, margin_mark = None,
                       margin_mark_token = None, margin_mark_place = No_mark \<rparr>"

function display_lines_from ::
  "logical_token_ir list \<Rightarrow> nat \<Rightarrow> nat \<Rightarrow> display_line_ir list option" where
  "display_lines_from toks payload_end at =
     (if at < length toks then
        let lead = toks ! at in
        if snd (byte_range lead) \<noteq> fst (byte_range lead) + 1 then None
        else
          let line_end = snd (byte_range lead) + unat (enc_value (encoded lead));
              e = at + 1 + length (takeWhile (\<lambda>t. snd (byte_range t) \<le> line_end)
                                     (drop (at + 1) toks));
              boundary = (if e < length toks then fst (byte_range (toks ! e)) else payload_end)
          in if boundary \<noteq> line_end then None
             else map_option (\<lambda>rest. plain_line at e # rest) (display_lines_from toks payload_end e)
      else Some [])"
  by pat_completeness auto
termination
  by (relation "measure (\<lambda>(toks, _, at). length toks - at)") auto

declare display_lines_from.simps [simp del]

definition token_display_lines ::
  "logical_token_ir list \<Rightarrow> nat \<Rightarrow> display_line_ir list option" where
  "token_display_lines toks payload_end = display_lines_from toks payload_end 0"

definition stamp_line :: "display_line_ir \<Rightarrow> logical_token_ir list \<Rightarrow> logical_token_ir list" where
  "stamp_line line toks =
     fold (\<lambda>i ts. ts[i := (ts ! i)\<lparr>framing := Line_content\<rparr>])
       [prefix_token line + 1..<token_end line]
       (toks[prefix_token line := (toks ! prefix_token line)\<lparr>framing := Line_length\<rparr>])"

definition assign_display_line_framing :: "logical_record_ir \<Rightarrow> logical_record_ir" where
  "assign_display_line_framing r =
     (let toks = map (\<lambda>t. t\<lparr>framing := Unframed\<rparr>) (tokens r)
      in case token_display_lines toks (snd (payload_range r)) of
           None \<Rightarrow> r\<lparr>tokens := toks, display_lines := [], display_lines_parse := False\<rparr>
         | Some lines \<Rightarrow> r\<lparr>tokens := fold stamp_line lines toks, display_lines := lines,
                            display_lines_parse := True\<rparr>)"

definition record_display_lines :: "logical_record_ir \<Rightarrow> display_line_ir list option" where
  "record_display_lines r = (if display_lines_parse r then Some (display_lines r) else None)"

definition is_display_line_length_token :: "logical_record_ir \<Rightarrow> nat \<Rightarrow> bool" where
  "is_display_line_length_token r token \<longleftrightarrow>
     token < length (tokens r) \<and> framing (tokens r ! token) = Line_length"

definition display_line_of_token :: "logical_record_ir \<Rightarrow> nat \<Rightarrow> display_line_ir option" where
  "display_line_of_token r token =
     (if \<not> display_lines_parse r then None
      else find (\<lambda>line. token \<ge> prefix_token line \<and> token < token_end line) (display_lines r))"

definition display_text_words :: "logical_record_ir \<Rightarrow> nat \<Rightarrow> token_words option" where
  "display_text_words r token =
     (if token \<ge> length (tokens r) then None
      else if framing (tokens r ! token) = Line_length then None
      else Some (decoded_words (tokens r ! token)))"

subsection \<open>Decoding one payload\<close>

definition decode_record_payload_ir ::
  "bytes \<Rightarrow> boo_directory \<Rightarrow> dictionary \<Rightarrow> nat \<Rightarrow> nat \<Rightarrow> nat \<Rightarrow> logical_record_ir" where
  "decode_record_payload_ir bs dir ts payload_begin payload_end record_number =
     (let plain = fst (walk_tokens bs dir ts payload_end payload_begin payload_end 0);
          chosen =
            (if token_display_lines plain payload_end = None
             then (case decode_display_line_tokens bs dir ts payload_begin payload_end 0 of
                     None \<Rightarrow> plain
                   | Some relined \<Rightarrow>
                       if token_display_lines relined payload_end \<noteq> None then relined else plain)
             else plain)
      in assign_display_line_framing
           \<lparr> logical_record = record_number, payload_range = (payload_begin, payload_end),
             tokens = chosen, display_lines = [], display_lines_parse = False \<rparr>)"

definition decode_source_byte_range_tokens ::
  "bytes \<Rightarrow> boo_directory \<Rightarrow> dictionary \<Rightarrow> nat \<Rightarrow> nat \<Rightarrow> logical_token_ir list option" where
  "decode_source_byte_range_tokens bs dir ts byte_begin byte_end =
     (if byte_begin > byte_end \<or> byte_end > length bs then None
      else (case walk_tokens bs dir ts byte_end byte_begin byte_end 0 of (toks, stopped) \<Rightarrow>
              if stopped > byte_end then None else Some toks))"

subsection \<open>Checks (\<open>src/ir/book_ir.cpp\<close>, \<open>src/layout/display_lines.cpp\<close>)\<close>

text \<open>A check returns \<open>None\<close>, or the message of the first condition that fails.\<close>

fun verify_token_list :: "nat \<Rightarrow> nat \<Rightarrow> nat \<Rightarrow> logical_token_ir list \<Rightarrow> string option" where
  "verify_token_list payload_end expected index [] =
     (if expected \<noteq> payload_end then Some ''logical token IR leaves an unconsumed payload suffix''
      else None)"
| "verify_token_list payload_end expected index (t # rest) =
     (let width = enc_width (encoded t); b = fst (byte_range t); e = snd (byte_range t) in
      if token_index t \<noteq> index then Some ''logical token ordinal is not contiguous''
      else if width \<noteq> 1 \<and> width \<noteq> 2 then Some ''logical token encoded width is invalid''
      else if b \<noteq> expected \<or> e < b \<or> e - b \<noteq> width
        then Some ''logical token byte range does not exactly cover payload''
      else if e > payload_end then Some ''logical token byte range exceeds payload''
      else if width = 1 \<and> enc_value (encoded t) > 0xFF
        then Some ''one-byte logical token has a wide encoded value''
      else if has_spacing_control t \<noteq> starts_with_control (decoded_words t) \<or>
              spacing_control t \<noteq>
                (if starts_with_control (decoded_words t) then hd (decoded_words t) else 3)
        then Some ''logical token spacing metadata differs from decoded words''
      else if unmapped_word_indices t \<noteq> unmapped_indices (decoded_words t)
        then Some ''logical token unmapped-word provenance is invalid''
      else verify_token_list payload_end e (index + 1) rest)"

fun verify_line_list ::
  "logical_token_ir list \<Rightarrow> nat \<Rightarrow> nat \<Rightarrow> display_line_ir list \<Rightarrow> string option" where
  "verify_line_list toks payload_end at [] =
     (if at \<noteq> length toks then Some ''display lines do not cover the record token list'' else None)"
| "verify_line_list toks payload_end at (line # rest) =
     (if prefix_token line \<noteq> at \<or> token_end line \<le> prefix_token line \<or>
         token_end line > length toks
      then Some ''display lines do not tile the record token list''
      else
        let lead = toks ! prefix_token line;
            line_end = snd (byte_range lead) + unat (enc_value (encoded lead));
            boundary = (if token_end line < length toks
                        then fst (byte_range (toks ! token_end line)) else payload_end)
        in if enc_width (encoded lead) \<noteq> 1
           then Some ''display line length byte is not one byte wide''
           else if boundary \<noteq> line_end
           then Some ''display line does not end on a token boundary''
           else if framing lead \<noteq> Line_length
           then Some ''display line length byte is not stamped as one''
           else if \<not> list_all (\<lambda>i. framing (toks ! i) = Line_content)
                       [prefix_token line + 1..<token_end line]
           then Some ''display line content token is not stamped as one''
           else verify_line_list toks payload_end (token_end line) rest)"

definition verify_display_line_framing :: "logical_record_ir \<Rightarrow> string option" where
  "verify_display_line_framing r =
     (if \<not> display_lines_parse r then
        if display_lines r \<noteq> [] then Some ''unframed logical record carries display lines''
        else if \<not> list_all (\<lambda>t. framing t = Unframed) (tokens r)
          then Some ''unframed logical record stamps a token framing role''
        else None
      else verify_line_list (tokens r) (snd (payload_range r)) 0 (display_lines r))"

definition verify_token_ir :: "logical_record_ir \<Rightarrow> string option" where
  "verify_token_ir r =
     (if fst (payload_range r) > snd (payload_range r)
      then Some ''logical-record payload range is reversed''
      else (case verify_token_list (snd (payload_range r)) (fst (payload_range r)) 0 (tokens r) of
              Some message \<Rightarrow> Some message
            | None \<Rightarrow> verify_display_line_framing r))"

subsection \<open>A decoded token list covers its bytes\<close>

text \<open>What the check asks of one token, and of a list of tokens from an ordinal and an offset on; the
  framing role plays no part in it.\<close>

definition token_ok :: "nat \<Rightarrow> nat \<Rightarrow> logical_token_ir \<Rightarrow> bool" where
  "token_ok index b t \<longleftrightarrow>
     token_index t = index \<and> enc_width (encoded t) \<in> {1, 2} \<and>
     byte_range t = (b, b + enc_width (encoded t)) \<and>
     (enc_width (encoded t) = 1 \<longrightarrow> enc_value (encoded t) \<le> 0xFF) \<and>
     has_spacing_control t = starts_with_control (decoded_words t) \<and>
     spacing_control t =
       (if starts_with_control (decoded_words t) then hd (decoded_words t) else 3) \<and>
     unmapped_word_indices t = unmapped_indices (decoded_words t)"

fun chained :: "nat \<Rightarrow> nat \<Rightarrow> logical_token_ir list \<Rightarrow> nat \<Rightarrow> bool" where
  "chained index b [] e \<longleftrightarrow> b = e"
| "chained index b (t # rest) e \<longleftrightarrow>
     token_ok index b t \<and> chained (index + 1) (snd (byte_range t)) rest e"

lemma token_ok_range: "token_ok index b t \<Longrightarrow> fst (byte_range t) = b \<and> b < snd (byte_range t)"
  by (auto simp: token_ok_def)

lemma chained_le: "chained index b toks e \<Longrightarrow> b \<le> e"
proof (induction toks arbitrary: index b)
  case Nil
  then show ?case by simp
next
  case (Cons t toks)
  then show ?case using token_ok_range [of index b t] by fastforce
qed

lemma chained_ends:
  "chained index b toks e \<Longrightarrow> t \<in> set toks \<Longrightarrow> snd (byte_range t) \<le> e"
proof (induction toks arbitrary: index b)
  case Nil
  then show ?case by simp
next
  case (Cons u toks)
  then show ?case using chained_le by auto
qed

lemma chained_append:
  "chained index b (xs @ ys) e \<longleftrightarrow>
     (\<exists>m. chained index b xs m \<and> chained (index + length xs) m ys e)"
  by (induction xs arbitrary: index b) auto

lemma chained_nth:
  "chained index b toks e \<Longrightarrow> i < length toks \<Longrightarrow> \<exists>b'. token_ok (index + i) b' (toks ! i)"
proof (induction toks arbitrary: index b i)
  case Nil
  then show ?case by simp
next
  case (Cons t toks)
  then show ?case by (cases i) fastforce+
qed

lemma verify_token_list_None:
  "verify_token_list pe b index toks = None \<longleftrightarrow> chained index b toks pe"
proof (induction pe b index toks rule: verify_token_list.induct)
  case (1 pe b index)
  then show ?case by auto
next
  case (2 pe b index t rest)
  show ?case
  proof (cases "token_ok index b t")
    case True
    then have w: "enc_width (encoded t) = 1 \<or> enc_width (encoded t) = 2"
      and r: "byte_range t = (b, b + enc_width (encoded t))"
      and v: "enc_width (encoded t) = 1 \<longrightarrow> \<not> enc_value (encoded t) > 0xFF"
      by (auto simp: token_ok_def)
    have step: "verify_token_list pe b index (t # rest) =
        (if b + enc_width (encoded t) > pe
         then Some ''logical token byte range exceeds payload''
         else verify_token_list pe (b + enc_width (encoded t)) (index + 1) rest)"
      using True w v by (elim disjE) (simp_all add: Let_def r token_ok_def)
    have fits: "chained (index + 1) (b + enc_width (encoded t)) rest pe \<Longrightarrow>
        \<not> b + enc_width (encoded t) > pe"
      using chained_le not_le by blast
    have "verify_token_list pe (b + enc_width (encoded t)) (index + 1) rest = None \<longleftrightarrow>
        chained (index + 1) (b + enc_width (encoded t)) rest pe"
      if "\<not> b + enc_width (encoded t) > pe"
      using "2.IH" [OF refl refl refl] True w v that
      by (elim disjE) (simp_all add: r token_ok_def)
    then show ?thesis using True fits unfolding step by (auto simp: r)
  next
    case False
    have "verify_token_list pe b index (t # rest) \<noteq> None"
    proof
      assume "verify_token_list pe b index (t # rest) = None"
      then have "token_ok index b t"
        unfolding token_ok_def
        by (cases "byte_range t") (simp add: Let_def not_less split: if_split_asm)
      with False show False ..
    qed
    then show ?thesis using False by simp
  qed
qed

lemma token_ok_framing [simp]: "token_ok index b (t\<lparr>framing := f\<rparr>) = token_ok index b t"
  by (simp add: token_ok_def)

definition unframe :: "logical_token_ir \<Rightarrow> logical_token_ir" where
  "unframe t = t\<lparr>framing := Unframed\<rparr>"

lemma chained_unframe: "chained index b (map unframe toks) e = chained index b toks e"
  by (induction toks arbitrary: index b) (simp_all add: unframe_def)

lemma decode_one_token_ok:
  assumes "decode_one_token bs dir ts cursor limit index = (t, c)"
  shows "token_ok index cursor t" and "byte_range t = (cursor, c)" and "framing t = Unframed"
    and "c \<le> max (cursor + 1) limit"
proof -
  have "(ucast (byte_at bs cursor) :: u16) \<le> 0xFF"
    using unat_byte_le [of "byte_at bs cursor"] by (simp add: word_le_nat_alt)
  then show "token_ok index cursor t" and "byte_range t = (cursor, c)" and "framing t = Unframed"
    and "c \<le> max (cursor + 1) limit"
    using assms by (auto simp: decode_one_token_def token_ok_def Let_def split: if_splits)
qed

lemma decode_one_token_prefix:
  assumes "decode_one_token bs dir ts cursor (cursor + 1) index = (t, c)"
  shows "c = cursor + 1" and "enc_value (encoded t) = ucast (byte_at bs cursor)"
  using assms by (auto simp: decode_one_token_def Let_def split: if_splits)

lemma walk_tokens_chained:
  "walk_tokens bs dir ts limit cursor stop index = (toks, c) \<Longrightarrow> cursor \<le> stop \<Longrightarrow> stop \<le> limit \<Longrightarrow>
   chained index cursor toks c \<and> stop \<le> c \<and> c \<le> limit \<and> list_all (\<lambda>t. framing t = Unframed) toks"
proof (induction bs dir ts limit cursor stop index arbitrary: toks c rule: walk_tokens.induct)
  case (1 bs dir ts limit cursor stop index)
  show ?case
  proof (cases "cursor < stop")
    case False
    then show ?thesis using "1.prems" by (subst (asm) walk_tokens.simps) simp
  next
    case True
    obtain t c' where t: "decode_one_token bs dir ts cursor limit index = (t, c')" by fastforce
    obtain rest c'' where rest: "walk_tokens bs dir ts limit c' stop (index + 1) = (rest, c'')"
      by fastforce
    have out: "toks = t # rest" "c = c''"
      using "1.prems"(1) True t rest by (subst (asm) walk_tokens.simps, simp)+
    note ok = decode_one_token_ok [OF t]
    show ?thesis
    proof (cases "c' \<le> stop")
      case True': True
      then show ?thesis
        using "1.IH" [OF True t [symmetric] rest] ok out "1.prems"(3) by simp
    next
      case False
      then have "rest = []" "c'' = c'" using rest by (subst (asm) walk_tokens.simps, simp)+
      then show ?thesis using ok out False True "1.prems"(3) by simp
    qed
  qed
qed

lemma decode_display_line_tokens_chained:
  "decode_display_line_tokens bs dir ts cursor pe index = Some toks \<Longrightarrow> cursor \<le> pe \<Longrightarrow>
   chained index cursor toks pe \<and> list_all (\<lambda>t. framing t = Unframed) toks"
proof (induction bs dir ts cursor pe index arbitrary: toks rule: decode_display_line_tokens.induct)
  case (1 bs dir ts cursor pe index)
  show ?case
  proof (cases "cursor < pe")
    case False
    then show ?thesis using "1.prems" by (subst (asm) decode_display_line_tokens.simps) simp
  next
    case True
    let ?le = "cursor + 1 + unat (byte_at bs cursor)"
    obtain t c' where t: "decode_one_token bs dir ts cursor (cursor + 1) index = (t, c')" by fastforce
    obtain content c'' where content: "walk_tokens bs dir ts pe c' ?le (index + 1) = (content, c'')"
      by fastforce
    have le: "\<not> ?le > pe" and eq: "\<not> c'' \<noteq> ?le"
      using "1.prems"(1) True t content
      by (subst (asm) decode_display_line_tokens.simps, simp add: Let_def split: if_splits)+
    obtain rest where rest: "decode_display_line_tokens bs dir ts ?le pe (index + 1 + length content)
        = Some rest" and out: "toks = t # content @ rest"
      using "1.prems"(1) True t content le eq
      by (subst (asm) decode_display_line_tokens.simps) (auto simp: Let_def)
    have "chained (index + 1 + length content) ?le rest pe \<and>
        list_all (\<lambda>t. framing t = Unframed) rest"
      using "1.IH" [OF True refl le t [symmetric] content [symmetric] eq rest] le by simp
    moreover have "chained (index + 1) c' content ?le \<and>
        list_all (\<lambda>t. framing t = Unframed) content"
      using walk_tokens_chained [OF content] decode_one_token_prefix [OF t] le eq by simp
    ultimately show ?thesis
      using decode_one_token_ok [OF t] out by (auto simp: chained_append)
  qed
qed

end
