(* ===== verification/Framing.thy ===== *)
theory Framing
  imports Tokens
begin

section \<open>Facts about decoded records\<close>

text \<open>
  The lemmas and properties of \<open>Tokens\<close>: the lines a record is split into tile its tokens, its tokens
  are the payload's bytes, and every decoded record passes the decoder's own check.
\<close>

subsection \<open>Display lines tile the token list\<close>

lemma fold_update_nth:
  "b \<le> length xs \<Longrightarrow>
   fold (\<lambda>i ys. ys[i := f (ys ! i)]) [a..<b] xs ! k =
     (if a \<le> k \<and> k < b then f (xs ! k) else xs ! k) \<and>
   length (fold (\<lambda>i ys. ys[i := f (ys ! i)]) [a..<b] xs) = length xs"
proof (induction b)
  case 0
  then show ?case by simp
next
  case (Suc b)
  show ?case
  proof (cases "a \<le> b")
    case True
    with Suc show ?thesis by (auto simp: nth_list_update less_Suc_eq)
  next
    case False
    then show ?thesis by auto
  qed
qed

text \<open>Lines that follow one another from a token on, up to the end of the list.\<close>

fun lines_tile :: "nat \<Rightarrow> display_line_ir list \<Rightarrow> nat \<Rightarrow> bool" where
  "lines_tile at [] n \<longleftrightarrow> at = n"
| "lines_tile at (l # ls) n \<longleftrightarrow>
     prefix_token l = at \<and> at < token_end l \<and> token_end l \<le> n \<and> lines_tile (token_end l) ls n"

definition framed_as :: "logical_token_ir list \<Rightarrow> display_line_ir \<Rightarrow> bool" where
  "framed_as toks l \<longleftrightarrow> framing (toks ! prefix_token l) = Line_length \<and>
     list_all (\<lambda>i. framing (toks ! i) = Line_content) [prefix_token l + 1..<token_end l]"

lemma stamp_line_nth:
  assumes "prefix_token l < token_end l" and "token_end l \<le> length toks"
  shows "length (stamp_line l toks) = length toks"
    and "stamp_line l toks ! k =
      (if k = prefix_token l then (toks ! k)\<lparr>framing := Line_length\<rparr>
       else if prefix_token l < k \<and> k < token_end l then (toks ! k)\<lparr>framing := Line_content\<rparr>
       else toks ! k)"
  using fold_update_nth [of "token_end l"
      "toks[prefix_token l := (toks ! prefix_token l)\<lparr>framing := Line_length\<rparr>]"
      "\<lambda>t. t\<lparr>framing := Line_content\<rparr>" "prefix_token l + 1" k] assms
  by (auto simp: stamp_line_def nth_list_update)

lemma stamp_lines:
  "lines_tile at ls (length toks) \<Longrightarrow>
   length (fold stamp_line ls toks) = length toks \<and>
   map unframe (fold stamp_line ls toks) = map unframe toks \<and>
   (\<forall>k < at. fold stamp_line ls toks ! k = toks ! k) \<and>
   list_all (framed_as (fold stamp_line ls toks)) ls"
proof (induction ls arbitrary: at toks)
  case Nil
  then show ?case by simp
next
  case (Cons l ls)
  let ?t1 = "stamp_line l toks"
  let ?t2 = "fold stamp_line ls ?t1"
  have l: "prefix_token l < token_end l" "token_end l \<le> length toks" "prefix_token l = at"
    using Cons.prems by auto
  note nth = stamp_line_nth [OF l(1,2)]
  have IH: "length ?t2 = length ?t1" "map unframe ?t2 = map unframe ?t1"
      "\<forall>k < token_end l. ?t2 ! k = ?t1 ! k" "list_all (framed_as ?t2) ls"
    using Cons.IH [of "token_end l" ?t1] Cons.prems nth(1) by simp_all
  have "map unframe ?t1 = map unframe toks"
    by (rule nth_equalityI) (simp_all add: nth unframe_def)
  moreover have "framed_as ?t2 l"
    using IH(3) l by (auto simp: framed_as_def list_all_iff nth)
  moreover have "\<forall>k < at. ?t2 ! k = toks ! k"
    using IH(3) l by (auto simp: nth)
  ultimately show ?case using IH nth(1) by simp
qed

lemma takeWhile_drop_le: "at < length xs \<Longrightarrow> at + 1 + length (takeWhile P (drop (at + 1) xs)) \<le> length xs"
  using length_takeWhile_le [of P "drop (at + 1) xs"] by simp

text \<open>What a line's length byte says: the line ends where the next line's tokens, or the payload, does.\<close>

definition line_exact :: "logical_token_ir list \<Rightarrow> nat \<Rightarrow> display_line_ir \<Rightarrow> bool" where
  "line_exact toks pe l \<longleftrightarrow>
     (let lead = toks ! prefix_token l
      in snd (byte_range lead) = fst (byte_range lead) + 1 \<and>
         (if token_end l < length toks then fst (byte_range (toks ! token_end l)) else pe) =
           snd (byte_range lead) + unat (enc_value (encoded lead)))"

lemma display_lines_from_step:
  assumes "at < length toks" and "snd (byte_range (toks ! at)) = fst (byte_range (toks ! at)) + 1"
    and "le = snd (byte_range (toks ! at)) + unat (enc_value (encoded (toks ! at)))"
    and "e = at + 1 + length (takeWhile (\<lambda>t. snd (byte_range t) \<le> le) (drop (at + 1) toks))"
    and "(if e < length toks then fst (byte_range (toks ! e)) else pe) = le"
  shows "display_lines_from toks pe at =
           map_option (\<lambda>rest. plain_line at e # rest) (display_lines_from toks pe e)"
proof -
  have w: "\<not> snd (byte_range (toks ! at)) \<noteq> fst (byte_range (toks ! at)) + 1"
    using assms(2) by simp
  have b: "\<not> (if e < length toks then fst (byte_range (toks ! e)) else pe) \<noteq> le"
    using assms(5) by simp
  show ?thesis
    by (rule trans [OF display_lines_from.simps], unfold Let_def, fold assms(3), fold assms(4))
      (simp only: if_P [OF assms(1)] if_not_P [OF w] if_not_P [OF b])
qed

lemma line_exact_plain:
  "line_exact toks pe (plain_line at e) \<longleftrightarrow>
     snd (byte_range (toks ! at)) = fst (byte_range (toks ! at)) + 1 \<and>
     (if e < length toks then fst (byte_range (toks ! e)) else pe) =
       snd (byte_range (toks ! at)) + unat (enc_value (encoded (toks ! at)))"
  by (simp add: line_exact_def plain_line_def Let_def)

lemma display_lines_from_Some:
  "display_lines_from toks pe at = Some ls \<Longrightarrow> at \<le> length toks \<Longrightarrow>
   lines_tile at ls (length toks) \<and> list_all (line_exact toks pe) ls"
proof (induction toks pe at arbitrary: ls rule: display_lines_from.induct)
  case (1 toks pe at)
  show ?case
  proof (cases "at < length toks")
    case False
    then show ?thesis using "1.prems" by (subst (asm) display_lines_from.simps) simp
  next
    case True
    let ?lead = "toks ! at"
    let ?le = "snd (byte_range ?lead) + unat (enc_value (encoded ?lead))"
    let ?e = "at + 1 + length (takeWhile (\<lambda>t. snd (byte_range t) \<le> ?le) (drop (at + 1) toks))"
    let ?boundary = "if ?e < length toks then fst (byte_range (toks ! ?e)) else pe"
    have w: "\<not> snd (byte_range ?lead) \<noteq> fst (byte_range ?lead) + 1"
      using "1.prems"(1) True by (subst (asm) display_lines_from.simps) (simp add: Let_def split: if_split_asm)
    have b: "\<not> ?boundary \<noteq> ?le"
      using "1.prems"(1) True w
      by (subst (asm) display_lines_from.simps) (simp add: Let_def split: if_split_asm)
    have "display_lines_from toks pe at =
        map_option (\<lambda>rest. plain_line at ?e # rest) (display_lines_from toks pe ?e)"
      by (rule display_lines_from_step [OF True _ refl refl]) (use w b in \<open>simp_all only: not_not\<close>)
    from this [unfolded "1.prems"(1), symmetric]
    obtain rest where rest: "display_lines_from toks pe ?e = Some rest"
      and ls: "ls = plain_line at ?e # rest"
      unfolding map_option_eq_Some by blast
    have "lines_tile ?e rest (length toks) \<and> list_all (line_exact toks pe) rest"
      using "1.IH" [OF True refl w refl refl refl b rest] takeWhile_drop_le [OF True] by simp
    moreover have "line_exact toks pe (plain_line at ?e)"
      using w b by (simp only: line_exact_plain not_not)
    ultimately show ?thesis
      unfolding ls using takeWhile_drop_le [OF True] by (simp add: plain_line_def)
  qed
qed

subsection \<open>The decoder's records pass the check\<close>

lemma unframe_fields [simp]:
  "byte_range (unframe t) = byte_range t" "encoded (unframe t) = encoded t"
  by (simp_all add: unframe_def)

lemma unframe_eq_fields:
  assumes "map unframe xs = map unframe ys" and "i < length ys"
  shows "byte_range (xs ! i) = byte_range (ys ! i)" and "encoded (xs ! i) = encoded (ys ! i)"
proof -
  have "i < length xs" using assms by (metis length_map)
  then have "unframe (xs ! i) = unframe (ys ! i)" using assms by (metis nth_map)
  then show "byte_range (xs ! i) = byte_range (ys ! i)" and "encoded (xs ! i) = encoded (ys ! i)"
    by (metis unframe_fields)+
qed

lemma verify_line_list_None:
  assumes "chained index0 b toks pe" and "map unframe toks' = map unframe toks"
  shows "lines_tile at ls (length toks) \<Longrightarrow> list_all (line_exact toks pe) ls \<Longrightarrow>
    list_all (framed_as toks') ls \<Longrightarrow> verify_line_list toks' pe at ls = None"
proof (induction ls arbitrary: at)
  case Nil
  have "length toks' = length toks" using assms(2) by (metis length_map)
  then show ?case using Nil by simp
next
  case (Cons l ls)
  have len: "length toks' = length toks" using assms(2) by (metis length_map)
  have l: "prefix_token l < length toks" "prefix_token l < token_end l" "token_end l \<le> length toks"
    "prefix_token l = at"
    using Cons.prems(1) by auto
  note f = unframe_eq_fields [OF assms(2)]
  obtain b' where "token_ok (index0 + prefix_token l) b' (toks ! prefix_token l)"
    using chained_nth [OF assms(1) l(1)] by blast
  then have one: "enc_width (encoded (toks ! prefix_token l)) = 1"
    using Cons.prems(2) by (auto simp: line_exact_def Let_def token_ok_def)
  have "(if token_end l < length toks then fst (byte_range (toks' ! token_end l)) else pe) =
      snd (byte_range (toks ! prefix_token l)) +
      unat (enc_value (encoded (toks ! prefix_token l)))"
    using Cons.prems(2) f(1) [of "token_end l"]
    by (auto simp: line_exact_def Let_def split: if_splits)
  moreover have "verify_line_list toks' pe (token_end l) ls = None"
    using Cons by simp
  ultimately show ?case
    using Cons.prems(3) l one f [OF l(1)] len by (simp add: Let_def framed_as_def)
qed

lemma framing_update_unframe: "framing_update (\<lambda>_. Unframed) = unframe"
  by (rule ext) (simp add: unframe_def)

lemma assign_framing_verified:
  assumes "chained 0 b toks e"
  shows "verify_token_ir (assign_display_line_framing
    \<lparr> logical_record = n, payload_range = (b, e), tokens = toks, display_lines = [],
      display_lines_parse = False \<rparr>) = None"
proof -
  let ?toks = "map (\<lambda>t. t\<lparr>framing := Unframed\<rparr>) toks"
  have ch: "chained 0 b ?toks e"
    using assms chained_unframe [of 0 b toks e] by (simp add: framing_update_unframe)
  have "b \<le> e" using chained_le [OF assms] .
  show ?thesis
  proof (cases "token_display_lines ?toks e")
    case None
    then show ?thesis using ch \<open>b \<le> e\<close>
      by (simp add: assign_display_line_framing_def Let_def verify_token_ir_def
          verify_token_list_None [THEN iffD2] verify_display_line_framing_def list_all_iff)
  next
    case (Some ls)
    then have ls: "lines_tile 0 ls (length ?toks)" "list_all (line_exact ?toks e) ls"
      using display_lines_from_Some [of ?toks e 0 ls] by (simp_all add: token_display_lines_def)
    note st = stamp_lines [OF ls(1)]
    have "chained 0 b (fold stamp_line ls ?toks) e"
      using ch st chained_unframe by metis
    moreover have "verify_line_list (fold stamp_line ls ?toks) e 0 ls = None"
      using verify_line_list_None [OF ch _ ls] st by simp
    ultimately show ?thesis using Some \<open>b \<le> e\<close>
      by (simp add: assign_display_line_framing_def Let_def verify_token_ir_def
          verify_token_list_None [THEN iffD2] verify_display_line_framing_def)
  qed
qed

text \<open>The tokens a payload is decoded to before its framing is decided.\<close>

definition payload_tokens ::
  "bytes \<Rightarrow> boo_directory \<Rightarrow> dictionary \<Rightarrow> nat \<Rightarrow> nat \<Rightarrow> logical_token_ir list" where
  "payload_tokens bs dir ts b e =
     (let plain = fst (walk_tokens bs dir ts e b e 0) in
      if token_display_lines plain e = None
      then (case decode_display_line_tokens bs dir ts b e 0 of
              None \<Rightarrow> plain
            | Some relined \<Rightarrow> if token_display_lines relined e \<noteq> None then relined else plain)
      else plain)"

lemma decode_record_payload_ir_alt:
  "decode_record_payload_ir bs dir ts b e n =
     assign_display_line_framing
       \<lparr> logical_record = n, payload_range = (b, e), tokens = payload_tokens bs dir ts b e,
         display_lines = [], display_lines_parse = False \<rparr>"
  by (simp add: decode_record_payload_ir_def payload_tokens_def Let_def)

lemma payload_tokens_chained:
  assumes "b \<le> e"
  shows "chained 0 b (payload_tokens bs dir ts b e) e \<and>
    list_all (\<lambda>t. framing t = Unframed) (payload_tokens bs dir ts b e)"
proof -
  obtain plain c where p: "walk_tokens bs dir ts e b e 0 = (plain, c)" by fastforce
  then have "chained 0 b plain e \<and> list_all (\<lambda>t. framing t = Unframed) plain"
    using walk_tokens_chained [OF p assms] by auto
  then show ?thesis using assms
    by (auto simp: payload_tokens_def Let_def p split: option.splits
        dest: decode_display_line_tokens_chained)
qed

lemma unframed_map: "list_all (\<lambda>t. framing t = Unframed) toks \<Longrightarrow> map unframe toks = toks"
  by (induction toks) (auto simp: unframe_def)

lemma decoded_tokens_unframed:
  assumes "b \<le> e"
  shows "map unframe (tokens (decode_record_payload_ir bs dir ts b e n)) = payload_tokens bs dir ts b e"
proof -
  let ?toks = "payload_tokens bs dir ts b e"
  have u: "map (\<lambda>t. t\<lparr>framing := Unframed\<rparr>) ?toks = ?toks"
    using payload_tokens_chained [OF assms] unframed_map [of ?toks] by (simp add: framing_update_unframe)
  show ?thesis
  proof (cases "token_display_lines ?toks e")
    case None
    then show ?thesis
      using payload_tokens_chained [OF assms] unframed_map [of ?toks]
      by (simp add: decode_record_payload_ir_alt assign_display_line_framing_def Let_def u)
  next
    case (Some ls)
    then have "lines_tile 0 ls (length ?toks)"
      using display_lines_from_Some [of ?toks e 0 ls] by (simp add: token_display_lines_def)
    from stamp_lines [OF this] show ?thesis
      using Some payload_tokens_chained [OF assms] unframed_map [of ?toks]
      by (simp add: decode_record_payload_ir_alt assign_display_line_framing_def Let_def u)
  qed
qed

subsection \<open>The tokens are the payload's bytes\<close>

definition token_bytes :: "logical_token_ir \<Rightarrow> bytes" where
  "token_bytes t =
     (if enc_width (encoded t) = 1 then [ucast (enc_value (encoded t))]
      else [ucast (drop_bit 8 (enc_value (encoded t))), ucast (enc_value (encoded t))])"

lemma bytes_of_wide:
  "(ucast (drop_bit 8 (push_bit 8 (ucast (a :: byte)) OR ucast (b :: byte) :: u16)) :: byte) = a"
  "(ucast (push_bit 8 (ucast (a :: byte)) OR ucast (b :: byte) :: u16) :: byte) = b"
  "(ucast (ucast (a :: byte) :: u16) :: byte) = a"
proof -
  show "(ucast (drop_bit 8 (push_bit 8 (ucast a) OR ucast b :: u16)) :: byte) = a"
    by (rule bit_eqI) (auto simp: bit_simps dest: bit_imp_le_length)
  show "(ucast (push_bit 8 (ucast a) OR ucast b :: u16) :: byte) = b"
    by (rule bit_eqI) (auto simp: bit_simps)
  show "(ucast (ucast a :: u16) :: byte) = a"
    by (rule bit_eqI) (auto simp: bit_simps)
qed

lemma decode_one_token_encoded:
  assumes "decode_one_token bs dir ts cursor limit index = (t, c)"
  shows "c = cursor + 1 \<and> enc_width (encoded t) = 1 \<and>
           enc_value (encoded t) = ucast (byte_at bs cursor) \<or>
         c = cursor + 2 \<and> enc_width (encoded t) = 2 \<and>
           enc_value (encoded t) =
             push_bit 8 (ucast (byte_at bs cursor)) OR ucast (byte_at bs (cursor + 1))"
  using assms
  by (cases "byte_at bs cursor \<ge> token_threshold dir \<and> cursor + 1 < limit")
    (auto simp: decode_one_token_def Let_def)

lemma decode_one_token_bytes:
  assumes "decode_one_token bs dir ts cursor limit index = (t, c)" and "c \<le> length bs"
  shows "token_bytes t = slice bs cursor c"
  using decode_one_token_encoded [OF assms(1)]
proof
  assume n: "c = cursor + 1 \<and> enc_width (encoded t) = 1 \<and>
    enc_value (encoded t) = ucast (byte_at bs cursor)"
  moreover have "slice bs cursor (cursor + 1) = [bs ! cursor]" if "cursor + 1 \<le> length bs"
    using that by (simp add: slice_def take_Suc_conv_app_nth)
  ultimately show ?thesis using assms(2) by (simp add: token_bytes_def bytes_of_wide byte_at_def)
next
  assume w: "c = cursor + 2 \<and> enc_width (encoded t) = 2 \<and>
    enc_value (encoded t) =
      push_bit 8 (ucast (byte_at bs cursor)) OR ucast (byte_at bs (cursor + 1))"
  then have enc: "enc_value (encoded t) =
      push_bit 8 (ucast (byte_at bs cursor)) OR ucast (byte_at bs (cursor + 1))" by simp
  show ?thesis unfolding token_bytes_def enc bytes_of_wide
    using w slice_bytes(1) [of cursor bs] assms(2) by (simp add: byte_at_def del: add_2_eq_Suc')
qed

lemma chained_bytes:
  assumes "chained index b toks e" and "list_all (\<lambda>t. token_bytes t = slice bs (fst (byte_range t)) (snd (byte_range t))) toks"
  shows "concat (map token_bytes toks) = slice bs b e"
  using assms
proof (induction toks arbitrary: index b)
  case Nil
  then show ?case by simp
next
  case (Cons t toks)
  have "fst (byte_range t) = b \<and> b < snd (byte_range t)"
    using Cons.prems token_ok_range by auto
  moreover have "snd (byte_range t) \<le> e" using Cons.prems chained_le by auto
  ultimately show ?case
    using Cons.IH [of "index + 1" "snd (byte_range t)"] Cons.prems
      slice_append [of b "snd (byte_range t)" e bs] by simp
qed

text \<open>Every token of a walk is one that \<open>decode_one_token\<close> read at its own offset.\<close>

definition read_at :: "bytes \<Rightarrow> boo_directory \<Rightarrow> dictionary \<Rightarrow> nat \<Rightarrow> logical_token_ir \<Rightarrow> bool" where
  "read_at bs dir ts limit t \<longleftrightarrow>
     t = fst (decode_one_token bs dir ts (fst (byte_range t)) limit (token_index t))"

lemma walk_tokens_read_at:
  "list_all (read_at bs dir ts limit) (fst (walk_tokens bs dir ts limit cursor stop index))"
proof (induction bs dir ts limit cursor stop index rule: walk_tokens.induct)
  case (1 bs dir ts limit cursor stop index)
  obtain t c where t: "decode_one_token bs dir ts cursor limit index = (t, c)" by fastforce
  have "read_at bs dir ts limit t"
    using decode_one_token_ok [OF t] t by (simp add: read_at_def token_ok_def)
  then show ?case
    using "1.IH" [OF _ t [symmetric]]
    by (subst walk_tokens.simps) (auto simp: t split: prod.splits)
qed

lemma read_at_bytes:
  assumes "read_at bs dir ts limit t" and "snd (byte_range t) \<le> length bs"
  shows "token_bytes t = slice bs (fst (byte_range t)) (snd (byte_range t))"
proof -
  obtain c where c: "decode_one_token bs dir ts (fst (byte_range t)) limit (token_index t) = (t, c)"
    using assms(1) unfolding read_at_def by (metis prod.collapse)
  have "snd (byte_range t) = c" using decode_one_token_ok(2) [OF c] by (metis snd_conv)
  then show ?thesis using decode_one_token_bytes [OF c] assms(2) by simp
qed

lemma decode_display_line_tokens_bytes:
  "decode_display_line_tokens bs dir ts cursor pe index = Some toks \<Longrightarrow>
   list_all (\<lambda>t. \<exists>limit. read_at bs dir ts limit t) toks"
proof (induction bs dir ts cursor pe index arbitrary: toks rule: decode_display_line_tokens.induct)
  case (1 bs dir ts cursor pe index)
  show ?case
  proof (cases "cursor < pe")
    case False
    then show ?thesis using "1.prems" by (subst (asm) decode_display_line_tokens.simps) simp
  next
    case True
    let ?le = "cursor + 1 + unat (byte_at bs cursor)"
    obtain t c' where t: "decode_one_token bs dir ts cursor (cursor + 1) index = (t, c')" by fastforce
    obtain content c'' where content: "walk_tokens bs dir ts pe c' ?le (index + 1) = (content, c'')"
      by fastforce
    have le: "\<not> ?le > pe" and eq: "\<not> c'' \<noteq> ?le"
      using "1.prems"(1) True t content
      by (subst (asm) decode_display_line_tokens.simps, simp add: Let_def split: if_splits)+
    obtain rest where rest: "decode_display_line_tokens bs dir ts ?le pe (index + 1 + length content)
        = Some rest" and out: "toks = t # content @ rest"
      using "1.prems"(1) True t content le eq
      by (subst (asm) decode_display_line_tokens.simps) (auto simp: Let_def)
    have "list_all (\<lambda>t. \<exists>limit. read_at bs dir ts limit t) rest"
      using "1.IH" [OF True refl le t [symmetric] content [symmetric] eq rest] .
    moreover have "list_all (\<lambda>t. \<exists>limit. read_at bs dir ts limit t) content"
      using walk_tokens_read_at [of bs dir ts pe c' ?le "index + 1"]
      unfolding content list_all_iff by fastforce
    moreover have "read_at bs dir ts (cursor + 1) t"
      using decode_one_token_ok [OF t] t by (simp add: read_at_def token_ok_def)
    ultimately show ?thesis using out by auto
  qed
qed

lemma payload_tokens_bytes:
  assumes "b \<le> e" and "e \<le> length bs"
  shows "concat (map token_bytes (payload_tokens bs dir ts b e)) = slice bs b e"
proof (rule chained_bytes)
  show ch: "chained 0 b (payload_tokens bs dir ts b e) e"
    using payload_tokens_chained [OF assms(1)] by simp
  have plain: "list_all (\<lambda>t. \<exists>limit. read_at bs dir ts limit t) (fst (walk_tokens bs dir ts e b e 0))"
    using walk_tokens_read_at [of bs dir ts e b e 0] unfolding list_all_iff by fastforce
  have "list_all (\<lambda>t. \<exists>limit. read_at bs dir ts limit t) (payload_tokens bs dir ts b e)"
    unfolding payload_tokens_def Let_def
    using plain decode_display_line_tokens_bytes [of bs dir ts b e 0]
    by (auto split: option.splits)
  then show "list_all (\<lambda>t. token_bytes t = slice bs (fst (byte_range t)) (snd (byte_range t)))
      (payload_tokens bs dir ts b e)"
    using chained_ends [OF ch] assms(2) read_at_bytes
    unfolding list_all_iff by (meson le_trans)
qed

subsection \<open>The line-by-line decoding is always accepted\<close>

lemma relined_display_lines:
  "decode_display_line_tokens bs dir ts cursor pe (length pre) = Some toks \<Longrightarrow> cursor \<le> pe \<Longrightarrow>
   display_lines_from (pre @ toks) pe (length pre) \<noteq> None"
proof (induction bs dir ts cursor pe "length pre" arbitrary: toks pre
    rule: decode_display_line_tokens.induct)
  case (1 bs dir ts cursor pe)
  show ?case
  proof (cases "cursor < pe")
    case False
    then show ?thesis using "1.prems"
      by (subst (asm) decode_display_line_tokens.simps) (simp add: display_lines_from.simps)
  next
    case True
    let ?le = "cursor + 1 + unat (byte_at bs cursor)"
    let ?index = "length pre"
    obtain t c' where t: "decode_one_token bs dir ts cursor (cursor + 1) ?index = (t, c')" by fastforce
    obtain content c'' where content: "walk_tokens bs dir ts pe c' ?le (?index + 1) = (content, c'')"
      by fastforce
    have le: "\<not> ?le > pe" and eq: "\<not> c'' \<noteq> ?le"
      using "1.prems"(1) True t content
      by (subst (asm) decode_display_line_tokens.simps, simp add: Let_def split: if_splits)+
    obtain rest where rest: "decode_display_line_tokens bs dir ts ?le pe (?index + 1 + length content)
        = Some rest" and out: "toks = t # content @ rest"
      using "1.prems"(1) True t content le eq
      by (subst (asm) decode_display_line_tokens.simps) (auto simp: Let_def)
    have index: "?index + 1 + length content = length (pre @ t # content)" by simp
    have more: "display_lines_from ((pre @ t # content) @ rest) pe (length (pre @ t # content)) \<noteq> None"
      using "1.hyps" [OF True refl le t [symmetric] content [symmetric] eq index]
        rest [unfolded index] le by simp
    have cont: "chained (?index + 1) c' content ?le"
      using walk_tokens_chained [OF content] decode_one_token_prefix [OF t] le eq by simp
    have rch: "chained (?index + 1 + length content) ?le rest pe"
      using decode_display_line_tokens_chained [OF rest] le by simp
    have r: "byte_range t = (cursor, cursor + 1)" "enc_value (encoded t) = ucast (byte_at bs cursor)"
      using decode_one_token_ok [OF t] decode_one_token_prefix [OF t] by simp_all
    have wide: "unat (ucast (byte_at bs cursor) :: u16) = unat (byte_at bs cursor)" by simp
    have tw: "takeWhile (\<lambda>u. snd (byte_range u) \<le> ?le) (content @ rest) = content"
    proof -
      have "\<forall>u \<in> set content. snd (byte_range u) \<le> ?le" using chained_ends [OF cont] by blast
      moreover have "takeWhile (\<lambda>u. snd (byte_range u) \<le> ?le) rest = []"
        using rch by (cases rest) (auto dest: token_ok_range)
      ultimately show ?thesis by (simp add: takeWhile_append2)
    qed
    have bnd: "(if ?index + 1 + length content < length (pre @ toks)
        then fst (byte_range ((pre @ toks) ! (?index + 1 + length content))) else pe) = ?le"
      using rch by (cases rest) (auto simp: out nth_append dest: token_ok_range)
    have "display_lines_from (pre @ toks) pe ?index =
        map_option (\<lambda>ls. plain_line ?index (?index + 1 + length content) # ls)
          (display_lines_from (pre @ toks) pe (?index + 1 + length content))"
    proof (rule display_lines_from_step)
      show "?le = snd (byte_range ((pre @ toks) ! ?index)) +
          unat (enc_value (encoded ((pre @ toks) ! ?index)))"
        by (simp add: out r wide)
      show "?index + 1 + length content =
          ?index + 1 + length (takeWhile (\<lambda>u. snd (byte_range u) \<le> ?le) (drop (?index + 1) (pre @ toks)))"
        using tw by (simp add: out)
    qed (use bnd in \<open>simp_all add: out r\<close>)
    then show ?thesis using more by (simp add: out index)
  qed
qed

subsection \<open>Properties of decoded records\<close>

lemma decode_record_payload_cases:
  assumes "b \<le> e"
  obtains (unframed) "token_display_lines (payload_tokens bs dir ts b e) e = None"
      "\<not> display_lines_parse (decode_record_payload_ir bs dir ts b e n)"
  | (framed) ls where "token_display_lines (payload_tokens bs dir ts b e) e = Some ls"
      "decode_record_payload_ir bs dir ts b e n =
         \<lparr> logical_record = n, payload_range = (b, e),
           tokens = fold stamp_line ls (payload_tokens bs dir ts b e), display_lines = ls,
           display_lines_parse = True \<rparr>"
      "lines_tile 0 ls (length (payload_tokens bs dir ts b e))"
      "list_all (line_exact (payload_tokens bs dir ts b e) e) ls"
proof -
  let ?toks = "payload_tokens bs dir ts b e"
  have u: "map (\<lambda>t. t\<lparr>framing := Unframed\<rparr>) ?toks = ?toks"
    using payload_tokens_chained [OF assms] unframed_map [of ?toks]
    by (simp add: framing_update_unframe)
  show thesis
  proof (cases "token_display_lines ?toks e")
    case None
    then show thesis
      by (intro unframed)
        (simp_all add: decode_record_payload_ir_alt assign_display_line_framing_def Let_def u)
  next
    case (Some ls)
    then show thesis
      using display_lines_from_Some [of ?toks e 0 ls]
      by (intro framed [of ls])
        (simp_all add: decode_record_payload_ir_alt assign_display_line_framing_def Let_def u
          token_display_lines_def)
  qed
qed

lemma chained_begins:
  "chained index b toks e \<Longrightarrow> j < length toks \<Longrightarrow>
   b \<le> fst (byte_range (toks ! j)) \<and> fst (byte_range (toks ! j)) \<le> e"
proof (induction toks arbitrary: index b j)
  case Nil
  then show ?case by simp
next
  case (Cons t toks)
  have t: "fst (byte_range t) = b" "b < snd (byte_range t)" "snd (byte_range t) \<le> e"
    using Cons.prems(1) token_ok_range [of index b t] chained_le by auto
  show ?case
  proof (cases j)
    case 0
    then show ?thesis using t by simp
  next
    case (Suc k)
    then show ?thesis using Cons.IH [of "index + 1" "snd (byte_range t)" k] Cons.prems t by simp
  qed
qed

lemma chained_begins_mono:
  "chained index b toks e \<Longrightarrow> i \<le> j \<Longrightarrow> j < length toks \<Longrightarrow>
   fst (byte_range (toks ! i)) \<le> fst (byte_range (toks ! j))"
proof (induction toks arbitrary: index b i j)
  case Nil
  then show ?case by simp
next
  case (Cons t toks)
  show ?case
  proof (cases i)
    case 0
    then show ?thesis
      using chained_begins [OF Cons.prems(1), of j] token_ok_range [of index b t] Cons.prems
      by simp
  next
    case (Suc k)
    then obtain k' where "j = Suc k'" using Cons.prems by (cases j) auto
    then show ?thesis
      using Cons.IH [of "index + 1" "snd (byte_range t)" k k'] Cons.prems Suc by simp
  qed
qed

text \<open>The bytes a display line takes in the payload, its length byte included.\<close>

definition line_bytes :: "logical_record_ir \<Rightarrow> display_line_ir \<Rightarrow> nat \<times> nat" where
  "line_bytes r l =
     (fst (byte_range (tokens r ! prefix_token l)),
      if token_end l < length (tokens r) then fst (byte_range (tokens r ! token_end l))
      else snd (payload_range r))"

lemma lines_tile_bytes:
  assumes "chained 0 b toks e"
  shows "lines_tile at ls (length toks) \<Longrightarrow> at \<le> length toks \<Longrightarrow>
    tiles (map (\<lambda>l. (fst (byte_range (toks ! prefix_token l)),
        if token_end l < length toks then fst (byte_range (toks ! token_end l)) else e)) ls)
      (if at < length toks then fst (byte_range (toks ! at)) else e) e"
proof (induction ls arbitrary: at)
  case Nil
  then show ?case by simp
next
  case (Cons l ls)
  have l: "prefix_token l = at" "at < token_end l" "token_end l \<le> length toks"
    using Cons.prems by auto
  have "fst (byte_range (toks ! at)) \<le>
      (if token_end l < length toks then fst (byte_range (toks ! token_end l)) else e)"
    using chained_begins [OF assms, of at] chained_begins_mono [OF assms, of at "token_end l"] l
    by simp
  then show ?case using Cons.IH [of "token_end l"] Cons.prems l by simp
qed


lemma payload_tokens_read_at:
  "list_all (\<lambda>t. \<exists>limit. read_at bs dir ts limit t) (payload_tokens bs dir ts b e)"
proof -
  have "list_all (\<lambda>t. \<exists>limit. read_at bs dir ts limit t) (fst (walk_tokens bs dir ts e b e 0))"
    using walk_tokens_read_at [of bs dir ts e b e 0] unfolding list_all_iff by fastforce
  then show ?thesis
    unfolding payload_tokens_def Let_def
    using decode_display_line_tokens_bytes [of bs dir ts b e 0]
    by (auto split: option.splits)
qed

lemma one_byte_value:
  assumes "read_at bs dir ts limit t" and "snd (byte_range t) = fst (byte_range t) + 1"
  shows "enc_value (encoded t) = ucast (byte_at bs (fst (byte_range t)))"
proof -
  obtain c where c: "decode_one_token bs dir ts (fst (byte_range t)) limit (token_index t) = (t, c)"
    using assms(1) unfolding read_at_def by (metis prod.collapse)
  have "snd (byte_range t) = c" using decode_one_token_ok(2) [OF c] by (metis snd_conv)
  then show ?thesis using decode_one_token_encoded [OF c] assms(2) by auto
qed

lemma lines_tile_prefix: "lines_tile at ls n \<Longrightarrow> l \<in> set ls \<Longrightarrow> prefix_token l < n"
proof (induction ls arbitrary: at)
  case Nil
  then show ?case by simp
next
  case (Cons k ls)
  then show ?case by auto
qed

lemma display_lines_bytes:
  assumes "b \<le> e" and "display_lines_parse (decode_record_payload_ir bs dir ts b e n)"
  defines "r \<equiv> decode_record_payload_ir bs dir ts b e n"
  shows "tiles (map (line_bytes r) (display_lines r)) b e"
    and "list_all (\<lambda>l. snd (line_bytes r l) =
           fst (line_bytes r l) + 1 + unat (byte_at bs (fst (line_bytes r l)))) (display_lines r)"
proof -
  let ?toks = "payload_tokens bs dir ts b e"
  have ch: "chained 0 b ?toks e" using payload_tokens_chained [OF assms(1)] by simp
  obtain ls where r: "r = \<lparr> logical_record = n, payload_range = (b, e),
        tokens = fold stamp_line ls ?toks, display_lines = ls, display_lines_parse = True \<rparr>"
    and tile: "lines_tile 0 ls (length ?toks)" and exact: "list_all (line_exact ?toks e) ls"
    using decode_record_payload_cases [OF assms(1), of bs dir ts n thesis] assms(2)
    unfolding r_def by blast
  note st = stamp_lines [OF tile]
  have in_range: "prefix_token l < length ?toks" if "l \<in> set ls" for l
    using lines_tile_prefix [OF tile that] .
  have lb: "line_bytes r l = (fst (byte_range (?toks ! prefix_token l)),
      if token_end l < length ?toks then fst (byte_range (?toks ! token_end l)) else e)"
    if "l \<in> set ls" for l
    using unframe_eq_fields(1) [of "fold stamp_line ls ?toks" ?toks] st in_range [OF that]
    by (simp add: line_bytes_def r)
  have first: "(if 0 < length ?toks then fst (byte_range (?toks ! 0)) else e) = b"
    using ch token_ok_range by (cases ?toks) auto
  have dl: "display_lines r = ls" by (simp add: r)
  have m: "map (line_bytes r) ls = map (\<lambda>l. (fst (byte_range (?toks ! prefix_token l)),
      if token_end l < length ?toks then fst (byte_range (?toks ! token_end l)) else e)) ls"
    using lb by simp
  show "tiles (map (line_bytes r) (display_lines r)) b e"
    unfolding dl m using lines_tile_bytes [OF ch tile, unfolded first] by simp
  show "list_all (\<lambda>l. snd (line_bytes r l) =
      fst (line_bytes r l) + 1 + unat (byte_at bs (fst (line_bytes r l)))) (display_lines r)"
    unfolding list_all_iff
  proof
    fix l assume "l \<in> set (display_lines r)"
    then have l: "l \<in> set ls" by (simp add: r)
    let ?lead = "?toks ! prefix_token l"
    have "snd (byte_range ?lead) = fst (byte_range ?lead) + 1"
      and "snd (line_bytes r l) = snd (byte_range ?lead) + unat (enc_value (encoded ?lead))"
      using exact l lb [OF l] by (auto simp: list_all_iff line_exact_def Let_def)
    moreover obtain limit where "read_at bs dir ts limit ?lead"
      using payload_tokens_read_at [of bs dir ts b e] in_range [OF l]
      by (auto simp: list_all_length)
    ultimately show "snd (line_bytes r l) =
        fst (line_bytes r l) + 1 + unat (byte_at bs (fst (line_bytes r l)))"
      using one_byte_value lb [OF l] by auto
  qed
qed

text \<open>A payload inside the file.\<close>

definition range_in_file :: "bytes \<Rightarrow> nat \<times> nat \<Rightarrow> bool" where
  "range_in_file bs payload \<longleftrightarrow> fst payload \<le> snd payload \<and> snd payload \<le> length bs"

lemma decode_verifies: "b \<le> e \<Longrightarrow> verify_token_ir (decode_record_payload_ir bs dir ts b e n) = None"
  unfolding decode_record_payload_ir_alt
  by (rule assign_framing_verified) (use payload_tokens_chained in simp)

text \<open>C23: Every decoded record passes the token and framing check: the exception the record reader throws
  on an invalid token IR is unreachable, whatever bytes the payload holds.\<close>

theorem decoded_record_verifies:
  assumes "payload_begin \<le> payload_end"
  shows "verify_token_ir
           (decode_record_payload_ir bs dir ts payload_begin payload_end record_number) = None"
  by (rule decode_verifies [OF assms])

theorem decoded_record_verifies_witness:
  "verify_token_ir (decode_record_payload_ir [1, 2, 3] example_directory [] 0 3 1) = None"
  by (rule decoded_record_verifies) simp

text \<open>C9: Decoding loses nothing: the bytes of a record's tokens, in order, are the bytes of its payload.\<close>

theorem tokens_are_payload_bytes:
  assumes "payload_begin \<le> payload_end" and "payload_end \<le> length bs"
  shows "concat (map token_bytes
           (tokens (decode_record_payload_ir bs dir ts payload_begin payload_end record_number))) =
         slice bs payload_begin payload_end"
proof -
  have "map token_bytes ts' = map token_bytes (map unframe ts')" for ts'
    by (simp add: token_bytes_def)
  then show ?thesis
    using payload_tokens_bytes [OF assms] by (metis decoded_tokens_unframed [OF assms(1)])
qed

theorem tokens_are_payload_bytes_witness:
  "concat (map token_bytes
     (tokens (decode_record_payload_ir [1, 0xC2, 3] example_directory [] 0 3 1))) = [1, 0xC2, 3]"
  using tokens_are_payload_bytes [of 0 3 "[1, 0xC2, 3]" example_directory "[]" 1]
  by (simp add: slice_def)

text \<open>C22: When a record is framed, its display lines cover the payload in order without gap or overlap,
  and each is exactly as long as its length byte in the file says.\<close>

theorem display_lines_tile_payload:
  assumes "payload_begin \<le> payload_end"
    and "display_lines_parse
           (decode_record_payload_ir bs dir ts payload_begin payload_end record_number)"
  shows "let r = decode_record_payload_ir bs dir ts payload_begin payload_end record_number
         in tiles (map (line_bytes r) (display_lines r)) payload_begin payload_end \<and>
            list_all (\<lambda>l. snd (line_bytes r l) =
              fst (line_bytes r l) + 1 + unat (byte_at bs (fst (line_bytes r l)))) (display_lines r)"
  using display_lines_bytes [OF assms] by (simp add: Let_def)

theorem display_lines_tile_payload_witness:
  "let r = decode_record_payload_ir [1, 5, 0] example_directory [] 0 3 1
   in display_lines_parse r \<and> tiles (map (line_bytes r) (display_lines r)) 0 3"
proof -
  have "display_lines_parse (decode_record_payload_ir [1, 5, 0] example_directory [] 0 3 1)"
    by code_simp
  then show ?thesis
    using display_lines_tile_payload [of 0 3 "[1, 5, 0]" example_directory "[]" 1]
    by (simp add: Let_def)
qed

text \<open>C24: A record is framed exactly when the plain walk tiles into display lines or the line-by-line
  decoding succeeds: the second check of the re-decoded tokens never rejects them.\<close>

theorem framed_iff_some_walk_tiles:
  assumes "payload_begin \<le> payload_end"
  shows "display_lines_parse
           (decode_record_payload_ir bs dir ts payload_begin payload_end record_number) \<longleftrightarrow>
         (token_display_lines (fst (walk_tokens bs dir ts payload_end payload_begin payload_end 0))
            payload_end \<noteq> None) \<or>
         (decode_display_line_tokens bs dir ts payload_begin payload_end 0 \<noteq> None)"
proof -
  have relined: "token_display_lines relined payload_end \<noteq> None"
    if "decode_display_line_tokens bs dir ts payload_begin payload_end 0 = Some relined" for relined
    using relined_display_lines [of bs dir ts payload_begin payload_end "[]" relined] that assms
    by (simp add: token_display_lines_def)
  then have "token_display_lines (payload_tokens bs dir ts payload_begin payload_end) payload_end
      \<noteq> None \<longleftrightarrow>
      (token_display_lines (fst (walk_tokens bs dir ts payload_end payload_begin payload_end 0))
            payload_end \<noteq> None) \<or>
      (decode_display_line_tokens bs dir ts payload_begin payload_end 0 \<noteq> None)"
    by (auto simp: payload_tokens_def Let_def split: option.splits)
  then show ?thesis
    by (rule_tac decode_record_payload_cases [OF assms, of bs dir ts record_number]) auto
qed

theorem framed_iff_some_walk_tiles_witness:
  "display_lines_parse (decode_record_payload_ir [] example_directory [] 0 0 1)"
  by (subst framed_iff_some_walk_tiles)
    (simp_all add: walk_tokens.simps token_display_lines_def display_lines_from.simps)

text \<open>Decoding a byte range again succeeds on every range inside the file: a range that ends in the
  middle of a two-byte token is not refused, its last byte is read as a one-byte token.\<close>

lemma source_range_decoding_total:
  "decode_source_byte_range_tokens bs dir ts byte_begin byte_end \<noteq> None \<longleftrightarrow>
     byte_begin \<le> byte_end \<and> byte_end \<le> length bs"
proof (cases "byte_begin \<le> byte_end \<and> byte_end \<le> length bs")
  case True
  obtain toks c where w: "walk_tokens bs dir ts byte_end byte_begin byte_end 0 = (toks, c)"
    by fastforce
  then have "c \<le> byte_end" using walk_tokens_chained [OF w] True by simp
  then show ?thesis using True w by (simp add: decode_source_byte_range_tokens_def)
next
  case False
  then show ?thesis by (auto simp: decode_source_byte_range_tokens_def)
qed

end
