(* ===== verification/Assembly.thy ===== *)
theory Assembly
  imports Tokens
begin

section \<open>Assembling a logical record\<close>

text \<open>
  The words of a record, built from the words of its tokens and the spacing controls in front of them
  (\<open>src/container/logical.cpp\<close>), with the source of every word and the output span of every token; the
  queries over that map (\<open>src/container/source_segments.cpp\<close>, \<open>src/container/control_ir.cpp\<close>).
\<close>

datatype logical_word_source_kind = Token_word | Inserted_space

record logical_word_source =
  src_token :: nat
  src_word :: nat
  src_kind :: logical_word_source_kind
  src_has_control :: bool
  src_spacing :: u16

record logical_token_span =
  span_token :: nat
  span_has_control :: bool
  span_spacing :: u16
  output_begin :: nat
  output_end :: nat
  control_only :: bool

record assembled_logical_record =
  asm_words :: token_words
  asm_sources :: "logical_word_source list"
  asm_tokens :: "logical_token_span list"
  word_offsets :: "nat list"

type_synonym output_range = "nat \<times> nat"

subsection \<open>Assembly\<close>

definition remove_pending_space :: "assembled_logical_record \<Rightarrow> assembled_logical_record" where
  "remove_pending_space a =
     (if asm_words a \<noteq> [] \<and> last (asm_words a) = 0x20 then
        let source_token = src_token (last (asm_sources a));
            ws = butlast (asm_words a)
        in a\<lparr> asm_words := ws,
              asm_sources := butlast (asm_sources a),
              asm_tokens :=
                (if source_token < length (asm_tokens a)
                 then (asm_tokens a)[source_token :=
                        (asm_tokens a ! source_token)\<lparr>output_end := length ws\<rparr>]
                 else asm_tokens a) \<rparr>
      else a)"

text \<open>One round of the loop over the tokens; the second component is \<open>spacing_control\<close>.\<close>

definition assemble_token ::
  "nat \<Rightarrow> token_words \<Rightarrow> assembled_logical_record \<Rightarrow> assembled_logical_record \<times> u16" where
  "assemble_token index token a =
     (let has_control = starts_with_control token;
          spacing0 = (if token = [] then 3 else hd token);
          effective = (if has_control then hd token else 3);
          ws = (if has_control then tl token else token);
          first_word = (if has_control then 1 else 0);
          attach = has_control \<and> asm_words a \<noteq> [] \<and> (spacing0 = 1 \<or> spacing0 = 0);
          a1 = (if attach then remove_pending_space a else a);
          spacing1 = (if attach \<and> (spacing0 = 0 \<or> ws = []) then 2 else spacing0);
          spacing2 = (if ws \<noteq> [] \<and> last ws = 0x20 then 2 else spacing1);
          space = spacing2 \<noteq> 2;
          source = (\<lambda>i kind. \<lparr> src_token = index, src_word = i, src_kind = kind,
                              src_has_control = has_control, src_spacing = effective \<rparr>);
          out = asm_words a1 @ ws @ (if space then [0x20] else [])
      in (a1\<lparr> asm_words := out,
              asm_sources := asm_sources a1 @
                map (\<lambda>i. source (first_word + i) Token_word) [0..<length ws] @
                (if space then [source (length token) Inserted_space] else []),
              asm_tokens := asm_tokens a1 @
                [\<lparr> span_token = index, span_has_control = has_control, span_spacing = effective,
                   output_begin = length (asm_words a1), output_end = length out,
                   control_only = has_control \<and> length token = 1 \<rparr>] \<rparr>,
          spacing2))"

fun assemble_tokens ::
  "nat \<Rightarrow> token_words list \<Rightarrow> assembled_logical_record \<times> u16 \<Rightarrow> assembled_logical_record \<times> u16" where
  "assemble_tokens index [] s = s"
| "assemble_tokens index (token # rest) (a, spacing) =
     assemble_tokens (index + 1) rest (assemble_token index token a)"

definition drop_last_space :: "assembled_logical_record \<times> u16 \<Rightarrow> assembled_logical_record" where
  "drop_last_space s =
     (case s of (a, spacing) \<Rightarrow>
        if length (asm_words a) > 1 \<and> spacing \<noteq> 2 then
          let ws = butlast (asm_words a); n = length (asm_tokens a) in
          a\<lparr> asm_words := ws, asm_sources := butlast (asm_sources a),
             asm_tokens :=
               (if n > 0
                then (asm_tokens a)[n - 1 := (asm_tokens a ! (n - 1))\<lparr>output_end := length ws\<rparr>]
                else asm_tokens a) \<rparr>
        else a)"

fun upper_until_break :: "token_words \<Rightarrow> token_words" where
  "upper_until_break [] = []"
| "upper_until_break (w # ws) =
     (if w = 0x20 \<or> w = 0x3D \<or> w = 0 then w # ws
      else map_token_word_to_upper_ascii w # upper_until_break ws)"

definition upper_record_head :: "token_words \<Rightarrow> token_words" where
  "upper_record_head ws =
     (if ws \<noteq> [] \<and> hd ws \<noteq> 0x20 \<and> hd ws \<noteq> 0x53 then upper_until_break ws else ws)"

definition assemble_logical_record_with_sources ::
  "token_words list \<Rightarrow> assembled_logical_record" where
  "assemble_logical_record_with_sources toks =
     (let a = drop_last_space
                (assemble_tokens 0 toks
                   (\<lparr> asm_words = [], asm_sources = [], asm_tokens = [], word_offsets = [] \<rparr>, 2));
          ws = upper_record_head (asm_words a)
      in a\<lparr> asm_words := ws, word_offsets := projection_offsets 0 ws \<rparr>)"

definition assemble_logical_record :: "token_words list \<Rightarrow> token_words" where
  "assemble_logical_record toks = asm_words (assemble_logical_record_with_sources toks)"

subsection \<open>Queries\<close>

definition assembled_token_output_offsets :: "assembled_logical_record \<Rightarrow> nat list" where
  "assembled_token_output_offsets a =
     map (\<lambda>t. word_offsets a ! output_begin t)
       (filter (\<lambda>t. output_begin t < length (word_offsets a)) (asm_tokens a))"

definition output_spans_intersect :: "nat \<Rightarrow> nat \<Rightarrow> nat \<Rightarrow> nat \<Rightarrow> bool" where
  "output_spans_intersect left_begin left_end right_begin right_end \<longleftrightarrow>
     left_begin < right_end \<and> right_begin < left_end"

text \<open>The binary search of \<open>std::lower_bound\<close>: the first index of the range whose element fails the
  test, when the elements that pass come first.\<close>

function partition_search :: "(nat \<Rightarrow> bool) \<Rightarrow> nat \<Rightarrow> nat \<Rightarrow> nat" where
  "partition_search p first len =
     (if len > 0 then
        let half = len div 2; middle = first + half in
        if p middle then partition_search p (middle + 1) (len - half - 1)
        else partition_search p first half
      else first)"
  by pat_completeness auto
termination
  by (relation "measure (\<lambda>(_, _, len). len)") auto

declare partition_search.simps [simp del]

definition bound_index :: "('a \<Rightarrow> bool) \<Rightarrow> 'a list \<Rightarrow> nat" where
  "bound_index p xs = partition_search (\<lambda>i. p (xs ! i)) 0 (length xs)"

definition source_tokens_intersecting_output ::
  "assembled_logical_record \<Rightarrow> nat \<Rightarrow> nat \<Rightarrow> nat list" where
  "source_tokens_intersecting_output a out_begin out_end =
     (if out_begin \<ge> out_end \<or> out_begin \<ge> length (asm_words a) then []
      else
        let e = min out_end (length (asm_words a));
            first = bound_index (\<lambda>t. output_end t \<le> out_begin) (asm_tokens a);
            run = takeWhile (\<lambda>t. \<not> output_begin t \<ge> e) (drop first (asm_tokens a))
        in map span_token
             (filter (\<lambda>t. output_spans_intersect out_begin e (output_begin t) (output_end t)) run))"

definition word_range_for_bytes ::
  "assembled_logical_record \<Rightarrow> nat \<Rightarrow> nat \<Rightarrow> output_range" where
  "word_range_for_bytes a byte_begin byte_end =
     (let count = length (asm_words a);
          ends = tl (word_offsets a);
          first = bound_index (\<lambda>offset. \<not> byte_begin < offset) ends;
          last = bound_index (\<lambda>offset. offset < byte_end) ends;
          b = (if first \<noteq> length ends then first else count);
          e = (if last \<noteq> length ends then last + 1 else count)
      in if byte_begin = byte_end then (e, e) else (b, e))"

definition decoded_byte_range_to_word_range ::
  "assembled_logical_record \<Rightarrow> output_range \<Rightarrow> output_range" where
  "decoded_byte_range_to_word_range a bs = word_range_for_bytes a (fst bs) (snd bs)"

definition decoded_word_range_to_byte_range ::
  "assembled_logical_record \<Rightarrow> output_range \<Rightarrow> output_range" where
  "decoded_word_range_to_byte_range a ws =
     (word_offsets a ! min (fst ws) (length (asm_words a)),
      word_offsets a ! min (snd ws) (length (asm_words a)))"

subsection \<open>The binary search\<close>

lemma partition_search_spec:
  assumes "\<And>i j. first \<le> i \<Longrightarrow> i \<le> j \<Longrightarrow> j < first + len \<Longrightarrow> p j \<Longrightarrow> p i"
  shows "first \<le> partition_search p first len \<and> partition_search p first len \<le> first + len \<and>
    (\<forall>i. first \<le> i \<and> i < partition_search p first len \<longrightarrow> p i) \<and>
    (\<forall>i. partition_search p first len \<le> i \<and> i < first + len \<longrightarrow> \<not> p i)"
  using assms
proof (induction p first len rule: partition_search.induct)
  case (1 p first len)
  show ?case
  proof (cases "len > 0")
    case False
    then show ?thesis by (auto simp: partition_search.simps)
  next
    case True
    let ?h = "len div 2" and ?m = "first + len div 2"
    have h: "?h < len" using True by simp
    show ?thesis
    proof (cases "p ?m")
      case pm: True
      have below: "p i" if "first \<le> i" "i \<le> ?m" for i
        using "1.prems" [of i ?m] that pm h by simp
      define r where "r = partition_search p (?m + 1) (len - ?h - 1)"
      have r: "partition_search p first len = r"
        unfolding r_def using True pm by (subst partition_search.simps) (simp add: Let_def)
      have sum: "?m + 1 + (len - ?h - 1) = first + len" using h by simp
      have ih: "?m + 1 \<le> r \<and> r \<le> ?m + 1 + (len - ?h - 1) \<and>
          (\<forall>i. ?m + 1 \<le> i \<and> i < r \<longrightarrow> p i) \<and>
          (\<forall>i. r \<le> i \<and> i < ?m + 1 + (len - ?h - 1) \<longrightarrow> \<not> p i)"
        unfolding r_def by (rule "1.IH"(1) [OF True refl refl pm]) (use "1.prems" h in simp)
      show ?thesis unfolding r
      proof (intro conjI allI impI)
        fix i assume "first \<le> i \<and> i < r"
        then show "p i" using below [of i] ih by (cases "i \<le> ?m") simp_all
      qed (use ih sum in auto)
    next
      case pm: False
      have above: "\<not> p i" if "?m \<le> i" "i < first + len" for i
        using "1.prems" [of ?m i] that pm by auto
      define r where "r = partition_search p first ?h"
      have r: "partition_search p first len = r"
        unfolding r_def using True pm by (subst partition_search.simps) (simp add: Let_def)
      have ih: "first \<le> r \<and> r \<le> first + ?h \<and> (\<forall>i. first \<le> i \<and> i < r \<longrightarrow> p i) \<and>
          (\<forall>i. r \<le> i \<and> i < first + ?h \<longrightarrow> \<not> p i)"
        unfolding r_def by (rule "1.IH"(2) [OF True refl refl pm]) (use "1.prems" h in simp)
      show ?thesis unfolding r
      proof (intro conjI allI impI)
        fix i assume "r \<le> i \<and> i < first + len"
        then show "\<not> p i" using above [of i] ih by (cases "i < ?m") simp_all
      qed (use ih h in auto)
    qed
  qed
qed

definition passes_first :: "('a \<Rightarrow> bool) \<Rightarrow> 'a list \<Rightarrow> bool" where
  "passes_first p xs \<longleftrightarrow> (\<forall>i j. i \<le> j \<and> j < length xs \<and> p (xs ! j) \<longrightarrow> p (xs ! i))"

lemma bound_index_spec:
  assumes "passes_first p xs"
  shows "bound_index p xs \<le> length xs" and "i < bound_index p xs \<Longrightarrow> p (xs ! i)"
    and "bound_index p xs \<le> i \<Longrightarrow> i < length xs \<Longrightarrow> \<not> p (xs ! i)"
proof -
  define r where "r = partition_search (\<lambda>i. p (xs ! i)) 0 (length xs)"
  have "0 \<le> r \<and> r \<le> 0 + length xs \<and> (\<forall>i. 0 \<le> i \<and> i < r \<longrightarrow> p (xs ! i)) \<and>
    (\<forall>i. r \<le> i \<and> i < 0 + length xs \<longrightarrow> \<not> p (xs ! i))"
    unfolding r_def
  proof (rule partition_search_spec)
    fix i j assume "i \<le> j" "j < 0 + length xs" "p (xs ! j)"
    then show "p (xs ! i)" using assms unfolding passes_first_def by (metis add_0)
  qed
  then have "r \<le> length xs" "\<forall>i. i < r \<longrightarrow> p (xs ! i)"
    "\<forall>i. r \<le> i \<and> i < length xs \<longrightarrow> \<not> p (xs ! i)" by (simp_all only: add_0 le0 simp_thms) blast+
  moreover have "bound_index p xs = r" by (simp only: bound_index_def r_def)
  ultimately show "bound_index p xs \<le> length xs" and "i < bound_index p xs \<Longrightarrow> p (xs ! i)"
    and "bound_index p xs \<le> i \<Longrightarrow> i < length xs \<Longrightarrow> \<not> p (xs ! i)" by blast+
qed

subsection \<open>Output words and their tokens\<close>

text \<open>Every output word lies in the span of the token it comes from and in no other.\<close>

definition spans_exact :: "assembled_logical_record \<Rightarrow> bool" where
  "spans_exact a \<longleftrightarrow>
     length (asm_sources a) = length (asm_words a) \<and>
     (\<forall>k < length (asm_tokens a).
        span_token (asm_tokens a ! k) = k \<and>
        output_begin (asm_tokens a ! k) \<le> output_end (asm_tokens a ! k) \<and>
        (output_begin (asm_tokens a ! k) < output_end (asm_tokens a ! k) \<longrightarrow>
           output_end (asm_tokens a ! k) \<le> length (asm_words a))) \<and>
     (\<forall>i < length (asm_words a).
        src_token (asm_sources a ! i) < length (asm_tokens a) \<and>
        (\<forall>k < length (asm_tokens a). src_token (asm_sources a ! i) = k \<longleftrightarrow>
           output_begin (asm_tokens a ! k) \<le> i \<and> i < output_end (asm_tokens a ! k)))"

definition pop_word :: "assembled_logical_record \<Rightarrow> assembled_logical_record" where
  "pop_word a =
     (let k = src_token (last (asm_sources a)); ws = butlast (asm_words a)
      in a\<lparr> asm_words := ws, asm_sources := butlast (asm_sources a),
            asm_tokens := (asm_tokens a)[k := (asm_tokens a ! k)\<lparr>output_end := length ws\<rparr>] \<rparr>)"

lemma pop_word_exact:
  assumes "spans_exact a" and "asm_words a \<noteq> []"
  shows "spans_exact (pop_word a)"
proof -
  let ?n = "length (asm_words a)"
  let ?k = "src_token (last (asm_sources a))"
  have n: "0 < ?n" using assms(2) by simp
  have len: "length (asm_sources a) = ?n"
    and tok: "\<And>k. k < length (asm_tokens a) \<Longrightarrow> span_token (asm_tokens a ! k) = k \<and>
        output_begin (asm_tokens a ! k) \<le> output_end (asm_tokens a ! k) \<and>
        (output_begin (asm_tokens a ! k) < output_end (asm_tokens a ! k) \<longrightarrow>
           output_end (asm_tokens a ! k) \<le> ?n)"
    and src: "\<And>i. i < ?n \<Longrightarrow> src_token (asm_sources a ! i) < length (asm_tokens a)"
    and own: "\<And>i k. i < ?n \<Longrightarrow> k < length (asm_tokens a) \<Longrightarrow>
        src_token (asm_sources a ! i) = k \<longleftrightarrow>
           output_begin (asm_tokens a ! k) \<le> i \<and> i < output_end (asm_tokens a ! k)"
    using assms(1) unfolding spans_exact_def by blast+
  have k: "?k = src_token (asm_sources a ! (?n - 1))"
    using n len by (metis last_conv_nth length_0_conv less_irrefl)
  then have klen: "?k < length (asm_tokens a)" using src [of "?n - 1"] n by simp
  have "output_begin (asm_tokens a ! ?k) \<le> ?n - 1 \<and> ?n - 1 < output_end (asm_tokens a ! ?k)"
    using own [of "?n - 1" ?k] klen k n by auto
  then have kb: "output_begin (asm_tokens a ! ?k) \<le> ?n - 1" "output_end (asm_tokens a ! ?k) = ?n"
    using tok [OF klen] n by linarith+
  have others: "output_end (asm_tokens a ! j) \<le> ?n - 1"
    if "j < length (asm_tokens a)" "j \<noteq> ?k" "output_begin (asm_tokens a ! j) < output_end (asm_tokens a ! j)"
    for j
    using own [of "?n - 1" j] tok [OF that(1)] that k n by auto
  show ?thesis
    unfolding spans_exact_def
  proof (intro conjI allI impI)
    show "length (asm_sources (pop_word a)) = length (asm_words (pop_word a))"
      using len by (simp add: pop_word_def Let_def)
  next
    fix j assume "j < length (asm_tokens (pop_word a))"
    then have j: "j < length (asm_tokens a)" by (simp add: pop_word_def Let_def)
    show "span_token (asm_tokens (pop_word a) ! j) = j"
      and "output_begin (asm_tokens (pop_word a) ! j) \<le> output_end (asm_tokens (pop_word a) ! j)"
      using tok [OF j] kb klen by (auto simp: pop_word_def Let_def nth_list_update)
    assume "output_begin (asm_tokens (pop_word a) ! j) < output_end (asm_tokens (pop_word a) ! j)"
    then show "output_end (asm_tokens (pop_word a) ! j) \<le> length (asm_words (pop_word a))"
      using others [OF j] klen by (auto simp: pop_word_def Let_def nth_list_update split: if_splits)
  next
    fix i assume "i < length (asm_words (pop_word a))"
    then have i: "i < ?n - 1" by (simp add: pop_word_def Let_def)
    show "src_token (asm_sources (pop_word a) ! i) < length (asm_tokens (pop_word a))"
      using src [of i] i len by (simp add: pop_word_def Let_def nth_butlast)
    fix j assume "j < length (asm_tokens (pop_word a))"
    then have j: "j < length (asm_tokens a)" by (simp add: pop_word_def Let_def)
    show "src_token (asm_sources (pop_word a) ! i) = j \<longleftrightarrow>
        output_begin (asm_tokens (pop_word a) ! j) \<le> i \<and> i < output_end (asm_tokens (pop_word a) ! j)"
      using own [of i j] i j len kb klen
      by (cases "j = ?k") (auto simp: pop_word_def Let_def nth_butlast nth_list_update)
  qed
qed

lemma remove_pending_space_pop:
  assumes "spans_exact a"
  shows "remove_pending_space a =
    (if asm_words a \<noteq> [] \<and> last (asm_words a) = 0x20 then pop_word a else a)"
proof -
  have "src_token (last (asm_sources a)) < length (asm_tokens a)" if "asm_words a \<noteq> []"
  proof -
    have "length (asm_sources a) = length (asm_words a)"
      and "\<And>i. i < length (asm_words a) \<Longrightarrow> src_token (asm_sources a ! i) < length (asm_tokens a)"
      using assms unfolding spans_exact_def by blast+
    then show ?thesis using that by (metis diff_less last_conv_nth length_greater_0_conv zero_less_one)
  qed
  then show ?thesis by (simp add: remove_pending_space_def pop_word_def Let_def)
qed


lemma assemble_append_exact:
  assumes "spans_exact a" and "length srcs = length ws"
    and "\<forall>s \<in> set srcs. src_token s = length (asm_tokens a)"
  shows "spans_exact (a\<lparr> asm_words := asm_words a @ ws, asm_sources := asm_sources a @ srcs,
    asm_tokens := asm_tokens a @ [\<lparr> span_token = length (asm_tokens a), span_has_control = c,
      span_spacing = sp, output_begin = length (asm_words a),
      output_end = length (asm_words a @ ws), control_only = co \<rparr>] \<rparr>)"
    (is "spans_exact ?a")
proof -
  let ?n = "length (asm_words a)" and ?t = "length (asm_tokens a)"
  have len: "length (asm_sources a) = ?n"
    and tok: "\<And>k. k < ?t \<Longrightarrow> span_token (asm_tokens a ! k) = k \<and>
        output_begin (asm_tokens a ! k) \<le> output_end (asm_tokens a ! k) \<and>
        (output_begin (asm_tokens a ! k) < output_end (asm_tokens a ! k) \<longrightarrow>
           output_end (asm_tokens a ! k) \<le> ?n)"
    and src: "\<And>i. i < ?n \<Longrightarrow> src_token (asm_sources a ! i) < ?t"
    and own: "\<And>i k. i < ?n \<Longrightarrow> k < ?t \<Longrightarrow> src_token (asm_sources a ! i) = k \<longleftrightarrow>
           output_begin (asm_tokens a ! k) \<le> i \<and> i < output_end (asm_tokens a ! k)"
    using assms(1) unfolding spans_exact_def by blast+
  have new: "src_token ((asm_sources a @ srcs) ! i) = ?t" if "?n \<le> i" "i < ?n + length ws" for i
    using that assms(2,3) len by (simp add: nth_append)
  show ?thesis
    unfolding spans_exact_def
  proof (intro conjI allI impI)
    show "length (asm_sources ?a) = length (asm_words ?a)" using len assms(2) by simp
  next
    fix j assume "j < length (asm_tokens ?a)"
    then have j: "j < ?t \<or> j = ?t" by auto
    then show "span_token (asm_tokens ?a ! j) = j"
      and "output_begin (asm_tokens ?a ! j) \<le> output_end (asm_tokens ?a ! j)"
      using tok [of j] by (auto simp: nth_append)
    assume "output_begin (asm_tokens ?a ! j) < output_end (asm_tokens ?a ! j)"
    then show "output_end (asm_tokens ?a ! j) \<le> length (asm_words ?a)"
      using j tok [of j] by (auto simp: nth_append)
  next
    fix i assume "i < length (asm_words ?a)"
    then have i: "i < ?n \<or> ?n \<le> i \<and> i < ?n + length ws" by auto
    then show "src_token (asm_sources ?a ! i) < length (asm_tokens ?a)"
      using src [of i] new [of i] len by (auto simp: nth_append)
    fix j assume "j < length (asm_tokens ?a)"
    then have j: "j < ?t \<or> j = ?t" by auto
    from i j consider "i < ?n" "j < ?t" | "i < ?n" "j = ?t"
      | "?n \<le> i" "i < ?n + length ws" "j < ?t" | "?n \<le> i" "i < ?n + length ws" "j = ?t" by blast
    then show "src_token (asm_sources ?a ! i) = j \<longleftrightarrow>
        output_begin (asm_tokens ?a ! j) \<le> i \<and> i < output_end (asm_tokens ?a ! j)"
    proof cases
      case 1
      then show ?thesis using own len by (simp add: nth_append)
    next
      case 2
      then show ?thesis using src [of i] len by (simp add: nth_append)
    next
      case 3
      then show ?thesis using tok [of j] new [of i] by (auto simp: nth_append)
    next
      case 4
      then show ?thesis using new [of i] by (simp add: nth_append)
    qed
  qed
qed


subsection \<open>Where the words come from\<close>

definition token_body :: "token_words \<Rightarrow> token_words" where
  "token_body token = (if starts_with_control token then tl token else token)"

definition non_space :: "token_words \<Rightarrow> token_words" where
  "non_space ws = filter (\<lambda>w. w \<noteq> 0x20) ws"

definition word_from :: "token_words list \<Rightarrow> logical_word_source \<Rightarrow> u16 \<Rightarrow> bool" where
  "word_from toks s w \<longleftrightarrow>
     src_token s < length toks \<and>
     (case src_kind s of
        Token_word \<Rightarrow> src_word s < length (toks ! src_token s) \<and> toks ! src_token s ! src_word s = w
      | Inserted_space \<Rightarrow> src_word s = length (toks ! src_token s) \<and> w = 0x20)"

definition source_before :: "logical_word_source \<Rightarrow> logical_word_source \<Rightarrow> bool" where
  "source_before s t \<longleftrightarrow>
     src_token s < src_token t \<or> src_token s = src_token t \<and> src_word s < src_word t"

definition assembly_of :: "token_words list \<Rightarrow> nat \<Rightarrow> assembled_logical_record \<Rightarrow> bool" where
  "assembly_of toks n a \<longleftrightarrow>
     spans_exact a \<and> length (asm_tokens a) = n \<and>
     list_all2 (word_from toks) (asm_sources a) (asm_words a) \<and>
     sorted_wrt source_before (asm_sources a) \<and>
     non_space (asm_words a) = concat (map (\<lambda>t. non_space (token_body t)) (take n toks))"

lemma non_space_append [simp]: "non_space (xs @ ys) = non_space xs @ non_space ys"
  by (simp add: non_space_def)

lemma non_space_butlast: "ws \<noteq> [] \<Longrightarrow> last ws = 0x20 \<Longrightarrow> non_space (butlast ws) = non_space ws"
  by (induction ws rule: rev_induct) (simp_all add: non_space_def)

lemma list_all2_butlast: "list_all2 P xs ys \<Longrightarrow> list_all2 P (butlast xs) (butlast ys)"
  by (simp add: list_all2_conv_all_nth nth_butlast)

lemma sorted_wrt_butlast: "sorted_wrt P xs \<Longrightarrow> sorted_wrt P (butlast xs)"
  by (induction xs rule: rev_induct) (simp_all add: sorted_wrt_append)

lemma pop_word_assembly:
  assumes "assembly_of toks n a" and "asm_words a \<noteq> []" and "last (asm_words a) = 0x20"
  shows "assembly_of toks n (pop_word a)"
  using assms pop_word_exact [of a]
  by (simp add: assembly_of_def pop_word_def Let_def non_space_butlast list_all2_butlast
      sorted_wrt_butlast)

lemma remove_pending_space_assembly:
  "assembly_of toks n a \<Longrightarrow> assembly_of toks n (remove_pending_space a)"
  using remove_pending_space_pop [of a] pop_word_assembly [of toks n a]
  by (auto simp: assembly_of_def)

lemma source_tokens_bounded:
  assumes "spans_exact a" and "s \<in> set (asm_sources a)"
  shows "src_token s < length (asm_tokens a)"
  using assms unfolding spans_exact_def by (metis in_set_conv_nth)

lemma assemble_token_assembly:
  assumes a: "assembly_of toks n a" and n: "n < length toks"
    and r: "assemble_token n (toks ! n) a = (b, sp)"
  shows "assembly_of toks (n + 1) b \<and>
    (if sp = 2 then True
     else asm_words b \<noteq> [] \<and> last (asm_words b) = 0x20 \<and> src_token (last (asm_sources b)) = n)"
proof -
  let ?tok = "toks ! n"
  let ?c = "starts_with_control ?tok"
  let ?sp0 = "if ?tok = [] then 3 else hd ?tok"
  let ?eff = "if ?c then hd ?tok else 3"
  let ?ws = "if ?c then tl ?tok else ?tok"
  let ?fw = "if ?c then 1 else 0 :: nat"
  let ?attach = "?c \<and> asm_words a \<noteq> [] \<and> (?sp0 = 1 \<or> ?sp0 = 0)"
  define a1 where "a1 = (if ?attach then remove_pending_space a else a)"
  let ?sp1 = "if ?attach \<and> (?sp0 = 0 \<or> ?ws = []) then 2 else ?sp0"
  let ?sp2 = "if ?ws \<noteq> [] \<and> last ?ws = 0x20 then 2 else ?sp1"
  let ?source = "\<lambda>i kind. \<lparr> src_token = n, src_word = i, src_kind = kind,
                              src_has_control = ?c, src_spacing = ?eff \<rparr>"
  define srcs where "srcs = map (\<lambda>i. ?source (?fw + i) Token_word) [0..<length ?ws] @
                (if ?sp2 \<noteq> 2 then [?source (length ?tok) Inserted_space] else [])"
  define ws where "ws = ?ws @ (if ?sp2 \<noteq> 2 then [0x20] else [])"
  have a1: "assembly_of toks n a1" using a remove_pending_space_assembly by (simp add: a1_def)
  have b: "b = a1\<lparr> asm_words := asm_words a1 @ ws, asm_sources := asm_sources a1 @ srcs,
      asm_tokens := asm_tokens a1 @ [\<lparr> span_token = n, span_has_control = ?c, span_spacing = ?eff,
        output_begin = length (asm_words a1), output_end = length (asm_words a1 @ ws),
        control_only = ?c \<and> length ?tok = 1 \<rparr>] \<rparr>" and sp: "sp = ?sp2"
    using r [symmetric] unfolding assemble_token_def Let_def a1_def srcs_def ws_def
    by (simp_all only: prod.inject)
  have len: "length srcs = length ws" by (simp add: srcs_def ws_def)
  have tokens: "\<forall>s \<in> set srcs. src_token s = n" by (auto simp: srcs_def)
  have body: "\<forall>i < length ?ws. ?fw + i < length ?tok \<and> ?tok ! (?fw + i) = ?ws ! i"
    by (auto simp: nth_tl starts_with_control_def)
  have "list_all2 (word_from toks) (map (\<lambda>i. ?source (?fw + i) Token_word) [0..<length ?ws]) ?ws"
    using body n by (simp add: list_all2_conv_all_nth word_from_def)
  moreover have "list_all2 (word_from toks)
      (if ?sp2 \<noteq> 2 then [?source (length ?tok) Inserted_space] else [])
      (if ?sp2 \<noteq> 2 then [0x20] else [])"
    using n by (simp add: word_from_def)
  ultimately have "list_all2 (word_from toks) srcs ws"
    unfolding srcs_def ws_def by (rule list_all2_appendI)
  moreover have "sorted_wrt source_before (map (\<lambda>i. ?source (?fw + i) Token_word) [0..<length ?ws])"
    by (simp add: sorted_wrt_map source_before_def)
  then have "sorted_wrt source_before srcs"
    unfolding srcs_def sorted_wrt_append using body by (auto simp: source_before_def)
  moreover have "source_before s t" if "s \<in> set (asm_sources a1)" "t \<in> set srcs" for s t
    using source_tokens_bounded [OF _ that(1)] a1 tokens that(2)
    by (auto simp: assembly_of_def source_before_def)
  moreover have "non_space ws = non_space (token_body ?tok)"
    by (simp add: ws_def token_body_def) (simp add: non_space_def)
  moreover have "take (n + 1) toks = take n toks @ [?tok]"
    using n by (simp add: take_Suc_conv_app_nth)
  moreover have "spans_exact b"
    unfolding b using assemble_append_exact [of a1 srcs ws ?c ?eff "?c \<and> length ?tok = 1"] a1 len tokens
    by (simp add: assembly_of_def)
  ultimately have "assembly_of toks (n + 1) b"
    using a1 by (simp add: assembly_of_def b list_all2_appendI sorted_wrt_append)
  moreover have "if sp = 2 then True
     else asm_words b \<noteq> [] \<and> last (asm_words b) = 0x20 \<and> src_token (last (asm_sources b)) = n"
    using sp by (simp add: b ws_def srcs_def)
  ultimately show ?thesis by simp
qed


definition ends_in_space :: "nat \<Rightarrow> assembled_logical_record \<times> u16 \<Rightarrow> bool" where
  "ends_in_space n s \<longleftrightarrow>
     (if snd s = 2 then True
      else asm_words (fst s) \<noteq> [] \<and> last (asm_words (fst s)) = 0x20 \<and>
           src_token (last (asm_sources (fst s))) + 1 = n)"

lemma assemble_tokens_assembly:
  "assembly_of toks n a \<Longrightarrow> n \<le> length toks \<Longrightarrow> ends_in_space n (a, sp) \<Longrightarrow>
   assembly_of toks (length toks) (fst (assemble_tokens n (drop n toks) (a, sp))) \<and>
   ends_in_space (length toks) (assemble_tokens n (drop n toks) (a, sp))"
proof (induction "drop n toks" arbitrary: n a sp)
  case Nil
  then show ?case by simp
next
  case (Cons t rest)
  then have n: "n < length toks" by (metis drop_all list.distinct(1) not_less)
  then have d: "drop n toks = toks ! n # drop (n + 1) toks" by (simp add: Cons_nth_drop_Suc)
  obtain b sp' where b: "assemble_token n (toks ! n) a = (b, sp')" by fastforce
  note step = assemble_token_assembly [OF Cons.prems(1) n b]
  have "assembly_of toks (length toks) (fst (assemble_tokens (n + 1) (drop (n + 1) toks) (b, sp'))) \<and>
      ends_in_space (length toks) (assemble_tokens (n + 1) (drop (n + 1) toks) (b, sp'))"
  proof (rule Cons.hyps(1))
    show "rest = drop (n + 1) toks" using Cons.hyps(2) d by simp
    show "ends_in_space (n + 1) (b, sp')" using step by (simp add: ends_in_space_def)
  qed (use step n in simp_all)
  then show ?case by (simp add: d b)
qed

lemma drop_last_space_assembly:
  assumes "assembly_of toks (length toks) (fst s)" and "ends_in_space (length toks) s"
  shows "assembly_of toks (length toks) (drop_last_space s)"
proof (cases "length (asm_words (fst s)) > 1 \<and> snd s \<noteq> 2")
  case False
  then have "drop_last_space s = fst s" by (cases s) (auto simp: drop_last_space_def)
  then show ?thesis using assms(1) by simp
next
  case True
  obtain a sp where s: "s = (a, sp)" by fastforce
  have "length (asm_tokens a) = src_token (last (asm_sources a)) + 1"
    using assms True by (simp add: assembly_of_def ends_in_space_def s)
  then have "asm_tokens a \<noteq> []" "length (asm_tokens a) - 1 = src_token (last (asm_sources a))"
    by auto
  then have "drop_last_space s = pop_word (fst s)"
    using True unfolding s drop_last_space_def pop_word_def Let_def by simp
  then show ?thesis
    using pop_word_assembly [OF assms(1)] True assms(2) by (simp add: ends_in_space_def)
qed

lemma upper_ascii_space [simp]: "map_token_word_to_upper_ascii w = 0x20 \<longleftrightarrow> w = 0x20"
proof (cases "w \<ge> 0x61 \<and> w \<le> 0x7A")
  case True
  then have "unat (w - 32) = unat w - 32" and "0x61 \<le> unat w"
    by (auto simp: word_le_nat_alt unat_sub_if_size)
  then have "unat (w - 32) \<noteq> unat (0x20 :: u16)" by simp
  then have "w - 32 \<noteq> 0x20" by metis
  moreover have "w \<noteq> 0x20" using True by auto
  ultimately show ?thesis using True by (simp add: map_token_word_to_upper_ascii_def)
next
  case False
  then show ?thesis by (auto simp: map_token_word_to_upper_ascii_def)
qed

lemma upper_ascii_idem [simp]:
  "map_token_word_to_upper_ascii (map_token_word_to_upper_ascii w) = map_token_word_to_upper_ascii w"
proof (cases "w \<ge> 0x61 \<and> w \<le> 0x7A")
  case True
  then have "unat (w - 32) = unat w - 32" and "0x61 \<le> unat w" "unat w \<le> 0x7A"
    by (auto simp: word_le_nat_alt unat_sub_if_size)
  then have "\<not> w - 32 \<ge> 0x61" by (simp add: word_le_nat_alt)
  then show ?thesis using True by (simp add: map_token_word_to_upper_ascii_def)
next
  case False
  then show ?thesis by (auto simp: map_token_word_to_upper_ascii_def)
qed

lemma upper_record_head_upper:
  "map map_token_word_to_upper_ascii (upper_record_head ws) = map map_token_word_to_upper_ascii ws"
proof -
  have "map map_token_word_to_upper_ascii (upper_until_break ws) = map map_token_word_to_upper_ascii ws"
    by (induction ws) auto
  then show ?thesis by (simp add: upper_record_head_def)
qed

lemma length_upper_record_head [simp]: "length (upper_record_head ws) = length ws"
  using upper_record_head_upper [of ws] by (metis length_map)

lemma non_space_upper:
  "map map_token_word_to_upper_ascii (non_space ws) =
     filter (\<lambda>w. w \<noteq> 0x20) (map map_token_word_to_upper_ascii ws)"
  by (simp add: non_space_def filter_map o_def)

text \<open>What the assembled record keeps of its tokens.\<close>

lemma assembled_record:
  fixes toks :: "token_words list"
  defines "a \<equiv> assemble_logical_record_with_sources toks"
  shows "spans_exact a" and "length (asm_tokens a) = length toks"
    and "length (asm_sources a) = length (asm_words a)"
    and "sorted_wrt source_before (asm_sources a)"
    and "list_all2 (\<lambda>s w. \<exists>w'. word_from toks s w' \<and>
           map_token_word_to_upper_ascii w' = map_token_word_to_upper_ascii w)
         (asm_sources a) (asm_words a)"
    and "map map_token_word_to_upper_ascii (non_space (asm_words a)) =
           map map_token_word_to_upper_ascii (concat (map (\<lambda>t. non_space (token_body t)) toks))"
    and "word_offsets a = projection_offsets 0 (asm_words a)"
proof -
  let ?z = "\<lparr> asm_words = [], asm_sources = [], asm_tokens = [], word_offsets = [] \<rparr>"
  define b where "b = drop_last_space (assemble_tokens 0 toks (?z, 2))"
  have "assembly_of toks 0 ?z"
    by (simp add: assembly_of_def spans_exact_def non_space_def)
  then have "assembly_of toks (length toks) b"
    unfolding b_def
    using assemble_tokens_assembly [of toks 0 ?z 2] drop_last_space_assembly
    by (simp add: ends_in_space_def [of 0])
  then have b: "spans_exact b" "length (asm_tokens b) = length toks"
      "list_all2 (word_from toks) (asm_sources b) (asm_words b)"
      "sorted_wrt source_before (asm_sources b)"
      "non_space (asm_words b) = concat (map (\<lambda>t. non_space (token_body t)) toks)"
    by (simp_all add: assembly_of_def)
  have a: "a = b\<lparr> asm_words := upper_record_head (asm_words b),
      word_offsets := projection_offsets 0 (upper_record_head (asm_words b)) \<rparr>"
    by (simp add: a_def assemble_logical_record_with_sources_def Let_def b_def)
  have "spans_exact a = spans_exact b" by (simp add: spans_exact_def a)
  then show "spans_exact a" using b(1) by simp
  show "length (asm_tokens a) = length toks" using b(2) by (simp add: a)
  show "length (asm_sources a) = length (asm_words a)"
    using b(1) by (simp add: spans_exact_def a)
  show "sorted_wrt source_before (asm_sources a)" using b(4) by (simp add: a)
  show "word_offsets a = projection_offsets 0 (asm_words a)" by (simp add: a)
  have "map_token_word_to_upper_ascii (asm_words b ! i) =
      map_token_word_to_upper_ascii (asm_words a ! i)" if "i < length (asm_words b)" for i
    using that upper_record_head_upper [of "asm_words b"] unfolding a
    by (metis assembled_logical_record.ext_inject assembled_logical_record.surjective
        assembled_logical_record.update_convs(1) assembled_logical_record.update_convs(4)
        length_upper_record_head nth_map)
  then show "list_all2 (\<lambda>s w. \<exists>w'. word_from toks s w' \<and>
       map_token_word_to_upper_ascii w' = map_token_word_to_upper_ascii w)
       (asm_sources a) (asm_words a)"
    using b(3) unfolding list_all2_conv_all_nth
    by (metis (no_types, lifting) a assembled_logical_record.select_convs(1,2)
        assembled_logical_record.surjective assembled_logical_record.update_convs(1,4)
        length_upper_record_head)
  have "map map_token_word_to_upper_ascii (non_space (asm_words a)) =
      map map_token_word_to_upper_ascii (non_space (asm_words b))"
    unfolding non_space_upper by (simp add: a upper_record_head_upper)
  then show "map map_token_word_to_upper_ascii (non_space (asm_words a)) =
      map map_token_word_to_upper_ascii (concat (map (\<lambda>t. non_space (token_body t)) toks))"
    unfolding b(5) .
qed


subsection \<open>Byte and word ranges\<close>

text \<open>The maps between byte and word ranges rest only on the offsets being strictly increasing from 0.\<close>

locale offset_table =
  fixes offsets :: "nat list"
  assumes starts_at_zero: "offsets \<noteq> [] \<and> hd offsets = 0"
    and increasing: "sorted_wrt (<) offsets"
begin

lemma mono: "i < j \<Longrightarrow> j < length offsets \<Longrightarrow> offsets ! i < offsets ! j"
  using increasing by (simp add: sorted_wrt_iff_nth_less)

lemma nth_tl_offsets: "i < length (tl offsets) \<Longrightarrow> tl offsets ! i = offsets ! (i + 1)"
  by (simp add: nth_tl)

lemma tl_mono: "i \<le> k \<Longrightarrow> k < length (tl offsets) \<Longrightarrow> tl offsets ! i \<le> tl offsets ! k"
  using mono [of "i + 1" "k + 1"] nth_tl_offsets [of i] nth_tl_offsets [of k]
  by (cases "i = k") (auto simp: less_diff_conv)

lemma end_of_word:
  assumes "0 < j" and "j < length offsets"
  shows "bound_index (\<lambda>offset. offset < offsets ! j) (tl offsets) = j - 1"
proof -
  let ?p = "\<lambda>offset. offset < offsets ! j"
  have pre: "passes_first ?p (tl offsets)"
    unfolding passes_first_def
  proof (intro allI impI)
    fix i k assume "i \<le> k \<and> k < length (tl offsets) \<and> ?p (tl offsets ! k)"
    then show "?p (tl offsets ! i)" using tl_mono [of i k] by linarith
  qed
  note spec = bound_index_spec [OF pre]
  have len: "j - 1 < length (tl offsets)" using assms by simp
  have "\<not> ?p (tl offsets ! (j - 1))" using nth_tl_offsets [OF len] assms(1) by simp
  then have "bound_index ?p (tl offsets) \<le> j - 1" using spec(2) [of "j - 1"] by (metis leI)
  moreover have "\<not> bound_index ?p (tl offsets) < j - 1"
  proof
    assume less: "bound_index ?p (tl offsets) < j - 1"
    then have "\<not> ?p (tl offsets ! bound_index ?p (tl offsets))" using spec(3) len by simp
    then show False
      using less nth_tl_offsets [of "bound_index ?p (tl offsets)"] len
        mono [of "bound_index ?p (tl offsets) + 1" j] assms(2) by (simp add: less_diff_conv)
  qed
  ultimately show ?thesis by simp
qed

lemma start_of_word:
  assumes "i + 1 < length offsets"
  shows "bound_index (\<lambda>offset. \<not> offsets ! i < offset) (tl offsets) = i"
proof -
  let ?p = "\<lambda>offset. \<not> offsets ! i < offset"
  have pre: "passes_first ?p (tl offsets)"
    unfolding passes_first_def
  proof (intro allI impI)
    fix j k assume jk: "j \<le> k \<and> k < length (tl offsets) \<and> ?p (tl offsets ! k)"
    then show "?p (tl offsets ! j)" using tl_mono [of j k] by linarith
  qed
  note spec = bound_index_spec [OF pre]
  have len: "i < length (tl offsets)" using assms by simp
  have "\<not> ?p (tl offsets ! i)" using nth_tl_offsets [OF len] mono [of i "i + 1"] assms by simp
  then have "bound_index ?p (tl offsets) \<le> i" using spec(2) [of i] by (metis leI)
  moreover have "\<not> bound_index ?p (tl offsets) < i"
  proof
    assume less: "bound_index ?p (tl offsets) < i"
    then have "\<not> ?p (tl offsets ! bound_index ?p (tl offsets))" using spec(3) len by simp
    then show False
      using less nth_tl_offsets [of "bound_index ?p (tl offsets)"] len assms
        mono [of "bound_index ?p (tl offsets) + 1" i]
      by (cases "bound_index ?p (tl offsets) + 1 = i") auto
  qed
  ultimately show ?thesis by simp
qed

end

lemma projection_offsets_sorted:
  "sorted_wrt (<) (projection_offsets at ws) \<and> (\<forall>x \<in> set (projection_offsets at ws). at \<le> x)"
proof (induction ws arbitrary: at)
  case Nil
  then show ?case by simp
next
  case (Cons w ws)
  then show ?case using token_word_ascii_width_pos [of w] by fastforce
qed

interpretation record_offsets: offset_table "projection_offsets 0 ws" for ws
  by unfold_locales (cases ws, auto simp: projection_offsets_sorted)

lemma word_byte_word_range:
  assumes "i < j" and "j \<le> length (asm_words a)"
    and offs: "word_offsets a = projection_offsets 0 (asm_words a)"
  shows "decoded_byte_range_to_word_range a (decoded_word_range_to_byte_range a (i, j)) = (i, j)"
proof -
  let ?o = "projection_offsets 0 (asm_words a)"
  have len: "length ?o = length (asm_words a) + 1" by simp
  have "?o ! i < ?o ! j" using record_offsets.mono [of i j] assms by simp
  moreover have "j - 1 \<noteq> length (asm_words a)" using assms by linarith
  ultimately show ?thesis
    using record_offsets.start_of_word [of i "asm_words a"]
      record_offsets.end_of_word [of j "asm_words a"] assms
    by (simp add: decoded_byte_range_to_word_range_def decoded_word_range_to_byte_range_def
        word_range_for_bytes_def Let_def offs min_absorb1)
qed


subsection \<open>Properties\<close>

text \<open>C25: Assembly loses and reorders nothing but blanks: up to the upper-casing of the record's first word,
  the words of the record that are not blank are the tokens' words that are not blank, in order and
  without their spacing controls.\<close>

theorem assembly_keeps_words:
  "map map_token_word_to_upper_ascii (non_space (assemble_logical_record toks)) =
   map map_token_word_to_upper_ascii (concat (map (\<lambda>t. non_space (token_body t)) toks))"
  using assembled_record(6) by (simp add: assemble_logical_record_def)

text \<open>C26: The source map of a record is faithful: each output word has one source, the sources follow the
  order of the tokens and of the words in them without repetition, a source of kind token word names
  the word that stands there, up to upper case, and an inserted blank is a blank.\<close>

theorem assembly_sources_faithful:
  "let a = assemble_logical_record_with_sources toks
   in sorted_wrt source_before (asm_sources a) \<and>
      list_all2 (\<lambda>s w. \<exists>w'. word_from toks s w' \<and>
           map_token_word_to_upper_ascii w' = map_token_word_to_upper_ascii w)
        (asm_sources a) (asm_words a)"
  using assembled_record(4,5) by (simp add: Let_def)

text \<open>C27: The spans of the tokens are exact: an output word comes from a token just when it lies in the
  token's span, also after blanks were taken back from earlier tokens.\<close>

theorem assembly_spans_exact:
  "let a = assemble_logical_record_with_sources toks
   in length (asm_tokens a) = length toks \<and>
      list_all (\<lambda>i. list_all (\<lambda>k.
          (src_token (asm_sources a ! i) = k) =
          (output_begin (asm_tokens a ! k) \<le> i \<and> i < output_end (asm_tokens a ! k)))
        [0..<length toks]) [0..<length (asm_words a)]"
  using assembled_record(1,2) [of toks]
  by (simp add: Let_def spans_exact_def list_all_iff)

text \<open>The word offsets are those of the projected string, and a range of words is found again from the
  range of bytes it projects to.\<close>

lemma word_ranges_round_trip:
  assumes "i < j" and "j \<le> length (assemble_logical_record toks)"
  shows "let a = assemble_logical_record_with_sources toks
         in decoded_byte_range_to_word_range a (decoded_word_range_to_byte_range a (i, j)) = (i, j) \<and>
            decoded_word_range_to_byte_range a (i, j) =
              (length (token_words_to_ascii (take i (asm_words a))),
               length (token_words_to_ascii (take j (asm_words a))))"
  using word_byte_word_range [OF assms(1) _ assembled_record(7), of toks] assms
  by (simp add: Let_def assemble_logical_record_def decoded_word_range_to_byte_range_def
      assembled_record(7) projection_offsets_nth)

lemma takeWhile_drop_filter:
  assumes "sorted_wrt (\<lambda>s t. f s \<le> (f t :: nat)) xs"
  shows "filter (\<lambda>t. f t < e \<and> q t) xs = filter (\<lambda>t. f t < e \<and> q t) (takeWhile (\<lambda>t. \<not> e \<le> f t) xs)"
  using assms
proof (induction xs)
  case Nil
  then show ?case by simp
next
  case (Cons x xs)
  show ?case
  proof (cases "e \<le> f x")
    case True
    then have "\<forall>y \<in> set (x # xs). e \<le> f y" using Cons.prems by fastforce
    then show ?thesis using True by (auto simp: filter_empty_conv)
  next
    case False
    then show ?thesis using Cons by simp
  qed
qed

text \<open>On spans in order, looking up the tokens of an output range returns exactly the tokens whose
  spans meet it, in order.\<close>

lemma source_tokens_complete:
  assumes "sorted_wrt (\<lambda>s t. output_begin s \<le> output_begin t) (asm_tokens a)"
    and "sorted_wrt (\<lambda>s t. output_end s \<le> output_end t) (asm_tokens a)"
    and "out_begin < out_end" and "out_end \<le> length (asm_words a)"
  shows "source_tokens_intersecting_output a out_begin out_end =
    map span_token
      (filter (\<lambda>t. output_spans_intersect out_begin out_end (output_begin t) (output_end t))
        (asm_tokens a))"
proof -
  let ?p = "\<lambda>t. output_end t \<le> out_begin"
  let ?q = "\<lambda>t. output_spans_intersect out_begin out_end (output_begin t) (output_end t)"
  let ?n = "bound_index ?p (asm_tokens a)"
  have "passes_first ?p (asm_tokens a)"
    unfolding passes_first_def
    using assms(2) by (auto simp: sorted_wrt_iff_nth_less) (metis le_trans nat_less_le)
  note spec = bound_index_spec [OF this]
  have "filter ?q (take ?n (asm_tokens a)) = []"
    using spec(1,2) by (auto simp: filter_empty_conv in_set_conv_nth output_spans_intersect_def not_less)
  then have "filter ?q (asm_tokens a) = filter ?q (drop ?n (asm_tokens a))"
    by (metis append_Nil append_take_drop_id filter_append)
  also have "\<dots> = filter ?q (takeWhile (\<lambda>t. \<not> out_end \<le> output_begin t) (drop ?n (asm_tokens a)))"
    using takeWhile_drop_filter [of output_begin "drop ?n (asm_tokens a)" out_end
        "\<lambda>t. out_begin < output_end t"] sorted_wrt_drop [OF assms(1)]
    by (simp add: output_spans_intersect_def conj_commute)
  finally show ?thesis
    using assms(3,4) by (simp add: source_tokens_intersecting_output_def Let_def min_absorb1)
qed

text \<open>The spans of an assembled record are not always in order: a token of a lone spacing control that
  is followed by an attaching token keeps a span behind the blank the latter takes back, and the
  lookup then stops at it and misses the token the output word comes from.\<close>

lemma source_tokens_missed:
  "let a = assemble_logical_record_with_sources [[0x41], [2], [1, 0x42]]
   in asm_words a = [0x41, 0x42] \<and> src_token (asm_sources a ! 1) = 2 \<and>
      source_tokens_intersecting_output a 1 2 = []"
  by code_simp

end
