(* ===== verification/Slices.thy ===== *)
theory Slices
  imports Framing
begin

section \<open>Provenance slices (\<open>src/container/source_slice_text.cpp\<close>)\<close>

text \<open>
  The text a provenance slice stands for, read in two ways: from the file again, with no record context,
  and from the tokens of a decoded record. An optional result with an error message is a sum. A slice's
  token count is a difference of 64-bit numbers and wraps as in the code.
\<close>

record source_slice =
  slice_logical_record :: u32
  segment_index :: u64
  token_begin :: u64
  slice_token_end :: u64
  byte_begin :: u32
  byte_end :: u32
  character_begin :: u32
  character_end :: u32

definition slice_is_partial :: "source_slice \<Rightarrow> bool" where
  "slice_is_partial s \<longleftrightarrow> character_end s \<noteq> 0"

definition token_text :: "logical_token_ir \<Rightarrow> string" where
  "token_text t =
     token_words_to_ascii (drop (if has_spacing_control t then 1 else 0) (decoded_words t))"

text \<open>The checks both functions end with, on the number of tokens and their text.\<close>

definition slice_text :: "source_slice \<Rightarrow> nat \<Rightarrow> string \<Rightarrow> string + string" where
  "slice_text s count body =
     (let expected = slice_token_end s - token_begin s in
      if expected \<noteq> 0 \<and> of_nat count \<noteq> expected
      then Inl ''source slice byte range holds a different token count''
      else if \<not> slice_is_partial s then Inr body
      else if character_begin s \<ge> character_end s \<or> unat (character_end s) > length body
      then Inl ''sub-token character range is outside the decoded word''
      else Inr (take (unat (character_end s - character_begin s)) (drop (unat (character_begin s)) body)))"

definition decode_source_slice_text ::
  "bytes \<Rightarrow> boo_directory \<Rightarrow> dictionary \<Rightarrow> source_slice \<Rightarrow> string + string" where
  "decode_source_slice_text bs dir ts s =
     (if byte_begin s > byte_end s then Inl ''source slice has a reversed byte range''
      else case decode_source_byte_range_tokens bs dir ts (unat (byte_begin s)) (unat (byte_end s)) of
             None \<Rightarrow> Inl ''source slice bytes do not tile into whole tokens''
           | Some toks \<Rightarrow> slice_text s (length toks) (concat (map token_text toks)))"

fun project_slice_tokens ::
  "source_slice \<Rightarrow> logical_token_ir list \<Rightarrow> nat \<Rightarrow> nat \<Rightarrow> string \<Rightarrow> string + (nat \<times> nat \<times> string)" where
  "project_slice_tokens s [] cursor count body = Inr (cursor, count, body)"
| "project_slice_tokens s (t # toks) cursor count body =
     (if fst (byte_range t) < unat (byte_begin s) \<or> snd (byte_range t) > unat (byte_end s)
      then project_slice_tokens s toks cursor count body
      else if fst (byte_range t) \<noteq> cursor
      then Inl ''source slice byte range does not tile into whole tokens''
      else project_slice_tokens s toks (snd (byte_range t)) (count + 1) (body @ token_text t))"

definition project_source_slice_text :: "logical_record_ir \<Rightarrow> source_slice \<Rightarrow> string + string" where
  "project_source_slice_text r s =
     (if byte_begin s > byte_end s then Inl ''source slice has a reversed byte range''
      else and_then (project_slice_tokens s (tokens r) (unat (byte_begin s)) 0 []) (\<lambda>(cursor, count, body).
      if cursor \<noteq> unat (byte_end s)
      then Inl ''source slice byte range does not tile into whole tokens''
      else slice_text s count body))"

subsection \<open>The tokens a slice selects\<close>

definition in_window :: "source_slice \<Rightarrow> logical_token_ir \<Rightarrow> bool" where
  "in_window s t \<longleftrightarrow>
     unat (byte_begin s) \<le> fst (byte_range t) \<and> snd (byte_range t) \<le> unat (byte_end s)"

fun contiguous :: "nat \<Rightarrow> logical_token_ir list \<Rightarrow> nat \<Rightarrow> bool" where
  "contiguous b [] e \<longleftrightarrow> b = e"
| "contiguous b (t # toks) e \<longleftrightarrow> fst (byte_range t) = b \<and> contiguous (snd (byte_range t)) toks e"

lemma project_slice_tokens_Inr:
  "project_slice_tokens s toks cursor count body = Inr (cursor', count', body') \<longleftrightarrow>
   contiguous cursor (filter (in_window s) toks) cursor' \<and>
   count' = count + length (filter (in_window s) toks) \<and>
   body' = body @ concat (map token_text (filter (in_window s) toks))"
  by (induction toks arbitrary: cursor count body) (auto simp: in_window_def not_less)

text \<open>A token the file's bytes delimit on their own: two bytes, or one byte that does not start a wide
  token or ends the window.\<close>

definition self_delimiting :: "bytes \<Rightarrow> boo_directory \<Rightarrow> nat \<Rightarrow> logical_token_ir \<Rightarrow> bool" where
  "self_delimiting bs dir window_end t \<longleftrightarrow>
     enc_width (encoded t) = 2 \<or> byte_at bs (fst (byte_range t)) < token_threshold dir \<or>
     snd (byte_range t) = window_end"

abbreviation wide_at :: "bytes \<Rightarrow> boo_directory \<Rightarrow> nat \<Rightarrow> nat \<Rightarrow> bool" where
  "wide_at bs dir b limit \<equiv> byte_at bs b \<ge> token_threshold dir \<and> b + 1 < limit"

lemma decoded_token_text:
  "wide_at bs dir b l = wide_at bs dir b l' \<Longrightarrow>
   token_text (fst (decode_one_token bs dir ts b l i)) = token_text (fst (decode_one_token bs dir ts b l' j))"
  by (auto simp: decode_one_token_def Let_def token_text_def)

lemma decoded_token_range:
  "snd (byte_range (fst (decode_one_token bs dir ts b l i))) = (if wide_at bs dir b l then b + 2 else b + 1)"
  "snd (decode_one_token bs dir ts b l i) = (if wide_at bs dir b l then b + 2 else b + 1)"
  "enc_width (encoded (fst (decode_one_token bs dir ts b l i))) = (if wide_at bs dir b l then 2 else 1)"
  by (simp_all add: decode_one_token_def Let_def)

lemma read_at_again:
  assumes "read_at bs dir ts limit t" and "self_delimiting bs dir window_end t"
    and "snd (byte_range t) \<le> window_end"
    and "decode_one_token bs dir ts (fst (byte_range t)) window_end index = (t', c)"
  shows "token_text t' = token_text t \<and> c = snd (byte_range t) \<and>
    fst (byte_range t) < snd (byte_range t)"
proof -
  let ?b = "fst (byte_range t)"
  let ?t = "fst (decode_one_token bs dir ts ?b limit (token_index t))"
  have t: "?t = t" using assms(1) unfolding read_at_def by (rule sym)
  have end_t: "snd (byte_range t) = (if wide_at bs dir ?b limit then ?b + 2 else ?b + 1)"
    using decoded_token_range(1) [of bs dir ts ?b limit "token_index t"] unfolding t .
  have width_t: "enc_width (encoded t) = (if wide_at bs dir ?b limit then 2 else 1)"
    using decoded_token_range(3) [of bs dir ts ?b limit "token_index t"] unfolding t .
  have same: "wide_at bs dir ?b window_end = wide_at bs dir ?b limit"
    using assms(2,3) end_t width_t unfolding self_delimiting_def
    by (cases "wide_at bs dir ?b limit") (simp_all add: not_less, auto)
  have "t' = fst (decode_one_token bs dir ts ?b window_end index)" using assms(4) by simp
  moreover note decoded_token_text [OF same, of ts index "token_index t", unfolded t]
  moreover have "c = (if wide_at bs dir ?b window_end then ?b + 2 else ?b + 1)"
    using decoded_token_range(2) [of bs dir ts ?b window_end index] unfolding assms(4) by simp
  ultimately show ?thesis unfolding same end_t by simp
qed

lemma walk_again:
  "contiguous b toks e \<Longrightarrow> list_all (\<lambda>t. \<exists>limit. read_at bs dir ts limit t) toks \<Longrightarrow>
   list_all (self_delimiting bs dir e) toks \<Longrightarrow> list_all (\<lambda>t. snd (byte_range t) \<le> e) toks \<Longrightarrow>
   \<exists>toks'. walk_tokens bs dir ts e b e index = (toks', e) \<and> map token_text toks' = map token_text toks"
proof (induction toks arbitrary: b index)
  case Nil
  then show ?case by (subst walk_tokens.simps) simp
next
  case (Cons t toks)
  obtain limit where limit: "read_at bs dir ts limit t" using Cons.prems(2) by auto
  have b: "fst (byte_range t) = b" using Cons.prems(1) by simp
  obtain t' c where t': "decode_one_token bs dir ts b e index = (t', c)" by fastforce
  note again = read_at_again [OF limit _ _ t' [folded b]]
  have a: "token_text t' = token_text t" "c = snd (byte_range t)" "b < snd (byte_range t)"
    using again Cons.prems(3,4) b by auto
  obtain toks' where "walk_tokens bs dir ts e c e (index + 1) = (toks', e)"
    "map token_text toks' = map token_text toks"
    using Cons.IH [of c "index + 1"] Cons.prems a(2) by auto
  moreover have "b < e" using a(2,3) Cons.prems(4) by auto
  ultimately show ?case using t' a(1) by (subst walk_tokens.simps) simp
qed

lemma token_text_unframe [simp]: "token_text (unframe t) = token_text t"
  by (simp add: token_text_def unframe_def)

lemma map_unframe_filter:
  "map unframe (filter (in_window s) toks) = filter (in_window s) (map unframe toks)"
  by (induction toks) (auto simp: in_window_def unframe_def)

lemma contiguous_unframe [simp]: "contiguous b (map unframe toks) e = contiguous b toks e"
  by (induction toks arbitrary: b) (auto simp: unframe_def)

subsection \<open>Both readings agree\<close>

text \<open>What a slice stands for in a decoded record is what its bytes decode to when they are read from
  the file again without the record, provided every selected token is delimited by its own bytes; only a
  display line's length byte at or above the token threshold is not.\<close>

lemma slice_projection_is_decoding:
  assumes "payload_begin \<le> payload_end" and "payload_end \<le> length bs"
    and "unat (byte_end s) \<le> length bs"
    and "r = decode_record_payload_ir bs dir ts payload_begin payload_end record_number"
    and "project_source_slice_text r s = Inr body"
    and "list_all (self_delimiting bs dir (unat (byte_end s))) (filter (in_window s) (tokens r))"
  shows "decode_source_slice_text bs dir ts s = Inr body"
proof -
  let ?b = "unat (byte_begin s)" and ?e = "unat (byte_end s)"
  let ?sel = "filter (in_window s) (tokens r)"
  have order: "\<not> byte_begin s > byte_end s"
    using assms(5) by (auto simp: project_source_slice_text_def split: if_splits)
  then obtain cursor count body0 where p: "project_slice_tokens s (tokens r) ?b 0 [] = Inr (cursor, count, body0)"
    and c: "cursor = ?e" and st: "slice_text s count body0 = Inr body"
    using assms(5) by (auto simp: project_source_slice_text_def and_then_eq_Inr split: if_splits)
  have sel: "contiguous ?b ?sel ?e" "count = length ?sel" "body0 = concat (map token_text ?sel)"
    using p c by (auto simp: project_slice_tokens_Inr)
  let ?plain = "map unframe ?sel"
  have plain: "?plain = filter (in_window s) (payload_tokens bs dir ts payload_begin payload_end)"
    unfolding map_unframe_filter assms(4) using decoded_tokens_unframed [OF assms(1)] by simp
  have read: "list_all (\<lambda>t. \<exists>limit. read_at bs dir ts limit t) ?plain"
    unfolding plain using payload_tokens_read_at [of bs dir ts payload_begin payload_end]
    by (auto simp: list_all_iff)
  have "list_all (self_delimiting bs dir ?e) ?plain"
    using assms(6) by (auto simp: list_all_iff self_delimiting_def unframe_def)
  moreover have "list_all (\<lambda>t. snd (byte_range t) \<le> ?e) ?plain"
    by (auto simp: list_all_iff in_window_def unframe_def)
  ultimately obtain toks' where w: "walk_tokens bs dir ts ?e ?b ?e 0 = (toks', ?e)"
    "map token_text toks' = map token_text ?plain"
    using walk_again [OF _ read, of ?b ?e 0] sel(1) by auto
  have texts: "map token_text toks' = map token_text ?sel" using w(2) by simp
  then have "length toks' = count" using sel(2) by (metis length_map)
  moreover have "decode_source_byte_range_tokens bs dir ts ?b ?e = Some toks'"
    using w(1) order assms(3) by (simp add: decode_source_byte_range_tokens_def word_less_nat_alt)
  ultimately show ?thesis
    using order st texts sel(3) by (simp add: decode_source_slice_text_def)
qed

definition example_slice :: source_slice where
  "example_slice =
     \<lparr> slice_logical_record = 1, segment_index = 0, token_begin = 1, slice_token_end = 3, byte_begin = 1,
       byte_end = 5, character_begin = 1, character_end = 3 \<rparr>"

definition example_words :: dictionary where
  "example_words = [(0xC005, [2, 0x41]), (0xC007, [0x42, 0x43])]"

end
