(* ===== verification/Scan.thy ===== *)
theory Scan
  imports Strings
begin

section \<open>Scanning a decoded record (\<open>src/container/decoded_record_scan.cpp\<close>)\<close>

text \<open>
  String-level scans of a decoded logical record: topic header ids, control values, the controls a
  position may open, decoder placeholders, markup segments and the operands of font controls. A
  \<open>std::istringstream\<close> is the string it has left to read; \<open>std::string::npos\<close> is \<open>None\<close>. What the
  file derives from a record's typed source (\<open>trace_font_spans\<close>, \<open>trace_decoded_records\<close>) is not here.
\<close>

subsection \<open>Reading numbers and words from a stream\<close>

definition digits_value :: "string \<Rightarrow> nat" where
  "digits_value ds = foldl (\<lambda>a d. a * 10 + (char_code d - 0x30)) 0 ds"

text \<open>\<open>input >> number\<close> for a 32-bit unsigned number: white space, a sign, decimal digits; a negative
  number wraps, one that does not fit fails.\<close>

definition stream_read_u32 :: "string \<Rightarrow> (u32 \<times> string) option" where
  "stream_read_u32 input =
     (let s = dropWhile isspace input;
          signed = s \<noteq> [] \<and> (hd s = CHR ''-'' \<or> hd s = CHR ''+'');
          negative = signed \<and> hd s = CHR ''-'';
          rest = (if signed then tl s else s);
          ds = takeWhile isdigit rest;
          n = digits_value ds
      in if ds = [] \<or> n > 0xFFFFFFFF then None
         else Some (if negative then - of_nat n else of_nat n, drop (length ds) rest))"

definition stream_read_word :: "string \<Rightarrow> (string \<times> string) option" where
  "stream_read_word input =
     (let s = dropWhile isspace input; word = takeWhile (\<lambda>c. \<not> isspace c) s
      in if word = [] then None else Some (word, drop (length word) s))"

definition stream_getline :: "string \<Rightarrow> string" where
  "stream_getline input = takeWhile (\<lambda>c. c \<noteq> CHR 0x0A) input"

subsection \<open>Topic headers and control values\<close>

definition is_separator :: "char \<Rightarrow> bool" where
  "is_separator c \<longleftrightarrow> isspace c \<or> char_code c < 0x20 \<or> c = CHR ''?'' \<or> c = CHR '',''"

definition skip_decoded_separators :: "string \<Rightarrow> nat" where
  "skip_decoded_separators s = length (takeWhile is_separator s)"

definition is_topic_id_char :: "char \<Rightarrow> bool" where
  "is_topic_id_char ch \<longleftrightarrow> isalnum ch \<or> ch = CHR ''.'' \<or> ch = CHR ''_'' \<or> ch = CHR ''-''"

definition extract_topic_header_id :: "string \<Rightarrow> string" where
  "extract_topic_header_id decoded =
     (let trimmed = trim_ascii decoded; start = skip_decoded_separators trimmed in
      if start + 3 > length trimmed \<or> ascii_lower_char (trimmed ! start) \<noteq> CHR ''s'' \<or>
         ascii_lower_char (trimmed ! (start + 1)) \<noteq> CHR ''h''
      then []
      else normalize_toc_id (takeWhile is_topic_id_char (drop (start + 2) trimmed)))"

definition is_tab_or_space :: "char \<Rightarrow> bool" where
  "is_tab_or_space c \<longleftrightarrow> c = CHR '' '' \<or> c = CHR 0x09"

definition extract_control_word_value :: "string \<Rightarrow> string \<Rightarrow> string" where
  "extract_control_word_value body marker =
     (case find_from (ascii_lower body) (ascii_lower marker) 0 of
        None \<Rightarrow> []
      | Some found \<Rightarrow>
          let rest = dropWhile is_tab_or_space (drop (found + length marker) body);
              word = takeWhile (\<lambda>c. \<not> is_tab_or_space c) rest
          in rev (dropWhile (\<lambda>c. ispunct c \<and> c \<noteq> CHR '':'') (rev word)))"

text \<open>The end of a range, cut back to the first occurrence of any of the needles.\<close>

definition cut_at :: "string \<Rightarrow> nat \<Rightarrow> string list \<Rightarrow> nat \<Rightarrow> nat" where
  "cut_at s from needles limit =
     foldl (\<lambda>e needle. case find_from s needle from of None \<Rightarrow> e | Some n \<Rightarrow> min e n) limit needles"

definition value_boundaries :: "string list" where
  "value_boundaries = [''?c'', '', c'', ''?s'', '', s'', ''?e'', '', e'', ''?cz'', '', cz'']"

definition extract_control_value_until_boundary :: "string \<Rightarrow> string \<Rightarrow> string" where
  "extract_control_value_until_boundary body marker =
     (let lower_record = ascii_lower body in
      case find_from lower_record (ascii_lower marker) 0 of
        None \<Rightarrow> []
      | Some found \<Rightarrow>
          let value_begin = found + length marker;
              value_end = cut_at lower_record value_begin value_boundaries (length body)
          in trim_ascii (slice body value_begin value_end))"

definition extract_uint_control_value :: "string \<Rightarrow> string \<Rightarrow> u32" where
  "extract_uint_control_value body marker =
     (case stream_read_u32 (extract_control_value_until_boundary body marker) of
        None \<Rightarrow> 0
      | Some (number, _) \<Rightarrow> number)"

subsection \<open>Positions that open a control\<close>

definition gml_prefixes :: "string list" where
  "gml_prefixes =
     [''csartdesc'', ''ceartdesc'', ''cartdesc'', ''csart'', ''ceart'', ''ctopicn'', ''ctopic#'',
      ''cparent'', ''cforwardlevel'', ''cbacklevel'', ''csummary'', ''chdlevel'', ''csourcefn'',
      ''st'', ''c.sp'', ''c.cp'', ''ctocdef'', ''ctoce'', ''etoc'', ''cfontdef'', ''cfont'',
      ''cselect'', ''cmenu'', ''cmitem'', ''cemenu'', ''srfig'', ''srefig'', ''srtbl'', ''sretbl'',
      ''sr'', ''cz'', ''si'', ''citerm'', ''cgpsep'', ''clanguage'', ''cversion'', ''cbldvers'',
      ''creflow'', ''ctitle'', ''cstitle'', ''ccopyright'', ''csecurity'', ''cdate'', ''cauthor'',
      ''cdocnum'', ''ctopics'', ''cbasenum'', ''cdoclevel'', ''cfront'', ''ccontents'', ''cfigures'',
      ''ctables'', ''cindex'', ''cendindex'', ''cidelm'', ''cpicture'']"

fun gml_prefix_at :: "string \<Rightarrow> nat \<Rightarrow> string list \<Rightarrow> bool" where
  "gml_prefix_at s offset [] = False"
| "gml_prefix_at s offset (p # ps) =
     (if hd p \<noteq> ascii_lower_char (s ! offset) \<or> \<not> ascii_starts_with_case_insensitive_at s offset p
      then gml_prefix_at s offset ps
      else let e = offset + length p in
           if e = length s then True
           else let ch = s ! e in
           if isspace ch \<or> ch = CHR ''='' \<or> ch = CHR '','' \<or> ch = CHR ''.'' then True
           else if p = ''st'' \<and> ch = CHR ''|'' then True
           else if (p = ''ceart'' \<or> p = ''ceartdesc'') \<and> \<not> isalnum ch then True
           else if (p = ''srfig'' \<or> p = ''srtbl'' \<or> p = ''sr'') \<and> is_topic_id_char ch
             then \<not> (p = ''sr'' \<and> e + 1 < length s \<and> isspace (s ! (e + 1)))
           else gml_prefix_at s offset ps)"

definition looks_like_gml_control_at :: "string \<Rightarrow> nat \<Rightarrow> bool" where
  "looks_like_gml_control_at s offset0 =
     (let offset = offset0 + length (takeWhile isspace (drop offset0 s)) in
      if offset \<ge> length s then False
      else let initial = ascii_lower_char (s ! offset) in
           if initial \<noteq> CHR ''c'' \<and> initial \<noteq> CHR ''e'' \<and> initial \<noteq> CHR ''s'' then False
           else gml_prefix_at s offset gml_prefixes)"

definition is_literal_question_mark :: "string \<Rightarrow> nat \<Rightarrow> bool" where
  "is_literal_question_mark s offset =
     (if offset \<ge> length s \<or> s ! offset \<noteq> CHR ''?'' then False
      else if offset = 0 then False
      else let before = s ! (offset - 1) in
      if \<not> isalnum before \<and> before \<noteq> CHR '')'' \<and> before \<noteq> CHR 0x22 \<and> before \<noteq> CHR 0x27 then False
      else let at = offset + 1 + length (takeWhile isspace (drop (offset + 1) s)) in
      if at \<ge> length s then True
      else if s ! at = CHR ''?'' then True
      else if islower (s ! at) then False
      else \<not> looks_like_gml_control_at s at)"

text \<open>The loop over a key's characters and their lower-case forms: it ends at the \<open>=\<close> that closes a key.\<close>

fun key_ends :: "nat \<Rightarrow> (char \<times> char) list \<Rightarrow> bool" where
  "key_ends read [] = False"
| "key_ends read ((c, lower) # cs) =
     (if c = CHR ''='' then read > 0
      else if \<not> isalnum lower \<and> c \<noteq> CHR ''_'' then False
      else key_ends (read + 1) cs)"

definition control_key_begins_at :: "string \<Rightarrow> string \<Rightarrow> nat \<Rightarrow> bool" where
  "control_key_begins_at decoded lower key_start =
     (if key_start + 2 \<ge> length decoded \<or> lower ! key_start \<noteq> CHR ''c'' then False
      else key_ends 0 (slice (zip decoded lower) (key_start + 1) (min (length decoded) (key_start + 20))))"

definition looks_like_control_boundary :: "string \<Rightarrow> string \<Rightarrow> nat \<Rightarrow> bool" where
  "looks_like_control_boundary decoded lower offset =
     (if offset + 3 < length decoded \<and> decoded ! offset = CHR ''?'' \<and> decoded ! (offset + 1) = CHR '',''
      then control_key_begins_at decoded lower (offset + 2)
      else if offset + 3 < length decoded \<and> decoded ! offset = CHR '','' \<and>
              decoded ! (offset + 1) = CHR '' ''
      then control_key_begins_at decoded lower (offset + 2)
      else if offset + 2 < length decoded \<and> decoded ! offset = CHR ''?'' \<and>
              decoded ! (offset + 1) = CHR '' ''
      then control_key_begins_at decoded lower (offset + 2)
      else False)"

subsection \<open>Display text\<close>

definition is_decoded_line_marker :: "char \<Rightarrow> bool" where
  "is_decoded_line_marker ch \<longleftrightarrow> ch \<in> set ''$;()*!-:='' \<or> ch = CHR 0x27"

definition selector_markers :: "string list" where
  "selector_markers = [''<IMAGE>'', ''<INTERNET>'', ''<OTHER>'', ''<>'']"

text \<open>The index behind a marker at \<open>index\<close>, when the loop drops one there.\<close>

definition marker_skip :: "string \<Rightarrow> nat \<Rightarrow> nat option" where
  "marker_skip s index =
     (case find (ascii_starts_with_case_insensitive_at s index) selector_markers of
        Some m \<Rightarrow> Some (index + length m)
      | None \<Rightarrow>
          if index + 3 < length s \<and> s ! index = CHR '':'' \<and>
             (s ! (index + 1) = CHR ''h'' \<or> s ! (index + 1) = CHR ''H'') \<and>
             CHR ''1'' \<le> s ! (index + 2) \<and> s ! (index + 2) \<le> CHR ''6'' \<and> isspace (s ! (index + 3))
          then Some (index + 3)
          else
            let run_end = index + length (takeWhile (\<lambda>c. c = CHR ''/'') (drop index s));
                padding_end = run_end + length (takeWhile isspace (drop run_end s))
            in if s ! index = CHR ''/'' \<and> padding_end - run_end \<ge> 2 then Some padding_end
               else
                 let at_boundary = index = 0 \<or> isspace (s ! (index - 1));
                     before_indent = index + 2 < length s \<and> isspace (s ! (index + 1)) \<and>
                       isspace (s ! (index + 2));
                     trailing = index + 1 = length s \<and> at_boundary
                 in if is_decoded_line_marker (s ! index) \<and> at_boundary \<and> (before_indent \<or> trailing)
                    then Some (index + 1 + length (takeWhile isspace (drop (index + 1) s)))
                    else None)"

lemma marker_skip_advances: "marker_skip s index = Some n \<Longrightarrow> index < n"
  by (auto simp: marker_skip_def selector_markers_def Let_def split: option.splits if_splits)

function remove_markers_from :: "string \<Rightarrow> nat \<Rightarrow> string \<Rightarrow> string" where
  "remove_markers_from s index output =
     (if index \<ge> length s then output
      else case marker_skip s index of
             None \<Rightarrow> remove_markers_from s (index + 1) (output @ [s ! index])
           | Some n \<Rightarrow> remove_markers_from s n
               (if output \<noteq> [] \<and> last output \<noteq> CHR '' '' then output @ [CHR '' ''] else output))"
  by pat_completeness auto
termination
  by (relation "measure (\<lambda>(s, index, _). length s - index)") (auto dest: marker_skip_advances)

declare remove_markers_from.simps [simp del]

definition remove_decoded_line_markers :: "string \<Rightarrow> string" where
  "remove_decoded_line_markers s = remove_markers_from s 0 []"

definition collapse_terminal_question_separator :: "string \<Rightarrow> string" where
  "collapse_terminal_question_separator s =
     (if length s < 3 \<or> last s \<noteq> CHR ''?'' \<or> s ! (length s - 2) \<noteq> CHR ''?'' then s
      else if isalnum (s ! (length s - 3)) \<or> s ! (length s - 3) = CHR '')'' then butlast s
      else s)"

definition blank_inner_questions :: "string \<Rightarrow> string" where
  "blank_inner_questions s =
     map (\<lambda>i. if s ! i = CHR ''?'' \<and> i + 1 \<noteq> length s then CHR '' '' else s ! i) [0..<length s]"

definition dot_text :: "string \<Rightarrow> string" where
  "dot_text s =
     collapse_ascii_whitespace (blank_inner_questions
       (collapse_terminal_question_separator (trim_ascii (remove_decoded_line_markers s))))"

definition rest_after_first_word :: "string \<Rightarrow> string" where
  "rest_after_first_word s0 =
     (let s = trim_ascii s0;
          rest = dropWhile (\<lambda>c. c \<notin> {CHR '' '', CHR 0x09, CHR 0x0D, CHR 0x0A, CHR '',''}) s
      in if rest = [] then [] else trim_ascii (tl rest))"

subsection \<open>Decoder placeholders\<close>

definition debug_placeholder :: "string \<Rightarrow> nat \<Rightarrow> nat \<Rightarrow> string" where
  "debug_placeholder kind offset len =
     ''<geist-placeholder kind='' @ [CHR 0x27] @ kind @ [CHR 0x27] @ '' offset='' @ [CHR 0x27] @
     decimal offset @ [CHR 0x27] @ '' len='' @ [CHR 0x27] @ decimal len @ [CHR 0x27] @ ''>''"

definition single_placeholder :: "string \<Rightarrow> nat \<Rightarrow> string" where
  "single_placeholder s cursor =
     (let at = cursor + 1 + length (takeWhile isspace (drop (cursor + 1) s)) in
      if looks_like_control_boundary s (ascii_lower s) cursor \<or> looks_like_gml_control_at s (cursor + 1)
      then debug_placeholder ''control-boundary'' cursor 1
      else if at \<ge> length s then debug_placeholder ''terminal-decoder-placeholder'' cursor 1
      else if is_decoded_line_marker (s ! at) then debug_placeholder ''line-marker-boundary'' cursor 1
      else debug_placeholder ''decoder-separator'' cursor 1)"

function annotate_from :: "string \<Rightarrow> nat \<Rightarrow> string" where
  "annotate_from s cursor =
     (if cursor \<ge> length s then []
      else if s ! cursor \<noteq> CHR ''?'' then s ! cursor # annotate_from s (cursor + 1)
      else let run_length = 1 + length (takeWhile (\<lambda>c. c = CHR ''?'') (drop (cursor + 1) s)) in
           if run_length > 1
           then debug_placeholder ''decoded-question-run'' cursor run_length @
                annotate_from s (cursor + run_length)
           else if is_literal_question_mark s cursor then s ! cursor # annotate_from s (cursor + 1)
           else single_placeholder s cursor @ annotate_from s (cursor + 1))"
  by pat_completeness auto
termination
  by (relation "measure (\<lambda>(s, cursor). length s - cursor)") auto

declare annotate_from.simps [simp del]

definition annotate_decoded_placeholders :: "string \<Rightarrow> string" where
  "annotate_decoded_placeholders s = annotate_from s 0"

subsection \<open>Markup segments\<close>

record markup_segment_span =
  span_begin :: nat
  span_end :: nat
  span_text :: string

text \<open>A run of 20 question marks or 70 spaces.\<close>

fun fixed_visual_payload_from :: "nat \<Rightarrow> nat \<Rightarrow> string \<Rightarrow> bool" where
  "fixed_visual_payload_from question_run space_run [] = False"
| "fixed_visual_payload_from question_run space_run (ch # rest) =
     (let q = (if ch = CHR ''?'' then question_run + 1 else 0);
          s = (if ch = CHR '' '' then space_run + 1 else 0)
      in if q \<ge> 20 \<or> s \<ge> 70 then True else fixed_visual_payload_from q s rest)"

definition segment_trimmable :: "bool \<Rightarrow> char \<Rightarrow> bool" where
  "segment_trimmable fixed ch \<longleftrightarrow>
     isspace ch \<or> (\<not> fixed \<and> (char_code ch < 0x20 \<or> ch = CHR ''?''))"

definition make_segment :: "string \<Rightarrow> nat \<Rightarrow> nat \<Rightarrow> markup_segment_span" where
  "make_segment s raw_begin raw_end =
     (let fixed = fixed_visual_payload_from 0 0 (slice s raw_begin raw_end);
          b = raw_begin + length (takeWhile (segment_trimmable fixed) (slice s raw_begin raw_end));
          e = raw_end - length (takeWhile (segment_trimmable fixed) (rev (slice s b raw_end)))
      in \<lparr> span_begin = b, span_end = e,
           span_text = collapse_terminal_question_separator (slice s b e) \<rparr>)"

text \<open>The end of the segment that closes at \<open>cursor\<close> and the begin of the next one, when one closes
  there.\<close>

definition segment_split :: "string \<Rightarrow> nat \<Rightarrow> nat \<Rightarrow> (nat \<times> nat) option" where
  "segment_split s begin_at cursor =
     (let ch = s ! cursor; back = s ! (cursor - 1) in
      if cursor > begin_at \<and> looks_like_gml_control_at s cursor \<and>
         \<not> ascii_starts_with_case_insensitive_at s cursor ''sh'' \<and>
         (isspace back \<or> back = CHR ''.'' \<or> back = CHR '','')
      then Some (cursor, cursor)
      else if ch = CHR ''?'' \<and> looks_like_gml_control_at s (cursor + 1)
      then (let previous = dropWhile isspace (rev (slice s begin_at cursor)) in
            if cursor > begin_at \<and> previous \<noteq> [] \<and>
               (isalnum (hd previous) \<or> hd previous = CHR '')'')
            then Some (cursor + 1, cursor + 1)
            else Some (cursor, cursor + 1))
      else if ch = CHR '','' \<and> looks_like_gml_control_at s (cursor + 1)
      then Some (cursor, cursor + 1)
      else None)"

definition add_segment :: "markup_segment_span \<Rightarrow> markup_segment_span list \<Rightarrow> markup_segment_span list" where
  "add_segment seg segments = (if span_text seg \<noteq> [] then segments @ [seg] else segments)"

definition split_step ::
  "string \<Rightarrow> nat \<times> markup_segment_span list \<Rightarrow> nat \<Rightarrow> nat \<times> markup_segment_span list" where
  "split_step s st cursor =
     (case segment_split s (fst st) cursor of
        None \<Rightarrow> st
      | Some (e, b) \<Rightarrow> (b, add_segment (make_segment s (fst st) e) (snd st)))"

definition split_decoded_markup_segment_spans :: "string \<Rightarrow> markup_segment_span list" where
  "split_decoded_markup_segment_spans s =
     (let st = foldl (split_step s) (0, []) [0..<length s]
      in add_segment (make_segment s (fst st) (length s)) (snd st))"

definition split_decoded_markup_segments :: "string \<Rightarrow> string list" where
  "split_decoded_markup_segments s = map span_text (split_decoded_markup_segment_spans s)"

subsection \<open>Font operands and definitions\<close>

definition parse_unsigned_word :: "string \<Rightarrow> nat \<Rightarrow> bool \<times> nat" where
  "parse_unsigned_word s cursor =
     (let b = cursor + length (takeWhile isspace (drop cursor s));
          e = b + length (takeWhile isdigit (drop b s))
      in (e > b, e))"

definition parse_nonspace_word :: "string \<Rightarrow> nat \<Rightarrow> bool \<times> nat" where
  "parse_nonspace_word s cursor =
     (let b = cursor + length (takeWhile isspace (drop cursor s));
          e = b + length (takeWhile (\<lambda>c. \<not> isspace c) (drop b s))
      in (e > b, e))"

text \<open>\<open>std::stoul\<close> of white space and digits; \<open>None\<close> is the \<open>std::out_of_range\<close> it throws.\<close>

definition stoul :: "string \<Rightarrow> u64 option" where
  "stoul s =
     (let n = digits_value (takeWhile isdigit (dropWhile isspace s))
      in if n > 0xFFFFFFFFFFFFFFFF then None else Some (of_nat n))"

record font_span =
  font_offset :: u64
  font_length :: u64
  font_code :: string

lemma unsigned_advances: "(True, e) = parse_unsigned_word s cursor \<Longrightarrow> cursor < e"
  by (auto simp: parse_unsigned_word_def Let_def)

lemma nonspace_advances: "(True, e) = parse_nonspace_word s cursor \<Longrightarrow> cursor < e"
  by (auto simp: parse_nonspace_word_def Let_def)

lemma parse_advances:
  assumes "\<not> length s \<le> cursor" and "p = parse_unsigned_word s cursor" and "(b1, c1) = p" and "\<not> \<not> b1"
    and "q = parse_unsigned_word s c1" and "(b2, c2) = q" and "\<not> \<not> b2"
    and "c = c2 + n" and "r = parse_nonspace_word s c" and "(b3, c3) = r" and "\<not> \<not> b3"
  shows "length s - c3 < length s - cursor"
  using unsigned_advances [of c1 s cursor] unsigned_advances [of c2 s c1] nonspace_advances [of c3 s c] assms
  by simp

text \<open>The spans and the cursor behind the last whole one.\<close>

function parse_font_spans :: "string \<Rightarrow> nat \<Rightarrow> (font_span list \<times> nat) option" where
  "parse_font_spans s cursor =
     (if cursor \<ge> length s then Some ([], cursor)
      else let (offset_read, c1) = parse_unsigned_word s cursor in
      if \<not> offset_read then Some ([], cursor)
      else case stoul (slice s cursor c1) of
        None \<Rightarrow> None
      | Some off \<Rightarrow>
          let (length_read, c2) = parse_unsigned_word s c1 in
          if \<not> length_read then Some ([], cursor)
          else case stoul (slice s c1 c2) of
            None \<Rightarrow> None
          | Some len \<Rightarrow>
              let code_begin = c2 + length (takeWhile isspace (drop c2 s));
                  (code_read, c3) = parse_nonspace_word s code_begin in
              if \<not> code_read then Some ([], cursor)
              else case parse_font_spans s c3 of
                None \<Rightarrow> None
              | Some (spans, c4) \<Rightarrow>
                  Some (\<lparr> font_offset = off, font_length = len, font_code = slice s code_begin c3 \<rparr> #
                        spans, c4))"
  by pat_completeness auto
termination
  by (relation "measure (\<lambda>(s, cursor). length s - cursor)") (simp_all add: parse_advances)

declare parse_font_spans.simps [simp del]

definition font_code_to_highlight_tag :: "string \<Rightarrow> string" where
  "font_code_to_highlight_tag c =
     (if c = ''1'' \<or> ascii_equals_case_insensitive c ''hp1'' then ''hp1''
      else if c = ''2'' \<or> ascii_equals_case_insensitive c ''hp2'' then ''hp2''
      else if c = ''3'' \<or> ascii_equals_case_insensitive c ''hp3'' then ''hp3''
      else if ascii_equals_case_insensitive c ''x'' \<or> ascii_equals_case_insensitive c ''xph'' \<or>
              ascii_equals_case_insensitive c ''e'' \<or> ascii_equals_case_insensitive c ''xmp''
      then ''xph''
      else [])"

text \<open>The code and the style of a definition.\<close>

definition parse_fontdef_style :: "string \<Rightarrow> string \<times> string" where
  "parse_fontdef_style s0 =
     (let s = (case find_from s0 ''='' 0 of
                 Some equals \<Rightarrow> drop (equals + 1) s0
               | None \<Rightarrow> rest_after_first_word s0)
      in case stream_read_word s of
           None \<Rightarrow> ([], [])
         | Some (c, rest) \<Rightarrow>
             let style = stream_getline rest;
                 lower_style = ascii_lower style;
                 cut = (case find_from lower_style '', c'' 0 of
                          Some found \<Rightarrow> take found style
                        | None \<Rightarrow>
                            (case find_from lower_style ''? c'' 0 of
                               Some found \<Rightarrow> take found style
                             | None \<Rightarrow> style))
             in (c, dot_text (trim_ascii cut)))"

definition is_valid_font_definition_code :: "string \<Rightarrow> bool" where
  "is_valid_font_definition_code c \<longleftrightarrow>
     length c = 1 \<and> (isdigit (hd c) \<or> (isupper (hd c) \<and> isalpha (hd c)) \<or> hd c = CHR ''_'')"

definition add_font_definition :: "string \<Rightarrow> (string \<rightharpoonup> string) \<Rightarrow> (string \<rightharpoonup> string)" where
  "add_font_definition segment definitions =
     (if \<not> ascii_starts_with_case_insensitive (trim_ascii segment) ''cfontdef'' then definitions
      else let (c, style) = parse_fontdef_style segment in
           if is_valid_font_definition_code c \<and> style \<noteq> [] then definitions(c \<mapsto> style)
           else definitions)"

definition extract_font_definitions :: "string list \<Rightarrow> (string \<rightharpoonup> string)" where
  "extract_font_definitions decoded_records =
     fold (\<lambda>decoded definitions. fold add_font_definition (split_decoded_markup_segments decoded) definitions)
       decoded_records (\<lambda>_. None)"

subsection \<open>Display text has no decoder separators left\<close>

lemma length_blank_inner [simp]: "length (blank_inner_questions s) = length s"
  by (simp add: blank_inner_questions_def)

lemma blank_inner_no_question:
  assumes "s = [] \<or> last s \<noteq> CHR ''?''"
  shows "CHR ''?'' \<notin> set (blank_inner_questions s)"
proof
  assume "CHR ''?'' \<in> set (blank_inner_questions s)"
  then obtain i where i: "i < length s" "s ! i = CHR ''?''" "i + 1 = length s"
    by (auto simp: blank_inner_questions_def split: if_splits)
  then have e: "s \<noteq> []" "i = length s - 1" by auto
  have "last s = CHR ''?''" using i(2) unfolding last_conv_nth [OF e(1)] e(2) .
  then show False using assms e(1) by simp
qed

lemma trim_ascii_no_question: "trim_ascii s = [] \<or> last (trim_ascii s) \<noteq> CHR ''?''"
  using trim_ascii_where_ends [of s "\<lambda>ch. ascii_blank ch \<or> ch = CHR ''?''"]
  by (auto simp: trim_ascii_def)

lemma collapse_terminal_trimmed:
  "s = [] \<or> last s \<noteq> CHR ''?'' \<Longrightarrow> collapse_terminal_question_separator s = s"
  by (auto simp: collapse_terminal_question_separator_def)

lemma collapse_from_subset: "set (collapse_from b out s) \<subseteq> set out \<union> set s \<union> {CHR '' ''}"
  by (induction b out s rule: collapse_from.induct) (auto simp: Let_def split: if_splits)

lemma collapse_ascii_subset: "set (collapse_ascii_whitespace s) \<subseteq> set s \<union> {CHR '' ''}"
proof -
  have "set (collapse_ascii_whitespace s) \<subseteq> set (collapse_from False [] s)"
    unfolding collapse_ascii_whitespace_def trim_ascii_def trim_ascii_where_def
    using set_dropWhileD by (metis set_rev subsetI)
  also have "\<dots> \<subseteq> set s \<union> {CHR '' ''}" using collapse_from_subset [of False "[]" s] by simp
  finally show ?thesis .
qed

text \<open>Display text holds no question mark at all: the trimming in front of the rule that keeps a
  terminal one has already dropped it. Nor does it hold two blanks in a row or a blank at an end.\<close>

lemma dot_text_has_no_question:
  "CHR ''?'' \<notin> set (dot_text s) \<and> \<not> sublist [CHR '' '', CHR '' ''] (dot_text s) \<and>
   trim_ascii (dot_text s) = dot_text s"
proof (intro conjI)
  let ?t = "trim_ascii (remove_decoded_line_markers s)"
  have dot: "dot_text s = collapse_ascii_whitespace (blank_inner_questions ?t)"
    using collapse_terminal_trimmed [OF trim_ascii_no_question] by (simp add: dot_text_def)
  show "CHR ''?'' \<notin> set (dot_text s)"
    unfolding dot
    using collapse_ascii_subset [of "blank_inner_questions ?t"]
      blank_inner_no_question [OF trim_ascii_no_question] by auto
  show "\<not> sublist [CHR '' '', CHR '' ''] (dot_text s)" "trim_ascii (dot_text s) = dot_text s"
    unfolding dot using collapse_ascii_whitespace_spec by blast+
qed

subsection \<open>Segments cover the record\<close>

text \<open>A character no rule drops: neither blank nor one of the separators.\<close>

definition segment_char :: "char \<Rightarrow> bool" where
  "segment_char c \<longleftrightarrow> \<not> ascii_blank c \<and> c \<noteq> CHR ''?'' \<and> c \<noteq> CHR '',''"

lemma takeWhile_nth_holds: "j < length (takeWhile P xs) \<Longrightarrow> P (xs ! j) \<and> j < length xs"
proof (induction xs arbitrary: j)
  case (Cons x xs)
  then show ?case by (cases j) (auto split: if_splits)
qed simp

lemma takeWhile_slice:
  assumes "e \<le> length s" and "b \<le> i" and "i < b + length (takeWhile P (slice s b e))"
  shows "P (s ! i)"
proof -
  have "i - b < length (takeWhile P (slice s b e))" using assms(2,3) by simp
  note j = takeWhile_nth_holds [OF this]
  moreover have "slice s b e ! (i - b) = s ! i" using j assms(1,2) by (subst nth_slice) auto
  ultimately show ?thesis by simp
qed

lemma takeWhile_rev_slice:
  assumes "e \<le> length s" and "i < e" and "b \<le> i"
    and "e - length (takeWhile P (rev (slice s b e))) \<le> i"
  shows "P (s ! i)"
proof -
  have "e - Suc i < length (takeWhile P (rev (slice s b e)))" using assms(2,4) by simp
  then have "P (rev (slice s b e) ! (e - Suc i))" by (simp add: takeWhile_nth_holds)
  moreover have "rev (slice s b e) ! (e - Suc i) = slice s b e ! (i - b)"
    using assms(1-3) by (subst rev_nth) simp_all
  moreover have "slice s b e ! (i - b) = s ! i" using assms(1-3) by (subst nth_slice) auto
  ultimately show ?thesis by simp
qed

lemma make_segment_facts:
  assumes "b \<le> e" and "e \<le> length s" and "x = make_segment s b e"
  shows "b \<le> span_begin x" and "span_begin x \<le> span_end x" and "span_end x \<le> e"
    and "span_text x = collapse_terminal_question_separator (slice s (span_begin x) (span_end x))"
    and "b \<le> i \<Longrightarrow> i < e \<Longrightarrow> segment_char (s ! i) \<Longrightarrow> span_begin x \<le> i \<and> i < span_end x"
proof -
  let ?f = "segment_trimmable (fixed_visual_payload_from 0 0 (slice s b e))"
  let ?n = "length (takeWhile ?f (slice s b e))"
  let ?m = "length (takeWhile ?f (rev (slice s (b + ?n) e)))"
  have be: "span_begin x = b + ?n" "span_end x = e - ?m"
    by (simp_all add: assms(3) make_segment_def Let_def)
  have n: "?n \<le> e - b" using length_takeWhile_le [of ?f "slice s b e"] assms by simp
  have m: "?m \<le> e - (b + ?n)"
    using length_takeWhile_le [of ?f "rev (slice s (b + ?n) e)"] assms by simp
  show "b \<le> span_begin x" "span_begin x \<le> span_end x" "span_end x \<le> e"
    using be n m assms(1,2) by simp_all
  show "span_text x = collapse_terminal_question_separator (slice s (span_begin x) (span_end x))"
    by (simp add: assms(3) make_segment_def Let_def)
  assume i: "b \<le> i" "i < e" "segment_char (s ! i)"
  have keep: "\<not> ?f (s ! i)" using i(3) by (auto simp: segment_char_def segment_trimmable_def ascii_blank_def)
  have "\<not> i < b + ?n" using takeWhile_slice [OF assms(2) i(1), of ?f] keep by blast
  moreover from this have "\<not> e - ?m \<le> i"
    using takeWhile_rev_slice [OF assms(2) i(2), of "b + ?n" ?f] keep by auto
  ultimately show "span_begin x \<le> i \<and> i < span_end x" using be by simp
qed

text \<open>The segments found so far, of the record up to \<open>b\<close>.\<close>

definition segments_cover :: "string \<Rightarrow> markup_segment_span list \<Rightarrow> nat \<Rightarrow> bool" where
  "segments_cover s segs b \<longleftrightarrow>
     sorted_wrt (\<lambda>x y. span_end x \<le> span_begin y) segs \<and>
     list_all (\<lambda>x. span_begin x < span_end x \<and> span_end x \<le> b \<and>
       span_text x = collapse_terminal_question_separator (slice s (span_begin x) (span_end x))) segs \<and>
     {i. i < b \<and> segment_char (s ! i)} \<subseteq> (\<Union>x \<in> set segs. {span_begin x ..< span_end x})"

lemma collapse_terminal_Nil [simp]: "collapse_terminal_question_separator s = [] \<longleftrightarrow> s = []"
  by (cases s rule: rev_cases) (auto simp: collapse_terminal_question_separator_def)

lemma segments_cover_add:
  assumes "segments_cover s segs b" and "b \<le> e" and "e \<le> length s" and "e \<le> b'"
    and "{i. e \<le> i \<and> i < b' \<and> segment_char (s ! i)} = {}"
  shows "segments_cover s (add_segment (make_segment s b e) segs) b'"
proof -
  let ?x = "make_segment s b e"
  note facts = make_segment_facts [OF assms(2,3) refl]
  have segs: "sorted_wrt (\<lambda>x y. span_end x \<le> span_begin y) segs"
      "list_all (\<lambda>x. span_begin x < span_end x \<and> span_end x \<le> b \<and>
        span_text x = collapse_terminal_question_separator (slice s (span_begin x) (span_end x))) segs"
      "{i. i < b \<and> segment_char (s ! i)} \<subseteq> (\<Union>x \<in> set segs. {span_begin x ..< span_end x})"
    using assms(1) by (simp_all add: segments_cover_def)
  have "\<exists>x \<in> set segs \<union> {?x}. span_begin x \<le> i \<and> i < span_end x"
    if i: "i < b'" "segment_char (s ! i)" for i
  proof (cases "i < b")
    case True
    then show ?thesis using segs(3) i(2) by force
  next
    case False
    then have "i < e" using assms(5) i by auto
    then show ?thesis using facts(5) [of i] False i(2) by simp
  qed
  moreover have "span_begin ?x < span_end ?x \<longleftrightarrow> span_text ?x \<noteq> []"
    using facts(2,3) assms(3) by (auto simp: facts(4) slice_def)
  ultimately show ?thesis
    using segs facts(1-4) assms(2,4)
    by (auto simp: segments_cover_def add_segment_def list_all_iff sorted_wrt_append) fastforce+
qed

lemma segment_split_facts:
  assumes "segment_split s b cursor = Some (e, b')" and "b \<le> cursor"
  shows "cursor \<le> e \<and> e \<le> b' \<and> b' \<le> cursor + 1 \<and> {i. e \<le> i \<and> i < b' \<and> segment_char (s ! i)} = {}"
proof -
  have "e = cursor \<and> b' = cursor \<or> e = cursor + 1 \<and> b' = cursor + 1 \<or>
      e = cursor \<and> b' = cursor + 1 \<and> (s ! cursor = CHR ''?'' \<or> s ! cursor = CHR '','')"
    using assms(1) by (auto simp: segment_split_def Let_def split: if_splits)
  then show ?thesis by (auto simp: segment_char_def le_less_Suc_eq)
qed

lemma split_steps:
  "k \<le> length s \<Longrightarrow>
   (case foldl (split_step s) (0, []) [0..<k] of (b, segs) \<Rightarrow> b \<le> k \<and> segments_cover s segs b)"
proof (induction k)
  case 0
  then show ?case by (simp add: segments_cover_def)
next
  case (Suc k)
  obtain b segs where st: "foldl (split_step s) (0, []) [0..<k] = (b, segs)" by fastforce
  have IH: "b \<le> k" "segments_cover s segs b" using Suc st by auto
  have step: "foldl (split_step s) (0, []) [0..<Suc k] = split_step s (b, segs) k" using st by simp
  show ?case
  proof (cases "segment_split s b k")
    case None
    then show ?thesis unfolding step using IH by (simp add: split_step_def)
  next
    case (Some eb)
    then obtain e b' where eb: "segment_split s b k = Some (e, b')" by (cases eb) simp
    note f = segment_split_facts [OF eb IH(1)]
    have "segments_cover s (add_segment (make_segment s b e) segs) b'"
      using segments_cover_add [OF IH(2), of e b'] f Suc.prems IH(1) by auto
    then show ?thesis unfolding step using f eb by (simp add: split_step_def)
  qed
qed

lemma markup_spans_cover:
  "segments_cover s (split_decoded_markup_segment_spans s) (length s)"
proof -
  obtain b segs where st: "foldl (split_step s) (0, []) [0..<length s] = (b, segs)" by fastforce
  then have "b \<le> length s" "segments_cover s segs b" using split_steps [of "length s" s] by auto
  then show ?thesis
    using segments_cover_add [of s segs b "length s" "length s"] st
    by (simp add: split_decoded_markup_segment_spans_def)
qed

text \<open>C32: The markup segments of a record are in order and disjoint, each is the text of its span (less
  one question mark of a terminal pair), and every character of the record that is neither blank nor a
  separator lies in one of them.\<close>

theorem segments_cover_record:
  "segments_cover s (split_decoded_markup_segment_spans s) (length s)"
  by (rule markup_spans_cover)

subsection \<open>Font operands are read back\<close>

lemma digit_char_facts:
  assumes "d < 10"
  shows "isdigit (digit_char d)" and "\<not> isspace (digit_char d)" and "char_code (digit_char d) - 0x30 = d"
  using assms by (simp_all add: digit_char_def isdigit_def isspace_def char_code_le char_code_eq)

lemma decimal_facts:
  "list_all isdigit (decimal n) \<and> list_all (\<lambda>c. \<not> isspace c) (decimal n) \<and> decimal n \<noteq> [] \<and>
   digits_value (decimal n) = n"
proof (induction n rule: decimal.induct)
  case (1 n)
  show ?case
  proof (cases "n < 10")
    case True
    then show ?thesis
      using digit_char_facts [of n] by (subst (1 2 3 4) decimal.simps) (simp add: digits_value_def)
  next
    case False
    have "n mod 10 < 10" by simp
    note d = digit_char_facts [OF this]
    have "decimal n = decimal (n div 10) @ [digit_char (n mod 10)]"
      using False by (subst decimal.simps) simp
    then show ?thesis using "1.IH" [OF False] d by (simp add: digits_value_def)
  qed
qed

lemma takeWhile_stop: "list_all P xs \<Longrightarrow> ys = [] \<or> \<not> P (hd ys) \<Longrightarrow> takeWhile P (xs @ ys) = xs"
  by (induction xs) (cases ys; simp)+

lemma isdigit_not_space: "isdigit c \<Longrightarrow> \<not> isspace c"
  by (auto simp: isdigit_def isspace_def char_code_le char_code_eq)

text \<open>A font span as a control writes it.\<close>

definition print_font_span :: "font_span \<Rightarrow> string" where
  "print_font_span f =
     CHR '' '' # decimal (unat (font_offset f)) @ CHR '' '' # decimal (unat (font_length f)) @
     CHR '' '' # font_code f"

lemma parse_unsigned_printed:
  assumes "rest = [] \<or> \<not> isdigit (hd rest)"
  shows "parse_unsigned_word (done0 @ CHR '' '' # decimal n @ rest) (length done0) =
           (True, length done0 + 1 + length (decimal n))"
    and "slice (done0 @ CHR '' '' # decimal n @ rest) (length done0) (length done0 + 1 + length (decimal n)) =
           CHR '' '' # decimal n"
proof -
  have sp: "isspace CHR '' ''" by (simp add: isspace_def)
  have d: "list_all isdigit (decimal n)" "decimal n \<noteq> []" "list_all (\<lambda>c. \<not> isspace c) (decimal n)"
    using decimal_facts by blast+
  have "takeWhile isspace (decimal n @ rest) = []"
    using d(2,3) by (cases "decimal n") auto
  moreover have "takeWhile isdigit (decimal n @ rest) = decimal n" by (rule takeWhile_stop [OF d(1) assms])
  ultimately show "parse_unsigned_word (done0 @ CHR '' '' # decimal n @ rest) (length done0) =
      (True, length done0 + 1 + length (decimal n))"
    using sp d(2) by (simp add: parse_unsigned_word_def Let_def)
  show "slice (done0 @ CHR '' '' # decimal n @ rest) (length done0) (length done0 + 1 + length (decimal n)) =
      CHR '' '' # decimal n"
    by (simp add: slice_def)
qed

lemma stoul_printed:
  "stoul (CHR '' '' # decimal (unat w)) = Some (w :: u64)"
proof -
  have d: "list_all isdigit (decimal (unat w))" "decimal (unat w) \<noteq> []"
      "list_all (\<lambda>c. \<not> isspace c) (decimal (unat w))" "digits_value (decimal (unat w)) = unat w"
    using decimal_facts [of "unat w"] by blast+
  have a: "dropWhile isspace (CHR '' '' # decimal (unat w)) = decimal (unat w)"
    using d(2,3) by (cases "decimal (unat w)") (auto simp: isspace_def)
  have b: "takeWhile isdigit (decimal (unat w)) = decimal (unat w)"
    using takeWhile_stop [OF d(1), of "[]"] by simp
  have "unat w \<le> 0xFFFFFFFFFFFFFFFF"
    using unsigned_less [where 'b=64 and 'a=nat and w=w] by simp
  then show ?thesis unfolding stoul_def Let_def a b d(4) by simp
qed

lemma drop_length_append: "drop (length xs) (xs @ ys) = ys"
  by simp

lemma parse_font_spans_printed:
  assumes "list_all (\<lambda>f. font_code f \<noteq> [] \<and> list_all (\<lambda>c. \<not> isspace c) (font_code f)) fs"
  shows "parse_font_spans (done0 @ concat (map print_font_span fs)) (length done0) =
           Some (fs, length (done0 @ concat (map print_font_span fs)))"
  using assms
proof (induction fs arbitrary: done0)
  case Nil
  then show ?case by (subst parse_font_spans.simps) simp
next
  case (Cons f fs)
  let ?o = "decimal (unat (font_offset f))" and ?l = "decimal (unat (font_length f))"
  let ?rest = "concat (map print_font_span fs)"
  let ?s = "done0 @ concat (map print_font_span (f # fs))"
  have sp: "isspace CHR '' ''" "\<not> isdigit CHR '' ''" by (simp_all add: isspace_def isdigit_def char_code_le)
  let ?d1 = "done0 @ CHR '' '' # ?o" and ?d2 = "done0 @ CHR '' '' # ?o @ CHR '' '' # ?l"
  let ?d3 = "?d2 @ [CHR '' '']"
  let ?done' = "?d3 @ font_code f"
  have s1: "?s = done0 @ CHR '' '' # ?o @ (CHR '' '' # ?l @ CHR '' '' # font_code f @ ?rest)"
    and s2: "?s = ?d1 @ CHR '' '' # ?l @ (CHR '' '' # font_code f @ ?rest)"
    and s3: "?s = ?d2 @ CHR '' '' # font_code f @ ?rest"
    and s4: "?s = ?done' @ ?rest" and s5: "?s = ?d3 @ (font_code f @ ?rest)"
    by (simp_all add: print_font_span_def)
  have code: "font_code f \<noteq> []" "list_all (\<lambda>c. \<not> isspace c) (font_code f)" using Cons.prems by auto
  have c1: "parse_unsigned_word ?s (length done0) = (True, length ?d1)"
    "slice ?s (length done0) (length ?d1) = CHR '' '' # ?o"
    unfolding s1 using parse_unsigned_printed [of "CHR '' '' # ?l @ CHR '' '' # font_code f @ ?rest" done0] sp
    by (simp_all del: append.simps)
  have c2: "parse_unsigned_word ?s (length ?d1) = (True, length ?d2)"
    "slice ?s (length ?d1) (length ?d2) = CHR '' '' # ?l"
    unfolding s2 using parse_unsigned_printed [of "CHR '' '' # font_code f @ ?rest" ?d1] sp
    by (simp_all add: slice_def)
  have hd_code: "takeWhile isspace (font_code f @ ?rest) = []"
    using code by (cases "font_code f") auto
  have c3: "length ?d2 + length (takeWhile isspace (drop (length ?d2) ?s)) = length ?d3"
    unfolding s3 using hd_code sp by simp
  have drop3: "drop (length ?d3) ?s = font_code f @ ?rest" unfolding s5 by (rule drop_length_append)
  have rest: "?rest = [] \<or> \<not> (\<not> isspace (hd ?rest))"
    by (cases fs) (simp_all add: print_font_span_def sp)
  have word: "takeWhile (\<lambda>c. \<not> isspace c) (font_code f @ ?rest) = font_code f"
    by (rule takeWhile_stop [OF code(2) rest])
  have c4: "parse_nonspace_word ?s (length ?d3) = (True, length ?done')"
    unfolding parse_nonspace_word_def drop3 hd_code Let_def
    using word code(1) drop3 by simp
  have c5: "slice ?s (length ?d3) (length ?done') = font_code f"
    unfolding slice_def drop3 by simp
  have IH: "parse_font_spans ?s (length ?done') = Some (fs, length ?s)"
    using Cons.IH [of ?done'] Cons.prems unfolding s4 by simp
  have len: "\<not> length ?s \<le> length done0" unfolding s1 by simp
  show ?case
    by (subst parse_font_spans.simps)
      (simp only: len c1 c2 c3 c4 c5 IH stoul_printed Let_def prod.case option.case if_False if_True
        not_True_eq_False font_span.surjective [of f, symmetric] prod.inject, simp)
qed

text \<open>The operands of a font control are read back as the column spans that were written, whatever
  their number, up to the end of the operands.\<close>

lemma font_spans_round_trip:
  assumes "list_all (\<lambda>f. font_code f \<noteq> [] \<and> list_all (\<lambda>c. \<not> isspace c) (font_code f)) fs"
  shows "parse_font_spans (concat (map print_font_span fs)) 0 =
           Some (fs, length (concat (map print_font_span fs)))"
  using parse_font_spans_printed [OF assms, of "[]"] by simp

end
