(* ===== verification/Control_Ir.thy ===== *)
theory Control_Ir
  imports Assembly Scan
begin

section \<open>Control segments (\<open>src/container/control_ir.cpp\<close>)\<close>

text \<open>
  The typed view of one decoded record: its markup segments, each split into opcode, operands and payload.
  The segments come from the flattened string (\<open>Scan\<close>), are cut again where a token or a display line
  proves a control, and are then classified; \<open>verify_control_segments\<close> is the check every decoded record
  must pass. All offsets are byte offsets into the record's text.
\<close>

subsection \<open>Data (\<open>src/geist/detail/container/control_ir.hpp\<close>)\<close>

datatype book_control_kind =
    Text_kind | Topic_start | Topic_number | Parent | Forward_level | Back_level | Summary
  | Heading_level | Source_file | Title | Font | Select | Spacing | Revision_definition
  | Layout_directive | Table_start | Table_end | Menu_start | Menu_item | Menu_end | Message_start
  | Art_start | Art_end | Art_description_start | Art_description | Art_description_end
  | Structural | Unknown_kind

record control_segment_ir =
  cs_record :: nat
  cs_index :: nat
  cs_kind :: book_control_kind
  cs_opcode :: string
  cs_complete :: output_range
  cs_opcode_range :: output_range
  cs_operand_range :: output_range
  cs_payload_range :: output_range
  cs_source_tokens :: "nat list"
  cs_malformed :: bool
  cs_display_text :: bool

record word_span =
  word_begin :: nat
  word_end :: nat
  word_geometry :: bool

text \<open>\<open>text.substr(begin, end - begin)\<close> of one word.\<close>

definition word_text :: "string \<Rightarrow> word_span \<Rightarrow> string" where
  "word_text s w = slice s (word_begin w) (word_end w)"

subsection \<open>Words of a segment\<close>

definition display_geometry_word :: "u16 \<Rightarrow> bool" where
  "display_geometry_word word \<longleftrightarrow> word \<ge> 0x2500 \<and> word \<le> 0x257F"

fun geometry_flags :: "token_words \<Rightarrow> bool list" where
  "geometry_flags [] = []"
| "geometry_flags (word # words) =
     replicate (token_word_ascii_width word) (display_geometry_word word) @ geometry_flags words"

definition display_geometry_bytes :: "assembled_logical_record \<Rightarrow> nat \<Rightarrow> bool list" where
  "display_geometry_bytes a text_size =
     (let flags = take text_size (geometry_flags (asm_words a))
      in flags @ replicate (text_size - length flags) False)"

definition geometry_at :: "bool list \<Rightarrow> nat \<Rightarrow> bool" where
  "geometry_at geometry at \<longleftrightarrow> at < length geometry \<and> geometry ! at"

definition word_length_at :: "string \<Rightarrow> nat \<Rightarrow> bool list \<Rightarrow> nat \<Rightarrow> nat" where
  "word_length_at s e geometry at =
     length (takeWhile (\<lambda>i. \<not> isspace (s ! i) \<and> geometry_at geometry i = geometry_at geometry at) [at..<e])"

function words_in :: "string \<Rightarrow> nat \<Rightarrow> nat \<Rightarrow> bool list \<Rightarrow> word_span list" where
  "words_in s cursor e geometry =
     (let at = cursor + length (takeWhile (\<lambda>i. isspace (s ! i)) [cursor..<e]) in
      if cursor \<ge> e \<or> at \<ge> e then []
      else let stop = at + word_length_at s e geometry at in
           \<lparr> word_begin = at, word_end = stop, word_geometry = geometry_at geometry at \<rparr>
             # words_in s stop e geometry)"
  by pat_completeness auto

lemma takeWhile_upt_stop:
  assumes "b + length (takeWhile p [b..<e]) < e"
  shows "\<not> p (b + length (takeWhile p [b..<e]))"
proof -
  let ?n = "length (takeWhile p [b..<e])"
  have "?n < length [b..<e]" using assms by simp
  then have "\<not> p ([b..<e] ! ?n)" by (rule nth_length_takeWhile)
  then show ?thesis using assms by (simp add: nth_upt)
qed

lemma takeWhile_upt_le: "b \<le> e \<Longrightarrow> b + length (takeWhile p [b..<e]) \<le> e"
  using length_takeWhile_le [of p "[b..<e]"] by simp

lemma word_length_at_pos: "at < e \<Longrightarrow> \<not> isspace (s ! at) \<Longrightarrow> 0 < word_length_at s e geometry at"
  by (simp add: word_length_at_def upt_conv_Cons)

termination words_in
proof (relation "measure (\<lambda>(_, cursor, e, _). e - cursor)", goal_cases)
  case 1
  then show ?case by simp
next
  case (2 s cursor e geometry at stop)
  then have "at < e" "\<not> isspace (s ! at)"
    using takeWhile_upt_stop [of cursor "\<lambda>i. isspace (s ! i)" e] by simp_all
  then show ?case using 2 word_length_at_pos [of at e s geometry] by auto
qed

declare words_in.simps [simp del]

fun decimal_below :: "nat \<Rightarrow> nat \<Rightarrow> string \<Rightarrow> bool" where
  "decimal_below maximum value [] = True"
| "decimal_below maximum value (ch # rest) =
     (if \<not> isdigit ch then False
      else let v = value * 10 + (char_code ch - 0x30) in
           if v > maximum then False else decimal_below maximum v rest)"

definition decimal_word :: "string \<Rightarrow> word_span \<Rightarrow> nat \<Rightarrow> bool" where
  "decimal_word s w maximum =
     (if word_begin w = word_end w then False else decimal_below maximum 0 (word_text s w))"

definition font_code_word :: "string \<Rightarrow> word_span \<Rightarrow> bool" where
  "font_code_word s w =
     (let e = (if word_end w > word_begin w \<and> word_end w - word_begin w = 2 \<and>
                  s ! (word_end w - 1) = CHR '','' then word_end w - 1 else word_end w) in
      if e - word_begin w \<noteq> 1 then False
      else let code = ascii_lower_char (s ! word_begin w) in
      if code = CHR ''_'' then True
      else if code \<ge> CHR ''0'' \<and> code \<le> CHR ''9'' then True
      else code \<ge> CHR ''a'' \<and> code \<le> CHR ''z'' \<and> code \<noteq> CHR ''n'' \<and> code \<noteq> CHR ''s'')"

subsection \<open>Classification of opcodes\<close>

definition control_names :: "(string \<times> book_control_kind) list" where
  "control_names =
     [(''ctopicn'', Topic_number), (''ctopic#'', Topic_number), (''cparent'', Parent),
      (''cforwardlevel'', Forward_level), (''cbacklevel'', Back_level), (''csummary'', Summary),
      (''chdlevel'', Heading_level), (''csourcefn'', Source_file), (''st'', Title), (''cfont'', Font),
      (''cselect'', Select), (''c.sp'', Spacing), (''c.rev'', Revision_definition),
      (''cz'', Layout_directive)]"

definition later_control_names :: "(string \<times> book_control_kind) list" where
  "later_control_names =
     [(''cmenu'', Menu_start), (''cmitem'', Menu_item), (''cemenu'', Menu_end),
      (''srmsg'', Message_start), (''csart'', Art_start), (''ceart'', Art_end),
      (''csartdesc'', Art_description_start), (''cartdesc'', Art_description),
      (''ceartdesc'', Art_description_end)]"

definition classify :: "string \<Rightarrow> book_control_kind" where
  "classify spelling =
     (let lower = ascii_lower spelling in
      if length lower > 2 \<and> starts_with lower ''sh'' \<and> isdigit (lower ! 2) then Topic_start
      else let opcode = (if length lower > 2 \<and> hd lower = CHR ''c'' \<and> last lower = CHR ''.''
                         then butlast lower else lower) in
      case map_of control_names opcode of
        Some kind \<Rightarrow> kind
      | None \<Rightarrow>
          if starts_with opcode ''srtbl'' then Table_start
          else if starts_with opcode ''sretbl'' then Table_end
          else case map_of later_control_names opcode of
            Some kind \<Rightarrow> kind
          | None \<Rightarrow>
              if length opcode > 2 \<and> starts_with opcode ''sr'' \<and>
                 list_all (\<lambda>ch. isalnum ch \<or> ch = CHR ''_'') opcode then Structural
              else Text_kind)"

definition topic_identifier_word :: "string \<Rightarrow> word_span \<Rightarrow> bool" where
  "topic_identifier_word s w =
     (if word_end w - word_begin w \<le> 2 \<or> ascii_lower (slice s (word_begin w) (word_begin w + 2)) \<noteq> ''sh''
      then False
      else list_all (\<lambda>ch. isalnum ch \<or> ch = CHR ''_'' \<or> ch = CHR ''-'' \<or> ch = CHR ''.'') (word_text s w))"

text \<open>The separators in front of a segment's first word.\<close>

definition leading_separator :: "char \<Rightarrow> bool" where
  "leading_separator ch \<longleftrightarrow> isspace ch \<or> ch = CHR '','' \<or> ch = CHR ''?''"

definition skip_leading_separators :: "string \<Rightarrow> nat \<Rightarrow> nat \<Rightarrow> nat" where
  "skip_leading_separators s b e = b + length (takeWhile (\<lambda>i. leading_separator (s ! i)) [b..<e])"

definition promote_corroborated_topic_start ::
  "string \<Rightarrow> control_segment_ir list \<Rightarrow> control_segment_ir list" where
  "promote_corroborated_topic_start s segments =
     (case segments of
        segment # next_segment # rest \<Rightarrow>
          if cs_kind segment \<noteq> Text_kind \<or> cs_kind next_segment \<noteq> Topic_number \<or>
             fst (cs_complete segment) \<noteq> 0 then segments
          else let stop = snd (cs_complete segment);
                   b = skip_leading_separators s (fst (cs_complete segment)) stop in
          (case words_in s b stop [] of
             [w] \<Rightarrow>
               if \<not> topic_identifier_word s w then segments
               else segment\<lparr> cs_kind := Topic_start, cs_opcode := word_text s w,
                             cs_opcode_range := (word_begin w, word_end w),
                             cs_operand_range := (word_end w, word_end w),
                             cs_payload_range := (word_end w, stop) \<rparr> # next_segment # rest
           | _ \<Rightarrow> segments)
      | _ \<Rightarrow> segments)"

subsection \<open>Tokens that prove a control\<close>

definition script_control_words :: "token_words \<Rightarrow> bool" where
  "script_control_words words =
     (if length words < 4 \<or> words ! 0 \<noteq> 0x63 \<or> words ! 1 \<noteq> 0x2E then False
      else list_all (\<lambda>w. w \<ge> 0x61 \<and> w \<le> 0x7A) (drop 2 words))"

definition control_separator_words :: "token_words \<Rightarrow> bool" where
  "control_separator_words words \<longleftrightarrow> dropWhile (\<lambda>w. w = 1) words = [0x2C]"

definition token_body_word_range :: "assembled_logical_record \<Rightarrow> logical_token_span \<Rightarrow> output_range" where
  "token_body_word_range a token =
     (let b = output_begin token
              + length (takeWhile (\<lambda>i. asm_words a ! i = 0x20) [output_begin token..<output_end token]);
          e = output_end token
              - length (takeWhile (\<lambda>i. asm_words a ! i = 0x20) (rev [b..<output_end token]))
      in (b, e))"

definition token_body_words :: "assembled_logical_record \<Rightarrow> logical_token_span \<Rightarrow> token_words" where
  "token_body_words a token =
     (let r = token_body_word_range a token in slice (asm_words a) (fst r) (snd r))"

definition token_body_byte_range :: "assembled_logical_record \<Rightarrow> logical_token_span \<Rightarrow> output_range" where
  "token_body_byte_range a token = decoded_word_range_to_byte_range a (token_body_word_range a token)"

definition opcode_end_without_separator ::
  "assembled_logical_record \<Rightarrow> string \<Rightarrow> word_span \<Rightarrow> nat" where
  "opcode_end_without_separator a s w =
     (if word_end w = 0 \<or> word_end w > length s \<or> s ! (word_end w - 1) \<noteq> CHR '','' then word_end w
      else case find (\<lambda>token. snd (token_body_byte_range a token) = word_end w \<and>
                              fst (token_body_byte_range a token) > word_begin w \<and>
                              control_separator_words (token_body_words a token)) (asm_tokens a) of
             Some token \<Rightarrow> fst (token_body_byte_range a token)
           | None \<Rightarrow> word_end w)"

text \<open>The first byte of the output behind word \<open>at\<close>.\<close>

definition byte_of_word :: "assembled_logical_record \<Rightarrow> nat \<Rightarrow> nat" where
  "byte_of_word a at = fst (decoded_word_range_to_byte_range a (at, at))"

subsection \<open>Cutting the spans of the flattened string\<close>

text \<open>The loop over the cuts of one span: the state is the begin of the piece that is still open and the
  pieces closed so far; a cut that the test refuses, or that does not lie inside the open piece, is passed
  over.\<close>

definition cut_step ::
  "string \<Rightarrow> nat \<Rightarrow> (nat \<Rightarrow> bool) \<Rightarrow> nat \<times> nat \<Rightarrow> nat \<times> markup_segment_span list \<Rightarrow>
   nat \<times> markup_segment_span list" where
  "cut_step s span_stop accept k st =
     (case st of (b, pieces) \<Rightarrow>
        if fst k \<le> b \<or> fst k \<ge> span_stop \<or> \<not> accept (snd k) then st
        else (fst k, pieces @ [\<lparr> span_begin = b, span_end = fst k, span_text = slice s b (fst k) \<rparr>]))"

definition cut_span ::
  "string \<Rightarrow> (nat \<Rightarrow> nat \<Rightarrow> bool) \<Rightarrow> (nat \<times> nat) list \<Rightarrow> markup_segment_span \<Rightarrow> markup_segment_span list" where
  "cut_span s accept cuts span =
     (case fold (cut_step s (span_end span) (\<lambda>c. accept c (span_end span))) cuts (span_begin span, []) of
        (b, pieces) \<Rightarrow>
          if b = span_begin span then [span]
          else pieces @ [\<lparr> span_begin = b, span_end = span_end span,
                           span_text = slice s b (span_end span) \<rparr>])"

text \<open>A SCRIPT body control: a two-byte token, whose cut starts at the separator token in front of it.\<close>

definition glued_control_cut ::
  "assembled_logical_record \<Rightarrow> encoded_logical_token list \<Rightarrow> nat \<Rightarrow> (nat \<times> nat) option" where
  "glued_control_cut a encs index =
     (let token = asm_tokens a ! index in
      if \<not> script_control_words (token_body_words a token) then None
      else if index < length encs \<and> enc_width (encs ! index) \<noteq> 2 then None
      else let b = (if index \<noteq> 0 \<and> control_separator_words (token_body_words a (asm_tokens a ! (index - 1)))
                    then output_begin (asm_tokens a ! (index - 1)) else output_begin token)
           in Some (byte_of_word a b, byte_of_word a (output_end token)))"

definition display_between :: "assembled_logical_record \<Rightarrow> string \<Rightarrow> nat \<Rightarrow> nat \<Rightarrow> bool" where
  "display_between a s byte_begin byte_end =
     (let r = decoded_byte_range_to_word_range a (byte_begin, byte_end)
      in list_ex (\<lambda>word. let value = asm_words a ! word in value \<ge> 0x21 \<and> value \<noteq> 0x7F \<and> value < 0x2500)
           [fst r..<min (snd r) (length s)])"

definition split_glued_body_controls ::
  "assembled_logical_record \<Rightarrow> encoded_logical_token list \<Rightarrow> string \<Rightarrow> markup_segment_span list \<Rightarrow>
   markup_segment_span list" where
  "split_glued_body_controls a encs s spans =
     (let cuts = List.map_filter (glued_control_cut a encs) [0..<length (asm_tokens a)] in
      if cuts = [] then spans else concat (map (cut_span s (display_between a s) cuts) spans))"

definition script_opcode_words :: "token_words \<Rightarrow> bool" where
  "script_opcode_words words =
     (if length words < 3 \<or> (words ! 0 \<noteq> 0x63 \<and> words ! 0 \<noteq> 0x43) \<or> words ! 1 \<noteq> 0x2E then False
      else list_all (\<lambda>w. (w \<ge> 0x61 \<and> w \<le> 0x7A) \<or> (w \<ge> 0x41 \<and> w \<le> 0x5A)) (drop 2 words))"

definition art_envelope_opcodes :: "string list" where
  "art_envelope_opcodes = [''csartdesc'', ''ceartdesc'', ''cartdesc'', ''csart'', ''ceart'']"

definition art_envelope_opcode_words :: "token_words \<Rightarrow> bool" where
  "art_envelope_opcode_words words \<longleftrightarrow>
     list_ex (\<lambda>opcode. words = map (\<lambda>ch. of_nat (char_code ch)) opcode) art_envelope_opcodes"

definition control_line_cut :: "assembled_logical_record \<Rightarrow> display_line_ir \<Rightarrow> (nat \<times> nat) option" where
  "control_line_cut a line =
     (let opcode = prefix_token line + 1 in
      if opcode \<ge> token_end line \<or> opcode \<ge> length (asm_tokens a) then None
      else let token = asm_tokens a ! opcode in
      if \<not> script_opcode_words (token_body_words a token) \<and>
         \<not> art_envelope_opcode_words (token_body_words a token) then None
      else Some (fst (token_body_byte_range a token), 0))"

definition split_script_control_lines ::
  "assembled_logical_record \<Rightarrow> display_line_ir list \<Rightarrow> string \<Rightarrow> markup_segment_span list \<Rightarrow>
   markup_segment_span list" where
  "split_script_control_lines a ls s spans =
     (let cuts = List.map_filter (control_line_cut a) ls in
      if cuts = [] then spans else concat (map (cut_span s (\<lambda>_ _. True) cuts) spans))"

subsection \<open>Display lines of an opcode\<close>

definition opcode_tokens :: "assembled_logical_record \<Rightarrow> output_range \<Rightarrow> nat list" where
  "opcode_tokens a opcode_bytes =
     (let ws = decoded_byte_range_to_word_range a opcode_bytes
      in source_tokens_intersecting_output a (fst ws) (snd ws))"

definition display_line_end_byte ::
  "assembled_logical_record \<Rightarrow> display_line_ir list \<Rightarrow> nat \<Rightarrow> nat \<Rightarrow> nat" where
  "display_line_end_byte a ls text_size token =
     (case find (\<lambda>line. \<not> (token < prefix_token line \<or> token \<ge> token_end line)) ls of
        None \<Rightarrow> text_size
      | Some line \<Rightarrow>
          if token_end line \<ge> length (asm_tokens a) then text_size
          else byte_of_word a (output_begin (asm_tokens a ! token_end line)))"

definition opcode_line ::
  "assembled_logical_record \<Rightarrow> display_line_ir list \<Rightarrow> output_range \<Rightarrow> display_line_ir option" where
  "opcode_line a ls opcode_bytes =
     (case opcode_tokens a opcode_bytes of
        [] \<Rightarrow> None
      | token # _ \<Rightarrow> find (\<lambda>line. prefix_token line + 1 = token \<and> token < token_end line) ls)"

definition opcode_line_end ::
  "assembled_logical_record \<Rightarrow> display_line_ir list \<Rightarrow> nat \<Rightarrow> output_range \<Rightarrow> nat" where
  "opcode_line_end a ls text_size opcode_bytes =
     (case opcode_line a ls opcode_bytes of
        None \<Rightarrow> text_size
      | Some line \<Rightarrow> display_line_end_byte a ls text_size (prefix_token line + 1))"

text \<open>The end of the line that the first token of the opcode stands on.\<close>

definition opcode_token_line_end ::
  "assembled_logical_record \<Rightarrow> display_line_ir list \<Rightarrow> nat \<Rightarrow> output_range \<Rightarrow> nat" where
  "opcode_token_line_end a ls text_size opcode_bytes =
     (case opcode_tokens a opcode_bytes of
        [] \<Rightarrow> text_size
      | token # _ \<Rightarrow> display_line_end_byte a ls text_size token)"

subsection \<open>Operands\<close>

record operand_reading =
  operand_words :: nat
  operands_malformed :: bool
  explicit_operand_end :: "nat option"

definition reading :: "nat \<Rightarrow> bool \<Rightarrow> nat option \<Rightarrow> operand_reading" where
  "reading n malformed e = \<lparr> operand_words = n, operands_malformed = malformed, explicit_operand_end = e \<rparr>"

definition fixed_operand_count :: "book_control_kind \<Rightarrow> nat" where
  "fixed_operand_count kind =
     (if kind \<in> {Topic_number, Parent, Forward_level, Back_level, Heading_level, Source_file, Menu_item,
                 Message_start, Art_description_start} then 1
      else if kind = Revision_definition then 2
      else if kind \<in> {Summary, Select} then 3
      else 0)"

fun font_triples :: "string \<Rightarrow> word_span list \<Rightarrow> nat" where
  "font_triples s (column # width # code # rest) =
     (if \<not> decimal_word s column 4096 \<or> \<not> decimal_word s width 4096 \<or> \<not> font_code_word s code then 0
      else 3 + font_triples s rest)"
| "font_triples s rest = 0"

definition font_operands :: "string \<Rightarrow> word_span list \<Rightarrow> operand_reading" where
  "font_operands s ws = (let n = font_triples s (tl ws) in reading n (n = 0) None)"

text \<open>The operands of \<open>c.rev\<close>: every token behind the opcode on its display line that is not blank, with
  its index.\<close>

definition trimmed_words :: "token_words \<Rightarrow> token_words" where
  "trimmed_words ws =
     dropWhile (\<lambda>w. w = 0x20) (rev (dropWhile (\<lambda>w. w = 0x20) (rev ws)))"

definition line_operands ::
  "assembled_logical_record \<Rightarrow> display_line_ir list \<Rightarrow> nat list \<Rightarrow> (token_words \<times> nat) list" where
  "line_operands a ls opcode_toks =
     (case opcode_toks of
        [] \<Rightarrow> []
      | front # _ \<Rightarrow>
          (case find (\<lambda>line. front \<ge> prefix_token line \<and> front < token_end line) ls of
             None \<Rightarrow> []
           | Some line \<Rightarrow>
               filter (\<lambda>(value_words, token). value_words \<noteq> [])
                 (map (\<lambda>token. (trimmed_words (token_body_words a (asm_tokens a ! token)), token))
                   [front + 1..<min (token_end line) (length (asm_tokens a))])))"

definition revision_identifier :: "token_words \<Rightarrow> bool" where
  "revision_identifier words \<longleftrightarrow> words \<noteq> [] \<and>
     list_all (\<lambda>w. w < 0x80 \<and> (isalnum (char_of (unat w)) \<or> w = 0x5F \<or> w = 0x2D)) words"

definition revision_bar :: "token_words \<Rightarrow> bool" where
  "revision_bar words \<longleftrightarrow> length words = 1 \<and>
     ((hd words > 0x20 \<and> hd words < 0x7F) \<or> hd words = 0x2502)"

definition revision_operands ::
  "assembled_logical_record \<Rightarrow> display_line_ir list \<Rightarrow> output_range \<Rightarrow> operand_reading" where
  "revision_operands a ls opcode_bytes =
     (case line_operands a ls (opcode_tokens a opcode_bytes) of
        [(name, _), (bar, last_token)] \<Rightarrow>
          if \<not> revision_identifier name \<or> \<not> revision_bar bar then reading 0 True None
          else reading 2 False (Some (byte_of_word a (output_end (asm_tokens a ! last_token))))
      | _ \<Rightarrow> reading 0 True None)"

text \<open>\<open>csummary\<close> on a framed record: the words that start on its line.\<close>

definition summary_operands :: "word_span list \<Rightarrow> nat \<Rightarrow> operand_reading" where
  "summary_operands ws line_end =
     reading (length (takeWhile (\<lambda>w. \<not> word_begin w \<ge> line_end) (tl ws))) False None"

definition counted_operand :: "string \<Rightarrow> string \<Rightarrow> bool" where
  "counted_operand v suffix_text =
     (if length v \<le> length suffix_text \<or> length v - length suffix_text > 3 \<or>
         drop (length v - length suffix_text) v \<noteq> suffix_text then False
      else list_all isdigit (take (length v - length suffix_text) v))"

definition short_decimal_operand :: "string \<Rightarrow> bool" where
  "short_decimal_operand v \<longleftrightarrow> v \<noteq> [] \<and> length v \<le> 3 \<and> list_all isdigit v"

definition spacing_form :: "string list \<Rightarrow> bool" where
  "spacing_form operands \<longleftrightarrow>
     (case operands of
        [n] \<Rightarrow> short_decimal_operand n
      | [n, unit] \<Rightarrow> short_decimal_operand n \<and> (unit = ''c'' \<or> unit = ''p'')
      | [n, p, c] \<Rightarrow> (counted_operand n ''p'' \<or> counted_operand n ''mm'') \<and> p = ''p'' \<and> c = ''c''
      | _ \<Rightarrow> False)"

definition spacing_operands :: "string \<Rightarrow> word_span list \<Rightarrow> nat \<Rightarrow> operand_reading" where
  "spacing_operands s ws line_end =
     (let operands = map (\<lambda>w. ascii_lower (word_text s w))
                       (takeWhile (\<lambda>w. \<not> word_end w > line_end) (tl ws))
      in if spacing_form operands then reading (length operands) False None else reading 0 True None)"

text \<open>\<open>cz\<close>: the words that start on the line, the last one clipped at the line's end; the second component
  is the clipped end.\<close>

fun clipped_words :: "nat \<Rightarrow> word_span list \<Rightarrow> word_span list \<times> nat option" where
  "clipped_words line_end [] = ([], None)"
| "clipped_words line_end (w # ws) =
     (if word_begin w \<ge> line_end then ([], None)
      else let e = min (word_end w) line_end in
      if word_end w > line_end then ([w\<lparr> word_end := e \<rparr>], Some e)
      else case clipped_words line_end ws of (rest, clipped) \<Rightarrow> (w\<lparr> word_end := e \<rparr> # rest, clipped))"

definition alphanumeric_tag :: "string \<Rightarrow> bool" where
  "alphanumeric_tag word \<longleftrightarrow> word \<noteq> [] \<and> list_all isalnum word"

definition decimal_operand :: "string \<Rightarrow> bool" where
  "decimal_operand word \<longleftrightarrow> word \<noteq> [] \<and> list_all isdigit word"

definition region_mode :: "string \<Rightarrow> bool" where
  "region_mode mode \<longleftrightarrow> mode = ''off'' \<or> mode = ''flow''"

definition layout_form :: "string list \<Rightarrow> bool" where
  "layout_form operands \<longleftrightarrow>
     (case operands of
        [mode, tag] \<Rightarrow> (mode = ''break'' \<and> decimal_operand tag) \<or> (region_mode mode \<and> alphanumeric_tag tag)
      | [mode, tag, left, indent] \<Rightarrow>
          region_mode mode \<and> alphanumeric_tag tag \<and> decimal_operand left \<and> decimal_operand indent
      | _ \<Rightarrow> False)"

definition layout_operands :: "string \<Rightarrow> word_span list \<Rightarrow> nat \<Rightarrow> operand_reading" where
  "layout_operands s ws line_end =
     (case clipped_words line_end (tl ws) of
        (kept, clipped_end) \<Rightarrow>
          let operands = map (\<lambda>w. ascii_lower (word_text s w)) kept in
          if layout_form operands then reading (length operands) False clipped_end
          else reading 0 True None)"

definition fixed_operands :: "book_control_kind \<Rightarrow> word_span list \<Rightarrow> operand_reading" where
  "fixed_operands kind ws =
     (if fixed_operand_count kind > length ws - 1 then reading (length ws - 1) True None
      else reading (fixed_operand_count kind) False None)"

definition read_operands ::
  "assembled_logical_record \<Rightarrow> display_line_ir list \<Rightarrow> string \<Rightarrow> book_control_kind \<Rightarrow> word_span list \<Rightarrow>
   output_range \<Rightarrow> operand_reading" where
  "read_operands a ls s kind ws opcode_bytes =
     (if kind = Font then font_operands s ws
      else if kind = Revision_definition then revision_operands a ls opcode_bytes
      else if kind = Summary \<and> opcode_line a ls opcode_bytes \<noteq> None
        then summary_operands ws (opcode_line_end a ls (length s) opcode_bytes)
      else if kind = Spacing then spacing_operands s ws (opcode_token_line_end a ls (length s) opcode_bytes)
      else if kind = Layout_directive
        then layout_operands s ws (opcode_token_line_end a ls (length s) opcode_bytes)
      else fixed_operands kind ws)"

subsection \<open>One segment\<close>

text \<open>The words in front of the first word of display geometry, the first of them ended where its display
  line ends.\<close>

definition clip_opcode ::
  "assembled_logical_record \<Rightarrow> display_line_ir list \<Rightarrow> nat \<Rightarrow> word_span \<Rightarrow> word_span" where
  "clip_opcode a ls text_size w =
     (case opcode_tokens a (word_begin w, word_end w) of
        [] \<Rightarrow> w
      | token # _ \<Rightarrow>
          let line_end = display_line_end_byte a ls text_size token in
          if line_end > word_begin w \<and> line_end < word_end w then w\<lparr> word_end := line_end \<rparr> else w)"

definition segment_words ::
  "assembled_logical_record \<Rightarrow> display_line_ir list \<Rightarrow> string \<Rightarrow> bool list \<Rightarrow> nat \<Rightarrow> nat \<Rightarrow> word_span list" where
  "segment_words a ls s geometry b e =
     (case takeWhile (\<lambda>w. \<not> word_geometry w) (words_in s b e geometry) of
        [] \<Rightarrow> []
      | w # ws \<Rightarrow> clip_opcode a ls (length s) w # ws)"

definition blank_segment :: "nat \<Rightarrow> nat \<Rightarrow> output_range \<Rightarrow> control_segment_ir" where
  "blank_segment number index whole =
     \<lparr> cs_record = number, cs_index = index, cs_kind = Text_kind, cs_opcode = [], cs_complete = whole,
       cs_opcode_range = (0, 0), cs_operand_range = (0, 0), cs_payload_range = (0, 0),
       cs_source_tokens = [], cs_malformed = False, cs_display_text = False \<rparr>"

definition control_parts ::
  "assembled_logical_record \<Rightarrow> display_line_ir list \<Rightarrow> string \<Rightarrow> word_span list \<Rightarrow> control_segment_ir \<Rightarrow>
   control_segment_ir" where
  "control_parts a ls s ws segment =
     (let span_b = fst (cs_complete segment); span_e = snd (cs_complete segment);
          opcode = slice s (word_begin (hd ws)) (opcode_end_without_separator a s (hd ws));
          kind = classify opcode;
          opcode_bytes = (word_begin (hd ws), word_end (hd ws)) in
      if kind = Text_kind then
        segment\<lparr> cs_kind := Text_kind, cs_opcode := [], cs_opcode_range := (span_b, span_b),
                 cs_operand_range := (span_b, span_b), cs_payload_range := (span_b, span_e) \<rparr>
      else
        let r = read_operands a ls s kind ws opcode_bytes;
            stop = (case explicit_operand_end r of
                      Some e \<Rightarrow> e
                    | None \<Rightarrow> if operand_words r = 0 then snd opcode_bytes
                             else word_end (ws ! operand_words r))
        in segment\<lparr> cs_kind := kind, cs_opcode := opcode, cs_opcode_range := opcode_bytes,
                    cs_operand_range := (snd opcode_bytes, stop), cs_payload_range := (stop, span_e),
                    cs_malformed := operands_malformed r \<rparr>)"

definition retoken :: "assembled_logical_record \<Rightarrow> control_segment_ir \<Rightarrow> control_segment_ir" where
  "retoken a segment =
     (let ws = decoded_byte_range_to_word_range a (cs_complete segment)
      in segment\<lparr> cs_source_tokens := source_tokens_intersecting_output a (fst ws) (snd ws) \<rparr>)"

definition decode_segment ::
  "nat \<Rightarrow> assembled_logical_record \<Rightarrow> display_line_ir list \<Rightarrow> string \<Rightarrow> bool list \<Rightarrow>
   nat \<times> markup_segment_span \<Rightarrow> control_segment_ir" where
  "decode_segment number a ls s geometry entry =
     (case entry of (index, span) \<Rightarrow>
        let whole = (span_begin span, span_end span);
            b = skip_leading_separators s (span_begin span) (span_end span);
            ws = segment_words a ls s geometry b (span_end span);
            segment = blank_segment number index whole;
            parts = (if ws = [] then
                       segment\<lparr> cs_opcode_range := (b, b), cs_operand_range := (b, b),
                                cs_payload_range := (b, span_end span) \<rparr>
                     else control_parts a ls s ws segment)
        in retoken a parts)"

subsection \<open>Separators\<close>

definition separator_at :: "assembled_logical_record \<Rightarrow> nat \<Rightarrow> logical_token_span \<Rightarrow> bool" where
  "separator_at a gap token \<longleftrightarrow>
     token_body_byte_range a token = (gap, gap + 1) \<and> control_separator_words (token_body_words a token)"

definition reclaim_separator ::
  "string \<Rightarrow> assembled_logical_record \<Rightarrow> nat \<Rightarrow> control_segment_ir \<Rightarrow> control_segment_ir" where
  "reclaim_separator s a gap segment =
     (if cs_kind segment \<noteq> Text_kind \<or> fst (cs_payload_range segment) \<noteq> fst (cs_complete segment) then segment
      else if fst (cs_complete segment) \<noteq> gap + 1 \<or> gap \<ge> length s \<or> s ! gap \<noteq> CHR '','' then segment
      else if \<not> list_ex (separator_at a gap) (asm_tokens a) then segment
      else retoken a (segment\<lparr> cs_complete := (gap, snd (cs_complete segment)),
                               cs_opcode_range := (gap, gap), cs_operand_range := (gap, gap),
                               cs_payload_range := (gap, snd (cs_payload_range segment)) \<rparr>))"

fun reclaim_behind ::
  "string \<Rightarrow> assembled_logical_record \<Rightarrow> nat \<Rightarrow> control_segment_ir list \<Rightarrow> control_segment_ir list" where
  "reclaim_behind s a gap [] = []"
| "reclaim_behind s a gap (segment # rest) =
     reclaim_separator s a gap segment # reclaim_behind s a (snd (cs_complete segment)) rest"

definition reclaim_split_separators ::
  "string \<Rightarrow> assembled_logical_record \<Rightarrow> control_segment_ir list \<Rightarrow> control_segment_ir list" where
  "reclaim_split_separators s a segments =
     (case segments of
        [] \<Rightarrow> []
      | first # rest \<Rightarrow> first # reclaim_behind s a (snd (cs_complete first)) rest)"

definition keep_separator ::
  "string \<Rightarrow> assembled_logical_record \<Rightarrow> display_line_ir list \<Rightarrow> control_segment_ir \<Rightarrow> control_segment_ir \<Rightarrow>
   control_segment_ir" where
  "keep_separator s a ls previous segment =
     (let gap = snd (cs_complete previous) in
      if snd (cs_payload_range previous) \<noteq> gap \<or> fst (cs_complete segment) \<le> gap \<or> gap \<ge> length s \<or>
         s ! gap \<noteq> CHR '','' then previous
      else case find (separator_at a gap) (asm_tokens a) of
        None \<Rightarrow> previous
      | Some separator \<Rightarrow>
          let token = span_token separator in
          if \<not> list_ex (\<lambda>line. token > prefix_token line \<and> token < token_end line) ls then previous
          else retoken a (previous\<lparr> cs_complete := (fst (cs_complete previous), gap + 1),
                 cs_payload_range := (fst (cs_payload_range previous), gap + 1) \<rparr>))"

fun keep_separators ::
  "string \<Rightarrow> assembled_logical_record \<Rightarrow> display_line_ir list \<Rightarrow> control_segment_ir list \<Rightarrow>
   control_segment_ir list" where
  "keep_separators s a ls (previous # segment # rest) =
     keep_separator s a ls previous segment # keep_separators s a ls (segment # rest)"
| "keep_separators s a ls segments = segments"

definition keep_framed_line_separators ::
  "string \<Rightarrow> assembled_logical_record \<Rightarrow> display_line_ir list \<Rightarrow> control_segment_ir list \<Rightarrow>
   control_segment_ir list" where
  "keep_framed_line_separators s a ls segments =
     (if ls = [] then segments else keep_separators s a ls segments)"

subsection \<open>Decoding and checking a record's segments\<close>

definition control_spans ::
  "assembled_logical_record \<Rightarrow> encoded_logical_token list \<Rightarrow> display_line_ir list \<Rightarrow> markup_segment_span list" where
  "control_spans a encs ls =
     (let s = token_words_to_ascii (asm_words a)
      in split_script_control_lines a ls s
           (split_glued_body_controls a encs s (split_decoded_markup_segment_spans s)))"

definition decode_control_segments ::
  "nat \<Rightarrow> assembled_logical_record \<Rightarrow> encoded_logical_token list \<Rightarrow> display_line_ir list \<Rightarrow>
   control_segment_ir list" where
  "decode_control_segments number a encs ls =
     (let s = token_words_to_ascii (asm_words a);
          geometry = display_geometry_bytes a (length s);
          spans = filter (\<lambda>span. \<not> span_begin span \<ge> span_end span) (control_spans a encs ls);
          segments = map (decode_segment number a ls s geometry) (enumerate 0 spans)
      in promote_corroborated_topic_start s
           (keep_framed_line_separators s a ls (reclaim_split_separators s a segments)))"

fun verify_segment_list ::
  "nat \<Rightarrow> nat \<Rightarrow> nat \<Rightarrow> nat \<Rightarrow> control_segment_ir list \<Rightarrow> string option" where
  "verify_segment_list output_size token_count index previous_end [] = None"
| "verify_segment_list output_size token_count index previous_end (segment # rest) =
     (let whole = cs_complete segment in
      if cs_index segment \<noteq> index then Some ''control segment ordinal is not contiguous''
      else if fst whole \<ge> snd whole \<or> snd whole > output_size \<or> fst whole < previous_end
      then Some (''control segment '' @ decimal index @ '' range ['' @ decimal (fst whole) @ '','' @
                 decimal (snd whole) @ '') follows end '' @ decimal previous_end)
      else if fst (cs_opcode_range segment) < fst whole \<or>
              snd (cs_opcode_range segment) > fst (cs_operand_range segment) \<or>
              snd (cs_operand_range segment) \<noteq> fst (cs_payload_range segment) \<or>
              snd (cs_payload_range segment) \<noteq> snd whole
      then Some ''control segment internal ranges do not partition its tail''
      else if \<not> sorted (cs_source_tokens segment) \<or>
              list_ex (\<lambda>token. token \<ge> token_count) (cs_source_tokens segment)
      then Some ''control segment source-token provenance is invalid''
      else verify_segment_list output_size token_count (index + 1) (snd whole) rest)"

definition verify_control_segments ::
  "assembled_logical_record \<Rightarrow> control_segment_ir list \<Rightarrow> string option" where
  "verify_control_segments a segments =
     verify_segment_list (length (token_words_to_ascii (asm_words a))) (length (asm_tokens a)) 0 0 segments"

definition format_control_segment_ir :: "control_segment_ir \<Rightarrow> string" where
  "format_control_segment_ir segment =
     ''record='' @ decimal (cs_record segment) @ '' segment='' @ decimal (cs_index segment) @
     '' opcode='' @ (if cs_opcode segment = [] then ''<text>'' else cs_opcode segment) @
     '' whole=['' @ decimal (fst (cs_complete segment)) @ '','' @ decimal (snd (cs_complete segment)) @
     '') operands=['' @ decimal (fst (cs_operand_range segment)) @ '','' @
     decimal (snd (cs_operand_range segment)) @ '') payload=['' @
     decimal (fst (cs_payload_range segment)) @ '','' @ decimal (snd (cs_payload_range segment)) @ '')'' @
     (if cs_malformed segment then '' malformed'' else [])"

end
