(* ===== verification/Control_Verify.thy ===== *)
theory Control_Verify
  imports Control_Ir
begin

section \<open>Decoded control segments pass their check\<close>

text \<open>
  Every pass of \<open>decode_control_segments\<close> keeps the segments in order and their ranges consistent, so the
  check the record decoder makes never fails on an assembled record. The operands of \<open>c.rev\<close> are the one
  reading whose ranges can be reversed; the check does not see it.
\<close>

subsection \<open>What the check asks\<close>

text \<open>The ranges of one segment, as the check reads them.\<close>

definition segment_ok :: "nat \<Rightarrow> control_segment_ir \<Rightarrow> bool" where
  "segment_ok token_count segment \<longleftrightarrow>
     fst (cs_complete segment) \<le> fst (cs_opcode_range segment) \<and>
     snd (cs_opcode_range segment) \<le> fst (cs_operand_range segment) \<and>
     snd (cs_operand_range segment) = fst (cs_payload_range segment) \<and>
     snd (cs_payload_range segment) = snd (cs_complete segment) \<and>
     sorted (cs_source_tokens segment) \<and> list_all (\<lambda>token. token < token_count) (cs_source_tokens segment)"

text \<open>Opcode, operands and payload follow each other, none of them reversed.\<close>

definition parts_in_order :: "control_segment_ir \<Rightarrow> bool" where
  "parts_in_order segment \<longleftrightarrow>
     fst (cs_opcode_range segment) \<le> snd (cs_opcode_range segment) \<and>
     fst (cs_operand_range segment) \<le> snd (cs_operand_range segment) \<and>
     fst (cs_payload_range segment) \<le> snd (cs_payload_range segment)"

definition well_parted :: "control_segment_ir \<Rightarrow> bool" where
  "well_parted segment \<longleftrightarrow> cs_kind segment = Revision_definition \<or> parts_in_order segment"

definition numbered :: "nat \<Rightarrow> control_segment_ir list \<Rightarrow> bool" where
  "numbered index segments \<longleftrightarrow> map cs_index segments = [index..<index + length segments]"

definition segments_ok :: "nat \<Rightarrow> nat \<Rightarrow> control_segment_ir list \<Rightarrow> bool" where
  "segments_ok output_size token_count segments \<longleftrightarrow>
     numbered 0 segments \<and> gapped (map cs_complete segments) 0 output_size \<and>
     list_all (segment_ok token_count) segments"

lemma numbered_Cons [simp]:
  "numbered index (segment # rest) \<longleftrightarrow> cs_index segment = index \<and> numbered (index + 1) rest"
proof -
  have "[index..<index + length (segment # rest)] = index # [index + 1..<index + 1 + length rest]"
    by (simp add: upt_conv_Cons del: upt_Suc)
  then show ?thesis by (simp only: numbered_def list.map(2) list.inject)
qed

lemma numbered_Nil [simp]: "numbered index []"
  by (simp add: numbered_def)

lemma verify_segment_list_iff:
  "previous \<le> output_size \<Longrightarrow>
   verify_segment_list output_size token_count index previous segments = None \<longleftrightarrow>
   numbered index segments \<and> gapped (map cs_complete segments) previous output_size \<and>
   list_all (segment_ok token_count) segments"
proof (induction segments arbitrary: index previous)
  case Nil
  then show ?case by simp
next
  case (Cons segment rest)
  obtain l r where whole: "cs_complete segment = (l, r)" by fastforce
  show ?case
  proof (cases "r \<le> output_size")
    case True
    then show ?thesis
      using Cons.IH [of r "index + 1"]
      by (auto simp: whole segment_ok_def Let_def list_all_iff list_ex_iff not_le not_less)
  next
    case False
    then have "\<not> gapped (map cs_complete (segment # rest)) previous output_size"
      using gapped_le by (auto simp: whole)
    moreover have "verify_segment_list output_size token_count index previous (segment # rest) \<noteq> None"
      using False by (simp add: whole Let_def)
    ultimately show ?thesis by blast
  qed
qed

lemma verify_control_segments_iff:
  "verify_control_segments a segments = None \<longleftrightarrow>
   segments_ok (length (token_words_to_ascii (asm_words a))) (length (asm_tokens a)) segments"
  by (simp add: verify_control_segments_def segments_ok_def verify_segment_list_iff)

subsection \<open>Words of a segment\<close>

abbreviation word_range :: "word_span \<Rightarrow> nat \<times> nat" where
  "word_range w \<equiv> (word_begin w, word_end w)"

lemma words_in_step:
  assumes "cursor < e" and "at = cursor + length (takeWhile (\<lambda>i. isspace (s ! i)) [cursor..<e])" and "at < e"
    and "stop = at + word_length_at s e geometry at"
  shows "words_in s cursor e geometry =
      \<lparr> word_begin = at, word_end = stop, word_geometry = geometry_at geometry at \<rparr> # words_in s stop e geometry"
    and "cursor \<le> at" and "at < stop" and "stop \<le> e"
proof -
  show "words_in s cursor e geometry =
      \<lparr> word_begin = at, word_end = stop, word_geometry = geometry_at geometry at \<rparr> # words_in s stop e geometry"
    unfolding assms(4) using assms(1,3) unfolding assms(2)
    by (subst words_in.simps) (simp only: Let_def not_le [symmetric] de_Morgan_disj if_False simp_thms)
  show "cursor \<le> at" using assms(2) by simp
  have "\<not> isspace (s ! at)"
    using takeWhile_upt_stop [of cursor "\<lambda>i. isspace (s ! i)" e] assms(2,3) by simp
  then show "at < stop" using word_length_at_pos [OF assms(3)] assms(4) by simp
  show "stop \<le> e"
    using takeWhile_upt_le [of at e] assms(3) unfolding assms(4) word_length_at_def by simp
qed

lemma words_in_stop:
  assumes "\<not> (cursor < e \<and> cursor + length (takeWhile (\<lambda>i. isspace (s ! i)) [cursor..<e]) < e)"
  shows "words_in s cursor e geometry = []"
  using assms by (subst words_in.simps) (auto simp: Let_def not_less)

lemma words_in_gapped: "cursor \<le> e \<Longrightarrow> gapped (map word_range (words_in s cursor e geometry)) cursor e"
proof (induction "e - cursor" arbitrary: cursor rule: less_induct)
  case less
  define at where "at = cursor + length (takeWhile (\<lambda>i. isspace (s ! i)) [cursor..<e])"
  show ?case
  proof (cases "cursor < e \<and> at < e")
    case False
    then show ?thesis using less.prems words_in_stop [of cursor e s] by (simp add: at_def)
  next
    case True
    then have c: "cursor < e" "at < e" by simp_all
    note step = words_in_step [of cursor e at s "at + word_length_at s e geometry at" geometry, OF c(1) at_def c(2) refl]
    have "e - (at + word_length_at s e geometry at) < e - cursor" using step(2,3) c by linarith
    from less.hyps [OF this step(4)] show ?thesis using step(2,3) by (simp add: step(1))
  qed
qed

lemma gapped_take:
  assumes "gapped rs b e"
  shows "gapped (take n rs) b e"
proof -
  from assms have "gapped (take n rs @ drop n rs) b e" by simp
  then obtain m where "gapped (take n rs) b m" "gapped (drop n rs) m e" by (auto simp only: gapped_append)
  then show ?thesis using gapped_le gapped_upper by blast
qed

lemma gapped_takeWhile: "gapped (map g xs) b e \<Longrightarrow> gapped (map g (takeWhile p xs)) b e"
  using gapped_take [of "map g xs" b e "length (takeWhile p xs)"]
  by (simp add: take_map takeWhile_eq_take [symmetric])

lemma clip_opcode_range:
  "word_begin w < word_end w \<Longrightarrow>
   word_begin (clip_opcode a ls n w) = word_begin w \<and> word_begin w < word_end (clip_opcode a ls n w) \<and>
   word_end (clip_opcode a ls n w) \<le> word_end w"
  by (auto simp: clip_opcode_def Let_def split: list.splits)

lemma segment_words_gapped:
  assumes "b \<le> e"
  shows "gapped (map word_range (segment_words a ls s geometry b e)) b e"
proof -
  note g = gapped_takeWhile [OF words_in_gapped [OF assms], of "\<lambda>w. \<not> word_geometry w" s geometry]
  show ?thesis
  proof (cases "takeWhile (\<lambda>w. \<not> word_geometry w) (words_in s b e geometry)")
    case Nil
    then show ?thesis using assms by (simp add: segment_words_def)
  next
    case (Cons w ws)
    then show ?thesis
      using g clip_opcode_range [of w a ls "length s"]
      by (auto simp: segment_words_def intro: gapped_lower)
  qed
qed

text \<open>The end of any word lies behind the first word and inside the segment.\<close>

lemma word_end_between:
  assumes "gapped (map word_range ws) b e" and "ws \<noteq> []" and "k < length ws"
  shows "word_end (hd ws) \<le> word_end (ws ! k) \<and> word_end (ws ! k) \<le> e"
proof (cases ws)
  case (Cons w rest)
  show ?thesis
  proof (cases k)
    case 0
    then show ?thesis using gapped_bounds [OF assms(1), of "word_range w"] Cons by simp
  next
    case (Suc j)
    then have r: "word_range (rest ! j) \<in> set (map word_range rest)" using assms(3) Cons by simp
    then show ?thesis
      using gapped_later [of "word_range w" "map word_range rest" b e "word_range (rest ! j)"]
        gapped_bounds [OF assms(1), of "word_range (rest ! j)"] assms(1) Cons Suc by auto
  qed
qed (use assms in simp)

subsection \<open>Operands\<close>

lemma font_triples_le: "font_triples s ws \<le> length ws"
  by (induction s ws rule: font_triples.induct) auto

lemma clipped_words_facts:
  assumes "clipped_words line_end ws = (kept, clipped)"
  shows "length kept \<le> length ws"
    and "clipped = Some c \<Longrightarrow> \<exists>w \<in> set ws. word_begin w \<le> c \<and> c \<le> word_end w"
  using assms
  by (induction line_end ws arbitrary: kept clipped rule: clipped_words.induct)
    (auto simp: Let_def min_def split: if_splits prod.splits)

text \<open>Every reading but that of \<open>c.rev\<close> names operands that are words of the segment.\<close>

lemma read_operands_facts:
  assumes "r = read_operands a ls s kind ws opcode_bytes" and "kind \<noteq> Revision_definition"
    and "ws \<noteq> []"
  shows "explicit_operand_end r = None \<Longrightarrow> operand_words r < length ws"
    and "explicit_operand_end r = Some c \<Longrightarrow> \<exists>w \<in> set (tl ws). word_begin w \<le> c \<and> c \<le> word_end w"
proof -
  have len: "length (tl ws) < length ws" using assms(3) by (cases ws) auto
  have tk: "length (takeWhile p (tl ws)) < length ws" for p
    using length_takeWhile_le [of p "tl ws"] len by simp
  have font: "font_triples s (tl ws) < length ws" using font_triples_le [of s "tl ws"] len by simp
  obtain kept clipped where cw:
      "clipped_words (opcode_token_line_end a ls (length s) opcode_bytes) (tl ws) = (kept, clipped)"
    by fastforce
  note cf = clipped_words_facts [OF cw]
  show "explicit_operand_end r = None \<Longrightarrow> operand_words r < length ws"
    using assms tk font cf(1) len
    by (auto simp: read_operands_def reading_def font_operands_def summary_operands_def
        spacing_operands_def layout_operands_def fixed_operands_def Let_def cw)
  show "explicit_operand_end r = Some c \<Longrightarrow> \<exists>w \<in> set (tl ws). word_begin w \<le> c \<and> c \<le> word_end w"
    using assms cf(2)
    by (auto simp: read_operands_def reading_def font_operands_def summary_operands_def
        spacing_operands_def layout_operands_def fixed_operands_def Let_def cw split: if_splits)
qed

lemma control_parts_ok:
  assumes "gapped (map word_range ws) b (snd (cs_complete segment))" and "ws \<noteq> []"
    and "fst (cs_complete segment) \<le> b"
  shows "let p = control_parts a ls s ws segment in
     cs_complete p = cs_complete segment \<and> cs_index p = cs_index segment \<and>
     fst (cs_complete p) \<le> fst (cs_opcode_range p) \<and>
     snd (cs_opcode_range p) \<le> fst (cs_operand_range p) \<and>
     snd (cs_operand_range p) = fst (cs_payload_range p) \<and>
     snd (cs_payload_range p) = snd (cs_complete p) \<and> well_parted p"
proof -
  define opcode where "opcode = slice s (word_begin (hd ws)) (opcode_end_without_separator a s (hd ws))"
  define kind where "kind = classify opcode"
  define opcode_bytes where "opcode_bytes = word_range (hd ws)"
  define r where "r = read_operands a ls s kind ws opcode_bytes"
  define stop where "stop = (case explicit_operand_end r of Some e \<Rightarrow> e
      | None \<Rightarrow> if operand_words r = 0 then snd opcode_bytes else word_end (ws ! operand_words r))"
  have parts: "control_parts a ls s ws segment =
      (if kind = Text_kind then
        segment\<lparr> cs_kind := Text_kind, cs_opcode := [],
                 cs_opcode_range := (fst (cs_complete segment), fst (cs_complete segment)),
                 cs_operand_range := (fst (cs_complete segment), fst (cs_complete segment)),
                 cs_payload_range := cs_complete segment \<rparr>
      else segment\<lparr> cs_kind := kind, cs_opcode := opcode, cs_opcode_range := opcode_bytes,
                    cs_operand_range := (snd opcode_bytes, stop),
                    cs_payload_range := (stop, snd (cs_complete segment)),
                    cs_malformed := operands_malformed r \<rparr>)"
    unfolding control_parts_def Let_def stop_def r_def kind_def opcode_def opcode_bytes_def fst_conv snd_conv
    by simp
  obtain w rest where ws: "ws = w # rest" using assms(2) by (cases ws) auto
  have first: "b \<le> word_begin w" "word_begin w < word_end w" "word_end w \<le> snd (cs_complete segment)"
    using assms(1) gapped_bounds [OF assms(1), of "word_range w"] by (simp_all add: ws)
  have "word_end w \<le> stop \<and> stop \<le> snd (cs_complete segment)" if k: "kind \<noteq> Revision_definition"
  proof (cases "explicit_operand_end r")
    case None
    then have n: "operand_words r < length ws" using read_operands_facts(1) [OF r_def k assms(2)] by blast
    show ?thesis
      using word_end_between [OF assms(1,2) n] first None
      by (cases "operand_words r = 0") (simp_all add: stop_def opcode_bytes_def ws)
  next
    case (Some c)
    then obtain v where v: "v \<in> set rest" "word_begin v \<le> c" "c \<le> word_end v"
      using read_operands_facts(2) [OF r_def k assms(2)] by (auto simp: ws)
    then have "word_range v \<in> set (map word_range rest)" by simp
    then show ?thesis
      using gapped_later [of "word_range w" "map word_range rest" b _ "word_range v"]
        gapped_bounds [OF assms(1), of "word_range v"] assms(1) v Some by (simp add: ws stop_def) fastforce
  qed
  then show ?thesis
    using first assms(3) unfolding parts
    by (auto simp: Let_def well_parted_def parts_in_order_def opcode_bytes_def ws)
qed

subsection \<open>Spans\<close>

abbreviation span_range :: "markup_segment_span \<Rightarrow> nat \<times> nat" where
  "span_range x \<equiv> (span_begin x, span_end x)"

lemma cut_fold_gapped:
  assumes "span_begin x < span_end x"
    and "fold (cut_step s (span_end x) accept) cuts (b0, pieces0) = (b, pieces)"
    and "gapped (map span_range pieces0) (span_begin x) b0" and "b0 < span_end x"
    and "b0 = span_begin x \<longrightarrow> pieces0 = []"
  shows "gapped (map span_range pieces) (span_begin x) b \<and> b < span_end x \<and>
    (b = span_begin x \<longrightarrow> pieces = [])"
  using assms(2-)
proof (induction cuts arbitrary: b0 pieces0)
  case Nil
  then show ?case by simp
next
  case (Cons k cuts)
  obtain b1 pieces1 where step: "cut_step s (span_end x) accept k (b0, pieces0) = (b1, pieces1)" by fastforce
  have "span_begin x \<le> b0" using gapped_le Cons.prems(2) by blast
  then have "gapped (map span_range pieces1) (span_begin x) b1" "b1 < span_end x"
    "b1 = span_begin x \<longrightarrow> pieces1 = []"
    using step Cons.prems(2-) by (auto simp: cut_step_def gapped_append split: if_splits)
  then show ?case using Cons.IH [of b1 pieces1] Cons.prems(1) step by simp
qed

lemma cut_span_gapped:
  assumes "span_begin x < span_end x"
  shows "gapped (map span_range (cut_span s accept cuts x)) (span_begin x) (span_end x)"
proof -
  obtain b pieces where f: "fold (cut_step s (span_end x) (\<lambda>c. accept c (span_end x))) cuts (span_begin x, [])
      = (b, pieces)" by fastforce
  show ?thesis
    using cut_fold_gapped [OF assms f] assms
    by (auto simp: cut_span_def f gapped_append)
qed

lemma cut_spans_gapped:
  assumes "gapped (map span_range spans) b e"
  shows "gapped (map span_range (concat (map (cut_span s accept cuts) spans))) b e"
proof (rule gapped_refine [OF assms])
  fix x assume "x \<in> set spans"
  then have "span_begin x < span_end x" using gapped_bounds [OF assms, of "span_range x"] by auto
  then show "gapped (map span_range (cut_span s accept cuts x)) (fst (span_range x)) (snd (span_range x))"
    using cut_span_gapped by simp
qed

lemma segments_cover_gapped: "segments_cover s segs b \<Longrightarrow> gapped (map span_range segs) 0 b"
proof -
  assume "segments_cover s segs b"
  then have "sorted_wrt (\<lambda>x y. span_end x \<le> span_begin y) segs"
      "list_all (\<lambda>x. span_begin x < span_end x \<and> span_end x \<le> b) segs"
    by (auto simp: segments_cover_def list_all_iff)
  then have "gapped (map span_range segs) c b" if "c \<le> b" "\<forall>x \<in> set segs. c \<le> span_begin x" for c
    using that by (induction segs arbitrary: c) auto
  then show ?thesis by simp
qed

lemma control_spans_gapped:
  "gapped (map span_range (control_spans a encs ls)) 0 (length (token_words_to_ascii (asm_words a)))"
  using segments_cover_gapped [OF markup_spans_cover]
  by (simp add: control_spans_def Let_def split_script_control_lines_def split_glued_body_controls_def
      cut_spans_gapped)

subsection \<open>Source tokens\<close>

lemma source_tokens_ok:
  assumes "spans_exact a"
  shows "sorted (source_tokens_intersecting_output a b e)"
    and "list_all (\<lambda>token. token < length (asm_tokens a)) (source_tokens_intersecting_output a b e)"
proof -
  have ids: "map span_token (asm_tokens a) = [0..<length (asm_tokens a)]"
    using assms by (auto simp: spans_exact_def intro: nth_equalityI)
  then have all: "sorted (map span_token (asm_tokens a))"
      "\<forall>t \<in> set (asm_tokens a). span_token t < length (asm_tokens a)"
    by (simp, metis atLeastLessThan_iff image_eqI list.set_map set_upt)
  have "\<exists>n p q. source_tokens_intersecting_output a b e =
      map span_token (filter q (takeWhile p (drop n (asm_tokens a)))) \<or>
      source_tokens_intersecting_output a b e = []"
    unfolding source_tokens_intersecting_output_def Let_def by (simp split: if_splits) blast
  then obtain n p q where form: "source_tokens_intersecting_output a b e =
      map span_token (filter q (takeWhile p (drop n (asm_tokens a)))) \<or>
      source_tokens_intersecting_output a b e = []" by blast
  have "sorted (map span_token (filter q (takeWhile p (drop n (asm_tokens a)))))"
    using all(1) unfolding sorted_map
    by (meson sorted_wrt_drop sorted_wrt_filter sorted_wrt_take sorted_wrt_takeWhile)
  then show "sorted (source_tokens_intersecting_output a b e)" using form by auto
  show "list_all (\<lambda>token. token < length (asm_tokens a)) (source_tokens_intersecting_output a b e)"
    using form all(2) by (auto simp: list_all_iff dest!: set_takeWhileD in_set_dropD)
qed

lemma retoken_ok:
  assumes "spans_exact a"
    and "fst (cs_complete p) \<le> fst (cs_opcode_range p)" and "snd (cs_opcode_range p) \<le> fst (cs_operand_range p)"
    and "snd (cs_operand_range p) = fst (cs_payload_range p)" and "snd (cs_payload_range p) = snd (cs_complete p)"
  shows "segment_ok (length (asm_tokens a)) (retoken a p)"
  using assms source_tokens_ok [OF assms(1)] by (simp add: segment_ok_def retoken_def Let_def)

lemma retoken_simps [simp]:
  "cs_index (retoken a p) = cs_index p" "cs_complete (retoken a p) = cs_complete p"
  "cs_kind (retoken a p) = cs_kind p" "well_parted (retoken a p) = well_parted p"
  "cs_display_text (retoken a p) = cs_display_text p" "cs_opcode (retoken a p) = cs_opcode p"
  "cs_opcode_range (retoken a p) = cs_opcode_range p"
  "cs_operand_range (retoken a p) = cs_operand_range p"
  "cs_payload_range (retoken a p) = cs_payload_range p"
  by (simp_all add: retoken_def Let_def well_parted_def parts_in_order_def)

subsection \<open>One segment\<close>

lemma decode_segment_ok:
  fixes number index :: nat and ls s geometry
  assumes "spans_exact a" and "span_begin span < span_end span"
  defines "p \<equiv> decode_segment number a ls s geometry (index, span)"
  shows "segment_ok (length (asm_tokens a)) p \<and> well_parted p \<and> cs_index p = index \<and>
    cs_complete p = span_range span \<and> cs_display_text p = False"
proof -
  define b where "b = skip_leading_separators s (span_begin span) (span_end span)"
  define ws where "ws = segment_words a ls s geometry b (span_end span)"
  define segment where "segment = blank_segment number index (span_range span)"
  have b: "span_begin span \<le> b" "b \<le> span_end span"
    using takeWhile_upt_le assms(2) by (simp_all add: b_def skip_leading_separators_def)
  have whole: "cs_complete segment = span_range span" "cs_index segment = index"
      "\<not> cs_display_text segment"
    by (simp_all add: segment_def blank_segment_def)
  show ?thesis
  proof (cases "ws = []")
    case True
    then have "p = retoken a (segment\<lparr> cs_opcode_range := (b, b), cs_operand_range := (b, b),
        cs_payload_range := (b, span_end span) \<rparr>)"
      by (simp add: p_def decode_segment_def Let_def b_def ws_def segment_def)
    then show ?thesis
      using retoken_ok [OF assms(1)] b whole
      by (simp add: well_parted_def parts_in_order_def)
  next
    case False
    then have p: "p = retoken a (control_parts a ls s ws segment)"
      by (simp add: p_def decode_segment_def Let_def b_def ws_def segment_def)
    have "gapped (map word_range ws) b (snd (cs_complete segment))"
      unfolding ws_def whole(1) snd_conv by (rule segment_words_gapped [OF b(2)])
    from control_parts_ok [OF this False, of a ls s] b(1) whole
    have ok: "cs_complete (control_parts a ls s ws segment) = span_range span"
      "cs_index (control_parts a ls s ws segment) = index"
      "fst (cs_complete (control_parts a ls s ws segment)) \<le> fst (cs_opcode_range (control_parts a ls s ws segment))"
      "snd (cs_opcode_range (control_parts a ls s ws segment)) \<le> fst (cs_operand_range (control_parts a ls s ws segment))"
      "snd (cs_operand_range (control_parts a ls s ws segment)) = fst (cs_payload_range (control_parts a ls s ws segment))"
      "snd (cs_payload_range (control_parts a ls s ws segment)) = snd (cs_complete (control_parts a ls s ws segment))"
      "well_parted (control_parts a ls s ws segment)"
      unfolding Let_def by auto
    moreover have "\<not> cs_display_text (control_parts a ls s ws segment)"
      using whole(3) by (simp add: control_parts_def Let_def)
    ultimately show ?thesis
      using retoken_ok [OF assms(1) ok(3-6)] unfolding p by simp
  qed
qed

subsection \<open>The passes over the segments\<close>

text \<open>What every pass keeps: the segments are numbered from \<open>n\<close>, in order behind \<open>lo\<close>, and each is sound.\<close>

definition seq_ok :: "assembled_logical_record \<Rightarrow> nat \<Rightarrow> nat \<Rightarrow> control_segment_ir list \<Rightarrow> bool" where
  "seq_ok a n lo segments \<longleftrightarrow>
     numbered n segments \<and>
     gapped (map cs_complete segments) lo (length (token_words_to_ascii (asm_words a))) \<and>
     list_all (\<lambda>p. segment_ok (length (asm_tokens a)) p \<and> well_parted p) segments"

lemma seq_ok_Cons:
  "seq_ok a n lo (p # rest) \<longleftrightarrow>
     cs_index p = n \<and> lo \<le> fst (cs_complete p) \<and> fst (cs_complete p) < snd (cs_complete p) \<and>
     segment_ok (length (asm_tokens a)) p \<and> well_parted p \<and> seq_ok a (n + 1) (snd (cs_complete p)) rest"
  by (cases "cs_complete p") (auto simp: seq_ok_def)

lemma seq_ok_segments_ok:
  "seq_ok a 0 0 segments \<Longrightarrow>
   segments_ok (length (token_words_to_ascii (asm_words a))) (length (asm_tokens a)) segments"
  by (auto simp: seq_ok_def segments_ok_def list_all_iff)

lemma seq_ok_verifies: "seq_ok a 0 0 segments \<Longrightarrow> verify_control_segments a segments = None"
  by (simp add: verify_control_segments_iff seq_ok_segments_ok)

lemma seq_ok_lower:
  "seq_ok a n lo (p # rest) \<Longrightarrow> lo' \<le> fst (cs_complete p) \<Longrightarrow> seq_ok a n lo' (p # rest)"
  by (simp add: seq_ok_Cons)

lemma seq_ok_shrink: "seq_ok a n lo segments \<Longrightarrow> lo' \<le> lo \<Longrightarrow> seq_ok a n lo' segments"
  by (auto simp: seq_ok_def intro: gapped_lower)

lemma segments_decoded_ok:
  assumes "spans_exact a"
    and "gapped (map span_range spans) lo (length (token_words_to_ascii (asm_words a)))"
  shows "seq_ok a n lo (map (decode_segment number a ls s geometry) (enumerate n spans))"
  using assms(2)
proof (induction spans arbitrary: n lo)
  case Nil
  then show ?case by (simp add: seq_ok_def)
next
  case (Cons x spans)
  then show ?case
    using decode_segment_ok [OF assms(1), of x number ls s geometry n] by (simp add: seq_ok_Cons)
qed

lemma reclaim_separator_ok:
  fixes s :: string
  assumes "spans_exact a" and "gap \<le> fst (cs_complete p)" and "fst (cs_complete p) < snd (cs_complete p)"
    and "segment_ok (length (asm_tokens a)) p" and "well_parted p"
  defines "q \<equiv> reclaim_separator s a gap p"
  shows "cs_index q = cs_index p \<and> gap \<le> fst (cs_complete q) \<and> fst (cs_complete q) < snd (cs_complete q) \<and>
    snd (cs_complete q) = snd (cs_complete p) \<and> segment_ok (length (asm_tokens a)) q \<and> well_parted q"
proof (cases "q = p")
  case True
  then show ?thesis using assms by simp
next
  case False
  then have q: "q = retoken a (p\<lparr> cs_complete := (gap, snd (cs_complete p)),
      cs_opcode_range := (gap, gap), cs_operand_range := (gap, gap),
      cs_payload_range := (gap, snd (cs_payload_range p)) \<rparr>)"
    by (auto simp: q_def reclaim_separator_def)
  have "snd (cs_payload_range p) = snd (cs_complete p)" using assms(4) by (simp add: segment_ok_def)
  then show ?thesis
    using assms(2,3) retoken_ok [OF assms(1)] unfolding q
    by (auto simp: well_parted_def parts_in_order_def)
qed

lemma reclaim_behind_ok:
  "spans_exact a \<Longrightarrow> seq_ok a n gap segments \<Longrightarrow> seq_ok a n gap (reclaim_behind s a gap segments)"
proof (induction segments arbitrary: n gap)
  case Nil
  then show ?case by simp
next
  case (Cons p rest)
  then show ?case
    using reclaim_separator_ok [OF Cons.prems(1), of gap p s] by (simp add: seq_ok_Cons)
qed

lemma reclaim_split_separators_ok:
  assumes "spans_exact a" and "seq_ok a n lo segments"
  shows "seq_ok a n lo (reclaim_split_separators s a segments)"
  using assms reclaim_behind_ok [OF assms(1)]
  by (auto simp: reclaim_split_separators_def seq_ok_Cons split: list.splits)

lemma keep_separator_ok:
  fixes s :: string and ls :: "display_line_ir list"
  assumes "spans_exact a" and "fst (cs_complete p) < snd (cs_complete p)"
    and "segment_ok (length (asm_tokens a)) p" and "well_parted p"
    and "snd (cs_complete p) \<le> fst (cs_complete x)"
  defines "q \<equiv> keep_separator s a ls p x"
  shows "cs_index q = cs_index p \<and> fst (cs_complete q) = fst (cs_complete p) \<and>
    fst (cs_complete q) < snd (cs_complete q) \<and> snd (cs_complete q) \<le> fst (cs_complete x) \<and>
    segment_ok (length (asm_tokens a)) q \<and> well_parted q"
proof (cases "q = p")
  case True
  then show ?thesis using assms by simp
next
  case False
  let ?gap = "snd (cs_complete p)"
  have q: "q = retoken a (p\<lparr> cs_complete := (fst (cs_complete p), ?gap + 1),
      cs_payload_range := (fst (cs_payload_range p), ?gap + 1) \<rparr>)"
    and gap: "?gap < fst (cs_complete x)"
    using False unfolding q_def keep_separator_def by (auto simp: Let_def split: if_splits option.splits)
  show ?thesis
    using assms(2-4) gap retoken_ok [OF assms(1)] unfolding q
    by (auto simp: segment_ok_def [of _ p] well_parted_def parts_in_order_def)
qed

lemma keep_separators_ok:
  "spans_exact a \<Longrightarrow> seq_ok a n lo segments \<Longrightarrow> seq_ok a n lo (keep_separators s a ls segments)"
proof (induction s a ls segments arbitrary: n lo rule: keep_separators.induct)
  case (1 s a ls p x rest)
  have "snd (cs_complete p) \<le> fst (cs_complete x)" using "1.prems"(2) by (simp add: seq_ok_Cons)
  then have k: "cs_index (keep_separator s a ls p x) = n"
      "lo \<le> fst (cs_complete (keep_separator s a ls p x))"
      "fst (cs_complete (keep_separator s a ls p x)) < snd (cs_complete (keep_separator s a ls p x))"
      "snd (cs_complete (keep_separator s a ls p x)) \<le> fst (cs_complete x)"
      "segment_ok (length (asm_tokens a)) (keep_separator s a ls p x)"
      "well_parted (keep_separator s a ls p x)"
    using keep_separator_ok [OF "1.prems"(1), of p x s ls] "1.prems"(2) by (auto simp: seq_ok_Cons)
  have "seq_ok a (n + 1) (snd (cs_complete (keep_separator s a ls p x))) (x # rest)"
    using "1.prems"(2) k(4) by (auto simp: seq_ok_Cons)
  from "1.IH" [OF "1.prems"(1) this] k show ?case by (simp add: seq_ok_Cons)
qed simp_all

lemma promote_ok:
  assumes "seq_ok a n lo segments"
  shows "seq_ok a n lo (promote_corroborated_topic_start s segments)"
proof (cases "promote_corroborated_topic_start s segments = segments")
  case True
  then show ?thesis using assms by simp
next
  case False
  then obtain p x rest where segs: "segments = p # x # rest"
    by (auto simp: promote_corroborated_topic_start_def split: list.splits)
  let ?stop = "snd (cs_complete p)"
  define b where "b = skip_leading_separators s (fst (cs_complete p)) ?stop"
  from False obtain w where w: "words_in s b ?stop [] = [w]"
    and q: "promote_corroborated_topic_start s segments =
      p\<lparr> cs_kind := Topic_start, cs_opcode := word_text s w, cs_opcode_range := word_range w,
         cs_operand_range := (word_end w, word_end w), cs_payload_range := (word_end w, ?stop) \<rparr> # x # rest"
    unfolding promote_corroborated_topic_start_def segs
    by (auto simp: Let_def b_def split: if_splits list.splits)
  have p: "fst (cs_complete p) < ?stop" using assms by (simp add: segs seq_ok_Cons)
  then have b: "fst (cs_complete p) \<le> b" "b \<le> ?stop"
    using takeWhile_upt_le by (simp_all add: b_def skip_leading_separators_def)
  from words_in_gapped [OF b(2), of s "[]"] show ?thesis
    using assms [unfolded segs] b unfolding q w
    by (auto simp: seq_ok_Cons segment_ok_def well_parted_def parts_in_order_def)
qed

lemma decode_control_segments_ok:
  assumes "spans_exact a"
  shows "seq_ok a 0 0 (decode_control_segments number a encs ls)"
proof -
  let ?s = "token_words_to_ascii (asm_words a)"
  have "gapped (map span_range (filter (\<lambda>x. \<not> span_begin x \<ge> span_end x) (control_spans a encs ls))) 0 (length ?s)"
    by (rule gapped_filter [OF control_spans_gapped])
  note segs = reclaim_split_separators_ok [OF assms segments_decoded_ok [OF assms this]]
  show ?thesis
    unfolding decode_control_segments_def keep_framed_line_separators_def Let_def
    using segs keep_separators_ok [OF assms segs]
    by (cases "ls = []") (simp_all add: promote_ok)
qed

text \<open>C5: The control segments that are decoded from an assembled record pass the check of the record
  decoder: they are numbered, in order, disjoint and inside the record's text, their ranges follow each
  other and their source tokens are tokens of the record.\<close>

theorem control_segments_verify:
  "let a = assemble_logical_record_with_sources toks
   in verify_control_segments a (decode_control_segments number a encs ls) = None"
  unfolding Let_def
  by (rule seq_ok_verifies [OF decode_control_segments_ok]) (rule assembled_record(1))

text \<open>C6: In every decoded segment that is not a \<open>c.rev\<close> the opcode, the operands and the payload follow
  each other inside the segment, none of them reversed, and the payload ends where the segment ends.\<close>

theorem control_segments_partition:
  "let a = assemble_logical_record_with_sources toks
   in list_all (\<lambda>p. cs_kind p = Revision_definition \<or>
        (fst (cs_complete p) \<le> fst (cs_opcode_range p) \<and>
         fst (cs_opcode_range p) \<le> snd (cs_opcode_range p) \<and>
         snd (cs_opcode_range p) \<le> fst (cs_operand_range p) \<and>
         fst (cs_operand_range p) \<le> snd (cs_operand_range p) \<and>
         snd (cs_operand_range p) = fst (cs_payload_range p) \<and>
         fst (cs_payload_range p) \<le> snd (cs_payload_range p) \<and>
         snd (cs_payload_range p) = snd (cs_complete p)))
      (decode_control_segments number a encs ls)"
  using decode_control_segments_ok [OF assembled_record(1), of toks number encs ls]
  by (auto simp: Let_def seq_ok_def list_all_iff segment_ok_def well_parted_def parts_in_order_def)

subsection \<open>A reading the check does not see\<close>

text \<open>A record of one display line, \<open>c.rev srfoo |\<close>: the splitter opens a segment on \<open>srfoo\<close>.\<close>

definition revision_tokens :: "token_words list" where
  "revision_tokens = [[0x3F], [0x63, 0x2E, 0x72, 0x65, 0x76], [0x73, 0x72, 0x66, 0x6F, 0x6F], [0x7C]]"

definition revision_span :: "nat \<Rightarrow> nat \<Rightarrow> nat \<Rightarrow> logical_token_span" where
  "revision_span token b e = \<lparr> span_token = token, span_has_control = False, span_spacing = 3,
     output_begin = b, output_end = e, control_only = False \<rparr>"

definition revision_record :: assembled_logical_record where
  "revision_record =
     \<lparr> asm_words = [0x3F, 0x20, 0x63, 0x2E, 0x72, 0x65, 0x76, 0x20, 0x73, 0x72, 0x66, 0x6F, 0x6F, 0x20, 0x7C],
       asm_sources = asm_sources (assemble_logical_record_with_sources revision_tokens),
       asm_tokens = [revision_span 0 0 2, revision_span 1 2 8, revision_span 2 8 14, revision_span 3 14 15],
       word_offsets = [0..<16] \<rparr>"

definition revision_text :: string where
  "revision_text = ''? c.rev srfoo |''"

definition revision_flags :: "bool list" where
  "revision_flags = replicate 15 False"

definition revision_spans :: "markup_segment_span list" where
  "revision_spans = [\<lparr> span_begin = 2, span_end = 7, span_text = ''c.rev'' \<rparr>,
     \<lparr> span_begin = 8, span_end = 15, span_text = ''srfoo |'' \<rparr>]"

lemma revision_assembled:
  "assemble_logical_record_with_sources revision_tokens = revision_record"
  "token_words_to_ascii (asm_words revision_record) = revision_text"
  "length revision_text = 15"
  "display_geometry_bytes revision_record 15 = revision_flags"
  by code_simp+

lemma revision_split: "split_decoded_markup_segment_spans revision_text = revision_spans"
  by code_simp

lemma revision_cut:
  "split_script_control_lines revision_record [plain_line 0 4] revision_text
     (split_glued_body_controls revision_record [] revision_text revision_spans) = revision_spans"
  by code_simp

lemma revision_words:
  "segment_words revision_record [plain_line 0 4] revision_text revision_flags 2 7 =
     [\<lparr> word_begin = 2, word_end = 7, word_geometry = False \<rparr>]"
  "segment_words revision_record [plain_line 0 4] revision_text revision_flags 8 15 =
     [\<lparr> word_begin = 8, word_end = 13, word_geometry = False \<rparr>,
      \<lparr> word_begin = 14, word_end = 15, word_geometry = False \<rparr>]"
  by code_simp+

lemma revision_reading:
  "read_operands revision_record [plain_line 0 4] revision_text Revision_definition
     [\<lparr> word_begin = 2, word_end = 7, word_geometry = False \<rparr>] (2, 7) = reading 2 False (Some 15)"
  by code_simp

lemma revision_opcodes:
  "classify ''c.rev'' = Revision_definition" "classify ''srfoo'' = Structural"
  by code_simp+

lemma revision_ends:
  "skip_leading_separators revision_text 2 7 = 2" "skip_leading_separators revision_text 8 15 = 8"
  "opcode_end_without_separator revision_record revision_text
     \<lparr> word_begin = 2, word_end = 7, word_geometry = False \<rparr> = 7"
  "opcode_end_without_separator revision_record revision_text
     \<lparr> word_begin = 8, word_end = 13, word_geometry = False \<rparr> = 13"
  "slice revision_text 2 7 = ''c.rev''" "slice revision_text 8 13 = ''srfoo''"
  "revision_text ! 7 = CHR '' ''"
  by code_simp+

lemma revision_segment:
  "decode_segment 1 revision_record [plain_line 0 4] revision_text revision_flags
     (0, \<lparr> span_begin = 2, span_end = 7, span_text = ''c.rev'' \<rparr>) =
     retoken revision_record (blank_segment 1 0 (2, 7)\<lparr> cs_kind := Revision_definition, cs_opcode := ''c.rev'',
       cs_opcode_range := (2, 7), cs_operand_range := (7, 15), cs_payload_range := (15, 7) \<rparr>)"
  by (simp add: decode_segment_def Let_def revision_words control_parts_def revision_ends revision_opcodes
      revision_reading reading_def blank_segment_def)

lemma revision_segment_behind:
  "cs_kind (decode_segment 1 revision_record [plain_line 0 4] revision_text revision_flags
     (1, \<lparr> span_begin = 8, span_end = 15, span_text = ''srfoo |'' \<rparr>)) = Structural"
  "cs_complete (decode_segment 1 revision_record [plain_line 0 4] revision_text revision_flags
     (1, \<lparr> span_begin = 8, span_end = 15, span_text = ''srfoo |'' \<rparr>)) = (8, 15)"
  by (simp_all add: decode_segment_def Let_def revision_words control_parts_def revision_ends revision_opcodes
      blank_segment_def)

text \<open>The check does not see a reversed range: where a word of a \<open>c.rev\<close> operand opens a segment of its
  own, the operands end behind the \<open>c.rev\<close> segment and its payload ends in front of its begin.\<close>

lemma revision_payload_reversed:
  "let a = assemble_logical_record_with_sources revision_tokens;
       segments = decode_control_segments 1 a [] [plain_line 0 4]
   in verify_control_segments a segments = None \<and> cs_kind (hd segments) = Revision_definition \<and>
      cs_complete (hd segments) = (2, 7) \<and> cs_operand_range (hd segments) = (7, 15) \<and>
      cs_payload_range (hd segments) = (15, 7)"
proof -
  have "verify_control_segments revision_record
      (decode_control_segments 1 revision_record [] [plain_line 0 4]) = None"
    using seq_ok_verifies [OF decode_control_segments_ok [OF assembled_record(1)]]
    by (metis revision_assembled(1))
  moreover have "enumerate 0 (filter (\<lambda>x. \<not> span_begin x \<ge> span_end x)
      (control_spans revision_record [] [plain_line 0 4])) =
      [(0, \<lparr> span_begin = 2, span_end = 7, span_text = ''c.rev'' \<rparr>),
       (1, \<lparr> span_begin = 8, span_end = 15, span_text = ''srfoo |'' \<rparr>)]"
    by (simp add: control_spans_def Let_def revision_assembled revision_split revision_cut)
      (simp add: revision_spans_def del: One_nat_def)
  ultimately show ?thesis
    by (simp add: revision_assembled(1) decode_control_segments_def Let_def revision_assembled(2-4)
        revision_segment revision_segment_behind reclaim_split_separators_def reclaim_separator_def
        keep_framed_line_separators_def keep_separator_def promote_corroborated_topic_start_def
        revision_ends blank_segment_def del: One_nat_def)
qed

end
