(* ===== verification/Display_Controls.thy ===== *)
theory Display_Controls
  imports Control_Ir
begin

section \<open>Display lines of a decoded record (\<open>src/layout/display_lines.cpp\<close>)\<close>

text \<open>
  What the framing of a record says about its words: the cells a display line draws, the revision mark in its
  margin, and the control segments that are no controls because their opcode is a length byte or stands
  inside a line. The passes over the control segments rename, join and bound them after decoding.
\<close>

subsection \<open>Data (\<open>src/geist/detail/core/internal.hpp\<close>)\<close>

record decoded_logical_record_source =
  source_record :: nat
  source_ir :: logical_record_ir
  source_token_words :: "token_words list"
  source_encoded :: "encoded_logical_token list"
  source_assembled :: assembled_logical_record
  source_segments :: "control_segment_ir list"

record display_line_cell_ir =
  cell_word :: u16
  cell_token :: "nat option"
  cell_word_index :: nat

subsection \<open>Opcodes and display lines\<close>

text \<open>The token of the first word of an opcode's byte range.\<close>

definition opcode_token :: "decoded_logical_record_source \<Rightarrow> output_range \<Rightarrow> nat option" where
  "opcode_token r opcode =
     (if record_display_lines (source_ir r) = None then None
      else if fst opcode \<ge> snd opcode then None
      else let ws = decoded_byte_range_to_word_range (source_assembled r) opcode in
      if fst ws \<ge> snd ws \<or> fst ws \<ge> length (asm_sources (source_assembled r)) then None
      else let source = asm_sources (source_assembled r) ! fst ws in
      if src_kind source \<noteq> Token_word then None else Some (src_token source))"

definition is_display_line_length_opcode :: "decoded_logical_record_source \<Rightarrow> output_range \<Rightarrow> bool" where
  "is_display_line_length_opcode r opcode =
     (case opcode_token r opcode of
        None \<Rightarrow> False
      | Some token \<Rightarrow> is_display_line_length_token (source_ir r) token)"

definition is_display_line_embedded_opcode :: "decoded_logical_record_source \<Rightarrow> output_range \<Rightarrow> bool" where
  "is_display_line_embedded_opcode r opcode =
     (case opcode_token r opcode of
        None \<Rightarrow> False
      | Some token \<Rightarrow>
          (case display_line_of_token (source_ir r) token of
             None \<Rightarrow> False
           | Some line \<Rightarrow> token > prefix_token line + 1))"

definition segment_opens_at :: "decoded_logical_record_source \<Rightarrow> nat \<Rightarrow> control_segment_ir \<Rightarrow> bool" where
  "segment_opens_at r keyword segment =
     (if cs_display_text segment then False
      else let b = fst (cs_complete segment);
               toks = opcode_tokens (source_assembled r) (b, min (snd (cs_complete segment)) (b + 2))
           in toks \<noteq> [] \<and> hd toks = keyword)"

definition is_subject_index_display_line ::
  "decoded_logical_record_source \<Rightarrow> display_line_ir \<Rightarrow> bool" where
  "is_subject_index_display_line r line =
     (let keyword = prefix_token line + 1 in
      if keyword \<ge> token_end line \<or> keyword \<ge> length (source_token_words r) \<or>
         ascii_lower (token_words_to_ascii (source_token_words r ! keyword)) \<noteq> ''si'' then False
      else list_ex (segment_opens_at r keyword) (source_segments r))"

subsection \<open>The cells of a line\<close>

text \<open>The walk over the assembled words of a line: words of the length byte and leading spacing controls are
  not drawn, a run of inserted blanks between drawn words is one cell.\<close>

fun walk_cells ::
  "logical_record_ir \<Rightarrow> display_line_ir \<Rightarrow> bool \<Rightarrow> bool \<Rightarrow> logical_word_source list \<Rightarrow>
   display_line_cell_ir list" where
  "walk_cells ir line started pending [] = []"
| "walk_cells ir line started pending (source # rest) =
     (if src_kind source = Inserted_space then walk_cells ir line started (pending \<or> started) rest
      else if src_token source < prefix_token line then walk_cells ir line started pending rest
      else if src_token source \<ge> token_end line then []
      else case display_text_words ir (src_token source) of
        None \<Rightarrow> walk_cells ir line started pending rest
      | Some words \<Rightarrow>
          if src_word source \<ge> length words \<or> (src_word source = 0 \<and> words ! 0 < 4)
          then walk_cells ir line started pending rest
          else (if pending then [\<lparr> cell_word = 0x20, cell_token = None, cell_word_index = 0 \<rparr>] else []) @
               \<lparr> cell_word = words ! src_word source, cell_token = Some (src_token source),
                 cell_word_index = src_word source \<rparr> #
               walk_cells ir line True False rest)"

definition display_line_cells ::
  "decoded_logical_record_source \<Rightarrow> display_line_ir \<Rightarrow> display_line_cell_ir list" where
  "display_line_cells r line = walk_cells (source_ir r) line False False (asm_sources (source_assembled r))"

definition display_line_columns :: "decoded_logical_record_source \<Rightarrow> display_line_ir \<Rightarrow> token_words" where
  "display_line_columns r line = map cell_word (display_line_cells r line)"

text \<open>\<open>figure_display_glyph\<close> (\<open>src/ir/figure_block_ir.cpp\<close>).\<close>

definition figure_glyph_table :: "(u16 \<times> string) list" where
  "figure_glyph_table =
     [(0xA0, '' ''), (0x2500, ''_''), (0x2502, ''|''),
      (0x250C, '' ''), (0x2510, '' ''), (0x252C, '' ''),
      (0x2514, ''|''), (0x2518, ''|''), (0x2534, ''|''), (0x251C, ''|''), (0x2524, ''|''), (0x253C, ''|''),
      (0x2666, [CHR 0xC2, CHR 0xB0]),
      (0x2190, [CHR 0xE2, CHR 0x86, CHR 0x90]), (0x2191, [CHR 0xE2, CHR 0x86, CHR 0x91]),
      (0x2192, [CHR 0xE2, CHR 0x86, CHR 0x92]), (0x2193, [CHR 0xE2, CHR 0x86, CHR 0x93]),
      (0x255A, [CHR 0xE2, CHR 0x95, CHR 0x9A]), (0x25A0, [CHR 0xE2, CHR 0x96, CHR 0xA0]),
      (0xFFFF, [CHR 0xC3, CHR 0xBF])]"

definition figure_display_glyph :: "u16 \<Rightarrow> string" where
  "figure_display_glyph word =
     (if word \<ge> 0x20 \<and> word \<le> 0x7E then [char_of (unat word)]
      else case map_of figure_glyph_table word of
             Some glyph \<Rightarrow> glyph
           | None \<Rightarrow> token_words_to_ascii [word])"

definition display_line_text :: "decoded_logical_record_source \<Rightarrow> display_line_ir \<Rightarrow> string" where
  "display_line_text r line = concat (map figure_display_glyph (display_line_columns r line))"

fun running_sizes :: "nat \<Rightarrow> token_words \<Rightarrow> nat list" where
  "running_sizes size_so_far [] = [size_so_far]"
| "running_sizes size_so_far (word # words) =
     size_so_far # running_sizes (size_so_far + length (figure_display_glyph word)) words"

definition display_line_column_offsets ::
  "decoded_logical_record_source \<Rightarrow> display_line_ir \<Rightarrow> nat list" where
  "display_line_column_offsets r line = running_sizes 0 (display_line_columns r line)"

subsection \<open>Margin marks\<close>

definition is_bar_words :: "token_words \<Rightarrow> bool" where
  "is_bar_words ws \<longleftrightarrow> ws = [0x7C] \<or> ws = [0x2502]"

definition draws_behind :: "display_line_cell_ir list \<Rightarrow> bool" where
  "draws_behind cells \<longleftrightarrow> list_ex (\<lambda>cell. cell_word cell > 0x20) (drop 3 cells)"

definition is_display_line_margin_revision_bar :: "decoded_logical_record_source \<Rightarrow> nat \<Rightarrow> bool" where
  "is_display_line_margin_revision_bar r token =
     (let toks = tokens (source_ir r) in
      if token = 0 \<or> token \<ge> length toks \<or> \<not> is_bar_words (decoded_words (toks ! token)) then False
      else case display_line_of_token (source_ir r) token of
        None \<Rightarrow> False
      | Some line \<Rightarrow>
          if token \<noteq> prefix_token line + 2 \<or> decoded_words (toks ! (token - 1)) \<noteq> [0x20] then False
          else let cells = display_line_cells r line in
          if length cells < 4 \<or> cell_token (cells ! 0) \<noteq> Some (token - 1) \<or>
             cell_token (cells ! 1) \<noteq> Some token \<or> cell_word (cells ! 2) \<noteq> 0x20 then False
          else draws_behind cells)"

text \<open>The sorted declared characters are searched with \<open>std::binary_search\<close>.\<close>

definition binary_search_u32 :: "u32 list \<Rightarrow> u32 \<Rightarrow> bool" where
  "binary_search_u32 xs x =
     (let i = bound_index (\<lambda>y. y < x) xs in i < length xs \<and> \<not> x < xs ! i)"

definition margin_mark_glyph :: "u16 \<Rightarrow> u32 list \<Rightarrow> bool" where
  "margin_mark_glyph word declared =
     (if word = 0x2502 \<or> word = 0x00A6 then True
      else if word < 0x21 \<or> word > 0x7E then False
      else let alphanumeric = (word \<ge> 0x30 \<and> word \<le> 0x39) \<or> (word \<ge> 0x41 \<and> word \<le> 0x5A) \<or>
                              (word \<ge> 0x61 \<and> word \<le> 0x7A)
           in \<not> alphanumeric \<or> binary_search_u32 declared (ucast word))"

record margin_mark_reading =
  reading_mark :: "u32 option"
  reading_token :: "nat option"
  reading_place :: margin_mark_place_ir

definition no_margin_mark :: margin_mark_reading where
  "no_margin_mark = \<lparr> reading_mark = None, reading_token = None, reading_place = No_mark \<rparr>"

definition displayed_words :: "logical_token_ir \<Rightarrow> token_words" where
  "displayed_words t =
     (case decoded_words t of [] \<Rightarrow> [] | w # ws \<Rightarrow> if w < 4 then ws else w # ws)"

definition is_title_opcode :: "token_words \<Rightarrow> bool" where
  "is_title_opcode ws \<longleftrightarrow> ws = [0x53, 0x54] \<or> ws = [0x73, 0x74]"

definition read_margin_mark ::
  "decoded_logical_record_source \<Rightarrow> display_line_ir \<Rightarrow> u32 list \<Rightarrow> margin_mark_reading" where
  "read_margin_mark r line declared =
     (let toks = tokens (source_ir r); first = prefix_token line + 1 in
      if first + 1 \<ge> token_end line \<or> first + 1 \<ge> length toks then no_margin_mark
      else let cells = display_line_cells r line in
      if length cells < 3 then no_margin_mark
      else let opcode = displayed_words (toks ! first); next_words = displayed_words (toks ! (first + 1)) in
      if is_title_opcode opcode \<and> cell_token (cells ! 0) = Some first \<and> cell_token (cells ! 1) = Some first \<and>
         cell_token (cells ! 2) \<noteq> None \<and> cell_token (cells ! 2) \<noteq> Some first \<and> cell_word (cells ! 2) > 0x20
      then \<lparr> reading_mark = Some (ucast (cell_word (cells ! 2))), reading_token = cell_token (cells ! 2),
             reading_place = Title_column \<rparr>
      else if length cells < 4 \<or> opcode \<noteq> [0x20] \<or> length next_words \<noteq> 1 \<or>
              \<not> margin_mark_glyph (hd next_words) declared \<or> cell_token (cells ! 0) \<noteq> Some first \<or>
              cell_token (cells ! 1) \<noteq> Some (first + 1) \<or> cell_word (cells ! 2) \<noteq> 0x20 then no_margin_mark
      else if \<not> draws_behind cells then no_margin_mark
      else \<lparr> reading_mark = Some (ucast (hd next_words)), reading_token = Some (first + 1),
             reading_place = Row_margin \<rparr>)"

definition mark_line ::
  "decoded_logical_record_source \<Rightarrow> u32 list \<Rightarrow> display_line_ir \<Rightarrow> display_line_ir" where
  "mark_line r declared line =
     (let m = read_margin_mark r line declared
      in line\<lparr> margin_mark := reading_mark m, margin_mark_token := reading_token m,
               margin_mark_place := reading_place m \<rparr>)"

definition assign_display_line_margin_marks ::
  "u32 list \<Rightarrow> decoded_logical_record_source \<Rightarrow> decoded_logical_record_source" where
  "assign_display_line_margin_marks declared r =
     (if \<not> display_lines_parse (source_ir r) then r
      else r\<lparr> source_ir := (source_ir r)\<lparr> display_lines :=
             map (mark_line r declared) (display_lines (source_ir r)) \<rparr> \<rparr>)"

definition display_line_margin_mark_at :: "decoded_logical_record_source \<Rightarrow> nat \<Rightarrow> u32 option" where
  "display_line_margin_mark_at r token =
     (case display_line_of_token (source_ir r) token of
        None \<Rightarrow> None
      | Some line \<Rightarrow>
          if margin_mark line = None \<or> margin_mark_token line \<noteq> Some token then None else margin_mark line)"

definition is_title_line :: "decoded_logical_record_source \<Rightarrow> display_line_ir \<Rightarrow> bool" where
  "is_title_line r line =
     (let first = prefix_token line + 1 in
      if first \<ge> token_end line \<or> first \<ge> length (tokens (source_ir r)) then False
      else is_title_opcode (displayed_words (tokens (source_ir r) ! first)))"

definition framed_lines :: "decoded_logical_record_source \<Rightarrow> display_line_ir list" where
  "framed_lines r = (if \<not> display_lines_parse (source_ir r) then [] else display_lines (source_ir r))"

definition topic_title_revision_mark :: "decoded_logical_record_source list \<Rightarrow> u32 option" where
  "topic_title_revision_mark records =
     (case concat (map (\<lambda>r. filter (is_title_line r) (framed_lines r)) records) of
        [] \<Rightarrow> None
      | line # _ \<Rightarrow> if margin_mark_place line = Title_column then margin_mark line else None)"

definition margin_mark_error ::
  "decoded_logical_record_source \<Rightarrow> u32 list \<Rightarrow> display_line_ir \<Rightarrow> string option" where
  "margin_mark_error r declared line =
     (let m = read_margin_mark r line declared in
      if reading_mark m \<noteq> margin_mark line \<or> reading_token m \<noteq> margin_mark_token line \<or>
         reading_place m \<noteq> margin_mark_place line
      then Some ''display line margin mark disagrees with the line's cells''
      else if (margin_mark line \<noteq> None) \<noteq> (margin_mark_place line \<noteq> No_mark)
      then Some ''display line margin mark has no place''
      else None)"

definition verify_display_line_margin_marks ::
  "decoded_logical_record_source \<Rightarrow> u32 list \<Rightarrow> string option" where
  "verify_display_line_margin_marks r declared =
     (case List.map_filter (margin_mark_error r declared) (display_lines (source_ir r)) of
        [] \<Rightarrow> None
      | message # _ \<Rightarrow> Some message)"

definition is_display_line_list_bullet :: "decoded_logical_record_source \<Rightarrow> nat \<Rightarrow> bool" where
  "is_display_line_list_bullet r token =
     (let toks = tokens (source_ir r); spaces = (\<lambda>t. all_space_words (decoded_words t)) in
      if token \<ge> length toks \<or> decoded_words (toks ! token) \<noteq> [0x2666] then False
      else case display_line_of_token (source_ir r) token of
        None \<Rightarrow> False
      | Some line \<Rightarrow>
          if token \<le> prefix_token line + 1 \<or> token + 2 \<ge> token_end line \<or>
             (\<not> spaces (toks ! (token - 1)) \<and> \<not> is_display_line_margin_revision_bar r (token - 1)) \<or>
             decoded_words (toks ! (token + 1)) \<noteq> [0x20, 0x20] then False
          else let origin = prefix_token line + 1;
                   first = (if origin + 1 < token \<and> decoded_words (toks ! origin) = [0x20] \<and>
                               is_bar_words (decoded_words (toks ! (origin + 1)))
                            then origin + 2 else origin) in
          if \<not> list_all (\<lambda>i. spaces (toks ! i)) [first..<token] then False
          else list_ex (\<lambda>i. list_ex (\<lambda>w. w > 0x20) (decoded_words (toks ! i))) [token + 2..<token_end line])"

definition column_class :: "u16 \<Rightarrow> char" where
  "column_class word =
     (if word = 0x20 then CHR ''.''
      else if word \<ge> 0x2500 \<and> word \<le> 0x25FF then CHR ''B''
      else if word = 0xFFFF then CHR ''?''
      else CHR ''x'')"

definition format_display_line_ir ::
  "decoded_logical_record_source \<Rightarrow> display_line_ir \<Rightarrow> nat \<Rightarrow> string" where
  "format_display_line_ir r line index =
     (let classes = map column_class (display_line_columns r line);
          quote = [CHR 0x27]
      in ''line='' @ decimal index @ '' prefix_token='' @ decimal (prefix_token line) @
         '' length='' @ decimal (unat (enc_value (encoded (tokens (source_ir r) ! prefix_token line)))) @
         '' tokens=['' @ decimal (prefix_token line + 1) @ '','' @ decimal (token_end line) @
         '') cols='' @ decimal (length classes) @ '' class='' @ quote @ classes @ quote @
         '' text='' @ quote @ display_line_text r line @ quote)"

subsection \<open>Controls that are none\<close>

definition visible_display_token :: "logical_token_ir \<Rightarrow> bool" where
  "visible_display_token t \<longleftrightarrow> list_ex (\<lambda>w. w \<noteq> 0x20) (decoded_words t)"

definition token_word_text :: "logical_token_ir \<Rightarrow> string" where
  "token_word_text t =
     (let ws = filter (\<lambda>w. \<not> w < 4) (decoded_words t) in
      if list_ex (\<lambda>w. w > 0x7F) ws then []
      else let s = map (\<lambda>w. char_of (unat w)) ws; blank = (\<lambda>ch. ch = CHR '' '')
           in rev (dropWhile blank (rev (dropWhile blank s))))"

text \<open>A control withdrawn: the segment's text becomes its payload.\<close>

definition demote :: "control_segment_ir \<Rightarrow> control_segment_ir" where
  "demote segment =
     (let b = fst (cs_complete segment)
      in segment\<lparr> cs_kind := Text_kind, cs_display_text := True, cs_opcode := [],
                  cs_opcode_range := (b, b), cs_operand_range := (b, b),
                  cs_payload_range := cs_complete segment \<rparr>)"

definition empty_payload :: "control_segment_ir \<Rightarrow> bool" where
  "empty_payload segment \<longleftrightarrow> fst (cs_payload_range segment) = snd (cs_payload_range segment)"

definition demote_length_byte ::
  "decoded_logical_record_source \<Rightarrow> bool \<Rightarrow> control_segment_ir \<Rightarrow> control_segment_ir" where
  "demote_length_byte r selected_line segment =
     (if cs_kind segment = Text_kind \<or> cs_opcode segment = [] then segment
      else if cs_kind segment \<notin> {Menu_start, Menu_item, Menu_end, Table_start, Table_end, Message_start, Select} \<and>
              \<not> selected_line then segment
      else case cs_source_tokens segment of
        [] \<Rightarrow> segment
      | token # _ \<Rightarrow>
          if \<not> is_display_line_length_opcode r (cs_opcode_range segment) then segment
          else if ascii_lower (token_word_text (tokens (source_ir r) ! token)) \<noteq> ascii_lower (cs_opcode segment)
          then segment
          else demote segment)"

text \<open>The line a \<open>cselect\<close> with an empty payload selects: the segment behind it, in its state after its own
  turn of the loop.\<close>

fun demote_length_bytes ::
  "decoded_logical_record_source \<Rightarrow> bool \<Rightarrow> control_segment_ir list \<Rightarrow> control_segment_ir list" where
  "demote_length_bytes r selected [] = []"
| "demote_length_bytes r selected (segment # rest) =
     (let p = demote_length_byte r selected segment
      in p # demote_length_bytes r (cs_kind p = Select \<and> empty_payload p) rest)"

definition demote_length_byte_controls ::
  "decoded_logical_record_source \<Rightarrow> bool \<Rightarrow> decoded_logical_record_source" where
  "demote_length_byte_controls r carried_selection =
     r\<lparr> source_segments := demote_length_bytes r carried_selection (source_segments r) \<rparr>"

definition text_on_line :: "logical_record_ir \<Rightarrow> display_line_ir \<Rightarrow> control_segment_ir \<Rightarrow> bool" where
  "text_on_line ir line segment \<longleftrightarrow>
     cs_source_tokens segment \<noteq> [] \<and> display_line_of_token ir (hd (cs_source_tokens segment)) = Some line"

text \<open>The end of a segment that absorbs the segments behind it.\<close>

definition absorbed_end :: "control_segment_ir \<Rightarrow> control_segment_ir list \<Rightarrow> nat" where
  "absorbed_end segment absorbed = snd (cs_complete (last (segment # absorbed)))"

definition menu_line :: "logical_record_ir \<Rightarrow> control_segment_ir \<Rightarrow> display_line_ir option" where
  "menu_line ir segment =
     (if cs_kind segment = Menu_item \<and> cs_source_tokens segment \<noteq> []
      then display_line_of_token ir (hd (cs_source_tokens segment)) else None)"

definition byte_of_token :: "assembled_logical_record \<Rightarrow> nat \<Rightarrow> nat" where
  "byte_of_token a token =
     (if token \<ge> length (asm_tokens a) then length (token_words_to_ascii (asm_words a))
      else byte_of_word a (output_begin (asm_tokens a ! token)))"

definition bound_item ::
  "assembled_logical_record \<Rightarrow> display_line_ir \<Rightarrow> control_segment_ir \<Rightarrow> control_segment_ir list \<Rightarrow>
   control_segment_ir" where
  "bound_item a line segment absorbed =
     (let line_end = byte_of_token a (token_end line);
          whole_end = absorbed_end segment absorbed;
          payload_b = fst (cs_payload_range segment);
          e = (if line_end > payload_b \<and> line_end < whole_end then line_end else whole_end)
      in retoken a (segment\<lparr> cs_complete := (fst (cs_complete segment), e),
                             cs_payload_range := (payload_b, e) \<rparr>))"

function bound_menu_items ::
  "logical_record_ir \<Rightarrow> assembled_logical_record \<Rightarrow> nat \<Rightarrow> control_segment_ir list \<Rightarrow> control_segment_ir list" where
  "bound_menu_items ir a n [] = []"
| "bound_menu_items ir a n (segment # rest) =
     (case menu_line ir segment of
        None \<Rightarrow> segment\<lparr> cs_index := n \<rparr> # bound_menu_items ir a (n + 1) rest
      | Some line \<Rightarrow>
          if hd (cs_source_tokens segment) = prefix_token line
          then segment\<lparr> cs_index := n \<rparr> # bound_menu_items ir a (n + 1) rest
          else let joins = (\<lambda>p. cs_kind p = Text_kind \<and> text_on_line ir line p)
               in (bound_item a line segment (takeWhile joins rest))\<lparr> cs_index := n \<rparr>
                    # bound_menu_items ir a (n + 1) (dropWhile joins rest))"
  by pat_completeness auto
termination
  by (relation "measure (\<lambda>(_, _, _, segments). length segments)")
    (auto simp: less_Suc_eq_le length_dropWhile_le)

definition bound_menu_items_to_display_lines ::
  "decoded_logical_record_source \<Rightarrow> decoded_logical_record_source" where
  "bound_menu_items_to_display_lines r =
     r\<lparr> source_segments := bound_menu_items (source_ir r) (source_assembled r) 0 (source_segments r) \<rparr>"

definition joins_selected ::
  "logical_record_ir \<Rightarrow> display_line_ir \<Rightarrow> control_segment_ir \<Rightarrow> bool" where
  "joins_selected ir line p \<longleftrightarrow>
     cs_display_text p \<and> cs_kind p = Text_kind \<and> text_on_line ir line p \<and>
     hd (cs_source_tokens p) \<noteq> prefix_token line + 1"

definition selected_line_of :: "logical_record_ir \<Rightarrow> bool \<Rightarrow> control_segment_ir \<Rightarrow> display_line_ir option" where
  "selected_line_of ir carried segment =
     (if (cs_kind segment = Select \<or> cs_kind segment = Message_start \<or>
          (cs_kind segment = Structural \<and> length (cs_opcode segment) > 2 \<and>
           starts_with (ascii_lower (cs_opcode segment)) ''sr'') \<or>
          (carried \<and> cs_kind segment = Text_kind \<and> \<not> cs_display_text segment)) \<and>
         cs_source_tokens segment \<noteq> []
      then display_line_of_token ir (last (cs_source_tokens segment)) else None)"

definition join_segment ::
  "assembled_logical_record \<Rightarrow> control_segment_ir \<Rightarrow> control_segment_ir list \<Rightarrow> control_segment_ir" where
  "join_segment a segment absorbed =
     (if absorbed = [] then segment
      else let e = absorbed_end segment absorbed;
               grown = segment\<lparr> cs_complete := (fst (cs_complete segment), e) \<rparr>;
               fixed = (if cs_kind segment = Message_start \<and>
                           fst (cs_operand_range segment) = snd (cs_operand_range segment)
                        then grown\<lparr> cs_operand_range := (fst (cs_operand_range segment), e),
                                    cs_payload_range := (e, e), cs_malformed := False \<rparr>
                        else grown)
           in retoken a (fixed\<lparr> cs_payload_range := (fst (cs_payload_range fixed), e) \<rparr>))"

function rejoin_selected ::
  "logical_record_ir \<Rightarrow> assembled_logical_record \<Rightarrow> bool \<Rightarrow> nat \<Rightarrow> control_segment_ir list \<Rightarrow>
   control_segment_ir list" where
  "rejoin_selected ir a carried n [] = []"
| "rejoin_selected ir a carried n (segment # rest) =
     (case selected_line_of ir carried segment of
        None \<Rightarrow> segment\<lparr> cs_index := n \<rparr> # rejoin_selected ir a False (n + 1) rest
      | Some line \<Rightarrow>
          (join_segment a segment (takeWhile (joins_selected ir line) rest))\<lparr> cs_index := n \<rparr>
            # rejoin_selected ir a False (n + 1) (dropWhile (joins_selected ir line) rest))"
  by pat_completeness auto
termination
  by (relation "measure (\<lambda>(_, _, _, _, segments). length segments)")
    (auto simp: less_Suc_eq_le length_dropWhile_le)

definition rejoin_selected_line_display_text ::
  "decoded_logical_record_source \<Rightarrow> bool \<Rightarrow> decoded_logical_record_source" where
  "rejoin_selected_line_display_text r carried_selection =
     r\<lparr> source_segments :=
         rejoin_selected (source_ir r) (source_assembled r) carried_selection 0 (source_segments r) \<rparr>"

text \<open>The last segment behind which only fonts with an empty payload stand.\<close>

fun carried_from :: "control_segment_ir list \<Rightarrow> control_segment_ir option" where
  "carried_from [] = None"
| "carried_from [segment] = Some segment"
| "carried_from (segment # before # rest) =
     (if cs_kind segment = Font \<and> empty_payload segment then carried_from (before # rest) else Some segment)"

definition carried_control_segment :: "decoded_logical_record_source \<Rightarrow> control_segment_ir option" where
  "carried_control_segment r = carried_from (rev (source_segments r))"

definition ends_with_carried_selection :: "decoded_logical_record_source \<Rightarrow> bool" where
  "ends_with_carried_selection r =
     (case carried_control_segment r of
        None \<Rightarrow> False
      | Some carried \<Rightarrow> cs_kind carried = Select \<and> empty_payload carried)"

text \<open>One turn of the loop that reads a segment's opcode off the framing.\<close>

definition demote_owned ::
  "decoded_logical_record_source \<Rightarrow> display_line_ir list \<Rightarrow> control_segment_ir \<Rightarrow> control_segment_ir" where
  "demote_owned r ls segment =
     (let toks = tokens (source_ir r) in
      if cs_source_tokens segment = [] then segment
      else if cs_kind segment = Topic_start \<and> is_display_line_embedded_opcode r (cs_opcode_range segment)
      then demote segment
      else
        let index_keyword = cs_kind segment = Text_kind \<and>
              ascii_lower (token_word_text (toks ! hd (cs_source_tokens segment))) = ''si'' in
        if cs_kind segment \<notin> {Structural, Title, Text_kind, Layout_directive} then segment
        else case find (\<lambda>token. visible_display_token (toks ! token) \<and>
                                \<not> is_display_line_length_token (source_ir r) token) (cs_source_tokens segment) of
          None \<Rightarrow> segment
        | Some first \<Rightarrow>
            if first \<ge> length toks then segment
            else case find (\<lambda>line. first > prefix_token line \<and> first < token_end line) (rev ls) of
              None \<Rightarrow> segment
            | Some line \<Rightarrow>
                let origin = prefix_token line + 1;
                    visible_before = list_ex (\<lambda>token. visible_display_token (toks ! token)) [origin..<first] \<or>
                      ((cs_kind segment = Title \<or> index_keyword) \<and> first \<noteq> origin)
                in if \<not> visible_before \<and> (cs_opcode segment = [] \<or> first = origin) then segment
                   else demote segment)"

definition demote_display_line_owned_controls ::
  "bool \<Rightarrow> decoded_logical_record_source \<Rightarrow> decoded_logical_record_source" where
  "demote_display_line_owned_controls carried_selection r =
     (if source_segments r = [] then r
      else case record_display_lines (source_ir r) of
        None \<Rightarrow> r
      | Some ls \<Rightarrow>
          let r1 = demote_length_byte_controls r carried_selection;
              r2 = r1\<lparr> source_segments := map (demote_owned r1 ls) (source_segments r1) \<rparr>
          in bound_menu_items_to_display_lines (rejoin_selected_line_display_text r2 carried_selection))"

end
