(* ===== verification/Sources.thy ===== *)
theory Sources
  imports Control_Verify Display_Controls Framing
begin

section \<open>Decoded record sources (\<open>src/container/logical.cpp\<close>)\<close>

text \<open>
  \<open>decode_logical_record_sources\<close>: for a run of records the token IR, its assembly, the control segments and
  the corrections the display lines make to them. The book's dictionary is an argument (the code publishes
  it once per book); payload ranges and record numbers are those of the book's index.
\<close>

subsection \<open>Decoding a run of records\<close>

definition decode_source ::
  "bytes \<Rightarrow> boo_directory \<Rightarrow> dictionary \<Rightarrow> u32 list \<Rightarrow> bool \<Rightarrow> nat \<Rightarrow> logical_record_ir \<Rightarrow>
   decoded_logical_record_source" where
  "decode_source bs dir dict declared carried number ir =
     (let a = assemble_logical_record_with_sources (project_token_words ir)
      in assign_display_line_margin_marks declared
           (demote_display_line_owned_controls carried
              \<lparr> source_record = number, source_ir = ir, source_token_words = project_token_words ir,
                source_encoded = project_encoded_tokens ir, source_assembled = a,
                source_segments = decode_control_segments number a (project_encoded_tokens ir) (display_lines ir) \<rparr>))"

text \<open>The loop over the records; the selection that the record in front carries over is the first flag.\<close>

fun decode_sources_from ::
  "bytes \<Rightarrow> boo_directory \<Rightarrow> dictionary \<Rightarrow> u32 list \<Rightarrow> (nat \<times> nat) list \<Rightarrow>
   decoded_logical_record_source list \<Rightarrow> nat list \<Rightarrow> decoded_logical_record_source list result" where
  "decode_sources_from bs dir dict declared ranges records [] = Inr records"
| "decode_sources_from bs dir dict declared ranges records (number # rest) =
     (let payload = ranges ! (number - 1) in
      if fst payload > snd payload \<or> snd payload > length bs then Inr []
      else let ir = decode_record_payload_ir bs dir dict (fst payload) (snd payload) number in
      if verify_token_ir ir \<noteq> None then Inr []
      else let carried = records \<noteq> [] \<and> source_record (last records) + 1 = number \<and>
                         ends_with_carried_selection (last records);
               decoded = decode_source bs dir dict declared carried number ir in
      case verify_control_segments (source_assembled decoded) (source_segments decoded) of
        Some message \<Rightarrow> Inl (RuntimeError (''invalid control segment IR in logical record '' @
                          decimal number @ '': '' @ message))
      | None \<Rightarrow> decode_sources_from bs dir dict declared ranges (records @ [decoded]) rest)"

definition decode_logical_record_sources ::
  "bytes \<Rightarrow> boo_directory \<Rightarrow> dictionary \<Rightarrow> u32 list \<Rightarrow> (nat \<times> nat) list \<Rightarrow> nat \<Rightarrow> nat \<Rightarrow>
   decoded_logical_record_source list result" where
  "decode_logical_record_sources bs dir dict declared ranges first_record end_record =
     (if first_record = 0 \<or> end_record < first_record \<or> end_record > length ranges + 1 then Inr []
      else decode_sources_from bs dir dict declared ranges [] [first_record..<end_record])"

subsection \<open>The display-line passes keep the segments sound\<close>

text \<open>Sound segments, whatever their numbers.\<close>

definition bodies_ok :: "assembled_logical_record \<Rightarrow> nat \<Rightarrow> control_segment_ir list \<Rightarrow> bool" where
  "bodies_ok a lo segments \<longleftrightarrow>
     gapped (map cs_complete segments) lo (length (token_words_to_ascii (asm_words a))) \<and>
     list_all (\<lambda>p. segment_ok (length (asm_tokens a)) p \<and> well_parted p) segments"

lemma seq_ok_bodies: "seq_ok a n lo segments \<longleftrightarrow> numbered n segments \<and> bodies_ok a lo segments"
  by (auto simp: seq_ok_def bodies_ok_def)

lemma bodies_ok_Cons:
  "bodies_ok a lo (p # rest) \<longleftrightarrow>
     lo \<le> fst (cs_complete p) \<and> fst (cs_complete p) < snd (cs_complete p) \<and>
     segment_ok (length (asm_tokens a)) p \<and> well_parted p \<and> bodies_ok a (snd (cs_complete p)) rest"
  by (cases "cs_complete p") (auto simp: bodies_ok_def)

lemma bodies_ok_lower: "bodies_ok a lo segments \<Longrightarrow> lo' \<le> lo \<Longrightarrow> bodies_ok a lo' segments"
  by (auto simp: bodies_ok_def intro: gapped_lower)

text \<open>A pass that changes each segment in place.\<close>

lemma bodies_ok_map:
  assumes "bodies_ok a lo segments"
    and "\<And>p. p \<in> set segments \<Longrightarrow> cs_complete (f p) = cs_complete p \<and> cs_index (f p) = cs_index p \<and>
      (segment_ok (length (asm_tokens a)) p \<longrightarrow> well_parted p \<longrightarrow> fst (cs_complete p) < snd (cs_complete p) \<longrightarrow>
       segment_ok (length (asm_tokens a)) (f p) \<and> well_parted (f p))"
  shows "bodies_ok a lo (map f segments)"
  using assms by (induction segments arbitrary: lo) (simp_all add: bodies_ok_Cons)

lemma demote_ok:
  assumes "segment_ok n p" and "fst (cs_complete p) < snd (cs_complete p)"
  shows "segment_ok n (demote p) \<and> well_parted (demote p)"
  using assms by (simp add: segment_ok_def demote_def Let_def well_parted_def parts_in_order_def)

lemma demote_simps [simp]: "cs_complete (demote p) = cs_complete p" "cs_index (demote p) = cs_index p"
  by (simp_all add: demote_def Let_def)

lemma demote_length_byte_cases: "demote_length_byte r sel p = p \<or> demote_length_byte r sel p = demote p"
  by (auto simp: demote_length_byte_def split: list.splits)

lemma demote_owned_cases: "demote_owned r ls p = p \<or> demote_owned r ls p = demote p"
  by (auto simp: demote_owned_def Let_def split: option.splits)

lemma demote_length_bytes_ok:
  "bodies_ok a lo segments \<Longrightarrow> bodies_ok a lo (demote_length_bytes r selected segments)"
proof (induction segments arbitrary: lo selected)
  case Nil
  then show ?case by simp
next
  case (Cons p rest)
  let ?q = "demote_length_byte r selected p"
  have p: "lo \<le> fst (cs_complete p)" "fst (cs_complete p) < snd (cs_complete p)"
      "segment_ok (length (asm_tokens a)) p" "well_parted p" "bodies_ok a (snd (cs_complete p)) rest"
    using Cons.prems by (simp_all add: bodies_ok_Cons)
  have "cs_complete ?q = cs_complete p \<and> segment_ok (length (asm_tokens a)) ?q \<and> well_parted ?q"
    using demote_length_byte_cases [of r selected p] demote_ok [OF p(3,2)] p(3,4) by auto
  then show ?case using p Cons.IH by (simp add: Let_def bodies_ok_Cons)
qed

lemma demote_owned_ok:
  "bodies_ok a lo segments \<Longrightarrow> bodies_ok a lo (map (demote_owned r ls) segments)"
proof (erule bodies_ok_map)
  fix p
  show "cs_complete (demote_owned r ls p) = cs_complete p \<and> cs_index (demote_owned r ls p) = cs_index p \<and>
      (segment_ok (length (asm_tokens a)) p \<longrightarrow> well_parted p \<longrightarrow> fst (cs_complete p) < snd (cs_complete p) \<longrightarrow>
       segment_ok (length (asm_tokens a)) (demote_owned r ls p) \<and> well_parted (demote_owned r ls p))"
    using demote_owned_cases [of r ls p] demote_ok [of "length (asm_tokens a)" p] by auto
qed

text \<open>What stands behind the segments that one absorbs.\<close>

lemma absorbed_behind:
  "bodies_ok a (snd (cs_complete p)) (xs @ ys) \<Longrightarrow>
   snd (cs_complete p) \<le> absorbed_end p xs \<and> bodies_ok a (absorbed_end p xs) ys"
proof (induction xs arbitrary: p)
  case Nil
  then show ?case by (simp add: absorbed_end_def)
next
  case (Cons x xs)
  then have "snd (cs_complete p) \<le> snd (cs_complete x)" "bodies_ok a (snd (cs_complete x)) (xs @ ys)"
    by (simp_all add: bodies_ok_Cons)
  moreover have "absorbed_end p (x # xs) = absorbed_end x xs" by (simp add: absorbed_end_def)
  ultimately show ?case using Cons.IH [of x] by simp
qed

lemma join_segment_ok:
  assumes "spans_exact a" and "segment_ok (length (asm_tokens a)) p" and "well_parted p"
    and "fst (cs_complete p) < snd (cs_complete p)" and "snd (cs_complete p) \<le> absorbed_end p xs"
  shows "let q = join_segment a p xs in
    fst (cs_complete q) = fst (cs_complete p) \<and> fst (cs_complete q) < snd (cs_complete q) \<and>
    snd (cs_complete q) = absorbed_end p xs \<and> segment_ok (length (asm_tokens a)) q \<and> well_parted q"
proof (cases "xs = []")
  case True
  then show ?thesis using assms by (simp add: join_segment_def absorbed_end_def)
next
  case False
  then show ?thesis
    using assms retoken_ok [OF assms(1)]
    by (auto simp: join_segment_def Let_def segment_ok_def [of _ p] well_parted_def parts_in_order_def)
qed

lemma bound_item_ok:
  assumes "spans_exact a" and "segment_ok (length (asm_tokens a)) p" and "well_parted p"
    and "fst (cs_complete p) < snd (cs_complete p)" and "snd (cs_complete p) \<le> absorbed_end p xs"
    and "cs_kind p = Menu_item"
  shows "let q = bound_item a line p xs in
    fst (cs_complete q) = fst (cs_complete p) \<and> fst (cs_complete q) < snd (cs_complete q) \<and>
    snd (cs_complete q) \<le> absorbed_end p xs \<and> segment_ok (length (asm_tokens a)) q \<and> well_parted q"
  using assms retoken_ok [OF assms(1)]
  by (auto simp: bound_item_def Let_def segment_ok_def [of _ p] well_parted_def parts_in_order_def)

lemma renumbered [simp]:
  "segment_ok n (p\<lparr>cs_index := i\<rparr>) = segment_ok n p" "well_parted (p\<lparr>cs_index := i\<rparr>) = well_parted p"
  by (simp_all add: segment_ok_def well_parted_def parts_in_order_def)

lemma rejoin_selected_ok:
  "spans_exact a \<Longrightarrow> bodies_ok a lo segments \<Longrightarrow> seq_ok a n lo (rejoin_selected ir a carried n segments)"
proof (induction ir a carried n segments arbitrary: lo rule: rejoin_selected.induct)
  case (1 ir a carried n)
  then show ?case by (simp add: seq_ok_bodies)
next
  case (2 ir a carried n p rest)
  note p = "2.prems"(2) [unfolded bodies_ok_Cons]
  show ?case
  proof (cases "selected_line_of ir carried p")
    case None
    then show ?thesis using "2.IH"(1) [OF None "2.prems"(1)] p by (simp add: seq_ok_Cons)
  next
    case (Some line)
    let ?xs = "takeWhile (joins_selected ir line) rest" and ?ys = "dropWhile (joins_selected ir line) rest"
    have b: "snd (cs_complete p) \<le> absorbed_end p ?xs" "bodies_ok a (absorbed_end p ?xs) ?ys"
      using absorbed_behind [of a p ?xs ?ys] p by simp_all
    note j = join_segment_ok [OF "2.prems"(1) _ _ _ b(1)]
    show ?thesis
      using "2.IH"(2) [OF Some "2.prems"(1) b(2)] j p Some by (simp add: seq_ok_Cons Let_def)
  qed
qed

lemma bound_menu_items_ok:
  "spans_exact a \<Longrightarrow> bodies_ok a lo segments \<Longrightarrow> seq_ok a n lo (bound_menu_items ir a n segments)"
proof (induction ir a n segments arbitrary: lo rule: bound_menu_items.induct)
  case (1 ir a n)
  then show ?case by (simp add: seq_ok_bodies)
next
  case (2 ir a n p rest)
  note p = "2.prems"(2) [unfolded bodies_ok_Cons]
  show ?case
  proof (cases "menu_line ir p")
    case None
    then show ?thesis using "2.IH"(1) [OF None "2.prems"(1)] p by (simp add: seq_ok_Cons)
  next
    case (Some line)
    show ?thesis
    proof (cases "hd (cs_source_tokens p) = prefix_token line")
      case True
      then show ?thesis using "2.IH"(2) [OF Some True "2.prems"(1)] p Some by (simp add: seq_ok_Cons)
    next
      case False
      let ?joins = "\<lambda>q. cs_kind q = Text_kind \<and> text_on_line ir line q"
      let ?xs = "takeWhile ?joins rest" and ?ys = "dropWhile ?joins rest"
      have b: "snd (cs_complete p) \<le> absorbed_end p ?xs" "bodies_ok a (absorbed_end p ?xs) ?ys"
        using absorbed_behind [of a p ?xs ?ys] p by simp_all
      have k: "cs_kind p = Menu_item" using Some by (auto simp: menu_line_def split: if_splits)
      have j: "fst (cs_complete (bound_item a line p ?xs)) = fst (cs_complete p)"
        "fst (cs_complete (bound_item a line p ?xs)) < snd (cs_complete (bound_item a line p ?xs))"
        "snd (cs_complete (bound_item a line p ?xs)) \<le> absorbed_end p ?xs"
        "segment_ok (length (asm_tokens a)) (bound_item a line p ?xs)" "well_parted (bound_item a line p ?xs)"
        using bound_item_ok [OF "2.prems"(1) _ _ _ b(1) k, of line] p by (simp_all add: Let_def)
      show ?thesis
        using "2.IH"(3) [OF Some False refl "2.prems"(1) bodies_ok_lower [OF b(2) j(3)]] j p Some False
        by (simp add: seq_ok_Cons Let_def)
    qed
  qed
qed

lemma demote_display_line_owned_controls_ok:
  fixes carried :: bool
  assumes "spans_exact (source_assembled r)" and "seq_ok (source_assembled r) 0 0 (source_segments r)"
  defines "q \<equiv> demote_display_line_owned_controls carried r"
  shows "seq_ok (source_assembled r) 0 0 (source_segments q) \<and> source_assembled q = source_assembled r"
proof (cases "source_segments r = [] \<or> record_display_lines (source_ir r) = None")
  case True
  then show ?thesis using assms by (auto simp: demote_display_line_owned_controls_def)
next
  case False
  then obtain ls where ls: "record_display_lines (source_ir r) = Some ls" by auto
  let ?r1 = "demote_length_byte_controls r carried"
  have "bodies_ok (source_assembled r) 0 (map (demote_owned ?r1 ls) (source_segments ?r1))"
    using demote_owned_ok demote_length_bytes_ok assms(2)
    by (simp add: seq_ok_bodies demote_length_byte_controls_def)
  then have "bodies_ok (source_assembled r) 0 (rejoin_selected (source_ir r) (source_assembled r) carried 0
      (map (demote_owned ?r1 ls) (source_segments ?r1)))"
    using rejoin_selected_ok [OF assms(1)] by (simp add: seq_ok_bodies)
  then show ?thesis
    using False ls bound_menu_items_ok [OF assms(1)]
    by (simp add: q_def demote_display_line_owned_controls_def Let_def demote_length_byte_controls_def
        bound_menu_items_to_display_lines_def rejoin_selected_line_display_text_def)
qed

subsection \<open>Margin marks agree with the cells\<close>

lemma walk_cells_marks:
  assumes "tokens ir' = tokens ir" and "prefix_token line' = prefix_token line" and "token_end line' = token_end line"
  shows "walk_cells ir' line' started pending sources = walk_cells ir line started pending sources"
  by (induction sources arbitrary: started pending) (simp_all add: assms display_text_words_def split: option.split)

lemma read_margin_mark_marks:
  assumes "tokens (source_ir r') = tokens (source_ir r)" and "source_assembled r' = source_assembled r"
    and "prefix_token line' = prefix_token line" and "token_end line' = token_end line"
  shows "read_margin_mark r' line' declared = read_margin_mark r line declared"
proof -
  have "display_line_cells r' line' = display_line_cells r line"
    using walk_cells_marks [OF assms(1,3,4)] assms(2) by (simp add: display_line_cells_def)
  then show ?thesis by (simp only: read_margin_mark_def assms(1,3,4))
qed

lemma read_margin_mark_place:
  "reading_mark (read_margin_mark r line declared) \<noteq> None \<longleftrightarrow>
   reading_place (read_margin_mark r line declared) \<noteq> No_mark"
  by (simp add: read_margin_mark_def Let_def no_margin_mark_def)

lemma margin_marks_verify:
  assumes "display_lines_parse (source_ir r) \<or> display_lines (source_ir r) = []"
  shows "verify_display_line_margin_marks (assign_display_line_margin_marks declared r) declared = None"
proof (cases "display_lines_parse (source_ir r)")
  case False
  then show ?thesis
    using assms by (simp add: assign_display_line_margin_marks_def verify_display_line_margin_marks_def
        map_filter_def)
next
  case True
  let ?q = "assign_display_line_margin_marks declared r"
  have q: "tokens (source_ir ?q) = tokens (source_ir r)" "source_assembled ?q = source_assembled r"
      "display_lines (source_ir ?q) = map (mark_line r declared) (display_lines (source_ir r))"
    using True by (simp_all add: assign_display_line_margin_marks_def)
  have "margin_mark_error ?q declared (mark_line r declared line) = None" for line
    using read_margin_mark_marks [OF q(1,2), of "mark_line r declared line" line declared]
      read_margin_mark_place [of r line declared]
    by (simp add: margin_mark_error_def mark_line_def Let_def)
  then show ?thesis by (simp add: verify_display_line_margin_marks_def q(3) map_filter_def)
qed

subsection \<open>Cells come from the content of their line\<close>

definition cell_on_line :: "display_line_ir \<Rightarrow> display_line_cell_ir \<Rightarrow> bool" where
  "cell_on_line line cell \<longleftrightarrow>
     (case cell_token cell of
        None \<Rightarrow> cell_word cell = 0x20
      | Some token \<Rightarrow> prefix_token line < token \<and> token < token_end line)"

lemma walk_cells_on_line:
  assumes "prefix_token line < length (tokens ir)" and "framing (tokens ir ! prefix_token line) = Line_length"
  shows "list_all (cell_on_line line) (walk_cells ir line started pending sources)"
proof (induction sources arbitrary: started pending)
  case Nil
  then show ?case by simp
next
  case (Cons source rest)
  have "prefix_token line < src_token source"
    if "\<not> src_token source < prefix_token line" "display_text_words ir (src_token source) = Some ws" for ws
    using that assms by (cases "src_token source = prefix_token line") (auto simp: display_text_words_def)
  then show ?case
    using Cons.IH by (auto simp: cell_on_line_def split: option.splits)
qed

lemma decoded_line_prefix:
  fixes bs dir dict n
  assumes "b \<le> e"
  defines "ir \<equiv> decode_record_payload_ir bs dir dict b e n"
  assumes "line \<in> set (display_lines ir)"
  shows "prefix_token line < length (tokens ir) \<and> framing (tokens ir ! prefix_token line) = Line_length"
  using assms(1)
proof (cases rule: decode_record_payload_cases [of b e bs dir dict n])
  case unframed
  then have "display_lines ir = []"
    by (auto simp: ir_def decode_record_payload_ir_def assign_display_line_framing_def Let_def split: option.splits)
  then show ?thesis using assms(3) by simp
next
  case (framed ls)
  have line: "line \<in> set ls" using assms(3) by (simp add: ir_def framed(2))
  show ?thesis
    using stamp_lines [OF framed(3)] lines_tile_prefix [OF framed(3) line] line
    by (simp add: ir_def framed(2) list_all_iff framed_as_def)
qed

subsection \<open>Every decoded record passes\<close>

lemma passes_keep [simp]:
  "source_record (assign_display_line_margin_marks declared r) = source_record r"
  "source_assembled (assign_display_line_margin_marks declared r) = source_assembled r"
  "source_segments (assign_display_line_margin_marks declared r) = source_segments r"
  "tokens (source_ir (assign_display_line_margin_marks declared r)) = tokens (source_ir r)"
  "source_record (demote_display_line_owned_controls carried r) = source_record r"
  "source_ir (demote_display_line_owned_controls carried r) = source_ir r"
  by (auto simp: assign_display_line_margin_marks_def demote_display_line_owned_controls_def Let_def
      demote_length_byte_controls_def bound_menu_items_to_display_lines_def
      rejoin_selected_line_display_text_def split: option.splits)

definition source_sound ::
  "bytes \<Rightarrow> boo_directory \<Rightarrow> dictionary \<Rightarrow> u32 list \<Rightarrow> (nat \<times> nat) list \<Rightarrow>
   decoded_logical_record_source \<Rightarrow> bool" where
  "source_sound bs dir dict declared ranges r \<longleftrightarrow>
     (let payload = ranges ! (source_record r - 1);
          ir = decode_record_payload_ir bs dir dict (fst payload) (snd payload) (source_record r)
      in tokens (source_ir r) = tokens ir \<and>
         source_assembled r = assemble_logical_record_with_sources (project_token_words ir) \<and>
         verify_control_segments (source_assembled r) (source_segments r) = None \<and>
         verify_display_line_margin_marks r declared = None \<and>
         list_all (\<lambda>line. list_all (cell_on_line line) (display_line_cells r line)) (display_lines (source_ir r)))"

lemma decode_source_segments:
  fixes carried :: bool and bs dir dict declared number ir
  defines "r \<equiv> decode_source bs dir dict declared carried number ir"
  shows "verify_control_segments (source_assembled r) (source_segments r) = None"
    and "source_record r = number" and "tokens (source_ir r) = tokens ir"
    and "map prefix_token (display_lines (source_ir r)) = map prefix_token (display_lines ir)"
    and "source_assembled r = assemble_logical_record_with_sources (project_token_words ir)"
proof -
  let ?a = "assemble_logical_record_with_sources (project_token_words ir)"
  let ?r0 = "\<lparr> source_record = number, source_ir = ir, source_token_words = project_token_words ir,
      source_encoded = project_encoded_tokens ir, source_assembled = ?a,
      source_segments = decode_control_segments number ?a (project_encoded_tokens ir) (display_lines ir) \<rparr>"
  have ok: "seq_ok ?a 0 0 (source_segments (demote_display_line_owned_controls carried ?r0)) \<and>
      source_assembled (demote_display_line_owned_controls carried ?r0) = ?a"
    using demote_display_line_owned_controls_ok [of ?r0 carried] assembled_record(1)
      decode_control_segments_ok [OF assembled_record(1)] by simp
  have r: "r = assign_display_line_margin_marks declared (demote_display_line_owned_controls carried ?r0)"
    by (simp add: r_def decode_source_def Let_def)
  show "source_assembled r = ?a" and "source_record r = number" and "tokens (source_ir r) = tokens ir"
    using ok by (simp_all add: r)
  show "map prefix_token (display_lines (source_ir r)) = map prefix_token (display_lines ir)"
    by (simp add: r assign_display_line_margin_marks_def mark_line_def Let_def o_def)
  show "verify_control_segments (source_assembled r) (source_segments r) = None"
    using ok seq_ok_verifies by (simp add: r)
qed

lemma decoded_framing: 
  "display_lines_parse (decode_record_payload_ir bs dir dict b e n) \<or>
   display_lines (decode_record_payload_ir bs dir dict b e n) = []"
  by (simp add: decode_record_payload_ir_def assign_display_line_framing_def Let_def split: option.splits)

lemma decode_source_sound:
  fixes carried :: bool and bs dir dict declared ranges number
  defines "payload \<equiv> ranges ! (number - 1)"
  defines "ir \<equiv> decode_record_payload_ir bs dir dict (fst payload) (snd payload) number"
  assumes "fst payload \<le> snd payload"
  shows "source_sound bs dir dict declared ranges (decode_source bs dir dict declared carried number ir)"
proof -
  let ?r = "decode_source bs dir dict declared carried number ir"
  have "verify_display_line_margin_marks ?r declared = None"
    unfolding decode_source_def Let_def
    by (rule margin_marks_verify) (use decoded_framing in \<open>simp add: ir_def\<close>)
  moreover note facts = decode_source_segments [of bs dir dict declared carried number ir]
  have "list_all (cell_on_line line) (display_line_cells ?r line)"
    if "line \<in> set (display_lines (source_ir ?r))" for line
  proof -
    have "prefix_token line \<in> prefix_token ` set (display_lines ir)"
      using that facts(4) by (metis image_eqI list.set_map)
    then obtain l where "l \<in> set (display_lines ir)" "prefix_token line = prefix_token l" by auto
    then show ?thesis
      unfolding display_line_cells_def
      using decoded_line_prefix [OF assms(3), of l bs dir dict number] facts(3)
      by (intro walk_cells_on_line) (simp_all add: ir_def)
  qed
  ultimately show ?thesis
    using facts by (simp add: source_sound_def Let_def payload_def ir_def list_all_iff)
qed

lemma decode_sources_from_spec:
  "\<exists>rs. decode_sources_from bs dir dict declared ranges records numbers = Inr rs \<and>
     (if list_all (\<lambda>n. range_in_file bs (ranges ! (n - 1))) numbers
      then \<exists>new. rs = records @ new \<and> map source_record new = numbers \<and>
           list_all (source_sound bs dir dict declared ranges) new
      else rs = [])"
proof (induction numbers arbitrary: records)
  case Nil
  then show ?case by simp
next
  case (Cons number rest)
  let ?p = "ranges ! (number - 1)"
  let ?ir = "decode_record_payload_ir bs dir dict (fst ?p) (snd ?p) number"
  define carried where "carried = (records \<noteq> [] \<and> source_record (last records) + 1 = number \<and>
      ends_with_carried_selection (last records))"
  let ?r = "decode_source bs dir dict declared carried number ?ir"
  show ?case
  proof (cases "range_in_file bs ?p")
    case False
    then show ?thesis by (auto simp: range_in_file_def Let_def not_le)
  next
    case True
    then have "verify_token_ir ?ir = None" using decode_verifies by (simp add: range_in_file_def)
    then have "decode_sources_from bs dir dict declared ranges records (number # rest) =
        decode_sources_from bs dir dict declared ranges (records @ [?r]) rest"
      using True decode_source_segments(1) [of bs dir dict declared carried number ?ir]
      by (simp add: Let_def range_in_file_def carried_def)
    then show ?thesis
      using Cons.IH [of "records @ [?r]"] True [unfolded range_in_file_def] True decode_source_segments(2)
        decode_source_sound [where ranges = ranges and number = number and bs = bs and dir = dir and
            dict = dict and declared = declared and carried = carried]
      by (simp del: decode_sources_from.simps) (auto simp del: decode_sources_from.simps split: if_splits)
  qed
qed

text \<open>C4: Decoding the sources of a run of records never throws. A request outside the book, or one with a
  record whose payload is not in the file, gives no source; any other gives one source per record, in
  order, with the tokens and the assembly of the record's payload, control segments that pass their
  check, display lines whose cells all come from the content of the line and never from its length byte,
  and margin marks that agree with these cells.\<close>

theorem sources_decoded:
  "case decode_logical_record_sources bs dir dict declared ranges first_record end_record of
     Inl e \<Rightarrow> False
   | Inr rs \<Rightarrow>
       if first_record = 0 \<or> end_record < first_record \<or> end_record > length ranges + 1 \<or>
          list_ex (\<lambda>n. \<not> range_in_file bs (ranges ! (n - 1))) [first_record..<end_record]
       then rs = []
       else map source_record rs = [first_record..<end_record] \<and>
            list_all (source_sound bs dir dict declared ranges) rs"
  using decode_sources_from_spec [of bs dir dict declared ranges "[]" "[first_record..<end_record]"]
  by (auto simp: decode_logical_record_sources_def list_all_iff list_ex_iff)

end
