(* ===== verification/Toc.thy ===== *)
theory Toc
  imports Display_Controls Container
begin

section \<open>Topic headers and the table of contents (\<open>src/container/toc.cpp\<close>)\<close>

text \<open>
  Which records open a topic (\<open>toc.cpp\<close>, \<open>src/container/topic_catalogue_framing.cpp\<close>), where display
  lines start in a decoded record (\<open>src/container/toc_entry_framing.cpp\<close>), the \<open>CTocE\<close> entries of a
  contents record and the table of contents. A decoded record's source keeps its token IR and its
  assembly. The parent chain counts in \<open>nat\<close>: the loop stops once the count passes the number of
  topics, which fits 32 bits. \<open>build_topics\<close> rests on typed header lines and is not here.
\<close>

subsection \<open>Data\<close>

record topic_data =
  topic_id :: string
  topic_title :: string
  topic_heading_level :: string
  topic_number_of :: u32
  topic_start_logical_record :: u32
  topic_end_logical_record :: u32
  topic_parent :: "string option"
  topic_raw_records :: "string list"

record toc_entry =
  entry_id :: string
  entry_title :: string
  entry_level :: u32
  entry_style :: u32
  entry_heading_level :: string
  entry_topic_number :: u32
  entry_start_logical_record :: u32
  entry_end_logical_record :: u32

datatype toc_grammar = Nesting_and_style | Style_only

subsection \<open>Display lines\<close>

definition display_line_start_output_offsets :: "decoded_logical_record_source \<Rightarrow> nat list" where
  "display_line_start_output_offsets r =
     (case record_display_lines (source_ir r) of
        None \<Rightarrow> []
      | Some ls \<Rightarrow>
          let token_offsets = assembled_token_output_offsets (source_assembled r)
          in map (\<lambda>line. token_offsets ! prefix_token line)
               (filter (\<lambda>line. prefix_token line < length token_offsets) ls))"

subsection \<open>Records that open a topic\<close>

definition contains :: "string \<Rightarrow> string \<Rightarrow> bool" where
  "contains s needle \<longleftrightarrow> find_from s needle 0 \<noteq> None"

definition topic_number_control_value :: "string \<Rightarrow> u32" where
  "topic_number_control_value body =
     (let v = extract_uint_control_value body ''ctopicn '' in
      if v \<noteq> 0 then v else extract_uint_control_value body ''ctopic# '')"

definition is_contents_topic_record :: "string \<Rightarrow> bool" where
  "is_contents_topic_record decoded \<longleftrightarrow>
     (let lower = ascii_lower decoded in
      contains lower ''shcontents'' \<or> contains lower ''chdlevel :toc'' \<or> contains lower ''ctocdef='')"

text \<open>The index behind the topic id of an \<open>SH\<close> control at \<open>start\<close>.\<close>

definition topic_id_end :: "string \<Rightarrow> nat \<Rightarrow> nat" where
  "topic_id_end s start = start + 2 + length (takeWhile is_topic_id_char (drop (start + 2) s))"

definition is_topic_header_text :: "string \<Rightarrow> bool" where
  "is_topic_header_text decoded =
     (if extract_topic_header_id decoded = [] then False
      else let lower = ascii_lower decoded in
      if contains lower ''ctopicn'' \<or> contains lower ''ctopic#'' then True
      else let start = skip_decoded_separators decoded; cursor = topic_id_end decoded start in
           cursor > start + 2 \<and> skip_decoded_separators (drop cursor decoded) = length decoded - cursor)"

definition is_topic_header_record :: "decoded_logical_record_source \<Rightarrow> bool" where
  "is_topic_header_record r =
     (let body = token_words_to_ascii (asm_words (source_assembled r)) in
      if \<not> is_topic_header_text body then False
      else if \<not> display_lines_parse (source_ir r) then True
      else let start = skip_decoded_separators body;
               opcode = (start, topic_id_end body start) in
      if is_display_line_length_opcode r opcode \<or> is_display_line_embedded_opcode r opcode then False
      else let ws = decoded_byte_range_to_word_range (source_assembled r) opcode;
               toks = source_tokens_intersecting_output (source_assembled r) (fst ws) (snd ws) in
      if toks = [] then False
      else case display_line_of_token (source_ir r) (hd toks) of
             None \<Rightarrow> False
           | Some line \<Rightarrow> hd toks = prefix_token line + 1 \<and>
               list_all (\<lambda>t. t > prefix_token line \<and> t < token_end line) toks)"

subsection \<open>Entries of a contents record\<close>

definition toc_boundaries :: "string list" where
  "toc_boundaries = [''?ctoce '', '', ctoce '', ''?ctocdef='', '', ctocdef='', ''?sh'']"

definition looks_like_toc_entry_boundary :: "string \<Rightarrow> nat \<Rightarrow> bool" where
  "looks_like_toc_entry_boundary lower offset =
     list_ex (\<lambda>b. offset + length b \<le> length lower \<and> take (length b) (drop offset lower) = b) toc_boundaries"

definition min_option :: "nat option \<Rightarrow> nat option \<Rightarrow> nat option" where
  "min_option a b = (case a of None \<Rightarrow> b | Some x \<Rightarrow> (case b of None \<Rightarrow> a | Some y \<Rightarrow> Some (min x y)))"

definition find_toc_end_marker :: "string \<Rightarrow> nat \<Rightarrow> nat \<Rightarrow> nat option" where
  "find_toc_end_marker lower offset limit =
     (let before = \<lambda>found. (case found of None \<Rightarrow> None | Some n \<Rightarrow> if n < limit then Some n else None)
      in min_option (before (find_from lower ''cz off etoc'' offset)) (before (find_from lower ''etoc'' offset)))"

definition toc_entry_grammar :: "boo_directory \<Rightarrow> toc_grammar" where
  "toc_entry_grammar dir =
     (if version_text dir = '' 1.0'' \<or> version_text dir = '' 1.1'' then Style_only else Nesting_and_style)"

definition next_display_line_start :: "nat list \<Rightarrow> nat \<Rightarrow> nat option" where
  "next_display_line_start starts offset =
     (let found = bound_index (\<lambda>start. start < offset) starts
      in if found = length starts then None else Some (starts ! found))"

definition min_end :: "nat \<Rightarrow> nat option \<Rightarrow> nat" where
  "min_end e found = (case found of None \<Rightarrow> e | Some n \<Rightarrow> min e n)"

text \<open>Where the value of the entry whose value starts at \<open>value_begin\<close> ends.\<close>

definition toc_value_end :: "string \<Rightarrow> nat list \<Rightarrow> nat \<Rightarrow> nat" where
  "toc_value_end lower starts value_begin =
     (let size0 = length lower;
          next_entry = find_from lower ''ctoce '' value_begin;
          e1 = (case find_toc_end_marker lower value_begin size0 of
                  None \<Rightarrow> size0
                | Some toc_end \<Rightarrow>
                    (case next_entry of None \<Rightarrow> toc_end | Some n \<Rightarrow> if toc_end < n then toc_end else size0));
          e2 = min_end e1 next_entry;
          e3 = min_end e2 (next_display_line_start starts value_begin)
      in min_end e3 (find (looks_like_toc_entry_boundary lower) [value_begin..<e3]))"

text \<open>Level, style, id and what is left of the line.\<close>

definition read_toc_fields :: "toc_grammar \<Rightarrow> string \<Rightarrow> (u32 \<times> u32 \<times> string \<times> string) option" where
  "read_toc_fields grammar input =
     (case (case grammar of Style_only \<Rightarrow> Some (0, input) | Nesting_and_style \<Rightarrow> stream_read_u32 input) of
        None \<Rightarrow> None
      | Some (level, rest1) \<Rightarrow>
          (case stream_read_u32 rest1 of
             None \<Rightarrow> None
           | Some (style, rest2) \<Rightarrow>
               (case stream_read_word rest2 of
                  None \<Rightarrow> None
                | Some (name, rest3) \<Rightarrow> Some (level, style, name, rest3))))"

definition new_toc_entry :: "string \<Rightarrow> string \<Rightarrow> u32 \<Rightarrow> u32 \<Rightarrow> toc_entry" where
  "new_toc_entry name title level style =
     \<lparr> entry_id = name, entry_title = title, entry_level = level, entry_style = style,
       entry_heading_level = [], entry_topic_number = 0, entry_start_logical_record = 0,
       entry_end_logical_record = 0 \<rparr>"

definition read_toc_entry :: "toc_grammar \<Rightarrow> string \<Rightarrow> toc_entry option" where
  "read_toc_entry grammar input =
     (case read_toc_fields grammar input of
        None \<Rightarrow> None
      | Some (level, style, name, rest) \<Rightarrow>
          if style = 0 then None
          else let title = normalize_toc_title (trim_ascii (stream_getline rest)) in
               if name \<noteq> [] \<and> title \<noteq> []
               then Some (new_toc_entry (normalize_toc_id name) title level style)
               else None)"

lemma find_from_bounds: "find_from s needle pos = Some n \<Longrightarrow> pos \<le> n \<and> n + length needle \<le> length s"
  using find_from_Some [of s needle pos n] by auto

function toc_entries_from :: "string \<Rightarrow> nat list \<Rightarrow> toc_grammar \<Rightarrow> nat \<Rightarrow> toc_entry list" where
  "toc_entries_from decoded starts grammar search_offset =
     (if search_offset \<ge> length decoded then []
      else case find_from (ascii_lower decoded) ''ctoce '' search_offset of
        None \<Rightarrow> []
      | Some found \<Rightarrow>
          if (case find_toc_end_marker (ascii_lower decoded) search_offset (found + 1) of
                None \<Rightarrow> False | Some record_toc_end \<Rightarrow> record_toc_end < found)
          then []
          else let value_begin = found + length ''ctoce '';
                   value_end = toc_value_end (ascii_lower decoded) starts value_begin;
                   body = trim_ascii (slice decoded value_begin value_end);
                   rest = toc_entries_from decoded starts grammar (found + length ''ctoce '')
               in case read_toc_entry grammar body of None \<Rightarrow> rest | Some entry \<Rightarrow> entry # rest)"
  by pat_completeness auto
termination
  by (relation "measure (\<lambda>(decoded, _, _, search_offset). length decoded - search_offset)")
    (auto dest!: find_from_bounds simp: ascii_lower_def)

declare toc_entries_from.simps [simp del]

definition extract_toc_entries :: "string \<Rightarrow> nat list \<Rightarrow> toc_grammar \<Rightarrow> toc_entry list" where
  "extract_toc_entries decoded starts grammar = toc_entries_from decoded starts grammar 0"

subsection \<open>Nesting and the whole table\<close>

definition find_topic_data :: "topic_data list \<Rightarrow> string \<Rightarrow> topic_data option" where
  "find_topic_data topics name =
     (let normalized_id = normalize_toc_id name in
      find (\<lambda>t. topic_id t = normalized_id \<or> ascii_equals_case_insensitive (topic_id t) name) topics)"

definition attach_topic_data :: "toc_entry \<Rightarrow> topic_data \<Rightarrow> toc_entry" where
  "attach_topic_data entry t =
     entry\<lparr> entry_heading_level := topic_heading_level t, entry_topic_number := topic_number_of t,
            entry_start_logical_record := topic_start_logical_record t,
            entry_end_logical_record := topic_end_logical_record t \<rparr>"

text \<open>The loop of \<open>parent_chain_length\<close> at the topic it stands on, with the length so far.\<close>

function chain_length_from :: "topic_data list \<Rightarrow> topic_data option \<Rightarrow> nat \<Rightarrow> nat option" where
  "chain_length_from topics at_topic len =
     (case at_topic of
        None \<Rightarrow> None
      | Some t \<Rightarrow>
          (case topic_parent t of
             None \<Rightarrow> None
           | Some parent \<Rightarrow>
               if parent = [] then Some len
               else if len + 1 > length topics then None
               else chain_length_from topics (find_topic_data topics parent) (len + 1)))"
  by pat_completeness auto
termination
  by (relation "measure (\<lambda>(topics, _, len). length topics + 1 - len)") auto

declare chain_length_from.simps [simp del]

definition parent_chain_length :: "topic_data list \<Rightarrow> string \<Rightarrow> u32 option" where
  "parent_chain_length topics name =
     map_option of_nat (chain_length_from topics (find_topic_data topics name) 0)"

text \<open>The entries of one record with their nesting; \<open>None\<close> declines the whole table.\<close>

definition derive_nesting :: "topic_data list \<Rightarrow> toc_grammar \<Rightarrow> toc_entry list \<Rightarrow> toc_entry list option" where
  "derive_nesting topics grammar entries =
     (case grammar of
        Nesting_and_style \<Rightarrow> Some entries
      | Style_only \<Rightarrow>
          those (map (\<lambda>e. map_option (\<lambda>n. e\<lparr>entry_level := n\<rparr>) (parent_chain_length topics (entry_id e)))
            entries))"

definition attach_entry :: "topic_data list \<Rightarrow> toc_entry \<Rightarrow> toc_entry" where
  "attach_entry topics e =
     (case find_topic_data topics (entry_id e) of None \<Rightarrow> e | Some t \<Rightarrow> attach_topic_data e t)"

text \<open>Whether the record at \<open>index\<close> ends the contents topic.\<close>

definition ends_contents ::
  "string list \<Rightarrow> decoded_logical_record_source list option \<Rightarrow> nat \<Rightarrow> bool" where
  "ends_contents decoded_records sources index \<longleftrightarrow>
     is_topic_header_text (decoded_records ! index) \<and>
     (case sources of
        None \<Rightarrow> True
      | Some ss \<Rightarrow> index \<ge> length ss \<or> is_topic_header_record (ss ! index))"

definition record_line_starts :: "nat list list option \<Rightarrow> nat \<Rightarrow> nat list" where
  "record_line_starts starts index =
     (case starts of None \<Rightarrow> [] | Some st \<Rightarrow> if index < length st then st ! index else [])"

text \<open>The loop over the records; \<open>toc\<close> is what the earlier records gave.\<close>

function toc_from ::
  "string list \<Rightarrow> topic_data list \<Rightarrow> nat list list option \<Rightarrow> decoded_logical_record_source list option \<Rightarrow>
   toc_grammar \<Rightarrow> bool \<Rightarrow> nat \<Rightarrow> toc_entry list \<Rightarrow> toc_entry list" where
  "toc_from decoded_records topics starts sources grammar in_contents index toc =
     (if index \<ge> length decoded_records then toc
      else if \<not> in_contents \<and> \<not> is_contents_topic_record (decoded_records ! index)
      then toc_from decoded_records topics starts sources grammar False (index + 1) toc
      else if in_contents \<and> ends_contents decoded_records sources index then toc
      else
        let entries = extract_toc_entries (decoded_records ! index) (record_line_starts starts index) grammar
        in case derive_nesting topics grammar entries of
             None \<Rightarrow> []
           | Some nested \<Rightarrow>
               toc_from decoded_records topics starts sources grammar True (index + 1)
                 (toc @ map (attach_entry topics) nested))"
  by pat_completeness auto
termination
  by (relation "measure (\<lambda>(decoded_records, _, _, _, _, _, index, _). length decoded_records - index)") auto

declare toc_from.simps [simp del]

definition build_table_of_contents ::
  "string list \<Rightarrow> topic_data list \<Rightarrow> nat list list option \<Rightarrow> decoded_logical_record_source list option \<Rightarrow>
   toc_grammar \<Rightarrow> toc_entry list" where
  "build_table_of_contents decoded_records topics starts sources grammar =
     toc_from decoded_records topics starts sources grammar False 0 []"

subsection \<open>Parent chains\<close>

text \<open>A topic is \<open>n\<close> parents below the top of the book.\<close>

inductive parent_chain :: "topic_data list \<Rightarrow> topic_data \<Rightarrow> nat \<Rightarrow> bool" for topics where
  top: "topic_parent t = Some [] \<Longrightarrow> parent_chain topics t 0"
| up: "topic_parent t = Some p \<Longrightarrow> p \<noteq> [] \<Longrightarrow> find_topic_data topics p = Some u \<Longrightarrow>
    parent_chain topics u n \<Longrightarrow> parent_chain topics t (Suc n)"

inductive_cases parent_chain_0: "parent_chain topics t 0"
inductive_cases parent_chain_Suc: "parent_chain topics t (Suc n)"

lemma parent_chain_unique: "parent_chain topics t n \<Longrightarrow> parent_chain topics t m \<Longrightarrow> m = n"
proof (induction arbitrary: m rule: parent_chain.induct)
  case (top t)
  then show ?case by (cases m) (auto elim: parent_chain_Suc)
next
  case (up t p u n)
  from up.prems show ?case
  proof (cases rule: parent_chain.cases)
    case top
    then show ?thesis using up.hyps(1,2) by simp
  next
    case (up p' u' n')
    then show ?thesis using "up.IH" up.hyps by simp
  qed
qed

lemma find_topic_data_in: "find_topic_data topics name = Some t \<Longrightarrow> t \<in> set topics"
  by (auto simp: find_topic_data_def Let_def find_Some_iff)

text \<open>What the bound of the loop rests on: every node has at most one depth, and the node above a node of
  the list is in the list. Then the depths of the list are all below its length.\<close>

locale finite_chain =
  fixes nodes :: "'a list" and depth :: "'a \<Rightarrow> nat \<Rightarrow> bool"
  assumes unique: "depth t n \<Longrightarrow> depth t m \<Longrightarrow> m = n"
    and above: "depth t (Suc n) \<Longrightarrow> \<exists>u \<in> set nodes. depth u n"
begin

lemma depths: "depth t n \<Longrightarrow> t \<in> set nodes \<Longrightarrow> m \<le> n \<Longrightarrow> \<exists>u \<in> set nodes. depth u m"
proof (induction n arbitrary: t)
  case 0
  then show ?case by auto
next
  case (Suc n)
  then show ?case using above [OF Suc.prems(1)] by (cases "m = Suc n") auto
qed

lemma bound:
  assumes "depth t n" and "t \<in> set nodes"
  shows "n < length nodes"
proof -
  let ?depth = "\<lambda>u. THE m. depth u m"
  have depth: "?depth u = m" if "depth u m" for u m
    using that by (rule the_equality) (rule unique [OF that])
  have "{..n} \<subseteq> ?depth ` set nodes"
  proof
    fix m assume "m \<in> {..n}"
    then obtain u where "u \<in> set nodes" "depth u m" using depths [OF assms] by auto
    then show "m \<in> ?depth ` set nodes" by (intro image_eqI [of m ?depth u]) (simp_all add: depth)
  qed
  then have "card {..n} \<le> card (?depth ` set nodes)" by (rule card_mono [rotated]) simp
  also have "\<dots> \<le> length nodes" using card_image_le card_length le_trans by blast
  finally show ?thesis by simp
qed

end

interpretation topic_chain: finite_chain topics "parent_chain topics" for topics
proof
  show "parent_chain topics t n \<Longrightarrow> parent_chain topics t m \<Longrightarrow> m = n" for t n m
    by (rule parent_chain_unique)
  show "parent_chain topics t (Suc n) \<Longrightarrow> \<exists>u \<in> set topics. parent_chain topics u n" for t n
    by (erule parent_chain_Suc) (auto dest: find_topic_data_in)
qed

lemma chain_length_from_iff:
  "chain_length_from topics (Some t) len = Some k \<longleftrightarrow>
     (\<exists>n. parent_chain topics t n \<and> k = len + n \<and> (n = 0 \<or> len + n \<le> length topics))"
proof (induction "length topics + 1 - len" arbitrary: t len rule: less_induct)
  case less
  show ?case
  proof (cases "topic_parent t")
    case None
    then show ?thesis by (subst chain_length_from.simps) (auto elim: parent_chain.cases)
  next
    case (Some p)
    show ?thesis
    proof (cases "p = []")
      case True
      have "parent_chain topics t n \<longleftrightarrow> n = 0" for n
        using Some True by (auto elim: parent_chain.cases intro: parent_chain.top)
      then show ?thesis using Some True by (subst chain_length_from.simps) auto
    next
      case False
      have chain: "parent_chain topics t n \<longleftrightarrow>
          (\<exists>u m. n = Suc m \<and> find_topic_data topics p = Some u \<and> parent_chain topics u m)" for n
        using Some False by (auto elim: parent_chain.cases intro: parent_chain.up)
      show ?thesis
      proof (cases "len + 1 > length topics \<or> find_topic_data topics p = None")
        case True
        have none: "chain_length_from topics None l = None" for l by (subst chain_length_from.simps) simp
        show ?thesis using True Some False
          by (subst chain_length_from.simps) (auto simp: chain none)
      next
        case False': False
        then obtain u where u: "find_topic_data topics p = Some u" by auto
        have shorter: "len < length topics" using False' by simp
        have "chain_length_from topics (Some t) len = chain_length_from topics (Some u) (len + 1)"
          using Some False False' u by (subst chain_length_from.simps) simp
        also have "\<dots> = Some k \<longleftrightarrow>
            (\<exists>n. parent_chain topics u n \<and> k = len + 1 + n \<and> (n = 0 \<or> len + 1 + n \<le> length topics))"
          by (rule less) (use shorter in simp)
        finally show ?thesis using u False' by (auto simp: chain)
      qed
    qed
  qed
qed

lemma parent_chain_length_iff:
  assumes "length topics < 2 ^ 32"
  shows "parent_chain_length topics name = Some k \<longleftrightarrow>
    (\<exists>t. find_topic_data topics name = Some t \<and> parent_chain topics t (unat k))"
proof (cases "find_topic_data topics name")
  case None
  then show ?thesis by (simp add: parent_chain_length_def) (subst chain_length_from.simps, simp)
next
  case (Some t)
  have bound: "n < length topics" if "parent_chain topics t n" for n
    using topic_chain.bound [OF that find_topic_data_in [OF Some]] .
  have exact: "unat (of_nat n :: u32) = n" if "parent_chain topics t n" for n
    using bound [OF that] assms by (simp add: unat_of_nat)
  have "parent_chain_length topics name = Some k \<longleftrightarrow> (\<exists>n. parent_chain topics t n \<and> k = of_nat n)"
    unfolding parent_chain_length_def Some map_option_eq_Some chain_length_from_iff
    using bound by (auto dest: less_imp_le)
  also have "\<dots> \<longleftrightarrow> parent_chain topics t (unat k)"
    using exact by (auto intro: exI [of _ "unat k"])
  finally show ?thesis using Some by simp
qed

text \<open>C30: The nesting of a topic is the number of parents above it, and it is derived exactly when the
  chain of parents reaches a topic without one: the bound on the loop stops only at cycles.\<close>

theorem parent_chain_length_exact:
  assumes "length topics < 2 ^ 32"
  shows "parent_chain_length topics name = Some k \<longleftrightarrow>
    (\<exists>t. find_topic_data topics name = Some t \<and> parent_chain topics t (unat k))"
  by (rule parent_chain_length_iff [OF assms])

definition example_topic :: "string \<Rightarrow> string \<Rightarrow> topic_data" where
  "example_topic name parent =
     \<lparr> topic_id = name, topic_title = ''Title'', topic_heading_level = '':H1'', topic_number_of = 1,
       topic_start_logical_record = 2, topic_end_logical_record = 3, topic_parent = Some parent,
       topic_raw_records = [] \<rparr>"

definition example_topics :: "topic_data list" where
  "example_topics = [example_topic ''1.0'' [], example_topic ''1.1'' ''1.0'', example_topic ''1.1.1'' ''1.1'']"

theorem parent_chain_length_exact_witness:
  "\<exists>t. find_topic_data example_topics ''1.1.1'' = Some t \<and> parent_chain example_topics t (unat (2 :: u32))"
proof -
  have "parent_chain_length example_topics ''1.1.1'' = Some 2" by code_simp
  then show ?thesis
    using parent_chain_length_exact [of example_topics "''1.1.1''" 2] by (simp add: example_topics_def)
qed

subsection \<open>The entries of the table\<close>

text \<open>An entry of an older book's table stands for a topic: its level is the number of that topic's parents,
  and its record numbers are the topic's.\<close>

definition entry_of_topic :: "topic_data list \<Rightarrow> toc_entry \<Rightarrow> bool" where
  "entry_of_topic topics e \<longleftrightarrow>
     (\<exists>t. find_topic_data topics (entry_id e) = Some t \<and> parent_chain topics t (unat (entry_level e)) \<and>
        entry_heading_level e = topic_heading_level t \<and> entry_topic_number e = topic_number_of t \<and>
        entry_start_logical_record e = topic_start_logical_record t \<and>
        entry_end_logical_record e = topic_end_logical_record t)"

definition entry_read :: "toc_entry \<Rightarrow> bool" where
  "entry_read e \<longleftrightarrow> entry_style e \<noteq> 0 \<and> entry_title e \<noteq> [] \<and> entry_id e \<noteq> []"

lemma read_toc_entry_read: "read_toc_entry grammar body = Some e \<Longrightarrow> entry_read e"
  by (auto simp: read_toc_entry_def entry_read_def new_toc_entry_def Let_def normalize_toc_id_def
      split: option.splits prod.splits if_splits)

lemma toc_entries_read: "list_all entry_read (toc_entries_from decoded starts grammar offset)"
proof (induction decoded starts grammar offset rule: toc_entries_from.induct)
  case (1 decoded starts grammar offset)
  show ?case
    by (subst toc_entries_from.simps, simp add: Let_def split: option.split)
      (use "1.IH" read_toc_entry_read in \<open>auto simp: Let_def\<close>)
qed

lemma those_Some: "those xs = Some ys \<longleftrightarrow> map Some ys = xs"
proof (induction xs arbitrary: ys)
  case Nil
  then show ?case by auto
next
  case (Cons x xs)
  show ?case by (cases x; cases ys) (auto simp: Cons)
qed

lemma derive_nesting_entries:
  assumes "derive_nesting topics Style_only entries = Some nested" and "length topics < 2 ^ 32"
    and "list_all entry_read entries"
  shows "list_all (\<lambda>e. entry_read e \<and> entry_of_topic topics e) (map (attach_entry topics) nested)"
proof -
  have nested: "\<exists>e' \<in> set entries. map_option (\<lambda>n. e'\<lparr>entry_level := n\<rparr>)
      (parent_chain_length topics (entry_id e')) = Some e" if "e \<in> set nested" for e
  proof -
    have "map Some nested = map (\<lambda>e. map_option (\<lambda>n. e\<lparr>entry_level := n\<rparr>)
        (parent_chain_length topics (entry_id e))) entries"
      using assms(1) by (simp add: derive_nesting_def those_Some)
    moreover have "Some e \<in> set (map Some nested)" using that by simp
    ultimately obtain e' where "e' \<in> set entries" "Some e = map_option (\<lambda>n. e'\<lparr>entry_level := n\<rparr>)
        (parent_chain_length topics (entry_id e'))" by auto
    then show ?thesis by (intro bexI [of _ e']) simp_all
  qed
  have "entry_read (attach_entry topics e) \<and> entry_of_topic topics (attach_entry topics e)"
    if e: "e \<in> set nested" for e
  proof -
    obtain e' n where e': "e' \<in> set entries" "parent_chain_length topics (entry_id e') = Some n"
      "e = e'\<lparr>entry_level := n\<rparr>" using nested [OF e] by auto
    then obtain t where t: "find_topic_data topics (entry_id e') = Some t" "parent_chain topics t (unat n)"
      using parent_chain_length_iff [OF assms(2)] by blast
    moreover have "entry_read e'" using e'(1) assms(3) by (auto simp: list_all_iff)
    ultimately show ?thesis
      by (simp add: attach_entry_def e'(3) attach_topic_data_def entry_read_def entry_of_topic_def)
  qed
  then show ?thesis by (simp add: list_all_iff)
qed

lemma toc_from_entries:
  assumes "length topics < 2 ^ 32"
  shows "list_all (\<lambda>e. entry_read e \<and> entry_of_topic topics e) toc \<Longrightarrow> grammar = Style_only \<Longrightarrow>
    list_all (\<lambda>e. entry_read e \<and> entry_of_topic topics e)
      (toc_from decoded_records topics starts sources grammar in_contents index toc)"
  using assms
proof (induction decoded_records topics starts sources grammar in_contents index toc rule: toc_from.induct)
  case (1 decoded_records topics starts sources grammar in_contents index toc)
  note toc = "1.prems"(1) and grammar = "1.prems"(2) and few = "1.prems"(3)
  let ?entries = "extract_toc_entries (decoded_records ! index) (record_line_starts starts index) grammar"
  consider (finish) "index \<ge> length decoded_records"
    | (skip) "\<not> index \<ge> length decoded_records" "\<not> in_contents \<and> \<not> is_contents_topic_record (decoded_records ! index)"
    | (leave) "\<not> index \<ge> length decoded_records"
        "\<not> (\<not> in_contents \<and> \<not> is_contents_topic_record (decoded_records ! index))"
        "in_contents \<and> ends_contents decoded_records sources index"
    | (read) "\<not> index \<ge> length decoded_records"
        "\<not> (\<not> in_contents \<and> \<not> is_contents_topic_record (decoded_records ! index))"
        "\<not> (in_contents \<and> ends_contents decoded_records sources index)"
    by blast
  then show ?case
  proof cases
    case finish
    then show ?thesis using toc by (subst toc_from.simps) simp
  next
    case skip
    then show ?thesis using "1.IH"(1) [OF skip toc grammar few] by (subst toc_from.simps) simp
  next
    case leave
    then show ?thesis using toc by (subst toc_from.simps) simp
  next
    case read
    show ?thesis
    proof (cases "derive_nesting topics grammar ?entries")
      case None
      then show ?thesis using read by (subst toc_from.simps) (auto simp: Let_def)
    next
      case (Some nested)
      have "list_all (\<lambda>e. entry_read e \<and> entry_of_topic topics e) (map (attach_entry topics) nested)"
        by (rule derive_nesting_entries [OF Some [unfolded grammar] few])
          (simp add: extract_toc_entries_def toc_entries_read)
      then have "list_all (\<lambda>e. entry_read e \<and> entry_of_topic topics e) (toc @ map (attach_entry topics) nested)"
        using toc by simp
      from "1.IH"(2) [OF read refl Some this grammar few]
      show ?thesis using read Some by (subst toc_from.simps) (auto simp: Let_def)
    qed
  qed
qed

text \<open>In a version 1.0 or 1.1 book every entry of the table of contents names a topic, lies at the
  depth of that topic's parents and carries its record numbers; no entry has a guessed level.\<close>

lemma toc_levels_follow_parents:
  assumes "length topics < 2 ^ 32"
  shows "list_all (\<lambda>e. entry_read e \<and> entry_of_topic topics e)
    (build_table_of_contents decoded_records topics starts sources Style_only)"
  unfolding build_table_of_contents_def by (rule toc_from_entries [OF assms]) simp_all

subsection \<open>The window of an entry\<close>

lemma find_first_before: "find_first s needle = Some n \<Longrightarrow> p < n \<Longrightarrow> \<not> starts_with (drop p s) needle"
  using find_first_Some by blast

lemma find_from_before:
  assumes "find_from s needle pos = Some n" and "pos \<le> p" and "p < n"
  shows "\<not> starts_with (drop p s) needle"
proof -
  obtain k where k: "find_first (drop pos s) needle = Some k" "n = pos + k"
    using assms(1) by (auto simp: find_from_def split: if_splits)
  then have "p - pos < k" using assms(2,3) by simp
  from find_first_before [OF k(1) this] show ?thesis using assms(2) by simp
qed

lemma find_from_none:
  assumes "find_from s needle pos = None" and "pos \<le> p" and "p < length s"
  shows "\<not> starts_with (drop p s) needle"
proof -
  have "find_first (drop pos s) needle = None" using assms by (auto simp: find_from_def split: if_splits)
  from find_first_None [OF this, of "p - pos"] show ?thesis using assms(2) by simp
qed

lemma min_end_le: "min_end e found \<le> e"
  by (simp add: min_end_def split: option.split)

lemma min_end_before: "p < min_end e (Some n) \<Longrightarrow> p < n"
  by (simp add: min_end_def)

lemma next_display_line_start_facts:
  assumes "sorted starts"
  shows "next_display_line_start starts offset = Some n \<Longrightarrow> offset \<le> n"
    and "offset \<le> p \<Longrightarrow> p \<in> set starts \<Longrightarrow>
      \<exists>n. next_display_line_start starts offset = Some n \<and> n \<le> p"
proof -
  let ?k = "bound_index (\<lambda>start. start < offset) starts"
  have "passes_first (\<lambda>start. start < offset) starts"
    unfolding passes_first_def using sorted_nth_mono [OF assms] order_le_less_trans by blast
  note k = bound_index_spec [OF this]
  have line: "next_display_line_start starts offset = (if ?k = length starts then None else Some (starts ! ?k))"
    by (simp only: next_display_line_start_def Let_def)
  show "offset \<le> n" if n: "next_display_line_start starts offset = Some n"
  proof -
    have "?k \<noteq> length starts" "n = starts ! ?k" using n unfolding line by (simp_all split: if_splits)
    then show ?thesis using k(1) k(3) [OF le_refl] by (simp add: not_less)
  qed
  assume p: "offset \<le> p" "p \<in> set starts"
  then obtain i where i: "i < length starts" "starts ! i = p" by (auto simp: in_set_conv_nth)
  have "\<not> i < ?k" using k(2) [of i] p(1) i(2) by auto
  then have "?k \<le> i" by simp
  moreover from this have "starts ! ?k \<le> p" using sorted_nth_mono [OF assms] i by blast
  ultimately show "\<exists>n. next_display_line_start starts offset = Some n \<and> n \<le> p"
    using i(1) unfolding line by simp
qed

lemma find_upt: "find P [b..<e] = Some q \<Longrightarrow> b \<le> q"
  by (auto simp: find_Some_iff)

lemma find_upt_first: "P p \<Longrightarrow> b \<le> p \<Longrightarrow> p < e \<Longrightarrow> \<exists>q. find P [b..<e] = Some q \<and> q \<le> p"
proof (induction "e - b" arbitrary: b)
  case (Suc n)
  then have "[b..<e] = b # [Suc b..<e]" by (simp add: upt_rec)
  moreover have "\<exists>q. find P [Suc b..<e] = Some q \<and> q \<le> p" if "\<not> P b"
  proof -
    have "b \<noteq> p" using that Suc.prems(1) by blast
    then show ?thesis using Suc.hyps(1) [of "Suc b"] Suc.hyps(2) Suc.prems by simp
  qed
  ultimately show ?case using Suc.prems(2) by (cases "P b") simp_all
qed simp

lemma find_toc_end_marker_le:
  assumes "find_from lower ''etoc'' b = Some k" and "k < limit"
  shows "\<exists>t. find_toc_end_marker lower b limit = Some t \<and> t \<le> k"
  using assms by (simp add: find_toc_end_marker_def min_option_def Let_def split: option.split)

text \<open>What an entry's value never runs over.\<close>

definition entry_window :: "string \<Rightarrow> nat list \<Rightarrow> nat \<Rightarrow> nat \<Rightarrow> bool" where
  "entry_window lower starts b e \<longleftrightarrow>
     b \<le> e \<and> e \<le> length lower \<and>
     (\<forall>p. b \<le> p \<and> p < e \<longrightarrow>
        \<not> starts_with (drop p lower) ''ctoce '' \<and> \<not> starts_with (drop p lower) ''etoc'' \<and>
        \<not> looks_like_toc_entry_boundary lower p \<and> p \<notin> set starts)"

lemma toc_value_end_window:
  assumes "b \<le> length lower" and "sorted starts"
  shows "entry_window lower starts b (toc_value_end lower starts b)"
proof -
  let ?next = "find_from lower ''ctoce '' b" and ?toc = "find_toc_end_marker lower b (length lower)"
  let ?e1 = "case ?toc of None \<Rightarrow> length lower
    | Some t \<Rightarrow> (case ?next of None \<Rightarrow> t | Some n \<Rightarrow> if t < n then t else length lower)"
  let ?e2 = "min_end ?e1 ?next" and ?line = "next_display_line_start starts b"
  let ?e3 = "min_end ?e2 ?line"
  let ?found = "find (looks_like_toc_entry_boundary lower) [b..<?e3]"
  let ?e = "min_end ?e3 ?found"
  have e: "toc_value_end lower starts b = ?e" by (simp only: toc_value_end_def Let_def)
  have toc_b: "b \<le> t \<and> t < length lower" if "?toc = Some t" for t
    using that find_from_bounds
    by (auto simp: find_toc_end_marker_def min_option_def Let_def split: option.splits if_splits)
  have e1: "b \<le> ?e1" "?e1 \<le> length lower" using assms(1) toc_b by (auto split: option.splits)
  have e2: "b \<le> ?e2" using e1(1) find_from_bounds by (auto simp: min_end_def split: option.split)
  have e3: "b \<le> ?e3" using e2 next_display_line_start_facts(1) [OF assms(2)]
    by (auto simp: min_end_def split: option.split)
  have "b \<le> ?e"
  proof (cases ?found)
    case None
    then show ?thesis using e3 by (simp add: min_end_def)
  next
    case (Some q)
    then show ?thesis using e3 find_upt [OF Some] by (simp add: min_end_def)
  qed
  moreover have le: "?e \<le> ?e3" "?e3 \<le> ?e2" "?e2 \<le> ?e1" by (rule min_end_le)+
  moreover have "\<not> starts_with (drop p lower) ''ctoce ''" if "b \<le> p" "p < ?e" for p
  proof (cases ?next)
    case None
    then show ?thesis using find_from_none that le e1(2) by simp
  next
    case (Some n)
    then have "p < n" using that(2) le min_end_before [of p ?e1 n] by simp
    then show ?thesis using find_from_before [OF Some that(1)] by simp
  qed
  moreover have "\<not> starts_with (drop p lower) ''etoc''" if p: "b \<le> p" "p < ?e" for p
  proof
    assume at: "starts_with (drop p lower) ''etoc''"
    have "p < length lower" using p le e1(2) by linarith
    then obtain k where k: "find_from lower ''etoc'' b = Some k" "k \<le> p"
      using at find_from_none [OF _ p(1)] find_from_before [OF _ p(1)]
      by (metis linorder_not_less not_Some_eq)
    have "k < length lower" using k(2) \<open>p < length lower\<close> by simp
    then obtain t where t: "?toc = Some t" "t \<le> p"
      using k find_toc_end_marker_le [of lower b k] by (meson le_trans)
    have "p < ?e2" using p le by linarith
    then show False using t
      by (auto simp: min_end_def split: option.splits if_splits)
  qed
  moreover have "\<not> looks_like_toc_entry_boundary lower p" if p: "b \<le> p" "p < ?e" for p
  proof
    assume at: "looks_like_toc_entry_boundary lower p"
    have "p < ?e3" using p le by linarith
    then obtain q where q: "?found = Some q" "q \<le> p" using find_upt_first [of "looks_like_toc_entry_boundary lower" p b ?e3] at p(1) by blast
    have "p < q" using p(2) min_end_before [of p ?e3 q] unfolding q(1) by blast
    then show False using q(2) by simp
  qed
  moreover have "p \<notin> set starts" if p: "b \<le> p" "p < ?e" for p
  proof
    assume "p \<in> set starts"
    then obtain n where n: "?line = Some n" "n \<le> p"
      using next_display_line_start_facts(2) [OF assms(2) p(1)] by auto
    have "p < ?e3" using p le by linarith
    then have "p < n" using min_end_before [of p ?e2 n] unfolding n(1) by blast
    then show False using n(2) by simp
  qed
  ultimately show ?thesis using e1(2) unfolding e entry_window_def by auto
qed

lemma toc_entries_windows:
  assumes "sorted starts"
  shows "e \<in> set (toc_entries_from decoded starts grammar offset) \<Longrightarrow>
    \<exists>found stop. starts_with (drop found (ascii_lower decoded)) ''ctoce '' \<and>
      entry_window (ascii_lower decoded) starts (found + 6) stop \<and>
      read_toc_entry grammar (trim_ascii (slice decoded (found + 6) stop)) = Some e"
  using assms
proof (induction decoded starts grammar offset rule: toc_entries_from.induct)
  case (1 decoded starts grammar offset)
  let ?lower = "ascii_lower decoded"
  have go: "offset < length decoded"
    using "1.prems"(1) by (subst (asm) toc_entries_from.simps) (simp split: if_splits)
  have "find_from ?lower ''ctoce '' offset \<noteq> None"
  proof
    assume "find_from ?lower ''ctoce '' offset = None"
    then show False using "1.prems"(1) go by (subst (asm) toc_entries_from.simps) simp
  qed
  then obtain found where found: "find_from ?lower ''ctoce '' offset = Some found" by auto
  let ?ended = "case find_toc_end_marker ?lower offset (found + 1) of
    None \<Rightarrow> False | Some record_toc_end \<Rightarrow> record_toc_end < found"
  have open0: "\<not> ?ended"
    using "1.prems"(1) go found by (subst (asm) toc_entries_from.simps) (simp split: if_splits)
  let ?stop = "toc_value_end ?lower starts (found + 6)"
  let ?entry = "read_toc_entry grammar (trim_ascii (slice decoded (found + 6) ?stop))"
  let ?rest = "toc_entries_from decoded starts grammar (found + 6)"
  have six: "length ''ctoce '' = 6" by simp
  have eq: "toc_entries_from decoded starts grammar offset =
      (case ?entry of None \<Rightarrow> ?rest | Some entry \<Rightarrow> entry # ?rest)"
    unfolding toc_entries_from.simps [of decoded starts grammar offset] six Let_def
    using go found open0 by simp
  have IH: "e \<in> set ?rest \<Longrightarrow> ?case"
    using "1.IH" [OF go [unfolded not_le [symmetric]] found open0 refl refl refl, unfolded six]
      "1.prems"(2) by blast
  show ?case
  proof (cases "?entry = Some e")
    case True
    have at: "starts_with (drop found ?lower) ''ctoce ''" "found + 6 \<le> length ?lower"
      using find_from_Some [OF found] by simp_all
    show ?thesis
      using at True toc_value_end_window [OF at(2) "1.prems"(2)] by blast
  next
    case False
    then show ?thesis using "1.prems"(1) IH unfolding eq by (auto split: option.splits)
  qed
qed


definition example_contents :: string where
  "example_contents = ''CTocE 1 1 2 A?CTocE 1 1 3 B''"

lemma example_contents_entry:
  "extract_toc_entries example_contents [] Nesting_and_style \<noteq> []"
proof -
  have lower: "ascii_lower example_contents = ''ctoce 1 1 2 a?ctoce 1 1 3 b''"
    by (simp add: example_contents_def ascii_lower_def ascii_lower_char_def less_eq_char_def char_code_def
        char_of_eq_iff)
  have found: "find_from ''ctoce 1 1 2 a?ctoce 1 1 3 b'' ''ctoce '' 0 = Some 0"
    by (simp add: find_from_def starts_with_def)
  have stop: "toc_value_end ''ctoce 1 1 2 a?ctoce 1 1 3 b'' [] 6 = 13"
    by (simp add: toc_value_end_def find_from_def starts_with_def find_toc_end_marker_def min_option_def
        next_display_line_start_def bound_index_def partition_search.simps min_end_def
        looks_like_toc_entry_boundary_def toc_boundaries_def upt_rec)
  have body: "trim_ascii (slice example_contents 6 13) = ''1 1 2 A''"
    by (simp add: example_contents_def slice_def trim_ascii_def trim_ascii_where_def ascii_blank_def isspace_def)
  have title: "normalize_toc_title ''A'' = ''A''"
    by (simp add: normalize_toc_title_def Let_def drop_dangling_punctuation_def trim_ascii_def
        trim_ascii_where_def ascii_blank_def isspace_def ascii_starts_with_case_insensitive_def
        ascii_starts_with_case_insensitive_at_def restore_product_names_def
        capitalize_bookmanager_words_def isalpha_def isupper_def islower_def toupper_def
        normalize_title_parts.simps minor_words_def ascii_lower_char_def char_code_le ascii_lower_def)
  have "read_toc_entry Nesting_and_style ''1 1 2 A'' \<noteq> None"
    by (simp add: read_toc_entry_def read_toc_fields_def stream_read_u32_def stream_read_word_def
        stream_getline_def isspace_def isdigit_def char_code_le digits_value_def Let_def trim_ascii_def
        trim_ascii_where_def ascii_blank_def title)
  moreover have "find_toc_end_marker ''ctoce 1 1 2 a?ctoce 1 1 3 b'' 0 (0 + 1) = None"
    by (simp add: find_toc_end_marker_def min_option_def find_from_def starts_with_def)
  moreover have "length example_contents = 27" by (simp add: example_contents_def)
  moreover have six: "0 + length ''ctoce '' = 6" by simp
  ultimately show ?thesis
    unfolding extract_toc_entries_def toc_entries_from.simps [of example_contents "[]" Nesting_and_style 0]
      lower found Let_def option.case six
    using stop body by (auto split: option.split)
qed


end
