(* ===== verification/Controls.thy ===== *)
theory Controls
  imports Scan Assembly
begin

section \<open>Book controls and properties (\<open>src/container/logical.cpp\<close>, \<open>src/core/properties.cpp\<close>)\<close>

text \<open>
  The \<open>c<name>=\<close> controls of the book header: where a control's value ends, how it is trimmed, and the
  properties the book shows. \<open>offsets\<close> are the output offsets of the record's tokens, \<open>roles\<close> their
  display-line roles; they are known when there is one for every offset.
\<close>

record boo_logical_control =
  control_key :: string
  control_value :: string

record boo_book_properties =
  prop_language :: string
  prop_version :: string
  prop_build_version :: string
  prop_reflow :: bool
  prop_title :: string
  prop_short_title :: string
  prop_copyright :: string
  prop_security :: string
  prop_date :: string
  prop_authors :: "string list"
  prop_document_number :: string

record token_boundaries =
  boundary_offsets :: "nat list"
  boundary_framing :: "token_framing_role list"

text \<open>The canonical and the lower-case spelling of the keys that are read.\<close>

definition control_keys :: "(string \<times> string) list" where
  "control_keys =
     [(''CLANGUAGE'', ''clanguage=''), (''CVERSION'', ''cversion=''), (''CBLDVERS'', ''cbldvers=''),
      (''CREFLOW'', ''creflow=''), (''CTITLE'', ''ctitle=''), (''CSTITLE'', ''cstitle=''),
      (''CCOPYRIGHT'', ''ccopyright=''), (''CSECURITY'', ''csecurity=''), (''CDATE'', ''cdate=''),
      (''CAUTHOR'', ''cauthor=''), (''CDOCNUM'', ''cdocnum='')]"

subsection \<open>Reading the controls of a record\<close>

definition token_span_carries_a_word :: "string \<Rightarrow> nat \<Rightarrow> nat \<Rightarrow> bool" where
  "token_span_carries_a_word decoded b e = list_ex isalnum (slice decoded b (min e (length decoded)))"

definition trim_control_value :: "bool \<Rightarrow> string \<Rightarrow> string" where
  "trim_control_value framing_known raw =
     (if \<not> framing_known then trim_ascii raw
      else let v = trim_ascii_whitespace raw;
               e = length v - length (takeWhile ispunct (rev v))
           in if e < length v \<and> e > 0 \<and> isspace (v ! (e - 1))
              then trim_ascii_whitespace (take e v) else v)"

definition separator_token ::
  "string \<Rightarrow> nat list \<Rightarrow> token_framing_role list \<Rightarrow> nat \<Rightarrow> nat \<Rightarrow> bool" where
  "separator_token decoded offsets roles index e =
     (if length roles = length offsets then roles ! index = Line_length
      else \<not> token_span_carries_a_word decoded (offsets ! index) e)"

text \<open>The begin of the run of separators in front of the key at token \<open>index\<close>.\<close>

fun separator_run ::
  "string \<Rightarrow> nat list \<Rightarrow> token_framing_role list \<Rightarrow> nat \<Rightarrow> nat \<Rightarrow> nat \<Rightarrow> nat \<Rightarrow> nat" where
  "separator_run decoded offsets roles first value_begin 0 boundary = boundary"
| "separator_run decoded offsets roles first value_begin (Suc index) boundary =
     (if Suc index > first \<and> offsets ! index \<ge> value_begin \<and>
         separator_token decoded offsets roles index boundary
      then separator_run decoded offsets roles first value_begin index (offsets ! index)
      else boundary)"

text \<open>The loop over the later tokens: the value ends in front of the first one that opens a key.\<close>

function later_key ::
  "string \<Rightarrow> nat list \<Rightarrow> token_framing_role list \<Rightarrow> nat \<Rightarrow> nat \<Rightarrow> nat \<Rightarrow> nat \<Rightarrow> nat" where
  "later_key decoded offsets roles first value_begin value_end index =
     (if index \<ge> length offsets \<or> offsets ! index > value_end then value_end
      else if \<not> control_key_begins_at decoded (ascii_lower decoded) (offsets ! index)
      then later_key decoded offsets roles first value_begin value_end (index + 1)
      else separator_run decoded offsets roles first value_begin index (offsets ! index))"
  by pat_completeness auto
termination
  by (relation "measure (\<lambda>(_, offsets, _, _, _, _, index). length offsets - index)") auto

declare later_key.simps [simp del]

definition control_value_end :: "string \<Rightarrow> nat list \<Rightarrow> token_framing_role list \<Rightarrow> nat \<Rightarrow> nat" where
  "control_value_end decoded offsets roles value_begin =
     (let value_end = cut_at (ascii_lower decoded) value_begin (map snd control_keys) (length decoded);
          first = bound_index (\<lambda>offset. offset < value_begin) offsets
      in later_key decoded offsets roles first value_begin value_end first)"

definition read_control ::
  "string \<Rightarrow> nat list \<Rightarrow> token_framing_role list \<Rightarrow> string \<times> string \<Rightarrow> boo_logical_control option" where
  "read_control decoded offsets roles key =
     (case find_from (ascii_lower decoded) (snd key) 0 of
        None \<Rightarrow> None
      | Some found \<Rightarrow>
          let value_begin = found + length (snd key);
              value_end = control_value_end decoded offsets roles value_begin;
              raw = trim_control_value (length roles = length offsets) (slice decoded value_begin value_end)
          in Some \<lparr> control_key = fst key, control_value = normalize_logical_control_value (fst key) raw \<rparr>)"

definition extract_logical_controls ::
  "string \<Rightarrow> nat list \<Rightarrow> token_framing_role list \<Rightarrow> boo_logical_control list" where
  "extract_logical_controls decoded offsets roles =
     List.map_filter (read_control decoded offsets roles) control_keys"

subsection \<open>The book header\<close>

definition record_boundaries :: "token_boundaries list \<Rightarrow> nat \<Rightarrow> token_boundaries" where
  "record_boundaries bs index =
     (if index < length bs then bs ! index else \<lparr> boundary_offsets = [], boundary_framing = [] \<rparr>)"

function book_controls_from ::
  "string list \<Rightarrow> token_boundaries list \<Rightarrow> nat \<Rightarrow> boo_logical_control list \<Rightarrow> boo_logical_control list" where
  "book_controls_from decoded_records bs index controls =
     (if index \<ge> length decoded_records then controls
      else
        let b = record_boundaries bs index;
            record_controls = extract_logical_controls (decoded_records ! index) (boundary_offsets b)
              (boundary_framing b)
        in if list_ex (\<lambda>c. control_key c = ''CDOCNUM'') record_controls then controls @ record_controls
           else book_controls_from decoded_records bs (index + 1) (controls @ record_controls))"
  by pat_completeness auto
termination
  by (relation "measure (\<lambda>(decoded_records, _, index, _). length decoded_records - index)") auto

declare book_controls_from.simps [simp del]

definition extract_book_logical_controls ::
  "string list \<Rightarrow> token_boundaries list \<Rightarrow> boo_logical_control list" where
  "extract_book_logical_controls decoded_records bs = book_controls_from decoded_records bs 0 []"

definition no_properties :: boo_book_properties where
  "no_properties =
     \<lparr> prop_language = [], prop_version = [], prop_build_version = [], prop_reflow = False,
       prop_title = [], prop_short_title = [], prop_copyright = [], prop_security = [], prop_date = [],
       prop_authors = [], prop_document_number = [] \<rparr>"

definition apply_control :: "boo_logical_control \<Rightarrow> boo_book_properties \<Rightarrow> boo_book_properties" where
  "apply_control c p =
     (let key = control_key c; v = control_value c in
      if key = ''CLANGUAGE'' then p\<lparr>prop_language := v\<rparr>
      else if key = ''CVERSION'' then p\<lparr>prop_version := v\<rparr>
      else if key = ''CBLDVERS'' then p\<lparr>prop_build_version := v\<rparr>
      else if key = ''CREFLOW'' then p\<lparr>prop_reflow := (ascii_lower v = ''on'')\<rparr>
      else if key = ''CTITLE'' then p\<lparr>prop_title := v\<rparr>
      else if key = ''CSTITLE'' then p\<lparr>prop_short_title := v\<rparr>
      else if key = ''CCOPYRIGHT'' then p\<lparr>prop_copyright := v\<rparr>
      else if key = ''CSECURITY'' then p\<lparr>prop_security := v\<rparr>
      else if key = ''CDATE'' then p\<lparr>prop_date := v\<rparr>
      else if key = ''CAUTHOR'' then (if v \<noteq> [] then p\<lparr>prop_authors := prop_authors p @ [v]\<rparr> else p)
      else if key = ''CDOCNUM'' then p\<lparr>prop_document_number := v\<rparr>
      else p)"

definition build_book_properties :: "boo_logical_control list \<Rightarrow> boo_book_properties" where
  "build_book_properties controls = fold apply_control controls no_properties"

subsection \<open>What the controls of a record are\<close>

lemma control_key_read: "read_control decoded offsets roles key = Some c \<Longrightarrow> control_key c = fst key"
  by (auto simp: read_control_def Let_def split: option.splits)

lemma map_filter_keys:
  "map control_key (List.map_filter (read_control decoded offsets roles) keys) =
   map fst (filter (\<lambda>k. find_from (ascii_lower decoded) (snd k) 0 \<noteq> None) keys)"
proof (induction keys)
  case Nil
  then show ?case by simp
next
  case (Cons k keys)
  show ?case
  proof (cases "find_from (ascii_lower decoded) (snd k) 0")
    case None
    then show ?thesis using Cons by (simp add: read_control_def)
  next
    case (Some found)
    then show ?thesis using Cons by (simp add: read_control_def Let_def)
  qed
qed

lemma separator_run_bounds:
  "value_begin \<le> boundary \<Longrightarrow> value_begin \<le> separator_run decoded offsets roles first value_begin index boundary"
  by (induction decoded offsets roles first value_begin index boundary rule: separator_run.induct) auto

lemma cut_at_facts:
  "from \<le> limit \<Longrightarrow> from \<le> cut_at s from needles limit \<and> cut_at s from needles limit \<le> limit"
proof (induction needles arbitrary: limit)
  case Nil
  then show ?case by (simp add: cut_at_def)
next
  case (Cons needle needles)
  show ?case
  proof (cases "find_from s needle from")
    case None
    then show ?thesis using Cons by (simp add: cut_at_def)
  next
    case (Some n)
    then have "from \<le> n" using find_from_Some by blast
    then show ?thesis using Cons.IH [of "min limit n"] Cons.prems Some by (simp add: cut_at_def)
  qed
qed

text \<open>A text that can be cut out of another one.\<close>

lemma sublist_slice: "sublist (slice s b e) s"
  unfolding slice_def by (meson sublist_drop sublist_order.order_trans sublist_take)

lemma sublist_trim_where: "sublist (trim_ascii_where s drp) s"
  using trim_ascii_where_infix [of s drp] by (metis sublist_appendI)

lemma sublist_trim_control: "sublist (trim_control_value known s) s"
proof -
  have "sublist (trim_ascii_whitespace s) s" for s
    by (simp add: trim_ascii_whitespace_def sublist_trim_where)
  then show ?thesis
    unfolding trim_control_value_def Let_def trim_ascii_def
    by (auto simp: sublist_trim_where intro: sublist_order.order_trans [OF _ sublist_take] sublist_order.order_trans)
qed

lemma sublist_map: "sublist xs ys \<Longrightarrow> sublist (map f xs) (map f ys)"
  by (auto simp: sublist_def) blast

lemma ascii_lower_normalized: "ascii_lower (normalize_logical_control_value key v) = ascii_lower v"
  by (simp add: normalize_logical_control_value_def capitalize_bookmanager_words_def
      ascii_lower_replace_recased ascii_lower_char_def less_eq_char_def char_code_def char_of_eq_iff)

lemma read_control_sublist:
  assumes "read_control decoded offsets roles key = Some c"
  shows "sublist (ascii_lower (control_value c)) (ascii_lower decoded)"
proof -
  obtain known b e where "control_value c =
      normalize_logical_control_value (fst key) (trim_control_value known (slice decoded b e))"
    using assms by (auto simp: read_control_def Let_def split: option.splits)
  then have "ascii_lower (control_value c) = ascii_lower (trim_control_value known (slice decoded b e))"
    by (simp add: ascii_lower_normalized)
  moreover have "sublist (trim_control_value known (slice decoded b e)) decoded"
    using sublist_trim_control sublist_slice sublist_order.order_trans by blast
  ultimately show ?thesis unfolding ascii_lower_def by (simp add: sublist_map)
qed


subsection \<open>What the properties are\<close>

definition values_of :: "string \<Rightarrow> boo_logical_control list \<Rightarrow> string list" where
  "values_of key controls = map control_value (filter (\<lambda>c. control_key c = key) controls)"

definition last_value :: "string \<Rightarrow> boo_logical_control list \<Rightarrow> string" where
  "last_value key controls = (if values_of key controls = [] then [] else last (values_of key controls))"

lemma values_of_snoc [simp]:
  "values_of key (cs @ [c]) = values_of key cs @ (if control_key c = key then [control_value c] else [])"
  by (simp add: values_of_def)

lemma values_of_Nil [simp]: "values_of key [] = []"
  by (simp add: values_of_def)

text \<open>A property of the book is the value of its last control, and empty without one; the authors are
  the values of all author controls that are not empty, in their order.\<close>

lemma properties_are_last_values:
  "build_book_properties controls =
     \<lparr> prop_language = last_value ''CLANGUAGE'' controls, prop_version = last_value ''CVERSION'' controls,
       prop_build_version = last_value ''CBLDVERS'' controls,
       prop_reflow = (ascii_lower (last_value ''CREFLOW'' controls) = ''on''),
       prop_title = last_value ''CTITLE'' controls, prop_short_title = last_value ''CSTITLE'' controls,
       prop_copyright = last_value ''CCOPYRIGHT'' controls,
       prop_security = last_value ''CSECURITY'' controls, prop_date = last_value ''CDATE'' controls,
       prop_authors = filter (\<lambda>v. v \<noteq> []) (values_of ''CAUTHOR'' controls),
       prop_document_number = last_value ''CDOCNUM'' controls \<rparr>"
proof (induction controls rule: rev_induct)
  case Nil
  then show ?case by (simp add: build_book_properties_def no_properties_def last_value_def ascii_lower_def)
next
  case (snoc c cs)
  have step: "build_book_properties (cs @ [c]) = apply_control c (build_book_properties cs)"
    by (simp add: build_book_properties_def)
  have last_snoc_value: "last_value key (cs @ [c]) =
      (if control_key c = key then control_value c else last_value key cs)" for key
    by (simp add: last_value_def)
  show ?case
    unfolding step snoc last_snoc_value values_of_snoc apply_control_def Let_def
    by (cases "control_key c = ''CLANGUAGE''", simp, cases "control_key c = ''CVERSION''", simp,
        cases "control_key c = ''CBLDVERS''", simp, cases "control_key c = ''CREFLOW''", simp,
        cases "control_key c = ''CTITLE''", simp, cases "control_key c = ''CSTITLE''", simp,
        cases "control_key c = ''CCOPYRIGHT''", simp, cases "control_key c = ''CSECURITY''", simp,
        cases "control_key c = ''CDATE''", simp, cases "control_key c = ''CAUTHOR''", simp, simp)
qed

lemma distinct_filter_eq: "distinct xs \<Longrightarrow> length (filter (\<lambda>k. k = x) xs) \<le> 1"
  by (induction xs) (auto simp: filter_empty_conv)

lemma one_docnum:
  "length (values_of ''CDOCNUM'' (extract_logical_controls decoded offsets roles)) \<le> 1"
proof -
  let ?cs = "extract_logical_controls decoded offsets roles"
  have "distinct (map control_key ?cs)"
    unfolding extract_logical_controls_def map_filter_keys
    by (rule distinct_map_filter) (simp add: control_keys_def)
  then have "length (filter (\<lambda>k. k = ''CDOCNUM'') (map control_key ?cs)) \<le> 1"
    by (rule distinct_filter_eq)
  then show ?thesis by (simp add: values_of_def filter_map comp_def)
qed

definition record_controls :: "string list \<Rightarrow> token_boundaries list \<Rightarrow> nat \<Rightarrow> boo_logical_control list" where
  "record_controls decoded_records bs i =
     extract_logical_controls (decoded_records ! i) (boundary_offsets (record_boundaries bs i))
       (boundary_framing (record_boundaries bs i))"

lemma values_of_append [simp]: "values_of key (xs @ ys) = values_of key xs @ values_of key ys"
  by (simp add: values_of_def)

lemma values_of_empty: "values_of key cs = [] \<longleftrightarrow> \<not> list_ex (\<lambda>c. control_key c = key) cs"
  by (auto simp: values_of_def filter_empty_conv list_ex_iff)

lemma book_controls_from_stops:
  "values_of ''CDOCNUM'' controls = [] \<Longrightarrow> index \<le> length decoded_records \<Longrightarrow>
   \<exists>n. index \<le> n \<and> n \<le> length decoded_records \<and>
     book_controls_from decoded_records bs index controls =
       controls @ concat (map (record_controls decoded_records bs) [index..<n]) \<and>
     (n = length decoded_records \<and> values_of ''CDOCNUM'' (book_controls_from decoded_records bs index controls) = [] \<or>
      length (values_of ''CDOCNUM'' (book_controls_from decoded_records bs index controls)) = 1)"
proof (induction decoded_records bs index controls rule: book_controls_from.induct)
  case (1 decoded_records bs index controls)
  let ?rc = "record_controls decoded_records bs"
  show ?case
  proof (cases "index \<ge> length decoded_records")
    case True
    then have "index = length decoded_records" using "1.prems"(2) by simp
    then show ?thesis using "1.prems"(1) by (subst (1 2 3) book_controls_from.simps) simp
  next
    case False
    show ?thesis
    proof (cases "list_ex (\<lambda>c. control_key c = ''CDOCNUM'') (?rc index)")
      case True
      have eq: "book_controls_from decoded_records bs index controls = controls @ ?rc index"
        using False True by (subst book_controls_from.simps) (simp add: Let_def record_controls_def)
      have "values_of ''CDOCNUM'' (?rc index) \<noteq> []" using True by (simp add: values_of_empty)
      moreover have "length (values_of ''CDOCNUM'' (?rc index)) \<le> 1"
        unfolding record_controls_def by (rule one_docnum)
      ultimately have "length (values_of ''CDOCNUM'' (?rc index)) = 1"
        by (cases "values_of ''CDOCNUM'' (?rc index)") auto
      then show ?thesis
        unfolding eq using "1.prems" False by (intro exI [of _ "index + 1"]) simp
    next
      case none: False
      have eq: "book_controls_from decoded_records bs index controls =
          book_controls_from decoded_records bs (index + 1) (controls @ ?rc index)"
        using False none by (subst book_controls_from.simps) (simp add: Let_def record_controls_def)
      have "values_of ''CDOCNUM'' (controls @ ?rc index) = []"
        using "1.prems"(1) none by (simp add: values_of_empty)
      then obtain n where n: "index + 1 \<le> n" "n \<le> length decoded_records"
        "book_controls_from decoded_records bs (index + 1) (controls @ ?rc index) =
           (controls @ ?rc index) @ concat (map ?rc [index + 1..<n])"
        "n = length decoded_records \<and>
           values_of ''CDOCNUM'' (book_controls_from decoded_records bs (index + 1) (controls @ ?rc index)) = [] \<or>
         length (values_of ''CDOCNUM'' (book_controls_from decoded_records bs (index + 1) (controls @ ?rc index))) = 1"
        using "1.IH" [OF False refl refl] none False unfolding record_controls_def by auto
      have "[index..<n] = index # [index + 1..<n]" using n(1) by (simp add: upt_rec)
      then show ?thesis
        unfolding eq using n by (intro exI [of _ n]) simp
    qed
  qed
qed

text \<open>The controls of the book are those of its first records up to and including the first one with a
  document number, so there is at most one document number and nothing behind it is read.\<close>

lemma header_stops_at_document_number:
  "\<exists>n. n \<le> length decoded_records \<and>
     extract_book_logical_controls decoded_records bs =
       concat (map (record_controls decoded_records bs) [0..<n]) \<and>
     (n = length decoded_records \<and>
        values_of ''CDOCNUM'' (extract_book_logical_controls decoded_records bs) = [] \<or>
      length (values_of ''CDOCNUM'' (extract_book_logical_controls decoded_records bs)) = 1)"
  using book_controls_from_stops [of "[]" 0 decoded_records bs]
  by (simp add: extract_book_logical_controls_def)

end
