(* ===== verification/Records.thy ===== *)
theory Records
  imports Framing Toc Controls
begin

section \<open>Reading a book's logical records (\<open>src/container/logical.cpp\<close>)\<close>

text \<open>
  The walk over the content pages: every record is decoded, checked, assembled and turned into text. Its
  out-parameters are fields of the state; \<open>want_boundaries\<close> and \<open>want_framing\<close> say which of them the caller
  passed. The 32-bit casts of payload ranges and record numbers are exact as in \<open>Tokens\<close>.
\<close>

datatype topic_header_framing = Undecided | Native_origin | Non_native

record decode_state =
  st_records :: "string list"
  st_ranges :: "(nat \<times> nat) list"
  st_boundaries :: "token_boundaries list"
  st_framing :: "(nat \<times> topic_header_framing) list"
  st_header_open :: bool

text \<open>What the walk does with the payload \<open>[b, e)\<close> of a record.\<close>

definition decode_record_step ::
  "bytes \<Rightarrow> boo_directory \<Rightarrow> dictionary \<Rightarrow> bool \<Rightarrow> nat \<Rightarrow> nat \<Rightarrow> decode_state \<Rightarrow> decode_state result" where
  "decode_record_step bs dir ts want_framing b e st =
     (let r = decode_record_payload_ir bs dir ts b e (length (st_records st) + 1) in
      case verify_token_ir r of
        Some message \<Rightarrow> Inl (RuntimeError (''invalid logical token IR: '' @ message))
      | None \<Rightarrow>
          let a = assemble_logical_record_with_sources (project_token_words r);
              body = token_words_to_ascii (asm_words a);
              index = length (st_records st);
              candidate = \<lparr> source_record = 0, source_ir = r, source_token_words = [], source_encoded = [],
                            source_assembled = a, source_segments = [] \<rparr>;
              native = (if (st_header_open st \<or> want_framing) \<and> is_topic_header_text body
                        then Some (is_topic_header_record candidate) else None);
              evidence = (case native of
                  None \<Rightarrow> []
                | Some n \<Rightarrow>
                    if \<not> want_framing then []
                    else [(index, if \<not> display_lines_parse r then Undecided
                                  else if n then Native_origin else Non_native)]);
              boundaries = (if st_header_open st
                then [\<lparr> boundary_offsets = assembled_token_output_offsets a,
                        boundary_framing = (if display_lines_parse r then map framing (tokens r) else []) \<rparr>]
                else []);
              closes = ascii_contains_case_insensitive body ''cdocnum='' \<or> native = Some True
          in Inr \<lparr> st_records = st_records st @ [body], st_ranges = st_ranges st @ [(b, e)],
                   st_boundaries = st_boundaries st @ boundaries, st_framing = st_framing st @ evidence,
                   st_header_open = (st_header_open st \<and> \<not> closes) \<rparr>)"

text \<open>The records of one page; the flag says that the caller has all it asked for.\<close>

function record_loop ::
  "bytes \<Rightarrow> boo_directory \<Rightarrow> dictionary \<Rightarrow> bool \<Rightarrow> bool \<Rightarrow> nat \<Rightarrow> nat \<Rightarrow> decode_state \<Rightarrow>
   (bool \<times> decode_state) result" where
  "record_loop bs dir ts want_framing stop page_end record_offset st =
     (if record_offset < page_end then
        (case read_compact_length bs record_offset page_end of
           (None, _) \<Rightarrow> Inr (False, st)
         | (Some record_length, b) \<Rightarrow>
             if b + unat record_length > page_end then Inr (False, st)
             else let e = b + unat record_length in
               and_then (decode_record_step bs dir ts want_framing b e st) (\<lambda>st'.
               if stop \<and> \<not> st_header_open st' then Inr (True, st')
               else record_loop bs dir ts want_framing stop page_end e st'))
      else Inr (False, st))"
  by pat_completeness auto
termination
  by (relation "measure (\<lambda>(_, _, _, _, _, page_end, record_offset, _). page_end - record_offset)")
    (auto dest!: read_compact_length_cursor [OF sym])

declare record_loop.simps [simp del]

definition content_page ::
  "bytes \<Rightarrow> boo_directory \<Rightarrow> dictionary \<Rightarrow> bool \<Rightarrow> bool \<Rightarrow> nat \<Rightarrow> decode_state \<Rightarrow>
   (bool \<times> decode_state) result" where
  "content_page bs dir ts want_framing stop page st =
     (if page \<ge> length bs div page_bytes then Inr (False, st)
      else let page_base = page * page_bytes in
        and_then (read_be16 bs page_base) (\<lambda>cls.
        if cls \<noteq> 0x0000 \<and> cls \<noteq> 0x0001 then Inr (False, st)
        else and_then (read_be16 bs (page_base + 2)) (\<lambda>used_end.
          record_loop bs dir ts want_framing stop (page_base + min (unat used_end) page_bytes)
            (page_base + 4) st)))"

fun content_pages ::
  "bytes \<Rightarrow> boo_directory \<Rightarrow> dictionary \<Rightarrow> bool \<Rightarrow> bool \<Rightarrow> nat list \<Rightarrow> decode_state \<Rightarrow> decode_state result" where
  "content_pages bs dir ts want_framing stop [] st = Inr st"
| "content_pages bs dir ts want_framing stop (page # rest) st =
     and_then (content_page bs dir ts want_framing stop page st) (\<lambda>(finished, st').
     if finished then Inr st' else content_pages bs dir ts want_framing stop rest st')"

fun candidate_pages :: "boo_directory \<Rightarrow> nat list \<Rightarrow> nat list result" where
  "candidate_pages dir [] = Inr []"
| "candidate_pages dir (logical_page # rest) =
     and_then (physical_page_for_logical dir (of_nat logical_page)) (\<lambda>page.
     and_then (candidate_pages dir rest) (\<lambda>pages. Inr (unat page # pages)))"

definition start_state :: "bool \<Rightarrow> decode_state" where
  "start_state want_boundaries =
     \<lparr> st_records = [], st_ranges = [], st_boundaries = [], st_framing = [],
       st_header_open = want_boundaries \<rparr>"

definition content_logical_pages :: "boo_directory \<Rightarrow> nat list" where
  "content_logical_pages dir =
     (let first = unat (content_start_page dir) in [first..<first + unat (content_page_count dir)])"

definition decode_experimental_logical_records ::
  "bytes \<Rightarrow> boo_directory \<Rightarrow> bool \<Rightarrow> bool \<Rightarrow> bool \<Rightarrow> decode_state result" where
  "decode_experimental_logical_records bs dir want_boundaries want_framing stop =
     and_then (decode_experimental_dictionary bs dir) (\<lambda>ts.
     if ts = [] then Inr (start_state want_boundaries)
     else and_then (candidate_pages dir (content_logical_pages dir)) (\<lambda>pages.
       content_pages bs dir ts want_framing stop pages (start_state want_boundaries)))"

subsection \<open>What the walk keeps\<close>

text \<open>The text of the record whose payload is \<open>[b, e)\<close>.\<close>

definition record_text :: "bytes \<Rightarrow> boo_directory \<Rightarrow> dictionary \<Rightarrow> nat \<times> nat \<Rightarrow> string" where
  "record_text bs dir ts payload =
     token_words_to_ascii (assemble_logical_record (project_token_words
       (decode_record_payload_ir bs dir ts (fst payload) (snd payload) 0)))"

definition state_ok :: "bytes \<Rightarrow> boo_directory \<Rightarrow> dictionary \<Rightarrow> bool \<Rightarrow> decode_state \<Rightarrow> bool" where
  "state_ok bs dir ts want_framing st \<longleftrightarrow>
     list_all (range_in_file bs) (st_ranges st) \<and>
     st_records st = map (record_text bs dir ts) (st_ranges st) \<and>
     map fst (st_framing st) =
       (if want_framing then filter (\<lambda>i. is_topic_header_text (st_records st ! i)) [0..<length (st_records st)]
        else [])"

lemma tokens_decode_number:
  "tokens (decode_record_payload_ir bs dir ts b e n) = tokens (decode_record_payload_ir bs dir ts b e m)"
  by (simp add: decode_record_payload_ir_def assign_display_line_framing_def Let_def split: option.splits)

lemma decode_record_step_Inr:
  assumes "b \<le> e"
  shows "\<exists>st'. decode_record_step bs dir ts want_framing b e st = Inr st' \<and>
    st_ranges st' = st_ranges st @ [(b, e)] \<and>
    st_records st' = st_records st @ [record_text bs dir ts (b, e)] \<and>
    map fst (st_framing st') = map fst (st_framing st) @
      (if want_framing \<and> is_topic_header_text (record_text bs dir ts (b, e)) then [length (st_records st)]
       else [])"
proof -
  let ?r = "decode_record_payload_ir bs dir ts b e (length (st_records st) + 1)"
  have body: "token_words_to_ascii (asm_words (assemble_logical_record_with_sources (project_token_words ?r))) =
      record_text bs dir ts (b, e)"
    unfolding record_text_def project_token_words_def assemble_logical_record_def fst_conv snd_conv
    by (simp only: tokens_decode_number [of bs dir ts b e "length (st_records st) + 1" 0])
  show ?thesis
    unfolding decode_record_step_def Let_def decode_verifies [OF assms] body
    by (cases want_framing) simp_all
qed

lemma decode_record_step_ok:
  assumes "state_ok bs dir ts want_framing st" and "b \<le> e" and "e \<le> length bs"
  shows "\<exists>st'. decode_record_step bs dir ts want_framing b e st = Inr st' \<and> state_ok bs dir ts want_framing st'"
proof -
  obtain st' where st': "decode_record_step bs dir ts want_framing b e st = Inr st'"
    "st_ranges st' = st_ranges st @ [(b, e)]"
    "st_records st' = st_records st @ [record_text bs dir ts (b, e)]"
    "map fst (st_framing st') = map fst (st_framing st) @
      (if want_framing \<and> is_topic_header_text (record_text bs dir ts (b, e)) then [length (st_records st)]
       else [])"
    using decode_record_step_Inr [OF assms(2)] by blast
  let ?headers = "\<lambda>records. filter (\<lambda>i. is_topic_header_text (records ! i)) [0..<length records]"
  have "filter (\<lambda>i. is_topic_header_text (st_records st' ! i)) [0..<length (st_records st)] =
      ?headers (st_records st)"
    by (rule filter_cong) (simp_all add: st'(3) nth_append)
  then have headers: "?headers (st_records st') = ?headers (st_records st) @
      (if is_topic_header_text (record_text bs dir ts (b, e)) then [length (st_records st)] else [])"
    by (simp add: st'(3))
  have "map fst (st_framing st') = (if want_framing then ?headers (st_records st') else [])"
    unfolding headers st'(4) using assms(1) by (simp add: state_ok_def)
  then have "state_ok bs dir ts want_framing st'"
    using assms st'(2,3) by (simp add: state_ok_def range_in_file_def)
  then show ?thesis using st'(1) by blast
qed

lemma record_loop_ok:
  "state_ok bs dir ts want_framing st \<Longrightarrow> page_end \<le> length bs \<Longrightarrow>
   \<exists>finished st'. record_loop bs dir ts want_framing stop page_end record_offset st = Inr (finished, st') \<and>
     state_ok bs dir ts want_framing st'"
proof (induction bs dir ts want_framing stop page_end record_offset st rule: record_loop.induct)
  case (1 bs dir ts want_framing stop page_end record_offset st)
  show ?case
  proof (cases "record_offset < page_end")
    case False
    then show ?thesis using "1.prems" by (subst record_loop.simps) (simp add: ex_bool_eq)
  next
    case True
    obtain len b where r: "read_compact_length bs record_offset page_end = (len, b)" by fastforce
    show ?thesis
    proof (cases len)
      case None
      then show ?thesis using True r "1.prems" by (subst record_loop.simps) (simp add: ex_bool_eq)
    next
      case (Some n)
      let ?e = "b + unat n"
      show ?thesis
      proof (cases "?e > page_end")
        case True': True
        then show ?thesis using True r Some "1.prems" by (subst record_loop.simps) (simp add: ex_bool_eq)
      next
        case False
        then obtain st1 where st1: "decode_record_step bs dir ts want_framing b ?e st = Inr st1"
          "state_ok bs dir ts want_framing st1"
          using decode_record_step_ok [OF "1.prems"(1), of b ?e] "1.prems"(2) by auto
        show ?thesis
        proof (cases "stop \<and> \<not> st_header_open st1")
          case True'': True
          then show ?thesis using True r Some False st1 by (subst record_loop.simps) (simp add: ex_bool_eq)
        next
          case go: False
          have "\<exists>finished st'. record_loop bs dir ts want_framing stop page_end ?e st1 = Inr (finished, st') \<and>
              state_ok bs dir ts want_framing st'"
            using "1.IH" [OF True r [symmetric] Some False refl st1(1) go st1(2) "1.prems"(2)] .
          then show ?thesis using True r Some False st1(1) go by (subst record_loop.simps) auto
        qed
      qed
    qed
  qed
qed

lemma content_page_ok:
  assumes "state_ok bs dir ts want_framing st"
  shows "\<exists>finished st'. content_page bs dir ts want_framing stop page st = Inr (finished, st') \<and>
    state_ok bs dir ts want_framing st'"
proof (cases "page < length bs div page_bytes")
  case False
  then show ?thesis using assms by (simp add: content_page_def ex_bool_eq)
next
  case True
  from page_in_file [OF this] have fits: "page * page_bytes + page_bytes \<le> length bs" .
  obtain c where c: "read_be16 bs (page * page_bytes) = Inr c"
    using read_be16_Inr [of "page * page_bytes" bs] fits by auto
  obtain u where u: "read_be16 bs (page * page_bytes + 2) = Inr u"
    using read_be16_Inr [of "page * page_bytes + 2" bs] fits by auto
  have "page * page_bytes + min (unat u) page_bytes \<le> length bs" using fits by linarith
  from record_loop_ok [OF assms this, of stop "page * page_bytes + 4"] show ?thesis
    unfolding content_page_def Let_def c u and_then_Inr using True assms by auto
qed

lemma content_pages_ok:
  "state_ok bs dir ts want_framing st \<Longrightarrow>
   \<exists>st'. content_pages bs dir ts want_framing stop pages st = Inr st' \<and> state_ok bs dir ts want_framing st'"
proof (induction pages arbitrary: st)
  case Nil
  then show ?case by simp
next
  case (Cons page pages)
  obtain finished st1 where st1: "content_page bs dir ts want_framing stop page st = Inr (finished, st1)"
    "state_ok bs dir ts want_framing st1"
    using content_page_ok [OF Cons.prems] by blast
  then show ?case using Cons.IH [OF st1(2)] by (cases finished) simp_all
qed

lemma candidate_pages_returns:
  "list_all (\<lambda>n. n < 2 ^ 32) pages \<Longrightarrow> returns (candidate_pages dir pages) \<longleftrightarrow> 0 \<notin> set pages"
proof (induction pages)
  case Nil
  then show ?case by simp
next
  case (Cons n pages)
  show ?case
  proof (cases "n = 0")
    case True
    then show ?thesis by (simp add: physical_page_for_logical_def)
  next
    case False
    then obtain p where "physical_page_for_logical dir (of_nat n) = Inr p"
      using Cons.prems of_nat_u32_eq_0 [of n] by (simp add: physical_page_for_logical_def)
    then show ?thesis using False Cons by (simp add: returns_and_then) (simp add: returns_iff)
  qed
qed

lemma state_ok_start: "state_ok bs dir ts want_framing (start_state want_boundaries)"
  by (simp add: state_ok_def start_state_def)

lemma content_logical_pages_facts:
  "list_all (\<lambda>n. n < 2 ^ 32) (content_logical_pages dir)"
  "0 \<in> set (content_logical_pages dir) \<longleftrightarrow> content_start_page dir = 0 \<and> content_page_count dir \<noteq> 0"
proof -
  have "unat (content_start_page dir) + unat (content_page_count dir) < 2 ^ 32"
    using unat_u16_le [of "content_start_page dir"] unat_u16_le [of "content_page_count dir"] by simp
  then show "list_all (\<lambda>n. n < 2 ^ 32) (content_logical_pages dir)"
    by (auto simp: content_logical_pages_def Let_def list_all_iff)
  show "0 \<in> set (content_logical_pages dir) \<longleftrightarrow> content_start_page dir = 0 \<and> content_page_count dir \<noteq> 0"
    by (auto simp: content_logical_pages_def Let_def unat_eq_zero unat_gt_0)
qed

lemma decode_records_Inr:
  assumes "decode_experimental_dictionary bs dir = Inr ts" and "ts \<noteq> []"
    and "candidate_pages dir (content_logical_pages dir) = Inr pages"
  shows "\<exists>st. decode_experimental_logical_records bs dir want_boundaries want_framing stop = Inr st \<and>
    state_ok bs dir ts want_framing st"
  using content_pages_ok [OF state_ok_start] assms
  by (simp add: decode_experimental_logical_records_def)

text \<open>C2: Reading the records of a book fails only on its directory: on a dictionary that cannot be read, or
  on content pages that claim to start at logical page 0. Whatever the content pages hold, no read leaves
  the file and no decoded record is rejected.\<close>

theorem reading_records_fails_only_on_directory:
  "returns (decode_experimental_logical_records bs dir want_boundaries want_framing stop) =
     (case decode_experimental_dictionary bs dir of
        Inl _ \<Rightarrow> False
      | Inr ts \<Rightarrow> if ts = [] \<or> content_page_count dir = 0 then True else content_start_page dir \<noteq> 0)"
proof (cases "decode_experimental_dictionary bs dir")
  case (Inl e)
  then show ?thesis by (simp add: decode_experimental_logical_records_def)
next
  case (Inr ts)
  show ?thesis
  proof (cases "ts = []")
    case True
    then show ?thesis by (simp add: decode_experimental_logical_records_def Inr)
  next
    case False
    have pages: "returns (candidate_pages dir (content_logical_pages dir)) \<longleftrightarrow>
        \<not> (content_start_page dir = 0 \<and> content_page_count dir \<noteq> 0)"
      unfolding candidate_pages_returns [OF content_logical_pages_facts(1)] content_logical_pages_facts(2) ..
    show ?thesis
    proof (cases "candidate_pages dir (content_logical_pages dir)")
      case Inl': (Inl e)
      then have "content_start_page dir = 0 \<and> content_page_count dir \<noteq> 0" using pages by simp
      then show ?thesis using False Inr Inl' by (simp add: decode_experimental_logical_records_def)
    next
      case Inr': (Inr ps)
      then have "\<not> (content_start_page dir = 0 \<and> content_page_count dir \<noteq> 0)" using pages by simp
      then show ?thesis
        using decode_records_Inr [OF Inr False Inr', of want_boundaries want_framing stop] False Inr
        by (auto simp: returns_iff)
    qed
  qed
qed

text \<open>C3: The records that were read are the texts of their payload ranges, one for one; every range lies in
  the file, and framing evidence is kept for exactly the records that look like a topic header.\<close>

theorem records_are_range_texts:
  "case decode_experimental_logical_records bs dir want_boundaries want_framing stop of
     Inl _ \<Rightarrow> True
   | Inr st \<Rightarrow>
       (case decode_experimental_dictionary bs dir of
          Inl _ \<Rightarrow> False
        | Inr ts \<Rightarrow> state_ok bs dir ts want_framing st)"
proof (cases "decode_experimental_dictionary bs dir")
  case (Inl e)
  then show ?thesis by (simp add: decode_experimental_logical_records_def)
next
  case (Inr ts)
  show ?thesis
  proof (cases "ts = []")
    case True
    then show ?thesis using Inr state_ok_start by (simp add: decode_experimental_logical_records_def)
  next
    case False
    show ?thesis
    proof (cases "candidate_pages dir (content_logical_pages dir)")
      case Inl': (Inl e)
      then show ?thesis using False Inr by (simp add: decode_experimental_logical_records_def)
    next
      case Inr': (Inr pages)
      then show ?thesis
        using decode_records_Inr [OF Inr False Inr', of want_boundaries want_framing stop] Inr by auto
    qed
  qed
qed

end
