(* ===== verification/Revisions.thy ===== *)
theory Revisions
  imports Framing
begin

section \<open>Declared revision characters (\<open>src/container/revision_declarations.cpp\<close>)\<close>

text \<open>
  The characters that the \<open>crevdesc\<close> lines of the book header declare. The header records are the payload
  ranges in front of the first topic, decoded with the book's dictionary.
\<close>

definition unmapped_word :: u16 where
  "unmapped_word = 0xFFFF"

text \<open>A leading spacing control is not drawn.\<close>

definition drawn_words :: "logical_token_ir \<Rightarrow> token_words" where
  "drawn_words t =
     (case decoded_words t of [] \<Rightarrow> [] | w # ws \<Rightarrow> if w < 4 then ws else w # ws)"

definition blank_words :: "token_words \<Rightarrow> bool" where
  "blank_words words \<longleftrightarrow> list_all (\<lambda>w. w = 0x20) words"

definition crevdesc_words :: token_words where
  "crevdesc_words = [0x63, 0x72, 0x65, 0x76, 0x64, 0x65, 0x73, 0x63]"

definition lower_word :: "u16 \<Rightarrow> u16" where
  "lower_word w = (if 0x41 \<le> w \<and> w \<le> 0x5A then w + 32 else w)"

definition opcode_is_crevdesc :: "token_words \<Rightarrow> bool" where
  "opcode_is_crevdesc words \<longleftrightarrow>
     length words = length crevdesc_words \<and> list_all2 (\<lambda>w c. lower_word w = c) words crevdesc_words"

text \<open>The first two tokens a line draws behind its length byte: the opcode and the operand.\<close>

definition drawn_of_line :: "logical_record_ir \<Rightarrow> display_line_ir \<Rightarrow> token_words list" where
  "drawn_of_line r line =
     take 2 (filter (\<lambda>ws. \<not> (ws = [] \<or> blank_words ws))
       (map drawn_words (slice (tokens r) (prefix_token line + 1) (token_end line))))"

definition declared_by_line :: "logical_record_ir \<Rightarrow> display_line_ir \<Rightarrow> u32 option" where
  "declared_by_line r line =
     (let drawn = drawn_of_line r line in
      if length drawn \<noteq> 2 \<or> \<not> opcode_is_crevdesc (drawn ! 0) then None
      else let operand = drawn ! 1 in
           if length operand \<noteq> 1 \<or> hd operand \<le> 0x20 \<or> hd operand = unmapped_word then None
           else Some (ucast (hd operand)))"

definition declared_by_record :: "logical_record_ir \<Rightarrow> u32 list" where
  "declared_by_record r =
     (if \<not> display_lines_parse r then [] else List.map_filter (declared_by_line r) (display_lines r))"

text \<open>\<open>std::sort\<close>, \<open>std::unique\<close> and \<open>erase\<close>.\<close>

definition sort_unique :: "u32 list \<Rightarrow> u32 list" where
  "sort_unique xs = remdups_adj (sort xs)"

definition read_declared_revision_characters :: "logical_record_ir list \<Rightarrow> u32 list" where
  "read_declared_revision_characters header_records =
     sort_unique (concat (map declared_by_record header_records))"

definition read_book_header_revision_characters ::
  "bytes \<Rightarrow> boo_directory \<Rightarrow> (nat \<times> nat) list \<Rightarrow> u32 \<Rightarrow> u32 list result" where
  "read_book_header_revision_characters bs dir ranges first_topic_record =
     (let e = min (unat first_topic_record) (length ranges + 1) in
      if e > 1
      then and_then (decode_experimental_dictionary bs dir) (\<lambda>ts.
        let good = takeWhile (\<lambda>i. \<not> (fst (ranges ! (i - 1)) > snd (ranges ! (i - 1)) \<or>
                                      snd (ranges ! (i - 1)) > length bs)) [1..<e]
        in Inr (read_declared_revision_characters
             (map (\<lambda>i. decode_record_payload_ir bs dir ts (fst (ranges ! (i - 1))) (snd (ranges ! (i - 1))) i)
               good)))
      else Inr (read_declared_revision_characters []))"

subsection \<open>The declared characters are a set in order\<close>

lemma remdups_adj_strict: "sorted xs \<Longrightarrow> sorted_wrt (<) (remdups_adj (xs :: 'a::linorder list))"
proof (induction xs rule: remdups_adj.induct)
  case (3 x y xs)
  show ?case
  proof (cases "x = y")
    case True
    then show ?thesis using 3 by simp
  next
    case False
    then have "x < y" using "3.prems" by auto
    moreover have "\<forall>z \<in> set (y # xs). y \<le> z" using "3.prems" by auto
    ultimately have "\<forall>z \<in> set (remdups_adj (y # xs)). x < z" by fastforce
    then show ?thesis using 3 False by simp
  qed
qed simp_all

text \<open>The declared revision characters are in strictly ascending order and are exactly the operands
  that some \<open>crevdesc\<close> line of a framed header record declares; none of them is a blank, a control or the
  word of an unmapped byte.\<close>

lemma declared_characters_exact:
  "sorted_wrt (<) (read_declared_revision_characters records) \<and>
   set (read_declared_revision_characters records) =
     {c. \<exists>r line. r \<in> set records \<and> display_lines_parse r \<and> line \<in> set (display_lines r) \<and>
        declared_by_line r line = Some c} \<and>
   set (read_declared_revision_characters records) \<subseteq> {0x21..0xFFFE}"
proof (intro conjI)
  show "sorted_wrt (<) (read_declared_revision_characters records)"
    by (simp add: read_declared_revision_characters_def sort_unique_def remdups_adj_strict)
  show set_eq: "set (read_declared_revision_characters records) =
      {c. \<exists>r line. r \<in> set records \<and> display_lines_parse r \<and> line \<in> set (display_lines r) \<and>
         declared_by_line r line = Some c}"
    by (auto simp: read_declared_revision_characters_def sort_unique_def declared_by_record_def
        List.map_filter_def split: if_splits) force+
  have range: "(ucast w :: u32) \<in> {0x21..0xFFFE}" if "\<not> w \<le> 0x20" "w \<noteq> 0xFFFF" for w :: u16
  proof -
    have "unat w \<noteq> unat (0xFFFF :: u16)" using that(2) word_unat_eq_iff by blast
    moreover have "unat w > 0x20" using that(1) by (simp add: word_le_nat_alt)
    ultimately have "0x21 \<le> unat w" "unat w \<le> 0xFFFE" using unat_u16_le [of w] by simp_all
    then show ?thesis by (simp add: word_le_nat_alt unsigned_ucast_eq take_bit_nat_eq_self)
  qed
  show "set (read_declared_revision_characters records) \<subseteq> {0x21..0xFFFE}"
    unfolding set_eq
  proof safe
    fix c r line assume "declared_by_line r line = Some c"
    then have "c = ucast (hd (drawn_of_line r line ! 1))" "\<not> hd (drawn_of_line r line ! 1) \<le> 0x20"
      "hd (drawn_of_line r line ! 1) \<noteq> 0xFFFF"
      by (simp_all add: declared_by_line_def unmapped_word_def Let_def split: if_splits)
    then show "c \<in> {0x21..0xFFFE}" using range by blast
  qed
qed

end
