(* ===== verification/Mmr_Codes.thy ===== *)
theory Mmr_Codes
  imports Strings "HOL-Library.Sublist"
begin

section \<open>The run-length codes (\<open>src/img/mmr_tables.cpp\<close>)\<close>

text \<open>
  The code tables of the MMR decoder and the two searches over them. A code is the string of \<open>0\<close> and
  \<open>1\<close> characters the source has. A trie that refuses a code which meets another one proves the tables
  prefix-free without comparing the codes pairwise.
\<close>

record mmr_code =
  code_bits :: string
  code_run :: nat
  terminating :: bool

abbreviation code :: "string \<Rightarrow> nat \<Rightarrow> bool \<Rightarrow> mmr_code" where
  "code b r t \<equiv> \<lparr> code_bits = b, code_run = r, terminating = t \<rparr>"

definition white_codes :: "mmr_code list" where
  "white_codes =
     [code ''00110101'' 0 True, code ''000111'' 1 True,
      code ''0111'' 2 True, code ''1000'' 3 True,
      code ''1011'' 4 True, code ''1100'' 5 True,
      code ''1110'' 6 True, code ''1111'' 7 True,
      code ''10011'' 8 True, code ''10100'' 9 True,
      code ''00111'' 10 True, code ''01000'' 11 True,
      code ''001000'' 12 True, code ''000011'' 13 True,
      code ''110100'' 14 True, code ''110101'' 15 True,
      code ''101010'' 16 True, code ''101011'' 17 True,
      code ''0100111'' 18 True, code ''0001100'' 19 True,
      code ''0001000'' 20 True, code ''0010111'' 21 True,
      code ''0000011'' 22 True, code ''0000100'' 23 True,
      code ''0101000'' 24 True, code ''0101011'' 25 True,
      code ''0010011'' 26 True, code ''0100100'' 27 True,
      code ''0011000'' 28 True, code ''00000010'' 29 True,
      code ''00000011'' 30 True, code ''00011010'' 31 True,
      code ''00011011'' 32 True, code ''00010010'' 33 True,
      code ''00010011'' 34 True, code ''00010100'' 35 True,
      code ''00010101'' 36 True, code ''00010110'' 37 True,
      code ''00010111'' 38 True, code ''00101000'' 39 True,
      code ''00101001'' 40 True, code ''00101010'' 41 True,
      code ''00101011'' 42 True, code ''00101100'' 43 True,
      code ''00101101'' 44 True, code ''00000100'' 45 True,
      code ''00000101'' 46 True, code ''00001010'' 47 True,
      code ''00001011'' 48 True, code ''01010010'' 49 True,
      code ''01010011'' 50 True, code ''01010100'' 51 True,
      code ''01010101'' 52 True, code ''00100100'' 53 True,
      code ''00100101'' 54 True, code ''01011000'' 55 True,
      code ''01011001'' 56 True, code ''01011010'' 57 True,
      code ''01011011'' 58 True, code ''01001010'' 59 True,
      code ''01001011'' 60 True, code ''00110010'' 61 True,
      code ''00110011'' 62 True, code ''00110100'' 63 True,
      code ''11011'' 64 False, code ''10010'' 128 False,
      code ''010111'' 192 False, code ''0110111'' 256 False,
      code ''00110110'' 320 False, code ''00110111'' 384 False,
      code ''01100100'' 448 False, code ''01100101'' 512 False,
      code ''01101000'' 576 False, code ''01100111'' 640 False,
      code ''011001100'' 704 False, code ''011001101'' 768 False,
      code ''011010010'' 832 False, code ''011010011'' 896 False,
      code ''011010100'' 960 False, code ''011010101'' 1024 False,
      code ''011010110'' 1088 False, code ''011010111'' 1152 False,
      code ''011011000'' 1216 False, code ''011011001'' 1280 False,
      code ''011011010'' 1344 False, code ''011011011'' 1408 False,
      code ''010011000'' 1472 False, code ''010011001'' 1536 False,
      code ''010011010'' 1600 False, code ''011000'' 1664 False,
      code ''010011011'' 1728 False]"

definition black_codes :: "mmr_code list" where
  "black_codes =
     [code ''0000110111'' 0 True, code ''010'' 1 True,
      code ''11'' 2 True, code ''10'' 3 True,
      code ''011'' 4 True, code ''0011'' 5 True,
      code ''0010'' 6 True, code ''00011'' 7 True,
      code ''000101'' 8 True, code ''000100'' 9 True,
      code ''0000100'' 10 True, code ''0000101'' 11 True,
      code ''0000111'' 12 True, code ''00000100'' 13 True,
      code ''00000111'' 14 True, code ''000011000'' 15 True,
      code ''0000010111'' 16 True, code ''0000011000'' 17 True,
      code ''0000001000'' 18 True, code ''00001100111'' 19 True,
      code ''00001101000'' 20 True, code ''00001101100'' 21 True,
      code ''00000110111'' 22 True, code ''00000101000'' 23 True,
      code ''00000010111'' 24 True, code ''00000011000'' 25 True,
      code ''000011001010'' 26 True, code ''000011001011'' 27 True,
      code ''000011001100'' 28 True, code ''000011001101'' 29 True,
      code ''000001101000'' 30 True, code ''000001101001'' 31 True,
      code ''000001101010'' 32 True, code ''000001101011'' 33 True,
      code ''000011010010'' 34 True, code ''000011010011'' 35 True,
      code ''000011010100'' 36 True, code ''000011010101'' 37 True,
      code ''000011010110'' 38 True, code ''000011010111'' 39 True,
      code ''000001101100'' 40 True, code ''000001101101'' 41 True,
      code ''000011011010'' 42 True, code ''000011011011'' 43 True,
      code ''000001010100'' 44 True, code ''000001010101'' 45 True,
      code ''000001010110'' 46 True, code ''000001010111'' 47 True,
      code ''000001100100'' 48 True, code ''000001100101'' 49 True,
      code ''000001010010'' 50 True, code ''000001010011'' 51 True,
      code ''000000100100'' 52 True, code ''000000110111'' 53 True,
      code ''000000111000'' 54 True, code ''000000100111'' 55 True,
      code ''000000101000'' 56 True, code ''000001011000'' 57 True,
      code ''000001011001'' 58 True, code ''000000101011'' 59 True,
      code ''000000101100'' 60 True, code ''000001011010'' 61 True,
      code ''000001100110'' 62 True, code ''000001100111'' 63 True,
      code ''0000001111'' 64 False, code ''000011001000'' 128 False,
      code ''000011001001'' 192 False, code ''000001011011'' 256 False,
      code ''000000110011'' 320 False, code ''000000110100'' 384 False,
      code ''000000110101'' 448 False, code ''0000001101100'' 512 False,
      code ''0000001101101'' 576 False, code ''0000001001010'' 640 False,
      code ''0000001001011'' 704 False, code ''0000001001100'' 768 False,
      code ''0000001001101'' 832 False, code ''0000001110010'' 896 False,
      code ''0000001110011'' 960 False, code ''0000001110100'' 1024 False,
      code ''0000001110101'' 1088 False, code ''0000001110110'' 1152 False,
      code ''0000001110111'' 1216 False, code ''0000001010010'' 1280 False,
      code ''0000001010011'' 1344 False, code ''0000001010100'' 1408 False,
      code ''0000001010101'' 1472 False, code ''0000001011010'' 1536 False,
      code ''0000001011011'' 1600 False, code ''0000001100100'' 1664 False,
      code ''0000001100101'' 1728 False]"

definition long_makeup_codes :: "mmr_code list" where
  "long_makeup_codes =
     [code ''00000001000'' 1792 False, code ''00000001100'' 1856 False,
      code ''00000001101'' 1920 False, code ''000000010010'' 1984 False,
      code ''000000010011'' 2048 False, code ''000000010100'' 2112 False,
      code ''000000010101'' 2176 False, code ''000000010110'' 2240 False,
      code ''000000010111'' 2304 False, code ''000000011100'' 2368 False,
      code ''000000011101'' 2432 False, code ''000000011110'' 2496 False,
      code ''000000011111'' 2560 False]"

definition matches_prefix :: "string \<Rightarrow> string \<Rightarrow> bool" where
  "matches_prefix c pre \<longleftrightarrow> length pre \<le> length c \<and> take (length pre) c = pre"

definition find_exact_code :: "mmr_code list \<Rightarrow> string \<Rightarrow> mmr_code option" where
  "find_exact_code codes bits = find (\<lambda>c. bits = code_bits c) codes"

definition has_prefix_match :: "mmr_code list \<Rightarrow> string \<Rightarrow> bool" where
  "has_prefix_match codes bits \<longleftrightarrow> list_ex (\<lambda>c. matches_prefix (code_bits c) bits) codes"

definition run_codes :: "bool \<Rightarrow> mmr_code list" where
  "run_codes black = (if black then black_codes else white_codes)"

subsection \<open>Prefix-free tables\<close>

datatype trie = Free | Word | Fork trie trie

fun children :: "trie \<Rightarrow> (trie \<times> trie) option" where
  "children Free = Some (Free, Free)"
| "children Word = None"
| "children (Fork l r) = Some (l, r)"

fun claim :: "string \<Rightarrow> trie \<Rightarrow> trie option" where
  "claim [] t = (case t of Free \<Rightarrow> Some Word | _ \<Rightarrow> None)"
| "claim (c # cs) t =
     (case children t of
        None \<Rightarrow> None
      | Some (l, r) \<Rightarrow>
          if c = CHR ''1'' then map_option (\<lambda>r'. Fork l r') (claim cs r)
          else if c = CHR ''0'' then map_option (\<lambda>l'. Fork l' r) (claim cs l)
          else None)"

fun claim_all :: "string list \<Rightarrow> trie \<Rightarrow> trie option" where
  "claim_all [] t = Some t"
| "claim_all (s # ss) t = (case claim s t of None \<Rightarrow> None | Some t' \<Rightarrow> claim_all ss t')"

fun accepts :: "trie \<Rightarrow> string \<Rightarrow> bool" where
  "accepts Free w = False"
| "accepts Word w = (w = [])"
| "accepts (Fork l r) [] = False"
| "accepts (Fork l r) (c # cs) =
     (if c = CHR ''1'' then accepts r cs else if c = CHR ''0'' then accepts l cs else False)"

lemma claim_free: "claim s t = Some t' \<Longrightarrow> accepts t w \<Longrightarrow> \<not> prefix s w \<and> \<not> prefix w s"
proof (induction s t arbitrary: t' w rule: claim.induct)
  case (1 t)
  then show ?case by (auto split: trie.splits)
next
  case (2 c cs t)
  show ?case
  proof (cases t)
    case (Fork l r)
    with "2.prems"(2) obtain d ds where w: "w = d # ds" by (cases w) auto
    show ?thesis
    proof (cases "c = d")
      case False
      then show ?thesis by (simp add: w)
    next
      case True
      then show ?thesis using 2 Fork by (auto simp: w split: if_splits)
    qed
  qed (use 2 in auto)
qed

lemma claim_holds: "claim s t = Some t' \<Longrightarrow> accepts t' w \<longleftrightarrow> w = s \<or> accepts t w"
proof (induction s t arbitrary: t' w rule: claim.induct)
  case (1 t)
  then show ?case by (auto split: trie.splits)
next
  case (2 c cs t)
  then show ?case
    by (cases t; cases w) (auto split: if_splits)
qed

definition prefix_free :: "string list \<Rightarrow> bool" where
  "prefix_free ss \<longleftrightarrow> sorted_wrt (\<lambda>s t. \<not> prefix s t \<and> \<not> prefix t s) ss"

lemma claim_all_free:
  "claim_all ss t = Some t' \<Longrightarrow>
   prefix_free ss \<and> (\<forall>s \<in> set ss. \<forall>w. accepts t w \<longrightarrow> \<not> prefix s w \<and> \<not> prefix w s)"
proof (induction ss arbitrary: t)
  case Nil
  then show ?case by (simp add: prefix_free_def)
next
  case (Cons s ss)
  then obtain u where u: "claim s t = Some u" "claim_all ss u = Some t'"
    by (auto split: option.splits)
  have "prefix_free ss"
    and ih: "\<forall>x \<in> set ss. \<forall>w. accepts u w \<longrightarrow> \<not> prefix x w \<and> \<not> prefix w x"
    using Cons.IH [OF u(2)] by auto
  then show ?case
    using claim_free [OF u(1)] claim_holds [OF u(1)] by (auto simp: prefix_free_def)
qed

lemma run_codes_claimed:
  "claim_all (map code_bits (white_codes @ long_makeup_codes)) Free \<noteq> None"
  "claim_all (map code_bits (black_codes @ long_makeup_codes)) Free \<noteq> None"
  by code_simp+

lemma run_codes_prefix_free: "prefix_free (map code_bits (run_codes black @ long_makeup_codes))"
  using run_codes_claimed claim_all_free by (cases black) (auto simp: run_codes_def)

end
