(* ===== verification/Mmr.thy ===== *)
theory Mmr
  imports Mmr_Codes Bytes
begin

section \<open>The MMR image decoder (\<open>src/img/mmr.cpp\<close>)\<close>

text \<open>
  The bit reader, the run-length and mode codes, the one-dimensional lines, the two-dimensional (T.6)
  lines and the image they fill. A step of a two-dimensional line is an optional result: \<open>None\<close> stands
  for a step the code must never take, an unsigned subtraction that wraps around or a reference search
  that does not end. A run is a C++ \<open>int\<close>; it is \<open>nat\<close> here, since only a sequence of more than 800,000
  make-up codes can leave the range of \<open>int\<close>.
\<close>

subsection \<open>The bit reader\<close>

record bit_reader =
  rd_bytes :: bytes
  bit_offset :: nat
  end_bit :: nat

definition new_reader :: "bytes \<Rightarrow> nat \<Rightarrow> nat \<Rightarrow> bit_reader" where
  "new_reader bs off sz = \<lparr> rd_bytes = bs, bit_offset = off * 8, end_bit = (off + sz) * 8 \<rparr>"

definition bit_at :: "bit_reader \<Rightarrow> nat \<Rightarrow> bool" where
  "bit_at r off = bit (byte_at (rd_bytes r) (off div 8)) (7 - off mod 8)"

definition bit_char :: "bool \<Rightarrow> char" where
  "bit_char b = (if b then CHR ''1'' else CHR ''0'')"

definition reader_empty :: "bit_reader \<Rightarrow> bool" where
  "reader_empty r \<longleftrightarrow> bit_offset r \<ge> end_bit r"

definition peek_bits :: "bit_reader \<Rightarrow> nat \<Rightarrow> string" where
  "peek_bits r count = map (\<lambda>i. bit_char (bit_at r i))
     [bit_offset r..<min (bit_offset r + count) (end_bit r)]"

definition try_read_bit :: "bit_reader \<Rightarrow> (bool \<times> bit_reader) option" where
  "try_read_bit r =
     (if bit_offset r \<ge> end_bit r then None
      else Some (bit_at r (bit_offset r), r\<lparr>bit_offset := bit_offset r + 1\<rparr>))"

fun starts_with_at :: "bit_reader \<Rightarrow> nat \<Rightarrow> string \<Rightarrow> bool" where
  "starts_with_at r off [] = True"
| "starts_with_at r off (c # cs) =
     (if off \<ge> end_bit r then False
      else if bit_at r off \<noteq> (c = CHR ''1'') then False
      else starts_with_at r (off + 1) cs)"

definition reader_starts_with :: "bit_reader \<Rightarrow> string \<Rightarrow> bool" where
  "reader_starts_with r bits = starts_with_at r (bit_offset r) bits"

definition skip_bits :: "bit_reader \<Rightarrow> nat \<Rightarrow> bit_reader" where
  "skip_bits r count = r\<lparr>bit_offset := min (bit_offset r + count) (end_bit r)\<rparr>"

function find_and_skip :: "bit_reader \<Rightarrow> string \<Rightarrow> bit_reader option" where
  "find_and_skip r bits =
     (if reader_empty r then None
      else if reader_starts_with r bits then Some (skip_bits r (length bits))
      else find_and_skip (skip_bits r 1) bits)"
  by pat_completeness auto
termination
  by (relation "measure (\<lambda>(r, _). end_bit r - bit_offset r)")
    (auto simp: reader_empty_def skip_bits_def)

declare find_and_skip.simps [simp del]

definition bits_left :: "bit_reader \<Rightarrow> nat" where
  "bits_left r = end_bit r - bit_offset r"

lemma try_read_bit_left: "try_read_bit r = Some (b, r') \<Longrightarrow> bits_left r' < bits_left r"
  by (auto simp: try_read_bit_def bits_left_def split: if_splits)

subsection \<open>Run codes\<close>

text \<open>The bits of one code: its run length and whether it ends the run.\<close>

function read_code ::
  "mmr_code list \<Rightarrow> string \<Rightarrow> bit_reader \<Rightarrow> ((nat \<times> bool) \<times> bit_reader) result" where
  "read_code codes bits r =
     (case try_read_bit r of
        None \<Rightarrow> Inl (RuntimeError ''MMR bitstream ended inside a run code'')
      | Some (b, r') \<Rightarrow>
          let bits' = bits @ [bit_char b] in
          (case find_exact_code codes bits' of
             Some c \<Rightarrow> Inr ((code_run c, terminating c), r')
           | None \<Rightarrow>
               (case find_exact_code long_makeup_codes bits' of
                  Some c \<Rightarrow> Inr ((code_run c, False), r')
                | None \<Rightarrow>
                    if length bits' > 13 \<or>
                       \<not> has_prefix_match codes bits' \<and> \<not> has_prefix_match long_makeup_codes bits'
                    then Inl (RuntimeError ''MMR bitstream contains an invalid run code'')
                    else read_code codes bits' r')))"
  by pat_completeness auto
termination
  by (relation "measure (\<lambda>(_, _, r). bits_left r)") (auto dest: try_read_bit_left)

declare read_code.simps [simp del]

lemma read_code_left: "read_code codes bits r = Inr (x, r') \<Longrightarrow> bits_left r' < bits_left r"
proof (induction codes bits r rule: read_code.induct)
  case (1 codes bits r)
  show ?case
  proof (cases "try_read_bit r")
    case None
    then show ?thesis using "1.prems" by (simp add: read_code.simps)
  next
    case (Some p)
    obtain b r1 where p: "p = (b, r1)" by fastforce
    note left = try_read_bit_left [OF Some [unfolded p]]
    let ?bits = "bits @ [bit_char b]"
    consider (exact) c where "find_exact_code codes ?bits = Some c"
      | (long) c where "find_exact_code codes ?bits = None"
          "find_exact_code long_makeup_codes ?bits = Some c"
      | (none) "find_exact_code codes ?bits = None" "find_exact_code long_makeup_codes ?bits = None"
      by fastforce
    then show ?thesis
    proof cases
      case none
      then have go: "\<not> (length ?bits > 13 \<or>
          \<not> has_prefix_match codes ?bits \<and> \<not> has_prefix_match long_makeup_codes ?bits)"
        using "1.prems" Some p
        by (subst (asm) read_code.simps) (auto simp: Let_def split: if_splits)
      then have "read_code codes ?bits r1 = Inr (x, r')"
        using "1.prems" Some p none by (subst (asm) read_code.simps) (auto simp: Let_def)
      then show ?thesis using "1.IH" [OF Some p [symmetric] refl none go] left by simp
    qed (use "1.prems" Some p left in \<open>auto simp: read_code.simps Let_def\<close>)
  qed
qed

function decode_run_from :: "nat \<Rightarrow> bit_reader \<Rightarrow> bool \<Rightarrow> (nat \<times> bit_reader) result" where
  "decode_run_from run r black =
     and_then (read_code (run_codes black) [] r) (\<lambda>p.
     if snd (fst p) then Inr (run + fst (fst p), snd p)
     else decode_run_from (run + fst (fst p)) (snd p) black)"
  by pat_completeness auto
termination
  by (relation "measure (\<lambda>(_, r, _). bits_left r)") (auto dest: read_code_left)

declare decode_run_from.simps [simp del]

definition decode_run_code :: "bit_reader \<Rightarrow> bool \<Rightarrow> (nat \<times> bit_reader) result" where
  "decode_run_code r black = decode_run_from 0 r black"

lemma decode_run_from_left:
  "decode_run_from run r black = Inr (n, r') \<Longrightarrow> bits_left r' < bits_left r"
proof (induction run r black arbitrary: n r' rule: decode_run_from.induct)
  case (1 run r black)
  then obtain p where c: "read_code (run_codes black) [] r = Inr p"
    by (subst (asm) decode_run_from.simps) (auto simp: and_then_eq_Inr)
  then have left: "bits_left (snd p) < bits_left r" by (cases p) (auto dest: read_code_left)
  show ?case
  proof (cases "snd (fst p)")
    case True
    then show ?thesis using "1.prems" c left by (subst (asm) decode_run_from.simps) auto
  next
    case False
    then have "decode_run_from (run + fst (fst p)) (snd p) black = Inr (n, r')"
      using "1.prems" c by (subst (asm) decode_run_from.simps) simp
    then show ?thesis using "1.IH" [OF c False] left by fastforce
  qed
qed

lemma decode_run_code_left: "decode_run_code r black = Inr (n, r') \<Longrightarrow> bits_left r' < bits_left r"
  unfolding decode_run_code_def by (rule decode_run_from_left)

subsection \<open>Mode codes and line tags\<close>

datatype mode = Pass | Horizontal | Vertical int

text \<open>The chain of comparisons of \<open>decode_mode\<close>, as a list of codes in the order they are compared.\<close>

definition mode_codes :: "(string \<times> mode) list" where
  "mode_codes =
     [(''1'', Vertical 0), (''011'', Vertical 1), (''010'', Vertical (- 1)),
      (''000011'', Vertical 2), (''000010'', Vertical (- 2)),
      (''0000011'', Vertical 3), (''0000010'', Vertical (- 3)),
      (''001'', Horizontal), (''0001'', Pass)]"

definition invalid_mode :: "bit_reader \<Rightarrow> string \<Rightarrow> exn" where
  "invalid_mode r bits =
     RuntimeError (''MMR bitstream contains an invalid 2D mode at bit '' @
       decimal (bit_offset r - length bits) @ '' near '' @ peek_bits r 24)"

function read_mode :: "string \<Rightarrow> bit_reader \<Rightarrow> (mode \<times> bit_reader) result" where
  "read_mode bits r =
     (case try_read_bit r of
        None \<Rightarrow> Inl (RuntimeError ''MMR bitstream ended inside a 2D mode code'')
      | Some (b, r') \<Rightarrow>
          let bits' = bits @ [bit_char b] in
          (case map_of mode_codes bits' of
             Some m \<Rightarrow> Inr (m, r')
           | None \<Rightarrow> if length bits' > 7 then Inl (invalid_mode r' bits') else read_mode bits' r'))"
  by pat_completeness auto
termination
  by (relation "measure (\<lambda>(_, r). bits_left r)") (auto dest: try_read_bit_left)

declare read_mode.simps [simp del]

definition decode_mode :: "bit_reader \<Rightarrow> (mode \<times> bit_reader) result" where
  "decode_mode r = read_mode [] r"

datatype line_kind = Two_dimensional | One_dimensional

definition eol_bits :: string where
  "eol_bits = ''000000000001''"

definition read_line_kind :: "bit_reader \<Rightarrow> (line_kind \<times> bit_reader) result" where
  "read_line_kind r =
     (if \<not> reader_starts_with r eol_bits then Inr (Two_dimensional, r)
      else case try_read_bit (skip_bits r 12) of
             None \<Rightarrow> Inl (RuntimeError ''MMR bitstream ended inside a line tag'')
           | Some (tag, r') \<Rightarrow> Inr (if \<not> tag then Two_dimensional else One_dimensional, r'))"

lemma read_mode_left: "read_mode bits r = Inr (m, r') \<Longrightarrow> bits_left r' < bits_left r"
proof (induction bits r rule: read_mode.induct)
  case (1 bits r)
  show ?case
  proof (cases "try_read_bit r")
    case None
    then show ?thesis using "1.prems" by (simp add: read_mode.simps)
  next
    case (Some p)
    obtain b r1 where p: "p = (b, r1)" by fastforce
    note left = try_read_bit_left [OF Some [unfolded p]]
    let ?bits = "bits @ [bit_char b]"
    show ?thesis
    proof (cases "map_of mode_codes ?bits")
      case (Some m')
      then show ?thesis
        using "1.prems" \<open>try_read_bit r = Some p\<close> p left
        by (subst (asm) read_mode.simps) (simp add: Let_def)
    next
      case None
      then have "\<not> length ?bits > 7" and "read_mode ?bits r1 = Inr (m, r')"
        using "1.prems" Some p
        by (subst (asm) read_mode.simps, simp add: Let_def split: if_splits)+
      then show ?thesis using "1.IH" [OF Some p [symmetric] refl None] left by simp
    qed
  qed
qed

lemma decode_mode_left: "decode_mode r = Inr (m, r') \<Longrightarrow> bits_left r' < bits_left r"
  unfolding decode_mode_def by (rule read_mode_left)

lemma read_line_kind_left: "read_line_kind r = Inr (k, r') \<Longrightarrow> bits_left r' \<le> bits_left r"
  by (auto simp: read_line_kind_def try_read_bit_def skip_bits_def bits_left_def
      split: if_splits option.splits)

subsection \<open>Segments\<close>

definition read_be16_unchecked :: "bytes \<Rightarrow> nat \<Rightarrow> u16" where
  "read_be16_unchecked bs off = push_bit 8 (ucast (byte_at bs off)) OR ucast (byte_at bs (off + 1))"

function segment_data :: "bytes \<Rightarrow> nat \<Rightarrow> bytes" where
  "segment_data bs off =
     (if off + 8 \<le> length bs then
        let segment_size = unat (read_be16_unchecked bs off) in
        if segment_size < 8 \<or> off + segment_size > length bs then []
        else slice bs (off + 8) (off + segment_size) @ segment_data bs (off + segment_size)
      else [])"
  by pat_completeness auto
termination
  by (relation "measure (\<lambda>(bs, off). length bs - off)") auto

declare segment_data.simps [simp del]

definition read_segments :: "bytes \<Rightarrow> bytes result" where
  "read_segments bs =
     (if length bs < 0x50
      then Inl (RuntimeError ''MMR asset is too small for the observed header'')
      else let compressed = segment_data bs 0x48
           in Inr (if compressed = [] then drop 0x50 bs else compressed))"

subsection \<open>Writing runs into the image\<close>

record rgba_image =
  img_width :: nat
  img_height :: nat
  rgba :: bytes

definition write_run :: "rgba_image \<Rightarrow> nat \<Rightarrow> nat \<Rightarrow> nat \<Rightarrow> bool \<Rightarrow> rgba_image" where
  "write_run img y b e black =
     (if \<not> black then img
      else
        let b = min b (img_width img); e = min e (img_width img)
        in fold (\<lambda>x im.
             let off = (y * img_width im + x) * 4
             in im\<lparr>rgba := (rgba im)[off := 0, off + 1 := 0, off + 2 := 0, off + 3 := 255]\<rparr>)
           [b..<e] img)"

fun write_runs_from :: "rgba_image \<Rightarrow> nat \<Rightarrow> nat \<Rightarrow> bool \<Rightarrow> nat list \<Rightarrow> rgba_image" where
  "write_runs_from img y a0 black [] = img"
| "write_runs_from img y a0 black (run # runs) =
     (let a1 = min (a0 + run) (img_width img);
          img' = write_run img y a0 a1 black
      in if a1 \<ge> img_width img' then img' else write_runs_from img' y a1 (\<not> black) runs)"

definition write_runs :: "rgba_image \<Rightarrow> nat \<Rightarrow> nat list \<Rightarrow> rgba_image" where
  "write_runs img y runs = write_runs_from img y 0 False runs"

definition blank_image :: "nat \<Rightarrow> nat \<Rightarrow> rgba_image" where
  "blank_image width height =
     \<lparr> img_width = width, img_height = height, rgba = replicate (width * height * 4) 255 \<rparr>"

subsection \<open>One-dimensional lines\<close>

function line_runs ::
  "nat \<Rightarrow> nat list \<Rightarrow> nat \<Rightarrow> bool \<Rightarrow> bit_reader \<Rightarrow> (nat list \<times> bit_reader) result" where
  "line_runs width current a0 black r =
     (if a0 < width then
        and_then (decode_run_code r black) (\<lambda>p.
        let clamped_run = min (fst p) (width - a0)
        in line_runs width (current @ [clamped_run]) (a0 + clamped_run) (\<not> black) (snd p))
      else Inr (current, r))"
  by pat_completeness auto
termination
  by (relation "measure (\<lambda>(_, _, _, _, r). bits_left r)") (auto dest: decode_run_code_left)

declare line_runs.simps [simp del]

definition append_reference_tail :: "nat list \<Rightarrow> nat list" where
  "append_reference_tail runs = runs @ [0]"

definition decode_1d_line :: "bit_reader \<Rightarrow> nat \<Rightarrow> (nat list \<times> bit_reader) result" where
  "decode_1d_line r width =
     and_then (line_runs width [] 0 False r) (\<lambda>(current, r').
     Inr (append_reference_tail current, r'))"

definition on_line :: "nat \<Rightarrow> 'a result \<Rightarrow> 'a result" where
  "on_line y m =
     (case m of
        Inl (RuntimeError message) \<Rightarrow>
          Inl (RuntimeError (''MMR line '' @ decimal y @ '': '' @ message))
      | _ \<Rightarrow> m)"

definition sync_mh_eol :: "bit_reader \<Rightarrow> nat \<Rightarrow> bit_reader result" where
  "sync_mh_eol r y =
     (if reader_starts_with r eol_bits then Inr (skip_bits r 12)
      else case find_and_skip r eol_bits of
             Some r' \<Rightarrow> Inr r'
           | None \<Rightarrow> Inl (RuntimeError
               (''MMR line '' @ decimal y @ '': MH bitstream ended before EOL'')))"

fun mh_lines :: "nat \<Rightarrow> nat list \<Rightarrow> rgba_image \<Rightarrow> bit_reader \<Rightarrow> rgba_image result" where
  "mh_lines width [] img r = Inr img"
| "mh_lines width (y # ys) img r =
     and_then (sync_mh_eol r y) (\<lambda>r1.
     and_then (on_line y (decode_1d_line r1 width)) (\<lambda>(runs, r2).
     mh_lines width ys (write_runs img y runs) r2))"

definition decode_mh_image :: "bytes \<Rightarrow> nat \<Rightarrow> nat \<Rightarrow> rgba_image result" where
  "decode_mh_image compressed width height =
     mh_lines width [0..<height] (blank_image width height)
       (new_reader compressed 0 (length compressed))"

end
