(* ===== verification/Mmr_T6.thy ===== *)
theory Mmr_T6
  imports Mmr
begin

section \<open>Two-dimensional lines and the whole image (\<open>src/img/mmr.cpp\<close>)\<close>

text \<open>
  The T.6 line decoder with its reference line. Its steps return \<open>None\<close> where the code would subtract
  past zero, index past the reference or search it without end; \<open>mmr_total\<close> shows that no input leads
  there.
\<close>

definition exactly :: "'a option \<Rightarrow> ('a \<Rightarrow> 'b result option) \<Rightarrow> 'b result option" where
  "exactly m f = (case m of None \<Rightarrow> None | Some x \<Rightarrow> f x)"

definition attempt :: "'a result \<Rightarrow> ('a \<Rightarrow> 'b result option) \<Rightarrow> 'b result option" where
  "attempt m f = (case m of Inl e \<Rightarrow> Some (Inl e) | Inr x \<Rightarrow> f x)"

definition step_then :: "'a result option \<Rightarrow> ('a \<Rightarrow> 'b result option) \<Rightarrow> 'b result option" where
  "step_then m f = exactly m (\<lambda>x. attempt x f)"

lemma outcome_simps [simp]:
  "exactly None f = None" "exactly (Some x) f = f x"
  "attempt (Inl e) g = Some (Inl e)" "attempt (Inr y) g = g y"
  "step_then None g = None" "step_then (Some (Inl e)) g = Some (Inl e)"
  "step_then (Some (Inr y)) g = g y"
  by (simp_all add: exactly_def attempt_def step_then_def)

lemma step_then_cong [fundef_cong]:
  assumes "m = m'" and "\<And>x. m' = Some (Inr x) \<Longrightarrow> f x = f' x"
  shows "step_then m f = step_then m' f'"
  using assms by (auto simp: step_then_def exactly_def attempt_def split: option.splits sum.splits)

lemma attempt_eq_Some:
  "attempt m f = Some (Inr y) \<longleftrightarrow> (\<exists>x. m = Inr x \<and> f x = Some (Inr y))"
  by (cases m) auto

lemma exactly_eq_Some:
  "exactly m f = Some y \<longleftrightarrow> (\<exists>x. m = Some x \<and> f x = Some y)"
  by (cases m) auto

definition checked_sub :: "nat \<Rightarrow> nat \<Rightarrow> nat option" where
  "checked_sub a b = (if b \<le> a then Some (a - b) else None)"

record t6_line =
  current :: "nat list"
  a0 :: nat
  pending_run :: nat
  b1 :: nat
  pb :: nat
  rd :: bit_reader

definition set_run :: "t6_line \<Rightarrow> nat \<Rightarrow> nat \<Rightarrow> t6_line option" where
  "set_run l run width =
     map_option
       (\<lambda>clamped. l\<lparr> current := current l @ [pending_run l + clamped], a0 := a0 l + clamped,
                     pending_run := 0 \<rparr>)
       (if a0 l + run > width then checked_sub width (a0 l) else Some run)"

definition take_reference :: "nat list \<Rightarrow> nat \<Rightarrow> nat \<times> nat" where
  "take_reference reference p =
     (if p < length reference then (reference ! p, p + 1) else (0, p))"

partial_function (option) advance_b1 ::
  "nat list \<Rightarrow> nat \<Rightarrow> nat \<Rightarrow> nat \<Rightarrow> nat \<Rightarrow> (nat \<times> nat) option" where
  "advance_b1 reference width a b p =
     (if b \<le> a \<and> b < width then
        advance_b1 reference width a
          (b + fst (take_reference reference p) +
             fst (take_reference reference (snd (take_reference reference p))))
          (snd (take_reference reference (snd (take_reference reference p))))
      else Some (b, p))"

definition check_b1 :: "nat list \<Rightarrow> nat \<Rightarrow> t6_line \<Rightarrow> t6_line option" where
  "check_b1 reference width l =
     (if current l = [] then Some l
      else map_option (\<lambda>(b, p). l\<lparr>b1 := b, pb := p\<rparr>)
             (advance_b1 reference width (a0 l) (b1 l) (pb l)))"

definition pass_mode :: "nat list \<Rightarrow> nat \<Rightarrow> t6_line \<Rightarrow> t6_line result option" where
  "pass_mode reference width l0 =
     exactly (check_b1 reference width l0) (\<lambda>l.
     let span1 = take_reference reference (pb l);
         b = b1 l + fst span1;
         span2 = take_reference reference (snd span1)
     in exactly (checked_sub b (a0 l)) (\<lambda>d.
        Some (Inr (l\<lparr> pending_run := pending_run l + d, a0 := b, b1 := b + fst span2,
                      pb := snd span2 \<rparr>))))"

definition horizontal_mode :: "nat list \<Rightarrow> nat \<Rightarrow> t6_line \<Rightarrow> t6_line result option" where
  "horizontal_mode reference width l0 =
     (let black_first = odd (length (current l0)) in
      attempt (decode_run_code (rd l0) black_first) (\<lambda>(run1, r1).
      exactly (set_run (l0\<lparr>rd := r1\<rparr>) run1 width) (\<lambda>l1.
      attempt (decode_run_code (rd l1) (\<not> black_first)) (\<lambda>(run2, r2).
      exactly (set_run (l1\<lparr>rd := r2\<rparr>) run2 width) (\<lambda>l2.
      exactly (check_b1 reference width l2) (\<lambda>l3. Some (Inr l3)))))))"

definition vertical_left :: "nat list \<Rightarrow> nat \<Rightarrow> nat \<Rightarrow> t6_line \<Rightarrow> t6_line result option" where
  "vertical_left reference width delta l =
     (if b1 l < a0 l + delta
      then Some (Inl (RuntimeError ''MMR bitstream contains an invalid left vertical mode''))
      else exactly (set_run l (b1 l - a0 l - delta) width) (\<lambda>l1.
           if pb l1 > 0 then
             if pb l1 - 1 < length reference then
               exactly (checked_sub (b1 l1) (reference ! (pb l1 - 1))) (\<lambda>b.
               Some (Inr (l1\<lparr> pb := pb l1 - 1, b1 := b \<rparr>)))
             else None
           else Some (Inr l1)))"

definition vertical_right :: "nat list \<Rightarrow> nat \<Rightarrow> nat \<Rightarrow> t6_line \<Rightarrow> t6_line result option" where
  "vertical_right reference width delta l =
     exactly (checked_sub (b1 l) (a0 l)) (\<lambda>d.
     exactly (set_run l (d + delta) width) (\<lambda>l1.
     Some (Inr (if pb l1 < length reference
                then l1\<lparr> b1 := b1 l1 + reference ! pb l1, pb := pb l1 + 1 \<rparr> else l1))))"

definition t6_step :: "nat list \<Rightarrow> nat \<Rightarrow> t6_line \<Rightarrow> t6_line result option" where
  "t6_step reference width l0 =
     attempt (decode_mode (rd l0)) (\<lambda>(m, r).
     let l = l0\<lparr>rd := r\<rparr> in
     case m of
       Pass \<Rightarrow> pass_mode reference width l
     | Horizontal \<Rightarrow> horizontal_mode reference width l
     | Vertical delta \<Rightarrow>
         exactly (check_b1 reference width l) (\<lambda>l1.
         if delta < 0 then vertical_left reference width (nat (- delta)) l1
         else vertical_right reference width (nat delta) l1))"

lemma set_run_rd: "set_run l run width = Some l' \<Longrightarrow> rd l' = rd l"
  by (auto simp: set_run_def)

lemma check_b1_fields:
  "check_b1 reference width l = Some l' \<Longrightarrow>
   rd l' = rd l \<and> current l' = current l \<and> a0 l' = a0 l \<and> pending_run l' = pending_run l"
  by (auto simp: check_b1_def split: if_splits)

lemma t6_step_left: "t6_step reference width l = Some (Inr l') \<Longrightarrow> bits_left (rd l') < bits_left (rd l)"
proof -
  assume s: "t6_step reference width l = Some (Inr l')"
  then obtain m r where m: "decode_mode (rd l) = Inr (m, r)"
    by (auto simp: t6_step_def attempt_eq_Some)
  note left = decode_mode_left [OF m]
  have "bits_left (rd l') \<le> bits_left r"
  proof (cases m)
    case Pass
    then have "pass_mode reference width (l\<lparr>rd := r\<rparr>) = Some (Inr l')"
      using s m by (simp add: t6_step_def)
    then show ?thesis
      by (auto simp: pass_mode_def exactly_eq_Some Let_def split: prod.splits
          dest!: check_b1_fields)
  next
    case Horizontal
    then have "horizontal_mode reference width (l\<lparr>rd := r\<rparr>) = Some (Inr l')"
      using s m by (simp add: t6_step_def)
    then show ?thesis
      by (auto simp: horizontal_mode_def exactly_eq_Some attempt_eq_Some Let_def split: prod.splits
          dest!: check_b1_fields set_run_rd decode_run_code_left)
  next
    case (Vertical delta)
    then obtain l1 where "check_b1 reference width (l\<lparr>rd := r\<rparr>) = Some l1"
      and "(if delta < 0 then vertical_left reference width (nat (- delta)) l1
            else vertical_right reference width (nat delta) l1) = Some (Inr l')"
      using s m by (auto simp: t6_step_def exactly_eq_Some)
    then show ?thesis
      by (auto simp: vertical_left_def vertical_right_def exactly_eq_Some split: if_splits
          dest!: check_b1_fields set_run_rd)
  qed
  then show ?thesis using left by simp
qed

function t6_loop :: "nat list \<Rightarrow> nat \<Rightarrow> t6_line \<Rightarrow> t6_line result option" where
  "t6_loop reference width l =
     (if a0 l < width \<and> \<not> reader_empty (rd l)
      then step_then (t6_step reference width l) (\<lambda>l'. t6_loop reference width l')
      else Some (Inr l))"
  by pat_completeness auto
termination
  by (relation "measure (\<lambda>(_, _, l). bits_left (rd l))") (auto dest: t6_step_left)

declare t6_loop.simps [simp del]

text \<open>What follows the loop: the pending run is closed, and the tail is appended.\<close>

definition finish_line :: "nat \<Rightarrow> t6_line \<Rightarrow> (nat list \<times> bit_reader) result option" where
  "finish_line width l =
     (if pending_run l \<noteq> 0 then
        attempt
          (if pending_run l + a0 l < width then
             (case try_read_bit (rd l) of
                Some (True, r) \<Rightarrow> Inr r
              | _ \<Rightarrow> Inl (RuntimeError ''MMR bitstream is missing the final V0 mode''))
           else Inr (rd l)) (\<lambda>r.
        exactly (set_run l 0 width) (\<lambda>l'.
        Some (Inr (append_reference_tail (current l'), r))))
      else Some (Inr (append_reference_tail (current l), rd l)))"

definition start_line :: "nat list \<Rightarrow> nat \<Rightarrow> bit_reader \<Rightarrow> t6_line" where
  "start_line reference width r =
     \<lparr> current = [], a0 = 0, pending_run = 0,
       b1 = (if reference = [] then width else reference ! 0), pb = 1, rd = r \<rparr>"

definition t6_line_runs ::
  "nat list \<Rightarrow> nat \<Rightarrow> bit_reader \<Rightarrow> nat \<Rightarrow> (nat list \<times> bit_reader) result option" where
  "t6_line_runs reference width r y =
     attempt (on_line y (read_line_kind r)) (\<lambda>(kind, r1).
     case kind of
       One_dimensional \<Rightarrow> Some (on_line y (decode_1d_line r1 width))
     | Two_dimensional \<Rightarrow>
         step_then (map_option (on_line y) (t6_loop reference width (start_line reference width r1)))
           (finish_line width))"

fun t6_lines ::
  "nat \<Rightarrow> nat list \<Rightarrow> nat list \<Rightarrow> rgba_image \<Rightarrow> bit_reader \<Rightarrow> rgba_image result option" where
  "t6_lines width [] reference img r = Some (Inr img)"
| "t6_lines width (y # ys) reference img r =
     step_then (t6_line_runs reference width r y) (\<lambda>(runs, r').
     t6_lines width ys runs (write_runs img y runs) r')"

definition decode_t6_image :: "bytes \<Rightarrow> nat \<Rightarrow> nat \<Rightarrow> rgba_image result option" where
  "decode_t6_image compressed width height =
     t6_lines width [0..<height] [width, 0] (blank_image width height)
       (new_reader compressed 0 (length compressed))"

definition max_decoded_image_pixels :: nat where
  "max_decoded_image_pixels = 16 * 1024 * 1024"

definition decoded_image_dimensions_are_safe :: "nat \<Rightarrow> nat \<Rightarrow> bool" where
  "decoded_image_dimensions_are_safe width height \<longleftrightarrow>
     width \<noteq> 0 \<and> height \<noteq> 0 \<and> width * height \<le> max_decoded_image_pixels"

definition looks_like_mh :: "bytes \<Rightarrow> bool" where
  "looks_like_mh compressed \<longleftrightarrow>
     length compressed \<ge> 2 \<and> compressed ! 0 = 0 \<and> (compressed ! 1 AND 0xF0) = 0x10"

definition decode_mmr_to_rgba :: "bytes \<Rightarrow> rgba_image result option" where
  "decode_mmr_to_rgba bs =
     (if length bs < 0x50
      then Some (Inl (RuntimeError ''MMR asset is too small for the observed header''))
      else
        let width = unat (read_be16_unchecked bs 0x42);
            height = unat (read_be16_unchecked bs 0x44)
        in if width > 8192 \<or> height > 8192 \<or> \<not> decoded_image_dimensions_are_safe width height
           then Some (Inl (RuntimeError ''MMR asset has unsupported dimensions''))
           else attempt (read_segments bs) (\<lambda>compressed.
                case decode_t6_image compressed width height of
                  Some (Inl t6_error) \<Rightarrow>
                    if looks_like_mh compressed then
                      (case decode_mh_image compressed width height of
                         Inl _ \<Rightarrow> Some (Inl t6_error)
                       | Inr img \<Rightarrow> Some (Inr img))
                    else Some (Inl t6_error)
                | outcome \<Rightarrow> outcome))"

end
