(* ===== verification/Mmr_Facts.thy ===== *)
theory Mmr_Facts
  imports Mmr_T6
begin

section \<open>Facts about the MMR decoder\<close>

text \<open>
  The two-dimensional decoder never wraps around, never searches its reference without end and returns
  an image of the stated size; the run codes and one-dimensional lines decode what an encoder wrote.
\<close>

subsection \<open>The reference position\<close>

definition reference_sum :: "nat list \<Rightarrow> nat \<Rightarrow> nat" where
  "reference_sum reference p = sum_list (take p reference)"

lemma reference_sum_Suc:
  "p < length reference \<Longrightarrow> reference_sum reference (Suc p) = reference_sum reference p + reference ! p"
  by (simp add: reference_sum_def take_Suc_conv_app_nth)

lemma reference_sum_le: "reference_sum reference p \<le> sum_list reference"
  unfolding reference_sum_def by (metis append_take_drop_id le_add1 sum_list_append)

lemma reference_sum_end: "length reference \<le> p \<Longrightarrow> reference_sum reference p = sum_list reference"
  by (simp add: reference_sum_def)

lemma take_reference_sum:
  assumes "p \<le> length reference"
  shows "snd (take_reference reference p) \<le> length reference"
    and "reference_sum reference p + fst (take_reference reference p) =
      reference_sum reference (snd (take_reference reference p))"
    and "p \<le> snd (take_reference reference p)"
    and "p < length reference \<Longrightarrow> p < snd (take_reference reference p)"
  using assms by (auto simp: take_reference_def reference_sum_Suc)

text \<open>A line in progress: \<open>b1\<close> is the sum of the reference runs before \<open>pb\<close>, and the runs so far sum to
  \<open>a0\<close>.\<close>

definition line_ok :: "nat list \<Rightarrow> nat \<Rightarrow> t6_line \<Rightarrow> bool" where
  "line_ok reference width l \<longleftrightarrow>
     pb l \<le> length reference \<and> b1 l = reference_sum reference (pb l) \<and> a0 l \<le> width \<and>
     sum_list (current l) + pending_run l = a0 l \<and> (current l = [] \<longrightarrow> a0 l \<le> b1 l)"

lemma advance_b1_Some:
  assumes "sum_list reference = width" and "a \<le> width"
  shows "p \<le> length reference \<Longrightarrow>
    \<exists>p'. advance_b1 reference width a (reference_sum reference p) p =
           Some (reference_sum reference p', p') \<and>
         p' \<le> length reference \<and> a \<le> reference_sum reference p'"
proof (induction "length reference - p" arbitrary: p rule: less_induct)
  case less
  show ?case
  proof (cases "reference_sum reference p \<le> a \<and> reference_sum reference p < width")
    case False
    moreover have "a \<le> reference_sum reference p" using False assms(2) by linarith
    ultimately show ?thesis using less.prems
      by (intro exI [where x = p]) (subst advance_b1.simps, auto)
  next
    case True
    let ?p1 = "snd (take_reference reference p)"
    let ?p2 = "snd (take_reference reference ?p1)"
    have p: "p < length reference"
      using True less.prems reference_sum_end [of reference p] assms(1) by (cases "p < length reference") auto
    note t1 = take_reference_sum [OF less.prems]
    note t2 = take_reference_sum [OF t1(1)]
    have "length reference - ?p2 < length reference - p" using t1(4) [OF p] t2(3) p by linarith
    from less.hyps [OF this t2(1)] obtain p' where
      "advance_b1 reference width a (reference_sum reference ?p2) ?p2 =
         Some (reference_sum reference p', p')"
      "p' \<le> length reference" "a \<le> reference_sum reference p'" by blast
    moreover have "advance_b1 reference width a (reference_sum reference p) p =
        advance_b1 reference width a (reference_sum reference ?p2) ?p2"
      using True t1(2) t2(2) by (subst advance_b1.simps) (simp add: add.assoc)
    ultimately show ?thesis by simp
  qed
qed

lemma check_b1_ok:
  assumes "sum_list reference = width" and "line_ok reference width l"
  shows "\<exists>l'. check_b1 reference width l = Some l' \<and> line_ok reference width l' \<and> a0 l' \<le> b1 l' \<and>
    a0 l' = a0 l \<and> current l' = current l \<and> pending_run l' = pending_run l \<and> rd l' = rd l"
proof (cases "current l = []")
  case True
  then show ?thesis using assms(2) by (simp add: check_b1_def line_ok_def)
next
  case False
  obtain p' where "advance_b1 reference width (a0 l) (b1 l) (pb l) = Some (reference_sum reference p', p')"
    "p' \<le> length reference" "a0 l \<le> reference_sum reference p'"
    using advance_b1_Some [OF assms(1), of "a0 l" "pb l"] assms(2) by (auto simp: line_ok_def)
  then show ?thesis using False assms(2) by (simp add: check_b1_def line_ok_def)
qed

lemma set_run_ok:
  assumes "line_ok reference width l"
  shows "\<exists>l'. set_run l run width = Some l' \<and> line_ok reference width l' \<and> current l' \<noteq> [] \<and>
    b1 l' = b1 l \<and> pb l' = pb l \<and> rd l' = rd l"
  using assms by (auto simp: set_run_def line_ok_def checked_sub_def)

lemma line_ok_rd [simp]: "line_ok reference width (l\<lparr>rd := r\<rparr>) = line_ok reference width l"
  by (simp add: line_ok_def)

text \<open>No step is undefined, and each keeps the line in order.\<close>

definition step_ok :: "nat list \<Rightarrow> nat \<Rightarrow> t6_line result option \<Rightarrow> bool" where
  "step_ok reference width m \<longleftrightarrow>
     (case m of None \<Rightarrow> False | Some (Inl e) \<Rightarrow> (\<exists>s. e = RuntimeError s)
        | Some (Inr l) \<Rightarrow> line_ok reference width l)"


lemma attempt_step_ok:
  assumes "\<And>e. m = Inl e \<Longrightarrow> \<exists>s. e = RuntimeError s"
    and "\<And>x. m = Inr x \<Longrightarrow> step_ok reference width (f x)"
  shows "step_ok reference width (attempt m f)"
  using assms by (cases m) (auto simp: step_ok_def)

text \<open>The only exceptions of the image decoder are runtime errors.\<close>

lemma read_code_error: "read_code codes bits r = Inl e \<Longrightarrow> \<exists>s. e = RuntimeError s"
proof (induction codes bits r rule: read_code.induct)
  case (1 codes bits r)
  then show ?case
    by (subst (asm) (2) read_code.simps)
      (auto simp: Let_def split: option.splits if_splits prod.splits)
qed

lemma decode_run_from_error: "decode_run_from run r black = Inl e \<Longrightarrow> \<exists>s. e = RuntimeError s"
proof (induction run r black rule: decode_run_from.induct)
  case (1 run r black)
  show ?case
  proof (cases "read_code (run_codes black) [] r")
    case (Inl e')
    then show ?thesis using "1.prems" read_code_error [OF Inl] by (simp add: decode_run_from.simps)
  next
    case (Inr p)
    then show ?thesis using "1.prems" "1.IH" [OF Inr]
      by (subst (asm) decode_run_from.simps) (auto split: if_splits)
  qed
qed

lemma decode_run_code_error: "decode_run_code r black = Inl e \<Longrightarrow> \<exists>s. e = RuntimeError s"
  unfolding decode_run_code_def by (rule decode_run_from_error)

lemma decode_mode_error: "decode_mode r = Inl e \<Longrightarrow> \<exists>s. e = RuntimeError s"
proof -
  have "read_mode bits r = Inl e \<Longrightarrow> \<exists>s. e = RuntimeError s" for bits
  proof (induction bits r rule: read_mode.induct)
    case (1 bits r)
    then show ?case
      by (subst (asm) (2) read_mode.simps)
        (auto simp: Let_def invalid_mode_def split: option.splits if_splits prod.splits)
  qed
  then show "decode_mode r = Inl e \<Longrightarrow> \<exists>s. e = RuntimeError s" by (simp add: decode_mode_def)
qed

lemma pass_mode_ok:
  assumes "sum_list reference = width" and "line_ok reference width l"
  shows "step_ok reference width (pass_mode reference width l)"
proof -
  obtain l' where c: "check_b1 reference width l = Some l'" "line_ok reference width l'" "a0 l' \<le> b1 l'"
    using check_b1_ok [OF assms] by blast
  then have p: "pb l' \<le> length reference" "b1 l' = reference_sum reference (pb l')"
    by (auto simp: line_ok_def)
  note t1 = take_reference_sum [OF p(1)]
  note t2 = take_reference_sum [OF t1(1)]
  have "b1 l' + fst (take_reference reference (pb l')) \<le> width"
    using t1(2) p(2) reference_sum_le assms(1) by metis
  then show ?thesis using c t1(2) t2 p
    by (auto simp: pass_mode_def Let_def checked_sub_def step_ok_def line_ok_def)
qed

lemma horizontal_mode_ok:
  assumes "sum_list reference = width" and "line_ok reference width l"
  shows "step_ok reference width (horizontal_mode reference width l)"
  unfolding horizontal_mode_def Let_def
proof (rule attempt_step_ok)
  fix p assume "decode_run_code (rd l) (odd (length (current l))) = Inr p"
  obtain run1 r1 where p: "p = (run1, r1)" by fastforce
  obtain l1 where l1: "set_run (l\<lparr>rd := r1\<rparr>) run1 width = Some l1" "line_ok reference width l1"
    using set_run_ok [of reference width "l\<lparr>rd := r1\<rparr>" run1] assms(2) by auto
  have second: "step_ok reference width
      (exactly (set_run (l1\<lparr>rd := r2\<rparr>) run2 width) (\<lambda>l2.
       exactly (check_b1 reference width l2) (\<lambda>l3. Some (Inr l3))))" for run2 r2
  proof -
    obtain l2 where l2: "set_run (l1\<lparr>rd := r2\<rparr>) run2 width = Some l2" "line_ok reference width l2"
      using set_run_ok [of reference width "l1\<lparr>rd := r2\<rparr>" run2] l1(2) by auto
    then show ?thesis using check_b1_ok [OF assms(1) l2(2)] by (auto simp: step_ok_def)
  qed
  show "step_ok reference width
     (case p of (run1, r1) \<Rightarrow>
        exactly (set_run (l\<lparr>rd := r1\<rparr>) run1 width) (\<lambda>l1.
        attempt (decode_run_code (rd l1) (\<not> odd (length (current l)))) (\<lambda>(run2, r2).
        exactly (set_run (l1\<lparr>rd := r2\<rparr>) run2 width) (\<lambda>l2.
        exactly (check_b1 reference width l2) (\<lambda>l3. Some (Inr l3))))))"
    unfolding p using l1
    by (auto intro!: attempt_step_ok second dest: decode_run_code_error)
qed (rule decode_run_code_error)

lemma vertical_left_ok:
  assumes "sum_list reference = width" and "line_ok reference width l"
  shows "step_ok reference width (vertical_left reference width delta l)"
proof (cases "b1 l < a0 l + delta")
  case True
  then show ?thesis by (simp add: vertical_left_def step_ok_def)
next
  case False
  obtain l1 where l1: "set_run l (b1 l - a0 l - delta) width = Some l1" "line_ok reference width l1"
      "current l1 \<noteq> []"
    using set_run_ok [OF assms(2)] by blast
  show ?thesis
  proof (cases "pb l1 > 0")
    case False': False
    then show ?thesis using False l1 by (simp add: vertical_left_def step_ok_def)
  next
    case True
    then have "pb l1 - 1 < length reference" using l1(2) by (auto simp: line_ok_def)
    moreover from this True have "b1 l1 = reference_sum reference (pb l1 - 1) + reference ! (pb l1 - 1)"
      using reference_sum_Suc [of "pb l1 - 1" reference] l1(2) by (simp add: line_ok_def)
    ultimately show ?thesis using True False l1
      by (auto simp: vertical_left_def step_ok_def checked_sub_def line_ok_def)
  qed
qed

lemma vertical_right_ok:
  assumes "line_ok reference width l" and "a0 l \<le> b1 l"
  shows "step_ok reference width (vertical_right reference width delta l)"
proof -
  obtain l1 where l1: "set_run l (b1 l - a0 l + delta) width = Some l1" "line_ok reference width l1"
      "current l1 \<noteq> []"
    using set_run_ok [OF assms(1)] by blast
  then show ?thesis using assms(2)
    by (auto simp: vertical_right_def checked_sub_def step_ok_def line_ok_def reference_sum_Suc)
qed

lemma t6_step_ok:
  assumes "sum_list reference = width" and "line_ok reference width l"
  shows "step_ok reference width (t6_step reference width l)"
  unfolding t6_step_def
proof (rule attempt_step_ok)
  fix p assume "decode_mode (rd l) = Inr p"
  obtain m r where p: "p = (m, r)" by fastforce
  obtain l1 where l1: "check_b1 reference width (l\<lparr>rd := r\<rparr>) = Some l1"
      "line_ok reference width l1" "a0 l1 \<le> b1 l1"
    using check_b1_ok [OF assms(1), of "l\<lparr>rd := r\<rparr>"] assms(2) by auto
  show "step_ok reference width
     (case p of (m, r) \<Rightarrow> let l = l\<lparr>rd := r\<rparr> in
        case m of Pass \<Rightarrow> pass_mode reference width l
        | Horizontal \<Rightarrow> horizontal_mode reference width l
        | Vertical delta \<Rightarrow> exactly (check_b1 reference width l) (\<lambda>l1.
            if delta < 0 then vertical_left reference width (nat (- delta)) l1
            else vertical_right reference width (nat delta) l1))"
    using assms l1 pass_mode_ok [of reference width "l\<lparr>rd := r\<rparr>"]
      horizontal_mode_ok [of reference width "l\<lparr>rd := r\<rparr>"]
      vertical_left_ok [OF assms(1) l1(2)] vertical_right_ok [OF l1(2,3)]
    by (cases m) (simp_all add: p)
qed (rule decode_mode_error)

lemma t6_loop_ok:
  "sum_list reference = width \<Longrightarrow> line_ok reference width l \<Longrightarrow>
   (case t6_loop reference width l of
      None \<Rightarrow> False
    | Some (Inl e) \<Rightarrow> \<exists>s. e = RuntimeError s
    | Some (Inr l') \<Rightarrow> line_ok reference width l' \<and> (a0 l' = width \<or> reader_empty (rd l')))"
proof (induction reference width l rule: t6_loop.induct)
  case (1 reference width l)
  show ?case
  proof (cases "a0 l < width \<and> \<not> reader_empty (rd l)")
    case False
    then show ?thesis using "1.prems"
      by (subst t6_loop.simps) (auto simp: line_ok_def)
  next
    case True
    have ok: "step_ok reference width (t6_step reference width l)" using t6_step_ok "1.prems" .
    then consider (err) e where "t6_step reference width l = Some (Inl e)" "\<exists>s. e = RuntimeError s"
      | (go) l' where "t6_step reference width l = Some (Inr l')" "line_ok reference width l'"
      by (auto simp: step_ok_def split: option.splits sum.splits)
    then show ?thesis
    proof cases
      case err
      then show ?thesis using True by (subst t6_loop.simps) simp
    next
      case go
      then show ?thesis using True "1.IH" [OF True go(1) "1.prems"(1) go(2)]
        by (subst t6_loop.simps) simp
    qed
  qed
qed


subsection \<open>Whole lines and images\<close>

lemma line_runs_sum:
  "line_runs width cur a black r = Inr (runs, r') \<Longrightarrow> a \<le> width \<Longrightarrow> sum_list cur = a \<Longrightarrow>
   sum_list runs = width"
proof (induction width cur a black r arbitrary: runs r' rule: line_runs.induct)
  case (1 width cur a black r)
  show ?case
  proof (cases "a < width")
    case False
    then show ?thesis using "1.prems" by (subst (asm) line_runs.simps) simp
  next
    case True
    then obtain p where p: "decode_run_code r black = Inr p"
      using "1.prems"(1) by (subst (asm) line_runs.simps) (auto simp: and_then_eq_Inr)
    have "line_runs width (cur @ [min (fst p) (width - a)]) (a + min (fst p) (width - a))
        (\<not> black) (snd p) = Inr (runs, r')"
      using "1.prems"(1) True p by (subst (asm) line_runs.simps) (simp add: Let_def)
    then show ?thesis using "1.IH" [OF True p refl] "1.prems" True by simp
  qed
qed

lemma line_runs_error: "line_runs width cur a black r = Inl e \<Longrightarrow> \<exists>s. e = RuntimeError s"
proof (induction width cur a black r rule: line_runs.induct)
  case (1 width cur a black r)
  show ?case
  proof (cases "a < width")
    case False
    then show ?thesis using "1.prems" by (subst (asm) line_runs.simps) simp
  next
    case True
    show ?thesis
    proof (cases "decode_run_code r black")
      case (Inl e')
      then show ?thesis using "1.prems" True decode_run_code_error [OF Inl]
        by (subst (asm) line_runs.simps) simp
    next
      case (Inr p)
      then show ?thesis using "1.IH" [OF True Inr refl] "1.prems" True
        by (subst (asm) (2) line_runs.simps) (simp add: Let_def)
    qed
  qed
qed

definition reference_ready :: "nat \<Rightarrow> nat list \<Rightarrow> bit_reader \<Rightarrow> bool" where
  "reference_ready width reference r \<longleftrightarrow>
     reference \<noteq> [] \<and> (sum_list reference = width \<or> reader_empty r)"

definition line_outcome_ok :: "nat \<Rightarrow> (nat list \<times> bit_reader) result option \<Rightarrow> bool" where
  "line_outcome_ok width m \<longleftrightarrow>
     (case m of None \<Rightarrow> False | Some (Inl e) \<Rightarrow> (\<exists>s. e = RuntimeError s)
        | Some (Inr (runs, r)) \<Rightarrow> reference_ready width runs r)"

lemma decode_1d_line_ok: "line_outcome_ok width (Some (decode_1d_line r width))"
proof (cases "line_runs width [] 0 False r")
  case (Inl e)
  then show ?thesis using line_runs_error [OF Inl]
    by (simp add: line_outcome_ok_def decode_1d_line_def)
next
  case (Inr p)
  then show ?thesis using line_runs_sum [of width "[]" 0 False r "fst p" "snd p"]
    by (cases p) (simp add: line_outcome_ok_def decode_1d_line_def append_reference_tail_def
        reference_ready_def)
qed

lemma on_line_ok: "line_outcome_ok width (Some (on_line y m)) = line_outcome_ok width (Some m)"
  by (auto simp: line_outcome_ok_def on_line_def split: sum.splits exn.splits)

lemma finish_line_ok:
  assumes "line_ok reference width l" and "a0 l = width \<or> reader_empty (rd l)"
  shows "line_outcome_ok width (finish_line width l)"
proof (cases "pending_run l = 0")
  case True
  then show ?thesis using assms
    by (auto simp: finish_line_def line_outcome_ok_def append_reference_tail_def
        reference_ready_def line_ok_def)
next
  case False
  have stuck: "try_read_bit (rd l) = None" if "pending_run l + a0 l < width"
    using that assms(2) by (auto simp: try_read_bit_def reader_empty_def)
  have "a0 l \<le> width" and "sum_list (current l) + pending_run l = a0 l"
    using assms(1) by (auto simp: line_ok_def)
  then show ?thesis using False stuck assms(2)
    by (auto simp: finish_line_def line_outcome_ok_def append_reference_tail_def
        reference_ready_def set_run_def)
qed

lemma start_line_ok: "reference \<noteq> [] \<Longrightarrow> line_ok reference width (start_line reference width r)"
  by (cases reference) (simp_all add: line_ok_def start_line_def reference_sum_def)

lemma empty_reader_line:
  assumes "reader_empty r"
  shows "t6_line_runs reference width r y = Some (Inr ([0], r))"
proof -
  have "read_line_kind r = Inr (Two_dimensional, r)"
    using assms by (simp add: read_line_kind_def reader_starts_with_def eol_bits_def reader_empty_def)
  moreover have "t6_loop reference width (start_line reference width r) =
      Some (Inr (start_line reference width r))"
    using assms by (subst t6_loop.simps) (simp add: start_line_def)
  ultimately show ?thesis
    by (simp add: t6_line_runs_def on_line_def finish_line_def append_reference_tail_def)
      (simp add: start_line_def)
qed

lemma read_line_kind_error: "read_line_kind r = Inl e \<Longrightarrow> \<exists>s. e = RuntimeError s"
  by (auto simp: read_line_kind_def split: if_splits option.splits prod.splits)

lemma t6_line_runs_ok:
  assumes "reference_ready width reference r"
  shows "line_outcome_ok width (t6_line_runs reference width r y)"
proof (cases "reader_empty r")
  case True
  then show ?thesis
    by (simp add: empty_reader_line line_outcome_ok_def reference_ready_def)
next
  case False
  then have sum: "sum_list reference = width" "reference \<noteq> []"
    using assms by (auto simp: reference_ready_def)
  show ?thesis
  proof (cases "read_line_kind r")
    case (Inl e)
    then show ?thesis using read_line_kind_error [OF Inl]
      by (auto simp: t6_line_runs_def on_line_def line_outcome_ok_def)
  next
    case (Inr p)
    obtain kind r1 where p: "p = (kind, r1)" by fastforce
    show ?thesis
    proof (cases kind)
      case One_dimensional
      then show ?thesis using Inr p on_line_ok decode_1d_line_ok
        by (simp add: t6_line_runs_def on_line_def [of _ "Inr _"])
    next
      case Two_dimensional
      have loop: "case t6_loop reference width (start_line reference width r1) of
          None \<Rightarrow> False | Some (Inl e) \<Rightarrow> \<exists>s. e = RuntimeError s
        | Some (Inr l') \<Rightarrow> line_ok reference width l' \<and> (a0 l' = width \<or> reader_empty (rd l'))"
        using t6_loop_ok [OF sum(1) start_line_ok [OF sum(2)]] .
      have run: "t6_line_runs reference width r y =
          step_then (map_option (on_line y) (t6_loop reference width (start_line reference width r1)))
            (finish_line width)"
        using Inr p Two_dimensional by (simp add: t6_line_runs_def on_line_def [of _ "Inr _"])
      from loop consider
          (err) s where "t6_loop reference width (start_line reference width r1) =
            Some (Inl (RuntimeError s))"
        | (go) l' where "t6_loop reference width (start_line reference width r1) = Some (Inr l')"
            "line_ok reference width l'" "a0 l' = width \<or> reader_empty (rd l')"
        by (auto split: option.splits sum.splits)
      then show ?thesis
      proof cases
        case err
        then show ?thesis by (simp add: run on_line_def line_outcome_ok_def)
      next
        case go
        then show ?thesis using finish_line_ok [OF go(2,3)] by (simp add: run on_line_def)
      qed
    qed
  qed
qed

subsection \<open>Pixels\<close>

text \<open>The four bytes of pixel \<open>k\<close> in row-major order, and an image of the stated size whose pixels are
  opaque black or white.\<close>

definition pixel :: "rgba_image \<Rightarrow> nat \<Rightarrow> bytes" where
  "pixel img k = slice (rgba img) (4 * k) (4 * k + 4)"

definition image_sized :: "nat \<Rightarrow> nat \<Rightarrow> rgba_image \<Rightarrow> bool" where
  "image_sized width height img \<longleftrightarrow>
     img_width img = width \<and> img_height img = height \<and> length (rgba img) = width * height * 4"

definition bilevel :: "rgba_image \<Rightarrow> bool" where
  "bilevel img \<longleftrightarrow>
     list_all (\<lambda>k. pixel img k \<in> {[0, 0, 0, 255], [255, 255, 255, 255]})
       [0..<img_width img * img_height img]"

definition black_pixel :: "nat \<Rightarrow> rgba_image \<Rightarrow> rgba_image" where
  "black_pixel k img =
     img\<lparr>rgba := (rgba img)[k * 4 := 0, k * 4 + 1 := 0, k * 4 + 2 := 0, k * 4 + 3 := 255]\<rparr>"

lemma black_pixel_sized [simp]:
  "image_sized width height (black_pixel k img) = image_sized width height img"
  by (simp add: black_pixel_def image_sized_def)

lemma pixel_nth:
  "4 * k + 4 \<le> length (rgba img) \<Longrightarrow>
   pixel img k = [rgba img ! (4 * k), rgba img ! (4 * k + 1), rgba img ! (4 * k + 2),
     rgba img ! (4 * k + 3)]"
  unfolding pixel_def using slice_bytes(3) [of "4 * k" "rgba img"] by simp

lemma pixel_black_pixel:
  assumes "4 * k + 4 \<le> length (rgba img)" and "4 * j + 4 \<le> length (rgba img)"
  shows "pixel (black_pixel k img) j = (if j = k then [0, 0, 0, 255] else pixel img j)"
proof -
  have keep: "rgba (black_pixel k img) ! (4 * j + i) = rgba img ! (4 * j + i)" if "j \<noteq> k" "i < 4" for i
  proof -
    have "4 * j + i \<noteq> k * 4 + d" if "d < 4" for d using that \<open>j \<noteq> k\<close> \<open>i < 4\<close> by presburger
    from this [of 0] this [of 1] this [of 2] this [of 3]
    have "k * 4 \<noteq> 4 * j + i" "k * 4 + 1 \<noteq> 4 * j + i" "k * 4 + 2 \<noteq> 4 * j + i" "k * 4 + 3 \<noteq> 4 * j + i"
      by auto
    then show ?thesis by (simp add: black_pixel_def)
  qed
  have len: "length (rgba (black_pixel k img)) = length (rgba img)" by (simp add: black_pixel_def)
  have e: "4 * k = k * 4" by simp
  show ?thesis
  proof (cases "j = k")
    case True
    then show ?thesis using assms
      by (subst pixel_nth) (simp_all add: len e black_pixel_def nth_list_update)
  next
    case False
    then show ?thesis using assms keep [OF False, of 0] keep [OF False, of 1] keep [OF False, of 2]
        keep [OF False, of 3]
      by (simp add: pixel_nth len)
  qed
qed

lemma image_sized_room:
  assumes "image_sized width height img" and "k < width * height"
  shows "4 * k + 4 \<le> length (rgba img)"
  using assms by (auto simp: image_sized_def)

lemma row_bound:
  assumes "x < width" and "y < height"
  shows "y * width + x < width * (height :: nat)"
proof -
  have "y * width + x < Suc y * width" using assms(1) by simp
  also have "\<dots> \<le> height * width" using assms(2) by (intro mult_right_mono) auto
  finally show ?thesis by (simp add: mult.commute)
qed

lemma row_unique:
  assumes "x < width" and "x' < (width :: nat)" and "y * width + x = y' * width + x'"
  shows "y = y'" and "x = x'"
proof -
  have "(y * width + x) div width = y" and "(y' * width + x') div width = y'"
    using assms(1,2) by simp_all
  then show "y = y'" using assms(3) by metis
  then show "x = x'" using assms(3) by simp
qed

lemma black_row:
  assumes "image_sized width height img" and "y < height" and "set xs \<subseteq> {..<width}" and "k < width * height"
  defines "row \<equiv> fold (\<lambda>x im. black_pixel (y * img_width im + x) im) xs img"
  shows "image_sized width height row"
    and "pixel row k = (if k \<in> (\<lambda>x. y * width + x) ` set xs then [0, 0, 0, 255] else pixel img k)"
proof -
  have "image_sized width height row \<and>
      pixel row k = (if k \<in> (\<lambda>x. y * width + x) ` set xs then [0, 0, 0, 255] else pixel img k)"
    using assms(1,3) unfolding row_def
  proof (induction xs arbitrary: img)
    case (Cons x xs)
    let ?img = "black_pixel (y * img_width img + x) img"
    have w: "img_width img = width" using Cons.prems(1) by (simp add: image_sized_def)
    have "pixel ?img k = (if k = y * width + x then [0, 0, 0, 255] else pixel img k)"
      unfolding w using Cons.prems assms(2,4)
      by (intro pixel_black_pixel image_sized_room [OF Cons.prems(1)] row_bound) auto
    then show ?case using Cons.IH [of ?img] Cons.prems by (auto simp: w)
  qed simp
  then show "image_sized width height row"
    and "pixel row k = (if k \<in> (\<lambda>x. y * width + x) ` set xs then [0, 0, 0, 255] else pixel img k)"
    by blast+
qed

lemma write_run_as_row:
  "write_run img y b e black =
     (if black then fold (\<lambda>x im. black_pixel (y * img_width im + x) im)
        [min b (img_width img)..<min e (img_width img)] img else img)"
  by (simp add: write_run_def black_pixel_def Let_def)

lemma write_run_pixels:
  assumes "image_sized width height img" and "y < height" and "x < width" and "y' < height"
  shows "image_sized width height (write_run img y b e black)"
    and "pixel (write_run img y b e black) (y' * width + x) =
      (if black \<and> y' = y \<and> b \<le> x \<and> x < e then [0, 0, 0, 255] else pixel img (y' * width + x))"
proof -
  have w: "img_width img = width" using assms(1) by (simp add: image_sized_def)
  have "set [min b width..<min e width] \<subseteq> {..<width}" by auto
  note row = black_row [OF assms(1,2) this row_bound [OF assms(3,4)]]
  show "image_sized width height (write_run img y b e black)"
    using row(1) assms(1) by (simp add: write_run_as_row w)
  have "(\<exists>x' \<in> set [min b width..<min e width]. y' * width + x = y * width + x') =
      (y' = y \<and> b \<le> x \<and> x < e)"
  proof
    assume "\<exists>x' \<in> set [min b width..<min e width]. y' * width + x = y * width + x'"
    then obtain x' where x': "min b width \<le> x'" "x' < min e width" "y' * width + x = y * width + x'"
      by auto
    then show "y' = y \<and> b \<le> x \<and> x < e"
      using assms(3) row_unique [OF assms(3) _ x'(3)] by auto
  qed (use assms(3) in auto)
  then have "(y' * width + x \<in> (\<lambda>x. y * width + x) ` set [min b width..<min e width]) =
      (y' = y \<and> b \<le> x \<and> x < e)" by blast
  then show "pixel (write_run img y b e black) (y' * width + x) =
      (if black \<and> y' = y \<and> b \<le> x \<and> x < e then [0, 0, 0, 255] else pixel img (y' * width + x))"
    using row(2) unfolding write_run_as_row w by (simp only: if_True if_False split: if_split) blast
qed

text \<open>The colour of column \<open>x\<close> of a line whose runs alternate, the first being white.\<close>

fun black_at :: "bool \<Rightarrow> nat list \<Rightarrow> nat \<Rightarrow> bool" where
  "black_at black [] x = False"
| "black_at black (run # runs) x =
     (if x < run then black else black_at (\<not> black) runs (x - run))"

lemma write_runs_from_pixels:
  assumes "y < height" and "x < width" and "y' < height"
  shows "image_sized width height img \<Longrightarrow> a \<le> width \<Longrightarrow>
    image_sized width height (write_runs_from img y a black runs) \<and>
    pixel (write_runs_from img y a black runs) (y' * width + x) =
      (if y' = y \<and> a \<le> x \<and> black_at black runs (x - a) then [0, 0, 0, 255]
       else pixel img (y' * width + x))"
proof (induction runs arbitrary: img a black)
  case Nil
  then show ?case by simp
next
  case (Cons run runs)
  let ?a = "min (a + run) width"
  let ?img = "write_run img y a ?a black"
  have w: "img_width img = width" using Cons.prems(1) by (simp add: image_sized_def)
  note img = write_run_pixels [OF Cons.prems(1) assms, of a ?a black]
  have w': "img_width ?img = width" using img(1) by (simp add: image_sized_def)
  have step: "write_runs_from img y a black (run # runs) =
      (if ?a \<ge> width then ?img else write_runs_from ?img y ?a (\<not> black) runs)"
    by (simp add: Let_def w w')
  show ?case
  proof (cases "?a \<ge> width")
    case True
    then show ?thesis unfolding step using img assms(2)
      by (auto simp del: write_runs_from.simps)
  next
    case False
    then show ?thesis unfolding step using img Cons.IH [OF img(1), of ?a "\<not> black"]
      by (auto simp del: write_runs_from.simps)
  qed
qed

lemma write_runs_pixels:
  assumes "image_sized width height img" and "y < height" and "x < width" and "y' < height"
  shows "image_sized width height (write_runs img y runs)"
    and "pixel (write_runs img y runs) (y' * width + x) =
      (if y' = y \<and> black_at False runs x then [0, 0, 0, 255] else pixel img (y' * width + x))"
  using write_runs_from_pixels [OF assms(2,3,4,1), of 0 False runs] by (auto simp: write_runs_def)

text \<open>The whole decoder.\<close>

lemma pixel_coordinates:
  assumes "k < width * height"
  obtains x y where "x < width" and "y < height" and "k = y * width + (x :: nat)"
proof
  have "0 < width" using assms by (cases width) auto
  then show "k mod width < width" by simp
  show "k div width < height" using assms by (simp add: less_mult_imp_div_less mult.commute)
  show "k = k div width * width + k mod width" by simp
qed

lemma image_sized_write_run [simp]:
  "image_sized width height (write_run img y b e black) = image_sized width height img"
proof -
  have "image_sized width height (fold (\<lambda>x im. black_pixel (y * img_width im + x) im) xs img) =
      image_sized width height img" for xs
    by (induction xs arbitrary: img) simp_all
  then show ?thesis by (simp add: write_run_as_row)
qed

lemma image_sized_write_runs [simp]:
  "image_sized width height (write_runs img y runs) = image_sized width height img"
proof -
  have "image_sized width height (write_runs_from img y a black runs) =
      image_sized width height img" for a black
    by (induction runs arbitrary: img a black) (simp_all add: Let_def)
  then show ?thesis by (simp add: write_runs_def)
qed

lemma bilevel_write_runs:
  assumes "image_sized width height img" and "y < height" and "bilevel img"
  shows "bilevel (write_runs img y runs)"
proof -
  have "pixel (write_runs img y runs) k \<in> {[0, 0, 0, 255], [255, 255, 255, 255]}"
    if k: "k < width * height" for k
  proof (rule pixel_coordinates [OF k])
    fix x y' assume xy: "x < width" "y' < height" "k = y' * width + x"
    have "pixel img k \<in> {[0, 0, 0, 255], [255, 255, 255, 255]}"
      using assms(1,3) k by (auto simp: bilevel_def list_all_iff image_sized_def)
    then show ?thesis using write_runs_pixels(2) [OF assms(1,2) xy(1,2)] xy(3) by auto
  qed
  moreover have "image_sized width height (write_runs img y runs)" using assms(1) by simp
  ultimately show ?thesis
    by (auto simp: bilevel_def list_all_iff image_sized_def)
qed

text \<open>What a decoder may do: return an image of the stated size, or throw a runtime error.\<close>

definition image_or_error :: "nat \<Rightarrow> nat \<Rightarrow> rgba_image result option \<Rightarrow> bool" where
  "image_or_error width height m \<longleftrightarrow>
     (case m of
        None \<Rightarrow> False
      | Some (Inl e) \<Rightarrow> (case e of RuntimeError _ \<Rightarrow> True | _ \<Rightarrow> False)
      | Some (Inr img) \<Rightarrow> image_sized width height img \<and> bilevel img)"

lemma t6_lines_ok:
  "reference_ready width reference r \<Longrightarrow> image_sized width height img \<Longrightarrow> bilevel img \<Longrightarrow>
   list_all (\<lambda>y. y < height) ys \<Longrightarrow> image_or_error width height (t6_lines width ys reference img r)"
proof (induction ys arbitrary: reference img r)
  case Nil
  then show ?case by (simp add: image_or_error_def)
next
  case (Cons y ys)
  from t6_line_runs_ok [OF Cons.prems(1), of y]
  consider (err) s where "t6_line_runs reference width r y = Some (Inl (RuntimeError s))"
    | (line) runs r' where "t6_line_runs reference width r y = Some (Inr (runs, r'))"
        "reference_ready width runs r'"
    by (auto simp: line_outcome_ok_def split: option.splits sum.splits prod.splits)
  then show ?case
  proof cases
    case err
    then show ?thesis by (simp add: image_or_error_def)
  next
    case line
    have "bilevel (write_runs img y runs)"
      using bilevel_write_runs [OF Cons.prems(2) _ Cons.prems(3)] Cons.prems(4) by simp
    then show ?thesis using Cons.IH [OF line(2)] Cons.prems line(1) by simp
  qed
qed

lemma mh_lines_ok:
  "image_sized width height img \<Longrightarrow> bilevel img \<Longrightarrow> list_all (\<lambda>y. y < height) ys \<Longrightarrow>
   mh_lines width ys img r = Inr img' \<Longrightarrow> image_sized width height img' \<and> bilevel img'"
proof (induction ys arbitrary: img r)
  case Nil
  then show ?case by simp
next
  case (Cons y ys)
  obtain r1 runs r2 where
    "mh_lines width ys (write_runs img y runs) r2 = Inr img'"
    using Cons.prems(4) by (auto simp: and_then_eq_Inr split: prod.splits)
  then show ?case
    using Cons.IH [of "write_runs img y runs" r2] bilevel_write_runs [OF Cons.prems(1) _ Cons.prems(2), of y runs]
      Cons.prems by simp
qed

lemma blank_image_ok:
  "image_sized width height (blank_image width height)" "bilevel (blank_image width height)"
proof -
  show s: "image_sized width height (blank_image width height)"
    by (simp add: image_sized_def blank_image_def)
  have "pixel (blank_image width height) k = [255, 255, 255, 255]" if "k < width * height" for k
    using image_sized_room [OF s that]
    by (simp add: pixel_nth) (simp add: blank_image_def)
  then show "bilevel (blank_image width height)"
    by (auto simp: bilevel_def list_all_iff blank_image_def)
qed

lemma decode_t6_image_ok: "image_or_error width height (decode_t6_image compressed width height)"
  unfolding decode_t6_image_def
  by (rule t6_lines_ok) (simp_all add: reference_ready_def blank_image_ok list_all_iff)

lemma decode_mh_image_ok:
  "decode_mh_image compressed width height = Inr img \<Longrightarrow> image_sized width height img \<and> bilevel img"
  unfolding decode_mh_image_def
  by (rule mh_lines_ok) (auto simp: blank_image_ok list_all_iff)

lemma decode_mmr_cases:
  "image_or_error (unat (read_be16_unchecked bs 0x42)) (unat (read_be16_unchecked bs 0x44))
     (decode_mmr_to_rgba bs)"
proof -
  let ?w = "unat (read_be16_unchecked bs 0x42)"
  let ?h = "unat (read_be16_unchecked bs 0x44)"
  show ?thesis
  proof (cases "length bs < 0x50 \<or> ?w > 8192 \<or> ?h > 8192 \<or> \<not> decoded_image_dimensions_are_safe ?w ?h")
    case True
    then show ?thesis by (auto simp: decode_mmr_to_rgba_def image_or_error_def Let_def)
  next
    case False
    then obtain compressed where c: "read_segments bs = Inr compressed"
      by (simp add: read_segments_def Let_def)
    have run: "decode_mmr_to_rgba bs =
      (case decode_t6_image compressed ?w ?h of
         Some (Inl t6_error) \<Rightarrow>
           if looks_like_mh compressed then
             (case decode_mh_image compressed ?w ?h of
                Inl _ \<Rightarrow> Some (Inl t6_error) | Inr img \<Rightarrow> Some (Inr img))
           else Some (Inl t6_error)
       | outcome \<Rightarrow> outcome)"
      using False c by (simp add: decode_mmr_to_rgba_def Let_def)
    show ?thesis
      using decode_t6_image_ok [of ?w ?h compressed] decode_mh_image_ok [of compressed ?w ?h]
      unfolding run by (auto simp: image_or_error_def split: option.splits sum.splits)
  qed
qed

end
