(* ===== verification/Mmr_Roundtrip.thy ===== *)
theory Mmr_Roundtrip
  imports Mmr_Facts
begin

section \<open>What an encoder writes, the MMR decoder reads\<close>

text \<open>
  A reference encoder for runs and one-dimensional lines, and the round trips: the run codes and the
  lines of \<open>src/img/mmr.cpp\<close> decode to what was encoded and leave the reader behind the code.
\<close>

subsection \<open>The bits that are left\<close>

definition reader_bits :: "bit_reader \<Rightarrow> string" where
  "reader_bits r = map (\<lambda>i. bit_char (bit_at r i)) [bit_offset r..<end_bit r]"

lemma bit_char_inj: "bit_char b = c \<Longrightarrow> b = (c = CHR ''1'')"
  by (auto simp: bit_char_def split: if_splits)

lemma reader_bits_read:
  assumes "reader_bits r = c # cs"
  obtains r' where "try_read_bit r = Some (c = CHR ''1'', r')" and "reader_bits r' = cs"
    and "bit_char (c = CHR ''1'') = c"
proof -
  have less: "bit_offset r < end_bit r"
    using assms by (cases "bit_offset r < end_bit r") (simp_all add: reader_bits_def)
  then have split: "[bit_offset r..<end_bit r] = bit_offset r # [Suc (bit_offset r)..<end_bit r]"
    by (rule upt_conv_Cons)
  have c: "bit_char (bit_at r (bit_offset r)) = c" using assms by (simp add: reader_bits_def split)
  let ?r = "r\<lparr>bit_offset := bit_offset r + 1\<rparr>"
  show thesis
  proof
    show "try_read_bit r = Some (c = CHR ''1'', ?r)"
      using less bit_char_inj [OF c] by (simp add: try_read_bit_def)
    show "reader_bits ?r = cs"
      using assms by (simp add: reader_bits_def split bit_at_def)
    show "bit_char (c = CHR ''1'') = c" using bit_char_inj [OF c] c by simp
  qed
qed

subsection \<open>One code\<close>

lemma prefix_free_unique:
  assumes "prefix_free ss" and "s \<in> set ss" and "t \<in> set ss" and "prefix s t"
  shows "s = t"
  using assms unfolding prefix_free_def
proof (induction ss)
  case (Cons u ss)
  then show ?case by (cases "s = u"; cases "t = u") auto
qed simp

lemma prefix_free_distinct: "prefix_free ss \<Longrightarrow> distinct ss"
  unfolding prefix_free_def by (induction ss) (auto dest: bspec)

lemma find_exact_code_None:
  "find_exact_code codes bits = None \<longleftrightarrow> bits \<notin> code_bits ` set codes"
  by (auto simp: find_exact_code_def find_None_iff)

lemma find_exact_code_Some:
  assumes "distinct (map code_bits codes)" and "c \<in> set codes"
  shows "find_exact_code codes (code_bits c) = Some c"
  using assms unfolding find_exact_code_def by (induction codes) (auto simp: image_iff)

definition all_codes :: "bool \<Rightarrow> mmr_code list" where
  "all_codes black = run_codes black @ long_makeup_codes"

lemma read_code_exact:
  assumes "c \<in> set (all_codes black)" and "try_read_bit r = Some (b, r')"
    and "bits @ [bit_char b] = code_bits c" and "\<And>d. d \<in> set long_makeup_codes \<Longrightarrow> \<not> terminating d"
  shows "read_code (run_codes black) bits r = Inr ((code_run c, terminating c), r')"
proof -
  have dist: "distinct (map code_bits (run_codes black @ long_makeup_codes))"
    using prefix_free_distinct [OF run_codes_prefix_free] .
  show ?thesis
  proof (cases "c \<in> set (run_codes black)")
    case True
    then have "find_exact_code (run_codes black) (code_bits c) = Some c"
      using dist by (intro find_exact_code_Some) auto
    then show ?thesis using assms(2,3) by (simp add: read_code.simps)
  next
    case False
    then have c: "c \<in> set long_makeup_codes" using assms(1) by (auto simp: all_codes_def)
    then have "find_exact_code long_makeup_codes (code_bits c) = Some c"
      using dist by (intro find_exact_code_Some) auto
    moreover have "find_exact_code (run_codes black) (code_bits c) = None"
      using dist c by (auto simp: find_exact_code_None)
    ultimately show ?thesis using assms(2,3) assms(4) [OF c] by (simp add: read_code.simps)
  qed
qed

lemma read_code_further:
  assumes "c \<in> set (all_codes black)" and "try_read_bit r = Some (b, r')"
    and "code_bits c = bits @ [bit_char b] @ later" and "later \<noteq> []" and "length (code_bits c) \<le> 13"
  shows "read_code (run_codes black) bits r = read_code (run_codes black) (bits @ [bit_char b]) r'"
proof -
  let ?bits = "bits @ [bit_char b]"
  have pre: "prefix ?bits (code_bits c)" "?bits \<noteq> code_bits c" using assms(3,4) by auto
  have notin: "?bits \<notin> code_bits ` set (all_codes black)"
  proof
    assume "?bits \<in> code_bits ` set (all_codes black)"
    then have "?bits = code_bits c"
      using prefix_free_unique [OF run_codes_prefix_free _ _ pre(1)] assms(1)
      by (auto simp: all_codes_def)
    then show False using pre(2) by simp
  qed
  have "has_prefix_match (run_codes black) ?bits \<or> has_prefix_match long_makeup_codes ?bits"
  proof -
    have m: "matches_prefix (code_bits c) ?bits" using assms(3) by (simp add: matches_prefix_def)
    show ?thesis using assms(1) m by (auto simp: has_prefix_match_def list_ex_iff all_codes_def)
  qed
  moreover have "length ?bits \<le> 13" using assms(3,5) by simp
  moreover have "find_exact_code (run_codes black) ?bits = None"
      "find_exact_code long_makeup_codes ?bits = None"
    using notin by (auto simp: find_exact_code_None all_codes_def)
  ultimately show ?thesis using assms(2) by (subst read_code.simps) (auto simp: Let_def)
qed

lemma tables_sane:
  "list_all (\<lambda>c. length (code_bits c) \<le> 13 \<and> code_bits c \<noteq> []) white_codes"
  "list_all (\<lambda>c. length (code_bits c) \<le> 13 \<and> code_bits c \<noteq> []) black_codes"
  "list_all (\<lambda>c. length (code_bits c) \<le> 13 \<and> code_bits c \<noteq> []) long_makeup_codes"
  "list_all (\<lambda>c. \<not> terminating c) long_makeup_codes"
  by (simp_all add: white_codes_def black_codes_def long_makeup_codes_def)

lemma all_codes_sane:
  assumes "c \<in> set (all_codes black)"
  shows "length (code_bits c) \<le> 13" and "code_bits c \<noteq> []"
  using assms tables_sane(1-3) unfolding all_codes_def run_codes_def list_all_iff
  by (cases black; auto)+

lemma long_codes_continue: "d \<in> set long_makeup_codes \<Longrightarrow> \<not> terminating d"
  using tables_sane(4) by (simp add: list_all_iff)

lemma read_code_reads:
  assumes "c \<in> set (all_codes black)"
  shows "code_bits c = bits @ todo \<Longrightarrow> todo \<noteq> [] \<Longrightarrow> reader_bits r = todo @ rest \<Longrightarrow>
    \<exists>r'. read_code (run_codes black) bits r = Inr ((code_run c, terminating c), r') \<and>
         reader_bits r' = rest"
proof (induction todo arbitrary: bits r)
  case (Cons t todo)
  obtain r1 where r1: "try_read_bit r = Some (t = CHR ''1'', r1)" "reader_bits r1 = todo @ rest"
      "bit_char (t = CHR ''1'') = t"
    using reader_bits_read [of r t "todo @ rest"] Cons.prems(3) by auto
  show ?case
  proof (cases "todo = []")
    case True
    then show ?thesis
      using read_code_exact [OF assms r1(1) _ long_codes_continue] Cons.prems(1) r1 by auto
  next
    case False
    have "code_bits c = bits @ [bit_char (t = CHR ''1'')] @ todo" using Cons.prems(1) r1(3) by simp
    from read_code_further [OF assms r1(1) this False all_codes_sane(1) [OF assms]]
    show ?thesis using Cons.IH [OF _ False r1(2), of "bits @ [t]"] Cons.prems(1) r1(3) by simp
  qed
qed simp

subsection \<open>Runs\<close>

text \<open>The code of one run length, and a run as a series of make-up codes and a terminating code.\<close>

definition code_of :: "bool \<Rightarrow> nat \<Rightarrow> bool \<Rightarrow> mmr_code option" where
  "code_of black run ends = find (\<lambda>c. code_run c = run \<and> terminating c = ends) (all_codes black)"

definition bits_of :: "bool \<Rightarrow> nat \<Rightarrow> bool \<Rightarrow> string" where
  "bits_of black run ends = (case code_of black run ends of None \<Rightarrow> [] | Some c \<Rightarrow> code_bits c)"

fun encode_run :: "bool \<Rightarrow> nat \<Rightarrow> string" where
  "encode_run black n =
     (if n < 64 then bits_of black n True
      else if n < 2560 then bits_of black (n div 64 * 64) False @ bits_of black (n mod 64) True
      else bits_of black 2560 False @ encode_run black (n - 2560))"

declare encode_run.simps [simp del]

lemma code_runs:
  "map code_run (filter terminating white_codes) = [0..<64]"
  "map code_run (filter terminating black_codes) = [0..<64]"
  "map code_run (filter (\<lambda>c. \<not> terminating c) white_codes @ long_makeup_codes) = map (\<lambda>k. k * 64) [1..<41]"
  "map code_run (filter (\<lambda>c. \<not> terminating c) black_codes @ long_makeup_codes) = map (\<lambda>k. k * 64) [1..<41]"
  by (simp_all add: white_codes_def black_codes_def long_makeup_codes_def upt_rec)

lemma code_of_exists:
  assumes "c \<in> set (all_codes black)"
  shows "code_of black (code_run c) (terminating c) \<noteq> None"
  using assms by (auto simp: code_of_def find_None_iff)

lemma code_of_small: "n < 64 \<Longrightarrow> code_of black n True \<noteq> None"
proof -
  assume "n < 64"
  then have "n \<in> set (map code_run (filter terminating (run_codes black)))"
    using code_runs(1,2) by (simp add: run_codes_def del: set_map)
  then obtain c where "c \<in> set (run_codes black)" "terminating c" "code_run c = n" by auto
  then show ?thesis using code_of_exists [of c black] by (simp add: all_codes_def)
qed

lemma code_of_makeup: "0 < k \<Longrightarrow> k \<le> 40 \<Longrightarrow> code_of black (k * 64) False \<noteq> None"
proof -
  assume "0 < k" "k \<le> 40"
  then have "k * 64 \<in> set (map (\<lambda>k. k * 64) [1..<41])" by auto
  then have "k * 64 \<in> set (map code_run (filter (\<lambda>c. \<not> terminating c) (run_codes black) @ long_makeup_codes))"
    using code_runs(3,4) by (simp only: run_codes_def split: if_split) metis
  then have "\<exists>c. c \<in> set (all_codes black) \<and> code_run c = k * 64 \<and> \<not> terminating c"
    using long_codes_continue by (auto simp: all_codes_def list_all_iff)
  then show ?thesis using code_of_exists [of _ black] by metis
qed

lemma read_code_of:
  assumes "code_of black run ends \<noteq> None" and "reader_bits r = bits_of black run ends @ rest"
  obtains r' where "read_code (run_codes black) [] r = Inr ((run, ends), r')" and "reader_bits r' = rest"
proof -
  obtain c where c: "code_of black run ends = Some c" using assms(1) by blast
  then have mem: "c \<in> set (all_codes black)" "code_run c = run" "terminating c = ends"
    by (auto simp: code_of_def find_Some_iff)
  note ne = all_codes_sane(2) [OF mem(1)]
  then show thesis
    using read_code_reads [OF mem(1), of "[]" "code_bits c" r rest] assms(2) c mem(2,3) that
    by (auto simp: bits_of_def)
qed

lemma decode_makeup:
  assumes "read_code (run_codes black) [] r = Inr ((k, False), r')"
  shows "decode_run_from run r black = decode_run_from (run + k) r' black"
  using assms by (subst decode_run_from.simps) simp

lemma decode_terminating:
  assumes "read_code (run_codes black) [] r = Inr ((k, True), r')"
  shows "decode_run_from run r black = Inr (run + k, r')"
  using assms by (subst decode_run_from.simps) simp

lemma decode_run_from_encoded:
  "reader_bits r = encode_run black n @ rest \<Longrightarrow>
   \<exists>r'. decode_run_from run r black = Inr (run + n, r') \<and> reader_bits r' = rest"
proof (induction n arbitrary: run r rule: less_induct)
  case (less n)
  consider "n < 64" | "64 \<le> n" "n < 2560" | "2560 \<le> n" by linarith
  then show ?case
  proof cases
    case 1
    then obtain r' where "read_code (run_codes black) [] r = Inr ((n, True), r')" "reader_bits r' = rest"
      using read_code_of [OF code_of_small [OF 1], of r black rest] less.prems
      by (auto simp: encode_run.simps [of _ n])
    then show ?thesis using decode_terminating by blast
  next
    case 2
    have k: "0 < n div 64" "n div 64 \<le> 40" using 2 by auto
    obtain r1 where r1: "read_code (run_codes black) [] r = Inr ((n div 64 * 64, False), r1)"
        "reader_bits r1 = bits_of black (n mod 64) True @ rest"
      using read_code_of [OF code_of_makeup [OF k], of r black "bits_of black (n mod 64) True @ rest"]
        less.prems 2
      by (auto simp: encode_run.simps [of _ n])
    obtain r2 where "read_code (run_codes black) [] r1 = Inr ((n mod 64, True), r2)"
        "reader_bits r2 = rest"
      using read_code_of [OF code_of_small r1(2)] by auto
    then show ?thesis using decode_makeup [OF r1(1)] decode_terminating by fastforce
  next
    case 3
    have "code_of black 2560 False \<noteq> None" using code_of_makeup [of 40 black] by simp
    moreover have "reader_bits r = bits_of black 2560 False @ encode_run black (n - 2560) @ rest"
      using less.prems 3 by (simp add: encode_run.simps [of _ n])
    ultimately obtain r1 where r1: "read_code (run_codes black) [] r = Inr ((2560, False), r1)"
        "reader_bits r1 = encode_run black (n - 2560) @ rest"
      using read_code_of by blast
    from less.IH [OF _ r1(2), of "run + 2560"] 3 decode_makeup [OF r1(1), of run]
    show ?thesis by auto
  qed
qed

lemma decode_run_encoded:
  assumes "reader_bits r = encode_run black n @ rest"
  obtains r' where "decode_run_code r black = Inr (n, r')" and "reader_bits r' = rest"
  using decode_run_from_encoded [OF assms, of 0] by (auto simp: decode_run_code_def)

subsection \<open>Lines\<close>

text \<open>A line is encoded run by run, white first. It is complete when its runs sum to the width and no
  run is left once the width is reached.\<close>

fun encode_line :: "bool \<Rightarrow> nat list \<Rightarrow> string" where
  "encode_line black [] = []"
| "encode_line black (n # ns) = encode_run black n @ encode_line (\<not> black) ns"

fun complete_runs :: "nat \<Rightarrow> nat list \<Rightarrow> bool" where
  "complete_runs width [] \<longleftrightarrow> width = 0"
| "complete_runs width (n # ns) \<longleftrightarrow> 0 < width \<and> n \<le> width \<and> complete_runs (width - n) ns"

lemma line_runs_encoded:
  "complete_runs (width - a) ns \<Longrightarrow> a \<le> width \<Longrightarrow> reader_bits r = encode_line black ns @ rest \<Longrightarrow>
   \<exists>r'. line_runs width cur a black r = Inr (cur @ ns, r') \<and> reader_bits r' = rest"
proof (induction ns arbitrary: cur a black r)
  case Nil
  then show ?case by (subst line_runs.simps) auto
next
  case (Cons n ns)
  obtain r1 where r1: "decode_run_code r black = Inr (n, r1)"
      "reader_bits r1 = encode_line (\<not> black) ns @ rest"
    using decode_run_encoded [of r black n "encode_line (\<not> black) ns @ rest"] Cons.prems(3) by auto
  have "a < width" "n \<le> width - a" "complete_runs (width - (a + n)) ns" "a + n \<le> width"
    using Cons.prems(1,2) by auto
  then show ?case
    using Cons.IH [of "a + n" r1 "\<not> black" "cur @ [n]"] r1
    by (subst line_runs.simps) (auto simp: Let_def min_def)
qed

lemma decode_1d_line_encoded:
  assumes "complete_runs width ns" and "reader_bits r = encode_line False ns @ rest"
  obtains r' where "decode_1d_line r width = Inr (ns @ [0], r')" and "reader_bits r' = rest"
  using line_runs_encoded [of width 0 ns r False rest "[]"] assms
  by (auto simp: decode_1d_line_def append_reference_tail_def)

subsection \<open>Images\<close>

lemma starts_with_at_bits:
  "map (\<lambda>i. bit_char (bit_at r i)) [off..<end_bit r] = cs @ rest \<Longrightarrow> starts_with_at r off cs"
proof (induction cs arbitrary: off)
  case (Cons c cs)
  have less: "off < end_bit r" using Cons.prems by (cases "off < end_bit r") simp_all
  then have split: "[off..<end_bit r] = off # [Suc off..<end_bit r]" by (rule upt_conv_Cons)
  have "bit_char (bit_at r off) = c" using Cons.prems by (simp add: split)
  then have "bit_at r off = (c = CHR ''1'')" by (rule bit_char_inj)
  then show ?case using less Cons.IH [of "Suc off"] Cons.prems by (simp add: split)
qed simp

lemma skip_bits_bits:
  assumes "reader_bits r = cs @ rest"
  shows "reader_bits (skip_bits r (length cs)) = rest"
proof -
  have "length (reader_bits r) = end_bit r - bit_offset r" by (simp add: reader_bits_def)
  then have len: "length cs + length rest = end_bit r - bit_offset r" using assms by simp
  have "rest = drop (length cs) (reader_bits r)" using assms by simp
  also have "\<dots> = map (\<lambda>i. bit_char (bit_at r i)) [bit_offset r + length cs..<end_bit r]"
    by (simp add: reader_bits_def drop_map)
  finally have rest: "rest = map (\<lambda>i. bit_char (bit_at r i)) [bit_offset r + length cs..<end_bit r]" .
  show ?thesis
  proof (cases "bit_offset r + length cs \<le> end_bit r")
    case True
    then show ?thesis by (simp add: rest reader_bits_def skip_bits_def bit_at_def)
  next
    case False
    then show ?thesis using len by (simp add: rest reader_bits_def skip_bits_def)
  qed
qed

lemma sync_encoded:
  assumes "reader_bits r = eol_bits @ rest"
  shows "sync_mh_eol r y = Inr (skip_bits r 12)" and "reader_bits (skip_bits r 12) = rest"
proof -
  have "reader_starts_with r eol_bits"
    using starts_with_at_bits [of r "bit_offset r" eol_bits rest] assms
    unfolding reader_starts_with_def reader_bits_def by simp
  then show "sync_mh_eol r y = Inr (skip_bits r 12)" by (simp add: sync_mh_eol_def)
  have "length eol_bits = 12" by (simp add: eol_bits_def)
  then show "reader_bits (skip_bits r 12) = rest" using skip_bits_bits [OF assms] by simp
qed

definition encode_rows :: "nat list list \<Rightarrow> string" where
  "encode_rows rows = concat (map (\<lambda>ns. eol_bits @ encode_line False ns) rows)"

lemma mh_lines_encoded:
  "length ys = length rows \<Longrightarrow> list_all (complete_runs width) rows \<Longrightarrow>
   reader_bits r = encode_rows rows @ rest \<Longrightarrow>
   mh_lines width ys img r =
     Inr (fold (\<lambda>(y, ns) im. write_runs im y (ns @ [0])) (zip ys rows) img)"
proof (induction ys rows arbitrary: img r rule: list_induct2')
  case (4 y ys ns rows)
  have bits: "reader_bits r = eol_bits @ encode_line False ns @ encode_rows rows @ rest"
    using "4.prems"(3) by (simp add: encode_rows_def)
  note sync = sync_encoded [OF bits]
  obtain r2 where "decode_1d_line (skip_bits r 12) width = Inr (ns @ [0], r2)"
      "reader_bits r2 = encode_rows rows @ rest"
    using decode_1d_line_encoded [OF _ sync(2)] "4.prems"(2) by auto
  then show ?case using sync(1) "4.IH" [of r2] "4.prems" by (simp add: on_line_def)
qed simp_all

lemma black_at_tail: "black_at black (ns @ [0]) x = black_at black ns x"
  by (induction black ns x rule: black_at.induct) auto

lemma fold_rows_pixels:
  assumes "x < width" and "y' < height"
  shows "length rows = n \<Longrightarrow> m + n \<le> height \<Longrightarrow> image_sized width height img \<Longrightarrow>
    pixel (fold (\<lambda>(y, ns) im. write_runs im y (ns @ [0])) (zip [m..<m + n] rows) img) (y' * width + x) =
      (if m \<le> y' \<and> y' < m + n \<and> black_at False (rows ! (y' - m)) x then [0, 0, 0, 255]
       else pixel img (y' * width + x))"
proof (induction rows arbitrary: m n img)
  case (Cons ns rows)
  then have n: "n = Suc (length rows)" by simp
  have upt: "[m..<Suc (m + length rows)] = m # [Suc m..<Suc (m + length rows)]"
    by (rule upt_conv_Cons) simp
  have "pixel (write_runs img m (ns @ [0])) (y' * width + x) =
      (if y' = m \<and> black_at False ns x then [0, 0, 0, 255] else pixel img (y' * width + x))"
    using write_runs_pixels(2) [OF Cons.prems(3) _ assms, of m "ns @ [0]"] Cons.prems(2)
    by (simp add: black_at_tail n)
  moreover have "y' - m = Suc (y' - Suc m)" if "Suc m \<le> y'" using that by simp
  ultimately show ?case
    using Cons.IH [of "length rows" "Suc m" "write_runs img m (ns @ [0])"] Cons.prems
    by (auto simp: upt n nth_Cons' simp del: upt_Suc)
qed auto

lemma image_sized_fold_rows:
  "image_sized width height img \<Longrightarrow>
   image_sized width height (fold (\<lambda>(y, ns) im. write_runs im y (ns @ [0])) rows img)"
  by (induction rows arbitrary: img) auto

text \<open>The bits of a buffer, in the order the reader takes them.\<close>

definition bits_of_bytes :: "bytes \<Rightarrow> string" where
  "bits_of_bytes bs = reader_bits (new_reader bs 0 (length bs))"

definition shows_rows :: "nat \<Rightarrow> nat list list \<Rightarrow> rgba_image \<Rightarrow> bool" where
  "shows_rows width rows img \<longleftrightarrow>
     image_sized width (length rows) img \<and>
     list_all (\<lambda>y. list_all (\<lambda>x. pixel img (y * width + x) =
        (if black_at False (rows ! y) x then [0, 0, 0, 255] else [255, 255, 255, 255])) [0..<width])
       [0..<length rows]"

lemma blank_pixel:
  assumes "k < width * height"
  shows "pixel (blank_image width height) k = [255, 255, 255, 255]"
  using image_sized_room [OF blank_image_ok(1) assms]
  by (simp add: pixel_nth) (simp add: blank_image_def)

lemma decode_mh_encoded:
  assumes "list_all (complete_runs width) rows" and "bits_of_bytes compressed = encode_rows rows @ rest"
  shows "\<exists>img. decode_mh_image compressed width (length rows) = Inr img \<and> shows_rows width rows img"
proof -
  let ?img = "fold (\<lambda>(y, ns) im. write_runs im y (ns @ [0])) (zip [0..<length rows] rows)
      (blank_image width (length rows))"
  have "decode_mh_image compressed width (length rows) = Inr ?img"
    using mh_lines_encoded [of "[0..<length rows]" rows width _ rest] assms
    by (simp add: decode_mh_image_def bits_of_bytes_def)
  moreover have "pixel ?img (y * width + x) =
      (if black_at False (rows ! y) x then [0, 0, 0, 255] else [255, 255, 255, 255])"
    if "x < width" "y < length rows" for x y
    using fold_rows_pixels [OF that, of rows "length rows" 0, OF refl _ blank_image_ok(1)]
      blank_pixel [OF row_bound [OF that]] that by simp
  then have "shows_rows width rows ?img"
    by (auto simp: shows_rows_def list_all_iff blank_image_ok image_sized_fold_rows)
  ultimately show ?thesis by blast
qed

subsection \<open>Properties\<close>


text \<open>C29: an image whose rows are encoded as end-of-line code and complete runs is decoded by
  \<open>decode_mh_image\<close> to the pixels those runs describe.\<close>

theorem mh_image_round_trip:
  assumes "list_all (complete_runs width) rows" and "bits_of_bytes compressed = encode_rows rows @ rest"
  shows "\<exists>img. decode_mh_image compressed width (length rows) = Inr img \<and> shows_rows width rows img"
  using assms by (rule decode_mh_encoded)

text \<open>Two rows of three pixels: two white and a black one, then all black.\<close>

theorem mh_image_round_trip_witness:
  "\<exists>img. decode_mh_image [0x00, 0x17, 0x40, 0x02, 0x6B, 0x00] 3 2 = Inr img \<and>
     shows_rows 3 [[2, 1], [0, 3]] img"
proof -
  have "list_all (complete_runs 3) [[2, 1], [0, 3]]" by code_simp
  moreover have "bits_of_bytes [0x00, 0x17, 0x40, 0x02, 0x6B, 0x00] =
      encode_rows [[2, 1], [0, 3]] @ drop 41 (bits_of_bytes [0x00, 0x17, 0x40, 0x02, 0x6B, 0x00])"
    by code_simp
  ultimately show ?thesis using mh_image_round_trip [of 3 "[[2, 1], [0, 3]]"]
    by (simp only: list.size) (simp add: numeral_2_eq_2)
qed

end
