(* ===== verification/Resources.thy ===== *)
theory Resources
  imports Container Strings Ebcdic Mmr_T6
begin

section \<open>Resources (\<open>src/core/resources.cpp\<close>, \<open>src/img/display_size.cpp\<close>)\<close>

text \<open>
  The resource directory behind the first page, in its three layouts, and the display size of a stored
  image. The 64-bit offsets computed from a page number or a count cannot wrap, so they are \<open>nat\<close> here;
  the product of an entry's 32-bit index and its size is a 32-bit product and is written as one.
\<close>

subsection \<open>Entries\<close>

datatype resource_layout = Legacy_v12 | Legacy_v13 | Converted_v14 | Unknown_layout

record resource_entry =
  res_id :: string
  res_name :: string
  stored_format :: string
  res_kind :: string
  description :: string
  res_offset :: u64
  res_size :: u64
  description_offset :: u64
  description_size :: u64
  res_layout :: resource_layout
  display_width :: u32
  display_height :: u32

definition empty_resource :: resource_entry where
  "empty_resource =
     \<lparr> res_id = [], res_name = [], stored_format = [], res_kind = [], description = [],
       res_offset = 0, res_size = 0, description_offset = 0, description_size = 0,
       res_layout = Unknown_layout, display_width = 0, display_height = 0 \<rparr>"

definition resource_layout_name :: "resource_layout \<Rightarrow> string" where
  "resource_layout_name layout =
     (case layout of Legacy_v12 \<Rightarrow> ''legacy_v12'' | Legacy_v13 \<Rightarrow> ''legacy_v13''
        | Converted_v14 \<Rightarrow> ''converted_v14'' | Unknown_layout \<Rightarrow> ''unknown'')"

definition text_range_error :: string where
  "text_range_error = ''unexpected end of BOO file while reading text''"

definition decode_asset_id :: "bytes \<Rightarrow> nat \<Rightarrow> string result" where
  "decode_asset_id bs off =
     and_then (decode_ascii Cp037 bs off 8 text_range_error) (\<lambda>s.
     Inr (filter (\<lambda>c. c \<noteq> CHR ''?'') (trim_right_spaces s)))"

definition legacy_kind_name :: "byte \<Rightarrow> string" where
  "legacy_kind_name kind = [decode_ascii_byte Cp037 kind]"

definition stored_format_for_legacy_kind :: "byte \<Rightarrow> string" where
  "stored_format_for_legacy_kind kind =
     (let c = decode_ascii_byte Cp037 kind in
      if c = CHR ''G'' then ''legacy-gdf''
      else if c = CHR ''I'' then ''legacy-mmr''
      else if c = CHR ''M'' then ''legacy-met''
      else ''legacy-unknown'')"

definition sanitize_resource_filename :: "string \<Rightarrow> string" where
  "sanitize_resource_filename ident =
     (if ident = [] then ''resource''
      else map (\<lambda>ch. if \<not> isalnum ch \<and> ch \<noteq> CHR ''-'' \<and> ch \<noteq> CHR ''_'' then CHR ''_'' else ch) ident)"

definition extension_for_resource :: "resource_entry \<Rightarrow> string" where
  "extension_for_resource resource =
     (let lower_format = ascii_lower (stored_format resource) in
      if lower_format = ''image/jpeg'' \<or> lower_format = ''image/jpg'' then ''.jpg''
      else if lower_format = ''image/png'' then ''.png''
      else if lower_format = ''image/tiff'' \<or> lower_format = ''image/tif'' then ''.tif''
      else if lower_format = ''image/gif'' then ''.gif''
      else if lower_format = ''image/cgm'' then ''.cgm''
      else ''.bin'')"

definition char_of_byte :: "byte \<Rightarrow> char" where
  "char_of_byte b = char_of (unat b)"

text \<open>The odd-numbered bytes of a description that starts with a zero byte.\<close>

fun every_other :: "bytes \<Rightarrow> bytes" where
  "every_other (a # b # bs) = b # every_other bs"
| "every_other _ = []"

definition decode_version14_description :: "bytes \<Rightarrow> u64 \<Rightarrow> u64 \<Rightarrow> string" where
  "decode_version14_description bs off sz =
     (if \<not> byte_range_is_valid bs off sz \<or> sz = 0 then []
      else
        let stored = slice bs (unat off) (unat off + unat sz)
        in trim_ascii (map char_of_byte
             (if byte_at bs (unat off) = 0 \<and> unat sz \<ge> 2 then every_other stored else stored)))"

fun description_type_after :: "string \<Rightarrow> string list \<Rightarrow> string" where
  "description_type_after lower [] = []"
| "description_type_after lower (marker # markers) =
     (case find_from lower marker 0 of
        None \<Rightarrow> description_type_after lower markers
      | Some found \<Rightarrow>
          let value_begin = found + length marker in
          (case find_from lower [last marker] value_begin of
             Some value_end \<Rightarrow>
               if value_end > value_begin
               then take (value_end - value_begin) (drop value_begin lower)
               else description_type_after lower markers
           | None \<Rightarrow> description_type_after lower markers))"

definition extract_description_type :: "string \<Rightarrow> string" where
  "extract_description_type descr =
     description_type_after (ascii_lower descr)
       [''type='' @ [CHR 0x22], ''type='' @ [CHR 0x27]]"

subsection \<open>The tables\<close>

definition entry_at :: "nat \<Rightarrow> nat \<Rightarrow> nat" where
  "entry_at table_start index = table_start + unat (of_nat index * 16 :: u32)"

definition directory_base :: "boo_directory \<Rightarrow> nat" where
  "directory_base dir = unat (page_number dir) * page_bytes"

definition legacy_entry ::
  "bytes \<Rightarrow> nat \<Rightarrow> resource_layout \<Rightarrow> nat \<Rightarrow> resource_entry option result" where
  "legacy_entry bs base layout entry =
     and_then (decode_asset_id bs entry) (\<lambda>ident.
     let kind = byte_at bs (entry + 8) in
     and_then (read_be24 bs (entry + 9)) (\<lambda>sz.
     and_then (read_be32 bs (entry + 12)) (\<lambda>off.
     Inr (if ident = [] \<or> sz = 0 \<or> \<not> byte_range_is_valid bs (ucast off) (ucast sz) \<or>
             unat off + unat sz > base
          then None
          else Some (empty_resource\<lparr>
            res_id := ident,
            res_name := sanitize_resource_filename ident @ ''.bin'',
            stored_format := stored_format_for_legacy_kind kind,
            res_kind := legacy_kind_name kind,
            res_offset := ucast off,
            res_size := ucast sz,
            res_layout := layout \<rparr>)))))"

text \<open>The loop over the entries of a table; an entry that is not taken is skipped.\<close>

fun collect_entries :: "(nat \<Rightarrow> 'a option result) \<Rightarrow> nat list \<Rightarrow> 'a list result" where
  "collect_entries entry [] = Inr []"
| "collect_entries entry (i # is) =
     and_then (entry i) (\<lambda>taken.
     and_then (collect_entries entry is) (\<lambda>rest.
     Inr (case taken of None \<Rightarrow> rest | Some r \<Rightarrow> r # rest)))"

definition build_legacy_resources ::
  "bytes \<Rightarrow> boo_directory \<Rightarrow> resource_layout \<Rightarrow> u32 \<Rightarrow> resource_entry list result" where
  "build_legacy_resources bs dir layout count =
     (let base = directory_base dir;
          table_start = 0x118 + (if layout = Legacy_v13 then unat count * 16 else 0);
          table_size = unat count * 16
      in if count = 0 \<or> table_start \<ge> base \<or> table_size > base - table_start \<or>
            \<not> byte_range_is_valid bs (of_nat table_start) (of_nat table_size)
         then Inr []
         else collect_entries (\<lambda>index. legacy_entry bs base layout (entry_at table_start index))
                [0..<unat count])"

definition version14_entry :: "bytes \<Rightarrow> nat \<Rightarrow> nat \<Rightarrow> resource_entry option result" where
  "version14_entry bs description_entry data_entry =
     and_then (decode_asset_id bs data_entry) (\<lambda>data_id.
     and_then (if data_id = [] then decode_asset_id bs description_entry else Inr data_id) (\<lambda>ident.
     and_then (read_be32 bs (description_entry + 8)) (\<lambda>descr_size.
     and_then (read_be32 bs (description_entry + 12)) (\<lambda>descr_offset.
     and_then (read_be32 bs (data_entry + 8)) (\<lambda>data_size.
     and_then (read_be32 bs (data_entry + 12)) (\<lambda>data_offset.
     Inr (if ident = [] \<or> data_size = 0 \<or>
             \<not> byte_range_is_valid bs (ucast data_offset) (ucast data_size)
          then None
          else
            let descr =
                  (if descr_size \<noteq> 0 \<and> byte_range_is_valid bs (ucast descr_offset) (ucast descr_size)
                   then decode_version14_description bs (ucast descr_offset) (ucast descr_size)
                   else []);
                stated = extract_description_type descr;
                resource = empty_resource\<lparr>
                  res_id := ident,
                  description_offset := ucast descr_offset,
                  description_size := ucast descr_size,
                  description := descr,
                  stored_format := (if stated = [] then ''object'' else stated),
                  res_offset := ucast data_offset,
                  res_size := ucast data_size,
                  res_layout := Converted_v14 \<rparr>
            in Some (resource\<lparr>
                 res_name := sanitize_resource_filename ident @ extension_for_resource resource \<rparr>))))))))"

definition build_version14_resources ::
  "bytes \<Rightarrow> boo_directory \<Rightarrow> u32 \<Rightarrow> resource_entry list result" where
  "build_version14_resources bs dir count =
     (let base = directory_base dir;
          group_size = unat count * 16;
          data_group = 0x118 + group_size;
          description_group = 0x118 + group_size * 2
      in if count = 0 \<or> data_group \<ge> base \<or> group_size > base - data_group \<or>
            \<not> byte_range_is_valid bs (of_nat description_group) (of_nat group_size) \<or>
            \<not> byte_range_is_valid bs (of_nat data_group) (of_nat group_size)
         then Inr []
         else collect_entries
                (\<lambda>index. version14_entry bs (entry_at description_group index) (entry_at data_group index))
                [0..<unat count])"

definition build_resources :: "bytes \<Rightarrow> boo_directory \<Rightarrow> resource_entry list result" where
  "build_resources bs dir =
     and_then (read_be32 bs 4) (\<lambda>count.
     let base = directory_base dir in
     if count = 0 \<or> base + 11 > length bs then Inr []
     else
       let version_major = byte_at bs (base + 9); version_minor = byte_at bs (base + 10) in
       if version_major = 1 \<and> version_minor = 0 then build_version14_resources bs dir count
       else if version_major = 1 \<and> version_minor = 3
       then build_legacy_resources bs dir Legacy_v13 count
       else build_legacy_resources bs dir Legacy_v12 count)"

subsection \<open>Display sizes\<close>

record image_size =
  size_width :: u32
  size_height :: u32

definition gdf_canvas_width :: u32 where "gdf_canvas_width = 1004"

definition gdf_canvas_height :: u32 where "gdf_canvas_height = 735"

definition mmr_source_pixels_per_inch :: u32 where "mmr_source_pixels_per_inch = 240"

definition mmr_display_pixels_per_inch :: u32 where "mmr_display_pixels_per_inch = 96"

definition be16_at :: "bytes \<Rightarrow> nat \<Rightarrow> u32" where
  "be16_at bs off = push_bit 8 (ucast (byte_at bs off)) OR ucast (byte_at bs (off + 1))"

definition le16_at :: "bytes \<Rightarrow> nat \<Rightarrow> u32" where
  "le16_at bs off = push_bit 8 (ucast (byte_at bs (off + 1))) OR ucast (byte_at bs off)"

definition be32_at :: "bytes \<Rightarrow> nat \<Rightarrow> u32" where
  "be32_at bs off = push_bit 16 (be16_at bs off) OR be16_at bs (off + 2)"

definition sized :: "u32 \<Rightarrow> u32 \<Rightarrow> image_size option" where
  "sized width height =
     (if \<not> decoded_image_dimensions_are_safe (unat width) (unat height) then None
      else Some \<lparr> size_width = width, size_height = height \<rparr>)"

definition display_scale :: "u32 \<Rightarrow> u32" where
  "display_scale pixels =
     max 1 (pixels * mmr_display_pixels_per_inch div mmr_source_pixels_per_inch)"

definition mmr_display_size :: "bytes \<Rightarrow> image_size option" where
  "mmr_display_size bs =
     (if length bs < 0x48 \<or> slice bs 0x2A (0x2A + 3) \<noteq> [0xD3, 0xA6, 0x7B] then None
      else
        let width = be16_at bs 0x42; height = be16_at bs 0x44
        in if width = 0 \<or> height = 0 then None
           else sized (display_scale width) (display_scale height))"

definition ascii_bytes :: "string \<Rightarrow> bytes" where
  "ascii_bytes s = map of_char s"

definition gif_size :: "bytes \<Rightarrow> image_size option" where
  "gif_size bs =
     (if length bs < 10 \<or>
         take 6 bs \<noteq> ascii_bytes ''GIF87a'' \<and> take 6 bs \<noteq> ascii_bytes ''GIF89a''
      then None else sized (le16_at bs 6) (le16_at bs 8))"

definition png_size :: "bytes \<Rightarrow> image_size option" where
  "png_size bs =
     (if length bs < 24 \<or> take 8 bs \<noteq> [0x89, 0x50, 0x4E, 0x47, 0x0D, 0x0A, 0x1A, 0x0A] \<or>
         slice bs 12 16 \<noteq> ascii_bytes ''IHDR''
      then None else sized (be32_at bs 16) (be32_at bs 20))"

text \<open>\<open>None\<close> for the bytes is the null pointer.\<close>

definition stored_image_display_size :: "resource_entry \<Rightarrow> bytes option \<Rightarrow> image_size option" where
  "stored_image_display_size resource stored =
     (case stored of
        None \<Rightarrow> None
      | Some bs \<Rightarrow>
          let format = ascii_lower (stored_format resource) in
          if format = ''legacy-mmr'' then mmr_display_size bs
          else if format = ''legacy-gdf'' then
            Some \<lparr> size_width = gdf_canvas_width, size_height = gdf_canvas_height \<rparr>
          else case gif_size bs of Some gif \<Rightarrow> Some gif | None \<Rightarrow> png_size bs)"

subsection \<open>Reads of a table that lies in the file\<close>

lemma decode_asset_id_Inr: "off + 8 \<le> length bs \<Longrightarrow> \<exists>s. decode_asset_id bs off = Inr s"
  by (simp add: decode_asset_id_def decode_ascii_def)

lemma entry_at_le: "entry_at t i \<le> t + i * 16"
proof -
  have "unat (of_nat i * 16 :: u32) \<le> unat (of_nat i :: u32) * 16"
    by (simp add: unat_word_ariths(2))
  also have "unat (of_nat i :: u32) \<le> i" by (simp add: unat_of_nat)
  finally show ?thesis by (simp add: entry_at_def)
qed

lemma collect_entries_Inr:
  "list_all (\<lambda>i. \<exists>taken. entry i = Inr taken \<and> (case taken of None \<Rightarrow> True | Some r \<Rightarrow> ok r)) is \<Longrightarrow>
   \<exists>rs. collect_entries entry is = Inr rs \<and> list_all ok rs"
proof (induction "is")
  case (Cons i "is")
  then obtain taken rest where "entry i = Inr taken" "case taken of None \<Rightarrow> True | Some r \<Rightarrow> ok r"
    "collect_entries entry is = Inr rest" "list_all ok rest" by auto
  then show ?case by (cases taken) auto
qed simp

text \<open>A name that stays in its directory: one extension behind a stem of letters, digits, hyphens and
  underscores.\<close>

definition file_extensions :: "string list" where
  "file_extensions = [''.bin'', ''.jpg'', ''.png'', ''.tif'', ''.gif'', ''.cgm'']"

definition plain_char :: "char \<Rightarrow> bool" where
  "plain_char c \<longleftrightarrow> isalnum c \<or> c = CHR ''-'' \<or> c = CHR ''_''"

definition safe_file_name :: "string \<Rightarrow> bool" where
  "safe_file_name name \<longleftrightarrow>
     takeWhile plain_char name \<noteq> [] \<and> dropWhile plain_char name \<in> set file_extensions"

definition resource_in_file :: "bytes \<Rightarrow> nat \<Rightarrow> resource_entry \<Rightarrow> bool" where
  "resource_in_file bs limit r \<longleftrightarrow>
     res_id r \<noteq> [] \<and> res_size r \<noteq> 0 \<and> safe_file_name (res_name r) \<and> stored_format r \<noteq> [] \<and>
     unat (res_offset r) + unat (res_size r) \<le> min limit (length bs)"

lemma sanitize_plain: "sanitize_resource_filename s \<noteq> [] \<and> list_all plain_char (sanitize_resource_filename s)"
proof -
  have "list_all plain_char ''resource''" by code_simp
  moreover have "plain_char (CHR ''_'')" by code_simp
  ultimately show ?thesis
    by (auto simp: sanitize_resource_filename_def list_all_iff plain_char_def)
qed

lemma safe_file_name_append:
  assumes "list_all plain_char stem" and "stem \<noteq> []" and "ext \<in> set file_extensions"
  shows "safe_file_name (stem @ ext)"
proof -
  have "\<not> plain_char (CHR ''.'')" by code_simp
  then have "takeWhile plain_char ext = [] \<and> dropWhile plain_char ext = ext"
    using assms(3) by (auto simp: file_extensions_def)
  then show ?thesis
    using assms by (auto simp: safe_file_name_def list_all_iff dropWhile_append2)
qed

lemma unat_ucast_64 [simp]: "unat (ucast (w :: u32) :: u64) = unat w"
proof -
  have "unat w < 2 ^ 64" using unsigned_less [of w, where 'a = nat] by (simp add: less_trans)
  then show ?thesis by (simp add: unsigned_ucast_eq take_bit_nat_eq_self)
qed

lemma ucast_64_zero [simp]: "(ucast (w :: u32) :: u64) = 0 \<longleftrightarrow> w = 0"
  by (metis unat_ucast_64 unat_eq_zero)

lemma legacy_entry_Inr:
  assumes "length bs < 2 ^ 64" and "entry + 16 \<le> length bs"
  shows "\<exists>taken. legacy_entry bs base layout entry = Inr taken \<and>
    (case taken of None \<Rightarrow> True | Some r \<Rightarrow> resource_in_file bs base r)"
proof -
  obtain ident sz off where "decode_asset_id bs entry = Inr ident"
    "read_be24 bs (entry + 9) = Inr sz" "read_be32 bs (entry + 12) = Inr off"
    using decode_asset_id_Inr [of entry bs] read_be24_Inr [of "entry + 9" bs]
      read_be32_Inr [of "entry + 12" bs] assms(2) by auto
  moreover have "safe_file_name (sanitize_resource_filename ident @ ''.bin'')"
    using sanitize_plain by (intro safe_file_name_append) (auto simp: file_extensions_def)
  moreover have "stored_format_for_legacy_kind k \<noteq> []" for k
    by (simp add: stored_format_for_legacy_kind_def Let_def)
  ultimately show ?thesis
    by (auto simp: legacy_entry_def Let_def empty_resource_def resource_in_file_def
        byte_range_unat [OF assms(1)])
qed

lemma extension_in: "extension_for_resource r \<in> set file_extensions"
  by (simp add: extension_for_resource_def file_extensions_def Let_def)

lemma version14_entry_Inr:
  assumes "length bs < 2 ^ 64" and "descr + 16 \<le> length bs" and "data + 16 \<le> length bs"
  shows "\<exists>taken. version14_entry bs descr data = Inr taken \<and>
    (case taken of None \<Rightarrow> True | Some r \<Rightarrow> resource_in_file bs (length bs) r)"
proof -
  obtain data_id descr_id ds dof s off where "decode_asset_id bs data = Inr data_id"
    "decode_asset_id bs descr = Inr descr_id"
    "read_be32 bs (descr + 8) = Inr ds" "read_be32 bs (descr + 12) = Inr dof"
    "read_be32 bs (data + 8) = Inr s" "read_be32 bs (data + 12) = Inr off"
    using decode_asset_id_Inr [of data bs] decode_asset_id_Inr [of descr bs]
      read_be32_Inr [of "descr + 8" bs] read_be32_Inr [of "descr + 12" bs]
      read_be32_Inr [of "data + 8" bs] read_be32_Inr [of "data + 12" bs] assms(2,3) by auto
  moreover have "safe_file_name (sanitize_resource_filename x @ extension_for_resource r)" for x r
    using sanitize_plain extension_in by (intro safe_file_name_append) auto
  ultimately show ?thesis
    by (simp add: version14_entry_def Let_def empty_resource_def resource_in_file_def
        byte_range_unat [OF assms(1)])
qed

lemma unat_count_bound: "unat (count :: u32) * 16 < 2 ^ 36" "unat (count :: u32) * 32 < 2 ^ 37"
proof -
  have "unat count < 2 ^ 32" using unsigned_less [of count, where 'a = nat] by simp
  then show "unat count * 16 < 2 ^ 36" "unat count * 32 < 2 ^ 37" by simp_all
qed

lemma table_entry_inside:
  assumes "length bs < 2 ^ 64" and "byte_range_is_valid bs (of_nat t) (of_nat (unat (count :: u32) * 16))"
    and "t < 2 ^ 64" and "i < unat count"
  shows "entry_at t i + 16 \<le> length bs"
proof -
  have exact: "unat (of_nat n :: u64) = n" if "n < 2 ^ 64" for n
    using that by (simp add: unsigned_of_nat take_bit_nat_eq_self)
  have "unat count * 16 < 2 ^ 64" using unat_count_bound(1) [of count] by simp
  then have "t + unat count * 16 \<le> length bs"
    using assms(2) unfolding byte_range_unat [OF assms(1)] by (simp only: exact [OF assms(3)] exact)
  moreover have "i * 16 + 16 \<le> unat count * 16" using assms(4) by simp
  ultimately show ?thesis using entry_at_le [of t i] by linarith
qed

lemma build_legacy_Inr:
  assumes "length bs < 2 ^ 64"
  shows "\<exists>rs. build_legacy_resources bs dir layout count = Inr rs \<and>
    list_all (resource_in_file bs (directory_base dir)) rs"
proof -
  let ?t = "0x118 + (if layout = Legacy_v13 then unat count * 16 else 0)"
  let ?skip = "count = 0 \<or> ?t \<ge> directory_base dir \<or> unat count * 16 > directory_base dir - ?t \<or>
     \<not> byte_range_is_valid bs (of_nat ?t) (of_nat (unat count * 16))"
  show ?thesis
  proof (cases ?skip)
    case True
    then show ?thesis by (simp only: build_legacy_resources_def Let_def if_True) simp
  next
    case False
    have t: "?t < 2 ^ 64" using unat_count_bound(1) [of count] by simp
    have "entry_at ?t i + 16 \<le> length bs" if "i < unat count" for i
      using table_entry_inside [OF assms _ t that] False by blast
    then have "list_all (\<lambda>i. \<exists>taken. legacy_entry bs (directory_base dir) layout (entry_at ?t i) = Inr taken \<and>
        (case taken of None \<Rightarrow> True | Some r \<Rightarrow> resource_in_file bs (directory_base dir) r))
        [0..<unat count]"
      using legacy_entry_Inr [OF assms] by (simp add: list_all_iff)
    from collect_entries_Inr [OF this] False show ?thesis
      by (simp only: build_legacy_resources_def Let_def if_False)
  qed
qed

lemma build_version14_Inr:
  assumes "length bs < 2 ^ 64"
  shows "\<exists>rs. build_version14_resources bs dir count = Inr rs \<and>
    list_all (resource_in_file bs (length bs)) rs"
proof -
  let ?d = "0x118 + unat count * 16"
  let ?e = "0x118 + unat count * 16 * 2"
  let ?skip = "count = 0 \<or> ?d \<ge> directory_base dir \<or> unat count * 16 > directory_base dir - ?d \<or>
     \<not> byte_range_is_valid bs (of_nat ?e) (of_nat (unat count * 16)) \<or>
     \<not> byte_range_is_valid bs (of_nat ?d) (of_nat (unat count * 16))"
  show ?thesis
  proof (cases ?skip)
    case True
    then show ?thesis by (simp only: build_version14_resources_def Let_def if_True) simp
  next
    case False
    have t: "?d < 2 ^ 64" "?e < 2 ^ 64" using unat_count_bound [of count] by simp_all
    have "entry_at ?e i + 16 \<le> length bs" "entry_at ?d i + 16 \<le> length bs" if "i < unat count" for i
      using table_entry_inside [OF assms _ t(2) that] table_entry_inside [OF assms _ t(1) that] False
      by blast+
    then have "list_all (\<lambda>i. \<exists>taken. version14_entry bs (entry_at ?e i) (entry_at ?d i) = Inr taken \<and>
        (case taken of None \<Rightarrow> True | Some r \<Rightarrow> resource_in_file bs (length bs) r)) [0..<unat count]"
      using version14_entry_Inr [OF assms] by (simp add: list_all_iff)
    from collect_entries_Inr [OF this] False show ?thesis
      by (simp only: build_version14_resources_def Let_def if_False)
  qed
qed

lemma resource_in_file_mono:
  "list_all (resource_in_file bs m) rs \<Longrightarrow> list_all (resource_in_file bs (length bs)) rs"
  by (auto simp: list_all_iff resource_in_file_def)

text \<open>C40: Reading the resource directory of a file throws only when the file ends before its resource
  count. Every resource it lists has an identifier, a stored format and a file name that cannot leave its
  directory, and its bytes lie in the file.\<close>

theorem resources_lie_in_file:
  assumes "length bs < 2 ^ 64"
  shows "(case build_resources bs dir of
      Inl _ \<Rightarrow> length bs < 8
    | Inr rs \<Rightarrow> 8 \<le> length bs \<and> list_all (resource_in_file bs (length bs)) rs)"
proof (cases "8 \<le> length bs")
  case False
  then show ?thesis by (simp add: build_resources_def be32.read_eq)
next
  case True
  then obtain count where c: "read_be32 bs 4 = Inr count" using read_be32_Inr [of 4 bs] by auto
  obtain rs12 rs13 rs14 where
    "build_legacy_resources bs dir Legacy_v12 count = Inr rs12"
    "list_all (resource_in_file bs (length bs)) rs12"
    "build_legacy_resources bs dir Legacy_v13 count = Inr rs13"
    "list_all (resource_in_file bs (length bs)) rs13"
    "build_version14_resources bs dir count = Inr rs14"
    "list_all (resource_in_file bs (length bs)) rs14"
    using build_legacy_Inr [OF assms] build_version14_Inr [OF assms] resource_in_file_mono by metis
  then show ?thesis using True c by (simp add: build_resources_def Let_def)
qed

theorem resources_lie_in_file_witness:
  "(case build_resources (replicate 10 0) example_directory of
      Inl _ \<Rightarrow> False
    | Inr rs \<Rightarrow> list_all (resource_in_file (replicate 10 0) 10) rs)"
  using resources_lie_in_file [of "replicate 10 0" example_directory] by (simp split: sum.splits)

subsection \<open>Display sizes\<close>

lemma unat_be16_at [simp]:
  "unat (be16_at bs off) = unat (byte_at bs off) * 256 + unat (byte_at bs (off + 1))"
  unfolding be16_at_def by (subst unat_high_or) auto

lemma unat_display_scale:
  assumes "unat pixels < 65536"
  shows "unat (display_scale pixels) = max 1 (unat pixels * 2 div 5)"
proof -
  have "unat (pixels * 96) = unat pixels * 96"
    using assms by (simp add: unat_word_ariths(2))
  then have "unat (pixels * 96 div 240) = unat pixels * 2 div 5"
    by (simp add: unat_div)
  then show ?thesis
    by (simp add: display_scale_def mmr_display_pixels_per_inch_def mmr_source_pixels_per_inch_def
        max_def word_le_nat_alt)
qed

text \<open>The display size read from an MMR header is two fifths of the stored width and height, each at
  least one pixel: the 32-bit product with 96 never wraps, and the size is within the decoder's limit.\<close>

lemma mmr_display_size_exact:
  assumes "mmr_display_size bs = Some sz"
  shows "unat (size_width sz) = max 1 (be_value (slice bs 0x42 0x44) * 2 div 5) \<and>
    unat (size_height sz) = max 1 (be_value (slice bs 0x44 0x46) * 2 div 5) \<and>
    unat (size_width sz) * unat (size_height sz) \<le> max_decoded_image_pixels"
proof -
  have len: "length bs \<ge> 0x48"
    and safe: "decoded_image_dimensions_are_safe (unat (display_scale (be16_at bs 0x42)))
      (unat (display_scale (be16_at bs 0x44)))"
    and sz: "size_width sz = display_scale (be16_at bs 0x42)"
      "size_height sz = display_scale (be16_at bs 0x44)"
    using assms by (auto simp: mmr_display_size_def sized_def Let_def split: if_splits)
  have field: "unat (be16_at bs off) = be_value (slice bs off (off + 2)) \<and>
      be_value (slice bs off (off + 2)) < 65536" if "off + 2 \<le> length bs" for off
    using that be_value_field [OF that]
    by (simp add: be_value_def slice_bytes byte_at_def del: add_2_eq_Suc')
  have w: "unat (be16_at bs 0x42) = be_value (slice bs 0x42 0x44)" "unat (be16_at bs 0x42) < 65536"
    using field [of "0x42"] len by (simp_all del: unat_be16_at)
  have h: "unat (be16_at bs 0x44) = be_value (slice bs 0x44 0x46)" "unat (be16_at bs 0x44) < 65536"
    using field [of "0x44"] len by (simp_all del: unat_be16_at)
  show ?thesis
    using safe unat_display_scale [OF w(2)] unat_display_scale [OF h(2)]
    by (simp add: decoded_image_dimensions_are_safe_def sz w(1) h(1) del: unat_be16_at)
qed

end
