(* ===== verification/Json.thy ===== *)
theory Json
  imports Prelude "HOL-Library.Char_ord" "HOL-Library.List_Lexorder"
begin

section \<open>JSON values (\<open>apache/machine/json.cpp\<close>)\<close>

text \<open>
  The strict JSON reader and the writer of the machine interface. The reader's position is its offset
  \<open>at_\<close> with the input from there on, so \<open>input_[at_]\<close> is the head of that list. An exception carries
  the offset it is thrown at. \<open>std::map\<close> is the list of its entries in key order, the order of
  \<open>std::string\<close> being the lexicographic order of unsigned bytes. \<open>depth\<close> counts down here: a value is
  read with the number of levels it may still use, \<open>max_depth + 1 - depth\<close>, and a container with the
  number of entries it may still take, \<open>max_container_entries - result.size()\<close>; zero is where the code
  compares for equality and throws.
\<close>

subsection \<open>Values\<close>

datatype json =
    Json_null
  | Json_bool bool
  | Json_number string
  | Json_string string
  | Json_array "json list"
  | Json_object "(string \<times> json) list"

record parse_options =
  max_depth :: nat
  max_string_bytes :: nat
  max_container_entries :: nat

definition default_options :: parse_options where
  "default_options =
     \<lparr> max_depth = 64, max_string_bytes = 1024 * 1024, max_container_entries = 100000 \<rparr>"

type_synonym cursor = "nat \<times> string"

definition fail :: "cursor \<Rightarrow> string \<Rightarrow> 'a result" where
  "fail cur message = Inl (JsonError (fst cur) message)"

fun map_emplace :: "string \<Rightarrow> 'v \<Rightarrow> (string \<times> 'v) list \<Rightarrow> (string \<times> 'v) list option" where
  "map_emplace k v [] = Some [(k, v)]"
| "map_emplace k v ((k', v') # m) =
     (if k = k' then None
      else if k < k' then Some ((k, v) # (k', v') # m)
      else map_option (\<lambda>m'. (k', v') # m') (map_emplace k v m))"

definition json_find :: "json \<Rightarrow> string \<Rightarrow> json option" where
  "json_find v key = (case v of Json_object members \<Rightarrow> map_of members key | _ \<Rightarrow> None)"

subsection \<open>Numbers\<close>

definition is_digit :: "char \<Rightarrow> bool" where
  "is_digit c \<longleftrightarrow> CHR ''0'' \<le> c \<and> c \<le> CHR ''9''"

definition head_is :: "(char \<Rightarrow> bool) \<Rightarrow> string \<Rightarrow> bool" where
  "head_is p s = (case s of [] \<Rightarrow> False | c # _ \<Rightarrow> p c)"

definition after_sign :: "(char \<Rightarrow> bool) \<Rightarrow> string \<Rightarrow> string" where
  "after_sign p s = (if head_is p s then tl s else s)"

definition after_integer :: "string \<Rightarrow> string option" where
  "after_integer s =
     (if s = [] then None
      else if hd s = CHR ''0'' then (if head_is is_digit (tl s) then None else Some (tl s))
      else if hd s < CHR ''1'' \<or> hd s > CHR ''9'' then None
      else Some (dropWhile is_digit s))"

definition after_fraction :: "string \<Rightarrow> string option" where
  "after_fraction s =
     (if head_is (\<lambda>c. c = CHR ''.'') s then
        if \<not> head_is is_digit (tl s) then None else Some (dropWhile is_digit (tl s))
      else Some s)"

definition after_exponent :: "string \<Rightarrow> string option" where
  "after_exponent s =
     (if head_is (\<lambda>c. c = CHR ''e'' \<or> c = CHR ''E'') s then
        let t = after_sign (\<lambda>c. c = CHR ''+'' \<or> c = CHR ''-'') (tl s)
        in if \<not> head_is is_digit t then None else Some (dropWhile is_digit t)
      else Some s)"

definition valid_number :: "string \<Rightarrow> bool" where
  "valid_number text =
     (case after_integer (after_sign (\<lambda>c. c = CHR ''-'') text) of
        None \<Rightarrow> False
      | Some s \<Rightarrow> (case after_fraction s of
          None \<Rightarrow> False
        | Some t \<Rightarrow> (case after_exponent t of None \<Rightarrow> False | Some u \<Rightarrow> u = [])))"

definition json_number :: "string \<Rightarrow> json result" where
  "json_number text =
     (if \<not> valid_number text then Inl (InvalidArgument ''invalid JSON number'')
      else Inr (Json_number text))"

subsection \<open>UTF-8\<close>

definition char_byte :: "char \<Rightarrow> nat" where
  "char_byte c = of_char c"

definition byte_char :: "nat \<Rightarrow> char" where
  "byte_char n = char_of n"

definition utf8_lead :: "nat \<Rightarrow> (nat \<times> nat \<times> nat) option" where
  "utf8_lead lead =
     (if lead \<ge> 0xc2 \<and> lead \<le> 0xdf then Some (2, lead AND 0x1f, 0x80)
      else if lead \<ge> 0xe0 \<and> lead \<le> 0xef then Some (3, lead AND 0x0f, 0x800)
      else if lead \<ge> 0xf0 \<and> lead \<le> 0xf4 then Some (4, lead AND 0x07, 0x10000)
      else None)"

fun utf8_continue :: "nat \<Rightarrow> string \<Rightarrow> nat option" where
  "utf8_continue codepoint [] = Some codepoint"
| "utf8_continue codepoint (c # cs) =
     (if (char_byte c AND 0xc0) \<noteq> 0x80 then None
      else utf8_continue (push_bit 6 codepoint OR (char_byte c AND 0x3f)) cs)"

definition utf8_length :: "string \<Rightarrow> nat" where
  "utf8_length s =
     (let lead = char_byte (hd s)
      in if lead < 0x80 then 1
         else case utf8_lead lead of
           None \<Rightarrow> 0
         | Some (len, start, minimum) \<Rightarrow>
             if len > length s then 0
             else case utf8_continue start (take (len - 1) (tl s)) of
               None \<Rightarrow> 0
             | Some codepoint \<Rightarrow>
                 if codepoint < minimum \<or> codepoint > 0x10ffff \<or>
                    codepoint \<ge> 0xd800 \<and> codepoint \<le> 0xdfff
                 then 0 else len)"

definition append_utf8 :: "nat \<Rightarrow> string" where
  "append_utf8 codepoint =
     (if codepoint \<le> 0x7f then [byte_char codepoint]
      else if codepoint \<le> 0x7ff then
        [byte_char (0xc0 OR drop_bit 6 codepoint), byte_char (0x80 OR (codepoint AND 0x3f))]
      else if codepoint \<le> 0xffff then
        [byte_char (0xe0 OR drop_bit 12 codepoint),
         byte_char (0x80 OR (drop_bit 6 codepoint AND 0x3f)),
         byte_char (0x80 OR (codepoint AND 0x3f))]
      else
        [byte_char (0xf0 OR drop_bit 18 codepoint),
         byte_char (0x80 OR (drop_bit 12 codepoint AND 0x3f)),
         byte_char (0x80 OR (drop_bit 6 codepoint AND 0x3f)),
         byte_char (0x80 OR (codepoint AND 0x3f))])"

subsection \<open>The reader's position\<close>

definition advance :: "nat \<Rightarrow> cursor \<Rightarrow> cursor" where
  "advance n cur = (fst cur + n, drop n (snd cur))"

definition is_space :: "char \<Rightarrow> bool" where
  "is_space c \<longleftrightarrow> c = CHR '' '' \<or> c = CHR 0x09 \<or> c = CHR 0x0A \<or> c = CHR 0x0D"

definition skip_space :: "cursor \<Rightarrow> cursor" where
  "skip_space cur = advance (length (takeWhile is_space (snd cur))) cur"

definition take_char :: "char \<Rightarrow> cursor \<Rightarrow> cursor option" where
  "take_char wanted cur =
     (if head_is (\<lambda>c. c = wanted) (snd cur) then Some (advance 1 cur) else None)"

definition take_word :: "string \<Rightarrow> cursor \<Rightarrow> cursor option" where
  "take_word wanted cur =
     (if take (length wanted) (snd cur) \<noteq> wanted then None else Some (advance (length wanted) cur))"

subsection \<open>Strings\<close>

definition hex_digit :: "char \<Rightarrow> nat option" where
  "hex_digit c =
     (if CHR ''0'' \<le> c \<and> c \<le> CHR ''9'' then Some (char_byte c - char_byte CHR ''0'')
      else if CHR ''a'' \<le> c \<and> c \<le> CHR ''f'' then Some (char_byte c - char_byte CHR ''a'' + 10)
      else if CHR ''A'' \<le> c \<and> c \<le> CHR ''F'' then Some (char_byte c - char_byte CHR ''A'' + 10)
      else None)"

fun hex_digits :: "nat \<Rightarrow> nat \<Rightarrow> cursor \<Rightarrow> (nat \<times> cursor) result" where
  "hex_digits 0 v cur = Inr (v, cur)"
| "hex_digits (Suc n) v cur =
     (case hex_digit (hd (snd cur)) of
        Some d \<Rightarrow> hex_digits n (push_bit 4 v OR d) (advance 1 cur)
      | None \<Rightarrow> fail (advance 1 cur) ''invalid Unicode escape'')"

definition hex_quad :: "cursor \<Rightarrow> (nat \<times> cursor) result" where
  "hex_quad cur =
     (if length (snd cur) < 4 then fail cur ''incomplete Unicode escape'' else hex_digits 4 0 cur)"

definition low_surrogate :: "nat \<Rightarrow> cursor \<Rightarrow> (string \<times> cursor) result" where
  "low_surrogate high cur =
     (case take_char (CHR 0x5C) cur of
        None \<Rightarrow> fail cur ''missing low surrogate''
      | Some cur1 \<Rightarrow>
          (case take_char (CHR ''u'') cur1 of
             None \<Rightarrow> fail cur1 ''missing low surrogate''
           | Some cur2 \<Rightarrow>
               and_then (hex_quad cur2) (\<lambda>(low, cur3).
               if low < 0xdc00 \<or> low > 0xdfff then fail cur3 ''invalid low surrogate''
               else Inr (append_utf8 (0x10000 + push_bit 10 (high - 0xd800) + (low - 0xdc00)), cur3))))"

definition unicode_escape :: "cursor \<Rightarrow> (string \<times> cursor) result" where
  "unicode_escape cur =
     and_then (hex_quad cur) (\<lambda>(codepoint, cur1).
     if codepoint \<ge> 0xd800 \<and> codepoint \<le> 0xdbff then low_surrogate codepoint cur1
     else if codepoint \<ge> 0xdc00 \<and> codepoint \<le> 0xdfff then fail cur1 ''unpaired low surrogate''
     else Inr (append_utf8 codepoint, cur1))"

definition short_escapes :: "(char \<times> char) list" where
  "short_escapes =
     [(CHR 0x22, CHR 0x22), (CHR 0x5C, CHR 0x5C), (CHR ''/'', CHR ''/''), (CHR ''b'', CHR 0x08),
      (CHR ''f'', CHR 0x0C), (CHR ''n'', CHR 0x0A), (CHR ''r'', CHR 0x0D), (CHR ''t'', CHR 0x09)]"

definition escape :: "cursor \<Rightarrow> (string \<times> cursor) result" where
  "escape cur =
     (if snd cur = [] then fail cur ''incomplete escape''
      else
        let escaped = hd (snd cur); cur1 = advance 1 cur
        in case map_of short_escapes escaped of
             Some c \<Rightarrow> Inr ([c], cur1)
           | None \<Rightarrow> if escaped = CHR ''u'' then unicode_escape cur1 else fail cur1 ''invalid escape'')"

text \<open>One round of the loop of \<open>string\<close>, at a byte that is not the closing quote: what it appends.\<close>

definition string_unit :: "cursor \<Rightarrow> (string \<times> cursor) result" where
  "string_unit cur =
     (let byte = char_byte (hd (snd cur))
      in if byte < 0x20 then fail cur ''unescaped control character''
         else if hd (snd cur) = CHR 0x5C then escape (advance 1 cur)
         else if byte < 0x80 then Inr ([hd (snd cur)], advance 1 cur)
         else
           let len = utf8_length (snd cur)
           in if len = 0 then fail cur ''invalid UTF-8''
              else Inr (take len (snd cur), advance len cur))"

lemma advance_left: "length (snd (advance n cur)) = length (snd cur) - n"
  by (simp add: advance_def)

lemma hex_digits_left:
  "hex_digits n v cur = Inr (v', cur') \<Longrightarrow> length (snd cur') \<le> length (snd cur)"
  by (induction n v cur rule: hex_digits.induct)
    (auto simp: fail_def advance_left split: option.splits)

lemma hex_quad_left: "hex_quad cur = Inr (v, cur') \<Longrightarrow> length (snd cur') \<le> length (snd cur)"
  by (auto simp: hex_quad_def fail_def dest: hex_digits_left split: if_splits)

lemma take_char_left: "take_char c cur = Some cur' \<Longrightarrow> length (snd cur') \<le> length (snd cur)"
  by (auto simp: take_char_def advance_left split: if_splits)

lemma escape_left: "escape cur = Inr (s, cur') \<Longrightarrow> length (snd cur') \<le> length (snd cur)"
proof -
  have low: "low_surrogate h c = Inr (s, cur') \<Longrightarrow> length (snd cur') \<le> length (snd c)" for h c
    by (auto simp: low_surrogate_def fail_def and_then_eq_Inr split: option.splits if_splits
        dest!: hex_quad_left take_char_left)
  have uni: "unicode_escape c = Inr (s, cur') \<Longrightarrow> length (snd cur') \<le> length (snd c)" for c
    by (auto simp: unicode_escape_def fail_def and_then_eq_Inr split: if_splits
        dest!: hex_quad_left low)
  assume "escape cur = Inr (s, cur')"
  then show ?thesis
    using uni [of "advance 1 cur"]
    by (auto simp: escape_def fail_def Let_def advance_left split: if_splits option.splits)
qed

lemma string_unit_left:
  assumes "string_unit cur = Inr (s, cur')" and "snd cur \<noteq> []"
  shows "length (snd cur') < length (snd cur)"
proof -
  obtain c cs where "snd cur = c # cs" using assms(2) by (cases "snd cur") auto
  then show ?thesis
    using assms escape_left [of "advance 1 cur" s cur']
    by (auto simp: string_unit_def fail_def Let_def advance_left split: if_splits)
qed

function string_loop :: "parse_options \<Rightarrow> string \<Rightarrow> cursor \<Rightarrow> (string \<times> cursor) result" where
  "string_loop opts result cur =
     (if snd cur = [] then fail cur ''unterminated string''
      else if hd (snd cur) = CHR 0x22 then Inr (result, advance 1 cur)
      else and_then (string_unit cur) (\<lambda>p.
           if length (result @ fst p) > max_string_bytes opts
           then fail (snd p) ''maximum string size exceeded''
           else string_loop opts (result @ fst p) (snd p)))"
  by pat_completeness auto
termination
proof (relation "measure (\<lambda>(_, _, cur). length (snd cur))")
  show "((opts, result @ fst p, snd p), (opts, result, cur)) \<in> measure (\<lambda>(_, _, cur). length (snd cur))"
    if "snd cur \<noteq> []" "string_unit cur = Inr p" for opts result cur p
    using that string_unit_left [of cur "fst p" "snd p"] by simp
qed simp

declare string_loop.simps [simp del]

definition json_text :: "parse_options \<Rightarrow> cursor \<Rightarrow> (string \<times> cursor) result" where
  "json_text opts cur =
     (case take_char (CHR 0x22) cur of
        None \<Rightarrow> fail cur ''expected string''
      | Some cur1 \<Rightarrow> string_loop opts [] cur1)"

subsection \<open>Numbers in the input\<close>

text \<open>Whether the input behind \<open>n\<close> characters of \<open>cur\<close> is at the end or starts with a digit is decided on
  the unread input; \<open>skip_digits\<close> is the loop over the digits.\<close>

definition skip_digits :: "cursor \<Rightarrow> cursor" where
  "skip_digits cur = advance (length (takeWhile is_digit (snd cur))) cur"

definition skip_if :: "(char \<Rightarrow> bool) \<Rightarrow> cursor \<Rightarrow> cursor" where
  "skip_if p cur = (if head_is p (snd cur) then advance 1 cur else cur)"

definition integer_part :: "cursor \<Rightarrow> cursor result" where
  "integer_part cur =
     (if head_is (\<lambda>c. c = CHR ''0'') (snd cur) then
        let cur1 = advance 1 cur
        in if head_is is_digit (snd cur1) then fail cur1 ''leading zero in number'' else Inr cur1
      else if snd cur = [] \<or> hd (snd cur) < CHR ''1'' \<or> hd (snd cur) > CHR ''9''
      then fail cur ''expected a value''
      else Inr (skip_digits cur))"

definition fraction_part :: "cursor \<Rightarrow> cursor result" where
  "fraction_part cur =
     (if head_is (\<lambda>c. c = CHR ''.'') (snd cur) then
        let cur1 = advance 1 cur
        in if snd cur1 = [] \<or> \<not> is_digit (hd (snd cur1)) then fail cur1 ''invalid fraction''
           else Inr (skip_digits cur1)
      else Inr cur)"

definition exponent_part :: "cursor \<Rightarrow> cursor result" where
  "exponent_part cur =
     (if head_is (\<lambda>c. c = CHR ''e'' \<or> c = CHR ''E'') (snd cur) then
        let cur1 = skip_if (\<lambda>c. c = CHR ''+'' \<or> c = CHR ''-'') (advance 1 cur)
        in if snd cur1 = [] \<or> \<not> is_digit (hd (snd cur1)) then fail cur1 ''invalid exponent''
           else Inr (skip_digits cur1)
      else Inr cur)"

definition number_text :: "cursor \<Rightarrow> (json \<times> cursor) result" where
  "number_text start =
     and_then (integer_part (skip_if (\<lambda>c. c = CHR ''-'') start)) (\<lambda>cur1.
     and_then (fraction_part cur1) (\<lambda>cur2.
     and_then (exponent_part cur2) (\<lambda>cur3.
     and_then (json_number (take (fst cur3 - fst start) (snd start))) (\<lambda>v. Inr (v, cur3)))))"

subsection \<open>Arrays, objects and values\<close>

text \<open>The loops over the entries of a container, given the reader of an entry. The first argument is
  the number of entries the container may still take.\<close>

fun array_loop ::
  "nat \<Rightarrow> (cursor \<Rightarrow> (json \<times> cursor) result) \<Rightarrow> json list \<Rightarrow> cursor \<Rightarrow> (json \<times> cursor) result" where
  "array_loop 0 entry result cur = fail cur ''maximum container entries exceeded''"
| "array_loop (Suc n) entry result cur =
     and_then (entry cur) (\<lambda>(v, cur1).
     let cur2 = skip_space cur1 in
     case take_char (CHR '']'') cur2 of
       Some cur3 \<Rightarrow> Inr (Json_array (result @ [v]), cur3)
     | None \<Rightarrow>
         (case take_char (CHR '','') cur2 of
            None \<Rightarrow> fail cur2 ''expected comma or closing bracket''
          | Some cur3 \<Rightarrow> array_loop n entry (result @ [v]) (skip_space cur3)))"

definition array_value ::
  "parse_options \<Rightarrow> (cursor \<Rightarrow> (json \<times> cursor) result) \<Rightarrow> cursor \<Rightarrow> (json \<times> cursor) result" where
  "array_value opts entry cur =
     (let cur1 = skip_space (advance 1 cur)
      in case take_char (CHR '']'') cur1 of
           Some cur2 \<Rightarrow> Inr (Json_array [], cur2)
         | None \<Rightarrow> array_loop (max_container_entries opts) entry [] cur1)"

definition object_member ::
  "parse_options \<Rightarrow> (cursor \<Rightarrow> (json \<times> cursor) result) \<Rightarrow> (string \<times> json) list \<Rightarrow> cursor \<Rightarrow>
   ((string \<times> json) list \<times> cursor) result" where
  "object_member opts entry result cur =
     (if snd cur = [] \<or> hd (snd cur) \<noteq> CHR 0x22 then fail cur ''expected object key''
      else and_then (json_text opts cur) (\<lambda>(key, cur1).
        let cur2 = skip_space cur1 in
        case take_char (CHR '':'') cur2 of
          None \<Rightarrow> fail cur2 ''expected colon''
        | Some cur3 \<Rightarrow>
            and_then (entry (skip_space cur3)) (\<lambda>(member, cur4).
            case map_emplace key member result of
              None \<Rightarrow> fail cur4 ''duplicate object key''
            | Some result' \<Rightarrow> Inr (result', cur4))))"

fun object_loop ::
  "nat \<Rightarrow> parse_options \<Rightarrow> (cursor \<Rightarrow> (json \<times> cursor) result) \<Rightarrow> (string \<times> json) list \<Rightarrow> cursor \<Rightarrow>
   (json \<times> cursor) result" where
  "object_loop 0 opts entry result cur = fail cur ''maximum container entries exceeded''"
| "object_loop (Suc n) opts entry result cur =
     and_then (object_member opts entry result cur) (\<lambda>(result', cur1).
     let cur2 = skip_space cur1 in
     case take_char (CHR ''}'') cur2 of
       Some cur3 \<Rightarrow> Inr (Json_object result', cur3)
     | None \<Rightarrow>
         (case take_char (CHR '','') cur2 of
            None \<Rightarrow> fail cur2 ''expected comma or closing brace''
          | Some cur3 \<Rightarrow> object_loop n opts entry result' (skip_space cur3)))"

definition object_value ::
  "parse_options \<Rightarrow> (cursor \<Rightarrow> (json \<times> cursor) result) \<Rightarrow> cursor \<Rightarrow> (json \<times> cursor) result" where
  "object_value opts entry cur =
     (let cur1 = skip_space (advance 1 cur)
      in case take_char (CHR ''}'') cur1 of
           Some cur2 \<Rightarrow> Inr (Json_object [], cur2)
         | None \<Rightarrow> object_loop (max_container_entries opts) opts entry [] cur1)"

definition literal :: "string \<Rightarrow> json \<Rightarrow> cursor \<Rightarrow> (json \<times> cursor) result" where
  "literal wanted v cur =
     (case take_word wanted cur of
        None \<Rightarrow> fail cur ''invalid literal''
      | Some cur1 \<Rightarrow> Inr (v, cur1))"

fun json_value :: "parse_options \<Rightarrow> nat \<Rightarrow> cursor \<Rightarrow> (json \<times> cursor) result" where
  "json_value opts 0 cur = fail cur ''maximum nesting depth exceeded''"
| "json_value opts (Suc levels) cur =
     (if snd cur = [] then fail cur ''expected a value''
      else
        let c = hd (snd cur) in
        if c = CHR ''n'' then literal ''null'' Json_null cur
        else if c = CHR ''t'' then literal ''true'' (Json_bool True) cur
        else if c = CHR ''f'' then literal ''false'' (Json_bool False) cur
        else if c = CHR 0x22 then
          and_then (json_text opts cur) (\<lambda>(s, cur1). Inr (Json_string s, cur1))
        else if c = CHR ''['' then array_value opts (json_value opts levels) cur
        else if c = CHR ''{'' then object_value opts (json_value opts levels) cur
        else number_text cur)"

definition parse_json :: "string \<Rightarrow> parse_options \<Rightarrow> json result" where
  "parse_json input opts =
     and_then (json_value opts (max_depth opts) (skip_space (0, input))) (\<lambda>(v, cur1).
     let cur2 = skip_space cur1
     in if snd cur2 \<noteq> [] then fail cur2 ''trailing data'' else Inr v)"

subsection \<open>Writing\<close>

definition hex_char :: "nat \<Rightarrow> char" where
  "hex_char n = (if n < 10 then byte_char (n + 48) else byte_char (n + 87))"

definition write_escapes :: "(char \<times> string) list" where
  "write_escapes =
     [(CHR 0x22, [CHR 0x5C, CHR 0x22]), (CHR 0x5C, [CHR 0x5C, CHR 0x5C]),
      (CHR 0x08, [CHR 0x5C, CHR ''b'']), (CHR 0x0C, [CHR 0x5C, CHR ''f'']),
      (CHR 0x0A, [CHR 0x5C, CHR ''n'']), (CHR 0x0D, [CHR 0x5C, CHR ''r'']),
      (CHR 0x09, [CHR 0x5C, CHR ''t''])]"

text \<open>One round of the loop of \<open>write_string\<close>: what it writes and how many bytes it consumes.\<close>

definition write_unit :: "string \<Rightarrow> (string \<times> nat) result" where
  "write_unit s =
     (case map_of write_escapes (hd s) of
        Some e \<Rightarrow> Inr (e, 1)
      | None \<Rightarrow>
          let byte = char_byte (hd s)
          in if byte < 0x20 then
               Inr ([CHR 0x5C, CHR ''u'', CHR ''0'', CHR ''0'', hex_char (byte div 16),
                     hex_char (byte mod 16)], 1)
             else if byte < 0x80 then Inr ([hd s], 1)
             else
               let len = utf8_length s
               in if len = 0 then Inl (InvalidArgument ''JSON string is not valid UTF-8'')
                  else Inr (take len s, len))"

lemma write_unit_pos: "write_unit s = Inr (e, n) \<Longrightarrow> 0 < n"
  by (auto simp: write_unit_def Let_def split: option.splits if_splits)

function write_chars :: "string \<Rightarrow> string result" where
  "write_chars s =
     (if s = [] then Inr []
      else and_then (write_unit s) (\<lambda>p.
           and_then (write_chars (drop (snd p) s)) (\<lambda>out. Inr (fst p @ out))))"
  by pat_completeness auto
termination
proof (relation "measure length")
  show "(drop (snd p) s, s) \<in> measure length" if "s \<noteq> []" "write_unit s = Inr p" for s p
    using that write_unit_pos [of s "fst p" "snd p"] by (cases s) auto
qed simp

declare write_chars.simps [simp del]

definition write_string :: "string \<Rightarrow> string result" where
  "write_string s = and_then (write_chars s) (\<lambda>out. Inr ([CHR 0x22] @ out @ [CHR 0x22]))"

fun write_value :: "json \<Rightarrow> string result"
  and write_items :: "bool \<Rightarrow> json list \<Rightarrow> string result"
  and write_members :: "bool \<Rightarrow> (string \<times> json) list \<Rightarrow> string result" where
  "write_value Json_null = Inr ''null''"
| "write_value (Json_bool b) = Inr (if b then ''true'' else ''false'')"
| "write_value (Json_number text) = Inr text"
| "write_value (Json_string s) = write_string s"
| "write_value (Json_array vs) =
     and_then (write_items True vs) (\<lambda>out. Inr (''['' @ out @ '']''))"
| "write_value (Json_object ms) =
     and_then (write_members True ms) (\<lambda>out. Inr (''{'' @ out @ ''}''))"
| "write_items lead [] = Inr []"
| "write_items lead (v # vs) =
     and_then (write_value v) (\<lambda>out.
     and_then (write_items False vs) (\<lambda>outs.
     Inr ((if lead then [] else '','') @ out @ outs)))"
| "write_members lead [] = Inr []"
| "write_members lead ((key, v) # ms) =
     and_then (write_string key) (\<lambda>k.
     and_then (write_value v) (\<lambda>out.
     and_then (write_members False ms) (\<lambda>outs.
     Inr ((if lead then [] else '','') @ k @ '':'' @ out @ outs))))"

definition write_json :: "json \<Rightarrow> string result" where
  "write_json v = write_value v"

end
