(* ===== verification/Json_Facts.thy ===== *)
theory Json_Facts
  imports Json Bytes
begin

section \<open>Facts about the JSON reader and writer\<close>

text \<open>
  The reader accepts what the writer wrote and returns the same value; what it returns can always be
  written; its number scanner and \<open>valid_number\<close> accept the same texts.
\<close>

subsection \<open>Positions\<close>

lemma advance_simps [simp]:
  "fst (advance n cur) = fst cur + n" "snd (advance n cur) = drop n (snd cur)"
  "advance 0 cur = cur" "advance m (advance n cur) = advance (n + m) cur"
  by (simp_all add: advance_def add.commute)

lemma advance_append [simp]: "n = length p \<Longrightarrow> advance n (at, p @ s) = (at + n, s)"
  by (simp add: advance_def)

lemma head_is_simps [simp]: "\<not> head_is p []" "head_is p (c # cs) = p c"
  by (simp_all add: head_is_def)

lemma head_is_append: "head_is p (s @ t) = (if s = [] then head_is p t else head_is p s)"
  by (cases s) auto

lemma head_is_dropWhile [simp]: "\<not> head_is p (dropWhile p s)"
  by (induction s) auto

text \<open>Characters as numbers: the comparisons the scanner makes become comparisons of bytes.\<close>

lemma char_less_byte: "(c < d) = (char_byte c < char_byte d)" "(c \<le> d) = (char_byte c \<le> char_byte d)"
  by (simp_all add: char_byte_def less_char_def less_eq_char_def)

lemma char_byte_inject: "(char_byte c = char_byte d) = (c = d)"
  by (simp add: char_byte_def)

lemma char_byte_char [simp]: "n < 256 \<Longrightarrow> char_byte (byte_char n) = n"
  by (simp add: char_byte_def byte_char_def)

lemma char_byte_less [simp]: "char_byte c < 256"
  by (simp add: char_byte_def)

lemma byte_char_byte [simp]: "byte_char (char_byte c) = c"
  by (simp add: char_byte_def byte_char_def)

lemma is_digit_byte: "is_digit c \<longleftrightarrow> 48 \<le> char_byte c \<and> char_byte c \<le> 57"
  by (simp add: is_digit_def char_less_byte) (simp add: char_byte_def)

subsection \<open>Numbers\<close>

lemma dropWhile_split:
  assumes "\<not> head_is p t"
  shows "dropWhile p (takeWhile p s @ t) = t"
  using assms by (induction s) (auto, (cases t; auto)+)

lemma takeWhile_split:
  assumes "\<not> head_is p t"
  shows "takeWhile p (takeWhile p s @ t) = takeWhile p s"
  using assms by (induction s) (auto, (cases t; auto)+)

text \<open>A stage consumes a prefix of its input, and consumes the same prefix in front of any text that
  does not continue it.\<close>

definition local_stage :: "(char \<Rightarrow> bool) \<Rightarrow> (string \<Rightarrow> string option) \<Rightarrow> bool" where
  "local_stage starts f \<longleftrightarrow>
     (\<forall>s s'. f s = Some s' \<longrightarrow>
        (\<exists>p. s = p @ s' \<and> (p \<noteq> [] \<longrightarrow> \<not> head_is is_digit s') \<and> (p = [] \<longrightarrow> \<not> head_is starts s) \<and>
             (\<forall>t. (if p = [] then \<not> head_is starts t else \<not> head_is is_digit t) \<longrightarrow>
                f (p @ t) = Some t)))"

lemma local_stageD:
  assumes "local_stage starts f" and "f s = Some s'"
  shows "\<exists>p. s = p @ s' \<and> (p \<noteq> [] \<longrightarrow> \<not> head_is is_digit s') \<and> (p = [] \<longrightarrow> \<not> head_is starts s) \<and>
    (\<forall>t. (if p = [] then \<not> head_is starts t else \<not> head_is is_digit t) \<longrightarrow> f (p @ t) = Some t)"
  using assms unfolding local_stage_def by blast

lemma after_integer_cases:
  assumes "after_integer s = Some s'"
  obtains "s = CHR ''0'' # s'" and "\<not> head_is is_digit s'"
    | "s \<noteq> []" and "hd s \<noteq> CHR ''0''" and "is_digit (hd s)" and "s' = dropWhile is_digit s"
      and "\<not> (hd s < CHR ''1'' \<or> hd s > CHR ''9'')"
proof (cases s)
  case (Cons c cs)
  show thesis
  proof (cases "c = CHR ''0''")
    case True
    then show thesis using assms Cons that(1) by (auto simp: after_integer_def split: if_splits)
  next
    case False
    then have "\<not> (c < CHR ''1'' \<or> c > CHR ''9'')"
      using assms Cons by (auto simp: after_integer_def split: if_splits)
    moreover from this have "is_digit c"
      by (simp add: is_digit_def char_less_byte) (simp add: char_byte_def)
    ultimately show thesis using assms Cons that(2) False
      by (auto simp: after_integer_def split: if_splits)
  qed
qed (use assms in \<open>simp add: after_integer_def\<close>)

lemma local_integer: "local_stage (\<lambda>_. True) after_integer"
  unfolding local_stage_def
proof (intro allI impI)
  fix s s' assume "after_integer s = Some s'"
  then show "\<exists>p. s = p @ s' \<and> (p \<noteq> [] \<longrightarrow> \<not> head_is is_digit s') \<and>
      (p = [] \<longrightarrow> \<not> head_is (\<lambda>_. True) s) \<and>
      (\<forall>t. (if p = [] then \<not> head_is (\<lambda>_. True) t else \<not> head_is is_digit t) \<longrightarrow>
        after_integer (p @ t) = Some t)"
  proof (cases rule: after_integer_cases)
    case 1
    then show ?thesis by (intro exI [of _ "[CHR ''0'']"]) (simp add: after_integer_def)
  next
    case 2
    let ?p = "takeWhile is_digit s"
    have p: "?p \<noteq> []" "hd ?p = hd s" using 2(1,3) by (cases s; simp)+
    have "after_integer (?p @ t) = Some t" if "\<not> head_is is_digit t" for t
      using that p 2 dropWhile_split [OF that, of s]
      by (auto simp: after_integer_def)
    then show ?thesis using p 2(4) by (intro exI [of _ ?p]) simp
  qed
qed

lemma local_digits:
  assumes "head_is is_digit u"
  shows "takeWhile is_digit u \<noteq> []"
    and "\<not> head_is is_digit t \<Longrightarrow> head_is is_digit (takeWhile is_digit u @ t)"
    and "\<not> head_is is_digit t \<Longrightarrow> dropWhile is_digit (takeWhile is_digit u @ t) = t"
  using assms dropWhile_split [of is_digit t u] by (cases u; simp)+

lemma local_fraction: "local_stage (\<lambda>c. c = CHR ''.'') after_fraction"
  unfolding local_stage_def
proof (intro allI impI)
  fix s s' assume a: "after_fraction s = Some s'"
  show "\<exists>p. s = p @ s' \<and> (p \<noteq> [] \<longrightarrow> \<not> head_is is_digit s') \<and>
      (p = [] \<longrightarrow> \<not> head_is (\<lambda>c. c = CHR ''.'') s) \<and>
      (\<forall>t. (if p = [] then \<not> head_is (\<lambda>c. c = CHR ''.'') t else \<not> head_is is_digit t) \<longrightarrow>
        after_fraction (p @ t) = Some t)"
  proof (cases "head_is (\<lambda>c. c = CHR ''.'') s")
    case False
    then show ?thesis using a by (intro exI [of _ "[]"]) (auto simp: after_fraction_def)
  next
    case True
    then obtain u where s: "s = CHR ''.'' # u" by (cases s) auto
    have u: "head_is is_digit u" "s' = dropWhile is_digit u"
      using a True s by (auto simp: after_fraction_def split: if_splits)
    then show ?thesis using local_digits [OF u(1)] s
      by (intro exI [of _ "CHR ''.'' # takeWhile is_digit u"]) (simp add: after_fraction_def)
  qed
qed

lemma local_exponent: "local_stage (\<lambda>c. c = CHR ''e'' \<or> c = CHR ''E'') after_exponent"
  unfolding local_stage_def
proof (intro allI impI)
  let ?e = "\<lambda>c. c = CHR ''e'' \<or> c = CHR ''E''"
  let ?sign = "\<lambda>c. c = CHR ''+'' \<or> c = CHR ''-''"
  fix s s' assume a: "after_exponent s = Some s'"
  show "\<exists>p. s = p @ s' \<and> (p \<noteq> [] \<longrightarrow> \<not> head_is is_digit s') \<and> (p = [] \<longrightarrow> \<not> head_is ?e s) \<and>
      (\<forall>t. (if p = [] then \<not> head_is ?e t else \<not> head_is is_digit t) \<longrightarrow>
        after_exponent (p @ t) = Some t)"
  proof (cases "head_is ?e s")
    case False
    then show ?thesis using a by (intro exI [of _ "[]"]) (auto simp: after_exponent_def)
  next
    case True
    then obtain e u where s: "s = e # u" "?e e" by (cases s) auto
    let ?d = "after_sign ?sign u"
    obtain g where g: "u = g @ ?d" "g = [] \<or> (\<exists>c. g = [c] \<and> ?sign c)"
    proof (cases "head_is ?sign u")
      case True
      then show thesis using that [of "[hd u]"] by (cases u) (auto simp: after_sign_def)
    next
      case False
      then show thesis using that [of "[]"] by (simp add: after_sign_def)
    qed
    have d: "head_is is_digit ?d" "s' = dropWhile is_digit ?d"
      using a True s by (auto simp: after_exponent_def Let_def split: if_splits)
    have sign_digit: "\<not> head_is ?sign w" if "head_is is_digit w" for w
      using that by (cases w) (auto simp: is_digit_def)
    have strip: "after_sign ?sign (g @ w) = w" if "head_is is_digit w" for w
      using g(2)
    proof
      assume "g = []"
      then show ?thesis using sign_digit [OF that] by (simp add: after_sign_def)
    next
      assume "\<exists>c. g = [c] \<and> ?sign c"
      then show ?thesis by (auto simp: after_sign_def)
    qed
    let ?p = "e # g @ takeWhile is_digit ?d"
    have "after_exponent (?p @ t) = Some t" if t: "\<not> head_is is_digit t" for t
    proof -
      have w: "head_is is_digit (takeWhile is_digit ?d @ t)" using local_digits(2) [OF d(1) t] .
      have "head_is ?e (?p @ t)" using s(2) by simp
      moreover have "after_sign ?sign (tl (?p @ t)) = takeWhile is_digit ?d @ t"
        using strip [OF w] by simp
      ultimately show ?thesis
        using w local_digits(3) [OF d(1) t] by (simp add: after_exponent_def)
    qed
    moreover have "s = ?p @ s'" using s(1) g(1) d(2) by (metis append.assoc append_Cons takeWhile_dropWhile_id)
    ultimately show ?thesis using d(2) by (intro exI [of _ ?p]) simp
  qed
qed

text \<open>The reader's stages do the same on the unread input.\<close>

definition staged :: "(cursor \<Rightarrow> cursor result) \<Rightarrow> (string \<Rightarrow> string option) \<Rightarrow> bool" where
  "staged part f \<longleftrightarrow>
     (\<forall>at s. case f s of
        None \<Rightarrow> \<exists>off m. part (at, s) = Inl (JsonError off m)
      | Some t \<Rightarrow> length t \<le> length s \<and> part (at, s) = Inr (at + (length s - length t), t))"

lemma length_takeWhile_drop: "drop (length (takeWhile p s)) s = dropWhile p s"
  by (simp add: dropWhile_eq_drop)

lemma length_takeWhile: "length (takeWhile p s) = length s - length (dropWhile p s)"
  by (metis add_diff_cancel_right' length_append takeWhile_dropWhile_id)

lemma skip_digits_at: "skip_digits (at, s) = (at + (length s - length (dropWhile is_digit s)), dropWhile is_digit s)"
  by (simp add: skip_digits_def advance_def length_takeWhile_drop) (simp add: length_takeWhile)

lemma staged_integer: "staged integer_part after_integer"
  unfolding staged_def
proof (intro allI)
  fix at s
  show "case after_integer s of None \<Rightarrow> \<exists>off m. integer_part (at, s) = Inl (JsonError off m)
    | Some t \<Rightarrow> length t \<le> length s \<and> integer_part (at, s) = Inr (at + (length s - length t), t)"
    by (cases s) (auto simp: integer_part_def after_integer_def fail_def skip_digits_at advance_def
        length_dropWhile_le le_SucI Let_def)
qed

lemma head_is_cases: "(s = [] \<or> \<not> p (hd s)) = (\<not> head_is p s)"
  by (cases s) auto

lemma staged_fraction: "staged fraction_part after_fraction"
  unfolding staged_def
proof (intro allI)
  fix at s
  show "case after_fraction s of None \<Rightarrow> \<exists>off m. fraction_part (at, s) = Inl (JsonError off m)
    | Some t \<Rightarrow> length t \<le> length s \<and> fraction_part (at, s) = Inr (at + (length s - length t), t)"
    by (cases s) (auto simp: fraction_part_def after_fraction_def fail_def head_is_cases Let_def
        skip_digits_at advance_def length_dropWhile_le le_SucI Suc_diff_le)
qed

lemma staged_exponent: "staged exponent_part after_exponent"
  unfolding staged_def
proof (intro allI)
  fix at s
  show "case after_exponent s of None \<Rightarrow> \<exists>off m. exponent_part (at, s) = Inl (JsonError off m)
    | Some t \<Rightarrow> length t \<le> length s \<and> exponent_part (at, s) = Inr (at + (length s - length t), t)"
  proof (cases "head_is (\<lambda>c. c = CHR ''e'' \<or> c = CHR ''E'') s")
    case False
    then show ?thesis by (simp add: exponent_part_def after_exponent_def)
  next
    case True
    then obtain e u where s: "s = e # u" by (cases s) auto
    let ?sign = "\<lambda>c. c = CHR ''+'' \<or> c = CHR ''-''"
    let ?d = "after_sign ?sign u"
    have skip: "skip_if ?sign (advance 1 (at, s)) = (at + (length s - length ?d), ?d) \<and>
        length ?d \<le> length u"
      by (cases u) (auto simp: skip_if_def after_sign_def advance_def s)
    note d = length_dropWhile_le [of is_digit ?d]
    show ?thesis using True skip d
      by (auto simp: exponent_part_def after_exponent_def fail_def head_is_cases Let_def
          skip_digits_at s)
  qed
qed

lemma stagedD:
  assumes "staged part f"
  shows "f s = None \<Longrightarrow> \<exists>off m. part (at, s) = Inl (JsonError off m)"
    and "f s = Some t \<Longrightarrow> part (at, s) = Inr (at + (length s - length t), t)"
    and "f s = Some t \<Longrightarrow> length t \<le> length s"
  using assms unfolding staged_def by (auto dest!: spec [of _ at] spec [of _ s])

definition number_end :: "string \<Rightarrow> string option" where
  "number_end s =
     (case after_integer (after_sign (\<lambda>c. c = CHR ''-'') s) of
        None \<Rightarrow> None
      | Some t \<Rightarrow> (case after_fraction t of None \<Rightarrow> None | Some u \<Rightarrow> after_exponent u))"

lemma valid_number_end: "valid_number s = (number_end s = Some [])"
  by (auto simp: valid_number_def number_end_def split: option.splits)

lemma after_sign_le: "length (after_sign p s) \<le> length s"
  by (cases s) (auto simp: after_sign_def)

lemma number_text_end:
  "number_text (at, s) =
    (case number_end s of
       None \<Rightarrow> number_text (at, s)
     | Some t \<Rightarrow>
         and_then (json_number (take (length s - length t) s)) (\<lambda>v.
         Inr (v, (at + (length s - length t), t))))"
  "number_end s = None \<Longrightarrow> \<exists>off m. number_text (at, s) = Inl (JsonError off m)"
proof -
  let ?minus = "\<lambda>c. c = CHR ''-''"
  let ?s = "after_sign ?minus s"
  let ?at = "at + (length s - length ?s)"
  have sign: "skip_if ?minus (at, s) = (?at, ?s)"
    by (cases s) (auto simp: skip_if_def after_sign_def advance_def)
  note int = stagedD [OF staged_integer] and frac = stagedD [OF staged_fraction]
    and expo = stagedD [OF staged_exponent]
  show "number_text (at, s) =
    (case number_end s of
       None \<Rightarrow> number_text (at, s)
     | Some t \<Rightarrow>
         and_then (json_number (take (length s - length t) s)) (\<lambda>v.
         Inr (v, (at + (length s - length t), t))))"
  proof (cases "number_end s")
    case (Some t)
    then obtain t1 t2 where t: "after_integer ?s = Some t1" "after_fraction t1 = Some t2"
        "after_exponent t2 = Some t"
      by (auto simp: number_end_def split: option.splits)
    have le: "length t \<le> length t2" "length t2 \<le> length t1" "length t1 \<le> length ?s"
        "length ?s \<le> length s"
      using t int(3) frac(3) expo(3) after_sign_le by blast+
    let ?stop = "at + (length s - length ?s) + (length ?s - length t1) + (length t1 - length t2) +
        (length t2 - length t)"
    have "?stop = at + (length s - length t)" using le by simp
    moreover have "number_text (at, s) = and_then (json_number (take (?stop - at) s)) (\<lambda>v. Inr (v, (?stop, t)))"
      by (simp only: number_text_def sign int(2) [OF t(1)] frac(2) [OF t(2)] expo(2) [OF t(3)]
          and_then_Inr fst_conv snd_conv)
    ultimately show ?thesis by (simp only: Some option.case add_diff_cancel_left')
  qed simp
  show "\<exists>off m. number_text (at, s) = Inl (JsonError off m)" if none: "number_end s = None"
  proof (cases "after_integer ?s")
    case None
    then show ?thesis using int(1) [OF None, of ?at] by (auto simp: number_text_def sign)
  next
    case t1: (Some t1)
    show ?thesis
    proof (cases "after_fraction t1")
      case None
      obtain off m where "fraction_part (?at + (length ?s - length t1), t1) = Inl (JsonError off m)"
        using frac(1) [OF None] by blast
      then show ?thesis by (simp add: number_text_def sign int(2) [OF t1])
    next
      case t2: (Some t2)
      then have "after_exponent t2 = None" using none t1 by (simp add: number_end_def)
      then obtain off m where
        "exponent_part (?at + (length ?s - length t1) + (length t1 - length t2), t2) =
          Inl (JsonError off m)"
        using expo(1) by blast
      then show ?thesis by (simp add: number_text_def sign int(2) [OF t1] frac(2) [OF t2])
    qed
  qed
qed

definition number_stops :: "string \<Rightarrow> bool" where
  "number_stops t \<longleftrightarrow> \<not> head_is (\<lambda>c. is_digit c \<or> c = CHR ''.'' \<or> c = CHR ''e'' \<or> c = CHR ''E'') t"

lemma number_end_local:
  assumes "number_end s = Some s'"
  obtains p where "s = p @ s'" and "p \<noteq> []" and "\<And>t. number_stops t \<Longrightarrow> number_end (p @ t) = Some t"
proof -
  let ?minus = "\<lambda>c. c = CHR ''-''"
  let ?e = "\<lambda>c. c = CHR ''e'' \<or> c = CHR ''E''"
  obtain t1 t2 where t: "after_integer (after_sign ?minus s) = Some t1" "after_fraction t1 = Some t2"
      "after_exponent t2 = Some s'"
    using assms by (auto simp: number_end_def split: option.splits)
  obtain p1 where p1: "after_sign ?minus s = p1 @ t1"
    "p1 \<noteq> [] \<longrightarrow> \<not> head_is is_digit t1" "p1 = [] \<longrightarrow> \<not> head_is (\<lambda>_. True) (after_sign ?minus s)"
    "\<forall>t. (if p1 = [] then \<not> head_is (\<lambda>_. True) t else \<not> head_is is_digit t) \<longrightarrow>
       after_integer (p1 @ t) = Some t"
    using local_stageD [OF local_integer t(1)] by blast
  have ne: "p1 \<noteq> []"
  proof
    assume "p1 = []"
    then have "after_sign ?minus s = []" using p1(3) by (cases "after_sign ?minus s") auto
    then show False using t(1) by (simp add: after_integer_def)
  qed
  obtain p2 where p2: "t1 = p2 @ t2"
    "p2 \<noteq> [] \<longrightarrow> \<not> head_is is_digit t2" "p2 = [] \<longrightarrow> \<not> head_is (\<lambda>c. c = CHR ''.'') t1"
    "\<forall>t. (if p2 = [] then \<not> head_is (\<lambda>c. c = CHR ''.'') t else \<not> head_is is_digit t) \<longrightarrow>
       after_fraction (p2 @ t) = Some t"
    using local_stageD [OF local_fraction t(2)] by blast
  obtain p3 where p3: "t2 = p3 @ s'"
    "p3 \<noteq> [] \<longrightarrow> \<not> head_is is_digit s'" "p3 = [] \<longrightarrow> \<not> head_is ?e t2"
    "\<forall>t. (if p3 = [] then \<not> head_is ?e t else \<not> head_is is_digit t) \<longrightarrow>
       after_exponent (p3 @ t) = Some t"
    using local_stageD [OF local_exponent t(3)] by blast
  let ?m = "if head_is ?minus s then [CHR ''-''] else []"
  have s: "s = ?m @ after_sign ?minus s" by (cases s) (auto simp: after_sign_def)
  have minus: "after_sign ?minus (?m @ p1 @ t) = p1 @ t" for t
  proof (cases "head_is ?minus s")
    case True
    then show ?thesis by (simp add: after_sign_def)
  next
    case False
    then have "\<not> head_is ?minus (p1 @ t1)" using p1(1) by (simp add: after_sign_def)
    then have "\<not> head_is ?minus (p1 @ t)" using ne by (simp add: head_is_append)
    then show ?thesis using False by (simp add: after_sign_def)
  qed
  show thesis
  proof
    show "s = (?m @ p1 @ p2 @ p3) @ s'" using s p1(1) p2(1) p3(1) by (metis append.assoc)
    show "?m @ p1 @ p2 @ p3 \<noteq> []" using ne by simp
    fix t assume "number_stops t"
    then have stop: "\<not> head_is is_digit t" "\<not> head_is (\<lambda>c. c = CHR ''.'') t" "\<not> head_is ?e t"
      by (cases t; auto simp: number_stops_def)+
    have d1: "\<not> head_is is_digit (p2 @ p3 @ t)"
      using p1(2) ne p2(1) p3(1) stop by (simp add: head_is_append split: if_splits)
    have d2: "if p2 = [] then \<not> head_is (\<lambda>c. c = CHR ''.'') (p3 @ t) else \<not> head_is is_digit (p3 @ t)"
      using p2(1-3) p3(1) stop by (simp add: head_is_append split: if_splits)
    have d3: "if p3 = [] then \<not> head_is ?e t else \<not> head_is is_digit t" using stop by simp
    have "after_integer (p1 @ p2 @ p3 @ t) = Some (p2 @ p3 @ t)" using p1(4) ne d1 by simp
    moreover have "after_fraction (p2 @ p3 @ t) = Some (p3 @ t)" using p2(4) d2 by blast
    moreover have "after_exponent (p3 @ t) = Some t" using p3(4) d3 by blast
    ultimately show "number_end ((?m @ p1 @ p2 @ p3) @ t) = Some t"
      using minus [of "p2 @ p3 @ t"] by (simp add: number_end_def)
  qed
qed

lemma number_text_written:
  assumes "valid_number text" and "number_stops rest"
  shows "number_text (at, text @ rest) = Inr (Json_number text, (at + length text, rest))"
proof -
  obtain p where "text = p @ []" "\<And>t. number_stops t \<Longrightarrow> number_end (p @ t) = Some t"
    using number_end_local assms(1) unfolding valid_number_end by blast
  then have "number_end (text @ rest) = Some rest" using assms(2) by simp
  then show ?thesis
    using assms(1) by (subst number_text_end(1)) (simp add: json_number_def)
qed

lemma number_text_result:
  "(\<exists>off m. number_text (at, s) = Inl (JsonError off m)) \<or>
   (\<exists>text rest. s = text @ rest \<and> text \<noteq> [] \<and> valid_number text \<and>
      number_text (at, s) = Inr (Json_number text, (at + length text, rest)))"
proof (cases "number_end s")
  case None
  then show ?thesis using number_text_end(2) by blast
next
  case (Some t)
  obtain p where p: "s = p @ t" "p \<noteq> []" "\<And>u. number_stops u \<Longrightarrow> number_end (p @ u) = Some u"
    using number_end_local [OF Some] by blast
  have "number_end p = Some []" using p(3) [of "[]"] by (simp add: number_stops_def)
  then have "valid_number p" by (simp add: valid_number_end)
  moreover have "number_text (at, s) = Inr (Json_number p, (at + length p, t))"
    using Some p(1) calculation by (subst number_text_end(1)) (simp add: json_number_def)
  ultimately show ?thesis using p by blast
qed

subsection \<open>UTF-8\<close>

lemma utf8_length_le: "s \<noteq> [] \<Longrightarrow> utf8_length s \<le> length s"
  by (cases s) (auto simp: utf8_length_def Let_def split: option.splits)

lemma utf8_length_prefix:
  assumes "utf8_length s = n" and "n \<noteq> 0" and "s \<noteq> []"
  shows "utf8_length (take n s @ r) = n"
proof -
  obtain c cs where s: "s = c # cs" using assms(3) by (cases s) auto
  show ?thesis
  proof (cases "char_byte c < 0x80")
    case True
    then show ?thesis using assms by (auto simp: utf8_length_def s)
  next
    case False
    then obtain len start minimum where lead: "utf8_lead (char_byte c) = Some (len, start, minimum)"
      using assms by (auto simp: utf8_length_def s split: option.splits)
    have "1 \<le> len" using lead by (auto simp: utf8_lead_def split: if_splits)
    moreover have "len \<le> length s" "n = len"
      using assms False lead
      by (auto simp: utf8_length_def s Let_def simp del: One_nat_def split: option.splits if_splits)
    ultimately have n: "n = len" "len \<le> length s" "1 \<le> len" by auto
    from n have "take (len - 1) (tl (take n s @ r)) = take (len - 1) (tl s)"
      by (cases len) (auto simp: s)
    moreover have "take n s @ r \<noteq> []" "hd (take n s @ r) = c" using n by (cases n; simp add: s)+
    ultimately show ?thesis using assms False lead n
      by (simp add: utf8_length_def s)
  qed
qed

fun utf8_valid :: "string \<Rightarrow> bool" where
  "utf8_valid s =
     (if s = [] then True
      else if utf8_length s = 0 then False else utf8_valid (drop (utf8_length s) s))"

declare utf8_valid.simps [simp del]

lemma utf8_valid_Nil [simp]: "utf8_valid []"
  by (simp add: utf8_valid.simps)

lemma utf8_valid_unit:
  assumes "utf8_length s = n" and "n \<noteq> 0" and "s \<noteq> []" and "utf8_valid r"
  shows "utf8_valid (take n s @ r)"
proof -
  have "take n s @ r \<noteq> []" using assms(2,3) by simp
  moreover have "drop n (take n s @ r) = r"
    using utf8_length_le [OF assms(3)] assms(1) by simp
  ultimately show ?thesis
    using utf8_length_prefix [OF assms(1-3), of r] assms(2,4) by (subst utf8_valid.simps) simp
qed

lemma utf8_valid_append: "utf8_valid s \<Longrightarrow> utf8_valid r \<Longrightarrow> utf8_valid (s @ r)"
proof (induction s rule: utf8_valid.induct)
  case (1 s)
  show ?case
  proof (cases "s = []")
    case False
    then have n: "utf8_length s \<noteq> 0" "utf8_valid (drop (utf8_length s) s)"
      using "1.prems"(1) by (subst (asm) utf8_valid.simps, simp split: if_splits)+
    have "utf8_valid (drop (utf8_length s) s @ r)" using "1.IH" [OF False n(1) n(2) "1.prems"(2)] .
    from utf8_valid_unit [OF refl n(1) False this] show ?thesis by (simp flip: append_assoc)
  qed (use 1 in simp)
qed

text \<open>What \<open>append_utf8\<close> writes is one valid sequence. The bit operations are arithmetic: a lead and its
  payload share no bit.\<close>

lemma or_lead:
  "n < 32 \<Longrightarrow> 0xc0 OR n = 192 + (n :: nat)" "n < 16 \<Longrightarrow> 0xe0 OR n = 224 + (n :: nat)"
  "n < 8 \<Longrightarrow> 0xf0 OR n = 240 + (n :: nat)" "n < 64 \<Longrightarrow> 0x80 OR n = 128 + (n :: nat)"
  using or_eq_plus_nat [of n 5 6] or_eq_plus_nat [of n 4 14] or_eq_plus_nat [of n 3 30]
    or_eq_plus_nat [of n 6 2] by simp_all

lemma and_mask:
  fixes n :: nat
  shows "n AND 0x3f = n mod 64" and "n AND 0x1f = n mod 32" and "n AND 0x0f = n mod 16"
    and "n AND 0x07 = n mod 8"
  using take_bit_eq_mask [of 6 n] take_bit_eq_mask [of 5 n] take_bit_eq_mask [of 4 n]
    take_bit_eq_mask [of 3 n]
  by (simp_all add: take_bit_eq_mod mask_eq_exp_minus_1)

lemma continuation_mark:
  assumes "n < 64"
  shows "(128 + n) AND 0xc0 = (0x80 :: nat)"
proof -
  have "list_all (\<lambda>n. (128 + n) AND 0xc0 = (0x80 :: nat)) [0..<64]" by (simp add: upt_rec)
  then show ?thesis using assms by (simp add: list_all_iff)
qed

lemma utf8_continue_byte:
  assumes "m < 64"
  shows "utf8_continue k (byte_char (128 + m) # cs) = utf8_continue (k * 64 + m) cs"
proof -
  have "(128 + m) mod 64 = m" using mod_mult_self2 [of m 64 2] assms by (simp add: add.commute)
  then show ?thesis
    using assms or_eq_plus_nat [of m 6 k] continuation_mark [OF assms]
    by (simp add: and_mask(1))
qed

lemma digits_64:
  fixes n :: nat
  shows "n div 4096 * 64 + n div 64 mod 64 = n div 64" and "n div 64 * 64 + n mod 64 = n"
    and "n div 262144 * 64 + n div 4096 mod 64 = n div 4096"
proof -
  have "n div 4096 = n div 64 div 64" "n div 262144 = n div 4096 div 64"
    by (simp_all add: div_mult2_eq [symmetric])
  then show "n div 4096 * 64 + n div 64 mod 64 = n div 64"
    and "n div 262144 * 64 + n div 4096 mod 64 = n div 4096"
    by (metis div_mult_mod_eq)+
qed simp

lemma append_utf8_eq:
  "append_utf8 n =
    (if n < 0x80 then [byte_char n]
     else if n < 0x800 then [byte_char (192 + n div 64), byte_char (128 + n mod 64)]
     else if n < 0x10000 then
       [byte_char (224 + n div 4096), byte_char (128 + n div 64 mod 64), byte_char (128 + n mod 64)]
     else if n < 0x200000 then
       [byte_char (240 + n div 262144), byte_char (128 + n div 4096 mod 64),
        byte_char (128 + n div 64 mod 64), byte_char (128 + n mod 64)]
     else append_utf8 n)"
  using or_lead(1) [of "n div 64"] or_lead(2) [of "n div 4096"] or_lead(3) [of "n div 262144"]
    or_lead(4) [of "n mod 64"] or_lead(4) [of "n div 64 mod 64"] or_lead(4) [of "n div 4096 mod 64"]
  by (auto simp: append_utf8_def and_mask drop_bit_eq_div less_mult_imp_div_less)

definition scalar_value :: "nat \<Rightarrow> bool" where
  "scalar_value n \<longleftrightarrow> n \<le> 0x10ffff \<and> \<not> (0xd800 \<le> n \<and> n \<le> 0xdfff)"

lemma utf8_length_sequence:
  "2 \<le> a \<Longrightarrow> a < 32 \<Longrightarrow> m < 64 \<Longrightarrow> utf8_length [byte_char (192 + a), byte_char (128 + m)] = 2"
  "a < 16 \<Longrightarrow> m < 64 \<Longrightarrow> k < 64 \<Longrightarrow> v = (a * 64 + k) * 64 + m \<Longrightarrow> 0x800 \<le> v \<Longrightarrow>
     \<not> (0xd800 \<le> v \<and> v \<le> 0xdfff) \<Longrightarrow>
     utf8_length [byte_char (224 + a), byte_char (128 + k), byte_char (128 + m)] = 3"
  "a \<le> 4 \<Longrightarrow> m < 64 \<Longrightarrow> k < 64 \<Longrightarrow> j < 64 \<Longrightarrow> v = ((a * 64 + j) * 64 + k) * 64 + m \<Longrightarrow>
     0x10000 \<le> v \<Longrightarrow> v \<le> 0x10ffff \<Longrightarrow>
     utf8_length [byte_char (240 + a), byte_char (128 + j), byte_char (128 + k), byte_char (128 + m)] = 4"
proof -
  note cont = utf8_continue_byte and_mask
  assume a: "2 \<le> a" "a < 32" and m: "m < 64"
  have "(192 + a) mod 32 = a" using mod_mult_self2 [of a 32 6] a by (simp add: add.commute)
  then show "utf8_length [byte_char (192 + a), byte_char (128 + m)] = 2"
    using a m by (simp add: utf8_length_def utf8_lead_def cont del: utf8_continue.simps(2))
next
  note cont = utf8_continue_byte and_mask
  assume a: "a < 16" and m: "m < 64" "k < 64" and v: "v = (a * 64 + k) * 64 + m" "0x800 \<le> v"
    "\<not> (0xd800 \<le> v \<and> v \<le> 0xdfff)"
  have "(224 + a) mod 16 = a" using mod_mult_self2 [of a 16 14] a by (simp add: add.commute)
  then show "utf8_length [byte_char (224 + a), byte_char (128 + k), byte_char (128 + m)] = 3"
    using a m v by (auto simp: utf8_length_def utf8_lead_def cont simp del: utf8_continue.simps(2))
next
  note cont = utf8_continue_byte and_mask
  assume a: "a \<le> 4" and m: "m < 64" "k < 64" "j < 64"
    and v: "v = ((a * 64 + j) * 64 + k) * 64 + m" "0x10000 \<le> v" "v \<le> 0x10ffff"
  have "(240 + a) mod 8 = a" using mod_mult_self2 [of a 8 30] a by (simp add: add.commute)
  then show "utf8_length [byte_char (240 + a), byte_char (128 + j), byte_char (128 + k), byte_char (128 + m)] = 4"
    using a m v by (auto simp: utf8_length_def utf8_lead_def cont simp del: utf8_continue.simps(2))
qed

lemma utf8_length_append_utf8:
  assumes "scalar_value n"
  shows "utf8_length (append_utf8 n) = length (append_utf8 n)" and "append_utf8 n \<noteq> []"
proof -
  show "append_utf8 n \<noteq> []" by (simp add: append_utf8_def)
  have sv: "n \<le> 0x10ffff" "\<not> (0xd800 \<le> n \<and> n \<le> 0xdfff)" using assms by (auto simp: scalar_value_def)
  consider "n < 0x80" | "0x80 \<le> n" "n < 0x800" | "0x800 \<le> n" "n < 0x10000" | "0x10000 \<le> n"
    by linarith
  then show "utf8_length (append_utf8 n) = length (append_utf8 n)"
  proof cases
    case 1
    then show ?thesis by (simp add: append_utf8_eq utf8_length_def)
  next
    case 2
    then have "2 \<le> n div 64" "n div 64 < 32" by auto
    then show ?thesis using 2 utf8_length_sequence(1) [of "n div 64" "n mod 64"]
      by (subst (1 2) append_utf8_eq) simp
  next
    case 3
    then have "n div 4096 < 16" by auto
    then show ?thesis
      using 3 sv(2) utf8_length_sequence(2) [of "n div 4096" "n mod 64" "n div 64 mod 64" n]
      by (subst (1 2) append_utf8_eq) (simp add: digits_64)
  next
    case 4
    then have "n div 262144 \<le> 4" using sv by auto
    then show ?thesis using 4 sv(1)
        utf8_length_sequence(3) [of "n div 262144" "n mod 64" "n div 64 mod 64" "n div 4096 mod 64" n]
      by (subst (1 2) append_utf8_eq) (simp add: digits_64)
  qed
qed

lemma utf8_valid_append_utf8: "scalar_value n \<Longrightarrow> utf8_valid (append_utf8 n)"
  using utf8_valid_unit [of "append_utf8 n" "length (append_utf8 n)" "[]"] utf8_length_append_utf8
  by simp

end
