(* ===== verification/Json_Roundtrip.thy ===== *)
theory Json_Roundtrip
  imports Json_Facts
begin

section \<open>The JSON writer and reader are inverse\<close>

text \<open>
  A value the reader accepts within its limits is written and read back unchanged, and every value the
  reader returns is of that kind: its strings are valid UTF-8, its numbers match the grammar and its
  object keys are strictly increasing.
\<close>

subsection \<open>Strings that are read are valid UTF-8\<close>

lemma hex_digit_less: "hex_digit c = Some d \<Longrightarrow> d < 16"
  by (auto simp: hex_digit_def char_less_byte split: if_splits) (auto simp: char_byte_def)

lemma hex_digits_less:
  "hex_digits n v cur = Inr (v', cur') \<Longrightarrow> v < 16 ^ k \<Longrightarrow> v' < 16 ^ (k + n)"
proof (induction n v cur arbitrary: k rule: hex_digits.induct)
  case (2 n v cur)
  then obtain d where d: "hex_digit (hd (snd cur)) = Some d"
    "hex_digits n (push_bit 4 v OR d) (advance 1 cur) = Inr (v', cur')"
    by (auto simp: fail_def split: option.splits)
  have "push_bit 4 v OR d = v * 16 + d" using or_eq_plus_nat [of d 4 v] hex_digit_less [OF d(1)] by simp
  also have "\<dots> < (v + 1) * 16" using hex_digit_less [OF d(1)] by simp
  also have "\<dots> \<le> 16 ^ k * 16" using "2.prems"(2) by (intro mult_right_mono) auto
  finally have "push_bit 4 v OR d < 16 ^ Suc k" by (simp add: mult.commute)
  from "2.IH" [OF d this] show ?case by simp
qed simp

lemma hex_quad_less: "hex_quad cur = Inr (v, cur') \<Longrightarrow> v < 65536"
  using hex_digits_less [of 4 0 cur v cur' 0] by (auto simp: hex_quad_def fail_def split: if_splits)

lemma low_surrogate_valid:
  assumes "low_surrogate h cur = Inr (s, cur')" and "0xd800 \<le> h" and "h \<le> 0xdbff"
  shows "utf8_valid s"
proof -
  obtain low cur3 where s: "s = append_utf8 (0x10000 + push_bit 10 (h - 0xd800) + (low - 0xdc00))"
    and low: "0xdc00 \<le> low" "low \<le> 0xdfff"
    using assms(1)
    by (auto simp: low_surrogate_def fail_def and_then_eq_Inr split: option.splits if_splits)
  have "push_bit 10 (h - 0xd800) = (h - 0xd800) * 1024" by (simp add: push_bit_eq_mult)
  then have "scalar_value (0x10000 + push_bit 10 (h - 0xd800) + (low - 0xdc00))"
    using assms(2,3) low by (simp add: scalar_value_def)
  then show ?thesis unfolding s by (rule utf8_valid_append_utf8)
qed

lemma unicode_escape_valid:
  assumes "unicode_escape cur = Inr (s, cur')"
  shows "utf8_valid s"
proof -
  obtain n cur1 where n: "hex_quad cur = Inr (n, cur1)"
    using assms by (auto simp: unicode_escape_def and_then_eq_Inr)
  show ?thesis
  proof (cases "n \<ge> 0xd800 \<and> n \<le> 0xdbff")
    case True
    then have "low_surrogate n cur1 = Inr (s, cur')" using assms n by (simp add: unicode_escape_def)
    then show ?thesis using low_surrogate_valid True by blast
  next
    case False
    then have "\<not> (n \<ge> 0xdc00 \<and> n \<le> 0xdfff)" "s = append_utf8 n"
      using assms n by (auto simp: unicode_escape_def fail_def split: if_splits)
    moreover have "scalar_value n"
      using False calculation(1) hex_quad_less [OF n] unfolding scalar_value_def by linarith
    ultimately show ?thesis using utf8_valid_append_utf8 by simp
  qed
qed

lemma utf8_valid_ascii: "char_byte c < 0x80 \<Longrightarrow> utf8_valid [c]"
  using utf8_valid_unit [of "[c]" 1 "[]"] by (simp add: utf8_length_def)

lemma escape_valid: "escape cur = Inr (s, cur') \<Longrightarrow> utf8_valid s"
proof -
  have "list_all (\<lambda>(_, c). char_byte c < 0x80) short_escapes"
    by (simp add: short_escapes_def char_byte_def)
  then have short: "map_of short_escapes e = Some c \<Longrightarrow> utf8_valid [c]" for e c
    by (auto simp: list_all_iff dest!: map_of_SomeD intro: utf8_valid_ascii)
  show "escape cur = Inr (s, cur') \<Longrightarrow> utf8_valid s"
    by (auto simp: escape_def fail_def Let_def split: if_splits option.splits
        dest: unicode_escape_valid short)
qed

lemma string_unit_valid:
  assumes "string_unit cur = Inr (s, cur')" and "snd cur \<noteq> []"
  shows "utf8_valid s"
proof -
  have unit: "utf8_valid (take (utf8_length (snd cur)) (snd cur))" if "utf8_length (snd cur) \<noteq> 0"
    using utf8_valid_unit [OF refl that assms(2), of "[]"] by simp
  show ?thesis
    using assms unit escape_valid [of "advance 1 cur" s cur']
    by (auto simp: string_unit_def fail_def Let_def utf8_valid_ascii split: if_splits)
qed

lemma string_loop_valid:
  "string_loop opts acc cur = Inr (s, cur') \<Longrightarrow> utf8_valid acc \<Longrightarrow> length acc \<le> max_string_bytes opts \<Longrightarrow>
   utf8_valid s \<and> length s \<le> max_string_bytes opts"
proof (induction opts acc cur rule: string_loop.induct)
  case (1 opts acc cur)
  show ?case
  proof (cases "snd cur = [] \<or> hd (snd cur) = CHR 0x22")
    case True
    then show ?thesis using "1.prems"
      by (subst (asm) string_loop.simps) (auto simp: fail_def split: if_splits)
  next
    case False
    then obtain p where p: "string_unit cur = Inr p"
      and len: "\<not> length (acc @ fst p) > max_string_bytes opts"
      and rec: "string_loop opts (acc @ fst p) (snd p) = Inr (s, cur')"
      using "1.prems"(1)
      by (subst (asm) string_loop.simps) (auto simp: fail_def and_then_eq_Inr split: if_splits)
    have "utf8_valid (acc @ fst p)"
      using string_unit_valid [of cur "fst p" "snd p"] p False "1.prems"(2) utf8_valid_append by auto
    then show ?thesis using "1.IH" [OF _ _ p len rec] False len by simp
  qed
qed

lemma json_text_valid:
  "json_text opts cur = Inr (s, cur') \<Longrightarrow> utf8_valid s \<and> length s \<le> max_string_bytes opts"
  using string_loop_valid [of opts "[]"] by (auto simp: json_text_def fail_def split: option.splits)

subsection \<open>Strings that are written are read\<close>

lemma hex_chars:
  assumes "n < 16"
  shows "hex_digit (hex_char n) = Some n"
proof -
  have "list_all (\<lambda>n. hex_digit (hex_char n) = Some n) [0..<16]"
    by code_simp
  then show ?thesis using assms by (simp add: list_all_iff)
qed

lemma backslash_unit: "string_unit (at, CHR 0x5C # s) = escape (at + 1, s)"
  by (simp add: string_unit_def advance_def char_byte_def Let_def)

lemma hex_digits_step:
  "hex_digit c = Some d \<Longrightarrow> hex_digits (Suc n) v (at, c # s) = hex_digits n (push_bit 4 v OR d) (at + 1, s)"
  by (simp add: advance_def)

lemma read_control:
  assumes "char_byte c < 0x20"
  shows "string_unit (at, [CHR 0x5C, CHR ''u'', CHR ''0'', CHR ''0'', hex_char (char_byte c div 16),
      hex_char (char_byte c mod 16)] @ r) = Inr ([c], (at + 6, r))"
proof -
  let ?n = "char_byte c"
  let ?hex = "[CHR ''0'', CHR ''0'', hex_char (?n div 16), hex_char (?n mod 16)] @ r"
  have zero: "hex_digit (CHR ''0'') = Some 0" by code_simp
  have "?n div 16 < 16" using assms by auto
  note digit = hex_chars [OF this] hex_chars [of "?n mod 16"]
  have "push_bit 4 (?n div 16) OR (?n mod 16) = ?n div 16 * 16 + ?n mod 16"
    using or_eq_plus_nat [of "?n mod 16" 4 "?n div 16"] by simp
  then have join: "push_bit 4 (?n div 16) OR (?n mod 16) = ?n" by simp
  have four: "(4 :: nat) = Suc (Suc (Suc (Suc 0)))" by simp
  have "hex_digits 4 0 (at + 2, ?hex) = Inr (?n, (at + 6, r))"
    unfolding four using digit join
    by (simp only: append.simps hex_digits_step [OF zero] hex_digits_step [OF digit(1)]) 
      (simp add: hex_digits_step del: hex_digits.simps(2))
  then have "hex_quad (at + 2, ?hex) = Inr (?n, (at + 6, r))" by (simp add: hex_quad_def)
  then have "unicode_escape (at + 2, ?hex) = Inr ([c], (at + 6, r))"
    using assms by (simp add: unicode_escape_def append_utf8_def)
  moreover have "map_of short_escapes (CHR ''u'') = None" by code_simp
  ultimately show ?thesis
    by (simp add: escape_def advance_def backslash_unit)
qed

lemma write_escapes_read:
  "list_all (\<lambda>(c, e). case e of
      [b, x] \<Rightarrow> b = CHR 0x5C \<and> map_of short_escapes x = Some c | _ \<Rightarrow> False) write_escapes"
  by code_simp

lemma read_escape:
  assumes "map_of write_escapes c = Some e"
  shows "string_unit (at, e @ r) = Inr ([c], (at + length e, r))" and "e \<noteq> []" and "hd e \<noteq> CHR 0x22"
proof -
  have "(c, e) \<in> set write_escapes" using assms by (rule map_of_SomeD)
  then obtain x where e: "e = [CHR 0x5C, x]" "map_of short_escapes x = Some c"
    using write_escapes_read by (auto simp: list_all_iff split: list.splits)
  then show "string_unit (at, e @ r) = Inr ([c], (at + length e, r))"
    by (simp add: backslash_unit escape_def advance_def)
  show "e \<noteq> []" and "hd e \<noteq> CHR 0x22" by (simp_all add: e)
qed

lemma read_written_unit:
  assumes "s \<noteq> []" and "write_unit s = Inr (e, n)"
  shows "string_unit (at, e @ r) = Inr (take n s, (at + length e, r))" and "e \<noteq> []" and "hd e \<noteq> CHR 0x22"
    and "n \<le> length s"
proof -
  obtain c cs where s: "s = c # cs" using assms(1) by (cases s) auto
  have "string_unit (at, e @ r) = Inr (take n s, (at + length e, r)) \<and> e \<noteq> [] \<and> hd e \<noteq> CHR 0x22 \<and>
      n \<le> length s"
  proof (cases "map_of write_escapes c")
    case (Some e')
    then show ?thesis using assms(2) read_escape [OF Some] by (auto simp: write_unit_def s)
  next
    case None
    then have c: "c \<noteq> CHR 0x22" "c \<noteq> CHR 0x5C" by (auto simp: write_escapes_def split: if_splits)
    consider (control) "char_byte c < 0x20" | (ascii) "0x20 \<le> char_byte c" "char_byte c < 0x80"
      | (high) "0x80 \<le> char_byte c" by linarith
    then show ?thesis
    proof cases
      case control
      then show ?thesis using assms(2) None read_control [OF control, of at r]
        by (auto simp: write_unit_def s Let_def)
    next
      case ascii
      then show ?thesis using assms(2) None c
        by (auto simp: write_unit_def s string_unit_def Let_def advance_def)
    next
      case high
      then have n: "n = utf8_length s" "n \<noteq> 0" "e = take n s"
        using assms(2) None by (auto simp: write_unit_def s Let_def split: if_splits)
      have le: "n \<le> length s" using utf8_length_le [OF assms(1)] n(1) by simp
      have "utf8_length (take n s @ r) = n"
        using utf8_length_prefix [OF n(1) [symmetric] n(2) assms(1)] .
      moreover have "hd (take n s @ r) = c" using n(2) by (cases n) (simp_all add: s)
      moreover have "hd (take n s) = c" "take n s \<noteq> []" using n(2) by (cases n; simp add: s)+
      ultimately show ?thesis using high c n(2,3) le
        by (simp add: string_unit_def Let_def advance_def)
    qed
  qed
  then show "string_unit (at, e @ r) = Inr (take n s, (at + length e, r))" and "e \<noteq> []"
    and "hd e \<noteq> CHR 0x22" and "n \<le> length s" by blast+
qed

lemma read_written_chars:
  "write_chars s = Inr out \<Longrightarrow> length (acc @ s) \<le> max_string_bytes opts \<Longrightarrow>
   string_loop opts acc (at, out @ [CHR 0x22] @ rest) = Inr (acc @ s, (at + length out + 1, rest))"
proof (induction s arbitrary: acc at out rule: write_chars.induct)
  case (1 s)
  show ?case
  proof (cases "s = []")
    case True
    then have "out = []" using "1.prems"(1) by (simp add: write_chars.simps)
    then show ?thesis using True by (subst string_loop.simps) (simp add: advance_def)
  next
    case False
    obtain p out' where p: "write_unit s = Inr p" "write_chars (drop (snd p) s) = Inr out'"
      "out = fst p @ out'"
      using "1.prems"(1) False by (subst (asm) write_chars.simps) (auto simp: and_then_eq_Inr)
    note unit = read_written_unit [OF False, of "fst p" "snd p"]
    have p1: "write_unit s = Inr (fst p, snd p)" using p(1) by simp
    have split: "take (snd p) s @ drop (snd p) s = s" by simp
    have len: "\<not> length (acc @ take (snd p) s) > max_string_bytes opts"
      using "1.prems"(2) by simp
    have "string_loop opts (acc @ take (snd p) s) (at + length (fst p), out' @ [CHR 0x22] @ rest) =
        Inr ((acc @ take (snd p) s) @ drop (snd p) s, (at + length (fst p) + length out' + 1, rest))"
      using "1.IH" [OF False p(1) p(2), of "acc @ take (snd p) s" "at + length (fst p)"] "1.prems"(2)
      by simp
    moreover have "string_loop opts acc (at, out @ [CHR 0x22] @ rest) =
        string_loop opts (acc @ take (snd p) s) (at + length (fst p), out' @ [CHR 0x22] @ rest)"
      using unit(1) [OF p1, of at "out' @ [CHR 0x22] @ rest"] unit(2,3) [OF p1] len
      by (subst string_loop.simps) (simp add: p(3))
    ultimately show ?thesis using p(3) split by simp
  qed
qed

lemma read_written_string:
  assumes "write_string s = Inr out" and "length s \<le> max_string_bytes opts"
  shows "json_text opts (at, out @ rest) = Inr (s, (at + length out, rest))"
    and "out \<noteq> []" and "hd out = CHR 0x22"
proof -
  obtain o1 where o1: "write_chars s = Inr o1" "out = CHR 0x22 # o1 @ [CHR 0x22]"
    using assms(1) by (auto simp: write_string_def and_then_eq_Inr)
  show "json_text opts (at, out @ rest) = Inr (s, (at + length out, rest))"
    using read_written_chars [OF o1(1), of "[]" opts "at + 1" rest] assms(2)
    by (simp add: json_text_def take_char_def advance_def o1(2))
  show "out \<noteq> []" and "hd out = CHR 0x22" by (simp_all add: o1(2))
qed

lemma utf8_valid_tail:
  assumes "utf8_valid s" and "s \<noteq> []" and "write_unit s = Inr (e, n)"
  shows "utf8_valid (drop n s)"
proof -
  have v: "utf8_length s \<noteq> 0" "utf8_valid (drop (utf8_length s) s)"
    using assms(1,2) by (subst (asm) utf8_valid.simps, simp split: if_splits)+
  have ascii: "utf8_length s = 1" if "char_byte (hd s) < 0x80" using that by (simp add: utf8_length_def)
  have esc: "char_byte c < 0x80" if "map_of write_escapes c = Some x" for c x
    using map_of_SomeD [OF that] by (auto simp: write_escapes_def char_byte_def)
  have "n = utf8_length s"
    using assms(3) ascii esc by (auto simp: write_unit_def Let_def split: option.splits if_splits)
  then show ?thesis using v(2) by simp
qed

lemma write_chars_returns: "utf8_valid s \<Longrightarrow> returns (write_chars s)"
proof (induction s rule: write_chars.induct)
  case (1 s)
  show ?case
  proof (cases "s = []")
    case False
    then have "utf8_length s \<noteq> 0" using 1(2) by (subst (asm) utf8_valid.simps) (simp split: if_splits)
    then obtain p where p: "write_unit s = Inr p"
      by (cases "write_unit s") (auto simp: write_unit_def Let_def split: option.splits if_splits)
    have "utf8_valid (drop (snd p) s)" using utf8_valid_tail [OF 1(2) False, of "fst p" "snd p"] p by simp
    from "1.IH" [OF False p this] show ?thesis using p False
      by (subst write_chars.simps) (auto simp: returns_and_then returns_iff)
  qed (simp add: write_chars.simps)
qed

subsection \<open>Values\<close>

text \<open>A value within the reader's limits, with the number of levels it may use.\<close>

fun json_ok :: "parse_options \<Rightarrow> nat \<Rightarrow> json \<Rightarrow> bool" where
  "json_ok opts 0 v = False"
| "json_ok opts (Suc levels) v =
     (case v of
        Json_number text \<Rightarrow> valid_number text
      | Json_string s \<Rightarrow> utf8_valid s \<and> length s \<le> max_string_bytes opts
      | Json_array vs \<Rightarrow>
          length vs \<le> max_container_entries opts \<and> list_all (json_ok opts levels) vs
      | Json_object ms \<Rightarrow>
          length ms \<le> max_container_entries opts \<and> sorted_wrt (<) (map fst ms) \<and>
          list_all (\<lambda>(key, v). utf8_valid key \<and> length key \<le> max_string_bytes opts \<and>
            json_ok opts levels v) ms
      | _ \<Rightarrow> True)"

lemma write_string_returns: "utf8_valid s \<Longrightarrow> \<exists>out. write_string s = Inr out"
  using write_chars_returns by (auto simp: write_string_def returns_iff and_then_eq_Inr)

lemma write_items_returns:
  "list_all (\<lambda>v. returns (write_value v)) vs \<Longrightarrow> returns (write_items lead vs)"
  by (induction vs arbitrary: lead) (auto simp: returns_iff and_then_eq_Inr)

lemma write_members_returns:
  "list_all (\<lambda>(key, v). utf8_valid key \<and> returns (write_value v)) ms \<Longrightarrow>
   returns (write_members lead ms)"
proof (induction ms arbitrary: lead)
  case (Cons m ms)
  obtain key v where m: "m = (key, v)" by fastforce
  obtain k where "write_string key = Inr k" using Cons.prems write_string_returns by (auto simp: m)
  moreover obtain out where "write_value v = Inr out" using Cons.prems by (auto simp: m returns_iff)
  moreover obtain outs where "write_members False ms = Inr outs"
    using Cons.IH [of False] Cons.prems by (auto simp: returns_iff)
  ultimately show ?case by (simp add: m)
qed simp

lemma json_ok_written: "json_ok opts levels v \<Longrightarrow> returns (write_value v)"
proof (induction opts levels v rule: json_ok.induct)
  case (2 opts levels v)
  show ?case
  proof (cases v)
    case (Json_string s)
    then show ?thesis using 2 write_string_returns by (auto simp: returns_iff)
  next
    case (Json_array vs)
    then have "list_all (\<lambda>v. returns (write_value v)) vs"
      using 2 by (fastforce simp: list_all_iff)
    from write_items_returns [OF this, of True] show ?thesis
      by (auto simp: Json_array returns_iff)
  next
    case (Json_object ms)
    then have "list_all (\<lambda>(key, v). utf8_valid key \<and> returns (write_value v)) ms"
      using 2 by (fastforce simp: list_all_iff)
    from write_members_returns [OF this, of True] show ?thesis
      by (auto simp: Json_object returns_iff)
  qed auto
qed simp

text \<open>What a value's text starts with.\<close>

definition value_start :: "string \<Rightarrow> bool" where
  "value_start s \<longleftrightarrow> s \<noteq> [] \<and> \<not> is_space (hd s) \<and> hd s \<noteq> CHR '']''"

lemma skip_space_none:
  assumes "\<not> head_is is_space s"
  shows "skip_space (at, s) = (at, s)"
proof -
  have "takeWhile is_space s = []" using assms by (cases s) auto
  then show ?thesis by (simp add: skip_space_def)
qed

lemma take_char_hit [simp]: "take_char c (at, c # s) = Some (at + 1, s)"
  by (simp add: take_char_def advance_def)

lemma take_char_miss: "\<not> head_is (\<lambda>d. d = c) s \<Longrightarrow> take_char c (at, s) = None"
  by (simp add: take_char_def)

lemma valid_number_start:
  assumes "valid_number text"
  shows "text \<noteq> []" and "hd text = CHR ''-'' \<or> is_digit (hd text)"
proof -
  obtain s where "after_integer (after_sign (\<lambda>c. c = CHR ''-'') text) = Some s"
    using assms by (auto simp: valid_number_def split: option.splits)
  moreover have "is_digit (CHR ''0'')" by code_simp
  ultimately have "after_sign (\<lambda>c. c = CHR ''-'') text \<noteq> []"
    and "is_digit (hd (after_sign (\<lambda>c. c = CHR ''-'') text))"
    by (auto elim!: after_integer_cases)
  then show "text \<noteq> []" and "hd text = CHR ''-'' \<or> is_digit (hd text)"
    by (cases "text"; auto simp: after_sign_def split: if_splits)+
qed

definition punctuation :: string where
  "punctuation = [CHR ''n'', CHR ''t'', CHR ''f'', CHR 0x22, CHR ''['', CHR ''{'', CHR '']'',
     CHR '' '', CHR 0x09, CHR 0x0A, CHR 0x0D]"

lemma number_start_distinct:
  assumes "c = CHR ''-'' \<or> is_digit c"
  shows "c \<notin> set punctuation"
proof -
  have "list_all (\<lambda>d. d \<noteq> CHR ''-'' \<and> \<not> is_digit d) punctuation" by code_simp
  then show ?thesis using assms by (auto simp: list_all_iff)
qed

lemma json_ok_value_start:
  assumes "json_ok opts levels v" and "write_value v = Inr out"
  shows "value_start out"
proof (cases levels)
  case (Suc l)
  show ?thesis
  proof (cases v)
    case (Json_number num)
    have "valid_number num" using assms(1) by (simp add: Suc Json_number)
    note start = valid_number_start [OF this]
    show ?thesis using start(1) number_start_distinct [OF start(2)] assms(2)
      by (auto simp: Json_number value_start_def is_space_def punctuation_def)
  next
    case (Json_string s)
    then show ?thesis using assms(2)
      by (auto simp: value_start_def write_string_def and_then_eq_Inr is_space_def)
  qed (use assms(2) in \<open>auto simp: value_start_def is_space_def and_then_eq_Inr split: if_splits\<close>)
qed (use assms(1) in \<open>simp\<close>)

text \<open>A text that may stand behind a value.\<close>

definition value_follows :: "string \<Rightarrow> bool" where
  "value_follows s \<longleftrightarrow> number_stops s \<and> \<not> head_is is_space s"

definition reads_back :: "(cursor \<Rightarrow> (json \<times> cursor) result) \<Rightarrow> json \<Rightarrow> bool" where
  "reads_back entry v \<longleftrightarrow>
     (\<exists>out. write_value v = Inr out \<and> value_start out \<and>
        (\<forall>at rest. value_follows rest \<longrightarrow>
           entry (at, out @ rest) = Inr (v, (at + length out, rest))))"

lemma follows_punctuation [simp]:
  "value_follows (CHR '','' # s)" "value_follows (CHR '']'' # s)" "value_follows (CHR ''}'' # s)"
  "value_follows []"
  by (simp_all add: value_follows_def number_stops_def is_digit_def is_space_def char_less_byte)
    (simp_all add: char_byte_def)

lemma value_start_no_space: "value_start s \<Longrightarrow> \<not> head_is is_space (s @ r)"
  by (cases s) (auto simp: value_start_def)

lemma array_loop_reads_back:
  "list_all (reads_back entry) (v # vs) \<Longrightarrow> length (v # vs) \<le> n \<Longrightarrow>
   \<exists>out. write_items True (v # vs) = Inr out \<and> value_start out \<and>
     (\<forall>at rest. array_loop n entry acc (at, out @ CHR '']'' # rest) =
        Inr (Json_array (acc @ v # vs), (at + length out + 1, rest)))"
proof (induction vs arbitrary: v n acc)
  case Nil
  then obtain out where out: "write_value v = Inr out" "value_start out"
    "\<And>at rest. value_follows rest \<Longrightarrow> entry (at, out @ rest) = Inr (v, (at + length out, rest))"
    by (auto simp: reads_back_def)
  obtain k where n: "n = Suc k" using Nil.prems(2) by (cases n) auto
  show ?case using out
    by (auto simp: n skip_space_none is_space_def)
next
  case (Cons w ws)
  obtain out where out: "write_value v = Inr out" "value_start out"
    "\<And>at rest. value_follows rest \<Longrightarrow> entry (at, out @ rest) = Inr (v, (at + length out, rest))"
    using Cons.prems(1) by (auto simp: reads_back_def)
  obtain k where n: "n = Suc k" "length (w # ws) \<le> k" using Cons.prems(2) by (cases n) auto
  obtain outs where outs: "write_items True (w # ws) = Inr outs" "value_start outs"
    "\<And>at rest. array_loop k entry (acc @ [v]) (at, outs @ CHR '']'' # rest) =
       Inr (Json_array ((acc @ [v]) @ w # ws), (at + length outs + 1, rest))"
    using Cons.IH [of w k "acc @ [v]"] Cons.prems(1) n(2) by auto
  have "write_items False (w # ws) = Inr (CHR '','' # outs)"
    using outs(1) by (auto simp: and_then_eq_Inr)
  then have "write_items True (v # w # ws) = Inr (out @ CHR '','' # outs)" using out(1) by simp
  moreover have "array_loop n entry acc (at, (out @ CHR '','' # outs) @ CHR '']'' # rest) =
      Inr (Json_array (acc @ v # w # ws), (at + length (out @ CHR '','' # outs) + 1, rest))" for at rest
    using out(3) outs(3) value_start_no_space [OF outs(2)]
    by (simp add: n(1) skip_space_none is_space_def take_char_miss)
  moreover have "value_start (out @ CHR '','' # outs)"
    using out(2) by (simp add: value_start_def)
  ultimately show ?case by blast
qed

lemma map_emplace_last:
  "(\<And>x. x \<in> set m \<Longrightarrow> fst x < k) \<Longrightarrow> map_emplace k v m = Some (m @ [(k, v)])"
proof (induction k v m rule: map_emplace.induct)
  case (2 k v k' v' m)
  have "k' < k" using "2.prems" [of "(k', v')"] by simp
  then have "k \<noteq> k'" "\<not> k < k'" by auto
  then show ?case using 2 by simp
qed simp

lemma object_member_reads_back:
  assumes "utf8_valid key" and "length key \<le> max_string_bytes opts" and "reads_back entry v"
    and "map_emplace key v acc = Some acc'"
  obtains k out where "write_string key = Inr k" and "write_value v = Inr out" and "hd k = CHR 0x22"
    and "k \<noteq> []"
    and "\<And>at rest. value_follows rest \<Longrightarrow>
      object_member opts entry acc (at, k @ CHR '':'' # out @ rest) =
        Inr (acc', (at + length k + 1 + length out, rest))"
proof -
  obtain k where k: "write_string key = Inr k" using write_string_returns assms(1) by blast
  obtain out where out: "write_value v = Inr out" "value_start out"
    "\<And>at rest. value_follows rest \<Longrightarrow> entry (at, out @ rest) = Inr (v, (at + length out, rest))"
    using assms(3) by (auto simp: reads_back_def)
  note key = read_written_string [OF k assms(2)]
  have "object_member opts entry acc (at, k @ CHR '':'' # out @ rest) =
      Inr (acc', (at + length k + 1 + length out, rest))" if "value_follows rest" for at rest
    using key(2,3) out(3) [OF that] value_start_no_space [OF out(2)] assms(4)
    by (simp add: object_member_def key(1) skip_space_none is_space_def Let_def)
  then show thesis using that k out(1) key(2,3) by blast
qed

lemma object_loop_reads_back:
  "list_all (\<lambda>(key, v). utf8_valid key \<and> length key \<le> max_string_bytes opts \<and> reads_back entry v)
     ((key, v) # ms) \<Longrightarrow>
   sorted_wrt (<) (map fst (acc @ (key, v) # ms)) \<Longrightarrow> length ((key, v) # ms) \<le> n \<Longrightarrow>
   \<exists>out. write_members True ((key, v) # ms) = Inr out \<and> out \<noteq> [] \<and> hd out = CHR 0x22 \<and>
     (\<forall>at rest. object_loop n opts entry acc (at, out @ CHR ''}'' # rest) =
        Inr (Json_object (acc @ (key, v) # ms), (at + length out + 1, rest)))"
proof (induction ms arbitrary: key v n acc)
  case Nil
  have last: "map_emplace key v acc = Some (acc @ [(key, v)])"
    using Nil.prems(2) by (intro map_emplace_last) (auto simp: sorted_wrt_append)
  from object_member_reads_back [OF _ _ _ last, of opts entry]
  obtain k out where o: "write_string key = Inr k" "write_value v = Inr out" "hd k = CHR 0x22" "k \<noteq> []"
    "\<And>at rest. value_follows rest \<Longrightarrow>
      object_member opts entry acc (at, k @ CHR '':'' # out @ rest) =
        Inr (acc @ [(key, v)], (at + length k + 1 + length out, rest))"
    using Nil.prems(1) by auto
  obtain j where n: "n = Suc j" using Nil.prems(3) by (cases n) auto
  have "object_loop n opts entry acc (at, (k @ CHR '':'' # out) @ CHR ''}'' # rest) =
      Inr (Json_object (acc @ [(key, v)]), (at + length (k @ CHR '':'' # out) + 1, rest))" for at rest
    by (simp add: n o(5) skip_space_none is_space_def)
  then show ?case using o(1-4) by auto
next
  case (Cons m ms)
  obtain key2 v2 where m: "m = (key2, v2)" by fastforce
  have last: "map_emplace key v acc = Some (acc @ [(key, v)])"
    using Cons.prems(2) by (intro map_emplace_last) (auto simp: sorted_wrt_append)
  from object_member_reads_back [OF _ _ _ last, of opts entry]
  obtain k out where o: "write_string key = Inr k" "write_value v = Inr out" "hd k = CHR 0x22" "k \<noteq> []"
    "\<And>at rest. value_follows rest \<Longrightarrow>
      object_member opts entry acc (at, k @ CHR '':'' # out @ rest) =
        Inr (acc @ [(key, v)], (at + length k + 1 + length out, rest))"
    using Cons.prems(1) by auto
  obtain j where n: "n = Suc j" "length (m # ms) \<le> j" using Cons.prems(3) by (cases n) auto
  obtain outs where outs: "write_members True ((key2, v2) # ms) = Inr outs" "outs \<noteq> []"
    "hd outs = CHR 0x22"
    "\<And>at rest. object_loop j opts entry (acc @ [(key, v)]) (at, outs @ CHR ''}'' # rest) =
       Inr (Json_object ((acc @ [(key, v)]) @ (key2, v2) # ms), (at + length outs + 1, rest))"
    using Cons.IH [of key2 v2 "acc @ [(key, v)]" j] Cons.prems(1,2) n(2) by (auto simp: m)
  have "write_members False (m # ms) = Inr (CHR '','' # outs)"
    using outs(1) by (auto simp: m and_then_eq_Inr)
  then have "write_members True ((key, v) # m # ms) = Inr (k @ CHR '':'' # out @ CHR '','' # outs)"
    using o(1,2) by (simp add: m)
  moreover have "object_loop n opts entry acc
        (at, (k @ CHR '':'' # out @ CHR '','' # outs) @ CHR ''}'' # rest) =
      Inr (Json_object (acc @ (key, v) # m # ms),
        (at + length (k @ CHR '':'' # out @ CHR '','' # outs) + 1, rest))" for at rest
  proof -
    have "\<not> head_is is_space (outs @ CHR ''}'' # rest)"
      using outs(2,3) by (cases outs) (auto simp: is_space_def)
    then show ?thesis using outs(4)
      by (simp add: n(1) o(5) skip_space_none is_space_def take_char_miss m)
  qed
  ultimately show ?case using o(3,4) by auto
qed

lemma literal_reads: "literal w v (at, w @ rest) = Inr (v, (at + length w, rest))"
  by (simp add: literal_def take_word_def)

lemma json_value_reads_back: "json_ok opts levels v \<Longrightarrow> reads_back (json_value opts levels) v"
proof (induction opts levels v rule: json_ok.induct)
  case (2 opts levels v)
  obtain out where w: "write_value v = Inr out"
    using json_ok_written [OF "2.prems"] by (auto simp: returns_iff)
  have start: "value_start out" using json_ok_value_start [OF "2.prems" w] .
  have "json_value opts (Suc levels) (at, out @ rest) = Inr (v, (at + length out, rest))"
    if rest: "value_follows rest" for at rest
  proof (cases v)
    case Json_null
    then show ?thesis using w literal_reads [of "''null''" Json_null at rest] by auto
  next
    case (Json_bool b)
    then show ?thesis using w literal_reads [of "''true''" "Json_bool True" at rest]
        literal_reads [of "''false''" "Json_bool False" at rest] by (cases b) auto
  next
    case (Json_number num)
    have num: "valid_number num" "out = num" using "2.prems" w by (simp_all add: Json_number)
    note head = valid_number_start [OF num(1)]
    have h: "hd (num @ rest) = hd num" "num @ rest \<noteq> []" using head(1) by auto
    have "json_value opts (Suc levels) (at, num @ rest) = number_text (at, num @ rest)"
      using number_start_distinct [OF head(2)] h(1) head(1) by (simp add: punctuation_def)
    then show ?thesis
      using number_text_written [OF num(1)] rest num(2) by (simp add: Json_number value_follows_def)
  next
    case (Json_string s)
    then have "write_string s = Inr out" "length s \<le> max_string_bytes opts" using "2.prems" w by auto
    note str = read_written_string [OF this]
    have h: "hd (out @ rest) = CHR 0x22" "out @ rest \<noteq> []" using str(2,3) by auto
    show ?thesis using str(1,2) h(1) by (simp add: Json_string)
  next
    case (Json_array vs)
    have ok: "length vs \<le> max_container_entries opts" "list_all (reads_back (json_value opts levels)) vs"
      using 2 by (auto simp: Json_array list_all_iff)
    show ?thesis
    proof (cases vs)
      case Nil
      then have "out = ''[]''" using w by (simp add: Json_array)
      then show ?thesis using Nil
        by (simp add: Json_array array_value_def advance_def skip_space_none is_space_def)
    next
      case (Cons x xs)
      obtain os where os: "write_items True (x # xs) = Inr os" "value_start os"
        "\<And>at rest. array_loop (max_container_entries opts) (json_value opts levels) []
           (at, os @ CHR '']'' # rest) = Inr (Json_array ([] @ x # xs), (at + length os + 1, rest))"
        using array_loop_reads_back [of "json_value opts levels" x xs _ "[]"] ok unfolding Cons by blast
      have out: "out = CHR ''['' # os @ [CHR '']'']" using w os(1) by (simp add: Json_array Cons)
      have "take_char (CHR '']'') (at + 1, os @ CHR '']'' # rest) = None"
        using os(2) by (cases os) (auto simp: take_char_def value_start_def)
      then show ?thesis using os(3) [of "at + 1" rest] value_start_no_space [OF os(2)]
        by (simp add: out array_value_def advance_def skip_space_none Json_array Cons)
    qed
  next
    case (Json_object ms)
    have ok: "length ms \<le> max_container_entries opts" "sorted_wrt (<) (map fst ms)"
      "list_all (\<lambda>(key, v). utf8_valid key \<and> length key \<le> max_string_bytes opts \<and>
         reads_back (json_value opts levels) v) ms"
      using 2 by (fastforce simp: Json_object list_all_iff)+
    show ?thesis
    proof (cases ms)
      case Nil
      then have "out = ''{}''" using w by (simp add: Json_object)
      then show ?thesis using Nil
        by (simp add: Json_object object_value_def advance_def skip_space_none is_space_def)
    next
      case (Cons x xs)
      obtain key u where x: "x = (key, u)" by fastforce
      obtain os where os: "write_members True ((key, u) # xs) = Inr os" "os \<noteq> []" "hd os = CHR 0x22"
        "\<And>at rest. object_loop (max_container_entries opts) opts (json_value opts levels) []
           (at, os @ CHR ''}'' # rest) =
             Inr (Json_object ([] @ (key, u) # xs), (at + length os + 1, rest))"
        using object_loop_reads_back [of opts "json_value opts levels" key u xs "[]"] ok
        unfolding Cons x append_Nil by blast
      have out: "out = CHR ''{'' # os @ [CHR ''}'']" using w os(1) by (simp add: Json_object Cons x)
      have "take_char (CHR ''}'') (at + 1, os @ CHR ''}'' # rest) = None"
        and "\<not> head_is is_space (os @ CHR ''}'' # rest)"
        using os(2,3) by (cases os; simp add: take_char_def is_space_def)+
      then show ?thesis using os(4) [of "at + 1" rest]
        by (simp add: out object_value_def advance_def skip_space_none Json_object Cons x)
    qed
  qed
  then show ?case using w start by (auto simp: reads_back_def)
qed simp

lemma parse_written:
  assumes "json_ok opts (max_depth opts) v"
  shows "\<exists>out. write_json v = Inr out \<and> parse_json out opts = Inr v"
proof -
  obtain out where out: "write_value v = Inr out" "value_start out"
    "\<And>at rest. value_follows rest \<Longrightarrow>
       json_value opts (max_depth opts) (at, out @ rest) = Inr (v, (at + length out, rest))"
    using json_value_reads_back [OF assms] by (auto simp: reads_back_def)
  have "skip_space (0, out) = (0, out)"
    using value_start_no_space [OF out(2), of "[]"] by (simp add: skip_space_none)
  moreover have "skip_space (length out, []) = (length out, [])" by (simp add: skip_space_none)
  ultimately have "parse_json out opts = Inr v"
    using out(3) [of "[]" 0] by (simp add: parse_json_def)
  then show ?thesis using out(1) by (simp add: write_json_def)
qed

end
