(* ===== verification/Json_Reader.thy ===== *)
theory Json_Reader
  imports Json_Roundtrip
begin

section \<open>What the JSON reader returns and where it fails\<close>

text \<open>
  Every value the reader returns keeps its limits, so it can be written and read back; every failure is
  a \<open>JsonError\<close> whose offset lies in the input.
\<close>

subsection \<open>Positions and failures\<close>

definition within :: "nat \<Rightarrow> cursor \<Rightarrow> bool" where
  "within n cur \<longleftrightarrow> fst cur + length (snd cur) = n"

definition stays :: "nat \<Rightarrow> ('a \<times> cursor) result \<Rightarrow> bool" where
  "stays n m \<longleftrightarrow>
     (case m of
        Inl e \<Rightarrow> (case e of JsonError off _ \<Rightarrow> off \<le> n | _ \<Rightarrow> False)
      | Inr p \<Rightarrow> within n (snd p))"

lemma within_advance: "within n cur \<Longrightarrow> k \<le> length (snd cur) \<Longrightarrow> within n (advance k cur)"
  by (simp add: within_def)

lemma within_advance_1: "within n cur \<Longrightarrow> snd cur \<noteq> [] \<Longrightarrow> within n (advance 1 cur)"
  by (cases "snd cur") (auto simp: within_def)

lemma within_skip_space [simp]: "within n cur \<Longrightarrow> within n (skip_space cur)"
  unfolding skip_space_def by (rule within_advance) (simp_all add: length_takeWhile_le)

lemma head_is_ne: "head_is p s \<Longrightarrow> s \<noteq> []"
  by (cases s) auto

lemma within_take_char: "take_char c cur = Some cur' \<Longrightarrow> within n cur \<Longrightarrow> within n cur'"
  by (auto simp: take_char_def split: if_splits intro!: within_advance_1 [unfolded One_nat_def] dest: head_is_ne)

lemma stays_fail [simp]: "stays n (fail cur msg) \<longleftrightarrow> fst cur \<le> n"
  by (simp add: stays_def fail_def)

lemma stays_Inr [simp]: "stays n (Inr (x, cur)) \<longleftrightarrow> within n cur"
  by (simp add: stays_def)

lemma within_fst: "within n cur \<Longrightarrow> fst cur \<le> n"
  by (simp add: within_def)

lemma within_pair [dest]: "within n (a, b) \<Longrightarrow> a \<le> n"
  by (simp add: within_def)

lemma within_took: "within n cur \<Longrightarrow> take_char c cur = Some (a, b) \<Longrightarrow> within n (a, b)"
  by (rule within_take_char)

lemma stays_and_then:
  assumes "stays n m" and "\<And>x cur. m = Inr (x, cur) \<Longrightarrow> within n cur \<Longrightarrow> stays n (f (x, cur))"
  shows "stays n (and_then m f)"
proof (cases m)
  case (Inl e)
  then show ?thesis using assms(1) by (simp add: stays_def)
next
  case (Inr p)
  then show ?thesis using assms by (cases p) (auto simp: stays_def)
qed

lemma stays_hex_digits:
  "within n cur \<Longrightarrow> k \<le> length (snd cur) \<Longrightarrow> stays n (hex_digits k v cur)"
proof (induction k v cur rule: hex_digits.induct)
  case (2 k v cur)
  then have "within n (advance 1 cur)" by (intro within_advance) auto
  then show ?case using 2 within_fst [of n "advance 1 cur"] by (auto split: option.splits)
qed simp

lemma stays_hex_quad: "within n cur \<Longrightarrow> stays n (hex_quad cur)"
  using stays_hex_digits [of n cur 4 0] by (auto simp: hex_quad_def within_fst)

lemma stays_low_surrogate:
  assumes "within n cur"
  shows "stays n (low_surrogate h cur)"
proof (cases "take_char (CHR 0x5C) cur")
  case None
  then show ?thesis using assms by (simp add: low_surrogate_def within_fst)
next
  case c1: (Some cur1)
  note w1 = within_take_char [OF c1 assms]
  show ?thesis
  proof (cases "take_char (CHR ''u'') cur1")
    case None
    then show ?thesis using c1 w1 by (simp add: low_surrogate_def within_fst)
  next
    case (Some cur2)
    note w2 = within_take_char [OF Some w1]
    show ?thesis using c1 Some w2
      by (auto simp: low_surrogate_def intro!: stays_and_then stays_hex_quad)
  qed
qed

lemma stays_unicode_escape: "within n cur \<Longrightarrow> stays n (unicode_escape cur)"
  unfolding unicode_escape_def
  by (auto intro!: stays_and_then stays_hex_quad stays_low_surrogate)

lemma stays_escape:
  assumes "within n cur"
  shows "stays n (escape cur)"
proof (cases "snd cur = []")
  case True
  then show ?thesis using assms by (simp add: escape_def within_fst)
next
  case False
  note w = within_advance_1 [OF assms False]
  then show ?thesis using False within_fst [OF w] stays_unicode_escape [OF w]
    by (simp add: escape_def Let_def split: option.splits)
qed

lemma stays_string_unit:
  assumes "within n cur" and "snd cur \<noteq> []"
  shows "stays n (string_unit cur)"
  using assms within_advance_1 [OF assms] within_advance [OF assms(1) utf8_length_le [OF assms(2)]]
  by (auto simp: string_unit_def Let_def within_fst stays_escape)

lemma stays_string_loop: "within n cur \<Longrightarrow> stays n (string_loop opts acc cur)"
proof (induction opts acc cur rule: string_loop.induct)
  case (1 opts acc cur)
  show ?case
  proof (cases "snd cur = [] \<or> hd (snd cur) = CHR 0x22")
    case True
    then show ?thesis using within_fst [OF "1.prems"] within_advance_1 [OF "1.prems"]
      by (subst string_loop.simps) auto
  next
    case False
    then have "stays n (and_then (string_unit cur) (\<lambda>p.
        if length (acc @ fst p) > max_string_bytes opts
        then fail (snd p) ''maximum string size exceeded''
        else string_loop opts (acc @ fst p) (snd p)))"
      using "1.IH" "1.prems" by (intro stays_and_then stays_string_unit) (auto simp: within_fst)
    then show ?thesis using False by (subst string_loop.simps) simp
  qed
qed

lemma stays_json_text: "within n cur \<Longrightarrow> stays n (json_text opts cur)"
  by (auto simp: json_text_def within_fst split: option.splits
      intro!: stays_string_loop dest: within_take_char)

subsection \<open>What is returned\<close>

text \<open>A reader of a value that stays in the input and returns values a property holds for.\<close>

definition reader_ok :: "nat \<Rightarrow> (json \<Rightarrow> bool) \<Rightarrow> (cursor \<Rightarrow> (json \<times> cursor) result) \<Rightarrow> bool" where
  "reader_ok n ok entry \<longleftrightarrow>
     (\<forall>cur. within n cur \<longrightarrow> stays n (entry cur)) \<and>
     (\<forall>cur v cur'. entry cur = Inr (v, cur') \<longrightarrow> ok v)"

lemma reader_okD:
  assumes "reader_ok n ok entry"
  shows "within n cur \<Longrightarrow> stays n (entry cur)" and "entry cur = Inr (v, cur') \<Longrightarrow> ok v"
  using assms unfolding reader_ok_def by blast+

text \<open>The step both containers take behind an entry.\<close>

lemma stays_separator:
  assumes "within n cur" and "\<And>cur'. within n cur' \<Longrightarrow> stays n (f cur')"
    and "\<And>cur'. within n cur' \<Longrightarrow> stays n (g cur')"
  shows "stays n (let cur2 = skip_space cur in
    case take_char c cur2 of
      Some cur3 \<Rightarrow> f cur3
    | None \<Rightarrow> (case take_char d cur2 of None \<Rightarrow> fail cur2 msg | Some cur3 \<Rightarrow> g (skip_space cur3)))"
proof -
  have w: "within n (skip_space cur)" using assms(1) by simp
  show ?thesis using w assms(2,3) within_take_char [OF _ w]
    by (auto simp: Let_def within_fst split: option.splits)
qed

lemma array_loop_stays:
  assumes "reader_ok n ok entry"
  shows "within n cur \<Longrightarrow> stays n (array_loop k entry acc cur)"
proof (induction k arbitrary: acc cur)
  case 0
  then show ?case by (simp add: within_fst)
next
  case (Suc k)
  show ?case unfolding array_loop.simps
  proof (rule stays_and_then)
    show "stays n (entry cur)" using reader_okD(1) [OF assms Suc.prems] .
    fix v cur1 assume "within n cur1"
    then show "stays n (case (v, cur1) of (v, cur1) \<Rightarrow>
        let cur2 = skip_space cur1 in
        case take_char (CHR '']'') cur2 of
          Some cur3 \<Rightarrow> Inr (Json_array (acc @ [v]), cur3)
        | None \<Rightarrow> (case take_char (CHR '','') cur2 of
            None \<Rightarrow> fail cur2 ''expected comma or closing bracket''
          | Some cur3 \<Rightarrow> array_loop k entry (acc @ [v]) (skip_space cur3)))"
      unfolding prod.case using Suc.IH by (intro stays_separator) auto
  qed
qed

lemma array_loop_result:
  assumes "reader_ok n ok entry"
  shows "array_loop k entry acc cur = Inr (v, cur') \<Longrightarrow> list_all ok acc \<Longrightarrow>
    \<exists>vs. v = Json_array vs \<and> list_all ok vs \<and> length vs \<le> length acc + k"
proof (induction k arbitrary: acc cur)
  case 0
  then show ?case by (simp add: fail_def)
next
  case (Suc k)
  obtain x cur1 where x: "entry cur = Inr (x, cur1)"
    using Suc.prems(1) by (auto simp: and_then_eq_Inr)
  have ok: "list_all ok (acc @ [x])" using Suc.prems(2) reader_okD(2) [OF assms x] by simp
  show ?case
  proof (cases "take_char (CHR '']'') (skip_space cur1)")
    case None
    then obtain cur3 where "array_loop k entry (acc @ [x]) (skip_space cur3) = Inr (v, cur')"
      using Suc.prems(1) x by (auto simp: Let_def fail_def split: option.splits)
    from Suc.IH [OF this ok] show ?thesis by auto
  next
    case (Some cur3)
    then have "v = Json_array (acc @ [x])" using Suc.prems(1) x by (simp add: Let_def)
    then show ?thesis using ok by auto
  qed
qed

lemma array_value_ok:
  assumes "reader_ok n ok entry" and "snd cur \<noteq> []"
  shows "within n cur \<Longrightarrow> stays n (array_value opts entry cur)"
    and "array_value opts entry cur = Inr (v, cur') \<Longrightarrow>
      \<exists>vs. v = Json_array vs \<and> list_all ok vs \<and> length vs \<le> max_container_entries opts"
proof -
  show "stays n (array_value opts entry cur)" if w: "within n cur"
  proof -
    have w1: "within n (skip_space (advance 1 cur))" using within_advance_1 [OF w assms(2)] by simp
    show ?thesis using array_loop_stays [OF assms(1) w1] within_take_char [OF _ w1]
      by (auto simp: array_value_def Let_def split: option.splits)
  qed
  show "\<exists>vs. v = Json_array vs \<and> list_all ok vs \<and> length vs \<le> max_container_entries opts"
    if "array_value opts entry cur = Inr (v, cur')"
  proof (cases "take_char (CHR '']'') (skip_space (advance 1 cur))")
    case None
    then show ?thesis using that array_loop_result [OF assms(1), of _ "[]"]
      by (fastforce simp: array_value_def Let_def)
  next
    case (Some cur2)
    then show ?thesis using that by (auto simp: array_value_def Let_def)
  qed
qed

text \<open>Keys stay strictly increasing under \<open>emplace\<close>.\<close>

lemma map_emplace_set:
  "map_emplace k v m = Some m' \<Longrightarrow> set m' = insert (k, v) (set m) \<and> length m' = Suc (length m)"
  by (induction k v m arbitrary: m' rule: map_emplace.induct) (auto split: if_splits)

lemma map_emplace_sorted:
  "map_emplace k v m = Some m' \<Longrightarrow> sorted_wrt (<) (map fst m) \<Longrightarrow> sorted_wrt (<) (map fst m')"
proof (induction k v m arbitrary: m' rule: map_emplace.induct)
  case (2 k v k' v' m)
  consider "k < k'" "m' = (k, v) # (k', v') # m"
    | r where "\<not> k < k'" "k \<noteq> k'" "map_emplace k v m = Some r" "m' = (k', v') # r"
    using "2.prems"(1) by (auto split: if_splits)
  then show ?case
  proof cases
    case 1
    then show ?thesis using "2.prems"(2) by (auto dest: order.strict_trans)
  next
    case 2
    have "sorted_wrt (<) (map fst r)" using "2.IH" [OF 2(2,1,3)] "2.prems"(2) by simp
    moreover have "k' < k" using 2(1,2) by simp
    ultimately show ?thesis using map_emplace_set [OF 2(3)] "2.prems"(2) 2(4) by auto
  qed
qed auto

definition members_ok :: "parse_options \<Rightarrow> (json \<Rightarrow> bool) \<Rightarrow> (string \<times> json) list \<Rightarrow> bool" where
  "members_ok opts ok ms \<longleftrightarrow>
     sorted_wrt (<) (map fst ms) \<and>
     list_all (\<lambda>(key, v). utf8_valid key \<and> length key \<le> max_string_bytes opts \<and> ok v) ms"

lemma object_member_stays:
  assumes "reader_ok n ok entry" and "within n cur"
  shows "stays n (object_member opts entry acc cur)"
proof (cases "snd cur = [] \<or> hd (snd cur) \<noteq> CHR 0x22")
  case True
  then show ?thesis using assms(2) by (auto simp: object_member_def within_fst)
next
  case False
  have member: "stays n (and_then (entry c) (\<lambda>(member, cur4).
      case map_emplace key member acc of
        None \<Rightarrow> fail cur4 ''duplicate object key'' | Some r \<Rightarrow> Inr (r, cur4)))"
    if "within n c" for c key
    using reader_okD(1) [OF assms(1) that]
    by (auto intro!: stays_and_then split: option.splits)
  have colon: "stays n (case take_char (CHR '':'') c of
      None \<Rightarrow> fail c ''expected colon''
    | Some cur3 \<Rightarrow> and_then (entry (skip_space cur3)) (\<lambda>(member, cur4).
        case map_emplace key member acc of
          None \<Rightarrow> fail cur4 ''duplicate object key'' | Some r \<Rightarrow> Inr (r, cur4)))"
    if "within n c" for c key
    using that member within_take_char [OF _ that] by (auto simp: within_fst split: option.splits)
  have "stays n (and_then (json_text opts cur) (\<lambda>(key, cur1).
      let cur2 = skip_space cur1 in
      case take_char (CHR '':'') cur2 of
        None \<Rightarrow> fail cur2 ''expected colon''
      | Some cur3 \<Rightarrow> and_then (entry (skip_space cur3)) (\<lambda>(member, cur4).
          case map_emplace key member acc of
            None \<Rightarrow> fail cur4 ''duplicate object key'' | Some r \<Rightarrow> Inr (r, cur4))))"
  proof (rule stays_and_then)
    show "stays n (json_text opts cur)" using stays_json_text [OF assms(2)] .
    fix key c assume "within n c"
    then show "stays n (case (key, c) of (key, cur1) \<Rightarrow>
        let cur2 = skip_space cur1 in
        case take_char (CHR '':'') cur2 of
          None \<Rightarrow> fail cur2 ''expected colon''
        | Some cur3 \<Rightarrow> and_then (entry (skip_space cur3)) (\<lambda>(member, cur4).
            case map_emplace key member acc of
              None \<Rightarrow> fail cur4 ''duplicate object key'' | Some r \<Rightarrow> Inr (r, cur4)))"
      unfolding prod.case Let_def by (intro colon within_skip_space)
  qed
  then show ?thesis using False by (simp add: object_member_def)
qed

lemma object_member_result:
  assumes "reader_ok n ok entry" and "object_member opts entry acc cur = Inr (acc', cur')"
    and "members_ok opts ok acc"
  shows "members_ok opts ok acc' \<and> length acc' = Suc (length acc)"
proof -
  obtain key c where k: "json_text opts cur = Inr (key, c)"
    using assms(2) by (auto simp: object_member_def fail_def and_then_eq_Inr split: if_splits)
  obtain c2 where c2: "take_char (CHR '':'') (skip_space c) = Some c2"
    using assms(2) k by (auto simp: object_member_def fail_def Let_def split: if_splits option.splits)
  obtain member c3 where m: "entry (skip_space c2) = Inr (member, c3)"
    using assms(2) k c2
    by (auto simp: object_member_def fail_def Let_def and_then_eq_Inr split: if_splits)
  have e: "map_emplace key member acc = Some acc'"
    using assms(2) k c2 m
    by (auto simp: object_member_def fail_def Let_def split: if_splits option.splits)
  show ?thesis
    using json_text_valid [OF k] reader_okD(2) [OF assms(1) m] map_emplace_set [OF e]
      map_emplace_sorted [OF e] assms(3)
    by (auto simp: members_ok_def list_all_iff)
qed

lemma object_loop_stays:
  assumes "reader_ok n ok entry"
  shows "within n cur \<Longrightarrow> stays n (object_loop k opts entry acc cur)"
proof (induction k arbitrary: acc cur)
  case 0
  then show ?case by (simp add: within_fst)
next
  case (Suc k)
  show ?case unfolding object_loop.simps
  proof (rule stays_and_then)
    show "stays n (object_member opts entry acc cur)" using object_member_stays [OF assms Suc.prems] .
    fix acc' cur1 assume "within n cur1"
    then show "stays n (case (acc', cur1) of (result', cur1) \<Rightarrow>
        let cur2 = skip_space cur1 in
        case take_char (CHR ''}'') cur2 of
          Some cur3 \<Rightarrow> Inr (Json_object result', cur3)
        | None \<Rightarrow> (case take_char (CHR '','') cur2 of
            None \<Rightarrow> fail cur2 ''expected comma or closing brace''
          | Some cur3 \<Rightarrow> object_loop k opts entry result' (skip_space cur3)))"
      unfolding prod.case using Suc.IH by (intro stays_separator) auto
  qed
qed

lemma object_loop_result:
  assumes "reader_ok n ok entry"
  shows "object_loop k opts entry acc cur = Inr (v, cur') \<Longrightarrow> members_ok opts ok acc \<Longrightarrow>
    \<exists>ms. v = Json_object ms \<and> members_ok opts ok ms \<and> length ms \<le> length acc + k"
proof (induction k arbitrary: acc cur)
  case 0
  then show ?case by (simp add: fail_def)
next
  case (Suc k)
  obtain acc' cur1 where x: "object_member opts entry acc cur = Inr (acc', cur1)"
    using Suc.prems(1) by (auto simp: and_then_eq_Inr)
  note ok = object_member_result [OF assms x Suc.prems(2)]
  show ?case
  proof (cases "take_char (CHR ''}'') (skip_space cur1)")
    case None
    then obtain cur3 where "object_loop k opts entry acc' (skip_space cur3) = Inr (v, cur')"
      using Suc.prems(1) x by (auto simp: Let_def fail_def split: option.splits)
    from Suc.IH [OF this] ok show ?thesis by auto
  next
    case (Some cur3)
    then have "v = Json_object acc'" using Suc.prems(1) x by (simp add: Let_def)
    then show ?thesis using ok by auto
  qed
qed

lemma object_value_ok:
  assumes "reader_ok n ok entry" and "snd cur \<noteq> []"
  shows "within n cur \<Longrightarrow> stays n (object_value opts entry cur)"
    and "object_value opts entry cur = Inr (v, cur') \<Longrightarrow>
      \<exists>ms. v = Json_object ms \<and> members_ok opts ok ms \<and> length ms \<le> max_container_entries opts"
proof -
  show "stays n (object_value opts entry cur)" if w: "within n cur"
  proof -
    have w1: "within n (skip_space (advance 1 cur))" using within_advance_1 [OF w assms(2)] by simp
    show ?thesis using object_loop_stays [OF assms(1) w1] within_take_char [OF _ w1]
      by (auto simp: object_value_def Let_def split: option.splits)
  qed
  have none: "members_ok opts ok []" by (simp add: members_ok_def)
  show "\<exists>ms. v = Json_object ms \<and> members_ok opts ok ms \<and> length ms \<le> max_container_entries opts"
    if "object_value opts entry cur = Inr (v, cur')"
  proof (cases "take_char (CHR ''}'') (skip_space (advance 1 cur))")
    case None
    then show ?thesis using that object_loop_result [OF assms(1) _ none]
      by (fastforce simp: object_value_def Let_def)
  next
    case (Some cur2)
    then show ?thesis using that none by (auto simp: object_value_def Let_def)
  qed
qed

text \<open>Numbers.\<close>

definition cursor_ok :: "nat \<Rightarrow> cursor result \<Rightarrow> bool" where
  "cursor_ok n m \<longleftrightarrow>
     (case m of
        Inl e \<Rightarrow> (case e of JsonError off _ \<Rightarrow> off \<le> n | _ \<Rightarrow> False)
      | Inr c \<Rightarrow> within n c)"

lemma cursor_ok_simps [simp]:
  "cursor_ok n (Inr c) \<longleftrightarrow> within n c" "cursor_ok n (fail cur msg) \<longleftrightarrow> fst cur \<le> n"
  by (simp_all add: cursor_ok_def fail_def)

lemma stays_after_cursor:
  assumes "cursor_ok n m" and "\<And>c. m = Inr c \<Longrightarrow> within n c \<Longrightarrow> stays n (f c)"
  shows "stays n (and_then m f)"
  using assms by (cases m) (auto simp: cursor_ok_def stays_def split: exn.splits)

lemma within_skip_digits: "within n cur \<Longrightarrow> within n (skip_digits cur)"
  unfolding skip_digits_def by (rule within_advance) (simp_all add: length_takeWhile_le)

lemma within_skip_head: "within n cur \<Longrightarrow> head_is p (snd cur) \<Longrightarrow> within n (advance 1 cur)"
  using within_advance_1 head_is_ne by blast

lemma within_skip_if: "within n cur \<Longrightarrow> within n (skip_if p cur)"
  unfolding skip_if_def using within_skip_head by (simp del: One_nat_def)

lemma number_parts_within:
  assumes w: "within n cur"
  shows "cursor_ok n (integer_part cur)" and "cursor_ok n (fraction_part cur)"
    and "cursor_ok n (exponent_part cur)"
proof -
  show "cursor_ok n (integer_part cur)"
  proof (cases "head_is (\<lambda>c. c = CHR ''0'') (snd cur)")
    case True
    note w1 = within_skip_head [OF w True]
    then show ?thesis using True within_fst [OF w1] by (simp add: integer_part_def Let_def)
  next
    case False
    then show ?thesis using within_fst [OF w] within_skip_digits [OF w] by (simp add: integer_part_def)
  qed
  show "cursor_ok n (fraction_part cur)"
  proof (cases "head_is (\<lambda>c. c = CHR ''.'') (snd cur)")
    case True
    note w1 = within_skip_head [OF w True]
    then show ?thesis using True within_fst [OF w1] within_skip_digits [OF w1]
      by (simp add: fraction_part_def Let_def)
  qed (use w in \<open>simp add: fraction_part_def\<close>)
  show "cursor_ok n (exponent_part cur)"
  proof (cases "head_is (\<lambda>c. c = CHR ''e'' \<or> c = CHR ''E'') (snd cur)")
    case True
    note w1 = within_skip_if [OF within_skip_head [OF w True], of "\<lambda>c. c = CHR ''+'' \<or> c = CHR ''-''"]
    then show ?thesis using True within_fst [OF w1] within_skip_digits [OF w1]
      by (simp add: exponent_part_def Let_def)
  qed (use w in \<open>simp add: exponent_part_def\<close>)
qed

lemma number_text_ok:
  "number_text cur = Inr (v, cur') \<Longrightarrow> \<exists>num. v = Json_number num \<and> valid_number num"
  using number_text_result [of "fst cur" "snd cur"] by auto

lemma number_text_stays:
  assumes "within n cur"
  shows "stays n (number_text cur)"
proof -
  have parts: "stays n (and_then (integer_part (skip_if p cur)) (\<lambda>cur1.
      and_then (fraction_part cur1) (\<lambda>cur2.
      and_then (exponent_part cur2) (\<lambda>cur3. Inr ((), cur3)))))" for p
    by (intro stays_after_cursor number_parts_within) (auto simp: within_skip_if assms)
  obtain at s where cur: "cur = (at, s)" by fastforce
  from number_text_result [of at s] show ?thesis
  proof
    assume "\<exists>text rest. s = text @ rest \<and> text \<noteq> [] \<and> valid_number text \<and>
      number_text (at, s) = Inr (Json_number text, (at + length text, rest))"
    then show ?thesis using assms by (auto simp: cur within_def)
  next
    assume "\<exists>off m. number_text (at, s) = Inl (JsonError off m)"
    then obtain off m where e: "number_text (at, s) = Inl (JsonError off m)" by blast
    then have "and_then (integer_part (skip_if (\<lambda>c. c = CHR ''-'') cur)) (\<lambda>cur1.
        and_then (fraction_part cur1) (\<lambda>cur2.
        and_then (exponent_part cur2) (\<lambda>cur3. Inr ((), cur3)))) = Inl (JsonError off m)"
      by (auto simp: number_text_def cur and_then_eq_Inl json_number_def split: if_splits)
    then show ?thesis using parts [of "\<lambda>c. c = CHR ''-''"] e by (simp add: stays_def cur)
  qed
qed

subsection \<open>The whole reader\<close>

lemma reader_okI:
  assumes "\<And>cur. within n cur \<Longrightarrow> stays n (f cur)"
    and "\<And>cur v cur'. f cur = Inr (v, cur') \<Longrightarrow> ok v"
  shows "reader_ok n ok f"
  using assms unfolding reader_ok_def by blast

lemma literal_ok:
  "within n cur \<Longrightarrow> stays n (literal w v cur)" "literal w v cur = Inr (u, cur') \<Longrightarrow> u = v"
proof -
  have "length w \<le> length (snd cur)" if "take (length w) (snd cur) = w"
    by (metis that length_take min.cobounded1)
  then show "within n cur \<Longrightarrow> stays n (literal w v cur)"
    by (auto simp: literal_def take_word_def within_fst intro: within_advance)
qed (auto simp: literal_def fail_def split: option.splits)

lemma json_value_reader: "reader_ok n (json_ok opts levels) (json_value opts levels)"
proof (induction levels)
  case 0
  show ?case by (rule reader_okI, auto simp: within_fst, simp add: fail_def)
next
  case (Suc levels)
  note array = array_value_ok [OF Suc.IH] and object = object_value_ok [OF Suc.IH]
  have text_stays: "stays n (and_then (json_text opts cur) (\<lambda>(s, cur1). Inr (Json_string s, cur1)))"
    if "within n cur" for cur
    using stays_json_text [OF that, of opts] by (auto intro!: stays_and_then)
  show ?case
  proof (rule reader_okI)
    fix cur assume w: "within n cur"
    show "stays n (json_value opts (Suc levels) cur)"
      using w text_stays [OF w] array(1) [OF _ w] object(1) [OF _ w] number_text_stays [OF w]
        literal_ok(1) [OF w]
      by (auto simp: Let_def within_fst)
  next
    fix cur v cur' assume r: "json_value opts (Suc levels) cur = Inr (v, cur')"
    then have ne: "snd cur \<noteq> []" by (auto simp: fail_def split: if_splits)
    consider "v \<in> {Json_null, Json_bool True, Json_bool False}"
      | s where "json_text opts cur = Inr (s, cur')" "v = Json_string s"
      | "array_value opts (json_value opts levels) cur = Inr (v, cur')"
      | "object_value opts (json_value opts levels) cur = Inr (v, cur')"
      | "number_text cur = Inr (v, cur')"
      using r ne literal_ok(2)
      by (auto simp: Let_def and_then_eq_Inr split: if_splits)
    then show "json_ok opts (Suc levels) v"
    proof cases
      case 2
      then show ?thesis using json_text_valid by auto
    next
      case 3
      then show ?thesis using array(2) [OF ne 3] by auto
    next
      case 4
      then show ?thesis using object(2) [OF ne 4] by (auto simp: members_ok_def)
    next
      case 5
      then show ?thesis using number_text_ok [OF 5] by auto
    qed auto
  qed
qed

lemma parse_json_ok: "parse_json input opts = Inr v \<Longrightarrow> json_ok opts (max_depth opts) v"
proof -
  assume "parse_json input opts = Inr v"
  then obtain cur where "json_value opts (max_depth opts) (skip_space (0, input)) = Inr (v, cur)"
    by (auto simp: parse_json_def and_then_eq_Inr Let_def fail_def split: if_splits)
  then show ?thesis by (rule reader_okD(2) [OF json_value_reader])
qed

lemma parse_json_error:
  assumes "parse_json input opts = Inl e"
  shows "\<exists>off m. e = JsonError off m \<and> off \<le> length input"
proof -
  have "within (length input) (skip_space (0, input))" by (simp add: within_def [of _ "(0, input)"])
  note v = reader_okD(1) [OF json_value_reader this, of opts "max_depth opts"]
  have "stays (length input) (and_then (json_value opts (max_depth opts) (skip_space (0, input)))
      (\<lambda>(v, cur1). let cur2 = skip_space cur1
        in if snd cur2 \<noteq> [] then fail cur2 ''trailing data'' else Inr (v, cur2)))"
    using v by (auto intro!: stays_and_then simp: Let_def within_fst)
  moreover have "and_then (json_value opts (max_depth opts) (skip_space (0, input)))
      (\<lambda>(v, cur1). let cur2 = skip_space cur1
        in if snd cur2 \<noteq> [] then fail cur2 ''trailing data'' else Inr (v, cur2)) = Inl e"
    using assms by (auto simp: parse_json_def and_then_eq_Inl Let_def fail_def split: if_splits)
  ultimately show ?thesis by (auto simp: stays_def split: exn.splits)
qed

subsection \<open>Properties\<close>

text \<open>C33: What \<open>write_json\<close> writes for a value within the limits is read by \<open>parse_json\<close> as the same
  value.\<close>

theorem json_write_parse:
  assumes "json_ok opts (max_depth opts) v"
  shows "\<exists>out. write_json v = Inr out \<and> parse_json out opts = Inr v"
  using assms by (rule parse_written)

theorem json_write_parse_witness:
  "\<exists>out. write_json (Json_object [(''a'', Json_array [Json_bool True, Json_number ''-1.5e2'']),
       (''b'', Json_string [CHR 0x0A, CHR 0x22])]) = Inr out \<and>
     parse_json out \<lparr> max_depth = 3, max_string_bytes = 4, max_container_entries = 2 \<rparr> =
       Inr (Json_object [(''a'', Json_array [Json_bool True, Json_number ''-1.5e2'']),
         (''b'', Json_string [CHR 0x0A, CHR 0x22])])"
  by (rule json_write_parse) code_simp

text \<open>Whatever \<open>parse_json\<close> accepts can be written: its strings are valid UTF-8, so \<open>write_json\<close> does
  not throw, and reading the text again gives the same value.\<close>

lemma json_parse_write_parse:
  assumes "parse_json input opts = Inr v"
  shows "\<exists>out. write_json v = Inr out \<and> parse_json out opts = Inr v"
  using parse_json_ok [OF assms] by (rule parse_written)

text \<open>The outcome of \<open>parse_json\<close> is either a \<open>JsonError\<close>, never another exception, whose offset lies in
  the input, or a value that keeps every limit: depth, entries of a container, bytes of a string, strictly
  increasing keys, numbers of the grammar and valid UTF-8.\<close>

lemma parse_json_outcome:
  "(case parse_json input opts of
      Inl e \<Rightarrow> (case e of JsonError off _ \<Rightarrow> off \<le> length input | _ \<Rightarrow> False)
    | Inr v \<Rightarrow> json_ok opts (max_depth opts) v)"
  using parse_json_error [of input opts] parse_json_ok [of input opts] by (auto split: sum.splits)

text \<open>The number scanner of the reader and \<open>valid_number\<close>, which repeats the grammar, accept the same
  texts.\<close>

lemma number_scanners_agree:
  "(number_text (0, num) = Inr (v, (length num, []))) \<longleftrightarrow> valid_number num \<and> v = Json_number num"
  using number_text_result [of 0 num] number_text_written [of num "[]" 0]
  by (auto simp: number_stops_def)

end
