(* ===== verification/Atomic_Cache.thy ===== *)
theory Atomic_Cache
  imports Prelude
begin

section \<open>Caches that are published once (\<open>src/geist/detail/core/atomic_cache.hpp\<close>)\<close>

text \<open>
  Several threads call \<open>publish_once\<close> on one slot. A step of the model is one atomic access to the slot
  or the computation between two of them; the schedule interleaves the threads' steps in any order. A
  pointer is a value of type \<open>'p\<close>, the null pointer is \<open>None\<close>, and \<open>compute t\<close> is the pointer the
  computation of thread \<open>t\<close> returns, its own for every thread.
\<close>

subsection \<open>The steps of a call\<close>

datatype 'p call =
    Load
  | Compute
  | Exchange "'p option"
  | Return "'p option"

record 'p cache =
  slot :: "'p option"
  calls :: "'p call list"

definition peek_cache :: "'p cache \<Rightarrow> 'p option" where
  "peek_cache c = slot c"

definition compare_exchange :: "'p option \<Rightarrow> 'p option \<Rightarrow> 'p option \<Rightarrow> bool \<times> 'p option \<times> 'p option" where
  "compare_exchange current expected desired =
     (if current = expected then (True, desired, expected) else (False, current, current))"

definition publish_step :: "(nat \<Rightarrow> 'p option) \<Rightarrow> nat \<Rightarrow> 'p cache \<Rightarrow> 'p cache" where
  "publish_step compute t c =
     (case calls c ! t of
        Load \<Rightarrow>
          (case slot c of
             Some published \<Rightarrow> c\<lparr>calls := (calls c)[t := Return (Some published)]\<rparr>
           | None \<Rightarrow> c\<lparr>calls := (calls c)[t := Compute]\<rparr>)
      | Compute \<Rightarrow> c\<lparr>calls := (calls c)[t := Exchange (compute t)]\<rparr>
      | Exchange fresh \<Rightarrow>
          (case compare_exchange (slot c) None fresh of
             (True, current, _) \<Rightarrow> c\<lparr>slot := current, calls := (calls c)[t := Return fresh]\<rparr>
           | (False, _, expected) \<Rightarrow> c\<lparr>calls := (calls c)[t := Return expected]\<rparr>)
      | Return r \<Rightarrow> c)"

definition fresh_cache :: "nat \<Rightarrow> 'p cache" where
  "fresh_cache n = \<lparr> slot = None, calls = replicate n Load \<rparr>"

text \<open>A schedule is the sequence of the threads that take a step.\<close>

fun run_schedule :: "(nat \<Rightarrow> 'p option) \<Rightarrow> nat list \<Rightarrow> 'p cache \<Rightarrow> 'p cache" where
  "run_schedule compute [] c = c"
| "run_schedule compute (t # ts) c = run_schedule compute ts (publish_step compute t c)"

subsection \<open>The step relation\<close>

inductive publishes :: "(nat \<Rightarrow> 'p option) \<Rightarrow> nat \<Rightarrow> 'p cache \<Rightarrow> 'p cache \<Rightarrow> bool"
  for compute :: "nat \<Rightarrow> 'p option" and t :: nat where
  hit: "\<lbrakk> t < length (calls c); calls c ! t = Load; slot c = Some p \<rbrakk> \<Longrightarrow>
    publishes compute t c (c\<lparr>calls := (calls c)[t := Return (Some p)]\<rparr>)"
| miss: "\<lbrakk> t < length (calls c); calls c ! t = Load; slot c = None \<rbrakk> \<Longrightarrow>
    publishes compute t c (c\<lparr>calls := (calls c)[t := Compute]\<rparr>)"
| computed: "\<lbrakk> t < length (calls c); calls c ! t = Compute \<rbrakk> \<Longrightarrow>
    publishes compute t c (c\<lparr>calls := (calls c)[t := Exchange (compute t)]\<rparr>)"
| won: "\<lbrakk> t < length (calls c); calls c ! t = Exchange fresh; slot c = None \<rbrakk> \<Longrightarrow>
    publishes compute t c (c\<lparr>slot := fresh, calls := (calls c)[t := Return fresh]\<rparr>)"
| lost: "\<lbrakk> t < length (calls c); calls c ! t = Exchange fresh; slot c = Some p \<rbrakk> \<Longrightarrow>
    publishes compute t c (c\<lparr>calls := (calls c)[t := Return (Some p)]\<rparr>)"

inductive_cases publishes_cases: "publishes compute t c c'"

definition returned :: "'p call \<Rightarrow> bool" where
  "returned call = (case call of Return _ \<Rightarrow> True | _ \<Rightarrow> False)"

lemma returned_simps [simp]:
  "\<not> returned Load" "\<not> returned Compute" "\<not> returned (Exchange r)" "returned (Return r)"
  by (simp_all add: returned_def)

text \<open>The relation is the function, and stops only at a call that has returned.\<close>

lemma publishes_step:
  assumes "t < length (calls c)"
  shows "publishes compute t c c' \<longleftrightarrow>
    \<not> returned (calls c ! t) \<and> c' = publish_step compute t c"
proof
  assume "publishes compute t c c'"
  then show "\<not> returned (calls c ! t) \<and> c' = publish_step compute t c"
    by (cases rule: publishes_cases) (auto simp: publish_step_def compare_exchange_def)
next
  assume r: "\<not> returned (calls c ! t) \<and> c' = publish_step compute t c"
  show "publishes compute t c c'"
  proof (cases "calls c ! t")
    case Load
    then show ?thesis using r assms publishes.hit [of t c _ compute] publishes.miss [of t c compute]
      by (cases "slot c") (auto simp: publish_step_def)
  next
    case Compute
    then show ?thesis using r assms publishes.computed [of t c compute]
      by (auto simp: publish_step_def)
  next
    case (Exchange fresh)
    then show ?thesis
      using r assms publishes.won [of t c fresh compute] publishes.lost [of t c fresh _ compute]
      by (cases "slot c") (auto simp: publish_step_def compare_exchange_def)
  qed (use r in simp)
qed

inductive reachable :: "(nat \<Rightarrow> 'p option) \<Rightarrow> nat \<Rightarrow> 'p cache \<Rightarrow> bool"
  for compute :: "nat \<Rightarrow> 'p option" and n :: nat where
  start: "reachable compute n (fresh_cache n)"
| step: "\<lbrakk> reachable compute n c; t < n; publishes compute t c c' \<rbrakk> \<Longrightarrow> reachable compute n c'"

subsection \<open>The invariant\<close>

definition call_ok :: "(nat \<Rightarrow> 'p option) \<Rightarrow> 'p option \<Rightarrow> nat \<Rightarrow> 'p call \<Rightarrow> bool" where
  "call_ok compute s t call =
     (case call of
        Exchange fresh \<Rightarrow> fresh = compute t
      | Return r \<Rightarrow> r = s \<and> s \<noteq> None
      | _ \<Rightarrow> True)"

definition cache_ok :: "(nat \<Rightarrow> 'p option) \<Rightarrow> nat \<Rightarrow> 'p cache \<Rightarrow> bool" where
  "cache_ok compute n c \<longleftrightarrow>
     length (calls c) = n \<and>
     (slot c = None \<or> slot c \<in> compute ` {..<n}) \<and>
     (\<forall>t < n. call_ok compute (slot c) t (calls c ! t))"

lemma call_ok_simps [simp]:
  "call_ok compute s t Load" "call_ok compute s t Compute"
  "call_ok compute s t (Exchange fresh) \<longleftrightarrow> fresh = compute t"
  "call_ok compute s t (Return r) \<longleftrightarrow> r = s \<and> s \<noteq> None"
  by (simp_all add: call_ok_def)

lemma call_ok_filled:
  assumes "call_ok compute None t call"
  shows "call_ok compute s t call"
  using assms by (cases call) auto

lemma cache_ok_update:
  assumes "cache_ok compute n c" and "t < n" and "call_ok compute (slot c) t call"
  shows "cache_ok compute n (c\<lparr>calls := (calls c)[t := call]\<rparr>)"
  using assms by (auto simp: cache_ok_def nth_list_update)

lemma cache_ok_step:
  assumes "publishes compute t c c'" and ok: "cache_ok compute n c" and t: "t < n"
    and nonnull: "compute t \<noteq> None"
  shows "cache_ok compute n c'"
  using assms(1)
proof (cases rule: publishes.cases)
  case (won fresh)
  have "call_ok compute (slot c) t (calls c ! t)" using ok t by (simp add: cache_ok_def)
  then have "fresh = compute t" using won by simp
  moreover have "\<forall>u < n. call_ok compute fresh u (calls c ! u)"
    using ok won(4) by (auto simp: cache_ok_def intro: call_ok_filled)
  ultimately show ?thesis using ok won t nonnull by (auto simp: cache_ok_def nth_list_update)
qed (use cache_ok_update [OF ok t] in auto)

lemma cache_ok_start: "cache_ok compute n (fresh_cache n)"
  by (simp add: cache_ok_def fresh_cache_def)

lemma reachable_ok:
  assumes "reachable compute n c" and "\<And>t. t < n \<Longrightarrow> compute t \<noteq> None"
  shows "cache_ok compute n c"
  using assms(1)
proof induction
  case start
  show ?case by (rule cache_ok_start)
next
  case (step c t c')
  then show ?case using cache_ok_step assms(2) by blast
qed

lemma publish_step_length [simp]: "length (calls (publish_step compute t c)) = length (calls c)"
  by (auto simp: publish_step_def compare_exchange_def split: call.splits option.splits)

lemma run_reachable:
  "reachable compute n c \<Longrightarrow> length (calls c) = n \<Longrightarrow> list_all (\<lambda>t. t < n) ts \<Longrightarrow>
   reachable compute n (run_schedule compute ts c)"
proof (induction ts arbitrary: c)
  case (Cons t ts)
  then have t: "t < n" "t < length (calls c)" by auto
  have "reachable compute n (publish_step compute t c)"
  proof (cases "returned (calls c ! t)")
    case True
    then have "publish_step compute t c = c"
      by (cases "calls c ! t") (simp_all add: publish_step_def)
    then show ?thesis using Cons.prems by simp
  next
    case False
    then show ?thesis using Cons.prems(1) t publishes_step [OF t(2)] by (auto intro: reachable.step)
  qed
  then show ?case using Cons by simp
qed simp

subsection \<open>The abstract cell\<close>

text \<open>
  What a caller relies on: a cell that is written once. A call is one atomic step that takes the value of
  the cell, writing its own pointer first when the cell is empty.
\<close>

record 'p once_cell =
  cell :: "'p option"
  answers :: "'p option option list"

inductive once_step :: "(nat \<Rightarrow> 'p option) \<Rightarrow> 'p once_cell \<Rightarrow> 'p once_cell \<Rightarrow> bool"
  for compute :: "nat \<Rightarrow> 'p option" where
  stays: "once_step compute a a"
| fills: "\<lbrakk> t < length (answers a); answers a ! t = None; cell a = None \<rbrakk> \<Longrightarrow>
    once_step compute a \<lparr> cell = compute t, answers = (answers a)[t := Some (compute t)] \<rparr>"
| reads: "\<lbrakk> t < length (answers a); answers a ! t = None; cell a = Some p \<rbrakk> \<Longrightarrow>
    once_step compute a (a\<lparr> answers := (answers a)[t := Some (Some p)] \<rparr>)"

definition answer :: "'p call \<Rightarrow> 'p option option" where
  "answer call = (case call of Return r \<Rightarrow> Some r | _ \<Rightarrow> None)"

definition abstract_cell :: "'p cache \<Rightarrow> 'p once_cell" where
  "abstract_cell c = \<lparr> cell = slot c, answers = map answer (calls c) \<rparr>"

lemma answer_simps [simp]:
  "answer Load = None" "answer Compute = None" "answer (Exchange f) = None" "answer (Return r) = Some r"
  by (simp_all add: answer_def)

lemma map_update_same:
  "t < length xs \<Longrightarrow> f y = f (xs ! t) \<Longrightarrow> map f (xs[t := y]) = map f xs"
  by (metis list_update_id map_update)

lemma publishes_simulates:
  assumes "publishes compute t c c'" and "cache_ok compute n c" and "t < n"
  shows "once_step compute (abstract_cell c) (abstract_cell c')"
  using assms(1)
proof (cases rule: publishes.cases)
  case (hit p)
  then show ?thesis using once_step.reads [of t "abstract_cell c" p compute]
    by (simp add: abstract_cell_def map_update)
next
  case miss
  then show ?thesis by (simp add: abstract_cell_def map_update_same once_step.stays)
next
  case computed
  then show ?thesis by (simp add: abstract_cell_def map_update_same once_step.stays)
next
  case (won fresh)
  have "call_ok compute (slot c) t (calls c ! t)" using assms(2,3) by (simp add: cache_ok_def)
  then have "fresh = compute t" using won by simp
  then show ?thesis using won once_step.fills [of t "abstract_cell c" compute]
    by (simp add: abstract_cell_def map_update)
next
  case (lost fresh p)
  then show ?thesis using once_step.reads [of t "abstract_cell c" p compute]
    by (simp add: abstract_cell_def map_update)
qed

subsection \<open>Progress\<close>

definition steps_left :: "'p call \<Rightarrow> nat" where
  "steps_left call = (case call of Load \<Rightarrow> 3 | Compute \<Rightarrow> 2 | Exchange _ \<Rightarrow> 1 | Return _ \<Rightarrow> 0)"

lemma publish_step_other: "u \<noteq> t \<Longrightarrow> calls (publish_step compute t c) ! u = calls c ! u"
  by (auto simp: publish_step_def compare_exchange_def split: call.splits option.splits)

lemma publish_step_own:
  "t < length (calls c) \<Longrightarrow>
   steps_left (calls (publish_step compute t c) ! t) \<le> steps_left (calls c ! t) - 1"
  by (auto simp: publish_step_def compare_exchange_def steps_left_def
      split: call.splits option.splits)

lemma run_steps_left:
  "t < length (calls c) \<Longrightarrow>
   steps_left (calls (run_schedule compute ts c) ! t) \<le> steps_left (calls c ! t) - count_list ts t"
proof (induction ts arbitrary: c)
  case (Cons u ts)
  have "steps_left (calls (publish_step compute u c) ! t) \<le>
      steps_left (calls c ! t) - (if u = t then 1 else 0)"
    using publish_step_own [OF Cons.prems] publish_step_other [of t u compute c] by auto
  then show ?case using Cons.IH [of "publish_step compute u c"] Cons.prems by auto
qed simp

lemma steps_left_0: "steps_left call = 0 \<Longrightarrow> \<exists>r. call = Return r"
  by (cases call) (auto simp: steps_left_def)

lemma run_schedule_length [simp]: "length (calls (run_schedule compute ts c)) = length (calls c)"
  by (induction ts arbitrary: c) auto

lemma run_schedule_slot: "slot c = Some p \<Longrightarrow> slot (run_schedule compute ts c) = Some p"
proof (induction ts arbitrary: c)
  case (Cons t ts)
  then have "slot (publish_step compute t c) = Some p"
    by (auto simp: publish_step_def compare_exchange_def split: call.splits option.splits)
  then show ?case using Cons.IH by simp
qed simp

subsection \<open>Properties\<close>

text \<open>C34: Every step of any interleaving of calls of \<open>publish_once\<close> is a step of the cell that is
  written once: it answers one call with the value of the cell, or writes the cell and answers with what it
  wrote, or changes nothing a caller sees.\<close>

theorem publish_once_refines:
  assumes "reachable compute n c" and "\<And>t. t < n \<Longrightarrow> compute t \<noteq> None"
    and "t < n" and "publishes compute t c c'"
  shows "once_step compute (abstract_cell c) (abstract_cell c')"
  using publishes_simulates [OF assms(4) reachable_ok [OF assms(1,2)] assms(3)] .

definition own_pointer :: "nat \<Rightarrow> nat option" where
  "own_pointer t = Some (t + 10)"

lemma own_pointer_nonnull: "own_pointer t \<noteq> None"
  by (simp add: own_pointer_def)

theorem publish_once_refines_witness:
  "once_step own_pointer
     (abstract_cell \<lparr> slot = None, calls = [Exchange (Some 10), Compute] \<rparr>)
     (abstract_cell \<lparr> slot = Some 10, calls = [Return (Some 10), Compute] \<rparr>)"
proof -
  let ?c = "\<lparr> slot = None, calls = [Exchange (Some 10), Compute] \<rparr>"
  let ?d = "\<lparr> slot = Some 10, calls = [Return (Some 10), Compute] \<rparr>"
  have c: "run_schedule own_pointer [0, 1, 0] (fresh_cache 2) = ?c" by code_simp
  have r: "reachable own_pointer 2 ?c"
    using run_reachable [OF reachable.start, of 2 "[0, 1, 0]" own_pointer] unfolding c
    by (simp add: fresh_cache_def)
  have "publishes own_pointer 0 ?c ?d"
    using publishes.won [of 0 ?c "Some 10" own_pointer] by simp
  then show ?thesis using publish_once_refines [OF r own_pointer_nonnull, of 0] by simp
qed

text \<open>In every reachable state all calls that have returned hold one and the same non-null pointer,
  the one in the slot, and it was computed by one of the threads.\<close>

lemma publish_once_agrees:
  assumes "reachable compute n c" and "\<And>t. t < n \<Longrightarrow> compute t \<noteq> None"
    and "t < n" and "calls c ! t = Return r"
  shows "r = peek_cache c \<and> r \<noteq> None \<and> r \<in> compute ` {..<n}"
proof -
  have ok: "cache_ok compute n c" using reachable_ok [OF assms(1,2)] .
  then have "call_ok compute (slot c) t (calls c ! t)" using assms(3) by (simp add: cache_ok_def)
  then show ?thesis using ok assms(4) by (auto simp: cache_ok_def peek_cache_def)
qed

text \<open>C35: A call is never blocked: however the threads are scheduled, a thread that has taken three steps
  of its own has returned, with the pointer that is in the slot and stays there for every later step.\<close>

theorem publish_once_wait_free:
  assumes "t < n" and "\<And>u. u < n \<Longrightarrow> compute u \<noteq> None" and "list_all (\<lambda>u. u < n) ts"
    and "3 \<le> count_list ts t"
  shows "\<exists>p. calls (run_schedule compute ts (fresh_cache n)) ! t = Return (Some p) \<and>
    (\<forall>later. slot (run_schedule compute later (run_schedule compute ts (fresh_cache n))) = Some p)"
proof -
  let ?c = "run_schedule compute ts (fresh_cache n)"
  have "steps_left (calls ?c ! t) = 0"
  proof -
    have "t < length (calls (fresh_cache n :: 'a cache))" using assms(1) by (simp add: fresh_cache_def)
    note left = run_steps_left [OF this, of compute ts]
    have "steps_left (calls (fresh_cache n :: 'a cache) ! t) = 3"
      using assms(1) by (simp add: fresh_cache_def steps_left_def)
    then show ?thesis using left assms(4) by linarith
  qed
  from steps_left_0 [OF this] obtain r where r: "calls ?c ! t = Return r" ..
  have "reachable compute n ?c"
    by (rule run_reachable [OF reachable.start _ assms(3)]) (simp add: fresh_cache_def)
  from reachable_ok [OF this assms(2)] have "call_ok compute (slot ?c) t (calls ?c ! t)"
    using assms(1) by (simp add: cache_ok_def)
  then obtain p where p: "r = Some p" "slot ?c = Some p" unfolding r call_ok_simps by fastforce
  have "slot (run_schedule compute later ?c) = Some p" for later
    using run_schedule_slot [OF p(2)] .
  then show ?thesis using r p(1) by (intro exI [of _ p] conjI allI) simp_all
qed

theorem publish_once_wait_free_witness:
  "\<exists>p. calls (run_schedule own_pointer [1, 0, 0, 1, 0] (fresh_cache 2)) ! 0 = Return (Some p)"
  using publish_once_wait_free [of 0 2 own_pointer "[1, 0, 0, 1, 0]"] own_pointer_nonnull by auto

end
