(* ===== verification/Snapshot.thy ===== *)
theory Snapshot
  imports Strings
begin

section \<open>The shelf snapshot (\<open>src/apache/shelf_snapshot.cpp\<close>)\<close>

text \<open>
  The file in which the web module keeps what it knows of the books on a shelf: a magic, a version, the
  directory and the producer it was written for, one identity per book and a checksum. Numbers are
  little-endian of fixed width, strings are length-prefixed. A signed 64-bit field is a 64-bit word read
  with \<open>sint\<close>; reading gives \<open>None\<close> where the code returns \<open>false\<close>.
\<close>

subsection \<open>Data (\<open>src/apache/shelf_snapshot.hpp\<close>)\<close>

record file_stamp =
  stamp_mtime :: u64
  stamp_ctime :: u64
  stamp_size :: u64
  stamp_device :: u64
  stamp_inode :: u64

record shelf_entry =
  shelf_filename :: string
  shelf_title :: string
  shelf_document_number :: string
  shelf_built :: string
  shelf_size :: u64
  shelf_readable :: bool

record shelf_identity =
  identity_stamp :: file_stamp
  identity_entry :: shelf_entry

record shelf_snapshot =
  snapshot_directory :: string
  snapshot_producer :: string
  snapshot_identities :: "shelf_identity list"

definition same_stamp :: "file_stamp \<Rightarrow> file_stamp \<Rightarrow> bool" where
  "same_stamp s t \<longleftrightarrow>
     stamp_mtime s = stamp_mtime t \<and> stamp_ctime s = stamp_ctime t \<and> stamp_size s = stamp_size t \<and>
     stamp_device s = stamp_device t \<and> stamp_inode s = stamp_inode t"

definition max_snapshot_bytes :: nat where
  "max_snapshot_bytes = 64 * 1024 * 1024"

definition max_string_bytes :: nat where
  "max_string_bytes = 65536"

definition max_identities :: nat where
  "max_identities = 100000"

text \<open>\<open>GSTIDX01\<close>.\<close>

definition snapshot_magic :: bytes where
  "snapshot_magic = [0x47, 0x53, 0x54, 0x49, 0x44, 0x58, 0x30, 0x31]"

definition snapshot_checksum :: "bytes \<Rightarrow> u64" where
  "snapshot_checksum bs =
     foldl (\<lambda>hash b. (hash XOR ucast b) * 1099511628211) 14695981039346656037 bs"

definition valid_filename :: "string \<Rightarrow> bool" where
  "valid_filename name \<longleftrightarrow>
     name \<noteq> [] \<and> name \<noteq> ''.'' \<and> name \<noteq> ''..'' \<and>
     list_all (\<lambda>ch. ch \<noteq> CHR ''/'' \<and> ch \<noteq> CHR 0x5C) name \<and> list_all (\<lambda>ch. ch \<noteq> CHR 0x00) name"

subsection \<open>The writer\<close>

fun le_bytes :: "nat \<Rightarrow> u64 \<Rightarrow> bytes" where
  "le_bytes 0 v = []"
| "le_bytes (Suc width) v = ucast v # le_bytes width (drop_bit 8 v)"

definition write_number :: "u64 \<Rightarrow> nat \<Rightarrow> bytes \<Rightarrow> bytes result" where
  "write_number v width out =
     (if length out > max_snapshot_bytes - width then Inl (LengthError ''shelf snapshot too large'')
      else Inr (out @ le_bytes width v))"

definition text_bytes :: "string \<Rightarrow> bytes" where
  "text_bytes s = map (\<lambda>ch. of_nat (char_code ch)) s"

definition write_text :: "string \<Rightarrow> bytes \<Rightarrow> bytes result" where
  "write_text s out =
     (if length s > max_string_bytes \<or> length out > max_snapshot_bytes - 4 - length s
      then Inl (LengthError ''shelf snapshot string too large'')
      else and_then (write_number (of_nat (length s)) 4 out) (\<lambda>out'. Inr (out' @ text_bytes s)))"

definition write_signed :: "u64 \<Rightarrow> bytes \<Rightarrow> bytes result" where
  "write_signed v out =
     (if sint v < 0 then Inl (InvalidArgument ''negative shelf file metadata'') else write_number v 8 out)"

definition write_identity :: "shelf_identity \<Rightarrow> bytes \<Rightarrow> bytes result" where
  "write_identity identity out =
     (let e = identity_entry identity; st = identity_stamp identity in
      and_then (write_text (shelf_filename e) out) (\<lambda>out.
      and_then (write_signed (stamp_mtime st) out) (\<lambda>out.
      and_then (write_signed (stamp_ctime st) out) (\<lambda>out.
      and_then (write_signed (stamp_size st) out) (\<lambda>out.
      and_then (write_number (stamp_device st) 8 out) (\<lambda>out.
      and_then (write_number (stamp_inode st) 8 out) (\<lambda>out.
      and_then (write_text (shelf_title e) out) (\<lambda>out.
      and_then (write_text (shelf_document_number e) out) (\<lambda>out.
      write_text (shelf_built e) out)))))))))"

text \<open>The loop over the identities; \<open>names\<close> are the file names written so far.\<close>

fun write_identities :: "string set \<Rightarrow> shelf_identity list \<Rightarrow> bytes \<Rightarrow> bytes result" where
  "write_identities names [] out = Inr out"
| "write_identities names (identity # rest) out =
     (let e = identity_entry identity in
      if \<not> shelf_readable e \<or> \<not> valid_filename (shelf_filename e) \<or> shelf_filename e \<in> names \<or>
         shelf_size e \<noteq> stamp_size (identity_stamp identity)
      then Inl (InvalidArgument ''invalid shelf identity'')
      else and_then (write_identity identity out)
             (write_identities (insert (shelf_filename e) names) rest))"

definition encode_snapshot :: "shelf_snapshot \<Rightarrow> bytes result" where
  "encode_snapshot snapshot =
     (let ids = snapshot_identities snapshot in
      if length ids > max_identities then Inl (LengthError ''too many shelf identities'')
      else and_then (write_number 1 4 snapshot_magic) (\<lambda>out.
           and_then (write_text (snapshot_directory snapshot) out) (\<lambda>out.
           and_then (write_text (snapshot_producer snapshot) out) (\<lambda>out.
           and_then (write_number (of_nat (length ids)) 4 out) (\<lambda>out.
           and_then (write_identities {} ids out) (\<lambda>out.
           write_number (snapshot_checksum out) 8 out))))))"

subsection \<open>The reader\<close>

fun le_value :: "nat \<Rightarrow> bytes \<Rightarrow> u64" where
  "le_value i [] = 0"
| "le_value i (b # bs) = push_bit (8 * i) (ucast b) OR le_value (i + 1) bs"

definition read_number :: "nat \<Rightarrow> bytes \<Rightarrow> nat \<Rightarrow> (u64 \<times> nat) option" where
  "read_number width bs offset =
     (if width > length bs - offset then None
      else Some (le_value 0 (slice bs offset (offset + width)), offset + width))"

definition read_signed :: "bytes \<Rightarrow> nat \<Rightarrow> (u64 \<times> nat) option" where
  "read_signed bs offset =
     (case read_number 8 bs offset of
        None \<Rightarrow> None
      | Some (v, offset') \<Rightarrow> if v > 0x7FFFFFFFFFFFFFFF then None else Some (v, offset'))"

definition read_text :: "bytes \<Rightarrow> nat \<Rightarrow> (string \<times> nat) option" where
  "read_text bs offset =
     (case read_number 4 bs offset of
        None \<Rightarrow> None
      | Some (n, offset') \<Rightarrow>
          if unat n > max_string_bytes \<or> unat n > length bs - offset' then None
          else Some (map (\<lambda>b. char_of (unat b)) (slice bs offset' (offset' + unat n)), offset' + unat n))"

text \<open>\<open>fresh\<close> fields are filled one by one; a missing one ends the decoding.\<close>

definition get_field :: "('a \<times> nat) option \<Rightarrow> ('a \<Rightarrow> nat \<Rightarrow> 'b option) \<Rightarrow> 'b option" where
  "get_field m k = (case m of None \<Rightarrow> None | Some (v, offset) \<Rightarrow> k v offset)"

definition read_identity :: "bytes \<Rightarrow> string set \<Rightarrow> nat \<Rightarrow> (shelf_identity \<times> nat) option" where
  "read_identity bs names offset =
     get_field (read_text bs offset) (\<lambda>name offset.
     if \<not> valid_filename name \<or> name \<in> names then None
     else get_field (read_signed bs offset) (\<lambda>mtime offset.
     get_field (read_signed bs offset) (\<lambda>ctime offset.
     get_field (read_signed bs offset) (\<lambda>bytes_size offset.
     get_field (read_number 8 bs offset) (\<lambda>device offset.
     get_field (read_number 8 bs offset) (\<lambda>inode offset.
     get_field (read_text bs offset) (\<lambda>title offset.
     get_field (read_text bs offset) (\<lambda>number offset.
     get_field (read_text bs offset) (\<lambda>built offset.
     Some (\<lparr> identity_stamp = \<lparr> stamp_mtime = mtime, stamp_ctime = ctime, stamp_size = bytes_size,
                                 stamp_device = device, stamp_inode = inode \<rparr>,
             identity_entry = \<lparr> shelf_filename = name, shelf_title = title, shelf_document_number = number,
                                shelf_built = built, shelf_size = bytes_size, shelf_readable = True \<rparr> \<rparr>,
           offset))))))))))"

fun read_identities ::
  "bytes \<Rightarrow> nat \<Rightarrow> string set \<Rightarrow> nat \<Rightarrow> (shelf_identity list \<times> nat) option" where
  "read_identities bs 0 names offset = Some ([], offset)"
| "read_identities bs (Suc count) names offset =
     get_field (read_identity bs names offset) (\<lambda>identity offset.
     get_field (read_identities bs count (insert (shelf_filename (identity_entry identity)) names) offset)
       (\<lambda>rest offset. Some (identity # rest, offset)))"

definition read_snapshot_body :: "bytes \<Rightarrow> string \<Rightarrow> string \<Rightarrow> (shelf_snapshot \<times> nat) option" where
  "read_snapshot_body bs directory producer =
     get_field (read_number 4 bs (length snapshot_magic)) (\<lambda>version offset.
     if version \<noteq> 1 then None
     else get_field (read_text bs offset) (\<lambda>dir offset.
     if dir \<noteq> directory then None
     else get_field (read_text bs offset) (\<lambda>prod offset.
     if prod \<noteq> producer then None
     else get_field (read_number 4 bs offset) (\<lambda>count offset.
     if unat count > max_identities \<or> unat count > (length bs - offset) div 56 then None
     else get_field (read_identities bs (unat count) {} offset) (\<lambda>ids offset.
     Some (\<lparr> snapshot_directory = dir, snapshot_producer = prod, snapshot_identities = ids \<rparr>, offset))))))"

definition decode_snapshot :: "bytes \<Rightarrow> string \<Rightarrow> string \<Rightarrow> shelf_snapshot option" where
  "decode_snapshot bs directory producer =
     (if length bs < length snapshot_magic + 8 \<or> length bs > max_snapshot_bytes \<or>
         take (length snapshot_magic) bs \<noteq> snapshot_magic then None
      else get_field (read_number 8 bs (length bs - 8)) (\<lambda>expected _.
      if expected \<noteq> snapshot_checksum (take (length bs - 8) bs) then None
      else get_field (read_snapshot_body bs directory producer) (\<lambda>fresh offset.
      if offset \<noteq> length bs - 8 then None else Some fresh)))"

end
