(* ===== verification/Snapshot_Facts.thy ===== *)
theory Snapshot_Facts
  imports Snapshot
begin

section \<open>The shelf snapshot is read exactly as it is written\<close>

text \<open>
  Each field of the snapshot is a codec with one law: reading at an offset succeeds exactly where the bytes
  of an admissible value stand. Numbers, signed numbers and strings are its interpretations; the law is
  carried through identities and the whole file.
\<close>

subsection \<open>Field codecs\<close>

locale field_codec =
  fixes put :: "'a \<Rightarrow> bytes" and get :: "bytes \<Rightarrow> nat \<Rightarrow> ('a \<times> nat) option" and ok :: "'a \<Rightarrow> bool"
  assumes law:
    "get bs offset = Some (v, stop) \<longleftrightarrow> ok v \<and> prefix (put v) (drop offset bs) \<and> stop = offset + length (put v)"
begin

lemma get_put: "ok v \<Longrightarrow> get (pre @ put v @ post) (length pre) = Some (v, length pre + length (put v))"
  by (simp add: law)

lemma stays_inside: "offset \<le> length bs \<Longrightarrow> get bs offset = Some (v, stop) \<Longrightarrow> stop \<le> length bs"
  using prefix_length_le by (fastforce simp: law)

lemma injective: "ok v \<Longrightarrow> ok w \<Longrightarrow> put v = put w \<Longrightarrow> v = w"
  using get_put [of v "[]" "[]"] get_put [of w "[]" "[]"] by simp

text \<open>A field in front of another reader.\<close>

lemma then_law:
  "get_field (get bs offset) k = Some r \<longleftrightarrow>
    (\<exists>v. ok v \<and> prefix (put v) (drop offset bs) \<and> k v (offset + length (put v)) = Some r)"
proof -
  have "get_field (get bs offset) k = Some r \<longleftrightarrow> (\<exists>v stop. get bs offset = Some (v, stop) \<and> k v stop = Some r)"
    by (auto simp: get_field_def split: option.splits)
  then show ?thesis by (auto simp: law)
qed

end

lemma prefix_drop_append:
  "prefix (xs @ ys) (drop offset bs) \<longleftrightarrow>
   prefix xs (drop offset bs) \<and> prefix ys (drop (offset + length xs) bs)"
proof
  assume "prefix (xs @ ys) (drop offset bs)"
  then obtain zs where "drop offset bs = xs @ ys @ zs" by (auto simp: prefix_def)
  then have "drop (offset + length xs) bs = ys @ zs" by (metis add.commute append_eq_conv_conj drop_drop)
  then show "prefix xs (drop offset bs) \<and> prefix ys (drop (offset + length xs) bs)"
    using \<open>drop offset bs = xs @ ys @ zs\<close> by simp
next
  assume a: "prefix xs (drop offset bs) \<and> prefix ys (drop (offset + length xs) bs)"
  then obtain zs where zs: "drop offset bs = xs @ zs" by (auto simp: prefix_def)
  then have "drop (offset + length xs) bs = zs" by (metis add.commute append_eq_conv_conj drop_drop)
  then show "prefix (xs @ ys) (drop offset bs)" using a zs by simp
qed

lemma prefix_drop_slice:
  "offset \<le> length bs \<Longrightarrow> prefix xs (drop offset bs) \<longleftrightarrow>
   offset + length xs \<le> length bs \<and> slice bs offset (offset + length xs) = xs"
proof -
  assume o: "offset \<le> length bs"
  have "prefix xs (drop offset bs) \<longleftrightarrow> take (length xs) (drop offset bs) = xs"
    by (metis append_eq_conv_conj prefix_def take_is_prefix)
  moreover have "take (length xs) (drop offset bs) = xs \<Longrightarrow> offset + length xs \<le> length bs"
    using o by (metis add_le_cancel_left le_add_diff_inverse length_drop length_take min.cobounded1)
  ultimately show ?thesis by (auto simp: slice_def)
qed

subsection \<open>Numbers\<close>

lemma length_le_bytes [simp]: "length (le_bytes width v) = width"
  by (induction width arbitrary: v) auto

lemma le_value_bit:
  "bit (le_value i bs) n \<longleftrightarrow> n < 64 \<and> 8 * i \<le> n \<and> (n - 8 * i) div 8 < length bs \<and> bit (bs ! ((n - 8 * i) div 8)) (n mod 8)"
proof (induction i bs rule: le_value.induct)
  case (1 i)
  then show ?case by simp
next
  case (2 i b bs)
  show ?case
  proof (cases "n < 8 * i + 8")
    case True
    then have "8 * i \<le> n \<Longrightarrow> (n - 8 * i) div 8 = 0 \<and> n mod 8 = n - 8 * i"
      by (metis add.commute add_diff_cancel_left' div_less le_add_diff_inverse less_diff_conv2 mod_less mod_mult_self4)
    then show ?thesis using True 2 by (auto simp: bit_simps)
  next
    case False
    then obtain m where "n = 8 * i + 8 + m" by (metis le_add_diff_inverse not_less)
    moreover have "(8 + m) div 8 = Suc (m div 8)" by simp
    ultimately show ?thesis using 2 by (auto simp: bit_simps dest: bit_imp_le_length)
  qed
qed

lemma nth_le_bytes: "k < width \<Longrightarrow> le_bytes width v ! k = ucast (drop_bit (8 * k) v)"
proof (induction width v arbitrary: k rule: le_bytes.induct)
  case (1 v)
  then show ?case by simp
next
  case (2 width v)
  then show ?case by (cases k) (simp_all add: add.commute)
qed

lemma le_value_bytes: "width \<le> 8 \<Longrightarrow> le_value 0 (le_bytes width v) = take_bit (8 * width) v"
proof (rule bit_eqI)
  fix n :: nat assume "width \<le> 8"
  have "n div 8 * 8 + n mod 8 = n" by simp
  then show "bit (le_value 0 (le_bytes width v)) n = bit (take_bit (8 * width) v) n"
    by (auto simp: le_value_bit nth_le_bytes bit_simps less_mult_imp_div_less div_less_iff_less_mult mult.commute
        dest: bit_imp_le_length)
qed

lemma le_bytes_value: "length bs \<le> 8 \<Longrightarrow> le_bytes (length bs) (le_value 0 bs) = bs"
proof (rule nth_equalityI)
  fix k assume l: "length bs \<le> 8" and "k < length (le_bytes (length bs) (le_value 0 bs))"
  then have k: "k < length bs" by simp
  show "le_bytes (length bs) (le_value 0 bs) ! k = bs ! k"
  proof (rule bit_word_eqI)
    fix n assume "n < LENGTH(8)"
    then have "n < 8" by simp
    then have "(8 * k + n) div 8 = k" "(8 * k + n) mod 8 = n" "8 * k + n < 64" using k l by auto
    then show "bit (le_bytes (length bs) (le_value 0 bs) ! k) n = bit (bs ! k) n"
      using k \<open>n < 8\<close> by (simp add: nth_le_bytes bit_simps le_value_bit)
  qed
qed simp

lemma read_number_law:
  assumes "0 < width" and "width \<le> 8"
  shows "read_number width bs offset = Some (v, stop) \<longleftrightarrow>
    take_bit (8 * width) v = v \<and> prefix (le_bytes width v) (drop offset bs) \<and> stop = offset + width"
proof (cases "offset \<le> length bs")
  case False
  have "\<not> prefix (le_bytes width v) (drop offset bs)"
    using False assms(1) by (cases width) auto
  then show ?thesis using False assms(1) by (auto simp: read_number_def)
next
  case o: True
  then have "width \<le> length bs - offset \<longleftrightarrow> offset + width \<le> length bs" by linarith
  moreover have "le_value 0 (slice bs offset (offset + width)) = v \<longleftrightarrow>
      take_bit (8 * width) v = v \<and> slice bs offset (offset + width) = le_bytes width v"
    if "offset + width \<le> length bs"
  proof
    assume v: "le_value 0 (slice bs offset (offset + width)) = v"
    have "length (slice bs offset (offset + width)) = width" using that by simp
    then have s: "slice bs offset (offset + width) = le_bytes width v"
      using le_bytes_value [of "slice bs offset (offset + width)"] assms(2) v by simp
    then show "take_bit (8 * width) v = v \<and> slice bs offset (offset + width) = le_bytes width v"
      using le_value_bytes [OF assms(2), of v] v by simp
  qed (use le_value_bytes [OF assms(2), of v] in simp)
  ultimately show ?thesis
    using prefix_drop_slice [OF o, of "le_bytes width v"] by (auto simp: read_number_def not_less)
qed

interpretation le32: field_codec "le_bytes 4" "read_number 4" "\<lambda>v. take_bit 32 v = v"
  by unfold_locales (simp add: read_number_law)

interpretation le64: field_codec "le_bytes 8" "read_number 8" "\<lambda>v. True"
  by unfold_locales (simp add: read_number_law take_bit_word_eq_self)

lemma not_negative: "v \<le> 0x7FFFFFFFFFFFFFFF \<longleftrightarrow> \<not> sint (v :: u64) < 0"
proof -
  have "v \<le> 0x7FFFFFFFFFFFFFFF \<longleftrightarrow> unat v < 2 ^ 63" by (simp add: word_le_nat_alt less_Suc_eq_le [symmetric])
  also have "\<dots> \<longleftrightarrow> take_bit 63 v = v"
    by (metis take_bit_nat_eq_self_iff unsigned_take_bit_eq unsigned_word_eqI)
  also have "\<dots> \<longleftrightarrow> \<not> bit v 63"
  proof
    assume "take_bit 63 v = v"
    then show "\<not> bit v 63" by (metis bit_take_bit_iff less_irrefl)
  next
    assume "\<not> bit v 63"
    then have "n < 63" if "bit v n" for n
      using that bit_imp_le_length [OF that] by (cases "n = 63") auto
    then show "take_bit 63 v = v" by (auto simp: bit_eq_iff bit_simps)
  qed
  also have "\<dots> \<longleftrightarrow> \<not> sint v < 0" using bit_last_iff [of v] by simp
  finally show ?thesis .
qed

interpretation le_signed: field_codec "le_bytes 8" read_signed "\<lambda>v. \<not> sint v < 0"
proof unfold_locales
  fix bs offset v stop
  have "read_signed bs offset = Some (v, stop) \<longleftrightarrow>
      read_number 8 bs offset = Some (v, stop) \<and> v \<le> 0x7FFFFFFFFFFFFFFF"
    by (auto simp: read_signed_def split: option.splits)
  then show "read_signed bs offset = Some (v, stop) \<longleftrightarrow>
      \<not> sint v < 0 \<and> prefix (le_bytes 8 v) (drop offset bs) \<and> stop = offset + length (le_bytes 8 v)"
    by (auto simp: le64.law not_negative)
qed

subsection \<open>Strings\<close>

definition put_text :: "string \<Rightarrow> bytes" where
  "put_text s = le_bytes 4 (of_nat (length s)) @ text_bytes s"

lemma length_text_bytes [simp]: "length (text_bytes s) = length s"
  by (simp add: text_bytes_def)

lemma text_bytes_inverse [simp]: "map (\<lambda>b. char_of (unat b)) (text_bytes s) = s"
  by (simp add: text_bytes_def o_def unsigned_of_nat take_bit_nat_eq_self char_code_def)

lemma inverse_text_bytes [simp]: "text_bytes (map (\<lambda>b. char_of (unat b)) bs) = bs"
  by (simp add: text_bytes_def o_def char_code_def)

lemma unat_length_text: "length s \<le> max_string_bytes \<Longrightarrow> unat (of_nat (length s) :: u64) = length s"
  by (simp add: unsigned_of_nat take_bit_nat_eq_self max_string_bytes_def)

lemma short_length: "n \<le> max_string_bytes \<Longrightarrow> take_bit 32 (of_nat n :: u64) = of_nat n"
  by (rule word_unat_eq_iff [THEN iffD2])
    (simp add: unsigned_take_bit_eq unsigned_of_nat take_bit_nat_eq_self max_string_bytes_def)

interpretation le_text: field_codec put_text read_text "\<lambda>s. length s \<le> max_string_bytes"
proof unfold_locales
  fix bs offset s stop
  show "read_text bs offset = Some (s, stop) \<longleftrightarrow>
      length s \<le> max_string_bytes \<and> prefix (put_text s) (drop offset bs) \<and> stop = offset + length (put_text s)"
    (is "?l = ?r")
  proof
    assume ?l
    then obtain n where n: "read_number 4 bs offset = Some (n, offset + 4)" "unat n \<le> max_string_bytes"
        "unat n \<le> length bs - (offset + 4)"
        "s = map (\<lambda>b. char_of (unat b)) (slice bs (offset + 4) (offset + 4 + unat n))"
        "stop = offset + 4 + unat n"
      by (auto simp: read_text_def not_less le32.law split: option.splits if_splits)
    have p: "prefix (le_bytes 4 n) (drop offset bs)" using n(1) by (simp add: le32.law)
    then have o: "offset + 4 \<le> length bs" using prefix_length_le by fastforce
    have len: "length s = unat n" using n(3) o by (simp add: n(4))
    have "prefix (text_bytes s) (drop (offset + 4) bs)"
      by (simp add: n(4) slice_def take_is_prefix)
    then show ?r using n p len by (simp add: put_text_def prefix_drop_append) 
  next
    assume r: ?r
    then have p: "prefix (le_bytes 4 (of_nat (length s))) (drop offset bs)"
        "prefix (text_bytes s) (drop (offset + 4) bs)"
      by (simp_all add: put_text_def prefix_drop_append)
    then have o: "offset + 4 \<le> length bs" using prefix_length_le by fastforce
    have len: "length s \<le> length bs - (offset + 4)" using prefix_length_le [OF p(2)] by simp
    have "read_number 4 bs offset = Some (of_nat (length s), offset + 4)"
      using p(1) r by (simp add: le32.law short_length)
    moreover have "slice bs (offset + 4) (offset + 4 + length s) = text_bytes s"
      using prefix_drop_slice [OF o, of "text_bytes s"] p(2) by simp
    ultimately show ?l
      using r len unat_length_text [of s] by (simp add: read_text_def put_text_def)
  qed
qed

subsection \<open>Identities\<close>

definition put_identity :: "shelf_identity \<Rightarrow> bytes" where
  "put_identity identity =
     (let e = identity_entry identity; st = identity_stamp identity
      in put_text (shelf_filename e) @ le_bytes 8 (stamp_mtime st) @ le_bytes 8 (stamp_ctime st) @
         le_bytes 8 (stamp_size st) @ le_bytes 8 (stamp_device st) @ le_bytes 8 (stamp_inode st) @
         put_text (shelf_title e) @ put_text (shelf_document_number e) @ put_text (shelf_built e))"

definition stamp_ok :: "file_stamp \<Rightarrow> bool" where
  "stamp_ok st \<longleftrightarrow> \<not> sint (stamp_mtime st) < 0 \<and> \<not> sint (stamp_ctime st) < 0 \<and> \<not> sint (stamp_size st) < 0"

definition entry_texts_ok :: "shelf_entry \<Rightarrow> bool" where
  "entry_texts_ok e \<longleftrightarrow> length (shelf_filename e) \<le> max_string_bytes \<and> length (shelf_title e) \<le> max_string_bytes \<and>
     length (shelf_document_number e) \<le> max_string_bytes \<and> length (shelf_built e) \<le> max_string_bytes"

definition identity_ok :: "shelf_identity \<Rightarrow> bool" where
  "identity_ok identity \<longleftrightarrow>
     (let e = identity_entry identity; st = identity_stamp identity
      in shelf_readable e \<and> valid_filename (shelf_filename e) \<and> shelf_size e = stamp_size st \<and>
         stamp_ok st \<and> entry_texts_ok e)"

lemma read_identity_law:
  "read_identity bs names offset = Some (identity, stop) \<longleftrightarrow>
     identity_ok identity \<and> shelf_filename (identity_entry identity) \<notin> names \<and>
     prefix (put_identity identity) (drop offset bs) \<and> stop = offset + length (put_identity identity)"
proof -
  obtain mtime ctime bytes_size device inode name title number built esize readable where i: "identity =
      \<lparr> identity_stamp = \<lparr> stamp_mtime = mtime, stamp_ctime = ctime, stamp_size = bytes_size,
                            stamp_device = device, stamp_inode = inode \<rparr>,
        identity_entry = \<lparr> shelf_filename = name, shelf_title = title, shelf_document_number = number,
                           shelf_built = built, shelf_size = esize, shelf_readable = readable \<rparr> \<rparr>"
    by (metis file_stamp.cases shelf_entry.cases shelf_identity.cases)
  have len: "length (put_text s) = 4 + length s" for s by (simp add: put_text_def)
  show ?thesis
    by (simp only: read_identity_def le_text.then_law if_bool_eq_conj) 
      (auto simp: i le_text.then_law le_signed.then_law le64.then_law identity_ok_def stamp_ok_def
        entry_texts_ok_def put_identity_def prefix_drop_append len add.assoc Let_def)
qed

lemma get_field_Some:
  "get_field m k = Some r \<longleftrightarrow> (\<exists>v offset. m = Some (v, offset) \<and> k v offset = Some r)"
  by (auto simp: get_field_def split: option.splits)

abbreviation identity_name :: "shelf_identity \<Rightarrow> string" where
  "identity_name identity \<equiv> shelf_filename (identity_entry identity)"

definition identities_ok :: "string set \<Rightarrow> shelf_identity list \<Rightarrow> bool" where
  "identities_ok names ids \<longleftrightarrow>
     list_all identity_ok ids \<and> distinct (map identity_name ids) \<and> identity_name ` set ids \<inter> names = {}"

lemma identities_ok_simps [simp]:
  "identities_ok names []"
  "identities_ok names (i # ids) \<longleftrightarrow>
     identity_ok i \<and> identity_name i \<notin> names \<and> identities_ok (insert (identity_name i) names) ids"
  by (auto simp: identities_ok_def)

definition put_identities :: "shelf_identity list \<Rightarrow> bytes" where
  "put_identities ids = concat (map put_identity ids)"

lemma put_identities_simps [simp]:
  "put_identities [] = []" "put_identities (i # ids) = put_identity i @ put_identities ids"
  by (simp_all add: put_identities_def)

lemma read_identities_law:
  "read_identities bs count names offset = Some (ids, stop) \<longleftrightarrow>
     length ids = count \<and> identities_ok names ids \<and> prefix (put_identities ids) (drop offset bs) \<and>
     stop = offset + length (put_identities ids)"
proof (induction count arbitrary: names offset ids stop)
  case 0
  then show ?case by auto
next
  case (Suc count)
  show ?case
  proof (cases ids)
    case Nil
    then show ?thesis by (auto simp: get_field_Some)
  next
    case (Cons i rest)
    then show ?thesis
      by (auto simp: get_field_Some read_identity_law Suc prefix_drop_append add.assoc)
  qed
qed

subsection \<open>The writer\<close>

lemma write_number_Inr:
  "width \<le> 8 \<Longrightarrow> write_number v width out = Inr out' \<longleftrightarrow>
     out' = out @ le_bytes width v \<and> length out' \<le> max_snapshot_bytes"
  by (auto simp: write_number_def max_snapshot_bytes_def)

lemma write_signed_Inr:
  "write_signed v out = Inr out' \<longleftrightarrow>
     \<not> sint v < 0 \<and> out' = out @ le_bytes 8 v \<and> length out' \<le> max_snapshot_bytes"
  by (simp add: write_signed_def write_number_Inr)

lemma write_text_Inr:
  "write_text s out = Inr out' \<longleftrightarrow>
     length s \<le> max_string_bytes \<and> out' = out @ put_text s \<and> length out' \<le> max_snapshot_bytes"
  by (auto simp: write_text_def and_then_eq_Inr write_number_Inr put_text_def max_snapshot_bytes_def
      max_string_bytes_def)

lemmas write_Inr = write_number_Inr write_signed_Inr write_text_Inr

lemma write_identity_Inr:
  "write_identity i out = Inr out' \<longleftrightarrow>
     stamp_ok (identity_stamp i) \<and> entry_texts_ok (identity_entry i) \<and> out' = out @ put_identity i \<and>
     length out' \<le> max_snapshot_bytes"
  by (auto simp: write_identity_def Let_def and_then_eq_Inr write_Inr put_identity_def stamp_ok_def entry_texts_ok_def)

lemma write_identities_Inr:
  "length out \<le> max_snapshot_bytes \<Longrightarrow> write_identities names ids out = Inr out' \<longleftrightarrow>
     identities_ok names ids \<and> out' = out @ put_identities ids \<and> length out' \<le> max_snapshot_bytes"
proof (induction ids arbitrary: names out)
  case Nil
  then show ?case by auto
next
  case (Cons i ids)
  have "write_identities names (i # ids) out = Inr out' \<longleftrightarrow>
      identity_ok i \<and> identity_name i \<notin> names \<and> length (out @ put_identity i) \<le> max_snapshot_bytes \<and>
      write_identities (insert (identity_name i) names) ids (out @ put_identity i) = Inr out'"
    by (auto simp: Let_def and_then_eq_Inr write_identity_Inr identity_ok_def)
  then show ?case using Cons.IH [of "out @ put_identity i" "insert (identity_name i) names"] by auto
qed

text \<open>The file without its checksum.\<close>

definition snapshot_rest :: "shelf_snapshot \<Rightarrow> bytes" where
  "snapshot_rest s =
     le_bytes 4 1 @ put_text (snapshot_directory s) @ put_text (snapshot_producer s) @
     le_bytes 4 (of_nat (length (snapshot_identities s))) @ put_identities (snapshot_identities s)"

definition snapshot_body :: "shelf_snapshot \<Rightarrow> bytes" where
  "snapshot_body s = snapshot_magic @ snapshot_rest s"

definition snapshot_ok :: "shelf_snapshot \<Rightarrow> bool" where
  "snapshot_ok s \<longleftrightarrow>
     length (snapshot_directory s) \<le> max_string_bytes \<and> length (snapshot_producer s) \<le> max_string_bytes \<and>
     length (snapshot_identities s) \<le> max_identities \<and> identities_ok {} (snapshot_identities s)"

lemma write_then:
  "and_then (write_number v 4 out) f = Inr y \<longleftrightarrow>
     length (out @ le_bytes 4 v) \<le> max_snapshot_bytes \<and> f (out @ le_bytes 4 v) = Inr y"
  "and_then (write_text s out) f = Inr y \<longleftrightarrow>
     length s \<le> max_string_bytes \<and> length (out @ put_text s) \<le> max_snapshot_bytes \<and>
     f (out @ put_text s) = Inr y"
  by (auto simp: and_then_eq_Inr write_Inr)

lemma write_identities_then:
  "length out \<le> max_snapshot_bytes \<Longrightarrow> and_then (write_identities names ids out) f = Inr y \<longleftrightarrow>
     identities_ok names ids \<and> length (out @ put_identities ids) \<le> max_snapshot_bytes \<and>
     f (out @ put_identities ids) = Inr y"
  by (auto simp: and_then_eq_Inr write_identities_Inr)

lemma encode_snapshot_Inr:
  "encode_snapshot s = Inr bs \<longleftrightarrow>
     snapshot_ok s \<and> bs = snapshot_body s @ le_bytes 8 (snapshot_checksum (snapshot_body s)) \<and>
     length bs \<le> max_snapshot_bytes"
proof -
  let ?head = "snapshot_magic @ le_bytes 4 1 @ put_text (snapshot_directory s) @ put_text (snapshot_producer s) @
      le_bytes 4 (of_nat (length (snapshot_identities s)))"
  have body: "snapshot_body s = ?head @ put_identities (snapshot_identities s)"
    by (simp add: snapshot_body_def snapshot_rest_def)
  have "encode_snapshot s = Inr bs \<longleftrightarrow>
      length (snapshot_identities s) \<le> max_identities \<and>
      length (snapshot_directory s) \<le> max_string_bytes \<and> length (snapshot_producer s) \<le> max_string_bytes \<and>
      length ?head \<le> max_snapshot_bytes \<and>
      and_then (write_identities {} (snapshot_identities s) ?head)
        (\<lambda>out. write_number (snapshot_checksum out) 8 out) = Inr bs"
    unfolding encode_snapshot_def Let_def by (auto simp: write_then)
  then show ?thesis
    using write_identities_then [of ?head "{}" "snapshot_identities s" "\<lambda>out. write_number (snapshot_checksum out) 8 out" bs]
    unfolding snapshot_ok_def body write_number_Inr [OF order.refl] by auto
qed

subsection \<open>The whole file\<close>

lemma length_magic [simp]: "length snapshot_magic = 8"
  by (simp add: snapshot_magic_def)

lemma length_put_identities: "56 * length ids \<le> length (put_identities ids)"
proof (induction ids)
  case Nil
  then show ?case by simp
next
  case (Cons i ids)
  have "56 \<le> length (put_identity i)" by (simp add: put_identity_def put_text_def Let_def)
  then show ?case using Cons by simp
qed

lemma read_snapshot_body_law:
  assumes "length bs \<le> max_snapshot_bytes"
  shows "read_snapshot_body bs d p = Some (s, stop) \<longleftrightarrow>
    snapshot_ok s \<and> snapshot_directory s = d \<and> snapshot_producer s = p \<and>
    prefix (snapshot_rest s) (drop 8 bs) \<and> stop = 8 + length (snapshot_rest s)"
proof -
  let ?head = "le_bytes 4 1 @ put_text d @ put_text p"
  let ?o = "8 + length ?head"
  have "read_snapshot_body bs d p = Some (s, stop) \<longleftrightarrow>
      length d \<le> max_string_bytes \<and> length p \<le> max_string_bytes \<and> prefix ?head (drop 8 bs) \<and>
      (\<exists>count ids. take_bit 32 count = count \<and> prefix (le_bytes 4 count) (drop ?o bs) \<and>
         unat count \<le> max_identities \<and> unat count \<le> (length bs - (?o + 4)) div 56 \<and>
         read_identities bs (unat count) {} (?o + 4) = Some (ids, stop) \<and>
         s = \<lparr> snapshot_directory = d, snapshot_producer = p, snapshot_identities = ids \<rparr>)"
    by (auto simp: read_snapshot_body_def le32.then_law le_text.then_law prefix_drop_append add.assoc not_less
        get_field_Some [of "read_identities bs n names offset" for n names offset])
  also have "\<dots> \<longleftrightarrow> length d \<le> max_string_bytes \<and> length p \<le> max_string_bytes \<and> prefix ?head (drop 8 bs) \<and>
      (\<exists>ids. length ids \<le> max_identities \<and> identities_ok {} ids \<and>
         prefix (le_bytes 4 (of_nat (length ids))) (drop ?o bs) \<and>
         prefix (put_identities ids) (drop (?o + 4) bs) \<and> stop = ?o + 4 + length (put_identities ids) \<and>
         s = \<lparr> snapshot_directory = d, snapshot_producer = p, snapshot_identities = ids \<rparr>)"
    (is "_ \<and> _ \<and> _ \<and> (\<exists>count ids. ?P count ids) \<longleftrightarrow> _ \<and> _ \<and> _ \<and> (\<exists>ids. ?Q ids)")
  proof -
    have "?P count ids \<longleftrightarrow> count = of_nat (length ids) \<and> ?Q ids" for count ids
    proof
      assume a: "?P count ids"
      then have l: "length ids = unat count" by (simp add: read_identities_law)
      then have "count = of_nat (length ids)" by simp
      then show "count = of_nat (length ids) \<and> ?Q ids" using a l by (simp add: read_identities_law)
    next
      assume a: "count = of_nat (length ids) \<and> ?Q ids"
      then have small: "length ids \<le> max_identities" by simp
      then have u: "unat count = length ids"
        using a by (simp add: unsigned_of_nat take_bit_nat_eq_self max_identities_def)
      have "take_bit 32 count = count"
        using u small by (intro word_unat_eq_iff [THEN iffD2])
          (simp add: unsigned_take_bit_eq u take_bit_nat_eq_self max_identities_def)
      moreover have "length ids \<le> (length bs - (?o + 4)) div 56"
        using prefix_length_le [of "put_identities ids" "drop (?o + 4) bs"] a length_put_identities [of ids]
        by (simp add: less_eq_div_iff_mult_less_eq mult.commute)
      ultimately show "?P count ids" using a u by (simp add: read_identities_law)
    qed
    then show ?thesis by auto
  qed
  also have "\<dots> \<longleftrightarrow> snapshot_ok s \<and> snapshot_directory s = d \<and> snapshot_producer s = p \<and>
      prefix (snapshot_rest s) (drop 8 bs) \<and> stop = 8 + length (snapshot_rest s)"
    by (cases s) (auto simp: snapshot_ok_def snapshot_rest_def prefix_drop_append add.assoc)
  finally show ?thesis .
qed

text \<open>C39: A snapshot file is accepted for a directory and a producer exactly when it is what the encoder
  writes for the snapshot returned and that snapshot names them: what was written is read back, and no
  other bytes are accepted, whatever is in the file.\<close>

theorem snapshot_read_as_written:
  "decode_snapshot bs directory producer = Some s \<longleftrightarrow>
   encode_snapshot s = Inr bs \<and> snapshot_directory s = directory \<and> snapshot_producer s = producer"
proof (cases "length bs \<le> max_snapshot_bytes \<and> 16 \<le> length bs \<and> take 8 bs = snapshot_magic")
  case False
  have "16 \<le> length bs \<and> take 8 bs = snapshot_magic" if "encode_snapshot s = Inr bs"
    using that by (auto simp: encode_snapshot_Inr snapshot_body_def)
  then show ?thesis
    using False by (auto simp: decode_snapshot_def encode_snapshot_Inr)
next
  case True
  let ?n = "length bs - 8"
  have bs: "bs = snapshot_magic @ drop 8 bs" using True by (metis append_take_drop_id)
  have "decode_snapshot bs directory producer = Some s \<longleftrightarrow>
      prefix (le_bytes 8 (snapshot_checksum (take ?n bs))) (drop ?n bs) \<and>
      read_snapshot_body bs directory producer = Some (s, ?n)"
    using True by (auto simp: decode_snapshot_def le64.then_law
        get_field_Some [of "read_snapshot_body bs d p" for d p])
  also have "\<dots> \<longleftrightarrow> snapshot_ok s \<and> snapshot_directory s = directory \<and> snapshot_producer s = producer \<and>
      bs = snapshot_body s @ le_bytes 8 (snapshot_checksum (snapshot_body s))" (is "?l \<longleftrightarrow> ?r")
  proof
    assume l: ?l
    then have s: "snapshot_ok s" "snapshot_directory s = directory" "snapshot_producer s = producer"
        "prefix (snapshot_rest s) (drop 8 bs)" "?n = 8 + length (snapshot_rest s)"
      using read_snapshot_body_law [of bs directory producer s ?n] True by simp_all
    then have "take ?n bs = snapshot_body s"
      using bs by (auto simp: snapshot_body_def prefix_def)
    moreover obtain zs where z: "drop ?n bs = le_bytes 8 (snapshot_checksum (take ?n bs)) @ zs"
      using l by (auto simp: prefix_def)
    have "length (drop ?n bs) = 8 + length zs" by (subst z) simp
    then have "length zs = 0" using True by simp
    with z have "drop ?n bs = le_bytes 8 (snapshot_checksum (take ?n bs))" by simp
    ultimately show ?r using s by (metis append_take_drop_id)
  next
    assume r: ?r
    then have n: "?n = length (snapshot_body s)" by simp
    have "prefix (snapshot_rest s) (drop 8 bs) \<and> ?n = 8 + length (snapshot_rest s)"
      using r by (simp add: snapshot_body_def)
    then have "read_snapshot_body bs directory producer = Some (s, ?n)"
      using read_snapshot_body_law [of bs directory producer s ?n] r True by blast
    moreover have "take ?n bs = snapshot_body s" "drop ?n bs = le_bytes 8 (snapshot_checksum (snapshot_body s))"
      unfolding n using r by (metis append_eq_conv_conj)+
    ultimately show ?l by simp
  qed
  finally show ?thesis using True by (auto simp: encode_snapshot_Inr)
qed

end
