(* ===== verification/Document_Ir.thy ===== *)
theory Document_Ir
  imports Slices "HOL-Library.Product_Lexorder"
begin

section \<open>Documents (\<open>src/geist/detail/lowering/document_ir.hpp\<close>)\<close>

text \<open>
  The tree every renderer prints: the inlines and blocks of a topic with the provenance of each node. A
  \<open>std::variant\<close> is a datatype with one constructor per alternative; a structure that holds nodes of its
  own kind is a constructor with the members as arguments, every other structure a record. An enumeration
  has only its enumerators, so the code's branches for other values have no counterpart.
\<close>

subsection \<open>Provenance (\<open>src/geist/detail/container/provenance_ir.hpp\<close>)\<close>

datatype document_derivation = Decoded | Semantic_lowering | Synthesized

datatype document_fidelity = Typed | Degraded

record document_source_row =
  display_run :: u64
  row_index :: u64

record node_origin =
  derivation :: document_derivation
  origin_slices :: "source_slice list"
  origin_rows :: "document_source_row list"
  origin_detail :: string
  fidelity :: document_fidelity
  degradation_code :: string
  degradation_detail :: string

subsection \<open>Inlines\<close>

datatype emphasis_kind = Emphasis | Strong | Strong_emphasis

datatype phrase_kind =
  No_phrase | Sample_phrase | Keyboard_phrase | Citation_phrase | Variable_phrase | Definition_phrase

datatype target_kind =
    Topic_target
  | Anchor_target
  | Resource_target
  | External_target
  | Book_contents_target
  | Book_heading_target
  | Book_spot_target
  | Book_anchor_target

record cross_reference_target =
  target_kind :: target_kind
  target_value :: string
  target_alternatives :: "string list"
  target_document_number :: string
  target_document_level :: string
  target_heading_anchor :: string
  target_spot_anchor :: string
  target_book_anchor :: string
  target_url :: string

record target_claim =
  claim_target :: cross_reference_target
  control_origin :: "node_origin option"

record image_inline =
  image_resource :: string
  image_alt_text :: string
  image_cells :: string
  image_missing_resource :: bool
  image_description :: string

record cross_reference =
  xref_targets :: "target_claim list"
  xref_label :: string
  label_emphasis :: "emphasis_kind option"
  label_code :: bool
  label_phrase :: phrase_kind
  label_image :: "image_inline option"

datatype inline_ir = Inline (inline_node: inline_node) (inline_origin: node_origin)
and inline_node =
    Text_inline string
  | Emphasis_inline string emphasis_kind phrase_kind
  | Code_inline string phrase_kind
  | Cross_reference_inline cross_reference
  | Image_inline image_inline
  | Hard_break_inline
  | Opaque_inline string string
  | Underline_inline string
  | Revised_inline u32 "inline_ir list"

type_synonym inlines = "inline_ir list"

subsection \<open>Blocks\<close>

datatype anchor_role = Cross_reference_role | Figure_role | Table_role | Local_role

record anchor_block =
  anchor_id :: string
  anchor_role :: anchor_role

text \<open>\<open>TableCellAnchorIR\<close> and \<open>PreformattedAnchorIR\<close> have the same members.\<close>

record placed_anchor =
  placed_line :: nat
  placed_block :: anchor_block
  placed_origin :: node_origin

datatype list_marker = Decimal_marker | Lower_alpha_marker | Upper_alpha_marker

datatype verbatim_link_kind =
    In_book_link
  | Book_contents_link
  | Book_heading_link
  | Book_spot_link
  | Book_anchor_link
  | External_url_link

record verbatim_link =
  link_begin :: nat
  link_end :: nat
  verbatim_kind :: verbatim_link_kind
  link_target :: string
  link_alternatives :: "string list"
  link_document_number :: string
  link_document_level :: string
  link_heading_anchor :: string
  link_spot_anchor :: string
  link_book_anchor :: string
  link_url :: string

record verbatim_row =
  row_text :: string
  row_links :: "verbatim_link list"

record preformatted_block =
  pre_lines :: "string list"
  pre_line_origins :: "node_origin list"
  pre_line_links :: "verbatim_link list list"
  pre_line_anchors :: "placed_anchor list"
  pre_styled_lines :: "inlines list"

record publication_entry =
  publication_title :: inlines
  publication_paragraphs :: "inlines list"
  publication_origin :: node_origin

record figure_block =
  figure_resource :: string
  figure_caption :: inlines
  figure_description :: string
  figure_missing_resource :: bool

record menu_item =
  menu_target :: cross_reference_target
  menu_label :: string
  menu_origin :: node_origin

record index_entry =
  index_term :: inlines
  index_target :: string
  index_origin :: node_origin

datatype block_ir = Block (block_node: block_node) (block_origin: node_origin)
and block_node =
    Heading_block u32 inlines "u32 option"
  | Paragraph_block inlines
  | Anchor_block anchor_block
  | Thematic_break_block
  | List_block bool "list_item list" list_marker
  | Definition_list_block "definition_entry list"
  | Table_block "table_row list" nat
  | Preformatted_block preformatted_block
  | Note_block inlines inlines
  | Publication_list_block "publication_entry list"
  | Figure_block figure_block
  | Footnote_block string inlines
  | Index_group_block inlines "index_entry list"
  | Menu_block "menu_item list"
  | Opaque_block string string
and list_item =
    List_item (item_content: inlines) (item_origin: node_origin) (item_ordinal: "u64 option")
      (item_depth: u32) (item_empty_content: bool) (item_blocks: "block_ir list") (item_label: inlines)
      (item_mark: "u32 option")
and definition_entry =
    Definition_entry (entry_term: inlines) (entry_definition: inlines) (entry_origin: node_origin)
      (entry_blocks: "block_ir list") (entry_empty_term: bool)
and table_row =
    Table_row (row_cells: "table_cell list") (row_origin: node_origin) (row_mark: "u32 option")
and table_cell =
    Table_cell (cell_content: inlines) (cell_origin: node_origin) (cell_blocks: "block_ir list")
      (cell_anchors: "placed_anchor list")

record topic_identity =
  topic_id :: string
  topic_title :: string
  topic_heading_level :: string
  topic_number :: u32
  start_logical_record :: u32
  end_logical_record :: u32

record document_ir =
  document_topic :: topic_identity
  document_blocks :: "block_ir list"
  named_destinations :: "string list"

subsection \<open>Helpers\<close>

definition is_revised :: "inline_ir \<Rightarrow> bool" where
  "is_revised i \<longleftrightarrow> (case inline_node i of Revised_inline _ _ \<Rightarrow> True | _ \<Rightarrow> False)"

definition is_hard_break :: "inline_ir \<Rightarrow> bool" where
  "is_hard_break i \<longleftrightarrow> (case inline_node i of Hard_break_inline \<Rightarrow> True | _ \<Rightarrow> False)"

definition has_revised_inline :: "inlines \<Rightarrow> bool" where
  "has_revised_inline is \<longleftrightarrow> list_ex is_revised is"

definition revised_children :: "inline_ir \<Rightarrow> inlines" where
  "revised_children i = (case inline_node i of Revised_inline _ children \<Rightarrow> children | _ \<Rightarrow> [i])"

definition flatten_revised_inlines :: "inlines \<Rightarrow> inlines" where
  "flatten_revised_inlines is = concat (map revised_children is)"

text \<open>One blank per column: a UTF-8 continuation byte opens none.\<close>

definition blank_image_cells :: "image_inline \<Rightarrow> string" where
  "blank_image_cells pic =
     replicate (length (filter (\<lambda>ch. of_nat (char_code ch) AND (0xC0 :: byte) \<noteq> 0x80) (image_cells pic)))
       (CHR '' '')"

definition valid_revision_mark :: "u32 \<Rightarrow> bool" where
  "valid_revision_mark mark \<longleftrightarrow>
     mark > 0x20 \<and> mark \<noteq> 0x7F \<and> mark \<noteq> 0xFFFF \<and> mark \<le> 0x10FFFF \<and> \<not> (0x80 \<le> mark \<and> mark < 0xA0)"

text \<open>\<open>static_cast<char>\<close> of a 32-bit number.\<close>

definition char_of_u32 :: "u32 \<Rightarrow> char" where
  "char_of_u32 w = char_of (unat w)"

definition revision_mark_text :: "u32 \<Rightarrow> string" where
  "revision_mark_text mark =
     (if mark = 0x2502 then ''|''
      else if mark < 0x80 then [char_of_u32 mark]
      else if mark < 0x800
      then [char_of_u32 (0xC0 OR drop_bit 6 mark), char_of_u32 (0x80 OR (mark AND 0x3F))]
      else if mark < 0x10000
      then [char_of_u32 (0xE0 OR drop_bit 12 mark), char_of_u32 (0x80 OR (drop_bit 6 mark AND 0x3F)),
            char_of_u32 (0x80 OR (mark AND 0x3F))]
      else [char_of_u32 (0xF0 OR drop_bit 18 mark), char_of_u32 (0x80 OR (drop_bit 12 mark AND 0x3F)),
            char_of_u32 (0x80 OR (drop_bit 6 mark AND 0x3F)), char_of_u32 (0x80 OR (mark AND 0x3F))])"

subsection \<open>Selector alternatives (\<open>src/ir/selector_link_ir.cpp\<close>)\<close>

definition url_like :: "string \<Rightarrow> bool" where
  "url_like v \<longleftrightarrow>
     (v \<noteq> [] \<and> hd v = CHR ''/'') \<or> ascii_starts_with_case_insensitive v ''http://'' \<or>
     ascii_starts_with_case_insensitive v ''https://'' \<or> ascii_starts_with_case_insensitive v ''ftp://''"

definition cross_book_anchor :: "string list \<Rightarrow> string" where
  "cross_book_anchor alternatives =
     (if length alternatives < 2 then []
      else let kind = ascii_lower (alternatives ! 0) in
           if kind = ''fig'' then ''FIG'' @ alternatives ! 1
           else if kind = ''tbl'' then ''TBL'' @ alternatives ! 1
           else if kind = ''figure'' then ''FIGURE'' @ alternatives ! 1
           else [])"

definition selector_link_image :: "string list \<Rightarrow> string" where
  "selector_link_image alternatives =
     (if length alternatives < 6 \<or> ascii_lower (alternatives ! 0) \<noteq> ''image'' then []
      else let picture = if alternatives ! 2 = [] then alternatives ! 3 else alternatives ! 2 in
           if url_like picture then picture else [])"

end
