(* ===== verification/Document_Verify.thy ===== *)
theory Document_Verify
  imports Document_Ir
begin

section \<open>The check of a document (\<open>src/lowering/document_ir.cpp\<close>)\<close>

text \<open>
  \<open>verify_document_ir\<close> and the functions it is made of. Such a function returns \<open>false\<close> and leaves a
  message, so its result is the message, \<open>None\<close> when the check passes. The checks of a member are in the
  order of the code, which decides the message.
\<close>

type_synonym verdict = "string option"

definition holds :: "bool \<Rightarrow> string \<Rightarrow> verdict" where
  "holds b message = (if b then None else Some message)"

definition both :: "verdict \<Rightarrow> verdict \<Rightarrow> verdict" where
  "both v w = (case v of None \<Rightarrow> w | Some message \<Rightarrow> Some message)"

fun all_pass :: "('a \<Rightarrow> verdict) \<Rightarrow> 'a list \<Rightarrow> verdict" where
  "all_pass f [] = None"
| "all_pass f (x # xs) = both (f x) (all_pass f xs)"

lemma holds_None [simp]: "holds b message = None \<longleftrightarrow> b"
  by (simp add: holds_def)

lemma both_None [simp]: "both v w = None \<longleftrightarrow> v = None \<and> w = None"
  by (cases v) (simp_all add: both_def)

lemma all_pass_None [simp]: "all_pass f xs = None \<longleftrightarrow> list_all (\<lambda>x. f x = None) xs"
  by (induction xs) simp_all

subsection \<open>Origins\<close>

definition slice_key :: "source_slice \<Rightarrow> u32 \<times> u64 \<times> u64 \<times> u64 \<times> u32 \<times> u32" where
  "slice_key s =
     (slice_logical_record s, segment_index s, token_begin s, slice_token_end s, byte_begin s, byte_end s)"

fun verify_slices :: "source_slice option \<Rightarrow> source_slice list \<Rightarrow> verdict" where
  "verify_slices previous [] = None"
| "verify_slices previous (s # ss) =
     both (holds (slice_logical_record s \<noteq> 0) ''source slice has no logical record'')
     (both (holds (token_begin s \<le> slice_token_end s) ''source slice has reversed token range'')
     (both (holds (byte_begin s \<le> byte_end s) ''source slice has reversed byte range'')
     (both (holds (case previous of None \<Rightarrow> True | Some p \<Rightarrow> slice_key p < slice_key s)
              ''source slices are duplicated or out of order'')
       (verify_slices (Some s) ss))))"

definition row_key :: "document_source_row \<Rightarrow> u64 \<times> u64" where
  "row_key r = (display_run r, row_index r)"

fun verify_rows :: "document_source_row option \<Rightarrow> document_source_row list \<Rightarrow> verdict" where
  "verify_rows previous [] = None"
| "verify_rows previous (r # rs) =
     both (holds (display_run r \<noteq> 0) ''source row has no display run'')
     (both (holds (case previous of None \<Rightarrow> True | Some p \<Rightarrow> row_key p < row_key r)
              ''source rows are duplicated or out of order'')
       (verify_rows (Some r) rs))"

definition verify_origin :: "node_origin \<Rightarrow> verdict" where
  "verify_origin origin =
     both (holds (\<not> (derivation origin = Decoded \<and> origin_slices origin = []))
             ''decoded node origin names no source slice'')
     (both (verify_slices None (origin_slices origin)) (verify_rows None (origin_rows origin)))"

text \<open>Some slice of the same record and segment holds the whole token range.\<close>

definition slice_covers :: "source_slice list \<Rightarrow> source_slice \<Rightarrow> bool" where
  "slice_covers outer s \<longleftrightarrow>
     list_ex (\<lambda>c. slice_logical_record c = slice_logical_record s \<and> segment_index c = segment_index s \<and>
       token_begin c \<le> token_begin s \<and> slice_token_end s \<le> slice_token_end c) outer"

subsection \<open>Cross-reference targets\<close>

definition valid_cross_reference_target :: "cross_reference_target \<Rightarrow> bool" where
  "valid_cross_reference_target target =
     (let alts = target_alternatives target; kind = ascii_lower (alts ! 0) in
      if target_value target = [] then False
      else if alts = [] then
        target_kind target \<in> {Topic_target, Anchor_target, Resource_target, External_target} \<and>
        target_document_number target = [] \<and> target_document_level target = [] \<and>
        target_heading_anchor target = [] \<and> target_spot_anchor target = [] \<and>
        target_book_anchor target = [] \<and> target_url target = []
      else if length alts \<noteq> 6 \<and> length alts \<noteq> 7 then False
      else if target_value target \<noteq> alts ! 5 then False
      else if target_kind target \<noteq> Book_spot_target \<and> target_spot_anchor target \<noteq> [] then False
      else if target_kind target \<noteq> Book_anchor_target \<and> target_book_anchor target \<noteq> [] then False
      else (case target_kind target of
          Book_contents_target \<Rightarrow>
            kind = ''book'' \<and> alts ! 3 \<noteq> [] \<and> target_document_number target = alts ! 3 \<and>
            target_document_level target = alts ! 4 \<and> target_heading_anchor target = [] \<and>
            target_url target = []
        | Book_heading_target \<Rightarrow>
            kind = ''hdr'' \<and> alts ! 1 \<noteq> [] \<and> alts ! 3 \<noteq> [] \<and> target_document_number target = alts ! 3 \<and>
            target_document_level target = alts ! 4 \<and> target_heading_anchor target = alts ! 1 \<and>
            target_url target = []
        | Book_spot_target \<Rightarrow>
            kind = ''spt'' \<and> alts ! 1 \<noteq> [] \<and> alts ! 3 \<noteq> [] \<and> target_document_number target = alts ! 3 \<and>
            target_document_level target = alts ! 4 \<and> target_heading_anchor target = [] \<and>
            target_spot_anchor target = alts ! 1 \<and> target_url target = []
        | Book_anchor_target \<Rightarrow>
            cross_book_anchor alts \<noteq> [] \<and> alts ! 1 \<noteq> [] \<and> alts ! 3 \<noteq> [] \<and>
            target_document_number target = alts ! 3 \<and> target_document_level target = alts ! 4 \<and>
            target_heading_anchor target = [] \<and> target_book_anchor target = cross_book_anchor alts \<and>
            target_url target = []
        | External_target \<Rightarrow>
            (kind = ''other'' \<or> kind = ''internet'' \<or>
              (kind = ''image'' \<and> selector_link_image alts \<noteq> [])) \<and>
            alts ! 3 \<noteq> [] \<and> target_document_number target = [] \<and> target_document_level target = [] \<and>
            target_heading_anchor target = [] \<and> target_url target = alts ! 3
        | _ \<Rightarrow> False))"

subsection \<open>Inlines\<close>

definition phrase_fits :: "phrase_kind \<Rightarrow> bool \<Rightarrow> emphasis_kind \<Rightarrow> bool" where
  "phrase_fits phrase is_code kind =
     (case phrase of
        No_phrase \<Rightarrow> True
      | Sample_phrase \<Rightarrow> is_code
      | Keyboard_phrase \<Rightarrow> is_code
      | Definition_phrase \<Rightarrow> is_code
      | Citation_phrase \<Rightarrow> \<not> is_code \<and> kind = Emphasis
      | Variable_phrase \<Rightarrow> \<not> is_code \<and> kind = Emphasis)"

definition canonical_reference :: "cross_reference \<Rightarrow> bool" where
  "canonical_reference r =
     (if xref_targets r = [] \<or> (label_emphasis r \<noteq> None \<and> label_code r) \<or>
         (label_phrase r \<noteq> No_phrase \<and> \<not> label_code r \<and> label_emphasis r = None) \<or>
         \<not> phrase_fits (label_phrase r) (label_code r)
             (case label_emphasis r of None \<Rightarrow> Emphasis | Some kind \<Rightarrow> kind) \<or>
         (case label_image r of
            None \<Rightarrow> False
          | Some pic \<Rightarrow>
              length (xref_targets r) \<noteq> 1 \<or> image_resource pic = [] \<or>
              image_resource pic \<noteq>
                selector_link_image (target_alternatives (claim_target (hd (xref_targets r)))))
      then False
      else list_all (\<lambda>claim. valid_cross_reference_target (claim_target claim)) (xref_targets r))"

definition line_break :: "char \<Rightarrow> bool" where
  "line_break ch \<longleftrightarrow> ch = CHR 0x0D \<or> ch = CHR 0x0A"

definition canonical_inline :: "bool \<Rightarrow> inline_node \<Rightarrow> bool" where
  "canonical_inline preformatted_row node =
     (case node of
        Text_inline s \<Rightarrow> s \<noteq> []
      | Emphasis_inline s kind phrase \<Rightarrow> s \<noteq> [] \<and> phrase_fits phrase False kind
      | Underline_inline s \<Rightarrow> s \<noteq> []
      | Code_inline s phrase \<Rightarrow> s \<noteq> [] \<and> phrase_fits phrase True Emphasis
      | Cross_reference_inline r \<Rightarrow> canonical_reference r
      | Image_inline pic \<Rightarrow>
          image_resource pic \<noteq> [] \<and> (image_cells pic = []) \<noteq> preformatted_row \<and>
          \<not> list_ex line_break (image_cells pic)
      | Opaque_inline kind content \<Rightarrow> kind \<noteq> []
      | Revised_inline mark children \<Rightarrow>
          valid_revision_mark mark \<and> children \<noteq> [] \<and> \<not> list_ex is_revised children
      | Hard_break_inline \<Rightarrow> True)"

definition verify_claims :: "inline_node \<Rightarrow> verdict" where
  "verify_claims node =
     (case node of
        Cross_reference_inline r \<Rightarrow>
          all_pass (\<lambda>claim. case control_origin claim of None \<Rightarrow> None | Some origin \<Rightarrow> verify_origin origin)
            (xref_targets r)
      | _ \<Rightarrow> None)"

fun verify_inline :: "bool \<Rightarrow> inline_ir \<Rightarrow> verdict"
  and verify_inline_list :: "bool \<Rightarrow> inlines \<Rightarrow> verdict" where
  "verify_inline preformatted_row (Inline node origin) =
     both (verify_origin origin)
     (both (verify_claims node)
     (both (holds (canonical_inline preformatted_row node) ''inline node is not canonical'')
       (case node of
          Revised_inline mark children \<Rightarrow>
            both (holds (children \<noteq> []) ''required inline sequence is empty'')
              (verify_inline_list preformatted_row children)
        | _ \<Rightarrow> None)))"
| "verify_inline_list preformatted_row [] = None"
| "verify_inline_list preformatted_row (i # is) =
     both (verify_inline preformatted_row i) (verify_inline_list preformatted_row is)"

definition verify_inlines :: "inlines \<Rightarrow> bool \<Rightarrow> bool \<Rightarrow> verdict" where
  "verify_inlines is allow_empty preformatted_row =
     both (holds (allow_empty \<or> is \<noteq> []) ''required inline sequence is empty'')
       (verify_inline_list preformatted_row is)"

subsection \<open>Origins below a block\<close>

fun collect_inline_origin :: "inline_ir \<Rightarrow> node_origin list"
  and collect_inline_origins :: "inlines \<Rightarrow> node_origin list" where
  "collect_inline_origin (Inline node origin) =
     origin #
     (case node of
        Cross_reference_inline r \<Rightarrow> List.map_filter control_origin (xref_targets r)
      | Revised_inline mark children \<Rightarrow> collect_inline_origins children
      | _ \<Rightarrow> [])"
| "collect_inline_origins [] = []"
| "collect_inline_origins (i # is) = collect_inline_origin i @ collect_inline_origins is"

definition collect_block_origins :: "block_ir list \<Rightarrow> node_origin list" where
  "collect_block_origins bs = map block_origin bs"

definition collect_item_origins :: "list_item \<Rightarrow> node_origin list" where
  "collect_item_origins item =
     item_origin item # collect_inline_origins (item_label item) @
     collect_inline_origins (item_content item) @ collect_block_origins (item_blocks item)"

definition collect_entry_origins :: "definition_entry \<Rightarrow> node_origin list" where
  "collect_entry_origins entry =
     entry_origin entry # collect_inline_origins (entry_term entry) @
     collect_inline_origins (entry_definition entry) @ collect_block_origins (entry_blocks entry)"

definition collect_cell_origins :: "table_cell \<Rightarrow> node_origin list" where
  "collect_cell_origins cell =
     cell_origin cell # collect_inline_origins (cell_content cell) @
     collect_block_origins (cell_blocks cell) @ map placed_origin (cell_anchors cell)"

definition collect_row_origins :: "table_row \<Rightarrow> node_origin list" where
  "collect_row_origins row = row_origin row # concat (map collect_cell_origins (row_cells row))"

definition collect_publication_origins :: "publication_entry \<Rightarrow> node_origin list" where
  "collect_publication_origins entry =
     publication_origin entry # collect_inline_origins (publication_title entry) @
     concat (map collect_inline_origins (publication_paragraphs entry))"

definition collect_preformatted_origins :: "preformatted_block \<Rightarrow> node_origin list" where
  "collect_preformatted_origins pre =
     pre_line_origins pre @ map placed_origin (pre_line_anchors pre) @
     concat (map collect_inline_origins (pre_styled_lines pre))"

definition collect_child_origins :: "block_node \<Rightarrow> node_origin list" where
  "collect_child_origins node =
     (case node of
        Heading_block level content mark \<Rightarrow> collect_inline_origins content
      | Paragraph_block content \<Rightarrow> collect_inline_origins content
      | Footnote_block i content \<Rightarrow> collect_inline_origins content
      | List_block ordered items marker \<Rightarrow> concat (map collect_item_origins items)
      | Definition_list_block entries \<Rightarrow> concat (map collect_entry_origins entries)
      | Table_block rows header_rows \<Rightarrow> concat (map collect_row_origins rows)
      | Note_block label content \<Rightarrow> collect_inline_origins label @ collect_inline_origins content
      | Publication_list_block entries \<Rightarrow> concat (map collect_publication_origins entries)
      | Figure_block figure \<Rightarrow> collect_inline_origins (figure_caption figure)
      | Index_group_block heading entries \<Rightarrow>
          collect_inline_origins heading @
          concat (map (\<lambda>e. index_origin e # collect_inline_origins (index_term e)) entries)
      | Menu_block items \<Rightarrow> map menu_origin items
      | Preformatted_block pre \<Rightarrow> collect_preformatted_origins pre
      | _ \<Rightarrow> [])"

definition covered_by :: "source_slice list \<Rightarrow> node_origin \<Rightarrow> bool" where
  "covered_by outer child \<longleftrightarrow>
     derivation child = Synthesized \<or> list_all (slice_covers outer) (origin_slices child)"

definition verify_block_slices_cover_children :: "block_ir \<Rightarrow> verdict" where
  "verify_block_slices_cover_children b =
     holds (origin_slices (block_origin b) = [] \<or>
         list_all (covered_by (origin_slices (block_origin b))) (collect_child_origins (block_node b)))
       ''block slices do not cover a child node's source slice''"

subsection \<open>Drawn rows\<close>

definition link_fields_verdict :: "verbatim_link \<Rightarrow> verdict" where
  "link_fields_verdict link =
     (case verbatim_kind link of
        In_book_link \<Rightarrow> holds (link_target link \<noteq> []) ''in-book preformatted link has no target''
      | Book_contents_link \<Rightarrow>
          holds (link_document_number link \<noteq> [] \<and> link_target link \<noteq> [])
            ''cross-book contents link is incomplete''
      | Book_heading_link \<Rightarrow>
          holds (link_document_number link \<noteq> [] \<and> link_target link \<noteq> [] \<and> link_heading_anchor link \<noteq> [])
            ''cross-book heading link is incomplete''
      | Book_spot_link \<Rightarrow>
          holds (link_document_number link \<noteq> [] \<and> link_target link \<noteq> [] \<and> link_spot_anchor link \<noteq> [])
            ''cross-book spot link is incomplete''
      | Book_anchor_link \<Rightarrow>
          holds (link_document_number link \<noteq> [] \<and> link_target link \<noteq> [] \<and> link_book_anchor link \<noteq> [])
            ''cross-book anchor link is incomplete''
      | External_url_link \<Rightarrow> holds (link_url link \<noteq> []) ''external preformatted link has no URL'')"

fun verify_row_links :: "string \<Rightarrow> nat \<Rightarrow> verbatim_link list \<Rightarrow> verdict" where
  "verify_row_links row previous_end [] = None"
| "verify_row_links row previous_end (link # links) =
     both (holds (link_begin link < link_end link \<and> link_end link \<le> length row)
             ''preformatted link range is outside its line'')
     (both (holds (previous_end \<le> link_begin link) ''preformatted link ranges overlap or are unordered'')
     (both (link_fields_verdict link) (verify_row_links row (link_end link) links)))"

fun verify_line_anchors :: "nat \<Rightarrow> nat option \<Rightarrow> placed_anchor list \<Rightarrow> verdict" where
  "verify_line_anchors n previous [] = None"
| "verify_line_anchors n previous (a # as) =
     both (holds (placed_line a < n) ''preformatted anchor line is outside its block'')
     (both (holds (case previous of None \<Rightarrow> True | Some p \<Rightarrow> p \<le> placed_line a)
              ''preformatted anchors are not ordered by line'')
     (both (holds (anchor_id (placed_block a) \<noteq> []) ''preformatted anchor has no id'')
     (both (verify_origin (placed_origin a)) (verify_line_anchors n (Some (placed_line a)) as))))"

text \<open>The cells of its row an inline stands for; \<open>None\<close> for one that draws none.\<close>

definition label_text :: "cross_reference \<Rightarrow> string" where
  "label_text r =
     (if xref_label r = [] then target_value (claim_target (hd (xref_targets r))) else xref_label r)"

definition row_cells_of :: "inline_ir \<Rightarrow> string option" where
  "row_cells_of i =
     (case inline_node i of
        Text_inline s \<Rightarrow> Some s
      | Emphasis_inline s kind phrase \<Rightarrow> Some s
      | Underline_inline s \<Rightarrow> Some s
      | Code_inline s phrase \<Rightarrow> Some s
      | Cross_reference_inline r \<Rightarrow> Some (label_text r)
      | Image_inline pic \<Rightarrow> Some (image_cells pic)
      | _ \<Rightarrow> None)"

definition row_inline_verdict :: "node_origin \<Rightarrow> inline_ir \<Rightarrow> verdict" where
  "row_inline_verdict origin i =
     both (holds (row_cells_of i \<noteq> None) ''styled preformatted inline changes row geometry'')
       (holds (list_all (slice_covers (origin_slices origin)) (origin_slices (inline_origin i)))
          ''styled row origin does not cover inline source'')"

definition drawn_cells :: "inlines \<Rightarrow> string" where
  "drawn_cells is = concat (List.map_filter row_cells_of is)"

definition verify_styled_row :: "string \<times> node_origin \<times> inlines \<Rightarrow> verdict" where
  "verify_styled_row x =
     (let (line, origin, styled) = x; row = flatten_revised_inlines styled in
      both (verify_inlines styled True True)
      (both (all_pass (row_inline_verdict origin) row)
        (holds (drawn_cells row = line \<and> \<not> list_ex line_break (drawn_cells row))
           ''styled preformatted text differs from literal source row'')))"

definition verify_preformatted :: "preformatted_block \<Rightarrow> verdict" where
  "verify_preformatted pre =
     (let n = length (pre_lines pre) in
      both (holds (pre_lines pre \<noteq> []) ''preformatted block is empty'')
      (both (holds (pre_line_origins pre = [] \<or> length (pre_line_origins pre) = n)
               ''preformatted line origins do not match its lines'')
      (both (holds (pre_line_links pre = [] \<or> length (pre_line_links pre) = n)
               ''preformatted line links do not match its lines'')
      (both (all_pass verify_origin (pre_line_origins pre))
      (both (all_pass (\<lambda>(row, links). verify_row_links row 0 links) (zip (pre_lines pre) (pre_line_links pre)))
      (both (verify_line_anchors n None (pre_line_anchors pre))
        (if pre_styled_lines pre = [] then None
         else both (holds (length (pre_styled_lines pre) = n \<and> length (pre_line_origins pre) = n)
                      ''styled preformatted rows lack matching lines/origins'')
              (both (holds (pre_line_links pre = []) ''styled preformatted rows have competing link ownership'')
                (all_pass verify_styled_row
                   (zip (pre_lines pre) (zip (pre_line_origins pre) (pre_styled_lines pre))))))))))))"

fun verify_cell_anchors :: "nat \<Rightarrow> nat \<Rightarrow> placed_anchor list \<Rightarrow> verdict" where
  "verify_cell_anchors end_line previous [] = None"
| "verify_cell_anchors end_line previous (a # as) =
     both (holds (placed_line a \<le> end_line \<and> previous \<le> placed_line a)
             ''table cell anchor line is outside its cell or out of order'')
     (both (holds (anchor_id (placed_block a) \<noteq> []) ''table cell anchor has no id'')
     (both (verify_origin (placed_origin a)) (verify_cell_anchors end_line (placed_line a) as)))"

definition cell_end_line :: "inlines \<Rightarrow> nat" where
  "cell_end_line content = (if content = [] then 0 else length (filter is_hard_break content) + 1)"

subsection \<open>Blocks\<close>

definition drawn_mark :: "u32 option \<Rightarrow> bool" where
  "drawn_mark mark = (case mark of None \<Rightarrow> True | Some m \<Rightarrow> valid_revision_mark m)"

definition verify_list_head :: "bool \<Rightarrow> list_item list \<Rightarrow> list_marker \<Rightarrow> verdict" where
  "verify_list_head ordered items marker =
     (let explicit_ordinals = length (filter (\<lambda>i. item_ordinal i \<noteq> None) items) in
      both (holds (items \<noteq> []) ''list is empty'')
      (both (holds (ordered \<or> marker = Decimal_marker) ''unordered list has an ordered marker style'')
      (both (holds (ordered \<or> explicit_ordinals = 0) ''unordered list item has a source ordinal'')
        (holds (\<not> ordered \<or> explicit_ordinals = 0 \<or> explicit_ordinals = length items)
           ''ordered list source ordinals are incomplete''))))"

text \<open>What is checked of an item in front of its blocks, and behind them. The loop keeps the last ordinal,
  and the depth of the previous item, which the first item does not have.\<close>

definition verify_item_head :: "list_item \<Rightarrow> verdict" where
  "verify_item_head item =
     both (holds (item_content item = [] \<or> item_blocks item = []) ''list item has both inline and block content'')
     (both (holds (\<not> (item_empty_content item \<and> (item_content item \<noteq> [] \<or> item_blocks item \<noteq> [])))
              ''empty list item carries content'')
     (both (verify_origin (item_origin item))
     (both (holds (drawn_mark (item_mark item)) ''list item revision mark is not a drawn glyph'')
     (both (holds (item_label item = [] \<or>
                     \<not> item_empty_content item \<and> verify_inlines (item_label item) False False = None)
              ''list item label is invalid'')
       (if item_blocks item = [] then verify_inlines (item_content item) (item_empty_content item) False
        else None)))))"

definition verify_item_tail :: "list_marker \<Rightarrow> u64 \<Rightarrow> u32 option \<Rightarrow> list_item \<Rightarrow> verdict" where
  "verify_item_tail marker previous_ordinal previous_depth item =
     both (holds (case previous_depth of None \<Rightarrow> item_depth item = 0 | Some d \<Rightarrow> item_depth item \<le> d + 1)
             ''list item depth skips a level'')
       (case item_ordinal item of
          None \<Rightarrow> None
        | Some n \<Rightarrow>
            both (holds (n \<noteq> 0) ''ordered list source ordinal is zero'')
            (both (holds (previous_ordinal < n) ''ordered list source ordinals are not strictly increasing'')
              (holds (marker = Decimal_marker \<or> n \<le> 26) ''alphabetic list ordinal exceeds Z'')))"

definition last_ordinal :: "u64 \<Rightarrow> list_item \<Rightarrow> u64" where
  "last_ordinal previous item = (case item_ordinal item of None \<Rightarrow> previous | Some n \<Rightarrow> n)"

definition verify_entry_head :: "definition_entry \<Rightarrow> verdict" where
  "verify_entry_head entry =
     both (holds (entry_empty_term entry = (entry_term entry = []))
             ''definition empty-term disposition disagrees with its content'')
     (both (holds (\<not> (entry_empty_term entry \<and> entry_blocks entry = []))
              ''empty definition term has no compound body'')
     (both (holds (entry_definition entry = [] \<or> entry_blocks entry = [])
              ''definition has both inline and block content'')
     (both (verify_origin (entry_origin entry))
     (both (verify_inlines (entry_term entry) (entry_empty_term entry) False)
       (if entry_blocks entry = []
        then verify_inlines (entry_definition entry) (\<not> entry_empty_term entry) False
        else None)))))"

definition verify_table_head :: "table_row list \<Rightarrow> nat \<Rightarrow> verdict" where
  "verify_table_head rows header_rows =
     both (holds (rows \<noteq> []) ''table is empty'')
     (both (holds (header_rows \<le> length rows) ''table header count exceeds row count'')
       (holds (row_cells (hd rows) \<noteq> []) ''table has no columns''))"

definition verify_row_head :: "nat \<Rightarrow> table_row \<Rightarrow> verdict" where
  "verify_row_head width row =
     both (holds (verify_origin (row_origin row) = None \<and> length (row_cells row) = width)
             ''table row geometry is inconsistent'')
       (holds (drawn_mark (row_mark row)) ''table row revision mark is not a drawn glyph'')"

definition verify_cell_head :: "table_cell \<Rightarrow> verdict" where
  "verify_cell_head cell =
     both (holds (cell_content cell = [] \<or> cell_blocks cell = []) ''table cell has both inline and block content'')
     (both (verify_origin (cell_origin cell))
       (if cell_blocks cell = [] then verify_inlines (cell_content cell) True False else None))"

definition verify_cell_tail :: "table_cell \<Rightarrow> verdict" where
  "verify_cell_tail cell =
     (if cell_anchors cell = [] then None
      else both (holds (cell_blocks cell = []) ''table cell anchors need inline content'')
             (verify_cell_anchors (cell_end_line (cell_content cell)) 0 (cell_anchors cell)))"

definition verify_publication_entry :: "publication_entry \<Rightarrow> verdict" where
  "verify_publication_entry entry =
     both (holds (verify_origin (publication_origin entry) = None \<and>
               verify_inlines (publication_title entry) False False = None \<and>
               publication_paragraphs entry \<noteq> [])
             ''publication entry is incomplete'')
       (all_pass (\<lambda>p. verify_inlines p False False) (publication_paragraphs entry))"

definition verify_index_entry :: "index_entry \<Rightarrow> verdict" where
  "verify_index_entry entry =
     holds (verify_origin (index_origin entry) = None \<and> index_target entry \<noteq> [] \<and>
         verify_inlines (index_term entry) False False = None)
       ''index entry is incomplete''"

definition verify_menu_item :: "menu_item \<Rightarrow> verdict" where
  "verify_menu_item item =
     both (verify_origin (menu_origin item))
       (holds (target_kind (menu_target item) = Topic_target \<and> target_value (menu_target item) \<noteq> [] \<and>
                menu_label item \<noteq> []) ''menu item is incomplete'')"

fun verify_block :: "bool \<Rightarrow> block_ir \<Rightarrow> verdict"
  and verify_blocks :: "block_ir list \<Rightarrow> verdict"
  and verify_items :: "list_marker \<Rightarrow> u64 \<Rightarrow> u32 option \<Rightarrow> list_item list \<Rightarrow> verdict"
  and verify_entries :: "definition_entry list \<Rightarrow> verdict"
  and verify_table_rows :: "nat \<Rightarrow> table_row list \<Rightarrow> verdict"
  and verify_cells :: "table_cell list \<Rightarrow> verdict" where
  "verify_block nested (Block node origin) =
     both (verify_origin origin)
     (both (verify_block_slices_cover_children (Block node origin))
       (case node of
          Heading_block level content mark \<Rightarrow>
            both (holds (\<not> nested) ''nested heading is not allowed'')
            (both (holds (1 \<le> level \<and> level \<le> 6) ''heading level is outside 1..6'')
            (both (holds (drawn_mark mark) ''heading revision mark is not a drawn glyph'')
              (verify_inlines content False False)))
        | Paragraph_block content \<Rightarrow> verify_inlines content False False
        | Anchor_block anchor \<Rightarrow> holds (anchor_id anchor \<noteq> []) ''anchor id is empty''
        | Thematic_break_block \<Rightarrow> None
        | List_block ordered items marker \<Rightarrow>
            both (verify_list_head ordered items marker) (verify_items marker 0 None items)
        | Definition_list_block entries \<Rightarrow>
            both (holds (entries \<noteq> []) ''definition list is empty'') (verify_entries entries)
        | Table_block rows header_rows \<Rightarrow>
            both (verify_table_head rows header_rows) (verify_table_rows (length (row_cells (hd rows))) rows)
        | Preformatted_block pre \<Rightarrow> verify_preformatted pre
        | Note_block label content \<Rightarrow>
            both (verify_inlines label True False) (verify_inlines content False False)
        | Publication_list_block entries \<Rightarrow>
            both (holds (entries \<noteq> []) ''publication list is empty'') (all_pass verify_publication_entry entries)
        | Figure_block figure \<Rightarrow>
            both (holds (figure_resource figure \<noteq> []) ''figure resource is empty'')
              (verify_inlines (figure_caption figure) True False)
        | Footnote_block i content \<Rightarrow>
            both (holds (i \<noteq> []) ''footnote id is empty'') (verify_inlines content False False)
        | Index_group_block heading entries \<Rightarrow>
            both (holds (verify_inlines heading True False = None \<and> entries \<noteq> []) ''index group is incomplete'')
              (all_pass verify_index_entry entries)
        | Menu_block items \<Rightarrow> both (holds (items \<noteq> []) ''menu is empty'') (all_pass verify_menu_item items)
        | Opaque_block kind content \<Rightarrow> holds (kind \<noteq> []) ''opaque block kind is empty''))"
| "verify_blocks [] = None"
| "verify_blocks (b # bs) = both (verify_block True b) (verify_blocks bs)"
| "verify_items marker previous_ordinal previous_depth [] = None"
| "verify_items marker previous_ordinal previous_depth
     (List_item content origin ordinal depth empty_content children label mark # items) =
     (let item = List_item content origin ordinal depth empty_content children label mark in
      both (verify_item_head item)
      (both (verify_blocks children)
      (both (verify_item_tail marker previous_ordinal previous_depth item)
        (verify_items marker (last_ordinal previous_ordinal item) (Some depth) items))))"
| "verify_entries [] = None"
| "verify_entries (Definition_entry term body origin children empty_term # entries) =
     both (verify_entry_head (Definition_entry term body origin children empty_term))
     (both (verify_blocks children) (verify_entries entries))"
| "verify_table_rows width [] = None"
| "verify_table_rows width (Table_row cells origin mark # rows) =
     both (verify_row_head width (Table_row cells origin mark))
     (both (verify_cells cells) (verify_table_rows width rows))"
| "verify_cells [] = None"
| "verify_cells (Table_cell content origin children anchors # cells) =
     both (verify_cell_head (Table_cell content origin children anchors))
     (both (verify_blocks children)
     (both (verify_cell_tail (Table_cell content origin children anchors)) (verify_cells cells)))"

definition verify_document_ir :: "document_ir \<Rightarrow> verdict" where
  "verify_document_ir document =
     (let topic = document_topic document in
      both (holds (topic_id topic \<noteq> []) ''document topic identity is incomplete'')
      (both (holds (end_logical_record topic = 0 \<or> start_logical_record topic \<le> end_logical_record topic)
               ''topic logical-record range is reversed'')
      (both (holds (document_blocks document \<noteq> []) ''document has no blocks'')
        (all_pass (verify_block False) (document_blocks document)))))"

end
