(* ===== verification/Document_Origins.thy ===== *)
theory Document_Origins
  imports Document_Verify
begin

section \<open>Lifting provenance (\<open>src/lowering/document_ir.cpp\<close>)\<close>

text \<open>
  \<open>normalize_document_origin_slices\<close>: the source slices of every node are merged into those of the container
  that holds it, innermost first.
\<close>

definition full_key ::
  "source_slice \<Rightarrow> u32 \<times> u64 \<times> u64 \<times> u64 \<times> u32 \<times> u32 \<times> u32 \<times> u32" where
  "full_key s =
     (slice_logical_record s, segment_index s, token_begin s, slice_token_end s, byte_begin s, byte_end s,
      character_begin s, character_end s)"

definition merge_slices :: "source_slice list \<Rightarrow> source_slice list" where
  "merge_slices ss = remdups_adj (sort_key full_key ss)"

definition widened :: "source_slice \<Rightarrow> source_slice" where
  "widened s = s\<lparr>character_begin := 0, character_end := 0\<rparr>"

definition lifted_slices :: "node_origin list \<Rightarrow> source_slice list" where
  "lifted_slices children =
     map widened (concat (map origin_slices (filter (\<lambda>c. derivation c \<noteq> Synthesized) children)))"

definition lift_into :: "node_origin \<Rightarrow> node_origin list \<Rightarrow> node_origin" where
  "lift_into container children =
     (let slices = origin_slices container @ lifted_slices children;
          merged = container\<lparr>origin_slices := merge_slices slices\<rparr> in
      if derivation container = Synthesized \<or> slices = [] then container
      else if origin_slices container = [] \<and> derivation container = Decoded
      then merged\<lparr>derivation := Semantic_lowering,
             origin_detail := if origin_detail container = [] then ''source of its content''
                              else origin_detail container\<rparr>
      else merged)"

definition lift_inlines :: "node_origin \<Rightarrow> inlines \<Rightarrow> node_origin" where
  "lift_inlines container is = lift_into container (collect_inline_origins is)"

fun lift_line_origins :: "node_origin list \<Rightarrow> inlines list \<Rightarrow> node_origin list" where
  "lift_line_origins (origin # origins) (is # rows) = lift_inlines origin is # lift_line_origins origins rows"
| "lift_line_origins origins rows = origins"

fun normalize_block :: "block_ir \<Rightarrow> block_ir"
  and normalize_blocks :: "block_ir list \<Rightarrow> block_ir list"
  and normalize_items :: "list_item list \<Rightarrow> list_item list"
  and normalize_entries :: "definition_entry list \<Rightarrow> definition_entry list"
  and normalize_table_rows :: "table_row list \<Rightarrow> table_row list"
  and normalize_cells :: "table_cell list \<Rightarrow> table_cell list" where
  "normalize_block (Block node origin) =
     (let node' =
        (case node of
           List_block ordered items marker \<Rightarrow> List_block ordered (normalize_items items) marker
         | Definition_list_block entries \<Rightarrow> Definition_list_block (normalize_entries entries)
         | Table_block rows header_rows \<Rightarrow> Table_block (normalize_table_rows rows) header_rows
         | Publication_list_block entries \<Rightarrow>
             Publication_list_block
               (map (\<lambda>e. e\<lparr>publication_origin :=
                       foldl lift_inlines (publication_origin e)
                         (publication_title e # publication_paragraphs e)\<rparr>) entries)
         | Index_group_block heading entries \<Rightarrow>
             Index_group_block heading
               (map (\<lambda>e. e\<lparr>index_origin := lift_inlines (index_origin e) (index_term e)\<rparr>) entries)
         | Preformatted_block pre \<Rightarrow>
             Preformatted_block (pre\<lparr>pre_line_origins :=
               lift_line_origins (pre_line_origins pre) (pre_styled_lines pre)\<rparr>)
         | _ \<Rightarrow> node) in
      Block node' (lift_into origin (collect_child_origins node')))"
| "normalize_blocks [] = []"
| "normalize_blocks (b # bs) = normalize_block b # normalize_blocks bs"
| "normalize_items [] = []"
| "normalize_items (List_item content origin ordinal depth empty_content children label mark # items) =
     (let children' = normalize_blocks children in
      List_item content
        (lift_into (lift_inlines (lift_inlines origin label) content) (collect_block_origins children'))
        ordinal depth empty_content children' label mark # normalize_items items)"
| "normalize_entries [] = []"
| "normalize_entries (Definition_entry term body origin children empty_term # entries) =
     (let children' = normalize_blocks children in
      Definition_entry term body
        (lift_into (lift_inlines (lift_inlines origin term) body) (collect_block_origins children'))
        children' empty_term # normalize_entries entries)"
| "normalize_table_rows [] = []"
| "normalize_table_rows (Table_row cells origin mark # rows) =
     (let cells' = normalize_cells cells in
      Table_row cells' (lift_into origin (map cell_origin cells')) mark # normalize_table_rows rows)"
| "normalize_cells [] = []"
| "normalize_cells (Table_cell content origin children anchors # cells) =
     (let children' = normalize_blocks children in
      Table_cell content
        (lift_into (lift_inlines origin content)
          (collect_block_origins children' @ map placed_origin anchors))
        children' anchors # normalize_cells cells)"

definition normalize_document_origin_slices :: "document_ir \<Rightarrow> document_ir" where
  "normalize_document_origin_slices document =
     document\<lparr>document_blocks := map normalize_block (document_blocks document)\<rparr>"

subsection \<open>Merging is a matter of sets\<close>

lemma full_key_inject: "full_key s = full_key t \<Longrightarrow> s = t"
  by (simp add: full_key_def)

definition key_sorted :: "source_slice list \<Rightarrow> bool" where
  "key_sorted ss \<longleftrightarrow> sorted_wrt (<) (map full_key ss)"

lemma set_merge_slices [simp]: "set (merge_slices ss) = set ss"
  by (simp add: merge_slices_def)

lemma merge_slices_empty [simp]: "merge_slices ss = [] \<longleftrightarrow> ss = []"
  using set_merge_slices [of ss] by (metis set_empty)

lemma key_sorted_merge: "key_sorted (merge_slices ss)"
proof -
  have "sorted_wrt (<) (map full_key (remdups_adj xs))" if "sorted (map full_key xs)" for xs
    using that
  proof (induction xs rule: remdups_adj.induct)
    case (3 x y xs)
    show ?case
    proof (cases "x = y")
      case True
      with 3 show ?thesis by simp
    next
      case False
      with 3(3) have "\<forall>z \<in> set (y # xs). full_key x < full_key z"
        by (auto simp: order_le_less dest: full_key_inject)
      with 3 False show ?thesis by simp
    qed
  qed simp_all
  then show ?thesis by (simp add: merge_slices_def key_sorted_def)
qed

lemma key_sorted_unique:
  assumes "key_sorted xs" and "key_sorted ys" and "set xs = set ys"
  shows "xs = ys"
proof -
  have "map full_key xs = map full_key ys"
    using assms unfolding key_sorted_def
    by (intro strict_sorted_equal) (simp_all add: image_image [symmetric])
  then show ?thesis by (simp add: map_injective [OF _ injI] full_key_inject)
qed

lemma merge_slices_same: "key_sorted xs \<Longrightarrow> set ys \<subseteq> set xs \<Longrightarrow> merge_slices (xs @ ys) = xs"
  using key_sorted_unique [OF key_sorted_merge, of xs "xs @ ys"] by (auto simp: Un_absorb2)

subsection \<open>Lifting covers, and lifts once\<close>

lemma lift_into_slices:
  assumes "derivation container \<noteq> Synthesized"
  shows "set (origin_slices (lift_into container children)) =
    set (origin_slices container) \<union> set (lifted_slices children)"
  using assms by (auto simp: lift_into_def Let_def)

lemma slice_covers_widened: "widened s \<in> set outer \<Longrightarrow> slice_covers outer s"
  by (auto simp: slice_covers_def list_ex_iff widened_def intro!: bexI [of _ "widened s"])

lemma lifted_slices_mem:
  "c \<in> set children \<Longrightarrow> derivation c \<noteq> Synthesized \<Longrightarrow> s \<in> set (origin_slices c) \<Longrightarrow>
   widened s \<in> set (lifted_slices children)"
  by (auto simp: lifted_slices_def)

text \<open>What lifting the children into an origin leaves: nothing more to lift.\<close>

definition absorbs :: "node_origin \<Rightarrow> node_origin list \<Rightarrow> bool" where
  "absorbs container children \<longleftrightarrow>
     derivation container = Synthesized \<or>
     (set (lifted_slices children) \<subseteq> set (origin_slices container) \<and> key_sorted (origin_slices container))"

lemma absorbs_lift_into: "absorbs (lift_into container children) children"
  by (auto simp: absorbs_def lift_into_def Let_def key_sorted_merge) (simp_all add: key_sorted_def)

lemma lift_into_absorbed:
  assumes "absorbs container children"
  shows "lift_into container children = container"
proof (cases "derivation container = Synthesized \<or> origin_slices container @ lifted_slices children = []")
  case True
  then show ?thesis by (auto simp: lift_into_def)
next
  case False
  with assms have "merge_slices (origin_slices container @ lifted_slices children) = origin_slices container"
    "origin_slices container \<noteq> []"
    by (auto simp: absorbs_def merge_slices_same)
  with False show ?thesis by (simp add: lift_into_def Let_def)
qed

lemma derivation_lift_into: "derivation (lift_into container children) = Synthesized \<longleftrightarrow> derivation container = Synthesized"
  by (simp add: lift_into_def Let_def)

lemma absorbs_later:
  assumes "absorbs container children"
  shows "absorbs (lift_into container others) children"
proof (cases "derivation container = Synthesized")
  case True
  then show ?thesis by (simp add: absorbs_def derivation_lift_into)
next
  case False
  with assms absorbs_lift_into [of container others] lift_into_slices [OF False] show ?thesis
    by (auto simp: absorbs_def derivation_lift_into)
qed

lemma absorbs_foldl: "absorbs container children \<Longrightarrow> absorbs (foldl lift_inlines container xs) children"
  by (induction xs arbitrary: container) (simp_all add: lift_inlines_def absorbs_later)

lemma foldl_lift_absorbs:
  "x \<in> set xs \<Longrightarrow> absorbs (foldl lift_inlines container xs) (collect_inline_origins x)"
proof (induction xs arbitrary: container)
  case Nil
  then show ?case by simp
next
  case (Cons y xs)
  then show ?case
    using absorbs_foldl [OF absorbs_lift_into, of container "collect_inline_origins y"]
    by (cases "x = y") (auto simp: lift_inlines_def [of container y])
qed

lemma foldl_lift_absorbed:
  "\<forall>x \<in> set xs. absorbs container (collect_inline_origins x) \<Longrightarrow> foldl lift_inlines container xs = container"
  by (induction xs) (simp_all add: lift_inlines_def lift_into_absorbed)

lemma foldl_lift_twice: "foldl lift_inlines (foldl lift_inlines container xs) xs = foldl lift_inlines container xs"
  by (rule foldl_lift_absorbed) (simp add: foldl_lift_absorbs)

lemma lift_line_origins_twice: "lift_line_origins (lift_line_origins os rows) rows = lift_line_origins os rows"
  by (induction os rows rule: lift_line_origins.induct)
    (simp_all add: lift_inlines_def lift_into_absorbed absorbs_lift_into)

lemma lift_thrice:
  "lift_into (lift_inlines (lift_inlines (lift_into (lift_inlines (lift_inlines o1 a) b) c) a) b) c =
     lift_into (lift_inlines (lift_inlines o1 a) b) c"
  "lift_into (lift_inlines (lift_into (lift_inlines o1 b) c) b) c = lift_into (lift_inlines o1 b) c"
  by (simp_all add: lift_inlines_def lift_into_absorbed absorbs_lift_into absorbs_later)

lemma normalize_twice:
  "normalize_block (normalize_block b) = normalize_block b"
  "normalize_blocks (normalize_blocks bs) = normalize_blocks bs"
  "normalize_items (normalize_items items) = normalize_items items"
  "normalize_entries (normalize_entries entries) = normalize_entries entries"
  "normalize_table_rows (normalize_table_rows rows) = normalize_table_rows rows"
  "normalize_cells (normalize_cells cells) = normalize_cells cells"
proof (induction b and bs and items and entries and rows and cells
    rule: normalize_block_normalize_blocks_normalize_items_normalize_entries_normalize_table_rows_normalize_cells.induct)
  case (1 node origin)
  then show ?case
    by (cases node) (simp_all add: comp_def Let_def lift_into_absorbed absorbs_lift_into foldl_lift_twice
        lift_line_origins_twice lift_inlines_def del: foldl.simps)
qed (simp_all add: Let_def lift_thrice lift_into_absorbed absorbs_lift_into)

lemma lifted_origin_covers:
  assumes "derivation origin \<noteq> Synthesized" and "c \<in> set children"
  shows "covered_by (origin_slices (lift_into origin children)) c"
proof -
  have "slice_covers (origin_slices (lift_into origin children)) s"
    if "derivation c \<noteq> Synthesized" "s \<in> set (origin_slices c)" for s
    using lifted_slices_mem [OF assms(2) that] lift_into_slices [OF assms(1)] by (intro slice_covers_widened) simp
  then show ?thesis by (auto simp: covered_by_def list_all_iff)
qed

text \<open>C17: Normalisation does what the check asks for: the slices of every block it returns cover those of its
  children, unless the block states that it is synthesised and yet names a source. A second run changes
  nothing.\<close>

theorem normalize_covers_children:
  "normalize_document_origin_slices (normalize_document_origin_slices d) = normalize_document_origin_slices d \<and>
   (verify_block_slices_cover_children (normalize_block b) = None \<or>
    derivation (block_origin b) = Synthesized \<and> origin_slices (block_origin b) \<noteq> [])"
proof
  show "normalize_document_origin_slices (normalize_document_origin_slices d) = normalize_document_origin_slices d"
    by (simp add: normalize_document_origin_slices_def normalize_twice(1))
  obtain node origin where b: "b = Block node origin" by (cases b)
  obtain node' where n: "normalize_block b = Block node' (lift_into origin (collect_child_origins node'))"
    unfolding b by (auto simp: Let_def)
  show "verify_block_slices_cover_children (normalize_block b) = None \<or>
      derivation (block_origin b) = Synthesized \<and> origin_slices (block_origin b) \<noteq> []"
  proof (cases "derivation origin = Synthesized")
    case True
    then show ?thesis using b n
      by (auto simp: verify_block_slices_cover_children_def lift_into_def)
  next
    case False
    from lifted_origin_covers [OF this] have "covered_by (origin_slices (lift_into origin (collect_child_origins node'))) c"
      if "c \<in> set (collect_child_origins node')" for c using that .
    then show ?thesis using n by (simp add: verify_block_slices_cover_children_def list_all_iff)
  qed
qed

end
