(* ===== verification/Html_Sink.thy ===== *)
theory Html_Sink
  imports Document_Ir
begin

section \<open>HTML pieces and destinations (\<open>src/render/document_html_renderer.cpp\<close>)\<close>

text \<open>
  Escaping, the options a consumer gives the renderer (\<open>src/geist/html.hpp\<close>), the destination of each
  kind of link, and the pieces the sink appends. A resolver of the consumer is a function the model takes as
  it is, \<open>None\<close> when it is unset. What the code appends to the sink is the value of the function here.
\<close>

subsection \<open>Escaping\<close>

definition escape_text_char :: "char \<Rightarrow> string" where
  "escape_text_char ch =
     (if ch = CHR ''&'' then ''&amp;'' else if ch = CHR ''<'' then ''&lt;''
      else if ch = CHR ''>'' then ''&gt;'' else [ch])"

definition escape_html_text :: "string \<Rightarrow> string" where
  "escape_html_text s = concat (map escape_text_char s)"

definition hex_upper :: "nat \<Rightarrow> char" where
  "hex_upper n = ''0123456789ABCDEF'' ! n"

definition escape_attribute_char :: "char \<Rightarrow> string" where
  "escape_attribute_char ch =
     (if ch = CHR ''&'' then ''&amp;'' else if ch = CHR ''<'' then ''&lt;''
      else if ch = CHR ''>'' then ''&gt;'' else if ch = CHR 0x22 then ''&quot;''
      else if ch = CHR 0x27 then ''&#39;''
      else if char_code ch < 0x20 \<or> char_code ch = 0x7F
      then ''&#x'' @ (if char_code ch \<ge> 0x10 then [hex_upper (char_code ch div 16)] else []) @
           [hex_upper (char_code ch mod 16)] @ '';''
      else [ch])"

definition escape_html_attribute :: "string \<Rightarrow> string" where
  "escape_html_attribute s = concat (map escape_attribute_char s)"

text \<open>\<open><\<close> becomes the CSS escape \<open>\3c\<close>.\<close>

definition css_safe :: "string \<Rightarrow> string" where
  "css_safe s = concat (map (\<lambda>ch. if ch = CHR ''<'' then CHR 0x5C # ''3c '' else [ch]) s)"

subsection \<open>Options (\<open>src/geist/html.hpp\<close>)\<close>

datatype html_link_kind =
    Topic_kind
  | Anchor_kind
  | Resource_kind
  | External_kind
  | In_book_kind
  | Book_contents_kind
  | Book_heading_kind
  | Book_spot_kind
  | Book_anchor_kind
  | External_url_kind

definition html_link_kind_name :: "html_link_kind \<Rightarrow> string" where
  "html_link_kind_name kind =
     (case kind of
        Topic_kind \<Rightarrow> ''topic'' | Anchor_kind \<Rightarrow> ''anchor'' | Resource_kind \<Rightarrow> ''resource''
      | External_kind \<Rightarrow> ''external'' | In_book_kind \<Rightarrow> ''in-book''
      | Book_contents_kind \<Rightarrow> ''book-contents'' | Book_heading_kind \<Rightarrow> ''book-heading''
      | Book_spot_kind \<Rightarrow> ''book-spot'' | Book_anchor_kind \<Rightarrow> ''book-anchor''
      | External_url_kind \<Rightarrow> ''external-url'')"

record html_cross_book_reference =
  book_document_number :: string
  book_document_level :: string
  book_heading_anchor :: string
  book_spot_anchor :: string
  book_anchor :: string
  book_target :: string
  book_alternatives :: "string list"

record html_image_size =
  image_width :: u32
  image_height :: u32

record html_render_options =
  resolve_topic :: "(string \<Rightarrow> string option) option"
  resolve_anchor :: "(string \<Rightarrow> string option) option"
  resolve_resource :: "(string \<Rightarrow> string option) option"
  resolve_image_size :: "(string \<Rightarrow> html_image_size option) option"
  resolve_external :: "(string \<Rightarrow> string option) option"
  resolve_cross_book :: "(html_cross_book_reference \<Rightarrow> string option) option"
  id_prefix :: string

record html_document_options =
  html_title :: string
  html_language :: string
  html_stylesheets :: "string list"
  html_inline_stylesheet :: string

definition no_resolvers :: html_render_options where
  "no_resolvers =
     \<lparr> resolve_topic = None, resolve_anchor = None, resolve_resource = None, resolve_image_size = None,
       resolve_external = None, resolve_cross_book = None, id_prefix = [] \<rparr>"

subsection \<open>Destinations\<close>

record html_href =
  href_value :: string
  href_unresolved :: bool

definition live_link :: "string \<Rightarrow> html_href" where
  "live_link s = \<lparr> href_value = s, href_unresolved = False \<rparr>"

definition dead_link :: html_href where
  "dead_link = \<lparr> href_value = ''#'', href_unresolved = True \<rparr>"

definition clean_url :: "string \<Rightarrow> string" where
  "clean_url url = filter (\<lambda>ch. char_code ch > 0x20 \<and> char_code ch \<noteq> 0x7F) url"

text \<open>The first colon must stand in front of any \<open>/\<close>, \<open>?\<close> or \<open>#\<close> to end a scheme.\<close>

definition safe_href_scheme :: "string \<Rightarrow> bool" where
  "safe_href_scheme url =
     (let cleaned = clean_url url;
          scheme = takeWhile (\<lambda>ch. ch \<noteq> CHR '':'') cleaned in
      if scheme = cleaned \<or> list_ex (\<lambda>ch. ch = CHR ''/'' \<or> ch = CHR ''?'' \<or> ch = CHR ''#'') scheme
      then True
      else ascii_lower scheme \<in> {''http'', ''https'', ''ftp'', ''ftps'', ''mailto''})"

definition html_emitted_id :: "string \<Rightarrow> html_render_options \<Rightarrow> string" where
  "html_emitted_id i opts = id_prefix opts @ i"

text \<open>The answer of a resolver that is set and has one; an empty answer is a dead link.\<close>

definition ask :: "('a \<Rightarrow> string option) option \<Rightarrow> 'a \<Rightarrow> html_href option" where
  "ask resolver x =
     (case resolver of
        None \<Rightarrow> None
      | Some f \<Rightarrow> (case f x of None \<Rightarrow> None | Some s \<Rightarrow> Some (if s = [] then dead_link else live_link s)))"

definition or_else :: "'a option \<Rightarrow> 'a \<Rightarrow> 'a" where
  "or_else m x = (case m of None \<Rightarrow> x | Some y \<Rightarrow> y)"

definition anchor_href :: "string \<Rightarrow> html_render_options \<Rightarrow> html_href" where
  "anchor_href i opts =
     (if i = [] then dead_link
      else or_else (ask (resolve_anchor opts) i) (live_link (''#'' @ html_emitted_id i opts)))"

definition topic_href :: "string \<Rightarrow> html_render_options \<Rightarrow> html_href" where
  "topic_href i opts =
     or_else (ask (resolve_topic opts) i) (if i = [] \<or> \<not> safe_href_scheme i then dead_link else live_link i)"

definition resource_marker :: string where
  "resource_marker = ''resource:''"

definition resource_object_id :: "string \<Rightarrow> string" where
  "resource_object_id resource =
     (if length resource > length resource_marker \<and> take (length resource_marker) resource = resource_marker
      then drop (length resource_marker) resource else resource)"

definition resource_href :: "string \<Rightarrow> html_render_options \<Rightarrow> html_href" where
  "resource_href resource opts =
     or_else (ask (resolve_resource opts) (resource_object_id resource))
       (if resource = [] then dead_link else live_link resource)"

definition missing_resource_href :: "string \<Rightarrow> html_href" where
  "missing_resource_href resource =
     (if resource = [] then dead_link else \<lparr> href_value = resource, href_unresolved = True \<rparr>)"

definition external_href :: "string \<Rightarrow> html_render_options \<Rightarrow> html_href" where
  "external_href url opts =
     or_else (ask (resolve_external opts) url)
       (if url = [] \<or> \<not> safe_href_scheme url then dead_link else live_link url)"

definition link_kind :: "target_kind \<Rightarrow> html_link_kind" where
  "link_kind kind =
     (case kind of
        Topic_target \<Rightarrow> Topic_kind | Anchor_target \<Rightarrow> Anchor_kind | Resource_target \<Rightarrow> Resource_kind
      | External_target \<Rightarrow> External_kind | Book_contents_target \<Rightarrow> Book_contents_kind
      | Book_heading_target \<Rightarrow> Book_heading_kind | Book_spot_target \<Rightarrow> Book_spot_kind
      | Book_anchor_target \<Rightarrow> Book_anchor_kind)"

definition target_reference :: "cross_reference_target \<Rightarrow> html_cross_book_reference" where
  "target_reference t =
     \<lparr> book_document_number = target_document_number t, book_document_level = target_document_level t,
       book_heading_anchor = target_heading_anchor t, book_spot_anchor = target_spot_anchor t,
       book_anchor = target_book_anchor t, book_target = target_value t,
       book_alternatives = target_alternatives t \<rparr>"

definition external_url_of :: "cross_reference_target \<Rightarrow> string" where
  "external_url_of t = (if target_url t = [] then target_value t else target_url t)"

definition resolve_cross_reference_href ::
  "cross_reference_target \<Rightarrow> html_render_options \<Rightarrow> html_href option" where
  "resolve_cross_reference_href t opts =
     (case target_kind t of
        Topic_target \<Rightarrow> ask (resolve_topic opts) (target_value t)
      | Anchor_target \<Rightarrow> ask (resolve_anchor opts) (target_value t)
      | Resource_target \<Rightarrow> ask (resolve_resource opts) (resource_object_id (target_value t))
      | External_target \<Rightarrow> ask (resolve_external opts) (external_url_of t)
      | _ \<Rightarrow> ask (resolve_cross_book opts) (target_reference t))"

definition cross_reference_fallback :: "cross_reference_target \<Rightarrow> html_render_options \<Rightarrow> html_href" where
  "cross_reference_fallback t opts =
     (case target_kind t of
        Topic_target \<Rightarrow>
          (if target_value t = [] \<or> \<not> safe_href_scheme (target_value t) then dead_link
           else live_link (target_value t))
      | Anchor_target \<Rightarrow>
          (if target_value t = [] then dead_link
           else live_link (''#'' @ html_emitted_id (target_value t) opts))
      | Resource_target \<Rightarrow> (if target_value t = [] then dead_link else live_link (target_value t))
      | External_target \<Rightarrow>
          (if external_url_of t = [] \<or> \<not> safe_href_scheme (external_url_of t) then dead_link
           else live_link (external_url_of t))
      | _ \<Rightarrow> dead_link)"

definition verbatim_link_html_kind :: "verbatim_link_kind \<Rightarrow> html_link_kind" where
  "verbatim_link_html_kind kind =
     (case kind of
        In_book_link \<Rightarrow> In_book_kind | Book_contents_link \<Rightarrow> Book_contents_kind
      | Book_heading_link \<Rightarrow> Book_heading_kind | Book_spot_link \<Rightarrow> Book_spot_kind
      | Book_anchor_link \<Rightarrow> Book_anchor_kind | External_url_link \<Rightarrow> External_url_kind)"

definition verbatim_reference :: "verbatim_link \<Rightarrow> html_cross_book_reference" where
  "verbatim_reference l =
     \<lparr> book_document_number = link_document_number l, book_document_level = link_document_level l,
       book_heading_anchor = link_heading_anchor l, book_spot_anchor = link_spot_anchor l,
       book_anchor = link_book_anchor l, book_target = link_target l,
       book_alternatives = link_alternatives l \<rparr>"

definition verbatim_link_href :: "verbatim_link \<Rightarrow> html_render_options \<Rightarrow> html_href" where
  "verbatim_link_href l opts =
     (case verbatim_kind l of
        In_book_link \<Rightarrow> anchor_href (link_target l) opts
      | External_url_link \<Rightarrow> external_href (link_url l) opts
      | _ \<Rightarrow> or_else (ask (resolve_cross_book opts) (verbatim_reference l)) dead_link)"

definition link_class :: "html_link_kind \<Rightarrow> bool \<Rightarrow> string" where
  "link_class kind unresolved =
     ''geist-link geist-link--'' @ html_link_kind_name kind @
     (if unresolved then '' geist-link--unresolved'' else [])"

definition anchor_role_name :: "anchor_role \<Rightarrow> string" where
  "anchor_role_name role =
     (case role of
        Cross_reference_role \<Rightarrow> ''cross-reference'' | Figure_role \<Rightarrow> ''figure'' | Table_role \<Rightarrow> ''table''
      | Local_role \<Rightarrow> ''local'')"

definition figure_alt_text :: "string \<Rightarrow> string" where
  "figure_alt_text resource =
     (if length resource > length resource_marker \<and> take (length resource_marker) resource = resource_marker
      then ''PICTURE '' @ drop (length resource_marker) resource else resource)"

subsection \<open>The sink\<close>

text \<open>\<open>sink_resolve\<close> is the resolver of the Markdown renderer, \<open>generic_phrases\<close> the flag
  \<open>HtmlPhraseElements::generic\<close>.\<close>

record html_sink =
  sink_options :: html_render_options
  sink_resolve :: "(cross_reference_target \<Rightarrow> string option) option"
  generic_phrases :: bool

definition sink_phrase :: "html_sink \<Rightarrow> phrase_kind \<Rightarrow> phrase_kind" where
  "sink_phrase sink phrase = (if generic_phrases sink then No_phrase else phrase)"

definition attribute :: "string \<Rightarrow> string \<Rightarrow> string" where
  "attribute name v = '' '' @ name @ [CHR ''='', CHR 0x22] @ escape_html_attribute v @ [CHR 0x22]"

text \<open>\<open>inline_reference\<close>: \<open>claims.front()\<close> has no value without claims.\<close>

fun first_some :: "('a \<Rightarrow> 'b option) \<Rightarrow> 'a list \<Rightarrow> 'b option" where
  "first_some f [] = None"
| "first_some f (x # xs) = (case f x of None \<Rightarrow> first_some f xs | Some y \<Rightarrow> Some y)"

definition with_kind ::
  "(cross_reference_target \<Rightarrow> html_href option) \<Rightarrow> target_claim \<Rightarrow> (html_href \<times> target_kind) option" where
  "with_kind f claim = map_option (\<lambda>h. (h, target_kind (claim_target claim))) (f (claim_target claim))"

definition inline_reference ::
  "html_sink \<Rightarrow> target_claim list \<Rightarrow> (html_href \<times> target_kind) option" where
  "inline_reference sink claims =
     (case claims of
        [] \<Rightarrow> None
      | c # _ \<Rightarrow>
          Some (or_else (first_some (with_kind (ask (sink_resolve sink))) claims)
            (or_else (first_some (with_kind (\<lambda>t. resolve_cross_reference_href t (sink_options sink))) claims)
              (cross_reference_fallback (claim_target c) (sink_options sink), target_kind (claim_target c)))))"

definition append_image_size :: "html_sink \<Rightarrow> string \<Rightarrow> string" where
  "append_image_size sink resource =
     (case resolve_image_size (sink_options sink) of
        None \<Rightarrow> []
      | Some f \<Rightarrow>
          (case f (resource_object_id resource) of
             None \<Rightarrow> []
           | Some dims \<Rightarrow>
               if image_width dims = 0 \<or> image_height dims = 0 then []
               else attribute ''width'' (decimal (unat (image_width dims))) @
                    attribute ''height'' (decimal (unat (image_height dims)))))"

end
