(* ===== verification/Html_Render.thy ===== *)
theory Html_Render
  imports Document_Verify Html_Sink
begin

section \<open>The HTML renderer (\<open>src/render/document_html_renderer.cpp\<close>)\<close>

text \<open>
  The functions that print inlines, blocks, a topic and a page. A function that reaches for a member that
  need not exist (\<open>targets.front()\<close>, \<open>rows[index]\<close>, \<open>styled_lines[index]\<close>) gives \<open>None\<close> where the code
  reads outside the vector; the others are total.
\<close>

text \<open>Appending pieces, each of which may have read outside a vector.\<close>

fun pieces :: "string option list \<Rightarrow> string option" where
  "pieces [] = Some []"
| "pieces (m # ms) = (case m of None \<Rightarrow> None | Some s \<Rightarrow> map_option ((@) s) (pieces ms))"

subsection \<open>Inlines\<close>

definition append_code :: "html_sink \<Rightarrow> string \<Rightarrow> phrase_kind \<Rightarrow> string" where
  "append_code sink s phrase =
     (case sink_phrase sink phrase of
        Sample_phrase \<Rightarrow>
          ''<samp class=\"geist-monospace geist-sample\">'' @ escape_html_text s @ ''</samp>''
      | Keyboard_phrase \<Rightarrow>
          ''<kbd class=\"geist-monospace geist-keyboard\">'' @ escape_html_text s @ ''</kbd>''
      | Definition_phrase \<Rightarrow>
          ''<dfn class=\"geist-monospace geist-definition\">'' @ escape_html_text s @ ''</dfn>''
      | _ \<Rightarrow> ''<code class=\"geist-monospace\">'' @ escape_html_text s @ ''</code>'')"

definition append_emphasis :: "html_sink \<Rightarrow> string \<Rightarrow> emphasis_kind \<Rightarrow> phrase_kind \<Rightarrow> string" where
  "append_emphasis sink s kind phrase =
     (case kind of
        Emphasis \<Rightarrow>
          (if sink_phrase sink phrase = Citation_phrase
           then ''<cite class=\"geist-emphasis geist-citation\">'' @ escape_html_text s @ ''</cite>''
           else if sink_phrase sink phrase = Variable_phrase
           then ''<var class=\"geist-emphasis geist-variable\">'' @ escape_html_text s @ ''</var>''
           else ''<em class=\"geist-emphasis\">'' @ escape_html_text s @ ''</em>'')
      | Strong \<Rightarrow> ''<strong class=\"geist-strong\">'' @ escape_html_text s @ ''</strong>''
      | Strong_emphasis \<Rightarrow>
          ''<strong class=\"geist-strong-emphasis\"><em>'' @ escape_html_text s @ ''</em></strong>'')"

definition append_anchor :: "html_href \<Rightarrow> html_link_kind \<Rightarrow> string \<Rightarrow> string" where
  "append_anchor href kind label =
     ''<a'' @ attribute ''class'' (link_class kind (href_unresolved href)) @
     attribute ''href'' (href_value href) @ ''>'' @ escape_html_text label @ ''</a>''"

definition image_class :: "html_href \<Rightarrow> string" where
  "image_class href = (if href_unresolved href then ''geist-image geist-image--unresolved'' else ''geist-image'')"

definition append_label_image :: "html_sink \<Rightarrow> image_inline \<Rightarrow> string" where
  "append_label_image sink pic =
     (let href = resource_href (image_resource pic) (sink_options sink) in
      ''<img'' @ attribute ''class'' (image_class href) @ attribute ''src'' (href_value href) @
      attribute ''alt'' (image_alt_text pic) @ append_image_size sink (image_resource pic) @ ''>'')"

definition append_cross_reference ::
  "html_sink \<Rightarrow> cross_reference \<Rightarrow> html_href \<Rightarrow> target_kind \<Rightarrow> string" where
  "append_cross_reference sink r href kind =
     (let label = label_text r in
      if label_emphasis r = None \<and> \<not> label_code r \<and> label_image r = None
      then append_anchor href (link_kind kind) label
      else
        ''<a'' @ attribute ''class'' (link_class (link_kind kind) (href_unresolved href)) @
        attribute ''href'' (href_value href) @ ''>'' @
        (case label_image r of None \<Rightarrow> [] | Some pic \<Rightarrow> append_label_image sink pic) @
        (if label_code r then append_code sink label (label_phrase r)
         else case label_emphasis r of
                None \<Rightarrow> escape_html_text label
              | Some emphasis \<Rightarrow> append_emphasis sink label emphasis (label_phrase r)) @
        ''</a>'')"

definition append_image :: "html_sink \<Rightarrow> image_inline \<Rightarrow> string" where
  "append_image sink pic =
     (let href = if image_missing_resource pic then missing_resource_href (image_resource pic)
                 else resource_href (image_resource pic) (sink_options sink) in
      ''<img'' @ attribute ''class'' (image_class href) @ attribute ''src'' (href_value href) @
      attribute ''alt'' (if image_description pic = [] then image_alt_text pic else image_description pic) @
      (if image_missing_resource pic then [] else append_image_size sink (image_resource pic)) @ ''>'' @
      (if image_cells pic = [] then [] else escape_html_text (blank_image_cells pic)))"

fun append_inline :: "html_sink \<Rightarrow> inline_ir \<Rightarrow> string option"
  and append_inlines :: "html_sink \<Rightarrow> inlines \<Rightarrow> string option" where
  "append_inline sink (Inline node origin) =
     (case node of
        Text_inline s \<Rightarrow> Some (escape_html_text s)
      | Emphasis_inline s kind phrase \<Rightarrow> Some (append_emphasis sink s kind phrase)
      | Underline_inline s \<Rightarrow> Some (''<u class=\"geist-underline\">'' @ escape_html_text s @ ''</u>'')
      | Code_inline s phrase \<Rightarrow> Some (append_code sink s phrase)
      | Cross_reference_inline r \<Rightarrow>
          (case inline_reference sink (xref_targets r) of
             None \<Rightarrow> None
           | Some (href, kind) \<Rightarrow> Some (append_cross_reference sink r href kind))
      | Image_inline pic \<Rightarrow> Some (append_image sink pic)
      | Hard_break_inline \<Rightarrow> Some ''<br>''
      | Revised_inline mark children \<Rightarrow>
          pieces [Some (''<span'' @ attribute ''class'' ''geist-revised'' @
                    attribute ''data-geist-revision-mark'' (revision_mark_text mark) @ ''>''),
                  append_inlines sink children, Some ''</span>'']
      | Opaque_inline kind content \<Rightarrow>
          Some (''<code class=\"geist-opaque-inline\"'' @ attribute ''data-geist-opaque-kind'' kind @ ''>'' @
            escape_html_text content @ ''</code>''))"
| "append_inlines sink [] = Some []"
| "append_inlines sink (i # is) = pieces [append_inline sink i, append_inlines sink is]"

subsection \<open>Opening and closing blocks\<close>

definition append_degradation_attributes :: "node_origin \<Rightarrow> string" where
  "append_degradation_attributes origin =
     (if fidelity origin \<noteq> Degraded then []
      else attribute ''data-geist-degraded'' ''true'' @
           attribute ''data-geist-degradation''
             (if degradation_code origin = [] then ''unnamed'' else degradation_code origin))"

definition open_block :: "string \<Rightarrow> string \<Rightarrow> node_origin \<Rightarrow> string" where
  "open_block tag block_class origin =
     ''<'' @ tag @ attribute ''class'' block_class @ append_degradation_attributes origin @ ''>''"

definition close_block :: "string \<Rightarrow> string" where
  "close_block tag = ''</'' @ tag @ ''>''"

definition html_block_class :: "block_node \<Rightarrow> string" where
  "html_block_class node =
     (case node of
        Heading_block _ _ _ \<Rightarrow> ''geist-heading''
      | Paragraph_block _ \<Rightarrow> ''geist-paragraph''
      | Anchor_block _ \<Rightarrow> ''geist-anchor''
      | Thematic_break_block \<Rightarrow> ''geist-thematic-break''
      | List_block _ _ _ \<Rightarrow> ''geist-list''
      | Definition_list_block _ \<Rightarrow> ''geist-definition-list''
      | Table_block _ _ \<Rightarrow> ''geist-table''
      | Preformatted_block _ \<Rightarrow> ''geist-preformatted''
      | Note_block _ _ \<Rightarrow> ''geist-note''
      | Publication_list_block _ \<Rightarrow> ''geist-publication-list''
      | Figure_block _ \<Rightarrow> ''geist-figure''
      | Footnote_block _ _ \<Rightarrow> ''geist-footnote''
      | Index_group_block _ _ \<Rightarrow> ''geist-index-group''
      | Menu_block _ \<Rightarrow> ''geist-menu''
      | Opaque_block _ _ \<Rightarrow> ''geist-opaque'')"

text \<open>An anchor that is opened at a line of a drawing or of a table cell.\<close>

definition append_placed_anchor :: "html_sink \<Rightarrow> placed_anchor \<Rightarrow> string" where
  "append_placed_anchor sink placed =
     ''<span'' @
     attribute ''class'' (''geist-anchor geist-anchor--'' @ anchor_role_name (anchor_role (placed_block placed))) @
     attribute ''id'' (html_emitted_id (anchor_id (placed_block placed)) (sink_options sink)) @
     append_degradation_attributes (placed_origin placed) @ ''></span>''"

definition append_placed_anchors :: "html_sink \<Rightarrow> placed_anchor list \<Rightarrow> string" where
  "append_placed_anchors sink as = concat (map (append_placed_anchor sink) as)"

subsection \<open>Drawn rows\<close>

fun append_row_links :: "html_sink \<Rightarrow> string \<Rightarrow> nat \<Rightarrow> verbatim_link list \<Rightarrow> string" where
  "append_row_links sink row cursor [] = escape_html_text (drop cursor row)"
| "append_row_links sink row cursor (l # links) =
     (if link_begin l < cursor \<or> link_end l > length row \<or> link_begin l \<ge> link_end l
      then append_row_links sink row cursor links
      else escape_html_text (slice row cursor (link_begin l)) @
           append_anchor (verbatim_link_href l (sink_options sink)) (verbatim_link_html_kind (verbatim_kind l))
             (slice row (link_begin l) (link_end l)) @
           append_row_links sink row (link_end l) links)"

definition append_verbatim_row :: "html_sink \<Rightarrow> verbatim_row \<Rightarrow> string" where
  "append_verbatim_row sink row = append_row_links sink (row_text row) 0 (row_links row)"

definition append_pre_line :: "html_sink \<Rightarrow> preformatted_block \<Rightarrow> nat \<Rightarrow> string \<Rightarrow> string option" where
  "append_pre_line sink pre index line =
     (if pre_styled_lines pre \<noteq> [] then
        pieces [Some (if index = 0 \<and> line = [] then ''<span></span>'' else []),
                if index < length (pre_styled_lines pre)
                then append_inlines sink (pre_styled_lines pre ! index) else None]
      else Some (append_verbatim_row sink
             \<lparr> row_text = line,
               row_links = if index < length (pre_line_links pre) then pre_line_links pre ! index else [] \<rparr>))"

text \<open>The loop over the lines; \<open>anchors\<close> are the ones not yet placed.\<close>

fun append_pre_lines ::
  "html_sink \<Rightarrow> preformatted_block \<Rightarrow> nat \<Rightarrow> placed_anchor list \<Rightarrow> string list \<Rightarrow> string option" where
  "append_pre_lines sink pre index anchors [] = Some []"
| "append_pre_lines sink pre index anchors (line # lines) =
     pieces [Some (if index \<noteq> 0 then [CHR 0x0A] else []),
             Some (append_placed_anchors sink (takeWhile (\<lambda>a. placed_line a = index) anchors)),
             append_pre_line sink pre index line,
             append_pre_lines sink pre (index + 1) (dropWhile (\<lambda>a. placed_line a = index) anchors) lines]"

definition append_preformatted ::
  "html_sink \<Rightarrow> preformatted_block \<Rightarrow> node_origin \<Rightarrow> string \<Rightarrow> string option" where
  "append_preformatted sink pre origin block_class =
     pieces [Some (open_block ''pre'' block_class origin),
             append_pre_lines sink pre 0 (pre_line_anchors pre) (pre_lines pre),
             Some (close_block ''pre'')]"

subsection \<open>Tables\<close>

definition open_table_row :: "table_row \<Rightarrow> string" where
  "open_table_row row =
     (case row_mark row of
        None \<Rightarrow> ''<tr class=\"geist-table-row\">''
      | Some mark \<Rightarrow>
          ''<tr'' @ attribute ''class'' ''geist-table-row geist-revised'' @
          attribute ''data-geist-revision-mark'' (revision_mark_text mark) @ ''>'')"

text \<open>The inlines of a cell with the anchors in front of their lines; \<open>line\<close> counts the line breaks.\<close>

fun append_cell_inlines ::
  "html_sink \<Rightarrow> nat \<Rightarrow> nat \<Rightarrow> placed_anchor list \<Rightarrow> inlines \<Rightarrow> string option" where
  "append_cell_inlines sink last_line line anchors [] =
     Some (append_placed_anchors sink (takeWhile (\<lambda>a. placed_line a \<le> last_line) anchors))"
| "append_cell_inlines sink last_line line anchors (i # is) =
     (if is_hard_break i then
        pieces [append_inline sink i,
                Some (append_placed_anchors sink (takeWhile (\<lambda>a. placed_line a \<le> line + 1) anchors)),
                append_cell_inlines sink last_line (line + 1)
                  (dropWhile (\<lambda>a. placed_line a \<le> line + 1) anchors) is]
      else pieces [append_inline sink i, append_cell_inlines sink last_line line anchors is])"

definition append_inline_cell :: "html_sink \<Rightarrow> inlines \<Rightarrow> placed_anchor list \<Rightarrow> string option" where
  "append_inline_cell sink content anchors =
     pieces [Some (append_placed_anchors sink (takeWhile (\<lambda>a. placed_line a \<le> 0) anchors)),
             append_cell_inlines sink (if anchors = [] then 0 else placed_line (last anchors)) 0
               (dropWhile (\<lambda>a. placed_line a \<le> 0) anchors) content]"

subsection \<open>Lists\<close>

definition open_list :: "block_node \<Rightarrow> bool \<Rightarrow> list_marker \<Rightarrow> node_origin \<Rightarrow> string" where
  "open_list node ordered marker origin =
     (if ordered \<and> marker \<noteq> Decimal_marker then
        ''<ol'' @ attribute ''class'' (html_block_class node) @
        attribute ''type'' (if marker = Lower_alpha_marker then ''a'' else ''A'') @
        append_degradation_attributes origin @ ''>''
      else open_block (if ordered then ''ol'' else ''ul'') (html_block_class node) origin)"

definition open_list_item :: "bool \<Rightarrow> list_item \<Rightarrow> string" where
  "open_list_item ordered item =
     (case item_mark item of
        Some mark \<Rightarrow>
          ''<li'' @ attribute ''class'' ''geist-list-item geist-revised'' @
          attribute ''data-geist-revision-mark'' (revision_mark_text mark)
      | None \<Rightarrow> ''<li class=\"geist-list-item\"'') @
     (if item_depth item = 0 then [] else attribute ''data-geist-depth'' (decimal (unat (item_depth item)))) @
     (case item_ordinal item of
        Some n \<Rightarrow> if ordered then attribute ''value'' (decimal (unat n)) else []
      | None \<Rightarrow> []) @
     (if item_empty_content item then attribute ''data-geist-empty'' ''true'' else []) @ ''>''"

definition append_list_label :: "html_sink \<Rightarrow> inlines \<Rightarrow> string option" where
  "append_list_label sink label =
     (if label = [] then Some []
      else pieces [Some ''<span class=\"geist-list-label\">'', append_inlines sink label,
                   Some ''</span>'', Some (escape_html_text '' '')])"

text \<open>The paragraph the label is put into.\<close>

definition leading_paragraph :: "inlines \<Rightarrow> block_ir \<Rightarrow> inlines option" where
  "leading_paragraph label b =
     (if label = [] then None
      else case block_node b of Paragraph_block lead \<Rightarrow> Some lead | _ \<Rightarrow> None)"

subsection \<open>Blocks without blocks of their own\<close>

definition block_tag :: "u32 \<Rightarrow> string" where
  "block_tag level = ''h'' @ decimal (unat (min (max level 1) 6))"

definition wrapped :: "html_sink \<Rightarrow> string \<Rightarrow> inlines \<Rightarrow> string \<Rightarrow> string option" where
  "wrapped sink opening content closing = pieces [Some opening, append_inlines sink content, Some closing]"

definition append_heading :: "html_sink \<Rightarrow> block_ir \<Rightarrow> u32 \<Rightarrow> inlines \<Rightarrow> u32 option \<Rightarrow> string option" where
  "append_heading sink b level content mark =
     wrapped sink
       (open_block (block_tag level) (html_block_class (block_node b)) (block_origin b) @
        (case mark of None \<Rightarrow> [] | Some m \<Rightarrow> escape_html_text (revision_mark_text m @ '' '')))
       content (close_block (block_tag level))"

definition append_anchor_block :: "html_sink \<Rightarrow> block_ir \<Rightarrow> anchor_block \<Rightarrow> string" where
  "append_anchor_block sink b anchor =
     ''<span'' @
     attribute ''class''
       (html_block_class (block_node b) @ '' geist-anchor--'' @ anchor_role_name (anchor_role anchor)) @
     attribute ''id'' (html_emitted_id (anchor_id anchor) (sink_options sink)) @
     append_degradation_attributes (block_origin b) @ ''></span>''"

definition append_note :: "html_sink \<Rightarrow> block_ir \<Rightarrow> inlines \<Rightarrow> inlines \<Rightarrow> string option" where
  "append_note sink b label content =
     pieces [Some (open_block ''aside'' (html_block_class (block_node b)) (block_origin b)),
             if label = [] then Some []
             else wrapped sink ''<p class=\"geist-note-label\">'' label '':</p>'',
             wrapped sink ''<p class=\"geist-note-content\">'' content ''</p>'',
             Some (close_block ''aside'')]"

definition append_publication_entry :: "html_sink \<Rightarrow> publication_entry \<Rightarrow> string option" where
  "append_publication_entry sink entry =
     pieces [Some ''<li class=\"geist-publication-entry\">'',
             wrapped sink ''<p class=\"geist-publication-title\">'' (publication_title entry) ''</p>'',
             pieces (map (\<lambda>p. wrapped sink ''<p class=\"geist-publication-paragraph\">'' p ''</p>'')
                       (publication_paragraphs entry)),
             Some ''</li>'']"

definition append_figure :: "html_sink \<Rightarrow> block_ir \<Rightarrow> figure_block \<Rightarrow> string option" where
  "append_figure sink b figure =
     (let href = if figure_missing_resource figure then missing_resource_href (figure_resource figure)
                 else resource_href (figure_resource figure) (sink_options sink) in
      pieces [Some (open_block ''figure'' (html_block_class (block_node b)) (block_origin b) @
                ''<img'' @
                attribute ''class''
                  (if href_unresolved href then ''geist-figure-image geist-image--unresolved''
                   else ''geist-figure-image'') @
                attribute ''src'' (href_value href) @
                attribute ''alt''
                  (if figure_description figure = [] then figure_alt_text (figure_resource figure)
                   else figure_description figure) @
                (if figure_missing_resource figure then []
                 else append_image_size sink (figure_resource figure)) @ ''>''),
              if figure_caption figure = [] then Some []
              else wrapped sink ''<figcaption class=\"geist-figure-caption\">'' (figure_caption figure)
                     ''</figcaption>'',
              Some (close_block ''figure'')])"

definition append_footnote :: "html_sink \<Rightarrow> block_ir \<Rightarrow> string \<Rightarrow> inlines \<Rightarrow> string option" where
  "append_footnote sink b i content =
     wrapped sink
       (''<aside'' @ attribute ''class'' (html_block_class (block_node b)) @
        attribute ''id'' (html_emitted_id i (sink_options sink)) @
        append_degradation_attributes (block_origin b) @
        ''><span class=\"geist-footnote-label\">'' @ escape_html_text i @
        ''</span><span class=\"geist-footnote-content\">'')
       content ''</span></aside>''"

definition append_index_entry :: "html_sink \<Rightarrow> index_entry \<Rightarrow> string option" where
  "append_index_entry sink entry =
     (let target = index_target entry;
          anchor = target \<noteq> [] \<and> hd target = CHR ''#'';
          href = if anchor then anchor_href (tl target) (sink_options sink)
                 else topic_href target (sink_options sink) in
      wrapped sink
        (''<li class=\"geist-index-entry\">'' @ ''<a'' @
         attribute ''class'' (link_class (if anchor then Anchor_kind else Topic_kind) (href_unresolved href)) @
         attribute ''href'' (href_value href) @ ''>'')
        (index_term entry) ''</a></li>'')"

definition append_index_group :: "html_sink \<Rightarrow> block_ir \<Rightarrow> inlines \<Rightarrow> index_entry list \<Rightarrow> string option" where
  "append_index_group sink b heading entries =
     pieces [Some (open_block ''section'' (html_block_class (block_node b)) (block_origin b)),
             if heading = [] then Some []
             else wrapped sink ''<p class=\"geist-index-heading\">'' heading ''</p>'',
             Some ''<ul class=\"geist-index-entries\">'',
             pieces (map (append_index_entry sink) entries),
             Some ''</ul>'', Some (close_block ''section'')]"

definition append_menu_item :: "html_sink \<Rightarrow> menu_item \<Rightarrow> string" where
  "append_menu_item sink item =
     (let t = menu_target item;
          href = or_else (resolve_cross_reference_href t (sink_options sink))
                   (cross_reference_fallback t (sink_options sink)) in
      ''<li class=\"geist-menu-item\">'' @ ''<a'' @
      attribute ''class'' (link_class (link_kind (target_kind t)) (href_unresolved href)) @
      attribute ''href'' (href_value href) @ ''><span class=\"geist-menu-item-target\">'' @
      escape_html_text (target_value t) @ ''</span> <span class=\"geist-menu-item-label\">'' @
      escape_html_text (menu_label item) @ ''</span></a>'' @ ''</li>'')"

definition append_menu :: "html_sink \<Rightarrow> block_ir \<Rightarrow> menu_item list \<Rightarrow> string" where
  "append_menu sink b items =
     open_block ''nav'' (html_block_class (block_node b)) (block_origin b) @
     ''<p class=\"geist-menu-lead\" data-geist-generated=\"true\">Subtopics:</p>'' @
     ''<ul class=\"geist-menu-items\">'' @ concat (map (append_menu_item sink) items) @ ''</ul>'' @
     close_block ''nav''"

definition append_opaque :: "block_ir \<Rightarrow> string \<Rightarrow> string \<Rightarrow> string" where
  "append_opaque b kind content =
     ''<pre'' @ attribute ''class'' (html_block_class (block_node b)) @
     attribute ''data-geist-opaque-kind'' kind @ append_degradation_attributes (block_origin b) @ ''>'' @
     escape_html_text content @ ''</pre>''"

subsection \<open>Blocks\<close>

text \<open>The header rows are read by index, so a count behind the last row reads outside the vector; the
  body rows start behind them.\<close>

fun append_block :: "html_sink \<Rightarrow> block_ir \<Rightarrow> string option"
  and append_blocks :: "html_sink \<Rightarrow> block_ir list \<Rightarrow> string option"
  and append_items :: "html_sink \<Rightarrow> bool \<Rightarrow> list_item list \<Rightarrow> string option"
  and append_entries :: "html_sink \<Rightarrow> definition_entry list \<Rightarrow> string option"
  and append_header_rows :: "html_sink \<Rightarrow> nat \<Rightarrow> table_row list \<Rightarrow> string option"
  and append_body_rows :: "html_sink \<Rightarrow> nat \<Rightarrow> table_row list \<Rightarrow> string option"
  and append_cells :: "html_sink \<Rightarrow> string \<Rightarrow> string \<Rightarrow> table_cell list \<Rightarrow> string option" where
  "append_block sink (Block node origin) =
     (let b = Block node origin; block_class = html_block_class node in
      case node of
        Heading_block level content mark \<Rightarrow> append_heading sink b level content mark
      | Paragraph_block content \<Rightarrow> wrapped sink (open_block ''p'' block_class origin) content (close_block ''p'')
      | Anchor_block anchor \<Rightarrow> Some (append_anchor_block sink b anchor)
      | Thematic_break_block \<Rightarrow>
          Some (''<hr'' @ attribute ''class'' block_class @ append_degradation_attributes origin @ ''>'')
      | List_block ordered items marker \<Rightarrow>
          pieces [Some (open_list node ordered marker origin), append_items sink ordered items,
                  Some (close_block (if ordered then ''ol'' else ''ul''))]
      | Definition_list_block entries \<Rightarrow>
          pieces [Some (open_block ''dl'' block_class origin), append_entries sink entries,
                  Some (close_block ''dl'')]
      | Table_block rows header_rows \<Rightarrow>
          pieces [Some (open_block ''table'' ''geist-table'' origin),
                  if header_rows = 0 then Some []
                  else pieces [Some ''<thead class=\"geist-table-head\">'',
                               append_header_rows sink header_rows rows, Some ''</thead>''],
                  if header_rows < length rows
                  then pieces [Some ''<tbody class=\"geist-table-body\">'',
                               append_body_rows sink header_rows rows, Some ''</tbody>'']
                  else Some [],
                  Some (close_block ''table'')]
      | Preformatted_block pre \<Rightarrow> append_preformatted sink pre origin block_class
      | Note_block label content \<Rightarrow> append_note sink b label content
      | Publication_list_block entries \<Rightarrow>
          pieces [Some (open_block ''ul'' block_class origin),
                  pieces (map (append_publication_entry sink) entries), Some (close_block ''ul'')]
      | Figure_block figure \<Rightarrow> append_figure sink b figure
      | Footnote_block i content \<Rightarrow> append_footnote sink b i content
      | Index_group_block heading entries \<Rightarrow> append_index_group sink b heading entries
      | Menu_block items \<Rightarrow> Some (append_menu sink b items)
      | Opaque_block kind content \<Rightarrow> Some (append_opaque b kind content))"
| "append_blocks sink [] = Some []"
| "append_blocks sink (b # bs) = pieces [append_block sink b, append_blocks sink bs]"
| "append_items sink ordered [] = Some []"
| "append_items sink ordered
     (List_item content origin ordinal depth empty_content children label mark # items) =
     (let item = List_item content origin ordinal depth empty_content children label mark in
      pieces [Some (open_list_item ordered item),
              (case children of
                 [] \<Rightarrow> pieces [append_list_label sink label, append_inlines sink content]
               | b # bs \<Rightarrow>
                   (case leading_paragraph label b of
                      Some lead \<Rightarrow>
                        pieces [Some (open_block ''p'' (html_block_class (block_node b)) (block_origin b)),
                                append_list_label sink label, append_inlines sink lead,
                                Some (close_block ''p''), append_blocks sink bs]
                    | None \<Rightarrow> pieces [append_list_label sink label, append_blocks sink (b # bs)])),
              Some ''</li>'', append_items sink ordered items])"
| "append_entries sink [] = Some []"
| "append_entries sink (Definition_entry term body origin children empty_term # entries) =
     pieces [wrapped sink ''<dt class=\"geist-definition-term\">'' term
               ''</dt><dd class=\"geist-definition-description\">'',
             if children = [] then append_inlines sink body else append_blocks sink children,
             Some ''</dd>'', append_entries sink entries]"
| "append_header_rows sink n [] = (if n = 0 then Some [] else None)"
| "append_header_rows sink n (Table_row cells origin mark # rows) =
     (if n = 0 then Some []
      else pieces [Some (open_table_row (Table_row cells origin mark)),
                   append_cells sink ''<th class=\"geist-table-header-cell\" scope=\"col\">'' ''</th>'' cells,
                   Some ''</tr>'', append_header_rows sink (n - 1) rows])"
| "append_body_rows sink n [] = Some []"
| "append_body_rows sink n (Table_row cells origin mark # rows) =
     (if n \<noteq> 0 then append_body_rows sink (n - 1) rows
      else pieces [Some (open_table_row (Table_row cells origin mark)),
                   append_cells sink ''<td class=\"geist-table-cell\">'' ''</td>'' cells,
                   Some ''</tr>'', append_body_rows sink 0 rows])"
| "append_cells sink opening closing [] = Some []"
| "append_cells sink opening closing (Table_cell content origin children anchors # cells) =
     pieces [Some opening,
             if children = [] then append_inline_cell sink content anchors else append_blocks sink children,
             Some closing, append_cells sink opening closing cells]"

subsection \<open>Topics and pages\<close>

fun degraded_block :: "block_ir \<Rightarrow> bool"
  and degraded_blocks :: "block_ir list \<Rightarrow> bool"
  and degraded_items :: "list_item list \<Rightarrow> bool"
  and degraded_entries :: "definition_entry list \<Rightarrow> bool"
  and degraded_rows :: "table_row list \<Rightarrow> bool"
  and degraded_cells :: "table_cell list \<Rightarrow> bool" where
  "degraded_block (Block node origin) \<longleftrightarrow>
     fidelity origin = Degraded \<or>
     (case node of
        List_block ordered items marker \<Rightarrow> degraded_items items
      | Definition_list_block entries \<Rightarrow> degraded_entries entries
      | Table_block rows header_rows \<Rightarrow> degraded_rows rows
      | _ \<Rightarrow> False)"
| "degraded_blocks [] \<longleftrightarrow> False"
| "degraded_blocks (b # bs) \<longleftrightarrow> degraded_block b \<or> degraded_blocks bs"
| "degraded_items [] \<longleftrightarrow> False"
| "degraded_items (List_item content origin ordinal depth empty_content children label mark # items) \<longleftrightarrow>
     degraded_blocks children \<or> degraded_items items"
| "degraded_entries [] \<longleftrightarrow> False"
| "degraded_entries (Definition_entry term body origin children empty_term # entries) \<longleftrightarrow>
     degraded_blocks children \<or> degraded_entries entries"
| "degraded_rows [] \<longleftrightarrow> False"
| "degraded_rows (Table_row cells origin mark # rows) \<longleftrightarrow> degraded_cells cells \<or> degraded_rows rows"
| "degraded_cells [] \<longleftrightarrow> False"
| "degraded_cells (Table_cell content origin children anchors # cells) \<longleftrightarrow>
     degraded_blocks children \<or> degraded_cells cells"

definition document_has_degraded_block :: "document_ir \<Rightarrow> bool" where
  "document_has_degraded_block document = degraded_blocks (document_blocks document)"

datatype render_severity = Severity_typed | Severity_typed_degraded | Severity_best_effort | Severity_failed

definition severity_name :: "render_severity \<Rightarrow> string" where
  "severity_name severity =
     (case severity of
        Severity_typed \<Rightarrow> ''typed'' | Severity_typed_degraded \<Rightarrow> ''typed-degraded''
      | Severity_best_effort \<Rightarrow> ''best-effort'' | Severity_failed \<Rightarrow> ''failed'')"

definition render_document_html_inlines ::
  "inlines \<Rightarrow> html_render_options \<Rightarrow> (cross_reference_target \<Rightarrow> string option) option \<Rightarrow> bool \<Rightarrow>
   string option" where
  "render_document_html_inlines is opts resolver generic =
     append_inlines \<lparr> sink_options = opts, sink_resolve = resolver, generic_phrases = generic \<rparr> is"

fun append_lines_of_blocks :: "html_sink \<Rightarrow> bool \<Rightarrow> block_ir list \<Rightarrow> string option" where
  "append_lines_of_blocks sink first [] = Some []"
| "append_lines_of_blocks sink first (b # bs) =
     pieces [Some (if first then [] else [CHR 0x0A]), append_block sink b,
             append_lines_of_blocks sink False bs]"

definition render_document_html_blocks ::
  "block_ir list \<Rightarrow> html_render_options \<Rightarrow> (cross_reference_target \<Rightarrow> string option) option \<Rightarrow> bool \<Rightarrow>
   string option" where
  "render_document_html_blocks bs opts resolver generic =
     append_lines_of_blocks
       \<lparr> sink_options = opts, sink_resolve = resolver, generic_phrases = generic \<rparr> True bs"

definition topic_destination :: "string \<Rightarrow> html_render_options \<Rightarrow> string \<Rightarrow> string" where
  "topic_destination i opts destination =
     (if destination = [] \<or> destination = i then []
      else ''<span'' @ attribute ''class'' ''geist-topic-destination'' @
           attribute ''id'' (html_emitted_id destination opts) @ ''></span>'' @ [CHR 0x0A])"

definition end_line_feed :: "string \<Rightarrow> string" where
  "end_line_feed s = (if s \<noteq> [] \<and> last s \<noteq> CHR 0x0A then [CHR 0x0A] else [])"

definition render_html_topic_root ::
  "string \<Rightarrow> string list \<Rightarrow> render_severity \<Rightarrow> html_render_options \<Rightarrow> string \<Rightarrow> string" where
  "render_html_topic_root i destinations severity opts inner =
     (let out = ''<div'' @ attribute ''class'' ''geist-topic'' @
            (if i = [] then []
             else attribute ''id'' (html_emitted_id i opts) @ attribute ''data-geist-topic'' i) @
            attribute ''data-geist-severity'' (severity_name severity) @ ''>'' @ [CHR 0x0A] @
            concat (map (topic_destination i opts) destinations) @ inner in
      out @ end_line_feed out @ ''</div>'' @ [CHR 0x0A])"

text \<open>The outer sum is the exception, the inner option the read outside a vector.\<close>

definition render_document_html_fragment ::
  "document_ir \<Rightarrow> html_render_options \<Rightarrow> exn + string option" where
  "render_document_html_fragment document opts =
     (case verify_document_ir document of
        Some message \<Rightarrow> Inl (InvalidArgument (''invalid DocumentIR: '' @ message))
      | None \<Rightarrow>
          Inr (map_option
            (render_html_topic_root (topic_id (document_topic document)) (named_destinations document)
               (if document_has_degraded_block document then Severity_typed_degraded else Severity_typed) opts)
            (render_document_html_blocks (document_blocks document) opts None False)))"

definition stylesheet_link :: "string \<Rightarrow> string" where
  "stylesheet_link url =
     ''<link rel=\"stylesheet\" href=\"'' @ escape_html_attribute url @ ''\">'' @ [CHR 0x0A]"

definition render_html_document :: "string \<Rightarrow> html_document_options \<Rightarrow> string" where
  "render_html_document fragment opts =
     (let out = ''<!doctype html>'' @ [CHR 0x0A] @ ''<html'' @
            (if html_language opts = [] then []
             else '' lang=\"'' @ escape_html_attribute (html_language opts) @ [CHR 0x22]) @
            ''>'' @ [CHR 0x0A] @ ''<head>'' @ [CHR 0x0A] @ ''<meta charset=\"utf-8\">'' @ [CHR 0x0A] @
            ''<meta name=\"viewport\" content=\"width=device-width, initial-scale=1\">'' @ [CHR 0x0A] @
            ''<title>'' @ escape_html_text (html_title opts) @ ''</title>'' @ [CHR 0x0A] @
            concat (map stylesheet_link (html_stylesheets opts)) @
            (if html_inline_stylesheet opts = [] then []
             else ''<style>'' @ [CHR 0x0A] @ css_safe (html_inline_stylesheet opts) @ [CHR 0x0A] @
                  ''</style>'' @ [CHR 0x0A]) @
            ''</head>'' @ [CHR 0x0A] @ ''<body>'' @ [CHR 0x0A] @ fragment in
      out @ end_line_feed out @ ''</body>'' @ [CHR 0x0A] @ ''</html>'' @ [CHR 0x0A])"

end
