(* ===== verification/Html_Visible.thy ===== *)
theory Html_Visible
  imports Html_Sink
begin

section \<open>The text a page shows (\<open>src/render/html_visible_text.cpp\<close>)\<close>

text \<open>
  The reader that projects emitted HTML to the text a browser would show, with a line feed at the boundary
  of every block and the marker a browser draws in front of a list item. It throws \<open>std::logic_error\<close> only,
  so an error is its message. The lists and elements that are open are lists whose head is the \<open>back()\<close> of
  the vector; the parsed attributes are in source order where the code has a \<open>std::map\<close>, of which it only
  asks \<open>find\<close> and \<open>empty\<close>.
\<close>

definition boundary :: "string \<Rightarrow> bool" where
  "boundary tag \<longleftrightarrow>
     tag \<in> set
       [''address'', ''article'', ''aside'', ''blockquote'', ''br'', ''caption'', ''dd'', ''div'', ''dl'', ''dt'',
        ''fieldset'', ''figcaption'', ''figure'', ''footer'', ''form'', ''h1'', ''h2'', ''h3'', ''h4'', ''h5'',
        ''h6'', ''header'', ''hr'', ''li'', ''main'', ''nav'', ''ol'', ''p'', ''pre'', ''section'', ''table'',
        ''tbody'', ''td'', ''tfoot'', ''th'', ''thead'', ''tr'', ''ul'']"

definition supported_tag :: "string \<Rightarrow> bool" where
  "supported_tag tag \<longleftrightarrow>
     tag \<in> set
       [''a'', ''aside'', ''br'', ''cite'', ''code'', ''dd'', ''dfn'', ''div'', ''dl'', ''dt'', ''em'',
        ''figcaption'', ''figure'', ''h1'', ''h2'', ''h3'', ''h4'', ''h5'', ''h6'', ''hr'', ''img'', ''kbd'',
        ''li'', ''nav'', ''ol'', ''p'', ''pre'', ''samp'', ''section'', ''span'', ''strong'', ''table'',
        ''tbody'', ''td'', ''th'', ''thead'', ''tr'', ''u'', ''ul'', ''var'']"

definition supported_attribute :: "string \<Rightarrow> string \<Rightarrow> bool" where
  "supported_attribute tag name \<longleftrightarrow>
     (if name = ''class'' then True
      else if name = ''id'' then tag = ''a'' \<or> tag = ''span'' \<or> tag = ''aside'' \<or> tag = ''div''
      else if name = ''href'' then tag = ''a''
      else if name = ''src'' \<or> name = ''alt'' \<or> name = ''width'' \<or> name = ''height'' then tag = ''img''
      else if name = ''scope'' then tag = ''th''
      else if name = ''value'' then tag = ''li''
      else if name = ''type'' then tag = ''ol''
      else name \<in> set
        [''data-geist-degradation'', ''data-geist-degraded'', ''data-geist-depth'', ''data-geist-empty'',
         ''data-geist-generated'', ''data-geist-opaque-kind'', ''data-geist-reason'',
         ''data-geist-revision-mark'', ''data-geist-severity'', ''data-geist-topic''])"

definition space :: "char \<Rightarrow> bool" where
  "space ch \<longleftrightarrow> ch = CHR '' '' \<or> ch = CHR 0x0A \<or> ch = CHR 0x0D \<or> ch = CHR 0x09"

subsection \<open>Entities\<close>

definition digit_value :: "char \<Rightarrow> nat" where
  "digit_value ch =
     (let n = char_code ch in
      if 48 \<le> n \<and> n \<le> 57 then n - 48
      else if 97 \<le> n \<and> n \<le> 102 then n - 97 + 10
      else if 65 \<le> n \<and> n \<le> 70 then n - 65 + 10 else 16)"

text \<open>The code stays at most \<open>0x10ffff\<close>, so the \<open>unsigned\<close> of the code never wraps.\<close>

fun entity_code :: "nat \<Rightarrow> nat \<Rightarrow> string \<Rightarrow> nat option" where
  "entity_code base code [] = Some code"
| "entity_code base code (ch # s) =
     (let digit = digit_value ch in
      if digit \<ge> base \<or> code > (0x10FFFF - digit) div base then None
      else entity_code base (code * base + digit) s)"

definition numeric_entity :: "string \<Rightarrow> char option" where
  "numeric_entity s =
     (let hex = s \<noteq> [] \<and> (hd s = CHR ''x'' \<or> hd s = CHR ''X'');
          digits = (if hex then tl s else s) in
      if digits = [] then None
      else map_option (\<lambda>code. if 0 < code \<and> code < 128 then char_of code else CHR '' '')
             (entity_code (if hex then 16 else 10) 0 digits))"

definition entity :: "string \<Rightarrow> char option" where
  "entity v =
     (if v = ''amp'' then Some (CHR ''&'')
      else if v = ''lt'' then Some (CHR ''<'')
      else if v = ''gt'' then Some (CHR ''>'')
      else if v = ''quot'' then Some (CHR 0x22)
      else if v = ''apos'' \<or> v = ''#39'' then Some (CHR 0x27)
      else if v = ''nbsp'' then Some (CHR '' '')
      else if v \<noteq> [] \<and> hd v = CHR ''#'' then numeric_entity (tl v)
      else None)"

text \<open>The entity behind an ampersand, up to the next semicolon, and what follows it.\<close>

definition entity_at :: "string \<Rightarrow> (char \<times> string) option" where
  "entity_at s =
     (let name = takeWhile (\<lambda>c. c \<noteq> CHR '';'') s; rest = drop (length name) s in
      if rest = [] then None else map_option (\<lambda>c. (c, tl rest)) (entity name))"

lemma entity_at_length: "entity_at s = Some (c, r) \<Longrightarrow> length r < length s"
  by (auto simp: entity_at_def Let_def neq_Nil_conv split: if_splits)

function text_entities :: "string \<Rightarrow> string + string" where
  "text_entities [] = Inr []"
| "text_entities (c # s) =
     (if c = CHR ''&'' then
        (case entity_at s of
           Some (d, r) \<Rightarrow> and_then (text_entities r) (\<lambda>out. Inr (d # out))
         | None \<Rightarrow> Inl ''unsupported entity in emitted HTML'')
      else and_then (text_entities s) (\<lambda>out. Inr (c # out)))"
  by pat_completeness auto
termination
  by (relation "measure length") (auto dest: entity_at_length)

subsection \<open>Tags\<close>

function parse_attributes ::
  "string \<Rightarrow> (string \<times> string) list \<Rightarrow> string \<Rightarrow> string + (string \<times> string) list" where
  "parse_attributes tag found [] = Inr found"
| "parse_attributes tag found (c # s) =
     (let at_name = dropWhile space s;
          name = takeWhile (\<lambda>ch. ch \<noteq> CHR ''='' \<and> \<not> space ch) at_name;
          at_equals = dropWhile space (drop (length name) at_name);
          at_quote = dropWhile space (tl at_equals);
          v = takeWhile (\<lambda>ch. ch \<noteq> hd at_quote) (tl at_quote);
          at_end = drop (length v) (tl at_quote) in
      if \<not> space c then Inl ''malformed emitted HTML attributes''
      else if at_name = [] then Inr found
      else if \<not> supported_attribute tag name then Inl (''unsupported emitted HTML attribute: '' @ name)
      else if at_equals = [] \<or> hd at_equals \<noteq> CHR ''='' then Inl ''malformed emitted HTML attribute assignment''
      else if at_quote = [] \<or> (hd at_quote \<noteq> CHR 0x27 \<and> hd at_quote \<noteq> CHR 0x22)
      then Inl ''unquoted emitted HTML attribute''
      else if at_end = [] then Inl ''unterminated emitted HTML attribute''
      else and_then (text_entities v) (\<lambda>decoded.
        if name \<in> fst ` set found then Inl ''duplicate emitted HTML attribute''
        else parse_attributes tag (found @ [(name, decoded)]) (tl at_end)))"
  by pat_completeness auto
termination
proof (relation "measure (\<lambda>(tag, found, s). length s)", goal_cases)
  case 1
  show ?case by simp
next
  case (2 tag found c s at_name name at_equals at_quote v at_end decoded)
  have "length at_name \<le> length s" "length at_equals \<le> length at_name"
    using length_dropWhile_le [of space s] length_dropWhile_le [of space "drop (length name) at_name"]
    unfolding 2 by (auto intro: order_trans)
  moreover have "length at_quote \<le> length at_equals"
    using length_dropWhile_le [of space "tl at_equals"] unfolding 2 by simp
  moreover have "length (tl at_end) \<le> length at_quote" unfolding 2 by simp
  ultimately show ?case by simp
qed

text \<open>The text up to the \<open>>\<close> that ends the tag, which no quotes enclose, and what follows it.\<close>

fun tag_text :: "char option \<Rightarrow> string \<Rightarrow> (string \<times> string) option" where
  "tag_text q [] = None"
| "tag_text (Some q) (c # s) =
     map_option (\<lambda>(t, r). (c # t, r)) (tag_text (if c = q then None else Some q) s)"
| "tag_text None (c # s) =
     (if c = CHR 0x27 \<or> c = CHR 0x22 then map_option (\<lambda>(t, r). (c # t, r)) (tag_text (Some c) s)
      else if c = CHR ''>'' then Some ([], s)
      else map_option (\<lambda>(t, r). (c # t, r)) (tag_text None s))"

lemma tag_text_length: "tag_text q s = Some (t, r) \<Longrightarrow> length r < length s"
  by (induction q s arbitrary: t rule: tag_text.induct) (fastforce split: if_splits)+

subsection \<open>Lists and elements\<close>

fun ordinal_from :: "u64 \<Rightarrow> string \<Rightarrow> u64 option" where
  "ordinal_from n [] = Some n"
| "ordinal_from n (ch # s) =
     (if \<not> isdigit ch \<or> n > (- 1 - of_nat (char_code ch - 48)) div 10 then None
      else ordinal_from (n * 10 + of_nat (char_code ch - 48)) s)"

definition read_ordinal :: "string \<Rightarrow> u64 option" where
  "read_ordinal v = (if v = [] then None else ordinal_from 0 v)"

record visible_list =
  list_ordered :: bool
  list_next :: u64
  list_marker :: char

record visible_state =
  visible_out :: string
  visible_lists :: "visible_list list"
  visible_elements :: "string list"

definition emit :: "string \<Rightarrow> visible_state \<Rightarrow> visible_state" where
  "emit s st = st\<lparr>visible_out := visible_out st @ s\<rparr>"

definition empty_element :: "string \<Rightarrow> bool" where
  "empty_element tag \<longleftrightarrow> tag = ''img'' \<or> tag = ''br'' \<or> tag = ''hr''"

text \<open>The marker in front of an item: the letter is computed in 64 bits and narrowed to a character.\<close>

definition item_marker :: "visible_list \<Rightarrow> string" where
  "item_marker l =
     (if list_marker l = CHR ''a'' \<or> list_marker l = CHR ''A''
      then [char_of (unat (of_nat (char_code (list_marker l)) + list_next l - 1))]
      else decimal (unat (list_next l))) @ ''. ''"

definition nest :: "bool \<Rightarrow> string \<Rightarrow> (string \<times> string) list \<Rightarrow> visible_state \<Rightarrow> string + visible_state" where
  "nest closing tag attributes st =
     (if closing then
        (if attributes \<noteq> [] \<or> empty_element tag \<or> visible_elements st = [] \<or> hd (visible_elements st) \<noteq> tag
         then Inl ''unbalanced emitted HTML tag''
         else Inr (st\<lparr>visible_elements := tl (visible_elements st)\<rparr>))
      else if empty_element tag then Inr st
      else Inr (st\<lparr>visible_elements := tag # visible_elements st\<rparr>))"

definition show_image :: "bool \<Rightarrow> string \<Rightarrow> (string \<times> string) list \<Rightarrow> visible_state \<Rightarrow> visible_state" where
  "show_image closing tag attributes st =
     (case map_of attributes ''alt'' of
        Some alt \<Rightarrow> if \<not> closing \<and> tag = ''img'' then emit ([CHR 0x0A] @ alt @ [CHR 0x0A]) st else st
      | None \<Rightarrow> st)"

definition number_item :: "(string \<times> string) list \<Rightarrow> visible_list \<Rightarrow> visible_list" where
  "number_item attributes l =
     (case map_of attributes ''value'' of
        None \<Rightarrow> l
      | Some v \<Rightarrow> (case read_ordinal v of None \<Rightarrow> l | Some n \<Rightarrow> l\<lparr>list_next := n\<rparr>))"

definition show_list :: "bool \<Rightarrow> string \<Rightarrow> (string \<times> string) list \<Rightarrow> visible_state \<Rightarrow> string + visible_state" where
  "show_list closing tag attributes st =
     (if tag = ''ol'' \<or> tag = ''ul'' then
        (if closing then Inr (st\<lparr>visible_lists := tl (visible_lists st)\<rparr>)
         else
           (let kind = map_of attributes ''type'' in
            if kind \<noteq> None \<and> kind \<noteq> Some ''a'' \<and> kind \<noteq> Some ''A''
            then Inl ''unsupported emitted ordered-list type''
            else Inr (st\<lparr>visible_lists :=
                \<lparr> list_ordered = tag = ''ol'', list_next = 1,
                  list_marker = (case kind of None \<Rightarrow> CHR ''1'' | Some t \<Rightarrow> hd t) \<rparr> # visible_lists st\<rparr>)))
      else
        (case visible_lists st of
           l # ls \<Rightarrow>
             if \<not> closing \<and> tag = ''li'' \<and> list_ordered l then
               (let l' = number_item attributes l in
                Inr (emit (item_marker l') st
                  \<lparr>visible_lists := l'\<lparr>list_next := if list_next l' < - 1 then list_next l' + 1 else list_next l'\<rparr> # ls\<rparr>))
             else Inr st
         | [] \<Rightarrow> Inr st))"

definition visible_tag :: "bool \<Rightarrow> string \<Rightarrow> (string \<times> string) list \<Rightarrow> visible_state \<Rightarrow> string + visible_state" where
  "visible_tag closing tag attributes st =
     (let st1 = (if boundary tag then emit [CHR 0x0A] st else st) in
      and_then (nest closing tag attributes st1) (\<lambda>st2.
        show_list closing tag attributes (show_image closing tag attributes st2)))"

subsection \<open>The whole page\<close>

definition tag_char :: "char \<Rightarrow> bool" where
  "tag_char ch \<longleftrightarrow> islower ch \<or> isdigit ch"

definition closing_tag :: "string \<Rightarrow> bool" where
  "closing_tag s \<longleftrightarrow> s \<noteq> [] \<and> hd s = CHR ''/''"

text \<open>From behind a \<open><\<close>: whether the tag is an end tag, its name and what follows the name.\<close>

definition tag_head :: "string \<Rightarrow> bool \<times> string \<times> string" where
  "tag_head s =
     (let inner = (if closing_tag s then tl s else s); name = takeWhile tag_char inner in
      (closing_tag s, name, drop (length name) inner))"

lemma tag_head_length: "tag_head s = (closing, name, r) \<Longrightarrow> length r \<le> length s"
  by (auto simp: tag_head_def Let_def split: if_splits)

function visible_loop :: "string \<Rightarrow> visible_state \<Rightarrow> string + string" where
  "visible_loop [] st =
     (if visible_elements st \<noteq> [] then Inl ''unclosed emitted HTML tag'' else Inr (visible_out st))"
| "visible_loop (c # s) st =
     (if starts_with (c # s) ''<!--'' then
        (case find_from (c # s) ''-->'' 4 of
           None \<Rightarrow> Inl ''unterminated emitted HTML comment''
         | Some e \<Rightarrow> visible_loop (drop (e + 3) (c # s)) st)
      else if c = CHR ''<'' then
        (case tag_head s of
           (closing, tag, r) \<Rightarrow>
             if \<not> supported_tag tag then Inl (''unsupported emitted HTML tag: '' @ tag)
             else
               (case tag_text None r of
                  None \<Rightarrow> Inl ''unterminated emitted HTML tag''
                | Some (attributes, r') \<Rightarrow>
                    and_then (parse_attributes tag [] attributes) (\<lambda>as.
                    and_then (visible_tag closing tag as st) (\<lambda>st'.
                      visible_loop r' st'))))
      else if c = CHR ''&'' then
        (case entity_at s of
           Some (d, r) \<Rightarrow> visible_loop r (emit [d] st)
         | None \<Rightarrow> Inl ''unsupported entity in emitted HTML text'')
      else visible_loop s (emit [c] st))"
  by pat_completeness auto
termination
  by (relation "measure (\<lambda>(s, st). length s)")
    (auto dest!: tag_text_length tag_head_length [OF sym] entity_at_length)

definition html_visible_text :: "string \<Rightarrow> string + string" where
  "html_visible_text html = visible_loop html \<lparr> visible_out = [], visible_lists = [], visible_elements = [] \<rparr>"

end
