(* ===== verification/Html_Reader.thy ===== *)
theory Html_Reader
  imports Html_Sink
begin

section \<open>Reading HTML back\<close>

text \<open>
  A strict reader of the HTML the renderer is meant to print: tags with lower-case names and double-quoted
  attributes, character references, and characters. It accepts no raw \<open><\<close> or \<open>>\<close> in text or in a value. The
  renderer's pieces are specified by what they read back as, whatever follows them.
\<close>

datatype html_token =
    Start_tag string "(string \<times> string) list"
  | End_tag string
  | Character char

subsection \<open>The reader\<close>

definition name_char :: "char \<Rightarrow> bool" where
  "name_char ch \<longleftrightarrow> islower ch \<or> isdigit ch \<or> ch = CHR ''-''"

definition hex_value :: "char \<Rightarrow> nat" where
  "hex_value ch = (if isdigit ch then char_code ch - 48 else char_code ch - 55)"

definition hex_character :: "char \<Rightarrow> bool" where
  "hex_character ch \<longleftrightarrow> isdigit ch \<or> (65 \<le> char_code ch \<and> char_code ch \<le> 70)"

definition hex_reference :: "string \<Rightarrow> (char \<times> string) option" where
  "hex_reference s =
     (let digits = takeWhile hex_character s; rest = drop (length digits) s in
      if length digits \<in> {1, 2} \<and> rest \<noteq> [] \<and> hd rest = CHR '';''
      then Some (char_of (foldl (\<lambda>n d. n * 16 + hex_value d) 0 digits), tl rest) else None)"

text \<open>The reference behind an ampersand.\<close>

definition read_reference :: "string \<Rightarrow> (char \<times> string) option" where
  "read_reference s =
     (if starts_with s ''amp;'' then Some (CHR ''&'', drop 4 s)
      else if starts_with s ''lt;'' then Some (CHR ''<'', drop 3 s)
      else if starts_with s ''gt;'' then Some (CHR ''>'', drop 3 s)
      else if starts_with s ''quot;'' then Some (CHR 0x22, drop 5 s)
      else if starts_with s ''#39;'' then Some (CHR 0x27, drop 4 s)
      else if starts_with s ''#x'' then hex_reference (drop 2 s) else None)"

lemma read_reference_length: "read_reference s = Some (c, s') \<Longrightarrow> length s' < length s"
  by (cases "s = []")
    (auto simp: read_reference_def hex_reference_def starts_with_def Let_def split: if_splits)

function read_value :: "string \<Rightarrow> (string \<times> string) option" where
  "read_value [] = None"
| "read_value (c # s) =
     (if c = CHR 0x22 then Some ([], s)
      else if c = CHR ''<'' \<or> c = CHR ''>'' then None
      else if c = CHR ''&'' then
        (case read_reference s of
           None \<Rightarrow> None
         | Some (d, t) \<Rightarrow> map_option (\<lambda>(v, r). (d # v, r)) (read_value t))
      else map_option (\<lambda>(v, r). (c # v, r)) (read_value s))"
  by pat_completeness auto
termination
  by (relation "measure length") (auto dest: read_reference_length)

lemma read_value_length: "read_value s = Some (v, r) \<Longrightarrow> length r < length s"
proof (induction s arbitrary: v rule: read_value.induct)
  case 1
  then show ?case by simp
next
  case (2 c s)
  consider (quote) "c = CHR 0x22" | (bad) "c = CHR ''<'' \<or> c = CHR ''>''" | (amp) "c = CHR ''&''"
    | (plain) "c \<noteq> CHR 0x22" "\<not> (c = CHR ''<'' \<or> c = CHR ''>'')" "c \<noteq> CHR ''&''"
    by blast
  then show ?case
  proof cases
    case quote
    with 2(3) show ?thesis by auto
  next
    case bad
    with 2(3) show ?thesis by auto
  next
    case amp
    with 2(3) obtain d t v' where t: "read_reference s = Some (d, t)" "read_value t = Some (v', r)"
      by (auto split: option.splits)
    then have "length r < length t" using 2(1) [of "(d, t)" d t v'] amp by simp
    with read_reference_length [OF t(1)] show ?thesis by simp
  next
    case plain
    with 2(3) obtain v' where "read_value s = Some (v', r)" by auto
    with 2(2) [OF plain] show ?thesis by fastforce
  qed
qed

text \<open>The attributes of a start tag up to its \<open>>\<close>.\<close>

function read_attributes :: "string \<Rightarrow> ((string \<times> string) list \<times> string) option" where
  "read_attributes [] = None"
| "read_attributes (c # s) =
     (if c = CHR ''>'' then Some ([], s)
      else if c = CHR '' '' then
        (let name = takeWhile name_char s; rest = drop (length name) s in
         if name = [] \<or> \<not> starts_with rest [CHR ''='', CHR 0x22] then None
         else case read_value (drop 2 rest) of
                None \<Rightarrow> None
              | Some (v, r) \<Rightarrow> map_option (\<lambda>(as, t). ((name, v) # as, t)) (read_attributes r))
      else None)"
  by pat_completeness auto
termination
  by (relation "measure length") (auto dest!: read_value_length)

lemma read_attributes_length: "read_attributes s = Some (as, t) \<Longrightarrow> length t < length s"
proof (induction s arbitrary: as rule: read_attributes.induct)
  case 1
  then show ?case by simp
next
  case (2 c s)
  let ?name = "takeWhile name_char s"
  let ?rest = "drop (length ?name) s"
  show ?case
  proof (cases "c = CHR ''>''")
    case True
    with 2(2) show ?thesis by simp
  next
    case False
    with 2(2) obtain v r as' where read: "c = CHR '' ''" "?name \<noteq> []"
      "starts_with ?rest [CHR ''='', CHR 0x22]" "read_value (drop 2 ?rest) = Some (v, r)"
      "read_attributes r = Some (as', t)"
      by (auto simp: Let_def split: if_splits option.splits)
    have "length t < length r"
      using 2(1) [of ?name ?rest "(v, r)" v r as'] read by simp
    moreover have "length r < length (drop 2 ?rest)" using read_value_length [OF read(4)] .
    ultimately show ?thesis by simp
  qed
qed

function html_read :: "string \<Rightarrow> html_token list option" where
  "html_read [] = Some []"
| "html_read (c # s) =
     (if c = CHR ''<'' then
        (let closing = (s \<noteq> [] \<and> hd s = CHR ''/'');
             inner = (if closing then tl s else s);
             name = takeWhile name_char inner;
             rest = drop (length name) inner in
         if name = [] then None
         else if closing then
           (if rest \<noteq> [] \<and> hd rest = CHR ''>'' then map_option ((#) (End_tag name)) (html_read (tl rest))
            else None)
         else case read_attributes rest of
                None \<Rightarrow> None
              | Some (as, t) \<Rightarrow> map_option ((#) (Start_tag name as)) (html_read t))
      else if c = CHR ''>'' then None
      else if c = CHR ''&'' then
        (case read_reference s of
           None \<Rightarrow> None
         | Some (d, t) \<Rightarrow> map_option ((#) (Character d)) (html_read t))
      else map_option ((#) (Character c)) (html_read s))"
  by pat_completeness auto
termination
  by (relation "measure length") (auto dest!: read_attributes_length read_reference_length)

declare read_value.simps(2) [simp del] read_attributes.simps(2) [simp del] html_read.simps(2) [simp del]

subsection \<open>References\<close>

lemma hex_upper_facts:
  assumes "n < 16"
  shows "hex_character (hex_upper n)" "hex_value (hex_upper n) = n"
proof -
  have "n \<in> {0, 1, 2, 3, 4, 5, 6, 7, 8, 9, 10, 11, 12, 13, 14, 15}"
    using assms by (simp, presburger)
  then show "hex_character (hex_upper n)" "hex_value (hex_upper n) = n"
    by (auto simp: hex_upper_def hex_character_def hex_value_def ctype_codes char_code_def)
qed

lemma hex_reference_semicolon: "\<not> hex_character (CHR '';'')"
  by (simp add: hex_character_def ctype_codes char_code_def)

lemma hex_reference_two:
  assumes "m < 16" and "n < 16"
  shows "hex_reference (hex_upper m # hex_upper n # CHR '';'' # s) = Some (char_of (m * 16 + n), s)"
  using assms by (simp add: hex_reference_def hex_upper_facts hex_reference_semicolon Let_def)

lemma hex_reference_one:
  assumes "n < 16"
  shows "hex_reference (hex_upper n # CHR '';'' # s) = Some (char_of n, s)"
  using assms by (simp add: hex_reference_def hex_upper_facts hex_reference_semicolon Let_def)

lemma read_reference_hex:
  "read_reference (''#x'' @ s) = hex_reference s"
  by (simp add: read_reference_def starts_with_def)

lemma char_of_char_code [simp]: "char_of (char_code c) = c"
  by (simp add: char_code_def)

lemma read_value_char:
  "read_value (escape_attribute_char c @ s) = map_option (\<lambda>(v, r). (c # v, r)) (read_value s)"
proof (cases "char_code c < 0x20 \<or> char_code c = 0x7F")
  case True
  then have "c \<noteq> CHR ''&''" "c \<noteq> CHR ''<''" "c \<noteq> CHR ''>''" "c \<noteq> CHR 0x22" "c \<noteq> CHR 0x27"
    by (auto simp: char_code_def)
  moreover have "read_reference (''#x'' @ (if char_code c \<ge> 0x10 then [hex_upper (char_code c div 16)] else []) @
      [hex_upper (char_code c mod 16)] @ '';'' @ s) = Some (c, s)"
    unfolding read_reference_hex using True
    by (auto simp: hex_reference_one hex_reference_two) (metis char_of_char_code)
  ultimately show ?thesis
    using True by (simp add: escape_attribute_char_def read_value.simps(2))
next
  case False
  then show ?thesis
    by (simp add: escape_attribute_char_def read_value.simps(2) read_reference_def starts_with_def)
qed

lemma read_value_escaped: "read_value (escape_html_attribute v @ CHR 0x22 # s) = Some (v, s)"
  by (induction v) (simp_all add: escape_html_attribute_def read_value_char read_value.simps(2))

subsection \<open>What a piece reads back as\<close>

definition reads :: "string \<Rightarrow> html_token list \<Rightarrow> bool" where
  "reads s ts \<longleftrightarrow> (\<forall>rest. html_read (s @ rest) = map_option ((@) ts) (html_read rest))"

lemma append_functions:
  "(@) [] = (\<lambda>r. r)" "(@) [x] = (#) x" "(@) (xs @ ys) = (\<lambda>r. xs @ ys @ r)"
  by (simp_all add: fun_eq_iff)

lemma reads_Nil: "reads [] []"
  by (simp add: reads_def append_functions option.map_ident)

lemma reads_append: "reads s ts \<Longrightarrow> reads s' ts' \<Longrightarrow> reads (s @ s') (ts @ ts')"
  by (simp add: reads_def append_functions option.map_comp comp_def)

lemma reads_whole: "reads s ts \<Longrightarrow> html_read s = Some ts"
  unfolding reads_def by (drule spec [of _ "[]"]) simp

lemma reads_text_char: "reads (escape_text_char c) [Character c]"
  by (simp add: reads_def escape_text_char_def html_read.simps(2) read_reference_def starts_with_def
      append_functions)

lemma reads_text: "reads (escape_html_text s) (map Character s)"
proof (induction s)
  case Nil
  then show ?case by (simp add: escape_html_text_def reads_Nil)
next
  case (Cons c s)
  from reads_append [OF reads_text_char Cons.IH] show ?case by (simp add: escape_html_text_def)
qed

definition valid_name :: "string \<Rightarrow> bool" where
  "valid_name n \<longleftrightarrow> n \<noteq> [] \<and> list_all name_char n"

definition open_tag :: "string \<Rightarrow> (string \<times> string) list \<Rightarrow> string" where
  "open_tag n as = ''<'' @ n @ concat (map (\<lambda>(a, v). attribute a v) as) @ ''>''"

definition close_tag :: "string \<Rightarrow> string" where
  "close_tag n = ''</'' @ n @ ''>''"

lemma not_name_char:
  "\<not> name_char (CHR ''>'')" "\<not> name_char (CHR '' '')" "\<not> name_char (CHR ''='')" "\<not> name_char (CHR ''/'')"
  by (simp_all add: name_char_def ctype_codes char_code_def)

lemma takeWhile_name:
  assumes "list_all name_char n" and "\<not> name_char c"
  shows "takeWhile name_char (n @ c # s) = n"
  using assms by (induction n) simp_all

lemma read_attributes_printed:
  assumes "list_all (\<lambda>(a, v). valid_name a) as"
  shows "read_attributes (concat (map (\<lambda>(a, v). attribute a v) as) @ CHR ''>'' # s) = Some (as, s)"
  using assms
proof (induction as)
  case Nil
  then show ?case by (simp add: read_attributes.simps(2))
next
  case (Cons x as)
  obtain a v where x: "x = (a, v)" by (cases x)
  with Cons show ?case
    by (simp add: read_attributes.simps(2) attribute_def valid_name_def takeWhile_name not_name_char
        starts_with_def read_value_escaped Let_def)
qed

lemma attributes_start:
  "\<exists>c r. concat (map (\<lambda>(a, v). attribute a v) as) @ CHR ''>'' # s = c # r \<and> \<not> name_char c"
  by (cases as) (auto simp: attribute_def not_name_char)

lemma reads_open_tag:
  assumes "valid_name n" and "list_all (\<lambda>(a, v). valid_name a) as"
  shows "reads (open_tag n as) [Start_tag n as]"
  unfolding reads_def
proof
  fix rest
  let ?tail = "concat (map (\<lambda>(a, v). attribute a v) as) @ CHR ''>'' # rest"
  obtain c r where "?tail = c # r" "\<not> name_char c" using attributes_start by blast
  then have "takeWhile name_char (n @ ?tail) = n"
    using assms(1) by (simp add: takeWhile_name valid_name_def)
  moreover have "n \<noteq> []" "hd n \<noteq> CHR ''/''"
    using assms(1) not_name_char by (auto simp: valid_name_def neq_Nil_conv)
  ultimately show "html_read (open_tag n as @ rest) = map_option ((@) [Start_tag n as]) (html_read rest)"
    using read_attributes_printed [OF assms(2), of rest]
    by (simp add: open_tag_def html_read.simps(2) Let_def append_functions)
qed

lemma reads_close_tag:
  assumes "valid_name n"
  shows "reads (close_tag n) [End_tag n]"
  using assms
  by (simp add: reads_def close_tag_def html_read.simps(2) Let_def valid_name_def takeWhile_name not_name_char
      append_functions)

end
