(* ===== verification/Html_Prints.thy ===== *)
theory Html_Prints
  imports Html_Reader Html_Visible
begin

section \<open>Printed pieces\<close>

text \<open>
  What is asked of a piece of the renderer: it is there, the strict reader reads it as admissible tokens
  (known elements, each with attributes it may have, each attribute once), and the program's own text
  projection (\<open>Html_Visible\<close>) goes through it as through those tokens.
\<close>

abbreviation attribute_text :: "(string \<times> string) list \<Rightarrow> string" where
  "attribute_text as \<equiv> concat (map (\<lambda>(a, v). attribute a v) as)"

subsection \<open>The text projection on tokens\<close>

text \<open>A NUL in a value is printed as \<open>&#x0;\<close>, which the projection shows as a blank.\<close>

definition seen :: "char \<Rightarrow> char" where
  "seen c = (if c = CHR 0x00 then CHR '' '' else c)"

fun visible_token :: "html_token \<Rightarrow> visible_state \<Rightarrow> string + visible_state" where
  "visible_token (Start_tag n as) st = visible_tag False n (map (\<lambda>(a, v). (a, map seen v)) as) st"
| "visible_token (End_tag n) st = visible_tag True n [] st"
| "visible_token (Character c) st = Inr (emit [c] st)"

fun visible_tokens :: "html_token list \<Rightarrow> visible_state \<Rightarrow> string + visible_state" where
  "visible_tokens [] st = Inr st"
| "visible_tokens (t # ts) st = and_then (visible_token t st) (visible_tokens ts)"

definition shows_as :: "string \<Rightarrow> html_token list \<Rightarrow> bool" where
  "shows_as s ts \<longleftrightarrow>
     (\<forall>rest st. visible_loop (s @ rest) st = and_then (visible_tokens ts st) (visible_loop rest))"

lemma and_then_assoc: "and_then (and_then m f) g = and_then m (\<lambda>x. and_then (f x) g)"
  by (cases m) simp_all

lemma visible_tokens_append: "visible_tokens (ts @ us) st = and_then (visible_tokens ts st) (visible_tokens us)"
proof (induction ts arbitrary: st)
  case Nil
  then show ?case by simp
next
  case (Cons t ts)
  then show ?case by (cases "visible_token t st") simp_all
qed

lemma shows_Nil: "shows_as [] []"
  by (simp add: shows_as_def)

lemma shows_append: "shows_as s ts \<Longrightarrow> shows_as s' us \<Longrightarrow> shows_as (s @ s') (ts @ us)"
  unfolding shows_as_def visible_tokens_append by (auto split: sum.splits simp: and_then_def)

lemma not_comment: "c \<noteq> CHR ''<'' \<Longrightarrow> \<not> starts_with (c # s) ''<!--''"
  by (simp add: starts_with_def)

lemma entity_at_name:
  assumes "CHR '';'' \<notin> set name"
  shows "entity_at (name @ CHR '';'' # s) = map_option (\<lambda>c. (c, s)) (entity name)"
proof -
  have "takeWhile (\<lambda>c. c \<noteq> CHR '';'') (name @ CHR '';'' # s) = name"
    using assms by (induction name) auto
  then show ?thesis by (simp add: entity_at_def)
qed

lemma named_entities:
  "entity_at (''amp;'' @ s) = Some (CHR ''&'', s)" "entity_at (''lt;'' @ s) = Some (CHR ''<'', s)"
  "entity_at (''gt;'' @ s) = Some (CHR ''>'', s)" "entity_at (''quot;'' @ s) = Some (CHR 0x22, s)"
  "entity_at (''#39;'' @ s) = Some (CHR 0x27, s)"
  using entity_at_name [of "''amp''" s] entity_at_name [of "''lt''" s] entity_at_name [of "''gt''" s]
    entity_at_name [of "''quot''" s] entity_at_name [of "''#39''" s]
  by (simp_all add: entity_def)

lemma shows_text_char: "shows_as (escape_text_char c) [Character c]"
  using named_entities
  by (simp add: shows_as_def escape_text_char_def visible_loop.simps(2) not_comment)

lemma shows_text: "shows_as (escape_html_text s) (map Character s)"
proof (induction s)
  case Nil
  then show ?case by (simp add: escape_html_text_def shows_Nil)
next
  case (Cons c s)
  from shows_append [OF shows_text_char Cons.IH] show ?case by (simp add: escape_html_text_def)
qed

lemma hex_upper_digit: "n < 16 \<Longrightarrow> digit_value (hex_upper n) = n \<and> hex_upper n \<noteq> CHR '';''"
proof -
  assume n: "n < 16"
  have "list_all (\<lambda>n. digit_value (hex_upper n) = n \<and> hex_upper n \<noteq> CHR '';'') [0..<16]" by code_simp
  with n show ?thesis by (simp add: list_all_iff)
qed

lemma control_entity:
  assumes "n < 0x20 \<or> n = 0x7F"
  shows "entity_at ((''#x'' @ (if n \<ge> 0x10 then [hex_upper (n div 16)] else []) @ [hex_upper (n mod 16)]) @
      CHR '';'' # s) = Some (if n = 0 then CHR '' '' else char_of n, s)"
proof -
  have digits: "digit_value (hex_upper (n mod 16)) = n mod 16" "hex_upper (n mod 16) \<noteq> CHR '';''"
    "digit_value (hex_upper (n div 16)) = n div 16" "hex_upper (n div 16) \<noteq> CHR '';''"
    using assms hex_upper_digit [of "n mod 16"] hex_upper_digit [of "n div 16"]
    by (auto simp: div_less_iff_less_mult)
  have small: "n < 128" using assms by auto
  have code: "entity_code 16 0 ((if n \<ge> 0x10 then [hex_upper (n div 16)] else []) @ [hex_upper (n mod 16)]) = Some n"
    using digits small by (auto simp: Let_def not_le)
  show ?thesis
    by (subst entity_at_name) (use digits code small in \<open>auto simp: entity_def numeric_entity_def Let_def\<close>)
qed

lemma text_entities_char:
  "text_entities (escape_attribute_char c @ s) = and_then (text_entities s) (\<lambda>out. Inr (seen c # out))"
proof (cases "char_code c < 0x20 \<or> char_code c = 0x7F")
  case True
  have plain: "escape_attribute_char c = CHR ''&'' #
      (''#x'' @ (if char_code c \<ge> 0x10 then [hex_upper (char_code c div 16)] else []) @
       [hex_upper (char_code c mod 16)]) @ [CHR '';'']"
    using True by (auto simp: escape_attribute_char_def char_code_def)
  have "char_of (char_code c) = c" by (simp add: char_code_def)
  moreover have "char_code c = 0 \<longleftrightarrow> c = CHR 0x00"
    by (cases c) (auto simp: char_code_def)
  ultimately have "(if char_code c = 0 then CHR '' '' else char_of (char_code c)) = seen c"
    by (simp add: seen_def)
  with control_entity [OF True, of s] show ?thesis unfolding plain by simp
next
  case False
  then have "seen c = c" by (auto simp: seen_def char_code_def)
  with False show ?thesis
    using named_entities [unfolded append.simps]
    by (simp add: escape_attribute_char_def)
qed

lemma text_entities_escaped: "text_entities (escape_html_attribute v) = Inr (map seen v)"
  by (induction v) (simp_all add: escape_html_attribute_def text_entities_char)

text \<open>The end of a tag lies behind its quoted values.\<close>

lemma quote_escaped: "CHR 0x22 \<notin> set (escape_html_attribute v)"
proof -
  have "CHR 0x22 \<notin> set (escape_attribute_char c)" for c
  proof (cases "char_code c < 0x20 \<or> char_code c = 0x7F")
    case True
    have "list_all (\<lambda>n. hex_upper n \<noteq> CHR 0x22) [0..<16]" by code_simp
    then have hex: "hex_upper n \<noteq> CHR 0x22" if "n < 16" for n using that by (simp add: list_all_iff)
    have "char_code c div 16 < 16" using True by (auto simp: div_less_iff_less_mult)
    with hex [of "char_code c div 16"] hex [of "char_code c mod 16"] show ?thesis
      by (simp add: escape_attribute_char_def)
  qed (auto simp: escape_attribute_char_def)
  then show ?thesis by (induction v) (auto simp: escape_html_attribute_def)
qed

lemma tag_text_plain:
  assumes "CHR 0x27 \<notin> set n" and "CHR 0x22 \<notin> set n" and "CHR ''>'' \<notin> set n"
  shows "tag_text None (n @ s) = map_option (\<lambda>(t, r). (n @ t, r)) (tag_text None s)"
  using assms by (induction n) (auto simp: option.map_comp comp_def case_prod_unfold option.map_ident)

lemma tag_text_quoted:
  assumes "CHR 0x22 \<notin> set v"
  shows "tag_text (Some (CHR 0x22)) (v @ CHR 0x22 # s) =
    map_option (\<lambda>(t, r). (v @ CHR 0x22 # t, r)) (tag_text None s)"
  using assms by (induction v) (auto simp: option.map_comp comp_def case_prod_unfold)

lemma name_chars: "name_char c \<Longrightarrow> c \<noteq> CHR 0x27 \<and> c \<noteq> CHR 0x22 \<and> c \<noteq> CHR ''>'' \<and> c \<noteq> CHR ''='' \<and> \<not> space c"
  by (auto simp: name_char_def ctype_codes char_code_def space_def)

lemma tag_text_attributes:
  assumes "list_all (\<lambda>(a, v). valid_name a) as"
  shows "tag_text None (attribute_text as @ CHR ''>'' # s) = Some (attribute_text as, s)"
  using assms
proof (induction as)
  case Nil
  then show ?case by simp
next
  case (Cons x as)
  obtain a v where x: "x = (a, v)" by (cases x)
  have plain: "CHR 0x27 \<notin> set ('' '' @ a @ ''='')" "CHR 0x22 \<notin> set ('' '' @ a @ ''='')"
    "CHR ''>'' \<notin> set ('' '' @ a @ ''='')"
    using Cons.prems x name_chars by (auto simp: valid_name_def list_all_iff)
  have "attribute_text (x # as) @ CHR ''>'' # s = ('' '' @ a @ ''='') @ CHR 0x22 #
      escape_html_attribute v @ CHR 0x22 # attribute_text as @ CHR ''>'' # s"
    by (simp add: x attribute_def)
  with Cons tag_text_plain [OF plain] tag_text_quoted [OF quote_escaped, of v]
  show ?case by (simp add: x attribute_def)
qed

lemma takeWhile_quote: "CHR 0x22 \<notin> set v \<Longrightarrow> takeWhile (\<lambda>c. c \<noteq> CHR 0x22) (v @ CHR 0x22 # s) = v"
  by (induction v) auto

lemma parse_printed:
  assumes "list_all (\<lambda>(a, v). valid_name a \<and> supported_attribute n a) as"
    and "distinct (map fst (found @ as))"
  shows "parse_attributes n found (attribute_text as) = Inr (found @ map (\<lambda>(a, v). (a, map seen v)) as)"
  using assms
proof (induction as arbitrary: found)
  case Nil
  then show ?case by simp
next
  case (Cons x as)
  obtain a v where x: "x = (a, v)" by (cases x)
  let ?tail = "CHR 0x22 # escape_html_attribute v @ CHR 0x22 # attribute_text as"
  have a: "a \<noteq> []" "\<forall>c \<in> set a. c \<noteq> CHR ''='' \<and> \<not> space c"
    using Cons.prems(1) x name_chars by (auto simp: valid_name_def list_all_iff)
  then have start: "dropWhile space (a @ s) = a @ s" for s by (cases a) auto
  have name: "takeWhile (\<lambda>c. c \<noteq> CHR ''='' \<and> \<not> space c) (a @ CHR ''='' # ?tail) = a"
    using a(2) by (induction a) auto
  have plain: "\<not> space (CHR ''='')" "\<not> space (CHR 0x22)" "space (CHR '' '')" by (simp_all add: space_def)
  have printed: "attribute_text (x # as) = CHR '' '' # a @ CHR ''='' # ?tail"
    by (simp add: x attribute_def)
  have "parse_attributes n found (CHR '' '' # a @ CHR ''='' # ?tail) =
      parse_attributes n (found @ [(a, map seen v)]) (attribute_text as)"
    using Cons.prems x a(1)
    by (subst parse_attributes.simps(2))
      (simp add: start name plain takeWhile_quote quote_escaped text_entities_escaped Let_def)
  also have "\<dots> = Inr ((found @ [(a, map seen v)]) @ map (\<lambda>(a, v). (a, map seen v)) as)"
    using Cons.prems x by (intro Cons.IH) auto
  finally show ?case unfolding printed by (simp add: x)
qed

subsection \<open>Nesting, text and admissible tokens\<close>

definition void_elements :: "string list" where
  "void_elements = [''br'', ''hr'', ''img'']"

text \<open>The elements and attributes the renderer's contract names.\<close>

definition known_elements :: "string list" where
  "known_elements =
     void_elements @
     [''a'', ''aside'', ''cite'', ''code'', ''dd'', ''dfn'', ''div'', ''dl'', ''dt'', ''em'', ''figcaption'',
      ''figure'', ''h1'', ''h2'', ''h3'', ''h4'', ''h5'', ''h6'', ''kbd'', ''li'', ''nav'', ''ol'', ''p'',
      ''pre'', ''samp'', ''section'', ''span'', ''strong'', ''table'', ''tbody'', ''td'', ''th'', ''thead'',
      ''tr'', ''u'', ''ul'', ''var'']"

definition known_attributes :: "string list" where
  "known_attributes =
     [''alt'', ''class'', ''data-geist-degradation'', ''data-geist-degraded'', ''data-geist-depth'',
      ''data-geist-empty'', ''data-geist-generated'', ''data-geist-opaque-kind'',
      ''data-geist-revision-mark'', ''data-geist-severity'', ''data-geist-topic'', ''height'', ''href'',
      ''id'', ''scope'', ''src'', ''type'', ''value'', ''width'']"

text \<open>The elements still open when the tokens are through; \<open>None\<close> when an end tag does not match.\<close>

fun open_elements :: "string list \<Rightarrow> html_token list \<Rightarrow> string list option" where
  "open_elements stack [] = Some stack"
| "open_elements stack (Start_tag n as # ts) =
     open_elements (if n \<in> set void_elements then stack else n # stack) ts"
| "open_elements stack (End_tag n # ts) =
     (case stack of [] \<Rightarrow> None | m # rest \<Rightarrow> if m = n then open_elements rest ts else None)"
| "open_elements stack (Character c # ts) = open_elements stack ts"

fun html_text :: "html_token list \<Rightarrow> string" where
  "html_text [] = []"
| "html_text (Character c # ts) = c # html_text ts"
| "html_text (_ # ts) = html_text ts"

text \<open>The attributes of a tag: each known, one the element may have, and there once; every destination of a link in
  \<open>K\<close>; a list is numbered with letters where its type says so.\<close>

definition ok_attributes :: "(string \<Rightarrow> bool) \<Rightarrow> string \<Rightarrow> (string \<times> string) list \<Rightarrow> bool" where
  "ok_attributes K n as \<longleftrightarrow>
     list_all (\<lambda>(a, v). a \<in> set known_attributes \<and> supported_attribute n a \<and> (a = ''href'' \<longrightarrow> K v) \<and>
       (a = ''type'' \<longrightarrow> v = ''a'' \<or> v = ''A'')) as \<and>
     distinct (map fst as)"

definition admits :: "(string \<Rightarrow> bool) \<Rightarrow> html_token \<Rightarrow> bool" where
  "admits K t \<longleftrightarrow>
     (case t of
        Start_tag n as \<Rightarrow> n \<in> set known_elements \<and> ok_attributes K n as
      | End_tag n \<Rightarrow> n \<in> set known_elements \<and> n \<notin> set void_elements
      | Character c \<Rightarrow> True)"

lemma open_elements_append:
  "open_elements stack (ts @ us) =
     (case open_elements stack ts of None \<Rightarrow> None | Some mid \<Rightarrow> open_elements mid us)"
  by (induction stack ts rule: open_elements.induct) (auto split: list.splits)

lemma html_text_append [simp]: "html_text (ts @ us) = html_text ts @ html_text us"
  by (induction ts rule: html_text.induct) simp_all

lemma html_text_map [simp]: "html_text (map Character s) = s"
  by (induction s) simp_all

lemma open_elements_map [simp]: "open_elements stack (map Character s) = Some stack"
  by (induction s) simp_all

text \<open>A piece that is there, reads back as admissible tokens whose text is \<open>w\<close>, and takes the stack of open
  elements from \<open>a\<close> to \<open>b\<close>.\<close>

definition prints ::
  "(string \<Rightarrow> bool) \<Rightarrow> string list \<Rightarrow> string option \<Rightarrow> string list \<Rightarrow> string \<Rightarrow> bool" where
  "prints K a m b w \<longleftrightarrow>
     (\<exists>s ts. m = Some s \<and> reads s ts \<and> shows_as s ts \<and> open_elements a ts = Some b \<and>
        list_all (admits K) ts \<and> html_text ts = w)"

lemma known_names: "n \<in> set known_elements \<Longrightarrow> valid_name n" "a \<in> set known_attributes \<Longrightarrow> valid_name a"
proof -
  have "list_all valid_name known_elements" "list_all valid_name known_attributes" by code_simp+
  then show "n \<in> set known_elements \<Longrightarrow> valid_name n" "a \<in> set known_attributes \<Longrightarrow> valid_name a"
    by (auto simp: list_all_iff)
qed

definition has_name :: "string \<Rightarrow> (string \<times> string) list \<Rightarrow> bool" where
  "has_name a as \<longleftrightarrow> a \<in> fst ` set as"

lemma has_name_simps [simp]:
  "\<not> has_name a []" "has_name a ((b, v) # as) \<longleftrightarrow> a = b \<or> has_name a as"
  "has_name a (as @ bs) \<longleftrightarrow> has_name a as \<or> has_name a bs"
  by (auto simp: has_name_def)

lemma ok_attributes_simps [simp]:
  "ok_attributes K n []"
  "ok_attributes K n ((a, v) # as) \<longleftrightarrow>
     a \<in> set known_attributes \<and> supported_attribute n a \<and> (a = ''href'' \<longrightarrow> K v) \<and>
     (a = ''type'' \<longrightarrow> v = ''a'' \<or> v = ''A'') \<and> \<not> has_name a as \<and> ok_attributes K n as"
  "ok_attributes K n (as @ bs) \<longleftrightarrow>
     ok_attributes K n as \<and> ok_attributes K n bs \<and> list_all (\<lambda>(a, v). \<not> has_name a bs) as"
proof -
  have "distinct (map fst (as @ bs)) \<longleftrightarrow>
      distinct (map fst as) \<and> distinct (map fst bs) \<and> list_all (\<lambda>(a, v). \<not> has_name a bs) as"
    by (induction as) (auto simp: has_name_def intro: rev_image_eqI)
  then show "ok_attributes K n (as @ bs) \<longleftrightarrow>
      ok_attributes K n as \<and> ok_attributes K n bs \<and> list_all (\<lambda>(a, v). \<not> has_name a bs) as"
    unfolding ok_attributes_def list_all_append by blast
qed (auto simp: ok_attributes_def has_name_def)

lemma known_attribute [simp]:
  "''alt'' \<in> set known_attributes" "''class'' \<in> set known_attributes"
  "''data-geist-degradation'' \<in> set known_attributes" "''data-geist-degraded'' \<in> set known_attributes"
  "''data-geist-depth'' \<in> set known_attributes" "''data-geist-empty'' \<in> set known_attributes"
  "''data-geist-generated'' \<in> set known_attributes" "''data-geist-opaque-kind'' \<in> set known_attributes"
  "''data-geist-revision-mark'' \<in> set known_attributes" "''data-geist-severity'' \<in> set known_attributes"
  "''data-geist-topic'' \<in> set known_attributes" "''height'' \<in> set known_attributes"
  "''href'' \<in> set known_attributes" "''id'' \<in> set known_attributes" "''scope'' \<in> set known_attributes"
  "''src'' \<in> set known_attributes" "''type'' \<in> set known_attributes" "''value'' \<in> set known_attributes"
  "''width'' \<in> set known_attributes"
  by (simp_all add: known_attributes_def)

lemma supported_attributes [simp]:
  "supported_attribute n ''class''" "supported_attribute n ''data-geist-degradation''"
  "supported_attribute n ''data-geist-degraded''" "supported_attribute n ''data-geist-depth''"
  "supported_attribute n ''data-geist-empty''" "supported_attribute n ''data-geist-generated''"
  "supported_attribute n ''data-geist-opaque-kind''" "supported_attribute n ''data-geist-revision-mark''"
  "supported_attribute n ''data-geist-severity''" "supported_attribute n ''data-geist-topic''"
  "supported_attribute ''a'' ''id''" "supported_attribute ''span'' ''id''" "supported_attribute ''aside'' ''id''"
  "supported_attribute ''div'' ''id''" "supported_attribute ''a'' ''href''" "supported_attribute ''img'' ''src''"
  "supported_attribute ''img'' ''alt''" "supported_attribute ''img'' ''width''"
  "supported_attribute ''img'' ''height''" "supported_attribute ''th'' ''scope''"
  "supported_attribute ''li'' ''value''" "supported_attribute ''ol'' ''type''"
  by (simp_all add: supported_attribute_def)

lemma ok_attributes_names:
  "ok_attributes K n as \<Longrightarrow> list_all (\<lambda>(a, v). valid_name a \<and> supported_attribute n a) as"
  "ok_attributes K n as \<Longrightarrow> list_all (\<lambda>(a, v). valid_name a) as"
  "ok_attributes K n as \<Longrightarrow> distinct (map fst as)"
  by (auto simp: ok_attributes_def known_names list_all_iff)

lemma known_tag:
  assumes "n \<in> set known_elements"
  shows "supported_tag n" "n \<noteq> []" "hd n \<noteq> CHR ''/''" "hd n \<noteq> CHR ''!''" "list_all tag_char n"
    "empty_element n \<longleftrightarrow> n \<in> set void_elements"
proof -
  have "list_all (\<lambda>n. supported_tag n \<and> n \<noteq> [] \<and> hd n \<noteq> CHR ''/'' \<and> hd n \<noteq> CHR ''!'' \<and> list_all tag_char n \<and>
      (empty_element n \<longleftrightarrow> n \<in> set void_elements)) known_elements"
    by code_simp
  with assms show "supported_tag n" "n \<noteq> []" "hd n \<noteq> CHR ''/''" "hd n \<noteq> CHR ''!''" "list_all tag_char n"
    "empty_element n \<longleftrightarrow> n \<in> set void_elements"
    by (simp_all add: list_all_iff)
qed

lemma takeWhile_tag: "list_all tag_char n \<Longrightarrow> \<not> tag_char c \<Longrightarrow> takeWhile tag_char (n @ c # s) = n"
  by (induction n) simp_all

lemma shows_open_tag:
  assumes "n \<in> set known_elements" and "ok_attributes K n as"
  shows "shows_as (open_tag n as) [Start_tag n as]"
  unfolding shows_as_def
proof (intro allI)
  fix rest st
  note known = known_tag [OF assms(1)]
  let ?tail = "attribute_text as @ CHR ''>'' # rest"
  have "\<exists>c r. ?tail = c # r \<and> (c = CHR '' '' \<or> c = CHR ''>'')"
    by (cases as) (auto simp: attribute_def)
  then obtain c r where tail: "?tail = c # r" "c = CHR '' '' \<or> c = CHR ''>''" by blast
  from tail(2) have "\<not> tag_char c" by (auto simp: tag_char_def ctype_codes char_code_def)
  with known(5) tail(1) have "takeWhile tag_char (n @ ?tail) = n" by (simp add: takeWhile_tag)
  moreover have "hd (n @ ?tail) = hd n" using known(2) by simp
  ultimately have tag: "tag_head (n @ ?tail) = (False, n, ?tail)"
    using known(2,3) by (simp add: tag_head_def closing_tag_def Let_def)
  have "\<not> starts_with (CHR ''<'' # n @ ?tail) ''<!--''"
    using known(2,4) by (cases n) (auto simp: starts_with_def)
  then have "visible_loop (CHR ''<'' # n @ ?tail) st =
      and_then (visible_tag False n (map (\<lambda>(a, v). (a, map seen v)) as) st) (visible_loop rest)"
    using tag known(1) tag_text_attributes [OF ok_attributes_names(2) [OF assms(2)], of rest]
      parse_printed [OF ok_attributes_names(1) [OF assms(2)], of "[]"] ok_attributes_names(3) [OF assms(2)]
    by (simp add: visible_loop.simps(2))
  then show "visible_loop (open_tag n as @ rest) st =
      and_then (visible_tokens [Start_tag n as] st) (visible_loop rest)"
    by (simp add: open_tag_def and_then_assoc)
qed

lemma shows_close_tag:
  assumes "n \<in> set known_elements"
  shows "shows_as (close_tag n) [End_tag n]"
  unfolding shows_as_def
proof (intro allI)
  fix rest st
  note known = known_tag [OF assms]
  have "\<not> tag_char (CHR ''>'')" by (simp add: tag_char_def ctype_codes char_code_def)
  then have tag: "tag_head (CHR ''/'' # n @ CHR ''>'' # rest) = (True, n, CHR ''>'' # rest)"
    using known(5) by (simp add: tag_head_def closing_tag_def Let_def takeWhile_tag)
  have "\<not> starts_with (CHR ''<'' # CHR ''/'' # n @ CHR ''>'' # rest) ''<!--''" by (simp add: starts_with_def)
  with tag known(1) show "visible_loop (close_tag n @ rest) st =
      and_then (visible_tokens [End_tag n] st) (visible_loop rest)"
    by (simp add: visible_loop.simps(2) close_tag_def and_then_assoc)
qed

text \<open>Admissible tokens that nest are shown, and leave the elements open that they leave open.\<close>

lemma show_list_elements: "show_list closing n as st = Inr st' \<Longrightarrow> visible_elements st' = visible_elements st"
  by (auto simp: show_list_def emit_def Let_def split: if_splits list.splits)

lemma show_image_elements [simp]: "visible_elements (show_image closing n as st) = visible_elements st"
  by (simp add: show_image_def emit_def split: option.split)

lemma show_list_returns:
  assumes "closing \<or> ok_attributes K n as"
  shows "\<exists>st'. show_list closing n (map (\<lambda>(a, v). (a, map seen v)) as) st = Inr st'"
proof -
  have "map_of (map (\<lambda>(a, v). (a, map seen v)) as) ''type'' \<in> {None, Some ''a'', Some ''A''}" if "ok_attributes K n as"
    using that by (induction as) (auto simp: seen_def)
  with assms show ?thesis by (auto simp: show_list_def Let_def split: list.split)
qed

lemma visible_token_admitted:
  assumes "admits K t" and "open_elements (visible_elements st) [t] = Some b"
  shows "\<exists>st'. visible_token t st = Inr st' \<and> visible_elements st' = b"
proof (cases t)
  case (Start_tag n as)
  let ?as = "map (\<lambda>(a, v). (a, map seen v)) as"
  let ?st1 = "if boundary n then emit [CHR 0x0A] st else st"
  have ok: "ok_attributes K n as" "n \<in> set known_elements" using assms(1) Start_tag by (simp_all add: admits_def)
  have "visible_elements ?st1 = visible_elements st" by (simp add: emit_def)
  then obtain st2 where st2: "nest False n ?as ?st1 = Inr st2" "visible_elements st2 = b"
    using assms(2) Start_tag known_tag(6) [OF ok(2)] by (auto simp: nest_def)
  obtain st3 where "show_list False n ?as (show_image False n ?as st2) = Inr st3"
    using show_list_returns [of False] ok(1) by blast
  with st2 show_list_elements [OF this] show ?thesis
    by (simp add: Start_tag visible_tag_def)
next
  case (End_tag n)
  let ?st1 = "if boundary n then emit [CHR 0x0A] st else st"
  have ok: "n \<in> set known_elements" "n \<notin> set void_elements" using assms(1) End_tag by (simp_all add: admits_def)
  have "visible_elements ?st1 = visible_elements st" by (simp add: emit_def)
  then obtain st2 where st2: "nest True n [] ?st1 = Inr st2" "visible_elements st2 = b"
    using assms(2) End_tag known_tag(6) [OF ok(1)] ok(2) by (auto simp: nest_def split: list.splits if_splits)
  obtain st3 where "show_list True n (map (\<lambda>(a, v). (a, map seen v)) []) (show_image True n [] st2) = Inr st3"
    using show_list_returns [of True] by blast
  with st2 show_list_elements [OF this] show ?thesis
    by (simp add: End_tag visible_tag_def)
next
  case (Character c)
  with assms(2) show ?thesis by (simp add: emit_def)
qed

lemma visible_tokens_admitted:
  assumes "list_all (admits K) ts" and "open_elements (visible_elements st) ts = Some b"
  shows "\<exists>st'. visible_tokens ts st = Inr st' \<and> visible_elements st' = b"
  using assms
proof (induction ts arbitrary: st)
  case Nil
  then show ?case by simp
next
  case (Cons t ts)
  obtain mid where mid: "open_elements (visible_elements st) [t] = Some mid" "open_elements mid ts = Some b"
    using Cons.prems(2) open_elements_append [of "visible_elements st" "[t]" ts] by (auto split: option.splits)
  then obtain st1 where "visible_token t st = Inr st1" "visible_elements st1 = mid"
    using visible_token_admitted [of K t st mid] Cons.prems(1) by auto
  with Cons.IH [of st1] Cons.prems(1) mid(2) show ?case by simp
qed

lemma prints_Nil: "prints K a (Some []) a []"
  by (auto simp: prints_def intro!: exI [of _ "[]"] reads_Nil shows_Nil)

lemma prints_text: "prints K a (Some (escape_html_text s)) a s"
  by (auto simp: prints_def list_all_iff admits_def intro!: exI [of _ "map Character s"] reads_text shows_text)

lemma prints_append:
  assumes "prints K a (Some s) b w" and "prints K b (Some s') c w'"
  shows "prints K a (Some (s @ s')) c (w @ w')"
proof -
  obtain ts where ts: "reads s ts" "shows_as s ts" "open_elements a ts = Some b" "list_all (admits K) ts" "html_text ts = w"
    using assms(1) by (auto simp: prints_def)
  obtain us where us: "reads s' us" "shows_as s' us" "open_elements b us = Some c" "list_all (admits K) us" "html_text us = w'"
    using assms(2) by (auto simp: prints_def)
  show ?thesis
    unfolding prints_def
    using ts us reads_append [OF ts(1) us(1)] shows_append [OF ts(2) us(2)]
    by (intro exI [of _ "s @ s'"] exI [of _ "ts @ us"]) (simp add: open_elements_append)
qed

lemma prints_open:
  assumes "n \<in> set known_elements" and "n \<notin> set void_elements" and "ok_attributes K n as"
  shows "prints K a (Some (open_tag n as)) (n # a) []"
  using assms reads_open_tag [OF known_names(1) [OF assms(1)] ok_attributes_names(2) [OF assms(3)]]
    shows_open_tag [OF assms(1,3)]
  by (auto simp: prints_def admits_def intro!: exI [of _ "[Start_tag n as]"])

lemma prints_void:
  assumes "n \<in> set void_elements" and "ok_attributes K n as"
  shows "prints K a (Some (open_tag n as)) a []"
proof -
  have known: "n \<in> set known_elements" using assms(1) by (simp add: known_elements_def)
  show ?thesis
    using assms known reads_open_tag [OF known_names(1) [OF known] ok_attributes_names(2) [OF assms(2)]]
      shows_open_tag [OF known assms(2)]
    by (auto simp: prints_def admits_def intro!: exI [of _ "[Start_tag n as]"])
qed

lemma prints_close:
  assumes "n \<in> set known_elements" and "n \<notin> set void_elements"
  shows "prints K (n # a) (Some (close_tag n)) a []"
  using assms reads_close_tag [of n] known_names shows_close_tag [OF assms(1)]
  by (auto simp: prints_def admits_def intro!: exI [of _ "[End_tag n]"])

text \<open>A whole element.\<close>

lemma prints_element:
  assumes "n \<in> set known_elements" and "n \<notin> set void_elements" and "ok_attributes K n as"
    and "prints K (n # a) (Some s) (n # a) w"
  shows "prints K a (Some (open_tag n as @ s @ close_tag n)) a w"
  using prints_append [OF prints_open [OF assms(1-3)] prints_append [OF assms(4) prints_close [OF assms(1,2)]]]
  by simp

lemma prints_concat:
  assumes "\<And>x. x \<in> set xs \<Longrightarrow> prints K a (Some (f x)) a (g x)"
  shows "prints K a (Some (concat (map f xs))) a (concat (map g xs))"
  using assms by (induction xs) (auto intro: prints_Nil prints_append)

end
