(* ===== verification/Html_Tags.thy ===== *)
theory Html_Tags
  imports Html_Render Html_Prints
begin

section \<open>The renderer's markup as tags\<close>

text \<open>
  Every piece the renderer appends is rewritten to tags and escaped text (\<open>html_literals\<close> for the fixed
  markup, the \<open>_tags\<close> lemmas for tags with computed attributes), so that the rules of the reader apply.
\<close>

lemma tag_literals:
  "''</a>'' @ x = close_tag ''a'' @ x"
  "''</aside>'' @ x = close_tag ''aside'' @ x"
  "''</cite>'' @ x = close_tag ''cite'' @ x"
  "''</code>'' @ x = close_tag ''code'' @ x"
  "''</dd>'' @ x = close_tag ''dd'' @ x"
  "''</dfn>'' @ x = close_tag ''dfn'' @ x"
  "''</div>'' @ x = close_tag ''div'' @ x"
  "''</dt>'' @ x = close_tag ''dt'' @ x"
  "''</em>'' @ x = close_tag ''em'' @ x"
  "''</figcaption>'' @ x = close_tag ''figcaption'' @ x"
  "''</kbd>'' @ x = close_tag ''kbd'' @ x"
  "''</li>'' @ x = close_tag ''li'' @ x"
  "''</p>'' @ x = close_tag ''p'' @ x"
  "''</pre>'' @ x = close_tag ''pre'' @ x"
  "''</samp>'' @ x = close_tag ''samp'' @ x"
  "''</span>'' @ x = close_tag ''span'' @ x"
  "''</strong>'' @ x = close_tag ''strong'' @ x"
  "''</tbody>'' @ x = close_tag ''tbody'' @ x"
  "''</td>'' @ x = close_tag ''td'' @ x"
  "''</th>'' @ x = close_tag ''th'' @ x"
  "''</thead>'' @ x = close_tag ''thead'' @ x"
  "''</tr>'' @ x = close_tag ''tr'' @ x"
  "''</u>'' @ x = close_tag ''u'' @ x"
  "''</ul>'' @ x = close_tag ''ul'' @ x"
  "''</var>'' @ x = close_tag ''var'' @ x"
  "''<br>'' @ x = open_tag ''br'' [] @ x"
  "''<cite class=\"geist-emphasis geist-citation\">'' @ x =
     open_tag ''cite'' [(''class'', ''geist-emphasis geist-citation'')] @ x"
  "''<code class=\"geist-monospace\">'' @ x = open_tag ''code'' [(''class'', ''geist-monospace'')] @ x"
  "''<dd class=\"geist-definition-description\">'' @ x =
     open_tag ''dd'' [(''class'', ''geist-definition-description'')] @ x"
  "''<dfn class=\"geist-monospace geist-definition\">'' @ x =
     open_tag ''dfn'' [(''class'', ''geist-monospace geist-definition'')] @ x"
  "''<dt class=\"geist-definition-term\">'' @ x =
     open_tag ''dt'' [(''class'', ''geist-definition-term'')] @ x"
  "''<em class=\"geist-emphasis\">'' @ x = open_tag ''em'' [(''class'', ''geist-emphasis'')] @ x"
  "''<em>'' @ x = open_tag ''em'' [] @ x"
  "''<figcaption class=\"geist-figure-caption\">'' @ x =
     open_tag ''figcaption'' [(''class'', ''geist-figure-caption'')] @ x"
  "''<kbd class=\"geist-monospace geist-keyboard\">'' @ x =
     open_tag ''kbd'' [(''class'', ''geist-monospace geist-keyboard'')] @ x"
  "''<li class=\"geist-index-entry\">'' @ x = open_tag ''li'' [(''class'', ''geist-index-entry'')] @ x"
  "''<li class=\"geist-menu-item\">'' @ x = open_tag ''li'' [(''class'', ''geist-menu-item'')] @ x"
  "''<li class=\"geist-publication-entry\">'' @ x =
     open_tag ''li'' [(''class'', ''geist-publication-entry'')] @ x"
  "''<p class=\"geist-index-heading\">'' @ x = open_tag ''p'' [(''class'', ''geist-index-heading'')] @ x"
  "''<p class=\"geist-menu-lead\" data-geist-generated=\"true\">'' @ x =
     open_tag ''p'' [(''class'', ''geist-menu-lead''), (''data-geist-generated'', ''true'')] @ x"
  "''<p class=\"geist-note-content\">'' @ x = open_tag ''p'' [(''class'', ''geist-note-content'')] @ x"
  "''<p class=\"geist-note-label\">'' @ x = open_tag ''p'' [(''class'', ''geist-note-label'')] @ x"
  "''<p class=\"geist-publication-paragraph\">'' @ x =
     open_tag ''p'' [(''class'', ''geist-publication-paragraph'')] @ x"
  "''<p class=\"geist-publication-title\">'' @ x =
     open_tag ''p'' [(''class'', ''geist-publication-title'')] @ x"
  "''<samp class=\"geist-monospace geist-sample\">'' @ x =
     open_tag ''samp'' [(''class'', ''geist-monospace geist-sample'')] @ x"
  "''<span class=\"geist-footnote-content\">'' @ x =
     open_tag ''span'' [(''class'', ''geist-footnote-content'')] @ x"
  "''<span class=\"geist-footnote-label\">'' @ x =
     open_tag ''span'' [(''class'', ''geist-footnote-label'')] @ x"
  "''<span class=\"geist-list-label\">'' @ x = open_tag ''span'' [(''class'', ''geist-list-label'')] @ x"
  "''<span class=\"geist-menu-item-label\">'' @ x =
     open_tag ''span'' [(''class'', ''geist-menu-item-label'')] @ x"
  "''<span class=\"geist-menu-item-target\">'' @ x =
     open_tag ''span'' [(''class'', ''geist-menu-item-target'')] @ x"
  "''<span>'' @ x = open_tag ''span'' [] @ x"
  "''<strong class=\"geist-strong\">'' @ x = open_tag ''strong'' [(''class'', ''geist-strong'')] @ x"
  "''<strong class=\"geist-strong-emphasis\">'' @ x =
     open_tag ''strong'' [(''class'', ''geist-strong-emphasis'')] @ x"
  "''<tbody class=\"geist-table-body\">'' @ x = open_tag ''tbody'' [(''class'', ''geist-table-body'')] @ x"
  "''<td class=\"geist-table-cell\">'' @ x = open_tag ''td'' [(''class'', ''geist-table-cell'')] @ x"
  "''<th class=\"geist-table-header-cell\" scope=\"col\">'' @ x =
     open_tag ''th'' [(''class'', ''geist-table-header-cell''), (''scope'', ''col'')] @ x"
  "''<thead class=\"geist-table-head\">'' @ x = open_tag ''thead'' [(''class'', ''geist-table-head'')] @ x"
  "''<tr class=\"geist-table-row\">'' @ x = open_tag ''tr'' [(''class'', ''geist-table-row'')] @ x"
  "''<u class=\"geist-underline\">'' @ x = open_tag ''u'' [(''class'', ''geist-underline'')] @ x"
  "''<ul class=\"geist-index-entries\">'' @ x = open_tag ''ul'' [(''class'', ''geist-index-entries'')] @ x"
  "''<ul class=\"geist-menu-items\">'' @ x = open_tag ''ul'' [(''class'', ''geist-menu-items'')] @ x"
  "''<var class=\"geist-emphasis geist-variable\">'' @ x =
     open_tag ''var'' [(''class'', ''geist-emphasis geist-variable'')] @ x"
  by (simp_all add: open_tag_def close_tag_def attribute_def escape_html_attribute_def escape_attribute_char_def
      char_code_def)

text \<open>The same with the literal as a list of characters, which also finds it inside a longer literal.\<close>

lemmas html_literals = tag_literals [unfolded append.simps] append_Nil2

text \<open>The attributes of a degraded block.\<close>

definition degradation_attributes :: "node_origin \<Rightarrow> (string \<times> string) list" where
  "degradation_attributes origin =
     (if fidelity origin \<noteq> Degraded then []
      else [(''data-geist-degraded'', ''true''),
            (''data-geist-degradation'',
             if degradation_code origin = [] then ''unnamed'' else degradation_code origin)])"

definition size_attributes :: "html_sink \<Rightarrow> string \<Rightarrow> (string \<times> string) list" where
  "size_attributes sink resource =
     (case resolve_image_size (sink_options sink) of
        None \<Rightarrow> []
      | Some f \<Rightarrow>
          (case f (resource_object_id resource) of
             None \<Rightarrow> []
           | Some dims \<Rightarrow>
               if image_width dims = 0 \<or> image_height dims = 0 then []
               else [(''width'', decimal (unat (image_width dims))),
                     (''height'', decimal (unat (image_height dims)))]))"

lemma computed_names [simp]:
  "a \<noteq> ''data-geist-degraded'' \<Longrightarrow> a \<noteq> ''data-geist-degradation'' \<Longrightarrow>
   \<not> has_name a (degradation_attributes origin)"
  "a \<noteq> ''width'' \<Longrightarrow> a \<noteq> ''height'' \<Longrightarrow> \<not> has_name a (size_attributes sink resource)"
  by (simp_all add: degradation_attributes_def size_attributes_def split: option.split)

lemma degradation_tags: "append_degradation_attributes origin = attribute_text (degradation_attributes origin)"
  by (simp add: append_degradation_attributes_def degradation_attributes_def)

lemma size_tags: "append_image_size sink resource = attribute_text (size_attributes sink resource)"
  by (simp add: append_image_size_def size_attributes_def split: option.split)

text \<open>An element without an end tag.\<close>

definition void_tag :: "string \<Rightarrow> (string \<times> string) list \<Rightarrow> string" where
  "void_tag n as = open_tag n as"

lemma open_tag_eqs:
  "open_block tag block_class origin = open_tag tag ((''class'', block_class) # degradation_attributes origin)"
  "close_block tag = close_tag tag"
  by (simp_all add: open_block_def open_tag_def degradation_tags close_block_def close_tag_def)

lemma append_anchor_tags:
  "append_anchor href kind label =
     open_tag ''a'' [(''class'', link_class kind (href_unresolved href)), (''href'', href_value href)] @
     escape_html_text label @ close_tag ''a''"
  by (simp add: append_anchor_def open_tag_def close_tag_def)

lemma append_label_image_tags:
  "append_label_image sink pic =
     (let href = resource_href (image_resource pic) (sink_options sink) in
      open_tag ''img'' ([(''class'', image_class href), (''src'', href_value href), (''alt'', image_alt_text pic)] @
        size_attributes sink (image_resource pic)))"
  by (simp add: append_label_image_def open_tag_def size_tags Let_def)

lemma append_image_tags:
  "append_image sink pic =
     (let href = if image_missing_resource pic then missing_resource_href (image_resource pic)
                 else resource_href (image_resource pic) (sink_options sink) in
      open_tag ''img''
        ([(''class'', image_class href), (''src'', href_value href),
          (''alt'', if image_description pic = [] then image_alt_text pic else image_description pic)] @
         (if image_missing_resource pic then [] else size_attributes sink (image_resource pic))) @
      escape_html_text (blank_image_cells pic))"
  by (simp add: append_image_def open_tag_def size_tags Let_def blank_image_cells_def escape_html_text_def)

lemma append_cross_reference_tags:
  "append_cross_reference sink r href kind =
     open_tag ''a''
       [(''class'', link_class (link_kind kind) (href_unresolved href)), (''href'', href_value href)] @
     (case label_image r of None \<Rightarrow> [] | Some pic \<Rightarrow> append_label_image sink pic) @
     (if label_code r then append_code sink (label_text r) (label_phrase r)
      else case label_emphasis r of
             None \<Rightarrow> escape_html_text (label_text r)
           | Some emphasis \<Rightarrow> append_emphasis sink (label_text r) emphasis (label_phrase r)) @
     close_tag ''a''"
  by (simp add: append_cross_reference_def append_anchor_tags html_literals [symmetric] open_tag_def
      close_tag_def Let_def)

lemma append_placed_anchor_tags:
  "append_placed_anchor sink placed =
     open_tag ''span''
       ([(''class'', ''geist-anchor geist-anchor--'' @ anchor_role_name (anchor_role (placed_block placed))),
         (''id'', html_emitted_id (anchor_id (placed_block placed)) (sink_options sink))] @
        degradation_attributes (placed_origin placed)) @ close_tag ''span''"
  by (simp add: append_placed_anchor_def open_tag_def close_tag_def degradation_tags)

lemma open_table_row_tags:
  "open_table_row row =
     open_tag ''tr''
       (case row_mark row of
          None \<Rightarrow> [(''class'', ''geist-table-row'')]
        | Some mark \<Rightarrow> [(''class'', ''geist-table-row geist-revised''),
                        (''data-geist-revision-mark'', revision_mark_text mark)])"
  by (simp add: open_table_row_def html_literals open_tag_def split: option.split)

lemma open_list_tags:
  "open_list node ordered marker origin =
     (if ordered \<and> marker \<noteq> Decimal_marker then
        open_tag ''ol''
          ([(''class'', html_block_class node), (''type'', if marker = Lower_alpha_marker then ''a'' else ''A'')] @
           degradation_attributes origin)
      else open_tag (if ordered then ''ol'' else ''ul'')
             ((''class'', html_block_class node) # degradation_attributes origin))"
  by (simp add: open_list_def open_tag_eqs degradation_tags) (simp add: open_tag_def)

definition item_attributes :: "bool \<Rightarrow> list_item \<Rightarrow> (string \<times> string) list" where
  "item_attributes ordered item =
     (case item_mark item of
        Some mark \<Rightarrow> [(''class'', ''geist-list-item geist-revised''),
                      (''data-geist-revision-mark'', revision_mark_text mark)]
      | None \<Rightarrow> [(''class'', ''geist-list-item'')]) @
     (if item_depth item = 0 then [] else [(''data-geist-depth'', decimal (unat (item_depth item)))]) @
     (case item_ordinal item of
        Some n \<Rightarrow> if ordered then [(''value'', decimal (unat n))] else []
      | None \<Rightarrow> []) @
     (if item_empty_content item then [(''data-geist-empty'', ''true'')] else [])"

lemma literal_class:
  "''<li class=\"geist-list-item\"'' = ''<li'' @ attribute ''class'' ''geist-list-item''"
  "''<code class=\"geist-opaque-inline\"'' = ''<code'' @ attribute ''class'' ''geist-opaque-inline''"
  by (simp_all add: attribute_def escape_html_attribute_def escape_attribute_char_def char_code_def)

lemma open_list_item_tags: "open_list_item ordered item = open_tag ''li'' (item_attributes ordered item)"
  by (simp add: open_list_item_def item_attributes_def open_tag_def literal_class split: option.split)

lemma opaque_inline_tags:
  "''<code class=\"geist-opaque-inline\"'' @ attribute ''data-geist-opaque-kind'' kind @ ''>'' @ s =
     open_tag ''code'' [(''class'', ''geist-opaque-inline''), (''data-geist-opaque-kind'', kind)] @ s"
  by (simp add: literal_class open_tag_def)

lemma revised_tags:
  "''<span'' @ attribute ''class'' c @ attribute ''data-geist-revision-mark'' m @ ''>'' =
     open_tag ''span'' [(''class'', c), (''data-geist-revision-mark'', m)]"
  by (simp add: open_tag_def)

lemma append_anchor_block_tags:
  "append_anchor_block sink b anchor =
     open_tag ''span''
       ([(''class'', html_block_class (block_node b) @ '' geist-anchor--'' @ anchor_role_name (anchor_role anchor)),
         (''id'', html_emitted_id (anchor_id anchor) (sink_options sink))] @
        degradation_attributes (block_origin b)) @ close_tag ''span''"
  by (simp add: append_anchor_block_def open_tag_def close_tag_def degradation_tags)

lemma thematic_break_tags:
  "''<hr'' @ attribute ''class'' c @ append_degradation_attributes origin @ ''>'' =
     void_tag ''hr'' ((''class'', c) # degradation_attributes origin)"
  by (simp add: void_tag_def open_tag_def degradation_tags)

lemma figure_tags:
  "''<img'' @ attribute ''class'' v @ attribute ''src'' s @ attribute ''alt'' a @
     (if missing then [] else append_image_size sink resource) @ ''>'' =
   void_tag ''img'' ([(''class'', v), (''src'', s), (''alt'', a)] @
     (if missing then [] else size_attributes sink resource))"
  by (simp add: size_tags) (simp add: void_tag_def open_tag_def)

lemma footnote_tags:
  "''<aside'' @ attribute ''class'' c @ attribute ''id'' i @ append_degradation_attributes origin @
     ''><span class=\"geist-footnote-label\">'' @ s @ ''</span><span class=\"geist-footnote-content\">'' =
   open_tag ''aside'' ([(''class'', c), (''id'', i)] @ degradation_attributes origin) @
   open_tag ''span'' [(''class'', ''geist-footnote-label'')] @ s @ close_tag ''span'' @
   open_tag ''span'' [(''class'', ''geist-footnote-content'')]"
  by (simp add: open_tag_def close_tag_def degradation_tags attribute_def escape_html_attribute_def
      escape_attribute_char_def char_code_def)

lemma link_tags:
  "''<a'' @ attribute ''class'' c @ attribute ''href'' h @ ''>'' =
     open_tag ''a'' [(''class'', c), (''href'', h)]"
  by (simp add: open_tag_def)

lemma menu_item_tags:
  "''<a'' @ attribute ''class'' c @ attribute ''href'' h @ ''><span class=\"geist-menu-item-target\">'' @ s =
   open_tag ''a'' [(''class'', c), (''href'', h)] @
   open_tag ''span'' [(''class'', ''geist-menu-item-target'')] @ s"
  by (simp add: open_tag_def attribute_def escape_html_attribute_def escape_attribute_char_def char_code_def)

lemma append_opaque_tags:
  "append_opaque b kind content =
     open_tag ''pre'' ([(''class'', html_block_class (block_node b)), (''data-geist-opaque-kind'', kind)] @
       degradation_attributes (block_origin b)) @ escape_html_text content @ close_tag ''pre''"
  by (simp add: append_opaque_def open_tag_def close_tag_def degradation_tags)

lemma topic_destination_tags:
  "topic_destination i opts destination =
     (if destination = [] \<or> destination = i then []
      else open_tag ''span'' [(''class'', ''geist-topic-destination''),
             (''id'', html_emitted_id destination opts)] @ close_tag ''span'' @ escape_html_text [CHR 0x0A])"
  by (simp add: topic_destination_def open_tag_def close_tag_def escape_html_text_def escape_text_char_def)

lemmas start_literals =
  opaque_inline_tags [unfolded append.simps] figure_tags [unfolded append.simps] revised_tags [unfolded append.simps]
  thematic_break_tags [unfolded append.simps] link_tags [unfolded append.simps]
  footnote_tags [unfolded append.simps html_literals] menu_item_tags [unfolded append.simps html_literals]

end
