(* ===== verification/Html_Facts.thy ===== *)
theory Html_Facts
  imports Html_Tags
begin

section \<open>The renderer's output read back\<close>

text \<open>
  A piece \<open>prints\<close> when it is there and reads back as admissible tokens with a known text and a known effect
  on the open elements. What is admitted as the destination of a link is the parameter of the locale
  \<open>link_policy\<close>, in which every renderer function is treated once; its two interpretations give the
  well-formedness of every page and the safety of its links.
\<close>

subsection \<open>Links\<close>

text \<open>
  What is asked of a destination. A policy names the sinks it is for, the destinations \<open>K\<close> it admits and the
  targets \<open>T\<close> for which that holds; it promises that every destination the code computes for such a sink
  is admitted.
\<close>

locale link_policy =
  fixes served :: "html_sink \<Rightarrow> bool"
    and K :: "string \<Rightarrow> bool"
    and T :: "cross_reference_target \<Rightarrow> bool"
  assumes anchor_admitted: "served sink \<Longrightarrow> K (href_value (anchor_href i (sink_options sink)))"
    and topic_admitted: "served sink \<Longrightarrow> K (href_value (topic_href i (sink_options sink)))"
    and row_link_admitted: "served sink \<Longrightarrow> K (href_value (verbatim_link_href l (sink_options sink)))"
    and target_admitted: "served sink \<Longrightarrow> T t \<Longrightarrow>
      K (href_value (or_else (resolve_cross_reference_href t (sink_options sink))
        (cross_reference_fallback t (sink_options sink))))"
    and reference_admitted: "served sink \<Longrightarrow> \<forall>c \<in> set claims. T (claim_target c) \<Longrightarrow>
      inline_reference sink claims = Some (h, kind) \<Longrightarrow> K (href_value h)"

text \<open>The targets named below a node.\<close>

fun inline_targets :: "inline_ir \<Rightarrow> cross_reference_target set"
  and inlines_targets :: "inlines \<Rightarrow> cross_reference_target set" where
  "inline_targets (Inline node origin) =
     (case node of
        Cross_reference_inline r \<Rightarrow> claim_target ` set (xref_targets r)
      | Revised_inline mark children \<Rightarrow> inlines_targets children
      | _ \<Rightarrow> {})"
| "inlines_targets [] = {}"
| "inlines_targets (i # is) = inline_targets i \<union> inlines_targets is"

text \<open>The text an inline shows.\<close>

fun inline_text :: "inline_ir \<Rightarrow> string"
  and inlines_text :: "inlines \<Rightarrow> string" where
  "inline_text (Inline node origin) =
     (case node of
        Text_inline s \<Rightarrow> s
      | Emphasis_inline s kind phrase \<Rightarrow> s
      | Underline_inline s \<Rightarrow> s
      | Code_inline s phrase \<Rightarrow> s
      | Cross_reference_inline r \<Rightarrow> label_text r
      | Image_inline pic \<Rightarrow> blank_image_cells pic
      | Hard_break_inline \<Rightarrow> []
      | Opaque_inline kind content \<Rightarrow> content
      | Revised_inline mark children \<Rightarrow> inlines_text children)"
| "inlines_text [] = []"
| "inlines_text (i # is) = inline_text i @ inlines_text is"

subsection \<open>Pieces and inlines\<close>

lemma prints_pieces:
  "prints K a (pieces []) a []"
  "prints K a m b w \<Longrightarrow> prints K b (pieces ms) c w' \<Longrightarrow> prints K a (pieces (m # ms)) c (w @ w')"
proof -
  show "prints K a (pieces []) a []" by (simp add: prints_Nil pieces.simps)
  assume m: "prints K a m b w" and ms: "prints K b (pieces ms) c w'"
  obtain s where s: "m = Some s" using m by (auto simp: prints_def)
  obtain t where t: "pieces ms = Some t" using ms by (auto simp: prints_def)
  show "prints K a (pieces (m # ms)) c (w @ w')"
    using prints_append [of K a s b w t c w'] m ms s t by (simp add: pieces.simps)
qed

declare pieces.simps [simp del]

lemma prints_two:
  assumes "prints K a m b w" and "prints K b m' c w'"
  shows "prints K a (pieces [m, m']) c (w @ w')"
  using prints_pieces(2) [OF assms(1) prints_pieces(2) [OF assms(2) prints_pieces(1)]] by simp

lemma prints_three:
  assumes "prints K a (Some s) b w1" and "prints K b m c w2" and "prints K c (Some t) d w3"
  shows "prints K a (pieces [Some s, m, Some t]) d (w1 @ w2 @ w3)"
  using prints_pieces(2) [OF assms(1) prints_pieces(2) [OF assms(2) prints_pieces(2) [OF assms(3) prints_pieces(1)]]]
  by simp

lemmas known_defs = known_elements_def void_elements_def

lemma prints_around:
  assumes "n \<in> set known_elements" and "n \<notin> set void_elements" and "ok_attributes K n as"
    and "prints K (n # a) m (n # a) w"
  shows "prints K a (pieces [Some (open_tag n as), m, Some (close_tag n)]) a w"
  using prints_three [OF prints_open [OF assms(1-3)] assms(4) prints_close [OF assms(1,2)]]
  by simp

lemma prints_text_element:
  assumes "n \<in> set known_elements" and "n \<notin> set void_elements" and "ok_attributes K n as"
  shows "prints K a (Some (open_tag n as @ escape_html_text s @ close_tag n)) a s"
  using prints_element [OF assms prints_text] .

lemma prints_code: "prints K a (Some (append_code sink s phrase)) a s"
  unfolding append_code_def html_literals
  by (cases "sink_phrase sink phrase")
    (simp_all add: prints_text_element known_defs)

lemma prints_emphasis: "prints K a (Some (append_emphasis sink s kind phrase)) a s"
proof (cases kind)
  case Strong_emphasis
  have "prints K (''strong'' # a) (Some (open_tag ''em'' [] @ escape_html_text s @ close_tag ''em'')) (''strong'' # a) s"
    by (simp add: prints_text_element known_defs)
  then have "prints K a (Some (open_tag ''strong'' [(''class'', ''geist-strong-emphasis'')] @
      (open_tag ''em'' [] @ escape_html_text s @ close_tag ''em'') @ close_tag ''strong'')) a s"
    by (rule prints_element [rotated -1]) (simp_all add: known_defs)
  then show ?thesis by (simp add: append_emphasis_def html_literals Strong_emphasis)
qed (simp_all add: append_emphasis_def html_literals prints_text_element known_defs)

lemma ok_degradation: "ok_attributes K n (degradation_attributes origin)"
  by (simp add: degradation_attributes_def known_defs)

lemma ok_size: "ok_attributes K ''img'' (size_attributes sink resource)"
  by (simp add: size_attributes_def known_defs split: option.split)

lemma ok_item: "ok_attributes K ''li'' (item_attributes ordered item)"
  by (simp add: item_attributes_def known_defs split: option.split)

lemma prints_label_image: "prints K a (Some (append_label_image sink pic)) a []"
  unfolding append_label_image_tags Let_def
  by (rule prints_void) (simp_all add: known_defs ok_size)

lemma prints_image: "prints K a (Some (append_image sink pic)) a (blank_image_cells pic)"
proof -
  have "prints K a (Some (open_tag ''img'' as)) a []" if "ok_attributes K ''img'' as" for as
    using that by (rule prints_void [rotated]) (simp add: known_defs)
  from prints_append [OF this prints_text] show ?thesis
    unfolding append_image_tags Let_def by (simp add: ok_size known_defs)
qed

lemma prints_anchor:
  assumes "K (href_value href)"
  shows "prints K a (Some (append_anchor href kind label)) a label"
  unfolding append_anchor_tags using assms by (simp add: prints_text_element known_defs)

lemma prints_cross_reference:
  assumes "K (href_value href)"
  shows "prints K a (Some (append_cross_reference sink r href kind)) a (label_text r)"
proof -
  let ?pic = "case label_image r of None \<Rightarrow> [] | Some pic \<Rightarrow> append_label_image sink pic"
  let ?label = "if label_code r then append_code sink (label_text r) (label_phrase r)
      else case label_emphasis r of
             None \<Rightarrow> escape_html_text (label_text r)
           | Some emphasis \<Rightarrow> append_emphasis sink (label_text r) emphasis (label_phrase r)"
  have "prints K (''a'' # a) (Some ?pic) (''a'' # a) []"
    by (simp add: prints_Nil prints_label_image split: option.split)
  moreover have "prints K (''a'' # a) (Some ?label) (''a'' # a) (label_text r)"
    by (simp add: prints_code prints_emphasis prints_text split: option.split)
  ultimately have "prints K (''a'' # a) (Some (?pic @ ?label)) (''a'' # a) ([] @ label_text r)"
    by (rule prints_append)
  from prints_element [OF _ _ _ this] show ?thesis
    unfolding append_cross_reference_tags using assms by (simp add: known_defs)
qed

lemma inline_reference_there: "claims \<noteq> [] \<Longrightarrow> \<exists>h kind. inline_reference sink claims = Some (h, kind)"
  by (cases claims) (auto simp: inline_reference_def)

lemma verified_reference: "canonical_reference r \<Longrightarrow> xref_targets r \<noteq> []"
  by (simp add: canonical_reference_def split: if_splits)

lemma prints_break: "prints K a (Some (open_tag ''br'' [])) a []"
  by (rule prints_void) (simp_all add: known_defs)

context link_policy
begin

lemma prints_inlines:
  "served sink \<Longrightarrow> verify_inline row i = None \<Longrightarrow> \<forall>t \<in> inline_targets i. T t \<Longrightarrow>
     prints K a (append_inline sink i) a (inline_text i)"
  "served sink \<Longrightarrow> verify_inline_list row xs = None \<Longrightarrow> \<forall>t \<in> inlines_targets xs. T t \<Longrightarrow>
     prints K a (append_inlines sink xs) a (inlines_text xs)"
proof (induction sink i and sink xs arbitrary: a and a rule: append_inline_append_inlines.induct)
  case (1 sink node origin)
  show ?case
  proof (cases node)
    case (Cross_reference_inline r)
    then have "xref_targets r \<noteq> []"
      using 1(3) by (auto simp: canonical_inline_def dest: verified_reference)
    then obtain h kind where h: "inline_reference sink (xref_targets r) = Some (h, kind)"
      using inline_reference_there by blast
    have "\<forall>c \<in> set (xref_targets r). T (claim_target c)" using 1(4) Cross_reference_inline by simp
    then have "K (href_value h)" using reference_admitted [OF 1(2) _ h] by simp
    with h Cross_reference_inline show ?thesis by (simp add: prints_cross_reference)
  next
    case (Revised_inline mark children)
    let ?open = "open_tag ''span'' [(''class'', ''geist-revised''),
      (''data-geist-revision-mark'', revision_mark_text mark)]"
    have "prints K (''span'' # a) (append_inlines sink children) (''span'' # a) (inlines_text children)"
      using 1 Revised_inline by simp
    then have "prints K a (pieces [Some ?open, append_inlines sink children, Some (close_tag ''span'')]) a
        (inlines_text children)"
      by (intro prints_around) (auto simp: known_defs)
    with Revised_inline show ?thesis
      by (simp only: append_inline.simps inline_node.case revised_tags html_literals inline_text.simps)
  qed (use 1 in \<open>simp_all add: prints_text prints_emphasis prints_code prints_image prints_break
      html_literals start_literals prints_text_element known_defs del: pieces.simps\<close>)
next
  case (2 sink)
  then show ?case by (simp add: prints_Nil)
next
  case (3 sink i xs)
  then have "prints K a (append_inline sink i) a (inline_text i)"
    "prints K a (append_inlines sink xs) a (inlines_text xs)" by simp_all
  from prints_two [OF this] show ?case by simp
qed

end


subsection \<open>Blocks\<close>

definition opens :: "(string \<Rightarrow> bool) \<Rightarrow> string list \<Rightarrow> string option \<Rightarrow> string list \<Rightarrow> bool" where
  "opens K a m b \<longleftrightarrow> (\<exists>w. prints K a m b w)"

lemma opens_prints: "prints K a m b w \<Longrightarrow> opens K a m b"
  by (auto simp: opens_def)

lemma opens_Nil: "opens K a (Some []) a"
  using prints_Nil by (rule opens_prints)

lemma opens_pieces_Nil: "opens K a (pieces []) a"
  using prints_pieces(1) by (rule opens_prints)

lemma opens_pieces_Cons: "opens K a m b \<Longrightarrow> opens K b (pieces ms) c \<Longrightarrow> opens K a (pieces (m # ms)) c"
  unfolding opens_def using prints_pieces(2) by blast

lemma opens_append: "opens K a (Some s) b \<Longrightarrow> opens K b (Some t) c \<Longrightarrow> opens K a (Some (s @ t)) c"
  unfolding opens_def using prints_append by blast

lemma opens_text: "opens K a (Some (escape_html_text s)) a"
  using prints_text by (rule opens_prints)

lemma opens_tag:
  assumes "n \<in> set known_elements" and "n \<notin> set void_elements" and "ok_attributes K n as"
  shows "opens K a (Some (open_tag n as)) (n # a)"
  using prints_open [OF assms] by (rule opens_prints)

lemma opens_void:
  assumes "n \<in> set void_elements" and "ok_attributes K n as"
  shows "opens K a (Some (void_tag n as)) a"
  unfolding void_tag_def using prints_void [OF assms] by (rule opens_prints)

lemma opens_close: "n \<in> set known_elements \<Longrightarrow> n \<notin> set void_elements \<Longrightarrow> opens K (n # a) (Some (close_tag n)) a"
  using prints_close by (rule opens_prints)

lemma opens_all:
  assumes "\<And>x. x \<in> set xs \<Longrightarrow> opens K a (f x) a"
  shows "opens K a (pieces (map f xs)) a"
  using assms by (induction xs) (auto intro: opens_pieces_Nil opens_pieces_Cons)

lemma opens_concat:
  assumes "\<And>x. x \<in> set xs \<Longrightarrow> opens K a (Some (f x)) a"
  shows "opens K a (Some (concat (map f xs))) a"
  using assms by (induction xs) (auto intro: opens_Nil opens_append)

lemma opens_wrapped:
  assumes "opens K a (Some s) b" and "opens K b (append_inlines sink xs) b" and "opens K b (Some t) c"
  shows "opens K a (wrapped sink s xs t) c"
  unfolding wrapped_def
  by (rule opens_pieces_Cons [OF assms(1) opens_pieces_Cons [OF assms(2) opens_pieces_Cons [OF assms(3)
        opens_pieces_Nil]]])

lemma opens_plain:
  assumes "opens K a (Some s) b" and "c \<noteq> CHR ''&'' \<and> c \<noteq> CHR ''<'' \<and> c \<noteq> CHR ''>''"
  shows "opens K a (Some (c # s)) b"
  using opens_append [OF opens_text [of K a "[c]"] assms(1)] assms(2)
  by (simp add: escape_html_text_def escape_text_char_def)

lemma opens_if: "(c \<Longrightarrow> opens K a m b) \<Longrightarrow> (\<not> c \<Longrightarrow> opens K a m' b) \<Longrightarrow> opens K a (if c then m else m') b"
  by simp

text \<open>Rules that take a block apart, and what is left of the elements it is made of.\<close>

lemmas opens_rules =
  opens_pieces_Nil opens_pieces_Cons opens_append opens_text opens_tag opens_void opens_close opens_Nil
  opens_if opens_plain

lemmas ok_rules = known_defs ok_degradation ok_size ok_item

lemmas to_tags = open_tag_eqs wrapped_def html_literals start_literals append.simps

lemma block_tag_known: "block_tag level \<in> set known_elements" "block_tag level \<notin> set void_elements"
proof -
  let ?n = "unat (min (max level 1) 6)"
  have n: "1 \<le> ?n \<and> ?n \<le> 6"
    by (simp add: min_def max_def word_le_nat_alt)
  then have "block_tag level = [CHR ''h'', digit_char ?n]"
    unfolding block_tag_def by (subst decimal.simps) simp
  moreover have "list_all (\<lambda>n. [CHR ''h'', digit_char n] \<in> set known_elements \<and>
      [CHR ''h'', digit_char n] \<notin> set void_elements) [1..<7]"
    by code_simp
  ultimately show "block_tag level \<in> set known_elements" "block_tag level \<notin> set void_elements"
    using n by (auto simp: list_all_iff)
qed

fun block_targets :: "block_ir \<Rightarrow> cross_reference_target set"
  and blocks_targets :: "block_ir list \<Rightarrow> cross_reference_target set"
  and items_targets :: "list_item list \<Rightarrow> cross_reference_target set"
  and entries_targets :: "definition_entry list \<Rightarrow> cross_reference_target set"
  and rows_targets :: "table_row list \<Rightarrow> cross_reference_target set"
  and cells_targets :: "table_cell list \<Rightarrow> cross_reference_target set" where
  "block_targets (Block node origin) =
     (case node of
        Heading_block level content mark \<Rightarrow> inlines_targets content
      | Paragraph_block content \<Rightarrow> inlines_targets content
      | List_block ordered items marker \<Rightarrow> items_targets items
      | Definition_list_block entries \<Rightarrow> entries_targets entries
      | Table_block rows header_rows \<Rightarrow> rows_targets rows
      | Preformatted_block pre \<Rightarrow> (\<Union>xs \<in> set (pre_styled_lines pre). inlines_targets xs)
      | Note_block label content \<Rightarrow> inlines_targets label \<union> inlines_targets content
      | Publication_list_block entries \<Rightarrow>
          (\<Union>e \<in> set entries. inlines_targets (publication_title e) \<union>
             (\<Union>p \<in> set (publication_paragraphs e). inlines_targets p))
      | Figure_block figure \<Rightarrow> inlines_targets (figure_caption figure)
      | Footnote_block i content \<Rightarrow> inlines_targets content
      | Index_group_block heading entries \<Rightarrow>
          inlines_targets heading \<union> (\<Union>e \<in> set entries. inlines_targets (index_term e))
      | Menu_block items \<Rightarrow> menu_target ` set items
      | _ \<Rightarrow> {})"
| "blocks_targets [] = {}"
| "blocks_targets (b # bs) = block_targets b \<union> blocks_targets bs"
| "items_targets [] = {}"
| "items_targets (List_item content origin ordinal depth empty_content children label mark # items) =
     inlines_targets content \<union> inlines_targets label \<union> blocks_targets children \<union> items_targets items"
| "entries_targets [] = {}"
| "entries_targets (Definition_entry term body origin children empty_term # entries) =
     inlines_targets term \<union> inlines_targets body \<union> blocks_targets children \<union> entries_targets entries"
| "rows_targets [] = {}"
| "rows_targets (Table_row cells origin mark # rows) = cells_targets cells \<union> rows_targets rows"
| "cells_targets [] = {}"
| "cells_targets (Table_cell content origin children anchors # cells) =
     inlines_targets content \<union> blocks_targets children \<union> cells_targets cells"

lemma opens_placed_anchors: "opens K a (Some (append_placed_anchors sink as)) a"
  unfolding append_placed_anchors_def append_placed_anchor_tags
  by (rule opens_concat) ((rule opens_rules | simp add: known_defs ok_degradation)+)


context link_policy
begin

lemma opens_inlines:
  assumes "served sink" and "verify_inlines xs allow_empty row = None" and "\<forall>t \<in> inlines_targets xs. T t"
  shows "opens K a (append_inlines sink xs) a"
  using prints_inlines(2) [OF assms(1) _ assms(3)] assms(2) by (auto simp: verify_inlines_def opens_def)

lemma opens_element:
  assumes "served sink" and "verify_inlines xs allow_empty row = None" and "\<forall>t \<in> inlines_targets xs. T t"
    and "opens K a (Some s) b" and "opens K b (Some t) c"
  shows "opens K a (wrapped sink s xs t) c"
  using opens_wrapped [OF assms(4) opens_inlines [OF assms(1-3)] assms(5)] .

lemma prints_row_links:
  "served sink \<Longrightarrow> prints K a (Some (append_row_links sink row cursor links)) a (drop cursor row)"
proof (induction sink row cursor links rule: append_row_links.induct)
  case (1 sink row cursor)
  show ?case by (simp add: prints_text)
next
  case (2 sink row cursor l links)
  show ?case
  proof (cases "link_begin l < cursor \<or> link_end l > length row \<or> link_begin l \<ge> link_end l")
    case True
    with 2 show ?thesis by simp
  next
    case False
    let ?label = "slice row (link_begin l) (link_end l)"
    have "prints K a (Some (append_anchor (verbatim_link_href l (sink_options sink))
        (verbatim_link_html_kind (verbatim_kind l)) ?label)) a ?label"
      by (rule prints_anchor) (rule row_link_admitted [OF 2(3)])
    from prints_append [OF prints_text prints_append [OF this 2(2) [OF False 2(3)]]]
    have "prints K a (Some (append_row_links sink row cursor (l # links))) a
        (slice row cursor (link_begin l) @ ?label @ drop (link_end l) row)"
      using False by simp
    moreover have "slice row cursor (link_begin l) @ ?label = slice row cursor (link_end l)"
      using False by (intro slice_append) simp_all
    moreover have "slice row cursor (link_end l) @ drop (link_end l) row = drop cursor row"
      using False by (simp add: slice_def) (metis append_take_drop_id drop_drop le_add_diff_inverse2 less_imp_le
          linorder_not_less order_trans)
    ultimately show ?thesis by (metis append_assoc)
  qed
qed

lemma opens_row_links: "served sink \<Longrightarrow> opens K a (Some (append_row_links sink row cursor links)) a"
  using prints_row_links by (rule opens_prints)

lemma verified_styled_row:
  assumes "verify_preformatted pre = None" and "pre_styled_lines pre \<noteq> []" and "index < length (pre_lines pre)"
  shows "index < length (pre_styled_lines pre) \<and> verify_inlines (pre_styled_lines pre ! index) True True = None"
proof -
  let ?rows = "zip (pre_lines pre) (zip (pre_line_origins pre) (pre_styled_lines pre))"
  have n: "length (pre_styled_lines pre) = length (pre_lines pre)"
    "length (pre_line_origins pre) = length (pre_lines pre)" "list_all (\<lambda>x. verify_styled_row x = None) ?rows"
    using assms(1,2) by (auto simp: verify_preformatted_def Let_def)
  then have "verify_styled_row (?rows ! index) = None"
    using assms(3) by (simp add: list_all_length)
  with n assms(3) show ?thesis by (simp add: verify_styled_row_def Let_def)
qed

lemma opens_pre_lines:
  assumes "served sink" and "verify_preformatted pre = None"
    and "\<forall>xs \<in> set (pre_styled_lines pre). \<forall>t \<in> inlines_targets xs. T t"
    and "index + length ls = length (pre_lines pre)"
  shows "opens K a (append_pre_lines sink pre index anchors ls) a"
  using assms(4)
proof (induction ls arbitrary: index anchors)
  case Nil
  then show ?case by (simp add: opens_Nil)
next
  case (Cons line ls)
  have "opens K a (append_inlines sink (pre_styled_lines pre ! index)) a" "index < length (pre_styled_lines pre)"
    if "pre_styled_lines pre \<noteq> []"
  proof -
    have there: "index < length (pre_styled_lines pre)"
      "verify_inlines (pre_styled_lines pre ! index) True True = None"
      using verified_styled_row [OF assms(2) that, of index] Cons(2) by simp_all
    then have "\<forall>t \<in> inlines_targets (pre_styled_lines pre ! index). T t"
      using assms(3) nth_mem by blast
    then show "opens K a (append_inlines sink (pre_styled_lines pre ! index)) a"
      "index < length (pre_styled_lines pre)"
      using opens_inlines [OF assms(1) there(2)] there(1) by blast+
  qed
  then have "opens K a (append_pre_line sink pre index line) a"
    by (auto simp: append_pre_line_def append_verbatim_row_def html_literals opens_row_links [OF assms(1)]
        known_defs intro!: opens_pieces_Cons opens_pieces_Nil opens_Nil opens_append [OF opens_tag opens_close])
  moreover have "opens K a (Some (if index \<noteq> 0 then [CHR 0x0A] else [])) a"
    using opens_text [of K a "[CHR 0x0A]"] by (simp add: escape_html_text_def escape_text_char_def opens_Nil)
  ultimately show ?case
    using Cons by (auto intro!: opens_pieces_Cons opens_pieces_Nil opens_placed_anchors)
qed

lemma opens_preformatted:
  assumes "served sink" and "verify_preformatted pre = None"
    and "\<forall>xs \<in> set (pre_styled_lines pre). \<forall>t \<in> inlines_targets xs. T t"
  shows "opens K a (append_preformatted sink pre origin block_class) a"
  unfolding append_preformatted_def open_tag_eqs
  by (rule opens_rules opens_pre_lines [OF assms] | simp add: known_defs ok_degradation)+

lemma opens_cell_inlines:
  "served sink \<Longrightarrow> verify_inline_list row xs = None \<Longrightarrow> \<forall>t \<in> inlines_targets xs. T t \<Longrightarrow>
   opens K a (append_cell_inlines sink last_line line anchors xs) a"
proof (induction sink last_line line anchors xs rule: append_cell_inlines.induct)
  case (1 sink last_line line anchors)
  show ?case by (simp add: opens_placed_anchors)
next
  case (2 sink last_line line anchors i xs)
  then have "opens K a (append_inline sink i) a"
    using opens_prints [OF prints_inlines(1)] by auto
  with 2 show ?case by (auto intro!: opens_pieces_Cons opens_pieces_Nil opens_placed_anchors)
qed

lemma opens_inline_cell:
  assumes "served sink" and "verify_inlines xs True False = None" and "\<forall>t \<in> inlines_targets xs. T t"
  shows "opens K a (append_inline_cell sink xs anchors) a"
  unfolding append_inline_cell_def using assms
  by (auto simp: verify_inlines_def intro!: opens_pieces_Cons opens_pieces_Nil opens_placed_anchors
      opens_cell_inlines)

lemma opens_list_label:
  assumes "served sink" and "label \<noteq> [] \<longrightarrow> verify_inlines label False False = None"
    and "\<forall>t \<in> inlines_targets label. T t"
  shows "opens K a (append_list_label sink label) a"
proof (cases "label = []")
  case True
  then show ?thesis by (simp add: append_list_label_def opens_Nil)
next
  case False
  with assms have "opens K b (append_inlines sink label) b" for b using opens_inlines by blast
  with False show ?thesis
    unfolding append_list_label_def html_literals
    by (simp only: if_False) (rule opens_rules | assumption | simp add: known_defs)+
qed

lemma opens_heading:
  assumes "served sink" and "verify_inlines content False False = None" and "\<forall>t \<in> inlines_targets content. T t"
  shows "opens K a (append_heading sink b level content mark) a"
proof (cases mark)
  case None
  then show ?thesis
    unfolding append_heading_def to_tags
    by (simp only: option.case append_Nil2)
      (rule opens_rules opens_inlines [OF assms] block_tag_known | (simp add: ok_rules; fail))+
next
  case (Some m)
  then show ?thesis
    unfolding append_heading_def to_tags
    by (simp only: option.case)
      (rule opens_rules opens_inlines [OF assms] block_tag_known | (simp add: ok_rules; fail))+
qed

lemma opens_note:
  assumes "served sink" and "verify_inlines label True False = None" and "verify_inlines content False False = None"
    and "\<forall>t \<in> inlines_targets label \<union> inlines_targets content. T t"
  shows "opens K a (append_note sink b label content) a"
proof -
  have inl: "opens K c (append_inlines sink label) c" "opens K c (append_inlines sink content) c" for c
    using opens_inlines [OF assms(1)] assms(2-4) by blast+
  show ?thesis
    unfolding append_note_def to_tags
    by (rule opens_rules inl | (simp add: ok_rules; fail))+
qed

lemma opens_publication_entry:
  assumes "served sink" and "verify_publication_entry entry = None"
    and "\<forall>t \<in> inlines_targets (publication_title entry). T t"
    and "\<forall>p \<in> set (publication_paragraphs entry). \<forall>t \<in> inlines_targets p. T t"
  shows "opens K a (append_publication_entry sink entry) a"
proof -
  have inl: "opens K c (append_inlines sink (publication_title entry)) c"
    "\<And>p. p \<in> set (publication_paragraphs entry) \<Longrightarrow> opens K c (append_inlines sink p) c" for c
    using opens_inlines [OF assms(1)] assms(2-4) by (auto simp: verify_publication_entry_def list_all_iff)
  show ?thesis
    unfolding append_publication_entry_def to_tags
    by (rule opens_rules opens_all inl | assumption | (simp add: ok_rules; fail))+
qed

lemma opens_figure:
  assumes "served sink" and "verify_inlines (figure_caption figure) True False = None"
    and "\<forall>t \<in> inlines_targets (figure_caption figure). T t"
  shows "opens K a (append_figure sink b figure) a"
  unfolding append_figure_def Let_def to_tags
  by (rule opens_rules opens_inlines [OF assms] | (simp add: ok_rules; fail))+

lemma opens_footnote:
  assumes "served sink" and "verify_inlines content False False = None" and "\<forall>t \<in> inlines_targets content. T t"
  shows "opens K a (append_footnote sink b i content) a"
  unfolding append_footnote_def to_tags
  by (rule opens_rules opens_inlines [OF assms] | (simp add: ok_rules; fail))+

lemma opens_index_entry:
  assumes "served sink" and "verify_index_entry entry = None" and "\<forall>t \<in> inlines_targets (index_term entry). T t"
  shows "opens K a (append_index_entry sink entry) a"
proof -
  have entry: "verify_inlines (index_term entry) False False = None"
    using assms(2) by (simp add: verify_index_entry_def)
  show ?thesis
    unfolding append_index_entry_def Let_def to_tags
    by (rule opens_rules opens_inlines [OF assms(1) entry assms(3)]
        | (simp add: ok_rules anchor_admitted [OF assms(1)] topic_admitted [OF assms(1)]; fail))+
qed

lemma opens_index_group:
  assumes "served sink" and "verify_inlines heading True False = None"
    and "list_all (\<lambda>e. verify_index_entry e = None) entries"
    and "\<forall>t \<in> inlines_targets heading. T t" and "\<forall>e \<in> set entries. \<forall>t \<in> inlines_targets (index_term e). T t"
  shows "opens K a (append_index_group sink b heading entries) a"
proof -
  have "opens K c (pieces (map (append_index_entry sink) entries)) c" for c
    using opens_index_entry [OF assms(1)] assms(3,5) by (intro opens_all) (simp add: list_all_iff)
  note parts = this opens_inlines [OF assms(1,2,4)]
  show ?thesis
    unfolding append_index_group_def to_tags
    by (rule opens_rules parts | (simp add: ok_rules; fail))+
qed

lemma opens_menu:
  assumes "served sink" and "\<forall>item \<in> set items. T (menu_target item)"
  shows "opens K a (Some (append_menu sink b items)) a"
proof -
  have item: "opens K c (Some (append_menu_item sink item)) c" if "item \<in> set items" for c item
    unfolding append_menu_item_def Let_def to_tags
    by (rule opens_rules | (simp add: ok_rules target_admitted [OF assms(1)] assms(2) that; fail))+
  show ?thesis
    unfolding append_menu_def to_tags
    by (rule opens_rules opens_concat item | assumption | (simp add: ok_rules; fail))+
qed

lemma opens_anchor_block: "opens K a (Some (append_anchor_block sink b anchor)) a"
  unfolding append_anchor_block_tags by (rule opens_rules | (simp add: ok_rules; fail))+

lemma opens_opaque: "opens K a (Some (append_opaque b kind content)) a"
  unfolding append_opaque_tags by (rule opens_rules | (simp add: ok_rules; fail))+

lemma opens_open_row: "opens K a (Some (open_table_row row)) (''tr'' # a)"
  unfolding open_table_row_tags
  by (rule opens_tag) (simp_all add: ok_rules split: option.split)

lemma opens_open_list:
  "opens K a (Some (open_list node ordered marker origin)) ((if ordered then ''ol'' else ''ul'') # a)"
  unfolding open_list_tags
  by (cases ordered) (auto simp: ok_rules intro!: opens_tag)

lemma opens_open_item: "opens K a (Some (open_list_item ordered item)) (''li'' # a)"
  unfolding open_list_item_tags by (rule opens_tag) (simp_all add: ok_rules)

lemma opens_blocks:
  "served sink \<Longrightarrow> verify_block nested b = None \<Longrightarrow> \<forall>t \<in> block_targets b. T t \<Longrightarrow>
     opens K a (append_block sink b) a"
  "served sink \<Longrightarrow> verify_blocks bs = None \<Longrightarrow> \<forall>t \<in> blocks_targets bs. T t \<Longrightarrow>
     opens K a (append_blocks sink bs) a"
  "served sink \<Longrightarrow> verify_items marker po pd items = None \<Longrightarrow> \<forall>t \<in> items_targets items. T t \<Longrightarrow>
     opens K a (append_items sink ordered items) a"
  "served sink \<Longrightarrow> verify_entries entries = None \<Longrightarrow> \<forall>t \<in> entries_targets entries. T t \<Longrightarrow>
     opens K a (append_entries sink entries) a"
  "served sink \<Longrightarrow> verify_table_rows width rows = None \<Longrightarrow> \<forall>t \<in> rows_targets rows. T t \<Longrightarrow>
     n \<le> length rows \<Longrightarrow> opens K a (append_header_rows sink n rows) a"
  "served sink \<Longrightarrow> verify_table_rows width rows' = None \<Longrightarrow> \<forall>t \<in> rows_targets rows'. T t \<Longrightarrow>
     opens K a (append_body_rows sink m rows') a"
  "served sink \<Longrightarrow> verify_cells cells = None \<Longrightarrow> \<forall>t \<in> cells_targets cells. T t \<Longrightarrow>
     opens K a (Some start) b' \<Longrightarrow> opens K b' (Some stop) a \<Longrightarrow>
     opens K a (append_cells sink start stop cells) a"
proof (induction sink b and sink bs and sink ordered items and sink entries and sink n rows
    and sink m rows' and sink start stop cells
    arbitrary: nested a and a and marker po pd a and a and width a and width a and a b'
    rule: append_block_append_blocks_append_items_append_entries_append_header_rows_append_body_rows_append_cells.induct)
  case (1 sink node origin)
  note sv = 1(5)
  show ?case
  proof (cases node)
    case (Paragraph_block content)
    with 1(6,7) have content: "verify_inlines content False False = None" "\<forall>t \<in> inlines_targets content. T t"
      by simp_all
    show ?thesis
      unfolding append_block.simps Let_def Paragraph_block block_node.case to_tags
      by (rule opens_rules opens_inlines [OF sv content] | (simp add: ok_rules; fail))+
  next
    case Thematic_break_block
    show ?thesis
      unfolding append_block.simps Let_def Thematic_break_block block_node.case to_tags
      by (rule opens_rules | (simp add: ok_rules; fail))+
  next
    case (List_block ordered items marker)
    with 1(6,7) have items: "verify_items marker 0 None items = None" "\<forall>t \<in> items_targets items. T t"
      by simp_all
    have close: "opens K ((if ordered then ''ol'' else ''ul'') # a) (Some (close_tag (if ordered then ''ol'' else ''ul''))) a"
      by (cases ordered) (simp_all add: opens_close ok_rules)
    show ?thesis
      unfolding append_block.simps Let_def List_block block_node.case to_tags
      by (rule opens_pieces_Nil opens_pieces_Cons opens_open_list 1(1) [OF refl refl List_block sv items] close
          | (simp; fail))+
  next
    case (Definition_list_block entries)
    with 1(6,7) have entries: "verify_entries entries = None" "\<forall>t \<in> entries_targets entries. T t"
      by simp_all
    show ?thesis
      unfolding append_block.simps Let_def Definition_list_block block_node.case to_tags
      by (rule opens_rules 1(2) [OF refl refl Definition_list_block sv entries] | (simp add: ok_rules; fail))+
  next
    case (Table_block rows header_rows)
    with 1(6,7) have rows: "verify_table_rows (length (row_cells (hd rows))) rows = None"
      "\<forall>t \<in> rows_targets rows. T t" "header_rows \<le> length rows"
      by (simp_all add: verify_table_head_def)
    show ?thesis
      unfolding append_block.simps Let_def Table_block block_node.case to_tags
      by (rule opens_rules 1(3) [OF refl refl Table_block _ sv rows] 1(4) [OF refl refl Table_block _ sv rows(1,2)]
          | assumption | (simp add: ok_rules; fail))+
  next
    case (Publication_list_block entries)
    with 1(6,7) have "opens K b (append_publication_entry sink e) b" if "e \<in> set entries" for b e
      using that by (intro opens_publication_entry [OF sv]) (auto simp: list_all_iff)
    then have entries: "opens K b (pieces (map (append_publication_entry sink) entries)) b" for b
      by (rule opens_all)
    show ?thesis
      unfolding append_block.simps Let_def Publication_list_block block_node.case to_tags
      by (rule opens_rules entries | (simp add: ok_rules; fail))+
  next
    case (Index_group_block heading entries)
    with 1(6,7) show ?thesis by (auto intro!: opens_index_group [OF sv])
  qed (use 1 in \<open>simp_all add: opens_heading opens_anchor_block opens_preformatted opens_note
      opens_figure opens_footnote opens_index_group opens_menu opens_opaque\<close>)
next
  case (2 sink)
  show ?case by (simp add: opens_Nil)
next
  case (3 sink b bs)
  then show ?case by (auto intro!: opens_pieces_Cons opens_pieces_Nil)
next
  case (4 sink ordered)
  show ?case by (simp add: opens_Nil)
next
  case (5 sink ordered content origin ordinal depth empty_content children label mark items)
  let ?item = "List_item content origin ordinal depth empty_content children label mark"
  from 5(4,5) have sv: "served sink" and head: "verify_item_head ?item = None"
    and kids: "verify_blocks children = None"
    and rest: "verify_items marker (last_ordinal po ?item) (Some depth) items = None"
    by (simp_all add: Let_def)
  from 5(6) have T: "\<forall>t \<in> inlines_targets content. T t" "\<forall>t \<in> inlines_targets label. T t"
    "\<forall>t \<in> blocks_targets children. T t" "\<forall>t \<in> items_targets items. T t" by auto
  have label: "opens K b (append_list_label sink label) b" for b
    using head by (intro opens_list_label [OF sv _ T(2)]) (auto simp: verify_item_head_def)
  have body: "opens K b (append_inlines sink content) b" if "children = []" for b
    using head that by (intro opens_inlines [OF sv _ T(1)]) (auto simp: verify_item_head_def)
  have items: "opens K b (append_items sink ordered items) b" for b
    using 5(3) [OF refl sv rest T(4)] .
  have inner: "opens K (''li'' # b)
      (case children of
         [] \<Rightarrow> pieces [append_list_label sink label, append_inlines sink content]
       | c # cs \<Rightarrow>
           (case leading_paragraph label c of
              Some lead \<Rightarrow>
                pieces [Some (open_block ''p'' (html_block_class (block_node c)) (block_origin c)),
                        append_list_label sink label, append_inlines sink lead,
                        Some (close_block ''p''), append_blocks sink cs]
            | None \<Rightarrow> pieces [append_list_label sink label, append_blocks sink (c # cs)])) (''li'' # b)" for b
  proof (cases children)
    case Nil
    then show ?thesis
      using label body by (auto intro!: opens_pieces_Cons opens_pieces_Nil)
  next
    case (Cons c cs)
    show ?thesis
    proof (cases "leading_paragraph label c")
      case None
      have "opens K d (append_blocks sink (c # cs)) d" for d
        using 5(1) [OF refl Cons None sv] kids T(3) unfolding Cons .
      then show ?thesis
        using label Cons None
        by (simp del: append_blocks.simps) (auto simp del: append_blocks.simps
            intro!: opens_pieces_Cons opens_pieces_Nil)
    next
      case (Some lead)
      then obtain origin' where c: "c = Block (Paragraph_block lead) origin'"
        by (cases c) (auto simp: leading_paragraph_def split: if_splits block_node.splits)
      have "opens K d (append_inlines sink lead) d" for d
        using kids T(3) Cons c by (intro opens_inlines [OF sv, of _ False False]) simp_all
      moreover have "opens K d (append_blocks sink cs) d" for d
        using 5(2) [OF refl Cons Some sv] kids T(3) Cons by simp
      ultimately show ?thesis
        using label Some Cons unfolding to_tags
        by (auto simp: ok_rules intro!: opens_pieces_Cons opens_pieces_Nil opens_tag opens_close)
    qed
  qed
  show ?case
    unfolding append_items.simps Let_def to_tags
    by (rule opens_pieces_Cons opens_pieces_Nil opens_open_item inner [unfolded to_tags] items opens_close
        | (simp add: ok_rules; fail))+
next
  case (6 sink)
  show ?case by (simp add: opens_Nil)
next
  case (7 sink "term" body origin children empty_term entries)
  from 7(3,4) have sv: "served sink" and head: "verify_entry_head (Definition_entry term body origin children empty_term) = None"
    and kids: "verify_blocks children = None" and rest: "verify_entries entries = None"
    by (simp_all)
  from 7(5) have T: "\<forall>t \<in> inlines_targets term. T t" "\<forall>t \<in> inlines_targets body. T t"
    "\<forall>t \<in> blocks_targets children. T t" "\<forall>t \<in> entries_targets entries. T t" by auto
  have tm: "opens K b (append_inlines sink term) b" for b
    using head by (intro opens_inlines [OF sv _ T(1)]) (auto simp: verify_entry_head_def)
  have body: "opens K b (append_inlines sink body) b" if "children = []" for b
    using head that by (intro opens_inlines [OF sv _ T(2)]) (auto simp: verify_entry_head_def)
  show ?case
    unfolding append_entries.simps to_tags
    by (rule opens_rules tm body 7(1) [OF _ sv kids T(3)] 7(2) [OF sv rest T(4)] | assumption
        | (simp add: ok_rules; fail))+
next
  case (8 sink n)
  then show ?case by (simp add: opens_Nil)
next
  case (9 sink n cells origin mark rows)
  then have sv: "served sink" and cells: "verify_cells cells = None" "\<forall>t \<in> cells_targets cells. T t"
    and rows: "verify_table_rows width rows = None" "\<forall>t \<in> rows_targets rows. T t" "n - 1 \<le> length rows"
    by (auto simp: verify_row_head_def)
  show ?case
    unfolding append_header_rows.simps to_tags
    by (rule opens_pieces_Nil opens_pieces_Cons opens_if opens_open_row opens_Nil opens_close
        9(1) [OF _ sv cells, unfolded to_tags] 9(2) [OF _ sv rows] opens_tag | assumption | (simp add: ok_rules; fail))+
next
  case (10 sink n)
  show ?case by (simp add: opens_Nil)
next
  case (11 sink n cells origin mark rows)
  then have sv: "served sink" and cells: "verify_cells cells = None" "\<forall>t \<in> cells_targets cells. T t"
    and rows: "verify_table_rows width rows = None" "\<forall>t \<in> rows_targets rows. T t"
    by (auto simp: verify_row_head_def)
  show ?case
    unfolding append_body_rows.simps to_tags
    by (rule opens_pieces_Nil opens_pieces_Cons opens_if opens_open_row opens_Nil opens_close
        11(1) [OF _ sv rows] 11(2) [OF _ sv cells, unfolded to_tags] 11(3) [OF _ sv rows] opens_tag | assumption
        | (simp add: ok_rules; fail))+
next
  case (12 sink start stop)
  show ?case by (simp add: opens_Nil)
next
  case (13 sink start stop content origin children anchors cells)
  then have sv: "served sink" and kids: "verify_blocks children = None" "\<forall>t \<in> blocks_targets children. T t"
    and rest: "verify_cells cells = None" "\<forall>t \<in> cells_targets cells. T t"
    and tags: "opens K a (Some start) b'" "opens K b' (Some stop) a"
    by simp_all
  have cell: "opens K b (append_inline_cell sink content anchors) b" if "children = []" for b
    using 13 that by (intro opens_inline_cell [OF sv]) (auto simp: verify_cell_head_def)
  show ?case
    unfolding append_cells.simps
    by (rule opens_pieces_Nil opens_pieces_Cons opens_if tags cell 13(1) [OF _ sv kids]
        13(2) [OF sv rest tags] | assumption | (simp; fail))+
qed

end

subsection \<open>Documents\<close>

context link_policy
begin

lemma opens_document_blocks:
  assumes "served sink" and "list_all (\<lambda>b. verify_block False b = None) bs" and "\<forall>t \<in> blocks_targets bs. T t"
  shows "opens K a (append_lines_of_blocks sink first bs) a"
  using assms(2,3)
proof (induction bs arbitrary: first)
  case Nil
  then show ?case by (simp add: opens_Nil)
next
  case (Cons b bs)
  have "opens K a (Some (if first then [] else [CHR 0x0A])) a"
    using opens_text [of K a "[CHR 0x0A]"] by (simp add: escape_html_text_def escape_text_char_def opens_Nil)
  with Cons opens_blocks(1) [OF assms(1)] show ?case
    by (auto intro!: opens_pieces_Cons opens_pieces_Nil)
qed

lemma opens_topic_root:
  assumes "opens K [''div''] (Some inner) [''div'']"
  shows "opens K [] (Some (render_html_topic_root i destinations severity opts inner)) []"
proof -
  let ?as = "[(''class'', ''geist-topic'')] @
    (if i = [] then [] else [(''id'', html_emitted_id i opts), (''data-geist-topic'', i)]) @
    [(''data-geist-severity'', severity_name severity)]"
  let ?body = "[CHR 0x0A] @ concat (map (topic_destination i opts) destinations) @ inner"
  have feed: "opens K b (Some [CHR 0x0A]) b" for b
    using opens_text [of K b "[CHR 0x0A]"] by (simp add: escape_html_text_def escape_text_char_def)
  have destination: "opens K b (Some (topic_destination i opts d)) b" for b d
    unfolding topic_destination_tags
    by (cases "d = [] \<or> d = i") (auto simp: ok_rules opens_Nil intro!: opens_append opens_tag opens_close opens_text)
  have body: "opens K [''div''] (Some ?body) [''div'']"
    by (rule opens_append [OF feed opens_append [OF opens_concat assms]]) (rule destination)
  have end_feed: "opens K b (Some (end_line_feed x)) b" for b x
    by (simp add: end_line_feed_def feed opens_Nil)
  have "opens K [] (Some (open_tag ''div'' ?as @ (?body @ end_line_feed (open_tag ''div'' ?as @ ?body)) @
      close_tag ''div'' @ [CHR 0x0A])) []"
    by (rule opens_append [OF opens_tag opens_append [OF opens_append [OF body end_feed]
          opens_append [OF opens_close feed]]]) (simp_all add: ok_rules)
  moreover have "render_html_topic_root i destinations severity opts inner =
      open_tag ''div'' ?as @ (?body @ end_line_feed (open_tag ''div'' ?as @ ?body)) @ close_tag ''div'' @ [CHR 0x0A]"
    by (simp add: render_html_topic_root_def Let_def open_tag_def close_tag_def)
  ultimately show ?thesis by simp
qed

end

interpretation any_link: link_policy "\<lambda>_. True" "\<lambda>_. True" "\<lambda>_. True"
  by unfold_locales

text \<open>Without resolvers every destination but that of a resource reference passes the scheme check.\<close>

definition unresolved_options :: "html_render_options \<Rightarrow> bool" where
  "unresolved_options opts \<longleftrightarrow>
     resolve_topic opts = None \<and> resolve_anchor opts = None \<and> resolve_resource opts = None \<and>
     resolve_external opts = None \<and> resolve_cross_book opts = None"

definition unresolved_sink :: "html_sink \<Rightarrow> bool" where
  "unresolved_sink sink \<longleftrightarrow> unresolved_options (sink_options sink) \<and> sink_resolve sink = None"

lemma fragment_href_safe: "safe_href_scheme (CHR ''#'' # s)"
  by (simp add: safe_href_scheme_def clean_url_def char_code_def Let_def)

lemma ask_None [simp]: "ask None x = None"
  by (simp add: ask_def)

lemma or_else_simps [simp]: "or_else None x = x" "or_else (Some y) x = y"
  by (simp_all add: or_else_def)

lemma first_some_None: "(\<And>x. x \<in> set xs \<Longrightarrow> f x = None) \<Longrightarrow> first_some f xs = None"
  by (induction xs) simp_all

lemma unresolved_None:
  assumes "unresolved_options opts"
  shows "resolve_cross_reference_href t opts = None"
  using assms by (auto simp: resolve_cross_reference_href_def unresolved_options_def split: target_kind.split)

lemma fallback_safe:
  assumes "target_kind t \<noteq> Resource_target"
  shows "safe_href_scheme (href_value (cross_reference_fallback t opts))"
  using assms
  by (auto simp: cross_reference_fallback_def dead_link_def live_link_def fragment_href_safe split: target_kind.split)

interpretation book_link: link_policy unresolved_sink safe_href_scheme "\<lambda>t. target_kind t \<noteq> Resource_target"
proof unfold_locales
  fix sink i l t claims h kind
  assume sink: "unresolved_sink sink"
  then have opts: "unresolved_options (sink_options sink)" by (simp add: unresolved_sink_def)
  note simps = anchor_href_def topic_href_def external_href_def verbatim_link_href_def dead_link_def live_link_def
    fragment_href_safe
  show "safe_href_scheme (href_value (anchor_href i (sink_options sink)))"
    "safe_href_scheme (href_value (topic_href i (sink_options sink)))"
    "safe_href_scheme (href_value (verbatim_link_href l (sink_options sink)))"
    using opts by (auto simp: simps unresolved_options_def split: verbatim_link_kind.split)
  show "safe_href_scheme (href_value (or_else (resolve_cross_reference_href t (sink_options sink))
      (cross_reference_fallback t (sink_options sink))))" if "target_kind t \<noteq> Resource_target"
    using that by (simp add: unresolved_None [OF opts] fallback_safe)
  show "safe_href_scheme (href_value h)"
    if "\<forall>c \<in> set claims. target_kind (claim_target c) \<noteq> Resource_target"
      and "inline_reference sink claims = Some (h, kind)"
  proof (cases claims)
    case Nil
    with that(2) show ?thesis by (simp add: inline_reference_def)
  next
    case (Cons c cs)
    have "first_some (with_kind (ask (sink_resolve sink))) claims = None"
      "first_some (with_kind (\<lambda>t. resolve_cross_reference_href t (sink_options sink))) claims = None"
      using sink by (auto intro!: first_some_None simp: with_kind_def unresolved_None [OF opts] unresolved_sink_def)
    with that Cons show ?thesis by (auto simp: inline_reference_def fallback_safe)
  qed
qed

subsection \<open>What the renderer prints\<close>

definition well_formed_html :: "string \<Rightarrow> bool" where
  "well_formed_html s \<longleftrightarrow>
     (case html_read s of
        None \<Rightarrow> False
      | Some ts \<Rightarrow> open_elements [] ts = Some [] \<and> list_all (admits (\<lambda>_. True)) ts)"

context link_policy
begin

lemma fragment_prints:
  assumes "verify_document_ir d = None" and "served \<lparr> sink_options = opts, sink_resolve = None, generic_phrases = False \<rparr>"
    and "\<forall>t \<in> blocks_targets (document_blocks d). T t"
  shows "\<exists>s. render_document_html_fragment d opts = Inr (Some s) \<and> opens K [] (Some s) []"
proof -
  let ?sink = "\<lparr> sink_options = opts, sink_resolve = None, generic_phrases = False \<rparr>"
  have "list_all (\<lambda>b. verify_block False b = None) (document_blocks d)"
    using assms(1) by (simp add: verify_document_ir_def Let_def)
  from opens_document_blocks [OF assms(2) this assms(3)]
  have blocks: "opens K [''div''] (append_lines_of_blocks ?sink True (document_blocks d)) [''div'']" .
  then obtain inner where "append_lines_of_blocks ?sink True (document_blocks d) = Some inner"
    by (auto simp: opens_def prints_def)
  with blocks opens_topic_root [of inner] assms(1) show ?thesis
    by (simp add: render_document_html_fragment_def render_document_html_blocks_def)
qed

end

text \<open>C10: A document that passes the check is rendered without reading outside a vector, whatever the
  consumer's resolvers answer, and the result is well-formed: it reads back as tags that nest, all of
  elements and attributes of the documented scheme, with all text and values escaped. Rendering throws
  exactly when the check fails, with its message.\<close>

theorem html_fragment_well_formed:
  "case render_document_html_fragment d opts of
     Inl e \<Rightarrow> \<exists>m. verify_document_ir d = Some m \<and> e = InvalidArgument (''invalid DocumentIR: '' @ m)
   | Inr None \<Rightarrow> False
   | Inr (Some s) \<Rightarrow> verify_document_ir d = None \<and> well_formed_html s"
proof (cases "verify_document_ir d")
  case None
  from any_link.fragment_prints [OF this] obtain s where
    s: "render_document_html_fragment d opts = Inr (Some s)" "opens (\<lambda>_. True) [] (Some s) []" by auto
  from s(2) have "well_formed_html s"
    by (auto simp: opens_def prints_def well_formed_html_def dest!: reads_whole)
  with s(1) None show ?thesis by simp
next
  case (Some m)
  then show ?thesis by (simp add: render_document_html_fragment_def)
qed

text \<open>C11: Without resolvers no link of the rendered page can run a script: every \<open>href\<close> passes the check of
  its scheme, for a document that names no resource as the target of a reference.\<close>

theorem html_links_safe:
  assumes "unresolved_options opts"
    and "\<forall>t \<in> blocks_targets (document_blocks d). target_kind t \<noteq> Resource_target"
    and "render_document_html_fragment d opts = Inr (Some s)"
  shows "\<exists>ts. html_read s = Some ts \<and>
    (\<forall>n as h. Start_tag n as \<in> set ts \<and> (''href'', h) \<in> set as \<longrightarrow> safe_href_scheme h)"
proof -
  have "verify_document_ir d = None"
    using assms(3) by (simp add: render_document_html_fragment_def split: option.splits)
  from book_link.fragment_prints [OF this _ assms(2), of opts] assms(1,3)
  have "opens safe_href_scheme [] (Some s) []" by (auto simp: unresolved_sink_def)
  then obtain ts where "reads s ts" "list_all (admits safe_href_scheme) ts" by (auto simp: opens_def prints_def)
  then show ?thesis
    by (intro exI [of _ ts]) (fastforce simp: reads_whole list_all_iff admits_def ok_attributes_def dest: bspec)
qed

subsection \<open>Examples\<close>

definition example_origin :: node_origin where
  "example_origin =
     \<lparr> derivation = Synthesized, origin_slices = [], origin_rows = [], origin_detail = [], fidelity = Typed,
       degradation_code = [], degradation_detail = [] \<rparr>"

definition example_target :: "target_kind \<Rightarrow> string \<Rightarrow> cross_reference_target" where
  "example_target kind v =
     \<lparr> target_kind = kind, target_value = v, target_alternatives = [], target_document_number = [],
       target_document_level = [], target_heading_anchor = [], target_spot_anchor = [], target_book_anchor = [],
       target_url = [] \<rparr>"

definition example_reference :: "target_kind \<Rightarrow> string \<Rightarrow> inline_ir" where
  "example_reference kind v =
     Inline (Cross_reference_inline
       \<lparr> xref_targets = [\<lparr> claim_target = example_target kind v, control_origin = None \<rparr>],
         xref_label = ''see'', label_emphasis = None, label_code = False, label_phrase = No_phrase,
         label_image = None \<rparr>) example_origin"

definition example_document :: document_ir where
  "example_document =
     \<lparr> document_topic = \<lparr> topic_id = ''1.1'', topic_title = [], topic_heading_level = [], topic_number = 1,
         start_logical_record = 1, end_logical_record = 1 \<rparr>,
       document_blocks = [Block (Paragraph_block [Inline (Text_inline ''a < b'') example_origin,
         example_reference External_target ''javascript:f()'']) example_origin],
       named_destinations = [] \<rparr>"

lemma example_verified: "verify_document_ir example_document = None"
  by code_simp

lemma example_targets:
  "blocks_targets (document_blocks example_document) = {example_target External_target ''javascript:f()''}"
  by (simp add: example_document_def example_reference_def)

theorem html_links_safe_witness:
  "\<exists>s ts. render_document_html_fragment example_document no_resolvers = Inr (Some s) \<and> html_read s = Some ts \<and>
     (\<forall>n as h. Start_tag n as \<in> set ts \<and> (''href'', h) \<in> set as \<longrightarrow> safe_href_scheme h)"
proof -
  obtain s where s: "render_document_html_fragment example_document no_resolvers = Inr (Some s)"
    using any_link.fragment_prints [OF example_verified] by auto
  have "unresolved_options no_resolvers" by (simp add: unresolved_options_def no_resolvers_def)
  moreover have "\<forall>t \<in> blocks_targets (document_blocks example_document). target_kind t \<noteq> Resource_target"
    by (simp add: example_targets example_target_def)
  ultimately show ?thesis using s html_links_safe by blast
qed

text \<open>A reference to a resource is the exception: its value is published as a live link whatever its
  scheme, although the options promise the check for it.\<close>

lemma resource_link_unchecked:
  "verify_inlines [example_reference Resource_target ''javascript:f()''] False False = None \<and>
   map_option html_read
     (render_document_html_inlines [example_reference Resource_target ''javascript:f()''] no_resolvers None False) =
   Some (Some [Start_tag ''a'' [(''class'', ''geist-link geist-link--resource''), (''href'', ''javascript:f()'')],
     Character (CHR ''s''), Character (CHR ''e''), Character (CHR ''e''), End_tag ''a''])"
  by code_simp

text \<open>The text of the rendered inlines, with the tags taken out and the references resolved, is the
  text of the inlines: nothing of the book is lost, added or changed by rendering.\<close>

lemma inlines_show_their_text:
  assumes "verify_inlines is allow_empty row = None"
  shows "map_option (\<lambda>s. map_option html_text (html_read s))
    (render_document_html_inlines is opts resolver generic) = Some (Some (inlines_text is))"
proof -
  let ?sink = "\<lparr> sink_options = opts, sink_resolve = resolver, generic_phrases = generic \<rparr>"
  have "prints (\<lambda>_. True) [] (append_inlines ?sink is) [] (inlines_text is)"
    using assms by (intro any_link.prints_inlines(2) [of row]) (simp_all add: verify_inlines_def)
  then show ?thesis
    by (auto simp: render_document_html_inlines_def prints_def dest!: reads_whole)
qed

end
