(* ===== verification/Html_Seen.thy ===== *)
theory Html_Seen
  imports Html_Facts
begin

section \<open>What a rendered page shows\<close>

text \<open>
  The renderer composed with the program's own text projection. The projection goes through every fragment
  the renderer prints, whatever the resolvers answer, and on inlines it gives back their text exactly, with
  a line feed for a break and the alternative text of an image between line feeds. The projection is the
  one the program's check for lost words reads pages with.
\<close>

subsection \<open>Pieces that show a text\<close>

definition draws :: "string option \<Rightarrow> string \<Rightarrow> bool" where
  "draws m w \<longleftrightarrow> (\<exists>s. m = Some s \<and> (\<forall>rest st. visible_loop (s @ rest) st = visible_loop rest (emit w st)))"

lemma emit_append: "emit v (emit u st) = emit (u @ v) st" "emit [] st = st"
  by (simp_all add: emit_def)

lemma draws_Nil: "draws (Some []) []"
  by (simp add: draws_def emit_append)

lemma draws_append: "draws (Some s) w \<Longrightarrow> draws (Some t) v \<Longrightarrow> draws (Some (s @ t)) (w @ v)"
  by (simp add: draws_def emit_append)

lemma draws_pieces_Nil: "draws (pieces []) []"
  by (simp add: pieces.simps draws_Nil)

lemma draws_pieces_Cons: "draws m w \<Longrightarrow> draws (pieces ms) v \<Longrightarrow> draws (pieces (m # ms)) (w @ v)"
  by (auto simp: draws_def pieces.simps emit_append)

lemma draws_text: "draws (Some (escape_html_text s)) s"
proof -
  have "visible_tokens (map Character s) st = Inr (emit s st)" for st
    by (induction s arbitrary: st) (simp_all add: emit_append)
  with shows_text [of s] show ?thesis by (simp add: draws_def shows_as_def)
qed

text \<open>The elements of running text: no boundary, nothing shown for the element itself.\<close>

definition inline_element :: "string \<Rightarrow> bool" where
  "inline_element n \<longleftrightarrow> n \<in> set [''a'', ''cite'', ''code'', ''dfn'', ''em'', ''kbd'', ''samp'', ''span'', ''strong'', ''u'', ''var'']"

lemma inline_element_facts:
  assumes "inline_element n"
  shows "n \<in> set known_elements" "\<not> boundary n" "\<not> empty_element n" "n \<noteq> ''img''"
    "show_list closing n as st = Inr st"
proof -
  have "list_all (\<lambda>n. n \<in> set known_elements \<and> \<not> boundary n \<and> \<not> empty_element n \<and> n \<noteq> ''img'' \<and> n \<noteq> ''ol'' \<and>
      n \<noteq> ''ul'' \<and> n \<noteq> ''li'') [''a'', ''cite'', ''code'', ''dfn'', ''em'', ''kbd'', ''samp'', ''span'', ''strong'', ''u'', ''var'']"
    by code_simp
  with assms show "n \<in> set known_elements" "\<not> boundary n" "\<not> empty_element n" "n \<noteq> ''img''"
    "show_list closing n as st = Inr st"
    by (auto simp: inline_element_def list_all_iff show_list_def split: list.split)
qed

lemma show_image_other: "n \<noteq> ''img'' \<Longrightarrow> show_image closing n as st = st"
  by (simp add: show_image_def split: option.split)

lemma show_list_other: "n \<noteq> ''ol'' \<Longrightarrow> n \<noteq> ''ul'' \<Longrightarrow> n \<noteq> ''li'' \<Longrightarrow> show_list closing n as st = Inr st"
  by (simp add: show_list_def split: list.split)

lemma draws_element:
  assumes "inline_element n" and "ok_attributes (\<lambda>_. True) n as" and "draws (pieces ms) w"
  shows "draws (pieces (Some (open_tag n as) # ms @ [Some (close_tag n)])) w"
proof -
  note facts = inline_element_facts [OF assms(1)]
  obtain s where s: "pieces ms = Some s" "\<And>rest st. visible_loop (s @ rest) st = visible_loop rest (emit w st)"
    using assms(3) by (auto simp: draws_def)
  have "pieces (ms @ [Some (close_tag n)]) = Some (s @ close_tag n)" using s(1)
    by (induction ms arbitrary: s) (auto simp: pieces.simps split: option.splits)
  moreover have "visible_loop (open_tag n as @ rest) st = visible_loop rest (st\<lparr>visible_elements := n # visible_elements st\<rparr>)"
    for rest st
    using shows_open_tag [OF facts(1) assms(2)] facts(2-4)
    by (simp add: shows_as_def visible_tag_def nest_def show_image_other facts(5))
  moreover have "visible_loop (close_tag n @ rest) st = visible_loop rest (st\<lparr>visible_elements := tl (visible_elements st)\<rparr>)"
    if "visible_elements st = n # e" for rest st e
    using shows_close_tag [OF facts(1)] facts(2-4) that
    by (simp add: shows_as_def visible_tag_def nest_def show_image_other facts(5))
  ultimately show ?thesis using s(2) by (simp add: draws_def pieces.simps emit_def)
qed

lemma draws_around:
  assumes "inline_element n" and "ok_attributes (\<lambda>_. True) n as" and "draws (Some s) w"
  shows "draws (Some (open_tag n as @ s @ close_tag n)) w"
  using draws_element [OF assms(1,2), of "[Some s]" w] assms(3) by (simp add: pieces.simps)

definition image_seen :: "string \<Rightarrow> string" where
  "image_seen alt = [CHR 0x0A] @ map seen alt @ [CHR 0x0A]"

lemma draws_break: "draws (Some (open_tag ''br'' [])) [CHR 0x0A]"
  using shows_open_tag [of "''br''" "\<lambda>_. True" "[]"]
  by (simp add: known_defs shows_as_def draws_def visible_tag_def nest_def empty_element_def boundary_def
      show_image_other show_list_other)

lemma draws_image:
  assumes "ok_attributes (\<lambda>_. True) ''img'' as" and "map_of as ''alt'' = Some alt"
  shows "draws (Some (open_tag ''img'' as)) (image_seen alt)"
proof -
  have "map_of (map (\<lambda>(a, v). (a, map seen v)) as) ''alt'' = Some (map seen alt)"
    using assms(2) by (induction as) (auto split: if_splits)
  then show ?thesis
    using shows_open_tag [OF _ assms(1)]
    by (simp add: known_defs shows_as_def draws_def visible_tag_def nest_def empty_element_def boundary_def
        show_image_def show_list_other image_seen_def emit_append)
qed

subsection \<open>Inlines\<close>

fun inline_seen :: "inline_ir \<Rightarrow> string"
  and inlines_seen :: "inlines \<Rightarrow> string" where
  "inline_seen (Inline node origin) =
     (case node of
        Text_inline s \<Rightarrow> s
      | Emphasis_inline s kind phrase \<Rightarrow> s
      | Underline_inline s \<Rightarrow> s
      | Code_inline s phrase \<Rightarrow> s
      | Cross_reference_inline r \<Rightarrow>
          (case label_image r of None \<Rightarrow> [] | Some pic \<Rightarrow> image_seen (image_alt_text pic)) @ label_text r
      | Image_inline pic \<Rightarrow>
          image_seen (if image_description pic = [] then image_alt_text pic else image_description pic) @
          blank_image_cells pic
      | Hard_break_inline \<Rightarrow> [CHR 0x0A]
      | Opaque_inline kind content \<Rightarrow> content
      | Revised_inline mark children \<Rightarrow> inlines_seen children)"
| "inlines_seen [] = []"
| "inlines_seen (i # is) = inline_seen i @ inlines_seen is"

lemma draws_tagged_text:
  assumes "inline_element n" and "ok_attributes (\<lambda>_. True) n as"
  shows "draws (Some (open_tag n as @ escape_html_text s @ close_tag n)) s"
  using draws_around [OF assms draws_text] .

lemma draws_code: "draws (Some (append_code sink s phrase)) s"
  unfolding append_code_def html_literals
  by (cases "sink_phrase sink phrase") (simp_all add: draws_tagged_text inline_element_def)

lemma draws_emphasis: "draws (Some (append_emphasis sink s kind phrase)) s"
proof (cases kind)
  case Strong_emphasis
  have "draws (Some (open_tag ''em'' [] @ escape_html_text s @ close_tag ''em'')) s"
    by (simp add: draws_tagged_text inline_element_def)
  then have "draws (Some (open_tag ''strong'' [(''class'', ''geist-strong-emphasis'')] @
      (open_tag ''em'' [] @ escape_html_text s @ close_tag ''em'') @ close_tag ''strong'')) s"
    by (rule draws_around [rotated -1]) (simp_all add: inline_element_def)
  then show ?thesis by (simp add: append_emphasis_def html_literals Strong_emphasis)
qed (simp_all add: append_emphasis_def html_literals draws_tagged_text inline_element_def)

lemma draws_label_image: "draws (Some (append_label_image sink pic)) (image_seen (image_alt_text pic))"
  unfolding append_label_image_tags Let_def by (rule draws_image) (simp_all add: ok_size)

lemma draws_append_image:
  "draws (Some (append_image sink pic))
    (image_seen (if image_description pic = [] then image_alt_text pic else image_description pic) @
     blank_image_cells pic)"
  unfolding append_image_tags Let_def
  by (rule draws_append [OF draws_image draws_text]) (simp_all add: ok_size)

lemma draws_cross_reference:
  "draws (Some (append_cross_reference sink r href kind))
    ((case label_image r of None \<Rightarrow> [] | Some pic \<Rightarrow> image_seen (image_alt_text pic)) @ label_text r)"
proof -
  let ?pic = "case label_image r of None \<Rightarrow> [] | Some pic \<Rightarrow> append_label_image sink pic"
  let ?label = "if label_code r then append_code sink (label_text r) (label_phrase r)
      else case label_emphasis r of
             None \<Rightarrow> escape_html_text (label_text r)
           | Some emphasis \<Rightarrow> append_emphasis sink (label_text r) emphasis (label_phrase r)"
  have "draws (Some ?pic) (case label_image r of None \<Rightarrow> [] | Some pic \<Rightarrow> image_seen (image_alt_text pic))"
    by (simp add: draws_Nil draws_label_image split: option.split)
  moreover have "draws (Some ?label) (label_text r)"
    by (simp add: draws_code draws_emphasis draws_text split: option.split)
  ultimately have "draws (Some (?pic @ ?label))
      ((case label_image r of None \<Rightarrow> [] | Some pic \<Rightarrow> image_seen (image_alt_text pic)) @ label_text r)"
    by (rule draws_append)
  from draws_around [OF _ _ this, of "''a''"] show ?thesis
    unfolding append_cross_reference_tags by (simp add: inline_element_def)
qed

lemma draws_inlines:
  "verify_inline row i = None \<Longrightarrow> draws (append_inline sink i) (inline_seen i)"
  "verify_inline_list row xs = None \<Longrightarrow> draws (append_inlines sink xs) (inlines_seen xs)"
proof (induction sink i and sink xs rule: append_inline_append_inlines.induct)
  case (1 sink node origin)
  show ?case
  proof (cases node)
    case (Cross_reference_inline r)
    then have "xref_targets r \<noteq> []"
      using 1(2) by (auto simp: canonical_inline_def dest: verified_reference)
    then obtain h kind where h: "inline_reference sink (xref_targets r) = Some (h, kind)"
      using inline_reference_there by blast
    with Cross_reference_inline show ?thesis by (simp add: draws_cross_reference)
  next
    case (Revised_inline mark children)
    let ?open = "open_tag ''span'' [(''class'', ''geist-revised''),
      (''data-geist-revision-mark'', revision_mark_text mark)]"
    have "draws (append_inlines sink children) (inlines_seen children)" using 1 Revised_inline by simp
    then have "draws (pieces [append_inlines sink children]) (inlines_seen children)"
      using draws_pieces_Cons [OF _ draws_pieces_Nil] by fastforce
    from draws_element [OF _ _ this, of "''span''"]
    have "draws (pieces [Some ?open, append_inlines sink children, Some (close_tag ''span'')]) (inlines_seen children)"
      by (simp add: inline_element_def)
    with Revised_inline show ?thesis
      by (simp only: append_inline.simps inline_node.case revised_tags html_literals inline_seen.simps)
  qed (use 1 in \<open>simp_all add: draws_text draws_emphasis draws_code draws_append_image draws_break
      html_literals start_literals draws_tagged_text inline_element_def del: pieces.simps\<close>)
next
  case (2 sink)
  then show ?case by (simp add: draws_Nil)
next
  case (3 sink i xs)
  then have "draws (append_inline sink i) (inline_seen i)" "draws (append_inlines sink xs) (inlines_seen xs)"
    by simp_all
  from draws_pieces_Cons [OF this(1) draws_pieces_Cons [OF this(2) draws_pieces_Nil]] show ?case by simp
qed

subsection \<open>The composition\<close>

text \<open>C12: The text projection never throws on a page the renderer prints: every tag, attribute, entity and list
  type of a rendered document is one it supports, and all elements are closed.\<close>

theorem rendered_page_is_readable:
  "case render_document_html_fragment d opts of
     Inr (Some html) \<Rightarrow> \<exists>shown. html_visible_text html = Inr shown
   | Inr None \<Rightarrow> False
   | Inl e \<Rightarrow> verify_document_ir d \<noteq> None"
proof (cases "verify_document_ir d")
  case None
  from any_link.fragment_prints [OF this] obtain s where
    s: "render_document_html_fragment d opts = Inr (Some s)" "opens (\<lambda>_. True) [] (Some s) []" by auto
  let ?start = "\<lparr> visible_out = [], visible_lists = [], visible_elements = [] \<rparr>"
  obtain ts where ts: "shows_as s ts" "open_elements [] ts = Some []" "list_all (admits (\<lambda>_. True)) ts"
    using s(2) by (auto simp: opens_def prints_def)
  then obtain st where st: "visible_tokens ts ?start = Inr st" "visible_elements st = []"
    using visible_tokens_admitted [of "\<lambda>_. True" ts ?start "[]"] by auto
  have "html_visible_text s = visible_loop (s @ []) ?start" by (simp add: html_visible_text_def)
  also have "\<dots> = Inr (visible_out st)"
    using ts(1) st by (simp add: shows_as_def del: append_Nil2)
  finally show ?thesis using s(1) by simp
next
  case (Some m)
  then show ?thesis by (simp add: render_document_html_fragment_def)
qed

text \<open>C13: The text projection of rendered inlines is the text of the inlines: nothing of the book is lost,
  added, or glued to its neighbour by rendering.\<close>

theorem inlines_seen_exactly:
  assumes "verify_inlines is allow_empty row = None"
  shows "map_option html_visible_text (render_document_html_inlines is opts resolver generic) =
    Some (Inr (inlines_seen is))"
proof -
  let ?sink = "\<lparr> sink_options = opts, sink_resolve = resolver, generic_phrases = generic \<rparr>"
  let ?start = "\<lparr> visible_out = [], visible_lists = [], visible_elements = [] \<rparr>"
  have "draws (append_inlines ?sink is) (inlines_seen is)"
    using assms by (intro draws_inlines(2) [of row]) (simp_all add: verify_inlines_def)
  then obtain s where s: "append_inlines ?sink is = Some s"
    "visible_loop (s @ []) ?start = visible_loop [] (emit (inlines_seen is) ?start)"
    by (auto simp: draws_def simp del: append_Nil2)
  from s(2) have "html_visible_text s = Inr (inlines_seen is)"
    by (simp add: html_visible_text_def emit_def)
  with s(1) show ?thesis by (simp add: render_document_html_inlines_def)
qed

theorem inlines_seen_exactly_witness:
  "let xs = [Inline (Text_inline ''a < b '') example_origin, Inline Hard_break_inline example_origin,
       example_reference External_target ''javascript:f()'']
   in verify_inlines xs False False = None \<and>
      map_option html_visible_text (render_document_html_inlines xs no_resolvers None False) =
        Some (Inr (''a < b '' @ CHR 0x0A # ''see''))"
proof -
  let ?xs = "[Inline (Text_inline ''a < b '') example_origin, Inline Hard_break_inline example_origin,
    example_reference External_target ''javascript:f()'']"
  have v: "verify_inlines ?xs False False = None" by code_simp
  moreover have "inlines_seen ?xs = ''a < b '' @ CHR 0x0A # ''see''"
    by (simp add: example_reference_def label_text_def)
  ultimately show ?thesis using inlines_seen_exactly [OF v, of no_resolvers None False] by simp
qed

end
