(* ===== verification/Row_Revisions.thy ===== *)
theory Row_Revisions
  imports Sources Document_Verify
begin

section \<open>Revision marks of body rows (\<open>src/lowering/revision_mark_lowering.cpp\<close>)\<close>

text \<open>
  The pass that wraps the inlines of a document in the revision marks their source rows store. The reader's
  table of body rows is a memo of \<open>body_row\<close>, keyed by record and line, and is not a part of the model; the map
  of records keeps the first source of a number, which \<open>find\<close> returns.
\<close>

subsection \<open>What the rows under an inline say\<close>

record row_marks =
  marks_drawn :: bool
  marks_unrevised :: bool
  marks_undecided :: bool
  marks_mark :: "u32 option"
  marks_mixed :: bool

definition no_marks :: row_marks where
  "no_marks =
     \<lparr> marks_drawn = False, marks_unrevised = False, marks_undecided = False, marks_mark = None, marks_mixed = False \<rparr>"

definition body_row :: "decoded_logical_record_source \<Rightarrow> display_line_ir \<Rightarrow> bool" where
  "body_row r line \<longleftrightarrow> display_line_cells r line \<noteq> [] \<and> cell_word (hd (display_line_cells r line)) = 0x20"

definition read_token_mark :: "decoded_logical_record_source \<Rightarrow> row_marks \<Rightarrow> nat \<Rightarrow> row_marks" where
  "read_token_mark r marks token =
     (if \<not> list_ex (\<lambda>word. word > 0x20) (decoded_words (tokens (source_ir r) ! token)) then marks
      else case display_line_of_token (source_ir r) token of
        None \<Rightarrow> marks\<lparr>marks_undecided := True\<rparr>
      | Some line \<Rightarrow>
          if token = prefix_token line then marks
          else if \<not> body_row r line then marks
          else if margin_mark_place line = Row_margin \<and> margin_mark line \<noteq> None then
            (if margin_mark_token line = Some token then marks
             else marks\<lparr> marks_drawn := True,
                         marks_mixed := marks_mixed marks \<or>
                           (marks_mark marks \<noteq> None \<and> marks_mark marks \<noteq> margin_mark line),
                         marks_mark := margin_mark line \<rparr>)
          else marks\<lparr>marks_drawn := True, marks_unrevised := True\<rparr>)"

definition read_slice_marks ::
  "decoded_logical_record_source list \<Rightarrow> row_marks \<Rightarrow> source_slice \<Rightarrow> row_marks" where
  "read_slice_marks sources marks s =
     (case find (\<lambda>r. source_record r = unat (slice_logical_record s)) sources of
        None \<Rightarrow> marks\<lparr>marks_undecided := True\<rparr>
      | Some r \<Rightarrow>
          foldl (read_token_mark r) marks
            [unat (token_begin s)..<min (unat (slice_token_end s)) (length (tokens (source_ir r)))])"

text \<open>The one mark of all drawn tokens of an origin, 0 when none of their rows is revised, and nothing when no
  token is drawn or the rows disagree.\<close>

definition mark_of :: "decoded_logical_record_source list \<Rightarrow> node_origin \<Rightarrow> u32 option" where
  "mark_of sources origin =
     (let marks = foldl (read_slice_marks sources) no_marks (origin_slices origin) in
      if \<not> marks_drawn marks \<or> marks_undecided marks \<or> marks_mixed marks then None
      else if marks_mark marks \<noteq> None \<and> marks_unrevised marks then None
      else Some (case marks_mark marks of Some m \<Rightarrow> m | None \<Rightarrow> 0))"

subsection \<open>Runs\<close>

text \<open>Sorting is by the keys; what \<open>std::unique\<close> compares by its key is equal, as the character range is cleared.\<close>

definition run_origin :: "inlines \<Rightarrow> node_origin" where
  "run_origin children =
     \<lparr> derivation = Semantic_lowering,
       origin_slices = remdups_adj (sort_key slice_key
         (map (\<lambda>s. s\<lparr>character_begin := 0, character_end := 0\<rparr>)
            (concat (map (origin_slices \<circ> inline_origin) children)))),
       origin_rows = remdups_adj (sort_key row_key (concat (map (origin_rows \<circ> inline_origin) children))),
       origin_detail = ''revised rows'', fidelity = Typed, degradation_code = [], degradation_detail = [] \<rparr>"

text \<open>An inline that decides nothing takes the mark of the runs on both sides when they agree.\<close>

definition settled_mark :: "u32 option list \<Rightarrow> nat \<Rightarrow> u32" where
  "settled_mark decided index =
     (case decided ! index of
        Some m \<Rightarrow> m
      | None \<Rightarrow>
          (case (find (\<lambda>d. d \<noteq> None) (rev (take index decided)), find (\<lambda>d. d \<noteq> None) (drop (index + 1) decided)) of
             (Some (Some before), Some (Some behind)) \<Rightarrow> if before = behind then before else 0
           | _ \<Rightarrow> 0))"

function rebuild_runs :: "(u32 \<times> inline_ir) list \<Rightarrow> inlines" where
  "rebuild_runs [] = []"
| "rebuild_runs ((m, i) # rest) =
     (if m = 0 then i # rebuild_runs rest
      else let run = i # map snd (takeWhile (\<lambda>x. fst x = m) rest) in
           Inline (Revised_inline m run) (run_origin run) # rebuild_runs (dropWhile (\<lambda>x. fst x = m) rest))"
  by pat_completeness auto
termination
  by (relation "measure length") (auto simp: length_dropWhile_le less_Suc_eq_le)

definition carry_sequence :: "decoded_logical_record_source list \<Rightarrow> inlines \<Rightarrow> inlines" where
  "carry_sequence sources content =
     (if content = [] \<or> list_ex is_revised content then content
      else let decided = map (\<lambda>i. mark_of sources (inline_origin i)) content;
               marks = map (settled_mark decided) [0..<length content] in
           if list_all (\<lambda>m. m = 0) marks then content else rebuild_runs (zip marks content))"

subsection \<open>Blocks\<close>

text \<open>A list item whose whole content is one run carries the mark itself.\<close>

definition carry_item_content ::
  "decoded_logical_record_source list \<Rightarrow> inlines \<Rightarrow> inlines \<Rightarrow> u32 option \<Rightarrow> inlines \<times> u32 option" where
  "carry_item_content sources content label mark =
     (if content \<noteq> [] \<and> mark = None then
        (let content' = carry_sequence sources content in
         case content' of
           [Inline (Revised_inline m children) origin] \<Rightarrow>
             if label = [] then (children, Some m) else (content', None)
         | _ \<Rightarrow> (content', None))
      else (content, mark))"

fun carry_blocks :: "decoded_logical_record_source list \<Rightarrow> block_ir list \<Rightarrow> block_ir list"
  and carry_items :: "decoded_logical_record_source list \<Rightarrow> list_item list \<Rightarrow> list_item list"
  and carry_entries :: "decoded_logical_record_source list \<Rightarrow> definition_entry list \<Rightarrow> definition_entry list" where
  "carry_blocks sources [] = []"
| "carry_blocks sources (Block node origin # bs) =
     Block
       (case node of
          Paragraph_block content \<Rightarrow> Paragraph_block (carry_sequence sources content)
        | List_block ordered items marker \<Rightarrow> List_block ordered (carry_items sources items) marker
        | Definition_list_block entries \<Rightarrow> Definition_list_block (carry_entries sources entries)
        | Note_block label content \<Rightarrow> Note_block label (carry_sequence sources content)
        | Publication_list_block entries \<Rightarrow>
            Publication_list_block
              (map (\<lambda>e. e\<lparr> publication_title := carry_sequence sources (publication_title e),
                           publication_paragraphs := map (carry_sequence sources) (publication_paragraphs e) \<rparr>) entries)
        | Footnote_block i content \<Rightarrow> Footnote_block i (carry_sequence sources content)
        | Figure_block figure \<Rightarrow>
            Figure_block (figure\<lparr>figure_caption := carry_sequence sources (figure_caption figure)\<rparr>)
        | _ \<Rightarrow> node) origin # carry_blocks sources bs"
| "carry_items sources [] = []"
| "carry_items sources (List_item content origin ordinal depth empty_content children label mark # items) =
     (let (content', mark') = carry_item_content sources content label mark in
      List_item content' origin ordinal depth empty_content (carry_blocks sources children) label mark' #
        carry_items sources items)"
| "carry_entries sources [] = []"
| "carry_entries sources (Definition_entry term body origin children empty_term # entries) =
     Definition_entry (carry_sequence sources term) (carry_sequence sources body) origin
       (carry_blocks sources children) empty_term # carry_entries sources entries"

definition carry_row_revision_marks ::
  "document_ir \<Rightarrow> decoded_logical_record_source list \<Rightarrow> document_ir" where
  "carry_row_revision_marks document sources =
     document\<lparr>document_blocks := carry_blocks sources (document_blocks document)\<rparr>"

definition carry_caption :: "decoded_logical_record_source list \<Rightarrow> block_ir \<Rightarrow> block_ir" where
  "carry_caption sources b =
     (case block_node b of
        Figure_block figure \<Rightarrow>
          Block (Figure_block (figure\<lparr>figure_caption := carry_sequence sources (figure_caption figure)\<rparr>)) (block_origin b)
      | Paragraph_block content \<Rightarrow>
          if origin_detail (block_origin b) \<in>
               {''figure caption'', ''ordered figure caption'', ''fixed table caption''}
          then Block (Paragraph_block (carry_sequence sources content)) (block_origin b) else b
      | _ \<Rightarrow> b)"

definition carry_caption_revision_marks ::
  "document_ir \<Rightarrow> decoded_logical_record_source list \<Rightarrow> document_ir" where
  "carry_caption_revision_marks document sources =
     document\<lparr>document_blocks := map (carry_caption sources) (document_blocks document)\<rparr>"

subsection \<open>Origins of runs\<close>

lemma strict_remdups_adj:
  assumes "sorted (map f xs)" and "inj_on f (set xs)"
  shows "sorted_wrt (\<lambda>x y. f x < f y) (remdups_adj xs)"
  using assms
proof (induction xs rule: remdups_adj.induct)
  case (3 x y xs)
  show ?case
  proof (cases "x = y")
    case True
    with 3 show ?thesis by simp
  next
    case False
    with 3(3,4) have "\<forall>z \<in> set (y # xs). f x < f z"
      by (auto simp: order_le_less inj_on_def)
    moreover have "sorted_wrt (\<lambda>x y. f x < f y) (remdups_adj (y # xs))"
      using 3 False by (intro 3(2)) (auto simp: inj_on_def)
    ultimately show ?thesis using False by simp
  qed
qed simp_all

definition slice_valid :: "source_slice \<Rightarrow> bool" where
  "slice_valid s \<longleftrightarrow> slice_logical_record s \<noteq> 0 \<and> token_begin s \<le> slice_token_end s \<and> byte_begin s \<le> byte_end s"

lemma verify_slices_iff:
  "verify_slices (Some p) ss = None \<longleftrightarrow> list_all slice_valid ss \<and> sorted_wrt (\<lambda>a b. slice_key a < slice_key b) (p # ss)"
proof (induction ss arbitrary: p)
  case Nil
  then show ?case by simp
next
  case (Cons s ss)
  have "(\<forall>x \<in> set ss. slice_key p < slice_key x)"
    if "slice_key p < slice_key s" "\<forall>x \<in> set ss. slice_key s < slice_key x"
    using that less_trans by blast
  then show ?case using Cons by (auto simp: slice_valid_def)
qed

lemma verify_slices_None_iff:
  "verify_slices None ss = None \<longleftrightarrow> list_all slice_valid ss \<and> sorted_wrt (\<lambda>a b. slice_key a < slice_key b) ss"
  by (cases ss) (auto simp: verify_slices_iff slice_valid_def)

lemma verify_rows_iff:
  "verify_rows (Some p) rs = None \<longleftrightarrow>
     list_all (\<lambda>r. display_run r \<noteq> 0) rs \<and> sorted_wrt (\<lambda>a b. row_key a < row_key b) (p # rs)"
proof (induction rs arbitrary: p)
  case Nil
  then show ?case by simp
next
  case (Cons r rs)
  have "(\<forall>x \<in> set rs. row_key p < row_key x)"
    if "row_key p < row_key r" "\<forall>x \<in> set rs. row_key r < row_key x"
    using that less_trans by blast
  then show ?case using Cons by auto
qed

lemma verify_rows_None_iff:
  "verify_rows None rs = None \<longleftrightarrow>
     list_all (\<lambda>r. display_run r \<noteq> 0) rs \<and> sorted_wrt (\<lambda>a b. row_key a < row_key b) rs"
  by (cases rs) (auto simp: verify_rows_iff)

lemma run_origin_verifies:
  assumes "\<forall>i \<in> set children. verify_origin (inline_origin i) = None"
  shows "verify_origin (run_origin children) = None"
proof -
  let ?clear = "\<lambda>s :: source_slice. s\<lparr>character_begin := 0, character_end := 0\<rparr>"
  let ?slices = "map ?clear (concat (map (origin_slices \<circ> inline_origin) children))"
  let ?rows = "concat (map (origin_rows \<circ> inline_origin) children)"
  have inner: "list_all slice_valid (origin_slices (inline_origin i))"
    "list_all (\<lambda>r. display_run r \<noteq> 0) (origin_rows (inline_origin i))" if "i \<in> set children" for i
    using assms that by (auto simp: verify_origin_def verify_slices_None_iff verify_rows_None_iff)
  have "inj_on slice_key (set ?slices)"
    by (rule inj_onI) (auto simp: slice_key_def)
  then have "sorted_wrt (\<lambda>a b. slice_key a < slice_key b) (remdups_adj (sort_key slice_key ?slices))"
    by (intro strict_remdups_adj) simp_all
  moreover have "list_all slice_valid (remdups_adj (sort_key slice_key ?slices))"
    using inner(1) by (auto simp: list_all_iff slice_valid_def)
  moreover have "inj_on row_key (set ?rows)"
    by (rule inj_onI) (simp add: row_key_def)
  then have "sorted_wrt (\<lambda>a b. row_key a < row_key b) (remdups_adj (sort_key row_key ?rows))"
    by (intro strict_remdups_adj) simp_all
  moreover have "list_all (\<lambda>r. display_run r \<noteq> 0) (remdups_adj (sort_key row_key ?rows))"
    using inner(2) by (auto simp: list_all_iff)
  ultimately show ?thesis
    by (simp add: verify_origin_def run_origin_def verify_slices_None_iff verify_rows_None_iff)
qed

subsection \<open>Marks\<close>

text \<open>Sources whose row marks are glyphs a page can draw.\<close>

definition marks_drawable :: "decoded_logical_record_source list \<Rightarrow> bool" where
  "marks_drawable sources \<longleftrightarrow>
     (\<forall>r \<in> set sources. \<forall>line \<in> set (display_lines (source_ir r)).
        margin_mark_place line = Row_margin \<longrightarrow> drawn_mark (margin_mark line))"

lemma read_token_mark_valid:
  assumes "marks_drawable sources" and "r \<in> set sources" and "drawn_mark (marks_mark marks)"
  shows "drawn_mark (marks_mark (read_token_mark r marks token))"
proof -
  have "drawn_mark (margin_mark line)"
    if "display_line_of_token (source_ir r) token = Some line" "margin_mark_place line = Row_margin" for line
    using assms(1,2) that by (auto simp: marks_drawable_def display_line_of_token_def find_Some_iff split: if_splits)
  with assms(3) show ?thesis by (auto simp: read_token_mark_def split: option.split)
qed

lemma foldl_invariant: "P m \<Longrightarrow> (\<And>m x. x \<in> set xs \<Longrightarrow> P m \<Longrightarrow> P (f m x)) \<Longrightarrow> P (foldl f m xs)"
  by (induction xs arbitrary: m) auto

lemma mark_of_valid:
  assumes "marks_drawable sources" and "mark_of sources origin = Some m"
  shows "m = 0 \<or> valid_revision_mark m"
proof -
  have "drawn_mark (marks_mark (read_slice_marks sources marks s))" if "drawn_mark (marks_mark marks)" for marks s
  proof (cases "find (\<lambda>r. source_record r = unat (slice_logical_record s)) sources")
    case None
    with that show ?thesis by (simp add: read_slice_marks_def)
  next
    case (Some r)
    then have "r \<in> set sources" by (auto simp: find_Some_iff)
    with that Some show ?thesis
      by (auto simp: read_slice_marks_def intro!: foldl_invariant [where P = "\<lambda>m. drawn_mark (marks_mark m)"]
          read_token_mark_valid [OF assms(1)])
  qed
  then have "drawn_mark (marks_mark (foldl (read_slice_marks sources) no_marks (origin_slices origin)))"
    by (intro foldl_invariant [where P = "\<lambda>m. drawn_mark (marks_mark m)"]) (simp_all add: no_marks_def drawn_mark_def)
  with assms(2) show ?thesis
    by (auto simp: mark_of_def Let_def drawn_mark_def split: if_splits option.splits)
qed

lemma settled_mark_valid:
  assumes "\<forall>m. Some m \<in> set decided \<longrightarrow> m = 0 \<or> valid_revision_mark m" and "index < length decided"
  shows "settled_mark decided index = 0 \<or> valid_revision_mark (settled_mark decided index)"
proof -
  have "Some m \<in> set decided" if "find (\<lambda>d. d \<noteq> None) (rev (take index decided)) = Some (Some m)" for m
  proof -
    have "Some m \<in> set (rev (take index decided))" using that find_Some_iff nth_mem by metis
    then show ?thesis by (auto dest: in_set_takeD)
  qed
  moreover have "Some m \<in> set decided" if "decided ! index = Some m" for m
    using that assms(2) nth_mem by metis
  ultimately show ?thesis
    using assms(1) by (auto simp: settled_mark_def split: option.split)
qed

subsection \<open>Runs keep their inlines\<close>

lemma verify_inline_list_iff: "verify_inline_list row xs = None \<longleftrightarrow> list_all (\<lambda>i. verify_inline row i = None) xs"
  by (induction xs) simp_all

lemma verify_inlines_iff:
  "verify_inlines xs allow_empty row = None \<longleftrightarrow>
     (allow_empty \<or> xs \<noteq> []) \<and> list_all (\<lambda>i. verify_inline row i = None) xs"
  by (simp add: verify_inlines_def verify_inline_list_iff)

lemma verified_inline_origin: "verify_inline row i = None \<Longrightarrow> verify_origin (inline_origin i) = None"
  by (cases i) simp

text \<open>A run of a sequence: a property of its inlines, and of whatever wraps some of them under a mark.\<close>

lemma rebuild_runs_all:
  assumes "\<And>i. i \<in> snd ` set ps \<Longrightarrow> P i"
    and "\<And>m run. m \<in> fst ` set ps \<Longrightarrow> m \<noteq> 0 \<Longrightarrow> run \<noteq> [] \<Longrightarrow> set run \<subseteq> snd ` set ps \<Longrightarrow>
      P (Inline (Revised_inline m run) (run_origin run))"
  shows "list_all P (rebuild_runs ps)"
  using assms
proof (induction ps rule: rebuild_runs.induct)
  case 1
  then show ?case by simp
next
  case (2 m i rest)
  show ?case
  proof (cases "m = 0")
    case True
    have "list_all P (rebuild_runs rest)"
    proof (rule 2(1) [OF True])
      show "P j" if "j \<in> snd ` set rest" for j using 2(3) that by simp
      show "P (Inline (Revised_inline n run) (run_origin run))"
        if "n \<in> fst ` set rest" "n \<noteq> 0" "run \<noteq> []" "set run \<subseteq> snd ` set rest" for n run
        using 2(4) [of n run] that by auto
    qed
    with True 2(3) show ?thesis by simp
  next
    case False
    let ?run = "i # map snd (takeWhile (\<lambda>x. fst x = m) rest)"
    have "P (Inline (Revised_inline m ?run) (run_origin ?run))"
      using False by (intro 2(4)) (auto dest: set_takeWhileD)
    moreover have "list_all P (rebuild_runs (dropWhile (\<lambda>x. fst x = m) rest))"
    proof (rule 2(2) [OF False refl])
      let ?rest = "dropWhile (\<lambda>x. fst x = m) rest"
      have sub: "set ?rest \<subseteq> set rest" using set_dropWhileD by fast
      show "P j" if "j \<in> snd ` set ?rest" for j using 2(3) that sub by auto
      show "P (Inline (Revised_inline n run) (run_origin run))"
        if "n \<in> fst ` set ?rest" "n \<noteq> 0" "run \<noteq> []" "set run \<subseteq> snd ` set ?rest" for n run
        using 2(4) [of n run] that sub image_mono [OF sub, of fst] image_mono [OF sub, of snd] by auto
    qed
    ultimately show ?thesis using False by (simp add: Let_def)
  qed
qed

lemma unrevised_children: "\<not> is_revised i \<Longrightarrow> revised_children i = [i]"
  by (simp add: revised_children_def is_revised_def split: inline_node.splits)

lemma unrevised_flat: "\<not> list_ex is_revised xs \<Longrightarrow> flatten_revised_inlines xs = xs"
  by (induction xs) (simp_all add: flatten_revised_inlines_def unrevised_children)

lemma rebuild_runs_flatten:
  assumes "\<not> list_ex is_revised (map snd ps)"
  shows "flatten_revised_inlines (rebuild_runs ps) = map snd ps"
  using assms
proof (induction ps rule: rebuild_runs.induct)
  case 1
  then show ?case by (simp add: flatten_revised_inlines_def)
next
  case (2 m i rest)
  have one: "revised_children i = [i]" using 2(3) by (simp add: unrevised_children)
  show ?case
  proof (cases "m = 0")
    case True
    with 2 one show ?thesis by (simp add: flatten_revised_inlines_def)
  next
    case False
    have "\<not> list_ex is_revised (map snd (dropWhile (\<lambda>x. fst x = m) rest))"
      using 2(3) by (auto simp: list_ex_iff dest: set_dropWhileD)
    from 2(2) [OF False refl this] False show ?thesis
      by (simp add: flatten_revised_inlines_def Let_def revised_children_def)
        (metis map_append takeWhile_dropWhile_id)
  qed
qed

lemma carry_sequence_flat:
  assumes "\<not> list_ex is_revised xs"
  shows "flatten_revised_inlines (carry_sequence sources xs) = xs"
proof -
  have "flatten_revised_inlines (rebuild_runs (zip ms xs)) = xs" if "length ms = length xs" for ms
    using rebuild_runs_flatten [of "zip ms xs"] assms that by simp
  with unrevised_flat [OF assms] show ?thesis by (simp add: carry_sequence_def Let_def)
qed

text \<open>What a sequence keeps: a property of the inlines that every run under a drawable mark has as well.\<close>

lemma carry_sequence_all:
  assumes "marks_drawable sources" and "list_all P xs"
    and "\<And>m run. valid_revision_mark m \<Longrightarrow> run \<noteq> [] \<Longrightarrow> set run \<subseteq> set xs \<Longrightarrow> \<not> list_ex is_revised xs \<Longrightarrow>
      P (Inline (Revised_inline m run) (run_origin run))"
  shows "list_all P (carry_sequence sources xs)"
proof (cases "list_ex is_revised xs")
  case True
  with assms(2) show ?thesis by (simp add: carry_sequence_def)
next
  case False
  let ?decided = "map (\<lambda>i. mark_of sources (inline_origin i)) xs"
  let ?ps = "zip (map (settled_mark ?decided) [0..<length xs]) xs"
  have decided: "\<forall>m. Some m \<in> set ?decided \<longrightarrow> m = 0 \<or> valid_revision_mark m"
    using mark_of_valid [OF assms(1)] by (metis (no_types, lifting) ex_map_conv)
  have "m = 0 \<or> valid_revision_mark m" if "m \<in> fst ` set ?ps" for m
    using that settled_mark_valid [OF decided] by (fastforce simp: set_zip)
  note marks = this
  have inner: "snd ` set ?ps \<subseteq> set xs" by (auto dest: set_zip_rightD)
  have "list_all P (rebuild_runs ?ps)"
  proof (rule rebuild_runs_all)
    show "P i" if "i \<in> snd ` set ?ps" for i using assms(2) inner that by (auto simp: list_all_iff)
    show "P (Inline (Revised_inline m run) (run_origin run))"
      if "m \<in> fst ` set ?ps" "m \<noteq> 0" "run \<noteq> []" "set run \<subseteq> snd ` set ?ps" for m run
      using marks [OF that(1)] that(2-4) inner False by (intro assms(3)) auto
  qed
  with assms(2) show ?thesis by (auto simp: carry_sequence_def Let_def)
qed

lemma rebuild_runs_empty [simp]: "rebuild_runs ps = [] \<longleftrightarrow> ps = []"
  by (cases ps rule: rebuild_runs.cases) (simp_all add: Let_def)

lemma carry_sequence_empty [simp]: "carry_sequence sources xs = [] \<longleftrightarrow> xs = []"
  by (cases "xs = []") (auto simp: carry_sequence_def Let_def simp del: length_greater_0_conv upt_Suc
      dest: arg_cong [where f = length])

lemma carry_sequence_verifies:
  assumes "marks_drawable sources" and "verify_inlines xs allow_empty row = None"
  shows "verify_inlines (carry_sequence sources xs) allow_empty row = None"
proof -
  have ok: "list_all (\<lambda>i. verify_inline row i = None) xs" using assms(2) by (simp add: verify_inlines_iff)
  have "list_all (\<lambda>i. verify_inline row i = None) (carry_sequence sources xs)"
  proof (rule carry_sequence_all [OF assms(1) ok])
    fix m run
    assume run: "valid_revision_mark m" "run \<noteq> []" "set run \<subseteq> set xs" "\<not> list_ex is_revised xs"
    have parts: "verify_inline row i = None" if "i \<in> set run" for i
      using ok run(3) that by (auto simp: list_all_iff)
    have "verify_origin (run_origin run) = None"
      using parts verified_inline_origin by (intro run_origin_verifies) blast
    moreover have "\<not> list_ex is_revised run" using run(3,4) by (auto simp: list_ex_iff)
    ultimately show "verify_inline row (Inline (Revised_inline m run) (run_origin run)) = None"
      using parts run(1,2) by (simp add: verify_claims_def canonical_inline_def verify_inline_list_iff list_all_iff)
  qed
  with assms(2) show ?thesis by (simp add: verify_inlines_iff)
qed

subsection \<open>Coverage\<close>

text \<open>An origin that is called synthesised names no source.\<close>

definition honest :: "node_origin \<Rightarrow> bool" where
  "honest origin \<longleftrightarrow> derivation origin = Synthesized \<longrightarrow> origin_slices origin = []"

lemma collect_inline_origins_all:
  "list_all P (collect_inline_origins xs) \<longleftrightarrow> list_all (\<lambda>i. list_all P (collect_inline_origin i)) xs"
  by (induction xs) simp_all

lemma carry_sequence_covered:
  assumes "marks_drawable sources" and "list_all honest (collect_inline_origins xs)"
    and "list_all (covered_by outer) (collect_inline_origins xs)"
  shows "list_all (covered_by outer) (collect_inline_origins (carry_sequence sources xs))"
proof -
  have ok: "list_all (\<lambda>i. list_all (covered_by outer) (collect_inline_origin i)) xs"
    "list_all (\<lambda>i. list_all honest (collect_inline_origin i)) xs"
    using assms(2,3) by (simp_all add: collect_inline_origins_all)
  show ?thesis
    unfolding collect_inline_origins_all
  proof (rule carry_sequence_all [OF assms(1) ok(1)])
    fix m run
    assume run: "set run \<subseteq> set xs"
    have "slice_covers outer (s\<lparr>character_begin := 0, character_end := 0\<rparr>)"
      if "i \<in> set run" "s \<in> set (origin_slices (inline_origin i))" for i s
    proof -
      have "covered_by outer (inline_origin i)" "honest (inline_origin i)"
        using ok run that(1) by (cases i, force simp: list_all_iff)+
      with that(2) have "slice_covers outer s" by (auto simp: covered_by_def honest_def list_all_iff)
      then show ?thesis by (simp add: slice_covers_def)
    qed
    then have "covered_by outer (run_origin run)"
      by (auto simp: covered_by_def run_origin_def list_all_iff)
    moreover have "list_all (covered_by outer) (collect_inline_origins run)"
      using ok(1) run unfolding collect_inline_origins_all by (auto simp: list_all_iff)
    ultimately show "list_all (covered_by outer) (collect_inline_origin (Inline (Revised_inline m run) (run_origin run)))"
      by simp
  qed
qed

subsection \<open>Items\<close>

lemma carried_item:
  assumes "marks_drawable sources" and "carry_item_content sources content label mark = (content', mark')"
    and "verify_inlines content allow_empty False = None" and "drawn_mark mark"
  shows "verify_inlines content' allow_empty False = None" and "drawn_mark mark'"
    and "content' = [] \<longleftrightarrow> content = []"
    and "list_all honest (collect_inline_origins content) \<Longrightarrow>
      list_all (covered_by outer) (collect_inline_origins content) \<Longrightarrow>
      list_all (covered_by outer) (collect_inline_origins content')"
proof -
  let ?carried = "carry_sequence sources content"
  have ok: "verify_inlines ?carried allow_empty False = None"
    using carry_sequence_verifies [OF assms(1,3)] .
  consider (same) "content' = content" "mark' = mark" | (carried) "content' = ?carried" "mark' = mark"
    | (unwrapped) m o' where "?carried = [Inline (Revised_inline m content') o']" "mark' = Some m" "content \<noteq> []"
    using assms(2) by (auto simp: carry_item_content_def Let_def split: if_splits list.splits inline_ir.splits inline_node.splits)
  then have "verify_inlines content' allow_empty False = None \<and> drawn_mark mark' \<and> (content' = [] \<longleftrightarrow> content = []) \<and>
    (list_all honest (collect_inline_origins content) \<longrightarrow>
      list_all (covered_by outer) (collect_inline_origins content) \<longrightarrow>
      list_all (covered_by outer) (collect_inline_origins content'))"
  proof cases
    case same
    with assms(3,4) show ?thesis by simp
  next
    case carried
    with ok assms(4) carry_sequence_covered [OF assms(1)] show ?thesis by simp
  next
    case (unwrapped m o')
    with ok have "valid_revision_mark m" "content' \<noteq> []" "verify_inline_list False content' = None"
      by (auto simp: verify_inlines_def canonical_inline_def)
    moreover have "list_all (covered_by outer) (collect_inline_origins content')"
      if "list_all honest (collect_inline_origins content)"
        "list_all (covered_by outer) (collect_inline_origins content)"
      using carry_sequence_covered [OF assms(1) that] unwrapped(1) by simp
    ultimately show ?thesis using unwrapped by (simp add: verify_inlines_def drawn_mark_def)
  qed
  then show "verify_inlines content' allow_empty False = None" and "drawn_mark mark'"
    and "content' = [] \<longleftrightarrow> content = []"
    and "list_all honest (collect_inline_origins content) \<Longrightarrow>
      list_all (covered_by outer) (collect_inline_origins content) \<Longrightarrow>
      list_all (covered_by outer) (collect_inline_origins content')"
    by blast+
qed

subsection \<open>Documents\<close>

text \<open>The documents in which no node below a block is called synthesised and yet names a source.\<close>

fun honest_blocks :: "block_ir list \<Rightarrow> bool"
  and honest_items :: "list_item list \<Rightarrow> bool"
  and honest_entries :: "definition_entry list \<Rightarrow> bool" where
  "honest_blocks [] = True"
| "honest_blocks (Block node origin # bs) \<longleftrightarrow>
     list_all honest (collect_child_origins node) \<and>
     (case node of
        List_block ordered items marker \<Rightarrow> honest_items items
      | Definition_list_block entries \<Rightarrow> honest_entries entries
      | _ \<Rightarrow> True) \<and> honest_blocks bs"
| "honest_items [] = True"
| "honest_items (List_item content origin ordinal depth empty_content children label mark # items) \<longleftrightarrow>
     honest_blocks children \<and> honest_items items"
| "honest_entries [] = True"
| "honest_entries (Definition_entry term body origin children empty_term # entries) \<longleftrightarrow>
     honest_blocks children \<and> honest_entries entries"

lemma carried_block_origins: "collect_block_origins (carry_blocks sources bs) = collect_block_origins bs"
proof (induction bs)
  case Nil
  then show ?case by (simp add: collect_block_origins_def)
next
  case (Cons b bs)
  then show ?case by (cases b) (simp add: collect_block_origins_def)
qed

lemma carry_blocks_empty [simp]: "carry_blocks sources bs = [] \<longleftrightarrow> bs = []"
  using carried_block_origins [of sources bs] by (auto simp: collect_block_origins_def)

lemma verify_blocks_iff: "verify_blocks bs = None \<longleftrightarrow> list_all (\<lambda>b. verify_block True b = None) bs"
  by (induction bs) simp_all

lemma list_all_concat_map: "list_all P (concat (map f xs)) \<longleftrightarrow> list_all (\<lambda>x. list_all P (f x)) xs"
  by (induction xs) simp_all

lemma verify_list_head_ordinals:
  assumes "map item_ordinal items' = map item_ordinal items"
  shows "verify_list_head ordered items' marker = verify_list_head ordered items marker"
proof -
  have ordinals: "length (filter (\<lambda>i. item_ordinal i \<noteq> None) xs) = length (filter (\<lambda>n. n \<noteq> None) (map item_ordinal xs))"
    for xs by (simp add: filter_map o_def)
  have "length items' = length items" using arg_cong [OF assms, of length] by simp
  moreover from this have "items' = [] \<longleftrightarrow> items = []" by (cases items; cases items') simp_all
  ultimately show ?thesis
    unfolding verify_list_head_def Let_def ordinals assms by simp
qed

text \<open>The check of a block is that of its origin, of the coverage, and of its node.\<close>

lemma coverage_iff:
  "verify_block_slices_cover_children (Block node origin) = None \<longleftrightarrow>
     origin_slices origin = [] \<or> list_all (covered_by (origin_slices origin)) (collect_child_origins node)"
  by (simp add: verify_block_slices_cover_children_def)

lemma carried_publication:
  fixes sources
  defines "carry \<equiv> \<lambda>e. e\<lparr> publication_title := carry_sequence sources (publication_title e),
      publication_paragraphs := map (carry_sequence sources) (publication_paragraphs e) \<rparr>"
  assumes "marks_drawable sources"
  shows "verify_publication_entry e = None \<Longrightarrow> verify_publication_entry (carry e) = None"
    and "list_all (covered_by outer) (collect_publication_origins e) \<Longrightarrow>
      list_all honest (collect_publication_origins e) \<Longrightarrow>
      list_all (covered_by outer) (collect_publication_origins (carry e))"
  using assms(2)
  by (auto simp: carry_def verify_publication_entry_def collect_publication_origins_def list_all_concat_map
      list_all_iff [of _ "publication_paragraphs e"] list.pred_map carry_sequence_verifies carry_sequence_covered)

lemma carried_plain_block:
  assumes "marks_drawable sources" and "list_all honest (collect_child_origins node)"
    and "verify_block nested (Block node origin) = None"
    and "\<And>ordered items marker. node \<noteq> List_block ordered items marker"
    and "\<And>entries. node \<noteq> Definition_list_block entries"
  shows "verify_block nested (hd (carry_blocks sources [Block node origin])) = None"
proof -
  note seq = carry_sequence_verifies [OF assms(1)] and cov = carry_sequence_covered [OF assms(1)]
  note simps = verify_block.simps carry_blocks.simps list.sel both_None holds_None block_node.case coverage_iff
    collect_child_origins_def
  show ?thesis
  proof (cases node)
    case (Paragraph_block content)
    with assms(2,3) seq cov show ?thesis by (simp only: simps) blast
  next
    case (Note_block label content)
    with assms(2,3) seq cov show ?thesis by (simp only: simps list_all_append) blast
  next
    case (Footnote_block i content)
    with assms(2,3) seq cov show ?thesis by (simp only: simps) blast
  next
    case (Figure_block figure)
    have "figure_resource (figure\<lparr>figure_caption := c\<rparr>) = figure_resource figure"
      "figure_caption (figure\<lparr>figure_caption := c\<rparr>) = c" for c by simp_all
    with Figure_block assms(2,3) seq cov show ?thesis by (simp only: simps) blast
  next
    case (Publication_list_block entries)
    with assms(2,3) carried_publication [OF assms(1)] show ?thesis
      by (simp only: simps all_pass_None list_all_concat_map list.pred_map o_def map_is_Nil_conv)
        (auto simp: list_all_iff)
  next
    case (List_block ordered items marker)
    with assms(4) show ?thesis by blast
  next
    case (Definition_list_block entries)
    with assms(5) show ?thesis by blast
  qed (use assms(3) in \<open>simp_all only: carry_blocks.simps list.sel block_node.case\<close>)
qed

lemma carry_verifies:
  "marks_drawable sources \<Longrightarrow> honest_blocks bs \<Longrightarrow> list_all (\<lambda>b. verify_block nested b = None) bs \<Longrightarrow>
     list_all (\<lambda>b. verify_block nested b = None) (carry_blocks sources bs)"
  "marks_drawable sources \<Longrightarrow> honest_items items \<Longrightarrow> list_all honest (concat (map collect_item_origins items)) \<Longrightarrow>
     verify_items marker po pd items = None \<Longrightarrow>
     verify_items marker po pd (carry_items sources items) = None \<and>
     map item_ordinal (carry_items sources items) = map item_ordinal items \<and>
     (\<forall>outer. list_all (covered_by outer) (concat (map collect_item_origins items)) \<longrightarrow>
        list_all (covered_by outer) (concat (map collect_item_origins (carry_items sources items))))"
  "marks_drawable sources \<Longrightarrow> honest_entries entries \<Longrightarrow> list_all honest (concat (map collect_entry_origins entries)) \<Longrightarrow>
     verify_entries entries = None \<Longrightarrow>
     verify_entries (carry_entries sources entries) = None \<and>
     (carry_entries sources entries = [] \<longleftrightarrow> entries = []) \<and>
     (\<forall>outer. list_all (covered_by outer) (concat (map collect_entry_origins entries)) \<longrightarrow>
        list_all (covered_by outer) (concat (map collect_entry_origins (carry_entries sources entries))))"
proof (induction sources bs and sources items and sources entries arbitrary: nested and marker po pd
    rule: carry_blocks_carry_items_carry_entries.induct)
  case (1 sources)
  then show ?case by simp
next
  case (2 sources node origin bs)
  from 2(5,6) have h: "list_all honest (collect_child_origins node)" "honest_blocks bs"
    and v: "verify_block nested (Block node origin) = None" "list_all (\<lambda>b. verify_block nested b = None) bs"
    by (simp_all only: honest_blocks.simps list.pred_inject)
  note simps = verify_block.simps carry_blocks.simps list.sel both_None holds_None block_node.case coverage_iff
    collect_child_origins_def
  have "verify_block nested (hd (carry_blocks sources [Block node origin])) = None"
  proof (cases node)
    case (List_block ordered items marker)
    with 2(5) have "honest_items items" by simp
    moreover have "list_all honest (concat (map collect_item_origins items))"
      using h(1) List_block by (simp only: collect_child_origins_def block_node.case)
    moreover have "verify_items marker 0 None items = None" using v(1) List_block by (simp only: simps)
    ultimately have "verify_items marker 0 None (carry_items sources items) = None"
      "map item_ordinal (carry_items sources items) = map item_ordinal items"
      "\<forall>outer. list_all (covered_by outer) (concat (map collect_item_origins items)) \<longrightarrow>
        list_all (covered_by outer) (concat (map collect_item_origins (carry_items sources items)))"
      using 2(1) [OF List_block 2(4), of marker 0 None] by blast+
    with v(1) List_block verify_list_head_ordinals [OF this(2)] show ?thesis by (simp only: simps) blast
  next
    case (Definition_list_block entries)
    with 2(5) have "honest_entries entries" by simp
    moreover have "list_all honest (concat (map collect_entry_origins entries))"
      using h(1) Definition_list_block by (simp only: collect_child_origins_def block_node.case)
    moreover have "verify_entries entries = None" using v(1) Definition_list_block by (simp only: simps)
    ultimately have "verify_entries (carry_entries sources entries) = None"
      "carry_entries sources entries = [] \<longleftrightarrow> entries = []"
      "\<forall>outer. list_all (covered_by outer) (concat (map collect_entry_origins entries)) \<longrightarrow>
        list_all (covered_by outer) (concat (map collect_entry_origins (carry_entries sources entries)))"
      using 2(2) [OF Definition_list_block 2(4)] by blast+
    with v(1) Definition_list_block show ?thesis by (simp only: simps) blast
  qed (use carried_plain_block [OF 2(4) h(1) v(1)] in simp_all)
  with 2(3) [OF 2(4) h(2) v(2)] show ?case by simp
next
  case (3 sources)
  then show ?case by simp
next
  case (4 sources content origin ordinal depth empty_content children label mark items)
  let ?item = "List_item content origin ordinal depth empty_content children label mark"
  obtain content' mark' where carry: "carry_item_content sources content label mark = (content', mark')"
    by fastforce
  let ?item' = "List_item content' origin ordinal depth empty_content (carry_blocks sources children) label mark'"
  from 4 have h: "honest_blocks children" "honest_items items" "list_all honest (collect_item_origins ?item)"
    "list_all honest (concat (map collect_item_origins items))"
    and v: "verify_item_head ?item = None" "verify_blocks children = None" "verify_item_tail marker po pd ?item = None"
      "verify_items marker (last_ordinal po ?item) (Some depth) items = None"
    by (simp_all add: Let_def)
  have head: "verify_item_head ?item' = None \<and> (\<forall>outer. list_all (covered_by outer) (collect_item_origins ?item) \<longrightarrow>
      list_all (covered_by outer) (collect_item_origins ?item'))"
  proof (cases "children = []")
    case True
    with v(1) have "verify_inlines content empty_content False = None" "drawn_mark mark"
      by (simp_all add: verify_item_head_def)
    from carried_item [OF 4(3) carry this] v(1) h(3) True show ?thesis
      by (auto simp: verify_item_head_def collect_item_origins_def collect_block_origins_def)
  next
    case False
    with v(1) have "content = []" by (simp add: verify_item_head_def)
    with carry have "content' = content" "mark' = mark" by (simp_all add: carry_item_content_def)
    with v(1) False show ?thesis
      by (auto simp: verify_item_head_def collect_item_origins_def carried_block_origins)
  qed
  have "verify_blocks (carry_blocks sources children) = None"
    using 4(1) [OF carry [symmetric] refl 4(3) h(1), of True] v(2) by (simp add: verify_blocks_iff)
  moreover have "verify_item_tail marker po pd ?item' = None" "last_ordinal po ?item' = last_ordinal po ?item"
    using v(3) by (cases pd; simp add: verify_item_tail_def last_ordinal_def)+
  ultimately show ?case
    using head 4(2) [OF carry [symmetric] refl 4(3) h(2,4) v(4)] by (simp add: carry Let_def)
next
  case (5 sources)
  then show ?case by simp
next
  case (6 sources "term" body origin children empty_term entries)
  let ?entry = "Definition_entry term body origin children empty_term"
  let ?entry' = "Definition_entry (carry_sequence sources term) (carry_sequence sources body) origin
    (carry_blocks sources children) empty_term"
  from 6 have h: "honest_blocks children" "honest_entries entries" "list_all honest (collect_entry_origins ?entry)"
    "list_all honest (concat (map collect_entry_origins entries))"
    and v: "verify_entry_head ?entry = None" "verify_blocks children = None" "verify_entries entries = None"
    by simp_all
  have "verify_entry_head ?entry' = None"
    using v(1) carry_sequence_verifies [OF 6(3)] by (auto simp: verify_entry_head_def)
  moreover have "list_all (covered_by outer) (collect_entry_origins ?entry')"
    if "list_all (covered_by outer) (collect_entry_origins ?entry)" for outer
    using that h(3) by (simp add: collect_entry_origins_def carried_block_origins carry_sequence_covered [OF 6(3)])
  moreover have "verify_blocks (carry_blocks sources children) = None"
    using 6(1) [OF 6(3) h(1), of True] v(2) by (simp add: verify_blocks_iff)
  ultimately show ?case using 6(2) [OF 6(3) h(2,4) v(3)] by simp
qed

subsection \<open>Decoded marks\<close>

lemma margin_glyph_valid:
  assumes "margin_mark_glyph word declared"
  shows "valid_revision_mark (ucast word)"
proof -
  have n: "unat (ucast word :: u32) = unat word"
    using less_trans [OF unat_u16_less [of word], of "2 ^ 32"] by (simp add: unsigned_ucast_eq take_bit_nat_eq_self_iff)
  from assms consider "word = 0x2502" | "word = 0x00A6" | "0x21 \<le> word" "word \<le> 0x7E"
    by (auto simp: margin_mark_glyph_def not_less split: if_splits)
  then show ?thesis
  proof cases
    case 3
    then have "0x21 \<le> unat word" "unat word \<le> 0x7E" by (simp_all add: word_le_nat_alt)
    with n show ?thesis
      by (simp add: valid_revision_mark_def word_less_nat_alt word_le_nat_alt word_unat_eq_iff)
  qed (simp_all add: valid_revision_mark_def)
qed

lemma sound_marks_drawable:
  assumes "list_all (source_sound bs dir dict declared ranges) sources"
  shows "marks_drawable sources"
  unfolding marks_drawable_def
proof (intro ballI impI)
  fix r line
  assume r: "r \<in> set sources" and line: "line \<in> set (display_lines (source_ir r))"
    and place: "margin_mark_place line = Row_margin"
  have "verify_display_line_margin_marks r declared = None"
    using assms r by (simp add: list_all_iff source_sound_def Let_def)
  then have "margin_mark_error r declared line = None"
    using line by (force simp: verify_display_line_margin_marks_def List.map_filter_def filter_empty_conv split: list.splits)
  then have "reading_mark (read_margin_mark r line declared) = margin_mark line"
    "reading_place (read_margin_mark r line declared) = Row_margin"
    using place by (auto simp: margin_mark_error_def Let_def split: if_splits)
  moreover have "drawn_mark (reading_mark (read_margin_mark r line declared))"
    if "reading_place (read_margin_mark r line declared) = Row_margin"
    using that by (auto simp: read_margin_mark_def no_margin_mark_def Let_def drawn_mark_def margin_glyph_valid
        split: if_splits)
  ultimately show "drawn_mark (margin_mark line)" by simp
qed

lemma decoded_marks_drawable:
  assumes "decode_logical_record_sources bs dir dict declared ranges first_record end_record = Inr sources"
  shows "marks_drawable sources"
proof -
  have "list_all (source_sound bs dir dict declared ranges) sources"
    using assms decode_sources_from_spec [of bs dir dict declared ranges "[]" "[first_record..<end_record]"]
    by (auto simp: decode_logical_record_sources_def split: if_splits)
  then show ?thesis by (rule sound_marks_drawable)
qed

text \<open>C21: Carrying the revision marks of decoded rows into a document keeps it valid: every run has sorted
  provenance inside that of its block, a mark a page can draw and no run inside, so the check behind the
  pass accepts what the check in front of it accepted. Origins called synthesised must name no source, as
  their documentation says.\<close>

theorem row_marks_keep_documents_valid:
  assumes "decode_logical_record_sources bs dir dict declared ranges first_record end_record = Inr sources"
    and "verify_document_ir d = None" and "honest_blocks (document_blocks d)"
  shows "verify_document_ir (carry_row_revision_marks d sources) = None"
  using assms(2) carry_verifies(1) [OF decoded_marks_drawable [OF assms(1)] assms(3), of False]
  by (simp add: verify_document_ir_def carry_row_revision_marks_def Let_def)

text \<open>A record with one display line, \<open>" | AB"\<close>, and a document with its words.\<close>

definition revised_row_bytes :: bytes where
  "revised_row_bytes = [6, 0xC0, 1, 0xC0, 2, 0xC0, 3]"

definition revised_row_words :: dictionary where
  "revised_row_words = [(0xC001, [0x20]), (0xC002, [0x7C]), (0xC003, [0x41, 0x42])]"

definition revised_row_origin :: node_origin where
  "revised_row_origin =
     \<lparr> derivation = Decoded,
       origin_slices = [\<lparr> slice_logical_record = 1, segment_index = 0, token_begin = 1, slice_token_end = 4,
         byte_begin = 1, byte_end = 7, character_begin = 0, character_end = 0 \<rparr>],
       origin_rows = [], origin_detail = [], fidelity = Typed, degradation_code = [], degradation_detail = [] \<rparr>"

definition revised_row_document :: document_ir where
  "revised_row_document =
     \<lparr> document_topic = \<lparr> topic_id = ''1.1'', topic_title = [], topic_heading_level = [], topic_number = 1,
         start_logical_record = 1, end_logical_record = 1 \<rparr>,
       document_blocks =
         [Block (Paragraph_block [Inline (Text_inline ''AB'') revised_row_origin]) revised_row_origin],
       named_destinations = [] \<rparr>"

lemma revised_row_decoded:
  "\<exists>sources. decode_logical_record_sources revised_row_bytes example_directory revised_row_words [] [(0, 7)] 1 2 =
     Inr sources \<and> map source_record sources = [1]"
proof -
  have "[1..<2] = [1::nat]" by (simp add: upt_rec)
  then have decode: "decode_logical_record_sources revised_row_bytes example_directory revised_row_words [] [(0, 7)] 1 2 =
      decode_sources_from revised_row_bytes example_directory revised_row_words [] [(0, 7)] [] [1]"
    by (simp only: decode_logical_record_sources_def) simp
  obtain sources where sources:
    "decode_sources_from revised_row_bytes example_directory revised_row_words [] [(0, 7)] [] [1] = Inr sources"
    "if list_all (\<lambda>n. range_in_file revised_row_bytes ([(0, 7)] ! (n - 1))) [1]
     then \<exists>new. sources = [] @ new \<and> map source_record new = [1] \<and>
       list_all (source_sound revised_row_bytes example_directory revised_row_words [] [(0, 7)]) new
     else sources = []"
    using decode_sources_from_spec by blast
  have "list_all (\<lambda>n. range_in_file revised_row_bytes ([(0, 7)] ! (n - 1))) [1]"
    by (simp add: range_in_file_def revised_row_bytes_def)
  with sources(2) have "map source_record sources = [1]" by (simp only: if_True append_Nil) blast
  with decode sources(1) show ?thesis by (intro exI [of _ sources] conjI) (simp_all only:)
qed

theorem row_marks_keep_documents_valid_witness:
  "\<exists>sources. decode_logical_record_sources revised_row_bytes example_directory revised_row_words [] [(0, 7)] 1 2 =
       Inr sources \<and> map source_record sources = [1] \<and>
     verify_document_ir (carry_row_revision_marks revised_row_document sources) = None"
proof -
  obtain sources where decode:
    "decode_logical_record_sources revised_row_bytes example_directory revised_row_words [] [(0, 7)] 1 2 = Inr sources"
    and numbers: "map source_record sources = [1]"
    using revised_row_decoded by (elim exE conjE)
  have valid: "verify_document_ir revised_row_document = None" by code_simp
  have "honest_blocks (document_blocks revised_row_document)" by code_simp
  from row_marks_keep_documents_valid [OF decode valid this] decode numbers show ?thesis
    by (intro exI [of _ sources] conjI)
qed

subsection \<open>Exactness\<close>

text \<open>The inlines of a sequence, each with the mark it stands under, 0 for none.\<close>

definition under_marks :: "inlines \<Rightarrow> (u32 \<times> inline_ir) list" where
  "under_marks xs =
     concat (map (\<lambda>i. case inline_node i of Revised_inline m children \<Rightarrow> map (Pair m) children | _ \<Rightarrow> [(0, i)]) xs)"

lemma rebuild_runs_marks:
  assumes "\<not> list_ex is_revised (map snd ps)"
  shows "under_marks (rebuild_runs ps) = ps"
  using assms
proof (induction ps rule: rebuild_runs.induct)
  case 1
  then show ?case by (simp add: under_marks_def)
next
  case (2 m i rest)
  have one: "(case inline_node i of Revised_inline m children \<Rightarrow> map (Pair m) children | _ \<Rightarrow> [(0, i)]) = [(0, i)]"
    using 2(3) by (simp add: is_revised_def split: inline_node.splits)
  show ?case
  proof (cases "m = 0")
    case True
    with 2 one show ?thesis by (simp add: under_marks_def)
  next
    case False
    have "\<not> list_ex is_revised (map snd (dropWhile (\<lambda>x. fst x = m) rest))"
      using 2(3) by (auto simp: list_ex_iff dest: set_dropWhileD)
    moreover have "map (Pair m) (map snd (takeWhile (\<lambda>x. fst x = m) rest)) = takeWhile (\<lambda>x. fst x = m) rest"
      by (induction rest) auto
    ultimately show ?thesis using 2(2) [OF False refl] False
      by (simp add: under_marks_def Let_def)
  qed
qed

text \<open>The pass only groups: the inlines of a sequence are there in their order, each under exactly the mark
  its own source rows say or its decided neighbours agree on, and a sequence that has runs already is left
  alone. No word of the sequence changes.\<close>

lemma carried_marks_exact:
  "(if list_ex is_revised xs then carry_sequence sources xs = xs
    else under_marks (carry_sequence sources xs) =
      zip (map (settled_mark (map (\<lambda>i. mark_of sources (inline_origin i)) xs)) [0..<length xs]) xs) \<and>
   flatten_revised_inlines (carry_sequence sources xs) = flatten_revised_inlines xs"
proof (cases "list_ex is_revised xs")
  case True
  then show ?thesis by (simp add: carry_sequence_def)
next
  case False
  let ?ms = "map (settled_mark (map (\<lambda>i. mark_of sources (inline_origin i)) xs)) [0..<length xs]"
  have "under_marks xs = map (Pair 0) xs"
    using False by (induction xs) (simp_all add: under_marks_def is_revised_def split: inline_node.splits)
  moreover have "zip ?ms xs = map (Pair 0) xs" if "list_all (\<lambda>m. m = 0) ?ms"
    using that by (intro nth_equalityI) (simp_all add: list_all_length)
  moreover have "under_marks (rebuild_runs (zip ?ms xs)) = zip ?ms xs"
    using False by (intro rebuild_runs_marks) simp
  ultimately have "under_marks (carry_sequence sources xs) = zip ?ms xs"
    by (cases "xs = []") (simp_all only: carry_sequence_def Let_def False if_False if_True simp_thms split: if_splits, simp_all)
  with False show ?thesis by (simp add: carry_sequence_flat unrevised_flat)
qed

end
