(* ===== verification/Source_Facts.thy ===== *)
theory Source_Facts
  imports Sources
begin

section \<open>What decoded sources offer the passes behind them\<close>

text \<open>
  One predicate that collects, for a source as \<open>decode_logical_record_sources\<close> builds it, the bounds the
  lowering code relies on without a check: parallel vectors have one length, the tokens of a segment and of a
  line are tokens of the record, and the bytes of its tokens lie in order in the file.
\<close>

definition source_text :: "decoded_logical_record_source \<Rightarrow> string" where
  "source_text r = token_words_to_ascii (asm_words (source_assembled r))"

definition tokens_in_order :: "nat \<Rightarrow> logical_token_ir list \<Rightarrow> bool" where
  "tokens_in_order limit toks \<longleftrightarrow>
     (\<forall>i j. i \<le> j \<longrightarrow> j < length toks \<longrightarrow>
        fst (byte_range (toks ! i)) < snd (byte_range (toks ! j)) \<and> snd (byte_range (toks ! j)) \<le> limit)"

definition record_sound :: "nat \<Rightarrow> decoded_logical_record_source \<Rightarrow> bool" where
  "record_sound limit r \<longleftrightarrow>
     length (source_token_words r) = length (tokens (source_ir r)) \<and>
     length (source_encoded r) = length (tokens (source_ir r)) \<and>
     length (asm_tokens (source_assembled r)) = length (tokens (source_ir r)) \<and>
     segments_ok (length (source_text r)) (length (tokens (source_ir r))) (source_segments r) \<and>
     tokens_in_order limit (tokens (source_ir r)) \<and> length (tokens (source_ir r)) \<le> limit \<and>
     list_all (\<lambda>line. prefix_token line < token_end line \<and> token_end line \<le> length (tokens (source_ir r)))
       (display_lines (source_ir r)) \<and>
     (display_lines_parse (source_ir r) \<or> display_lines (source_ir r) = [])"

lemma decode_sources_from_form:
  assumes "decode_sources_from bs dir dict declared ranges records numbers = Inr rs" and "r \<in> set rs"
  shows "r \<in> set records \<or>
    (\<exists>carried. source_record r \<in> set numbers \<and> range_in_file bs (ranges ! (source_record r - 1)) \<and>
       r = decode_source bs dir dict declared carried (source_record r)
             (decode_record_payload_ir bs dir dict (fst (ranges ! (source_record r - 1)))
                (snd (ranges ! (source_record r - 1))) (source_record r)))"
  using assms
proof (induction numbers arbitrary: records)
  case Nil
  then show ?case by simp
next
  case (Cons number rest)
  let ?p = "ranges ! (number - 1)"
  let ?ir = "decode_record_payload_ir bs dir dict (fst ?p) (snd ?p) number"
  define carried where "carried = (records \<noteq> [] \<and> source_record (last records) + 1 = number \<and>
      ends_with_carried_selection (last records))"
  let ?r = "decode_source bs dir dict declared carried number ?ir"
  show ?case
  proof (cases "range_in_file bs ?p")
    case False
    then show ?thesis using Cons.prems by (auto simp: range_in_file_def Let_def not_le)
  next
    case True
    then have "verify_token_ir ?ir = None" using decode_verifies by (simp add: range_in_file_def)
    then have "decode_sources_from bs dir dict declared ranges records (number # rest) =
        decode_sources_from bs dir dict declared ranges (records @ [?r]) rest"
      using True decode_source_segments(1) [of bs dir dict declared carried number ?ir]
      by (simp add: Let_def range_in_file_def carried_def)
    with Cons.prems(1) have "decode_sources_from bs dir dict declared ranges (records @ [?r]) rest = Inr rs" by simp
    from Cons.IH [OF this Cons.prems(2)] consider "r \<in> set records" | "r = ?r"
      | carried' where "source_record r \<in> set rest" "range_in_file bs (ranges ! (source_record r - 1))"
        "r = decode_source bs dir dict declared carried' (source_record r)
             (decode_record_payload_ir bs dir dict (fst (ranges ! (source_record r - 1)))
                (snd (ranges ! (source_record r - 1))) (source_record r))"
      by auto
    then show ?thesis
    proof cases
      case 2
      then have "source_record r = number" using decode_source_segments(2) by simp
      with 2 True show ?thesis by auto
    qed auto
  qed
qed

lemma passes_keep_words [simp]:
  "source_token_words (assign_display_line_margin_marks declared r) = source_token_words r"
  "source_token_words (demote_display_line_owned_controls carried r) = source_token_words r"
  "source_encoded (assign_display_line_margin_marks declared r) = source_encoded r"
  "source_encoded (demote_display_line_owned_controls carried r) = source_encoded r"
  by (auto simp: assign_display_line_margin_marks_def demote_display_line_owned_controls_def Let_def
      demote_length_byte_controls_def bound_menu_items_to_display_lines_def
      rejoin_selected_line_display_text_def split: option.splits)

lemma decode_source_projections:
  "source_token_words (decode_source bs dir dict declared carried number ir) = project_token_words ir"
  "source_encoded (decode_source bs dir dict declared carried number ir) = project_encoded_tokens ir"
  "map token_end (display_lines (source_ir (decode_source bs dir dict declared carried number ir))) =
     map token_end (display_lines ir)"
  "display_lines_parse (source_ir (decode_source bs dir dict declared carried number ir)) = display_lines_parse ir"
  by (simp_all add: decode_source_def Let_def)
    (simp_all add: assign_display_line_margin_marks_def mark_line_def Let_def o_def)

lemma lines_tile_bounds:
  "lines_tile at ls n \<Longrightarrow> list_all (\<lambda>l. prefix_token l < token_end l \<and> token_end l \<le> n) ls"
  by (induction at ls n rule: lines_tile.induct) auto

lemma decoded_lines_bounds:
  assumes "b \<le> e"
  shows "list_all (\<lambda>l. prefix_token l < token_end l \<and>
      token_end l \<le> length (tokens (decode_record_payload_ir bs dir dict b e n)))
    (display_lines (decode_record_payload_ir bs dir dict b e n))"
  using assms
proof (cases rule: decode_record_payload_cases [of b e bs dir dict n])
  case unframed
  then have "display_lines (decode_record_payload_ir bs dir dict b e n) = []"
    using decoded_framing by blast
  then show ?thesis by simp
next
  case (framed ls)
  have "length (fold stamp_line ls (payload_tokens bs dir dict b e)) = length (payload_tokens bs dir dict b e)"
    using stamp_lines [OF framed(3)] by (metis length_map)
  then show ?thesis using lines_tile_bounds [OF framed(3)] by (simp add: framed(2))
qed

lemma chained_order:
  assumes "chained index b toks e" and "i \<le> j" and "j < length toks"
  shows "fst (byte_range (toks ! i)) < snd (byte_range (toks ! j)) \<and> snd (byte_range (toks ! j)) \<le> e"
proof -
  have "fst (byte_range (toks ! i)) \<le> fst (byte_range (toks ! j))" by (rule chained_begins_mono [OF assms])
  moreover obtain b' where "token_ok (index + j) b' (toks ! j)" using chained_nth [OF assms(1,3)] by blast
  then have "fst (byte_range (toks ! j)) < snd (byte_range (toks ! j))" using token_ok_range by fastforce
  moreover have "snd (byte_range (toks ! j)) \<le> e" using chained_ends [OF assms(1)] assms(3) by simp
  ultimately show ?thesis by simp
qed

lemma decoded_tokens_in_order:
  assumes "b \<le> e" and "e \<le> limit"
  shows "tokens_in_order limit (tokens (decode_record_payload_ir bs dir dict b e n))"
  unfolding tokens_in_order_def
proof (intro allI impI)
  fix i j
  let ?toks = "tokens (decode_record_payload_ir bs dir dict b e n)" and ?ps = "payload_tokens bs dir dict b e"
  assume ij: "i \<le> j" "j < length ?toks"
  have same: "map unframe ?toks = map unframe ?ps"
    using decoded_tokens_unframed [OF assms(1)] payload_tokens_chained [OF assms(1)] unframed_map by metis
  then have len: "length ?toks = length ?ps" by (metis length_map)
  have "fst (byte_range (?ps ! i)) < snd (byte_range (?ps ! j)) \<and> snd (byte_range (?ps ! j)) \<le> e"
    using chained_order [OF _ ij(1)] payload_tokens_chained [OF assms(1)] ij(2) len by metis
  then show "fst (byte_range (?toks ! i)) < snd (byte_range (?toks ! j)) \<and> snd (byte_range (?toks ! j)) \<le> limit"
    using unframe_eq_fields(1) [OF same] ij len assms(2) by simp
qed

lemma chained_length: "chained index b toks e \<Longrightarrow> b + length toks \<le> e"
proof (induction toks arbitrary: index b)
  case Nil
  then show ?case by simp
next
  case (Cons t toks)
  then have "b < snd (byte_range t)" "snd (byte_range t) + length toks \<le> e"
    using token_ok_range [of index b t] by auto
  then show ?case by simp
qed

lemma decoded_tokens_few:
  assumes "b \<le> e"
  shows "length (tokens (decode_record_payload_ir bs dir dict b e n)) \<le> e"
proof -
  have "length (tokens (decode_record_payload_ir bs dir dict b e n)) = length (payload_tokens bs dir dict b e)"
    using decoded_tokens_unframed [OF assms] by (metis length_map)
  then show ?thesis
    using chained_length [of 0 b "payload_tokens bs dir dict b e" e] payload_tokens_chained [OF assms, of bs dir dict]
    by simp
qed

lemma decoded_record_sound:
  assumes "decode_logical_record_sources bs dir dict declared ranges first_record end_record = Inr rs"
    and "r \<in> set rs"
  shows "record_sound (length bs) r" and "first_record \<le> source_record r" and "source_record r < end_record"
    and "source_record r \<noteq> 0" and "source_sound bs dir dict declared ranges r"
proof -
  have from_numbers: "decode_sources_from bs dir dict declared ranges [] [first_record..<end_record] = Inr rs"
    and pos: "first_record \<noteq> 0"
    using assms by (auto simp: decode_logical_record_sources_def split: if_splits)
  from decode_sources_from_form [OF this(1) assms(2)] obtain carried where
    number: "source_record r \<in> set [first_record..<end_record]"
    and in_file: "range_in_file bs (ranges ! (source_record r - 1))"
    and r: "r = decode_source bs dir dict declared carried (source_record r)
             (decode_record_payload_ir bs dir dict (fst (ranges ! (source_record r - 1)))
                (snd (ranges ! (source_record r - 1))) (source_record r))"
    by auto
  show "first_record \<le> source_record r" and "source_record r < end_record" and "source_record r \<noteq> 0"
    using number pos by auto
  define b e where "b = fst (ranges ! (source_record r - 1))" and "e = snd (ranges ! (source_record r - 1))"
  define ir where "ir = decode_record_payload_ir bs dir dict b e (source_record r)"
  have r': "r = decode_source bs dir dict declared carried (source_record r) ir"
    using r by (simp only: ir_def b_def e_def)
  have be: "b \<le> e" "e \<le> length bs" using in_file by (simp_all add: range_in_file_def b_def e_def)
  have toks: "tokens (source_ir r) = tokens ir" and prefixes:
    "map prefix_token (display_lines (source_ir r)) = map prefix_token (display_lines ir)"
    and asm: "source_assembled r = assemble_logical_record_with_sources (project_token_words ir)"
    and verified: "verify_control_segments (source_assembled r) (source_segments r) = None"
    using decode_source_segments [of bs dir dict declared carried "source_record r" ir] r' by metis+
  have proj: "source_token_words r = project_token_words ir" "source_encoded r = project_encoded_tokens ir"
    "map token_end (display_lines (source_ir r)) = map token_end (display_lines ir)"
    "display_lines_parse (source_ir r) = display_lines_parse ir"
    using decode_source_projections [of bs dir dict declared carried "source_record r" ir] r' by metis+
  have len: "length (project_token_words ir) = length (tokens ir)"
    "length (project_encoded_tokens ir) = length (tokens ir)"
    by (simp_all add: project_token_words_def project_encoded_tokens_def)
  have "length (display_lines (source_ir r)) = length (display_lines ir)" using prefixes by (metis length_map)
  moreover have "prefix_token (display_lines (source_ir r) ! i) = prefix_token (display_lines ir ! i) \<and>
      token_end (display_lines (source_ir r) ! i) = token_end (display_lines ir ! i)"
    if "i < length (display_lines ir)" for i
    using that prefixes proj(3) calculation by (metis nth_map)
  ultimately have "list_all (\<lambda>l. prefix_token l < token_end l \<and> token_end l \<le> length (tokens ir))
      (display_lines (source_ir r))"
    using decoded_lines_bounds [OF be(1)] by (simp add: ir_def list_all_length)
  moreover have "length (asm_tokens (source_assembled r)) = length (tokens ir)"
    using assembled_record(2) by (simp add: asm len)
  moreover have "display_lines_parse (source_ir r) \<or> display_lines (source_ir r) = []"
    using decoded_framing [of bs dir dict b e "source_record r"] proj(3,4) by (auto simp: ir_def [symmetric])
  ultimately show "record_sound (length bs) r"
    using verified order_trans [OF decoded_tokens_few [OF be(1), of bs dir dict "source_record r", folded ir_def] be(2)]
      decoded_tokens_in_order [OF be, of bs dir dict "source_record r", folded ir_def]
    by (simp add: record_sound_def toks proj(1,2) len verify_control_segments_iff source_text_def)
  show "source_sound bs dir dict declared ranges r"
    using decode_source_sound [of ranges "source_record r" bs dir dict declared carried] be(1) r
    by (simp add: b_def e_def)
qed

end
