(* ===== verification/Selectors.thy ===== *)
theory Selectors
  imports Source_Facts Document_Verify
begin

section \<open>Selectors (\<open>src/ir/selector_ir.cpp\<close>, \<open>src/ir/selector_link_ir.cpp\<close>)\<close>

text \<open>
  The \<open>cselect\<close> controls of a topic: the catalogue of what they name, and the \<open>LNK\<close> dialect that spells a
  destination in another book as a list of bracketed alternatives. Behind them the cross reference target a
  lowering makes of such a list (\<open>src/lowering/cross_reference_target.cpp\<close>).
\<close>

subsection \<open>Alternatives\<close>

datatype selector_link_kind =
    Selects_contents
  | Selects_heading
  | Selects_spot
  | Selects_anchor
  | Selects_external
  | Selects_image

record selector_link =
  selected_kind :: selector_link_kind
  selected_alternatives :: "string list"
  selected_destination :: string
  selected_level :: string
  selected_image :: string

definition bracketed :: "string \<Rightarrow> bool" where
  "bracketed token \<longleftrightarrow> length token \<ge> 2 \<and> hd token = CHR ''<'' \<and> last token = CHR ''>''"

fun unbracketed :: "string list \<Rightarrow> string + string list" where
  "unbracketed [] = Inr []"
| "unbracketed (token # toks) =
     (if \<not> bracketed token then Inl (''LNK selector alternative '' @ [CHR 0x27] @ token @ [CHR 0x27] @ '' is not bracketed'')
      else and_then (unbracketed toks) (\<lambda>rest. Inr (slice token 1 (length token - 1) # rest)))"

definition linked :: "string list \<Rightarrow> selector_link_kind \<Rightarrow> string \<Rightarrow> string \<Rightarrow> selector_link" where
  "linked alts kind destination picture =
     \<lparr> selected_kind = kind, selected_alternatives = alts, selected_destination = destination,
       selected_level = alts ! 4, selected_image = picture \<rparr>"

definition read_alternatives :: "string list \<Rightarrow> string + selector_link" where
  "read_alternatives alts =
     (let kind = ascii_lower (alts ! 0); anchor = alts ! 1; fourth = alts ! 3 in
      if kind = ''book'' then
        (if fourth = [] then Inl ''LNK <BOOK> selector has no document number''
         else Inr (linked alts Selects_contents (''DOCNUM/'' @ fourth @ ''/CCONTENTS'') []))
      else if kind = ''hdr'' then
        (if fourth = [] \<or> anchor = [] then Inl ''LNK <HDR> selector has no document number or anchor''
         else Inr (linked alts Selects_heading (''DOCNUM/'' @ fourth @ ''/HDR'' @ anchor) []))
      else if kind = ''spt'' then
        (if fourth = [] \<or> anchor = [] then Inl ''LNK <SPT> selector has no document number or anchor''
         else Inr (linked alts Selects_spot (''DOCNUM/'' @ fourth @ ''/SPT'' @ anchor) []))
      else if kind = ''fig'' \<or> kind = ''tbl'' \<or> kind = ''figure'' then
        (if fourth = [] \<or> anchor = []
         then Inl (''LNK <'' @ alts ! 0 @ ''> selector has no document number or anchor'')
         else Inr (linked alts Selects_anchor (''DOCNUM/'' @ fourth @ ''/'' @ cross_book_anchor alts) []))
      else if kind = ''other'' \<or> kind = ''internet'' \<or> kind = ''image'' then
        (if fourth = [] then Inl (''LNK <'' @ alts ! 0 @ ''> selector has no external target'')
         else if kind = ''image'' then
           (if selector_link_image alts = [] then Inl ''LNK <IMAGE> selector names no image URL''
            else Inr (linked alts Selects_image fourth (selector_link_image alts)))
         else Inr (linked alts Selects_external fourth []))
      else Inl (''LNK selector kind '' @ [CHR 0x27] @ alts ! 0 @ [CHR 0x27] @ '' is not modelled''))"

definition parse_selector_link :: "string list \<Rightarrow> string + selector_link" where
  "parse_selector_link toks =
     (if length toks < 6 \<or> length toks > 7
      then Inl (''LNK selector has '' @ decimal (length toks) @ '' alternatives, not six or seven'')
      else and_then (unbracketed toks) read_alternatives)"

text \<open>The alternatives behind a control's operands: groups of tokens, each spelled \<open><...>\<close>, up to a token that
  opens none, a length byte, or the seventh group.\<close>

fun link_groups ::
  "decoded_logical_record_source \<Rightarrow> nat list \<Rightarrow> nat list \<Rightarrow> string \<Rightarrow> nat \<Rightarrow> nat list \<Rightarrow> nat list \<times> string list" where
  "link_groups r owned pending_tokens pending groups [] = ([], [])"
| "link_groups r owned pending_tokens pending groups (token # rest) =
     (if token \<in> set owned then link_groups r owned pending_tokens pending groups rest
      else if token \<ge> length (source_token_words r) then ([], [])
      else if is_display_line_length_token (source_ir r) token then ([], [])
      else
        let word = trim_ascii (token_words_to_ascii (source_token_words r ! token));
            pending' = pending @ word; pending_tokens' = pending_tokens @ [token]
        in if pending = [] \<and> (word = [] \<or> hd word \<noteq> CHR ''<'') then ([], [])
           else if last pending' \<noteq> CHR ''>'' then link_groups r owned pending_tokens' pending' groups rest
           else if \<not> bracketed pending' then ([], [])
           else
             let (claimed, alts) = (if groups + 1 = 7 then ([], []) else link_groups r owned [] [] (groups + 1) rest)
             in (pending_tokens' @ claimed, pending' # alts))"

text \<open>\<open>substr(begin, end - begin)\<close>, to the end of the text when the difference wraps.\<close>

definition substr_between :: "string \<Rightarrow> nat \<Rightarrow> nat \<Rightarrow> string" where
  "substr_between s b e = (if b \<le> e then slice s b e else drop b s)"

text \<open>Three words and no fourth, as a string stream reads them.\<close>

definition three_words :: "string \<Rightarrow> (string \<times> string \<times> string) option" where
  "three_words input =
     (case stream_read_word input of
        None \<Rightarrow> None
      | Some (first, rest) \<Rightarrow>
          (case stream_read_word rest of
             None \<Rightarrow> None
           | Some (second, rest) \<Rightarrow>
               (case stream_read_word rest of
                  None \<Rightarrow> None
                | Some (third, rest) \<Rightarrow>
                    if stream_read_word rest = None then Some (first, second, third) else None)))"

definition selects_link :: "string \<Rightarrow> bool" where
  "selects_link operands =
     (case three_words operands of
        None \<Rightarrow> False
      | Some (column, len, target) \<Rightarrow> ascii_lower target = ''lnk'')"

definition selector_link_alternative_tokens ::
  "decoded_logical_record_source \<Rightarrow> control_segment_ir \<Rightarrow> nat list \<times> string list" where
  "selector_link_alternative_tokens r segment =
     (if cs_kind segment \<noteq> Select \<or> cs_display_text segment then ([], [])
      else
        let s = source_text r;
            b = min (fst (cs_operand_range segment)) (length s);
            e = min (snd (cs_operand_range segment)) (length s)
        in if \<not> selects_link (substr_between s b e) then ([], [])
           else
             let ws = decoded_byte_range_to_word_range (source_assembled r)
                        (fst (cs_opcode_range segment), snd (cs_operand_range segment));
                 owned = source_tokens_intersecting_output (source_assembled r) (fst ws) (snd ws)
             in link_groups r owned [] [] 0 (cs_source_tokens segment))"

subsection \<open>Targets (\<open>src/lowering/cross_reference_target.cpp\<close>)\<close>

definition plain_target :: "target_kind \<Rightarrow> string \<Rightarrow> string list \<Rightarrow> cross_reference_target" where
  "plain_target kind v alts =
     \<lparr> target_kind = kind, target_value = v, target_alternatives = alts, target_document_number = [],
       target_document_level = [], target_heading_anchor = [], target_spot_anchor = [], target_book_anchor = [],
       target_url = [] \<rparr>"

definition selector_cross_reference_target ::
  "target_kind \<Rightarrow> string \<Rightarrow> string list \<Rightarrow> cross_reference_target" where
  "selector_cross_reference_target kind v alts =
     (let target = plain_target kind v alts in
      if length alts < 6 then target
      else
        let target = target\<lparr>target_value := alts ! 5\<rparr>;
            booked = target\<lparr>target_document_number := alts ! 3, target_document_level := alts ! 4\<rparr>
        in (case kind of
              Book_contents_target \<Rightarrow> booked
            | Book_heading_target \<Rightarrow> booked\<lparr>target_heading_anchor := alts ! 1\<rparr>
            | Book_spot_target \<Rightarrow> booked\<lparr>target_spot_anchor := alts ! 1\<rparr>
            | Book_anchor_target \<Rightarrow> booked\<lparr>target_book_anchor := cross_book_anchor alts\<rparr>
            | External_target \<Rightarrow> target\<lparr>target_url := alts ! 3\<rparr>
            | _ \<Rightarrow> target))"

text \<open>The kind of target a lowering asks for (\<open>src/ir/fixed_table_block_ir.cpp\<close>), where an image is declined.\<close>

definition selected_target_kind :: "selector_link_kind \<Rightarrow> target_kind option" where
  "selected_target_kind kind =
     (case kind of
        Selects_contents \<Rightarrow> Some Book_contents_target
      | Selects_heading \<Rightarrow> Some Book_heading_target
      | Selects_spot \<Rightarrow> Some Book_spot_target
      | Selects_anchor \<Rightarrow> Some Book_anchor_target
      | Selects_external \<Rightarrow> Some External_target
      | Selects_image \<Rightarrow> None)"

subsection \<open>The catalogue\<close>

record selector_marker =
  marker_token :: nat
  marker_origin_token :: nat
  marker_value :: u16
  marker_width :: nat
  marker_bytes :: "nat \<times> nat"
  marker_output :: output_range
  marker_text :: string
  native_origin :: nat

record selector_ir =
  selector_record :: nat
  selector_segment :: nat
  selector_ordinal :: nat
  canonical_operands :: bool
  rejection_reason :: string
  selector_column :: nat
  selector_length :: nat
  selector_target :: string
  selector_complete :: output_range
  selector_operands :: output_range
  selector_payload :: output_range
  selector_tokens :: "nat list"
  selector_bytes :: "(nat \<times> nat) list"
  display_payload :: string
  inside_table :: bool
  selector_marker_slot :: "selector_marker option"

definition range_text :: "decoded_logical_record_source \<Rightarrow> output_range \<Rightarrow> string" where
  "range_text r part =
     (if fst part > snd part \<or> snd part > length (source_text r) then []
      else slice (source_text r) (fst part) (snd part))"

text \<open>The end of the run from a position whose characters satisfy a predicate, at most the given end.\<close>

definition run_end :: "string \<Rightarrow> (char \<Rightarrow> bool) \<Rightarrow> nat \<Rightarrow> nat \<Rightarrow> nat" where
  "run_end s p b e = b + length (takeWhile (\<lambda>i. p (s ! i)) [b..<e])"

text \<open>The token of a one-byte marker in front of its origin run; nothing when the words do not line up.\<close>

definition marker_slot_at ::
  "decoded_logical_record_source \<Rightarrow> output_range \<Rightarrow> nat \<Rightarrow> nat \<Rightarrow> nat \<Rightarrow> nat \<Rightarrow> nat \<Rightarrow> selector_marker option" where
  "marker_slot_at r marker display_begin payload_end token column len =
     (let a = source_assembled r;
          ws = decoded_byte_range_to_word_range a marker;
          span_end = output_end (asm_tokens a ! token);
          origin = token + 1;
          row = length (source_token_words r ! origin) + payload_end - display_begin
      in if token \<ge> length (source_token_words r) \<or> token \<ge> length (source_encoded r) \<or>
            token \<ge> length (asm_tokens a) \<or> enc_width (source_encoded r ! token) \<noteq> 1 \<or>
            output_begin (asm_tokens a ! token) \<noteq> fst ws then None
         else if span_end \<noteq> snd ws \<and>
            \<not> (span_end = snd ws + 1 \<and> snd ws < length (asm_words a) \<and> asm_words a ! snd ws = 0x20) then None
         else if origin \<ge> length (source_token_words r) \<or> origin \<ge> length (source_encoded r) \<or>
            origin \<ge> length (asm_tokens a) \<or> enc_width (source_encoded r ! origin) \<noteq> 1 \<or>
            length (source_token_words r ! origin) < 2 \<or> length (source_token_words r ! origin) > 32 \<or>
            \<not> all_space_words (source_token_words r ! origin) \<or>
            output_begin (asm_tokens a ! origin) \<noteq> span_end then None
         else if column > row \<or> len > row - column then None
         else if token \<ge> length (tokens (source_ir r)) then None
         else Some \<lparr> marker_token = token, marker_origin_token = origin,
           marker_value = enc_value (source_encoded r ! token), marker_width = enc_width (source_encoded r ! token),
           marker_bytes = byte_range (tokens (source_ir r) ! token), marker_output = marker,
           marker_text = slice (source_text r) (fst marker) (snd marker),
           native_origin = length (source_token_words r ! origin) \<rparr>)"

definition display_marker_slot ::
  "decoded_logical_record_source \<Rightarrow> control_segment_ir \<Rightarrow> nat \<Rightarrow> nat \<Rightarrow> selector_marker option" where
  "display_marker_slot r segment column len =
     (let (b, e) = cs_payload_range segment; s = source_text r;
          marker_begin = run_end s isspace b e;
          marker_end = run_end s (\<lambda>c. \<not> isspace c) marker_begin e;
          display_begin = run_end s (\<lambda>c. c = CHR '' '') marker_end e;
          ws = decoded_byte_range_to_word_range (source_assembled r) (marker_begin, display_begin + 1);
          owned = source_tokens_intersecting_output (source_assembled r) (fst ws) (snd ws)
      in if b \<ge> e then None
         else if marker_begin = marker_end \<or> display_begin - marker_end < 3 \<or> display_begin = e then None
         else if length owned < 3 then None
         else marker_slot_at r (marker_begin, marker_end) display_begin e (hd owned) column len)"

text \<open>Digits of a number that fits \<open>std::size_t\<close>.\<close>

fun parse_decimal_from :: "u64 \<Rightarrow> string \<Rightarrow> u64 option" where
  "parse_decimal_from parsed [] = Some parsed"
| "parse_decimal_from parsed (c # word) =
     (if \<not> isdigit c then None
      else let digit = of_nat (char_code c - 48) in
           if parsed > (- 1 - digit) div 10 then None else parse_decimal_from (parsed * 10 + digit) word)"

definition parse_decimal :: "string \<Rightarrow> nat option" where
  "parse_decimal word = (if word = [] then None else map_option unat (parse_decimal_from 0 word))"

definition parse_selector_operands :: "string \<Rightarrow> (nat \<times> nat \<times> string) option" where
  "parse_selector_operands input =
     (case three_words input of
        None \<Rightarrow> None
      | Some (column_word, length_word, target) \<Rightarrow>
          (case (parse_decimal column_word, parse_decimal length_word) of
             (Some column, Some len) \<Rightarrow> if len = 0 then None else Some (column, len, target)
           | _ \<Rightarrow> None))"

definition select_segment ::
  "decoded_logical_record_source \<Rightarrow> bool \<Rightarrow> nat \<Rightarrow> control_segment_ir \<Rightarrow> selector_ir" where
  "select_segment r table_open ordinal segment =
     (let blank = \<lparr> selector_record = source_record r, selector_segment = cs_index segment,
            selector_ordinal = ordinal, canonical_operands = False, rejection_reason = [],
            selector_column = 0, selector_length = 0, selector_target = [],
            selector_complete = cs_complete segment, selector_operands = cs_operand_range segment,
            selector_payload = cs_payload_range segment, selector_tokens = cs_source_tokens segment,
            selector_bytes = map (\<lambda>t. byte_range (tokens (source_ir r) ! t)) (cs_source_tokens segment),
            display_payload = range_text r (cs_payload_range segment), inside_table = table_open,
            selector_marker_slot = None \<rparr>
      in if cs_malformed segment then blank\<lparr>rejection_reason := ''control operand count is incomplete''\<rparr>
         else case parse_selector_operands (range_text r (cs_operand_range segment)) of
           None \<Rightarrow> blank\<lparr>rejection_reason := ''operands are not canonical''\<rparr>
         | Some (column, len, target) \<Rightarrow>
             blank\<lparr> canonical_operands := True, selector_column := column, selector_length := len,
                    selector_target := target, selector_marker_slot := display_marker_slot r segment column len \<rparr>)"

text \<open>Whether a table is open runs on from record to record, the ordinal starts over in each.\<close>

fun select_segments ::
  "decoded_logical_record_source \<Rightarrow> bool \<Rightarrow> nat \<Rightarrow> control_segment_ir list \<Rightarrow>
   string + bool \<times> selector_ir list" where
  "select_segments r table_open ordinal [] = Inr (table_open, [])"
| "select_segments r table_open ordinal (segment # rest) =
     (let opened = (if cs_kind segment = Table_start then True
                    else if cs_kind segment = Table_end then False else table_open) in
      if cs_kind segment \<noteq> Select then select_segments r opened ordinal rest
      else if \<not> list_all (\<lambda>t. t < length (tokens (source_ir r))) (cs_source_tokens segment)
      then Inl ''selector source token is outside token IR''
      else and_then (select_segments r opened (ordinal + 1) rest)
             (\<lambda>(final, selectors). Inr (final, select_segment r opened ordinal segment # selectors)))"

fun select_records :: "bool \<Rightarrow> decoded_logical_record_source list \<Rightarrow> string + selector_ir list" where
  "select_records table_open [] = Inr []"
| "select_records table_open (r # records) =
     and_then (select_segments r table_open 0 (source_segments r))
       (\<lambda>(opened, selectors). and_then (select_records opened records) (\<lambda>rest. Inr (selectors @ rest)))"

definition extract_selector_catalog_ir :: "decoded_logical_record_source list \<Rightarrow> string + selector_ir list" where
  "extract_selector_catalog_ir records =
     and_then (select_records False records)
       (\<lambda>selectors. if selectors = [] then Inl ''source contains no selectors'' else Inr selectors)"

text \<open>The comparison of catalogues compares every field, so it is equality.\<close>

fun differing_index :: "nat \<Rightarrow> selector_ir list \<Rightarrow> selector_ir list \<Rightarrow> nat option" where
  "differing_index index (l # ls) (r # rs) = (if l \<noteq> r then Some index else differing_index (index + 1) ls rs)"
| "differing_index index _ _ = None"

definition verify_selector_catalog_ir ::
  "decoded_logical_record_source list \<Rightarrow> selector_ir list \<Rightarrow> verdict" where
  "verify_selector_catalog_ir records catalog =
     (case extract_selector_catalog_ir records of
        Inl _ \<Rightarrow> Some ''source does not admit canonical selector IR''
      | Inr canonical \<Rightarrow>
          if length canonical \<noteq> length catalog then Some ''selector count differs from canonical lowering''
          else (case differing_index 0 canonical catalog of
                  Some index \<Rightarrow> Some (''selector differs from canonical lowering at index '' @ decimal index)
                | None \<Rightarrow> None))"

subsection \<open>Targets of alternatives\<close>

text \<open>What the first, second and fourth alternative of an accepted list are.\<close>

definition alternatives_fit :: "selector_link_kind \<Rightarrow> string list \<Rightarrow> bool" where
  "alternatives_fit kind alts \<longleftrightarrow>
     alts ! 3 \<noteq> [] \<and>
     (case kind of
        Selects_contents \<Rightarrow> ascii_lower (alts ! 0) = ''book''
      | Selects_heading \<Rightarrow> ascii_lower (alts ! 0) = ''hdr'' \<and> alts ! 1 \<noteq> []
      | Selects_spot \<Rightarrow> ascii_lower (alts ! 0) = ''spt'' \<and> alts ! 1 \<noteq> []
      | Selects_anchor \<Rightarrow> ascii_lower (alts ! 0) \<in> {''fig'', ''tbl'', ''figure''} \<and> alts ! 1 \<noteq> []
      | Selects_external \<Rightarrow> ascii_lower (alts ! 0) \<in> {''other'', ''internet''}
      | Selects_image \<Rightarrow> ascii_lower (alts ! 0) = ''image'' \<and> selector_link_image alts \<noteq> [])"

lemma read_alternatives_fit:
  "read_alternatives alts = Inr link \<Longrightarrow>
     selected_alternatives link = alts \<and> alternatives_fit (selected_kind link) alts \<and> selected_level link = alts ! 4 \<and>
     (selected_kind link = Selects_external \<longrightarrow> selected_destination link = alts ! 3)"
  unfolding read_alternatives_def Let_def
  by (simp split: if_splits; clarify; simp add: linked_def alternatives_fit_def)

lemma read_alternatives_accepted:
  assumes "read_alternatives alts = Inr link" and "length alts = 6 \<or> length alts = 7"
    and "selected_target_kind (selected_kind link) = Some kind"
  shows "selected_alternatives link = alts \<and>
    (valid_cross_reference_target (selector_cross_reference_target kind v alts) \<longleftrightarrow> alts ! 5 \<noteq> [])"
proof -
  note fit = read_alternatives_fit [OF assms(1)]
  have alts: "alts \<noteq> []" "\<not> length alts < 6" "length alts \<noteq> 6 \<longrightarrow> length alts = 7" using assms(2) by auto
  have "cross_book_anchor alts \<noteq> []" if "ascii_lower (alts ! 0) \<in> {''fig'', ''tbl'', ''figure''}" "alts ! 1 \<noteq> []"
    using that assms(2) by (auto simp: cross_book_anchor_def Let_def)
  then show ?thesis
    using fit alts assms(3)
    by (cases "selected_kind link")
      (auto simp: alternatives_fit_def selected_target_kind_def valid_cross_reference_target_def Let_def
        selector_cross_reference_target_def plain_target_def)
qed

lemma length_unbracketed: "unbracketed toks = Inr alts \<Longrightarrow> length alts = length toks"
  by (induction toks arbitrary: alts) (auto simp: and_then_eq_Inr split: if_splits)

text \<open>What the parser of \<open>LNK\<close> alternatives accepts as a link into another book or to a URL, the document check
  accepts as a cross reference target exactly when the sixth alternative, the identifier of the target, is
  not empty; the parser itself does not ask for it.\<close>

lemma selected_targets_checked:
  assumes "parse_selector_link toks = Inr link" and "selected_target_kind (selected_kind link) = Some kind"
  shows "valid_cross_reference_target (selector_cross_reference_target kind v (selected_alternatives link)) \<longleftrightarrow>
    selected_alternatives link ! 5 \<noteq> []"
proof -
  obtain alts where alts: "unbracketed toks = Inr alts" "read_alternatives alts = Inr link"
    and "\<not> length toks < 6" "\<not> length toks > 7"
    using assms(1) by (auto simp: parse_selector_link_def and_then_eq_Inr split: if_splits)
  then have "length alts = 6 \<or> length alts = 7" using length_unbracketed [OF alts(1)] by linarith
  then show ?thesis using read_alternatives_accepted [OF alts(2) _ assms(2)] by auto
qed

definition example_alternatives :: "string \<Rightarrow> string list" where
  "example_alternatives identifier = [''<HDR>'', ''<FMT>'', ''<>'', ''<SC41>'', ''<>'', identifier]"

lemma selected_targets_checked_example:
  "parse_selector_link (example_alternatives ''<>'') =
     Inr (linked [''HDR'', ''FMT'', [], ''SC41'', [], []] Selects_heading ''DOCNUM/SC41/HDRFMT'' []) \<and>
   \<not> valid_cross_reference_target
       (selector_cross_reference_target Book_heading_target [] [''HDR'', ''FMT'', [], ''SC41'', [], []])"
proof -
  let ?link = "linked [''HDR'', ''FMT'', [], ''SC41'', [], []] Selects_heading ''DOCNUM/SC41/HDRFMT'' []"
  have parsed: "parse_selector_link (example_alternatives ''<>'') = Inr ?link" by code_simp
  moreover have "selected_target_kind (selected_kind ?link) = Some Book_heading_target"
    by (simp add: linked_def selected_target_kind_def)
  ultimately show ?thesis
    using selected_targets_checked [of "example_alternatives ''<>''" ?link Book_heading_target "[]"]
    by (simp add: linked_def)
qed

subsection \<open>The catalogue of decoded sources\<close>

lemma parse_selector_operands_bound:
  "parse_selector_operands input = Some (column, len, target) \<Longrightarrow> 0 < len \<and> len < 2 ^ 64 \<and> column < 2 ^ 64"
  using unsigned_less [where 'a = nat and 'b = 64]
  by (auto simp: parse_selector_operands_def parse_decimal_def split: option.splits if_splits)

definition operands_bounded :: "selector_ir \<Rightarrow> bool" where
  "operands_bounded s \<longleftrightarrow>
     (if canonical_operands s then 0 < selector_length s \<and> selector_length s < 2 ^ 64 \<and> selector_column s < 2 ^ 64
      else rejection_reason s \<noteq> [])"

definition selects_of :: "decoded_logical_record_source \<Rightarrow> (nat \<times> nat) list" where
  "selects_of r = map (\<lambda>p. (source_record r, cs_index p)) (filter (\<lambda>p. cs_kind p = Select) (source_segments r))"

lemma select_segment_spec:
  "selector_record (select_segment r t n p) = source_record r \<and> selector_segment (select_segment r t n p) = cs_index p \<and>
   operands_bounded (select_segment r t n p)"
  using parse_selector_operands_bound
  by (auto simp: select_segment_def Let_def operands_bounded_def split: option.split)

lemma select_segments_spec:
  assumes "list_all (segment_ok (length (tokens (source_ir r)))) ps"
  shows "\<exists>final selectors. select_segments r t n ps = Inr (final, selectors) \<and> list_all operands_bounded selectors \<and>
    map (\<lambda>s. (selector_record s, selector_segment s)) selectors =
      map (\<lambda>p. (source_record r, cs_index p)) (filter (\<lambda>p. cs_kind p = Select) ps)"
  using assms
proof (induction ps arbitrary: t n)
  case Nil
  then show ?case by simp
next
  case (Cons p ps)
  let ?opened = "if cs_kind p = Table_start then True else if cs_kind p = Table_end then False else t"
  show ?case
  proof (cases "cs_kind p = Select")
    case False
    then show ?thesis using Cons.IH [of ?opened n] Cons.prems by (simp add: Let_def)
  next
    case True
    obtain final selectors where "select_segments r t (n + 1) ps = Inr (final, selectors)"
      "list_all operands_bounded selectors"
      "map (\<lambda>s. (selector_record s, selector_segment s)) selectors =
        map (\<lambda>p. (source_record r, cs_index p)) (filter (\<lambda>p. cs_kind p = Select) ps)"
      using Cons.IH [of t "n + 1"] Cons.prems by auto
    moreover have "list_all (\<lambda>t. t < length (tokens (source_ir r))) (cs_source_tokens p)"
      using Cons.prems by (simp add: segment_ok_def)
    ultimately show ?thesis using True select_segment_spec [of r t n p] by (simp add: Let_def)
  qed
qed

lemma select_records_spec:
  assumes "list_all (record_sound limit) rs"
  shows "\<exists>selectors. select_records t rs = Inr selectors \<and> list_all operands_bounded selectors \<and>
    map (\<lambda>s. (selector_record s, selector_segment s)) selectors = concat (map selects_of rs)"
  using assms
proof (induction rs arbitrary: t)
  case Nil
  then show ?case by simp
next
  case (Cons r rs)
  have "list_all (segment_ok (length (tokens (source_ir r)))) (source_segments r)"
    using Cons.prems by (simp add: record_sound_def segments_ok_def)
  from select_segments_spec [OF this, of t 0] obtain final selectors where first:
    "select_segments r t 0 (source_segments r) = Inr (final, selectors)" "list_all operands_bounded selectors"
    "map (\<lambda>s. (selector_record s, selector_segment s)) selectors = selects_of r"
    by (auto simp: selects_of_def)
  obtain more where "select_records final rs = Inr more" "list_all operands_bounded more"
    "map (\<lambda>s. (selector_record s, selector_segment s)) more = concat (map selects_of rs)"
    using Cons.IH [of final] Cons.prems by auto
  with first show ?case by simp
qed

lemma differing_index_same [simp]: "differing_index n xs xs = None"
  by (induction xs arbitrary: n) simp_all

text \<open>On decoded sources the catalogue has one selector per \<open>cselect\<close> segment, in the order of the records and of
  the segments in them, and it passes its own check; there is no catalogue only when there is no such
  segment. The operands of a selector are numbers a \<open>std::size_t\<close> holds, with a length that is not 0, or the
  selector says why it has none.\<close>

lemma selectors_catalogued:
  "case decode_logical_record_sources bs dir dict declared ranges first_record end_record of
     Inl e \<Rightarrow> False
   | Inr rs \<Rightarrow>
       (case extract_selector_catalog_ir rs of
          Inl message \<Rightarrow> message = ''source contains no selectors'' \<and> concat (map selects_of rs) = []
        | Inr catalog \<Rightarrow>
            map (\<lambda>s. (selector_record s, selector_segment s)) catalog = concat (map selects_of rs) \<and>
            list_all operands_bounded catalog \<and> verify_selector_catalog_ir rs catalog = None)"
proof -
  obtain rs where rs: "decode_logical_record_sources bs dir dict declared ranges first_record end_record = Inr rs"
    using decode_sources_from_spec [of bs dir dict declared ranges "[]" "[first_record..<end_record]"]
    unfolding decode_logical_record_sources_def by (cases "first_record = 0 \<or> end_record < first_record \<or> end_record > length ranges + 1") auto
  have "list_all (record_sound (length bs)) rs" using decoded_record_sound(1) [OF rs] by (simp add: list_all_iff)
  from select_records_spec [OF this, of False] obtain selectors where
    "select_records False rs = Inr selectors" "list_all operands_bounded selectors"
    "map (\<lambda>s. (selector_record s, selector_segment s)) selectors = concat (map selects_of rs)"
    by blast
  then show ?thesis
    by (auto simp: rs extract_selector_catalog_ir_def verify_selector_catalog_ir_def)
qed

end
