(* ===== verification/Row_Texts.thy ===== *)
theory Row_Texts
  imports Selectors
begin

section \<open>The rows of a topic (\<open>src/render/render_diagnostic.cpp\<close>, \<open>src/ir/sr_anchor_name.cpp\<close>)\<close>

text \<open>
  The representation every topic falls back to: its display lines as they are drawn, with the words of controls
  blanked and the lines that draw nothing left out, and the anchors its structural controls name.
\<close>

subsection \<open>Tokens of controls\<close>

text \<open>The ranges of a segment count bytes of the decoded text; the lookup of tokens counts words. The code hands the
  one to the other unconverted.\<close>

definition range_tokens :: "decoded_logical_record_source \<Rightarrow> output_range \<Rightarrow> nat list" where
  "range_tokens r part =
     (if snd part \<le> fst part then []
      else source_tokens_intersecting_output (source_assembled r) (fst part) (snd part))"

definition segment_control_tokens :: "decoded_logical_record_source \<Rightarrow> control_segment_ir \<Rightarrow> nat list" where
  "segment_control_tokens r segment =
     (if cs_display_text segment \<or> is_display_line_length_opcode r (cs_opcode_range segment) then []
      else range_tokens r (cs_opcode_range segment) @ range_tokens r (cs_operand_range segment) @
           fst (selector_link_alternative_tokens r segment))"

definition control_tokens :: "decoded_logical_record_source \<Rightarrow> nat list" where
  "control_tokens r = concat (map (segment_control_tokens r) (source_segments r))"

definition index_word_tokens :: "decoded_logical_record_source \<Rightarrow> control_segment_ir \<Rightarrow> nat list" where
  "index_word_tokens r segment =
     (let s = source_text r; b = fst (cs_complete segment) in
      if cs_display_text segment \<or> b + 2 > length s \<or> slice s b (b + 2) \<noteq> ''SI'' \<or>
         (b + 2 < length s \<and> s ! (b + 2) \<noteq> CHR '' '') then []
      else source_tokens_intersecting_output (source_assembled r) b (b + 2))"

definition index_entry_marker_tokens :: "decoded_logical_record_source \<Rightarrow> nat list" where
  "index_entry_marker_tokens r =
     (case record_display_lines (source_ir r) of
        Some lines \<Rightarrow> map (\<lambda>line. prefix_token line + 1) (filter (is_subject_index_display_line r) lines)
      | None \<Rightarrow> concat (map (index_word_tokens r) (source_segments r)))"

subsection \<open>Lines of body controls\<close>

text \<open>A line of one \<open>c.xx\<close> opcode with at most one operand, or of a \<open>C.XX\<close> opcode with any.\<close>

definition ascii_of_words :: "token_words \<Rightarrow> string option" where
  "ascii_of_words words =
     (let drawn = filter (\<lambda>word. \<not> word < 4) words in
      if list_ex (\<lambda>word. word > 0x7F) drawn then None else Some (map (\<lambda>word. char_of (unat word)) drawn))"

definition capital_opcode :: "string \<Rightarrow> bool" where
  "capital_opcode s \<longleftrightarrow>
     (let at = 2 + length (takeWhile isupper (drop 2 s)) in at \<ge> 4 \<and> (at = length s \<or> s ! at = CHR '' ''))"

definition shows_words :: "logical_record_ir \<Rightarrow> nat \<Rightarrow> bool" where
  "shows_words ir token =
     (case display_text_words ir token of
        None \<Rightarrow> False
      | Some words \<Rightarrow> list_ex (\<lambda>word. word \<ge> 4 \<and> word \<noteq> 0x20) words)"

definition body_control_display_line :: "decoded_logical_record_source \<Rightarrow> display_line_ir \<Rightarrow> bool" where
  "body_control_display_line r line =
     (if token_end line \<le> prefix_token line + 1 then False
      else case display_text_words (source_ir r) (prefix_token line + 1) of
        None \<Rightarrow> False
      | Some words \<Rightarrow>
          (case ascii_of_words words of
             None \<Rightarrow> False
           | Some s \<Rightarrow>
               if length s \<ge> 4 \<and> take 2 s = ''C.'' then capital_opcode s
               else let t = trim_ascii s in
                 length t \<ge> 4 \<and> take 2 t = ''c.'' \<and> list_all islower (drop 2 t) \<and>
                 length (filter (shows_words (source_ir r)) [prefix_token line + 2..<token_end line]) \<le> 1))"

subsection \<open>Rows\<close>

record best_effort_line =
  line_text :: string
  line_record :: nat
  line_display :: nat
  column_offsets :: "nat list"

definition cell_among :: "nat list \<Rightarrow> display_line_cell_ir \<Rightarrow> bool" where
  "cell_among toks cell = (case cell_token cell of None \<Rightarrow> False | Some token \<Rightarrow> token \<in> set toks)"

definition cell_glyph :: "nat list \<Rightarrow> display_line_cell_ir \<Rightarrow> string" where
  "cell_glyph controls cell =
     (if cell_among controls cell then '' '' else figure_display_glyph (cell_word cell))"

fun offsets_from :: "nat \<Rightarrow> string list \<Rightarrow> nat list" where
  "offsets_from at [] = [at]"
| "offsets_from at (glyph # glyphs) = at # offsets_from (at + length glyph) glyphs"

definition trim_right :: "string \<Rightarrow> string" where
  "trim_right s = rev (dropWhile (\<lambda>ch. ch = CHR '' '') (rev s))"

definition is_index_entry :: "decoded_logical_record_source \<Rightarrow> nat list \<Rightarrow> display_line_ir \<Rightarrow> bool" where
  "is_index_entry r markers line \<longleftrightarrow> list_ex (cell_among markers) (display_line_cells r line)"

definition drawn_line :: "decoded_logical_record_source \<Rightarrow> nat \<Rightarrow> nat \<Rightarrow> display_line_ir \<Rightarrow> best_effort_line option" where
  "drawn_line r record_index line_index line =
     (let glyphs = map (cell_glyph (control_tokens r)) (display_line_cells r line);
          shown = trim_right (concat glyphs) in
      if is_index_entry r (index_entry_marker_tokens r) line \<or> body_control_display_line r line \<or>
         list_all (\<lambda>ch. ch = CHR '' '') shown then None
      else Some \<lparr> line_text = shown, line_record = record_index, line_display = line_index,
                  column_offsets = offsets_from 0 glyphs \<rparr>)"

definition drawn_lines :: "nat \<Rightarrow> decoded_logical_record_source \<Rightarrow> best_effort_line list" where
  "drawn_lines record_index r =
     (case record_display_lines (source_ir r) of
        None \<Rightarrow> []
      | Some lines \<Rightarrow>
          List.map_filter (\<lambda>(line_index, line). drawn_line r record_index line_index line) (enumerate 0 lines))"

text \<open>As long as no line is emitted, a line that ends in the title is not.\<close>

definition title_row :: "string \<Rightarrow> best_effort_line \<Rightarrow> bool" where
  "title_row title line \<longleftrightarrow>
     title \<noteq> [] \<and> length (line_text line) \<ge> length title \<and>
     ascii_equals_case_insensitive (drop (length (line_text line) - length title) (line_text line)) title"

definition best_effort_display_lines ::
  "decoded_logical_record_source list \<Rightarrow> string \<Rightarrow> best_effort_line list" where
  "best_effort_display_lines sources title =
     (let drawn = concat (map (\<lambda>(record_index, r). drawn_lines record_index r) (enumerate 0 sources));
          lines = dropWhile (title_row title) drawn
      in rev (dropWhile (\<lambda>line. line_text line = []) (rev lines)))"

definition best_effort_lines :: "decoded_logical_record_source list \<Rightarrow> string \<Rightarrow> string list" where
  "best_effort_lines sources title = map line_text (best_effort_display_lines sources title)"

subsection \<open>Names of anchors\<close>

definition anchor_word :: "u16 \<Rightarrow> u16 option" where
  "anchor_word word =
     (let word = if word = 0xFFFF then 0x00FF else word in
      if (word \<ge> 0x20 \<and> word \<le> 0x7E) \<or> (word \<ge> 0xA0 \<and> word \<le> 0xFF)
      then Some (if word = 0xA0 then 0x20 else word) else None)"

definition sr_row_anchor_name :: "decoded_logical_record_source \<Rightarrow> nat \<Rightarrow> string option" where
  "sr_row_anchor_name r token =
     (if \<not> display_lines_parse (source_ir r) then None
      else case display_line_of_token (source_ir r) token of
        None \<Rightarrow> None
      | Some line \<Rightarrow>
          if prefix_token line + 1 \<noteq> token then None
          else
            let columns = map anchor_word (display_line_columns r line) in
            if None \<in> set columns then None
            else
              let words = rev (dropWhile (\<lambda>word. word = 0x20) (rev (map the columns))) in
              if length words < 2 \<or> (words ! 0 \<noteq> 0x53 \<and> words ! 0 \<noteq> 0x73) \<or> (words ! 1 \<noteq> 0x52 \<and> words ! 1 \<noteq> 0x72)
              then None
              else if drop 2 words = [] then None
              else Some (token_words_to_ascii (drop 2 words)))"

definition message_row_anchor_name ::
  "decoded_logical_record_source \<Rightarrow> control_segment_ir \<Rightarrow> string option" where
  "message_row_anchor_name r segment =
     (if cs_source_tokens segment = [] then None
      else case sr_row_anchor_name r (hd (cs_source_tokens segment)) of
        None \<Rightarrow> None
      | Some name \<Rightarrow>
          if length name < 3 \<or> \<not> ascii_equals_case_insensitive (take 3 name) ''msg'' \<or>
             (length name > 3 \<and> name ! 3 \<noteq> CHR '' '') then None
          else Some (''MSG'' @ drop 3 name))"

definition message_anchor :: "decoded_logical_record_source \<Rightarrow> control_segment_ir \<Rightarrow> string option" where
  "message_anchor r segment =
     (let (b, e) = cs_operand_range segment; s = source_text r;
          i = trim_ascii (slice s (min b (length s)) (min e (length s)))
      in if e \<le> b then None
         else if i = [] then None
         else case message_row_anchor_name r segment of Some stored \<Rightarrow> Some stored | None \<Rightarrow> Some (''MSG '' @ i))"

definition structural_anchor :: "decoded_logical_record_source \<Rightarrow> control_segment_ir \<Rightarrow> string option" where
  "structural_anchor r segment =
     (let opcode = cs_opcode segment; i = drop 2 opcode;
          stored = (if cs_source_tokens segment = [] then None
                    else sr_row_anchor_name r (hd (cs_source_tokens segment)));
          name = (case stored of
                    None \<Rightarrow> i
                  | Some row \<Rightarrow>
                      if length row > length i \<and> ascii_equals_case_insensitive (take (length i) row) i \<and>
                         row ! length i = CHR '' '' then row else i)
      in if length opcode \<le> 2 \<or> ascii_lower (take 2 opcode) \<noteq> ''sr'' \<or> ascii_lower (take 3 i) = ''ftn'' \<or>
            ascii_lower name = ''gls'' then None
         else Some name)"

definition segment_anchor :: "decoded_logical_record_source \<Rightarrow> control_segment_ir \<Rightarrow> string option" where
  "segment_anchor r segment =
     (if cs_display_text segment then None
      else if cs_kind segment = Message_start then message_anchor r segment
      else if cs_kind segment = Structural \<or> cs_kind segment = Table_start then structural_anchor r segment
      else None)"

definition footnote_anchor :: "control_segment_ir \<Rightarrow> string option" where
  "footnote_anchor segment =
     (if cs_display_text segment \<or> cs_kind segment \<noteq> Structural \<or> length (cs_opcode segment) \<le> 5 \<or>
         ascii_lower (take 5 (cs_opcode segment)) \<noteq> ''srftn'' then None
      else Some (drop 2 (cs_opcode segment)))"

definition push_once :: "'a list \<Rightarrow> 'a \<Rightarrow> 'a list" where
  "push_once xs x = (if x \<in> set xs then xs else xs @ [x])"

definition best_effort_anchors :: "decoded_logical_record_source list \<Rightarrow> string list" where
  "best_effort_anchors sources =
     foldl push_once [] (concat (map (\<lambda>r. List.map_filter (segment_anchor r) (source_segments r)) sources))"

definition best_effort_footnote_anchors :: "decoded_logical_record_source list \<Rightarrow> string list" where
  "best_effort_footnote_anchors sources =
     foldl push_once [] (concat (map (\<lambda>r. List.map_filter footnote_anchor (source_segments r)) sources))"

end
