(* ===== verification/Verbatim_Rows.thy ===== *)
theory Verbatim_Rows
  imports Row_Texts
begin

section \<open>Links of verbatim rows (\<open>src/lowering/verbatim_cross_references.cpp\<close>)\<close>

text \<open>
  The selectors of a topic bound to the rows they mark. The rows keep their texts; a link is a byte range of one.
  The links of a row are sorted by their ranges with \<open>std::sort\<close>, modelled as a stable sort: of two links with one
  range the code may keep either, the model keeps the first.
\<close>

subsection \<open>Targets\<close>

definition anchor_shaped :: "string \<Rightarrow> bool" where
  "anchor_shaped target \<longleftrightarrow> target \<noteq> [] \<and> list_all (\<lambda>ch. isalnum ch \<or> ch = CHR ''_'' \<or> ch = CHR ''-'') target"

definition picture_object :: "string \<Rightarrow> bool" where
  "picture_object target \<longleftrightarrow>
     ascii_starts_with_case_insensitive target ''pic'' \<and> length target > 3 \<and> list_all isdigit (drop 3 target)"

definition plain_link :: verbatim_link where
  "plain_link =
     \<lparr> link_begin = 0, link_end = 0, verbatim_kind = In_book_link, link_target = [], link_alternatives = [],
       link_document_number = [], link_document_level = [], link_heading_anchor = [], link_spot_anchor = [],
       link_book_anchor = [], link_url = [] \<rparr>"

definition alternatives_link :: "selector_link \<Rightarrow> verbatim_link option" where
  "alternatives_link parsed =
     (let alts = selected_alternatives parsed;
          link = plain_link\<lparr>link_target := alts ! 5, link_alternatives := alts\<rparr>;
          booked = link\<lparr>link_document_number := alts ! 3, link_document_level := selected_level parsed\<rparr>
      in (case selected_kind parsed of
            Selects_contents \<Rightarrow> Some (booked\<lparr>verbatim_kind := Book_contents_link\<rparr>)
          | Selects_heading \<Rightarrow> Some (booked\<lparr>verbatim_kind := Book_heading_link, link_heading_anchor := alts ! 1\<rparr>)
          | Selects_external \<Rightarrow>
              Some (link\<lparr>verbatim_kind := External_url_link, link_url := selected_destination parsed\<rparr>)
          | _ \<Rightarrow> None))"

definition link_of_selector ::
  "decoded_logical_record_source \<Rightarrow> control_segment_ir \<Rightarrow> selector_ir \<Rightarrow> verbatim_link option" where
  "link_of_selector r segment selector =
     (if ascii_lower (selector_target selector) = ''lnk'' then
        (case parse_selector_link (snd (selector_link_alternative_tokens r segment)) of
           Inl _ \<Rightarrow> None
         | Inr parsed \<Rightarrow> alternatives_link parsed)
      else if \<not> anchor_shaped (selector_target selector) \<or> picture_object (selector_target selector) then None
      else Some (plain_link\<lparr>link_target := selector_target selector\<rparr>))"

subsection \<open>The marked row\<close>

text \<open>The index of the line of a token, for the pointer the code passes on.\<close>

definition line_index_of_token :: "logical_record_ir \<Rightarrow> nat \<Rightarrow> nat option" where
  "line_index_of_token ir token =
     (if \<not> display_lines_parse ir then None
      else find (\<lambda>i. prefix_token (display_lines ir ! i) \<le> token \<and> token < token_end (display_lines ir ! i))
             [0..<length (display_lines ir)])"

definition selector_control_line :: "decoded_logical_record_source \<Rightarrow> control_segment_ir \<Rightarrow> nat option" where
  "selector_control_line r segment =
     (let toks = sort (source_tokens_intersecting_output (source_assembled r)
                         (fst (cs_opcode_range segment)) (snd (cs_operand_range segment)) @
                       fst (selector_link_alternative_tokens r segment)) in
      if toks = [] then None
      else let first = line_index_of_token (source_ir r) (hd toks);
               final = line_index_of_token (source_ir r) (last toks) in
           if first = None \<or> first \<noteq> final then None else first)"

definition covered_row :: "best_effort_line list \<Rightarrow> nat \<Rightarrow> nat \<Rightarrow> nat option" where
  "covered_row lines record_index control_index =
     find (\<lambda>i. \<not> line_record (lines ! i) < record_index \<and>
             \<not> (line_record (lines ! i) = record_index \<and> line_display (lines ! i) \<le> control_index))
       [0..<length lines]"

fun trimmed_end :: "string \<Rightarrow> nat \<Rightarrow> nat \<Rightarrow> nat" where
  "trimmed_end s b e = (if e > b \<and> s ! (e - 1) = CHR '' '' then trimmed_end s b (e - 1) else e)"

declare trimmed_end.simps [simp del]

text \<open>The bytes of a range of columns. The sum is one of \<open>std::size_t\<close>.\<close>

definition marked_span :: "best_effort_line \<Rightarrow> nat \<Rightarrow> nat \<Rightarrow> (nat \<times> nat) option" where
  "marked_span row column len =
     (let offsets = column_offsets row; columns = length offsets - 1; s = line_text row;
          b = min (offsets ! column) (length s);
          e = min (offsets ! min (unat (of_nat column + of_nat len :: u64)) columns) (length s);
          b' = run_end s (\<lambda>ch. ch = CHR '' '') b e;
          e' = trimmed_end s b' e
      in if offsets = [] \<or> column \<ge> columns then None
         else if b' \<ge> e' then None else Some (b', e'))"

definition bind_selector ::
  "decoded_logical_record_source list \<Rightarrow> best_effort_line list \<Rightarrow> selector_ir \<Rightarrow> (nat \<times> verbatim_link) option" where
  "bind_selector sources lines selector =
     (if \<not> canonical_operands selector \<or> selector_length selector = 0 then None
      else case find (\<lambda>i. source_record (sources ! i) = selector_record selector) [0..<length sources] of
        None \<Rightarrow> None
      | Some record_index \<Rightarrow>
          let r = sources ! record_index in
          if selector_segment selector \<ge> length (source_segments r) then None
          else
            let segment = source_segments r ! selector_segment selector in
            (case link_of_selector r segment selector of
               None \<Rightarrow> None
             | Some link \<Rightarrow>
                 (case selector_control_line r segment of
                    None \<Rightarrow> None
                  | Some control_index \<Rightarrow>
                      if record_display_lines (source_ir r) = None then None
                      else if list_ex (\<lambda>l. line_record l = record_index \<and> line_display l = control_index) lines
                      then None
                      else case covered_row lines record_index control_index of
                        None \<Rightarrow> None
                      | Some covered \<Rightarrow>
                          map_option (\<lambda>(b, e). (covered, link\<lparr>link_begin := b, link_end := e\<rparr>))
                            (marked_span (lines ! covered) (selector_column selector) (selector_length selector)))))"

subsection \<open>Rows with links\<close>

text \<open>Of overlapping links the later one is dropped; a footnote is noted when this topic prints it.\<close>

fun accept_links ::
  "string list \<Rightarrow> verbatim_link list \<Rightarrow> string list \<Rightarrow> verbatim_link list \<Rightarrow> verbatim_link list \<times> string list" where
  "accept_links printed accepted notes [] = (accepted, notes)"
| "accept_links printed accepted notes (link # links) =
     (if accepted \<noteq> [] \<and> link_begin link < link_end (last accepted)
      then accept_links printed accepted notes links
      else accept_links printed (accepted @ [link])
        (if verbatim_kind link = In_book_link \<and> ascii_starts_with_case_insensitive (link_target link) ''ftn'' \<and>
            link_target link \<in> set printed \<and> link_target link \<notin> set notes
         then notes @ [link_target link] else notes) links)"

fun link_rows ::
  "string list \<Rightarrow> (nat \<times> verbatim_link) list \<Rightarrow> nat \<Rightarrow> string list \<Rightarrow> best_effort_line list \<Rightarrow>
   verbatim_row list \<times> string list" where
  "link_rows printed bound index notes [] = ([], notes)"
| "link_rows printed bound index notes (line # lines) =
     (let links = sort_key (\<lambda>l. (link_begin l, link_end l)) (map snd (filter (\<lambda>x. fst x = index) bound));
          (accepted, notes') = accept_links printed [] notes links;
          (rows, notes'') = link_rows printed bound (index + 1) notes' lines
      in (\<lparr>row_text = line_text line, row_links = accepted\<rparr> # rows, notes''))"

definition link_verbatim_cross_references ::
  "decoded_logical_record_source list \<Rightarrow> best_effort_line list \<Rightarrow> string list \<Rightarrow>
   verbatim_row list \<times> string list" where
  "link_verbatim_cross_references sources lines printed =
     (case extract_selector_catalog_ir sources of
        Inl _ \<Rightarrow> (map (\<lambda>line. \<lparr>row_text = line_text line, row_links = []\<rparr>) lines, [])
      | Inr catalog \<Rightarrow>
          if verify_selector_catalog_ir sources catalog \<noteq> None
          then (map (\<lambda>line. \<lparr>row_text = line_text line, row_links = []\<rparr>) lines, [])
          else link_rows printed (List.map_filter (bind_selector sources lines) catalog) 0 [] lines)"

subsection \<open>The markup of a row\<close>

definition escape_row_char :: "char \<Rightarrow> string" where
  "escape_row_char ch =
     (if ch = CHR ''&'' then ''&amp;'' else if ch = CHR ''<'' then ''&lt;'' else if ch = CHR ''>'' then ''&gt;''
      else [ch])"

definition escape_row_text :: "string \<Rightarrow> string" where
  "escape_row_text s = concat (map escape_row_char s)"

definition escape_row_attribute :: "string \<Rightarrow> string" where
  "escape_row_attribute s = concat (map (\<lambda>ch. if ch = CHR 0x22 then ''&quot;'' else escape_row_char ch) s)"

definition link_destination :: "verbatim_link \<Rightarrow> string" where
  "link_destination link =
     (case verbatim_kind link of
        In_book_link \<Rightarrow> CHR ''#'' # link_target link
      | External_url_link \<Rightarrow> link_url link
      | _ \<Rightarrow> ''#'')"

fun render_links :: "string \<Rightarrow> nat \<Rightarrow> verbatim_link list \<Rightarrow> string" where
  "render_links s cursor [] = escape_row_text (drop cursor s)"
| "render_links s cursor (link # links) =
     (if link_begin link < cursor \<or> link_end link > length s \<or> link_begin link \<ge> link_end link
      then render_links s cursor links
      else escape_row_text (slice s cursor (link_begin link)) @
           ''<a href='' @ [CHR 0x22] @ escape_row_attribute (link_destination link) @ [CHR 0x22] @ ''>'' @
           escape_row_text (slice s (link_begin link) (link_end link)) @ ''</a>'' @
           render_links s (link_end link) links)"

definition render_verbatim_row :: "verbatim_row \<Rightarrow> string" where
  "render_verbatim_row row = render_links (row_text row) 0 (row_links row)"

subsection \<open>Links are sound\<close>

abbreviation link_range :: "verbatim_link \<Rightarrow> nat \<times> nat" where
  "link_range link \<equiv> (link_begin link, link_end link)"

lemma verify_row_links_iff:
  "p \<le> length s \<Longrightarrow>
   verify_row_links s p links = None \<longleftrightarrow>
     gapped (map link_range links) p (length s) \<and> list_all (\<lambda>l. link_fields_verdict l = None) links"
proof (induction links arbitrary: p)
  case Nil
  then show ?case by simp
next
  case (Cons l links)
  show ?case
  proof (cases "link_end l \<le> length s")
    case True
    then show ?thesis using Cons.IH [of "link_end l"] by auto
  next
    case False
    then have "\<not> gapped (map link_range (l # links)) p (length s)" using gapped_le by auto
    then show ?thesis using False by auto
  qed
qed

lemma trimmed_end_le: "trimmed_end s b e \<le> e"
proof (induction s b e rule: trimmed_end.induct)
  case (1 s b e)
  show ?case
  proof (cases "e > b \<and> s ! (e - 1) = CHR '' ''")
    case True
    with 1 have "trimmed_end s b (e - 1) \<le> e - 1" by simp
    with True show ?thesis by (subst trimmed_end.simps) simp
  qed (subst trimmed_end.simps, auto)
qed

lemma marked_span_bounds:
  assumes "marked_span row column len = Some (b, e)"
  shows "b < e \<and> e \<le> length (line_text row)"
proof -
  let ?s = "line_text row" and ?offsets = "column_offsets row"
  define e0 where "e0 = min (?offsets ! min (unat (of_nat column + of_nat len :: u64)) (length ?offsets - 1)) (length ?s)"
  define b0 where "b0 = run_end ?s (\<lambda>ch. ch = CHR '' '') (min (?offsets ! column) (length ?s)) e0"
  have "marked_span row column len =
      (if ?offsets = [] \<or> column \<ge> length ?offsets - 1 then None
       else if b0 \<ge> trimmed_end ?s b0 e0 then None else Some (b0, trimmed_end ?s b0 e0))"
    by (simp only: marked_span_def Let_def b0_def e0_def)
  with assms have "b < e" "e = trimmed_end ?s b0 e0" by (auto split: if_splits)
  moreover have "e0 \<le> length ?s" by (simp add: e0_def)
  ultimately show ?thesis using trimmed_end_le [of ?s b0 e0] by linarith
qed

text \<open>A link with all the fields the document check asks of its kind, but for the identifier of a target in another
  book.\<close>

definition targeted :: "verbatim_link \<Rightarrow> bool" where
  "targeted link \<longleftrightarrow> link_target link \<noteq> [] \<or> verbatim_kind link = External_url_link"

definition fields_complete :: "verbatim_link \<Rightarrow> bool" where
  "fields_complete link \<longleftrightarrow> (link_fields_verdict link = None \<longleftrightarrow> targeted link)"

lemma link_of_selector_complete:
  assumes "link_of_selector r segment selector = Some link"
  shows "fields_complete (link\<lparr>link_begin := b, link_end := e\<rparr>)"
proof (cases "ascii_lower (selector_target selector) = ''lnk''")
  case True
  then obtain parsed where parsed: "parse_selector_link (snd (selector_link_alternative_tokens r segment)) = Inr parsed"
    and link: "alternatives_link parsed = Some link"
    using assms by (auto simp: link_of_selector_def split: sum.splits)
  then obtain alts where "read_alternatives alts = Inr parsed"
    by (auto simp: parse_selector_link_def and_then_eq_Inr split: if_splits)
  from read_alternatives_fit [OF this] link show ?thesis
    by (cases "selected_kind parsed")
      (auto simp: alternatives_link_def Let_def alternatives_fit_def fields_complete_def targeted_def
        link_fields_verdict_def plain_link_def)
next
  case False
  then have "link = plain_link\<lparr>link_target := selector_target selector\<rparr>" "anchor_shaped (selector_target selector)"
    using assms by (auto simp: link_of_selector_def split: if_splits)
  then show ?thesis
    by (simp add: fields_complete_def targeted_def link_fields_verdict_def plain_link_def anchor_shaped_def)
qed

lemma bind_selector_sound:
  assumes "bind_selector sources lines selector = Some (covered, link)"
  shows "link_begin link < link_end link \<and> link_end link \<le> length (line_text (lines ! covered)) \<and> fields_complete link"
proof -
  obtain r segment link' b e where "link_of_selector r segment selector = Some link'"
    and "marked_span (lines ! covered) (selector_column selector) (selector_length selector) = Some (b, e)"
    and "link = link'\<lparr>link_begin := b, link_end := e\<rparr>"
    using assms by (auto simp: bind_selector_def Let_def split: if_splits option.splits)
  then show ?thesis using marked_span_bounds link_of_selector_complete by force
qed

definition accepted_end :: "verbatim_link list \<Rightarrow> nat" where
  "accepted_end links = (if links = [] then 0 else link_end (last links))"

lemma accept_links_sound:
  assumes "gapped (map link_range accepted) 0 (accepted_end accepted)" and "accepted_end accepted \<le> n"
    and "\<forall>l \<in> set links. link_begin l < link_end l \<and> link_end l \<le> n"
  shows "gapped (map link_range (fst (accept_links printed accepted ns links))) 0 n \<and>
    set (fst (accept_links printed accepted ns links)) \<subseteq> set accepted \<union> set links"
  using assms
proof (induction links arbitrary: accepted ns)
  case Nil
  then show ?case using gapped_upper by auto
next
  case (Cons l links)
  show ?case
  proof (cases "accepted \<noteq> [] \<and> link_begin l < link_end (last accepted)")
    case True
    then show ?thesis using Cons.IH [of accepted ns] Cons.prems by auto
  next
    case False
    then have "accepted_end accepted \<le> link_begin l" by (auto simp: accepted_end_def)
    then have "gapped (map link_range (accepted @ [l])) 0 (accepted_end (accepted @ [l]))"
      using Cons.prems(1,3) by (auto simp: gapped_append accepted_end_def [of "_ @ _"])
    then show ?thesis
      using Cons.IH [of "accepted @ [l]"] Cons.prems(2,3) False by (auto simp: accepted_end_def)
  qed
qed

definition row_sound :: "verbatim_row \<Rightarrow> bool" where
  "row_sound row \<longleftrightarrow>
     (verify_row_links (row_text row) 0 (row_links row) = None \<longleftrightarrow> list_all targeted (row_links row)) \<and>
     gapped (map link_range (row_links row)) 0 (length (row_text row))"

lemma link_rows_sound:
  assumes "\<And>i l. (i, l) \<in> set bound \<Longrightarrow> index \<le> i \<Longrightarrow> i < index + length lines \<Longrightarrow>
      link_begin l < link_end l \<and> link_end l \<le> length (line_text (lines ! (i - index))) \<and> fields_complete l"
  shows "map row_text (fst (link_rows printed bound index ns lines)) = map line_text lines \<and>
    list_all row_sound (fst (link_rows printed bound index ns lines))"
  using assms
proof (induction lines arbitrary: index ns)
  case Nil
  then show ?case by simp
next
  case (Cons line lines)
  define links where
    "links = sort_key (\<lambda>l. (link_begin l, link_end l)) (map snd (filter (\<lambda>x. fst x = index) bound))"
  define accepted where "accepted = fst (accept_links printed [] ns links)"
  have links: "\<forall>l \<in> set links. link_begin l < link_end l \<and> link_end l \<le> length (line_text line) \<and> fields_complete l"
    using Cons.prems [of index] by (auto simp: links_def)
  have sound: "gapped (map link_range accepted) 0 (length (line_text line)) \<and> set accepted \<subseteq> set links"
    using accept_links_sound [of "[]" "length (line_text line)" links printed ns] links
    by (simp add: accepted_def accepted_end_def)
  then have "row_sound \<lparr>row_text = line_text line, row_links = accepted\<rparr>"
    using links by (auto simp: row_sound_def verify_row_links_iff list_all_iff fields_complete_def)
  moreover have "map row_text (fst (link_rows printed bound (index + 1) ns' lines)) = map line_text lines \<and>
      list_all row_sound (fst (link_rows printed bound (index + 1) ns' lines))" for ns'
  proof (rule Cons.IH)
    fix i l
    assume "(i, l) \<in> set bound" "index + 1 \<le> i" "i < index + 1 + length lines"
    then show "link_begin l < link_end l \<and> link_end l \<le> length (line_text (lines ! (i - (index + 1)))) \<and> fields_complete l"
      using Cons.prems [of i l] by (simp add: nth_Cons' Suc_diff_le)
  qed
  ultimately show ?case
    by (simp add: Let_def links_def [symmetric] accepted_def split: prod.split) (metis fst_conv)
qed

lemma verbatim_rows_kept:
  "map row_text (fst (link_verbatim_cross_references sources lines printed)) = map line_text lines \<and>
   list_all row_sound (fst (link_verbatim_cross_references sources lines printed))"
proof -
  have plain: "row_sound \<lparr>row_text = line_text line, row_links = []\<rparr>" for line
    by (simp add: row_sound_def)
  have "map row_text (fst (link_rows printed (List.map_filter (bind_selector sources lines) catalog) 0 [] lines)) =
      map line_text lines \<and>
    list_all row_sound (fst (link_rows printed (List.map_filter (bind_selector sources lines) catalog) 0 [] lines))"
    for catalog
  proof (rule link_rows_sound)
    fix i l
    assume "(i, l) \<in> set (List.map_filter (bind_selector sources lines) catalog)"
    then obtain selector where "bind_selector sources lines selector = Some (i, l)"
      by (auto simp: List.map_filter_def)
    from bind_selector_sound [OF this]
    show "link_begin l < link_end l \<and> link_end l \<le> length (line_text (lines ! (i - 0))) \<and> fields_complete l" by simp
  qed
  with plain show ?thesis
    by (auto simp: link_verbatim_cross_references_def list_all_iff split: sum.split)
qed

text \<open>C19: Linking keeps the rows: their number and their texts. The links of a row are ranges of characters inside it,
  in order and without overlap, and the document check accepts them exactly when every link into another book
  names the identifier of its target, which the selectors it is made of may leave empty.\<close>

theorem verbatim_links_sound:
  "map row_text (fst (link_verbatim_cross_references sources lines printed)) = map line_text lines \<and>
   list_all row_sound (fst (link_verbatim_cross_references sources lines printed))"
  by (rule verbatim_rows_kept)

end
