(* ===== verification/Row_Documents.thy ===== *)
theory Row_Documents
  imports Verbatim_Rows Document_Origins Row_Revisions
begin

section \<open>Documents of source rows (\<open>src/lowering/source_rows_document_lowering.cpp\<close>)\<close>

text \<open>
  The document of a topic that no typed reader claims: a heading, the anchors its controls name, and one block of
  rows with the links bound to them. The consumers check it before they print it.
\<close>

definition synthesized :: "string \<Rightarrow> node_origin" where
  "synthesized detail =
     \<lparr> derivation = Synthesized, origin_slices = [], origin_rows = [], origin_detail = detail, fidelity = Typed,
       degradation_code = [], degradation_detail = [] \<rparr>"

definition heading_level_of :: "string \<Rightarrow> u32" where
  "heading_level_of level =
     (let word = takeWhile (\<lambda>ch. ch \<noteq> CHR '' '' \<and> ch \<noteq> CHR 0x09) (ascii_lower level);
          tag = (if word \<noteq> [] \<and> hd word = CHR '':'' then tl word else word)
      in if length tag = 2 \<and> hd tag = CHR ''h'' \<and> CHR ''1'' \<le> last tag \<and> last tag \<le> CHR ''6''
         then of_nat (char_code (last tag) - 48) else 1)"

text \<open>The tokens behind the length byte of a line.\<close>

definition line_slices :: "decoded_logical_record_source \<Rightarrow> display_line_ir \<Rightarrow> source_slice list" where
  "line_slices r line =
     (let toks = tokens (source_ir r); b = min (prefix_token line + 1) (length toks);
          e = min (token_end line) (length toks)
      in if b \<ge> e then []
         else [\<lparr> slice_logical_record = of_nat (source_record r), segment_index = 0, token_begin = of_nat b,
                 slice_token_end = of_nat e, byte_begin = of_nat (fst (byte_range (toks ! b))),
                 byte_end = of_nat (snd (byte_range (toks ! (e - 1)))), character_begin = 0, character_end = 0 \<rparr>])"

definition line_origin :: "decoded_logical_record_source list \<Rightarrow> best_effort_line \<Rightarrow> node_origin" where
  "line_origin sources line =
     (let origin = (synthesized ''decoded source display row'')\<lparr>derivation := Semantic_lowering\<rparr> in
      if line_record line \<ge> length sources then origin
      else case record_display_lines (source_ir (sources ! line_record line)) of
        None \<Rightarrow> origin
      | Some lines \<Rightarrow>
          if line_display line \<ge> length lines then origin
          else origin\<lparr>origin_slices := line_slices (sources ! line_record line) (lines ! line_display line)\<rparr>)"

definition role_of_anchor :: "string \<Rightarrow> anchor_role" where
  "role_of_anchor i =
     (if ascii_starts_with_case_insensitive i ''fig'' then Figure_role
      else if ascii_starts_with_case_insensitive i ''tbl'' then Table_role else Cross_reference_role)"

definition anchor_block_of :: "string \<Rightarrow> anchor_role \<Rightarrow> block_ir" where
  "anchor_block_of i role =
     Block (Anchor_block \<lparr>anchor_id = i, anchor_role = role\<rparr>) (synthesized ''source-row structural destination'')"

definition block_has_body :: "block_ir \<Rightarrow> bool" where
  "block_has_body b =
     (case block_node b of
        Heading_block _ _ _ \<Rightarrow> False
      | Anchor_block _ \<Rightarrow> False
      | Preformatted_block pre \<Rightarrow> pre_lines pre \<noteq> []
      | _ \<Rightarrow> True)"

definition document_ir_has_body :: "document_ir \<Rightarrow> bool" where
  "document_ir_has_body document \<longleftrightarrow> list_ex block_has_body (document_blocks document)"

definition heading_of_topic ::
  "topic_identity \<Rightarrow> decoded_logical_record_source list \<Rightarrow> block_ir" where
  "heading_of_topic topic sources =
     Block
       (Heading_block (heading_level_of (topic_heading_level topic))
          [Inline (Text_inline ((if topic_id topic = [] then [] else topic_id topic @ '' '') @ topic_title topic))
             (synthesized ''public topic identity and title'')]
          (topic_title_revision_mark sources))
       (synthesized ''source-row topic heading'')"

definition block_of_rows ::
  "decoded_logical_record_source list \<Rightarrow> best_effort_line list \<Rightarrow> verbatim_row list \<Rightarrow> block_ir" where
  "block_of_rows sources lines rows =
     Block
       (Preformatted_block
          \<lparr> pre_lines = map row_text rows, pre_line_origins = map (line_origin sources) (take (length rows) lines),
            pre_line_links = map row_links rows, pre_line_anchors = [], pre_styled_lines = [] \<rparr>)
       ((synthesized ''decoded source display rows'')\<lparr>derivation := Semantic_lowering\<rparr>)"

record source_rows_lowering =
  lowered_document :: "document_ir option"
  source_was_decoded :: bool
  lowering_has_body :: bool

definition lower_source_rows_to_document_ir ::
  "topic_identity \<Rightarrow> decoded_logical_record_source list \<Rightarrow> source_rows_lowering" where
  "lower_source_rows_to_document_ir topic sources =
     (if sources = [] then \<lparr>lowered_document = None, source_was_decoded = False, lowering_has_body = False\<rparr>
      else
        let printed = best_effort_footnote_anchors sources;
            lines = best_effort_display_lines sources (topic_title topic);
            rows = fst (link_verbatim_cross_references sources lines printed);
            blocks =
              heading_of_topic topic sources #
              map (\<lambda>i. anchor_block_of i (role_of_anchor i)) (best_effort_anchors sources) @
              map (\<lambda>i. anchor_block_of i Local_role) printed @
              (if rows = [] then [] else [block_of_rows sources lines rows]);
            document = normalize_document_origin_slices
              \<lparr>document_topic = topic, document_blocks = blocks, named_destinations = []\<rparr>
        in \<lparr> lowered_document = Some document, source_was_decoded = True,
             lowering_has_body = document_ir_has_body document \<rparr>)"

subsection \<open>Origins of rows\<close>

lemma verify_synthesized [simp]: "verify_origin (synthesized detail) = None"
  by (simp add: synthesized_def verify_origin_def)

lemma unat_of_nat_u64: "n < 2 ^ 64 \<Longrightarrow> unat (of_nat n :: u64) = n"
  by (simp add: unat_of_nat take_bit_nat_eq_self)

lemma line_slices_valid:
  assumes "record_sound limit r" and "0 < source_record r" and "source_record r < 2 ^ 32" and "limit < 2 ^ 32"
  shows "verify_slices None (line_slices r line) = None"
proof -
  define toks where "toks = tokens (source_ir r)"
  define b where "b = min (prefix_token line + 1) (length toks)"
  define e where "e = min (token_end line) (length toks)"
  let ?s = "\<lparr> slice_logical_record = of_nat (source_record r), segment_index = 0, token_begin = of_nat b,
     slice_token_end = of_nat e, byte_begin = of_nat (fst (byte_range (toks ! b))),
     byte_end = of_nat (snd (byte_range (toks ! (e - 1)))), character_begin = 0, character_end = 0 \<rparr>"
  have slices: "line_slices r line = (if b \<ge> e then [] else [?s])"
    by (simp only: line_slices_def Let_def b_def e_def toks_def)
  show ?thesis
  proof (cases "b \<ge> e")
    case True
    then show ?thesis by (simp add: slices)
  next
    case False
    then have be: "b < e" "e \<le> length toks" by (simp_all only: not_le e_def min.cobounded2)
    have "tokens_in_order limit toks" and few: "length toks \<le> limit"
      using assms(1) by (simp_all add: record_sound_def toks_def)
    then have order: "fst (byte_range (toks ! b)) < snd (byte_range (toks ! (e - 1)))"
      "snd (byte_range (toks ! (e - 1))) \<le> limit"
      using be unfolding tokens_in_order_def by (auto elim!: allE [where x = b] allE [where x = "e - 1"])
    have "of_nat (source_record r) \<noteq> (0 :: u32)" using assms(2,3) of_nat_u32_eq_0 by simp
    moreover have "(of_nat b :: u64) \<le> of_nat e"
      using be few assms(4) by (simp add: word_le_nat_alt unat_of_nat_u64)
    moreover have "(of_nat (fst (byte_range (toks ! b))) :: u32) \<le> of_nat (snd (byte_range (toks ! (e - 1))))"
      using order assms(4) by (simp add: word_le_nat_alt unat_of_nat take_bit_nat_eq_self)
    ultimately show ?thesis using False by (simp add: slices)
  qed
qed

lemma line_origin_verifies:
  assumes "list_all (\<lambda>r. record_sound limit r \<and> 0 < source_record r \<and> source_record r < 2 ^ 32) sources" and "limit < 2 ^ 32"
  shows "verify_origin (line_origin sources line) = None"
proof -
  have "verify_slices None (line_slices (sources ! i) l) = None" if "i < length sources" for i l
    using assms that by (intro line_slices_valid) (simp_all add: list_all_length)
  then show ?thesis
    by (auto simp: line_origin_def synthesized_def verify_origin_def Let_def split: option.split)
qed

subsection \<open>Lifted origins are valid\<close>

lemma lifted_origin_verifies:
  assumes "derivation container = Semantic_lowering" and "origin_slices container = []" and "origin_rows container = []"
    and "\<forall>c \<in> set children. verify_origin c = None"
  shows "verify_origin (lift_into container children) = None"
proof (cases "lifted_slices children = []")
  case True
  then show ?thesis using assms by (simp add: lift_into_def verify_origin_def)
next
  case False
  let ?ss = "merge_slices (lifted_slices children)"
  have blank: "character_begin s = 0 \<and> character_end s = 0" if "s \<in> set ?ss" for s
    using that by (auto simp: lifted_slices_def widened_def)
  have "slice_valid s" if "s \<in> set (origin_slices c)" "c \<in> set children" for s c
    using assms(4) that by (auto simp: verify_origin_def verify_slices_None_iff list_all_iff)
  then have "list_all slice_valid ?ss"
    by (auto simp: list_all_iff lifted_slices_def widened_def slice_valid_def)
  moreover have "sorted_wrt (\<lambda>s t. slice_key s < slice_key t) ?ss"
    using key_sorted_merge [of "lifted_slices children"] unfolding key_sorted_def sorted_wrt_map
    by (rule sorted_wrt_mono_rel [rotated]) (use blank in \<open>auto simp: full_key_def slice_key_def\<close>)
  ultimately show ?thesis
    using assms(1-3) False by (simp add: lift_into_def Let_def verify_origin_def verify_slices_None_iff)
qed

subsection \<open>Anchors have names\<close>

lemma set_kept: "set (List.map_filter f xs) = {y. \<exists>x \<in> set xs. f x = Some y}"
  by (force simp: List.map_filter_def)

lemma foldl_push_once: "set (foldl push_once ys xs) = set ys \<union> set xs"
  by (induction xs arbitrary: ys) (auto simp: push_once_def)

lemma segment_anchor_named: "segment_anchor r segment = Some i \<Longrightarrow> i \<noteq> []"
  by (cases "cs_operand_range segment")
    (auto simp: segment_anchor_def message_anchor_def structural_anchor_def message_row_anchor_name_def Let_def
      split: if_splits option.splits)

lemma anchors_named: "\<forall>i \<in> set (best_effort_anchors sources). i \<noteq> []"
  by (auto simp: best_effort_anchors_def foldl_push_once set_kept dest: segment_anchor_named)

lemma footnotes_named: "\<forall>i \<in> set (best_effort_footnote_anchors sources). i \<noteq> []"
  by (auto simp: best_effort_footnote_anchors_def foldl_push_once set_kept footnote_anchor_def split: if_splits)

subsection \<open>Documents of rows are valid\<close>

lemma lift_synthesized [simp]: "lift_into (synthesized detail) children = synthesized detail"
  by (simp add: lift_into_def synthesized_def)

lemma slices_of_synthesized [simp]: "origin_slices (synthesized detail) = []"
  by (simp add: synthesized_def)

lemma heading_verifies:
  "normalize_block (heading_of_topic topic sources) = heading_of_topic topic sources"
  "topic_id topic \<noteq> [] \<Longrightarrow>
     verify_block False (heading_of_topic topic sources) = None \<longleftrightarrow> drawn_mark (topic_title_revision_mark sources)"
proof -
  show "normalize_block (heading_of_topic topic sources) = heading_of_topic topic sources"
    by (simp add: heading_of_topic_def Let_def)
  have digit: "1 \<le> (of_nat (char_code c - 48) :: u32) \<and> (of_nat (char_code c - 48) :: u32) \<le> 6"
    if "CHR ''1'' \<le> c" "c \<le> CHR ''6''" for c
  proof -
    have "1 \<le> char_code c - 48" "char_code c - 48 \<le> 6" using that by (auto simp: char_code_le)
    moreover from this have "unat (of_nat (char_code c - 48) :: u32) = char_code c - 48"
      by (simp only: unat_of_nat take_bit_nat_eq_self) simp
    ultimately show ?thesis by (simp only: word_le_nat_alt) simp
  qed
  have level: "(P \<Longrightarrow> 1 \<le> x \<and> x \<le> 6) \<Longrightarrow> 1 \<le> (if P then x else 1) \<and> (if P then x else 1) \<le> 6" for P and x :: u32
    by simp
  have "1 \<le> heading_level_of level \<and> heading_level_of level \<le> 6" for level
    unfolding heading_level_of_def Let_def by (rule level, elim conjE, rule digit, assumption+)
  then show "verify_block False (heading_of_topic topic sources) = None \<longleftrightarrow>
      drawn_mark (topic_title_revision_mark sources)" if "topic_id topic \<noteq> []"
    using that
    by (simp add: heading_of_topic_def verify_block_slices_cover_children_def verify_inlines_def canonical_inline_def
        verify_claims_def)
qed

lemma anchor_verifies:
  "normalize_block (anchor_block_of i role) = anchor_block_of i role"
  "verify_block False (anchor_block_of i role) = None \<longleftrightarrow> i \<noteq> []"
  by (simp_all add: anchor_block_of_def verify_block_slices_cover_children_def Let_def)

lemma rows_verify:
  assumes "rows \<noteq> []" and "length rows = length lines" and "\<forall>line. verify_origin (line_origin sources line) = None"
    and "list_all row_sound rows"
  shows "verify_block False (normalize_block (block_of_rows sources lines rows)) = None \<longleftrightarrow>
    list_all (\<lambda>row. list_all targeted (row_links row)) rows"
proof -
  let ?origins = "map (line_origin sources) (take (length rows) lines)"
  let ?origin = "(synthesized ''decoded source display rows'')\<lparr>derivation := Semantic_lowering\<rparr>"
  let ?pre = "\<lparr> pre_lines = map row_text rows, pre_line_origins = ?origins, pre_line_links = map row_links rows,
      pre_line_anchors = [], pre_styled_lines = [] \<rparr>"
  have "collect_child_origins (Preformatted_block ?pre) = ?origins"
    by (simp add: collect_child_origins_def collect_preformatted_origins_def)
  then have normal: "normalize_block (block_of_rows sources lines rows) = Block (Preformatted_block ?pre) (lift_into ?origin ?origins)"
    by (simp add: block_of_rows_def)
  have "verify_origin (lift_into ?origin ?origins) = None"
    using assms(3) by (intro lifted_origin_verifies) (simp_all add: synthesized_def)
  moreover have "verify_block_slices_cover_children (Block (Preformatted_block ?pre) (lift_into ?origin ?origins)) = None"
    using lifted_origin_covers [of ?origin _ ?origins] \<open>collect_child_origins _ = _\<close>
    by (simp add: verify_block_slices_cover_children_def list_all_iff synthesized_def)
  moreover have "zip (map row_text rows) (map row_links rows) = map (\<lambda>row. (row_text row, row_links row)) rows"
    by (simp add: zip_map_map zip_same_conv_map)
  then have "verify_preformatted ?pre = None \<longleftrightarrow> list_all (\<lambda>row. list_all targeted (row_links row)) rows"
    using assms by (auto simp: verify_preformatted_def Let_def list_all_iff row_sound_def)
  ultimately show ?thesis by (simp add: normal)
qed

definition linked_rows_of_topic ::
  "topic_identity \<Rightarrow> decoded_logical_record_source list \<Rightarrow> verbatim_row list" where
  "linked_rows_of_topic topic sources =
     fst (link_verbatim_cross_references sources (best_effort_display_lines sources (topic_title topic))
            (best_effort_footnote_anchors sources))"

lemma rows_of_lines:
  "length (linked_rows_of_topic topic sources) = length (best_effort_display_lines sources (topic_title topic))"
  "list_all row_sound (linked_rows_of_topic topic sources)"
  using verbatim_rows_kept unfolding linked_rows_of_topic_def by (metis length_map, blast)

lemma source_rows_document_verdict:
  assumes "list_all (\<lambda>r. record_sound limit r \<and> 0 < source_record r \<and> source_record r < 2 ^ 32) sources"
    and "limit < 2 ^ 32" and "sources \<noteq> []"
  shows "\<exists>d. lowered_document (lower_source_rows_to_document_ir topic sources) = Some d \<and>
    (verify_document_ir d = None \<longleftrightarrow>
       topic_id topic \<noteq> [] \<and>
       (end_logical_record topic = 0 \<or> start_logical_record topic \<le> end_logical_record topic) \<and>
       drawn_mark (topic_title_revision_mark sources) \<and>
       list_all (\<lambda>row. list_all targeted (row_links row)) (linked_rows_of_topic topic sources))"
proof -
  let ?lines = "best_effort_display_lines sources (topic_title topic)"
  let ?rows = "linked_rows_of_topic topic sources"
  let ?printed = "best_effort_footnote_anchors sources"
  let ?blocks = "heading_of_topic topic sources #
    map (\<lambda>i. anchor_block_of i (role_of_anchor i)) (best_effort_anchors sources) @
    map (\<lambda>i. anchor_block_of i Local_role) ?printed @
    (if ?rows = [] then [] else [block_of_rows sources ?lines ?rows])"
  have lowered: "lowered_document (lower_source_rows_to_document_ir topic sources) =
      Some (normalize_document_origin_slices
        \<lparr>document_topic = topic, document_blocks = ?blocks, named_destinations = []\<rparr>)"
    using assms(3) by (simp add: lower_source_rows_to_document_ir_def Let_def linked_rows_of_topic_def)
  have "verify_block False (normalize_block (block_of_rows sources ?lines ?rows)) = None \<longleftrightarrow>
      list_all (\<lambda>row. list_all targeted (row_links row)) ?rows" if "?rows \<noteq> []"
    using that rows_of_lines line_origin_verifies [OF assms(1,2)] by (intro rows_verify) auto
  then have "all_pass (verify_block False) (map normalize_block ?blocks) = None \<longleftrightarrow>
      drawn_mark (topic_title_revision_mark sources) \<and> list_all (\<lambda>row. list_all targeted (row_links row)) ?rows"
    if "topic_id topic \<noteq> []"
    using anchors_named [of sources] footnotes_named [of sources] that
    by (cases "?rows = []") (auto simp: heading_verifies anchor_verifies list_all_iff simp del: verify_block.simps)
  then show ?thesis
    unfolding lowered verify_document_ir_def normalize_document_origin_slices_def Let_def
    by (intro exI conjI) (rule refl, auto)
qed

text \<open>C18: From the bytes of the book to the document of a topic no reader claims: the check every consumer runs
  before it prints the document accepts it exactly when the topic has an identifier and its range is not
  reversed, the mark stored beside its title is a glyph, and every link into another book names its target.
  All other requirements of the check, the provenance of every row and of the block that holds them, the
  anchors and the ranges of the links, are met by every decoded source. The two about the title mark and
  the targets rest on what the book stores, and nothing in front of the check asks for them.\<close>

theorem source_rows_document_valid:
  assumes "decode_logical_record_sources bs dir dict declared ranges first_record end_record = Inr sources"
    and "sources \<noteq> []" and "length bs < 2 ^ 32" and "end_record \<le> 2 ^ 32"
  shows "\<exists>d. lowered_document (lower_source_rows_to_document_ir topic sources) = Some d \<and>
    (verify_document_ir d = None \<longleftrightarrow>
       topic_id topic \<noteq> [] \<and>
       (end_logical_record topic = 0 \<or> start_logical_record topic \<le> end_logical_record topic) \<and>
       drawn_mark (topic_title_revision_mark sources) \<and>
       list_all (\<lambda>row. list_all targeted (row_links row)) (linked_rows_of_topic topic sources))"
proof (rule source_rows_document_verdict [OF _ assms(3,2)])
  show "list_all (\<lambda>r. record_sound (length bs) r \<and> 0 < source_record r \<and> source_record r < 2 ^ 32) sources"
    using decoded_record_sound(1,3,4) [OF assms(1)] assms(4) by (fastforce simp: list_all_iff)
qed

theorem source_rows_document_valid_witness:
  "\<exists>sources d. decode_logical_record_sources revised_row_bytes example_directory revised_row_words [] [(0, 7)] 1 2 =
       Inr sources \<and> map source_record sources = [1] \<and>
     lowered_document (lower_source_rows_to_document_ir (document_topic revised_row_document) sources) = Some d \<and>
     (verify_document_ir d = None \<longleftrightarrow>
       drawn_mark (topic_title_revision_mark sources) \<and>
       list_all (\<lambda>row. list_all targeted (row_links row))
         (linked_rows_of_topic (document_topic revised_row_document) sources))"
proof -
  obtain sources where decode:
    "decode_logical_record_sources revised_row_bytes example_directory revised_row_words [] [(0, 7)] 1 2 = Inr sources"
    and numbers: "map source_record sources = [1]"
    using revised_row_decoded by (elim exE conjE)
  have nonempty: "sources \<noteq> []" using numbers by (cases sources) simp_all
  have small: "length revised_row_bytes < 2 ^ 32" by (simp add: revised_row_bytes_def)
  have topic: "topic_id (document_topic revised_row_document) \<noteq> []"
    "start_logical_record (document_topic revised_row_document) \<le> end_logical_record (document_topic revised_row_document)"
    by (simp_all add: revised_row_document_def)
  have "(2::nat) \<le> 2 ^ 32" by simp
  from source_rows_document_valid [OF decode nonempty small this, of "document_topic revised_row_document"]
  obtain d where "lowered_document (lower_source_rows_to_document_ir (document_topic revised_row_document) sources) = Some d"
    "verify_document_ir d = None \<longleftrightarrow>
       drawn_mark (topic_title_revision_mark sources) \<and>
       list_all (\<lambda>row. list_all targeted (row_links row))
         (linked_rows_of_topic (document_topic revised_row_document) sources)"
    using topic by (elim exE conjE) (simp only: simp_thms)
  with decode numbers show ?thesis by (intro exI [of _ sources] exI [of _ d] conjI)
qed

end
