(* ===== verification/Verbatim_Html.thy ===== *)
theory Verbatim_Html
  imports Verbatim_Rows Html_Prints
begin

section \<open>The markup of a verbatim row, read back\<close>

text \<open>
  The Markdown renderer embeds rows as HTML (\<open>render_verbatim_row\<close>, with escaping of its own). The text projection of
  emitted HTML reads it back.
\<close>

lemma escape_row_text_html: "escape_row_text s = escape_html_text s"
proof -
  have "escape_row_char = escape_text_char" by (rule ext) (simp add: escape_row_char_def escape_text_char_def)
  then show ?thesis by (simp add: escape_row_text_def escape_html_text_def)
qed

lemma visible_characters: "visible_tokens (map Character s) st = Inr (emit s st)"
  by (induction s arbitrary: st) (simp_all add: emit_def)

lemma row_text_shown: "visible_loop (escape_row_text s @ rest) st = visible_loop rest (emit s st)"
  using shows_text [of s] by (simp add: escape_row_text_html shows_as_def visible_characters)

lemma row_attribute_entities: "text_entities (escape_row_attribute v) = Inr v"
  using named_entities [unfolded append.simps]
  by (induction v) (simp_all add: escape_row_attribute_def escape_row_char_def)

lemma row_attribute_quote: "CHR 0x22 \<notin> set (escape_row_attribute v)"
  by (induction v) (auto simp: escape_row_attribute_def escape_row_char_def)

lemma row_attribute_parsed:
  "parse_attributes ''a'' [] (CHR '' '' # ''href='' @ CHR 0x22 # escape_row_attribute v @ [CHR 0x22]) = Inr [(''href'', v)]"
  by (subst parse_attributes.simps(2))
    (simp add: space_def takeWhile_quote row_attribute_quote row_attribute_entities Let_def)

lemma row_link_visible:
  "visible_tag False ''a'' [(''href'', v)] st = Inr (st\<lparr>visible_elements := ''a'' # visible_elements st\<rparr>)"
  by (simp add: visible_tag_def boundary_def nest_def empty_element_def show_image_def show_list_def split: list.split)

lemma row_link_opened:
  "visible_loop (''<a href='' @ [CHR 0x22] @ escape_row_attribute v @ [CHR 0x22] @ ''>'' @ rest) st =
   visible_loop rest (st\<lparr>visible_elements := ''a'' # visible_elements st\<rparr>)"
proof -
  let ?v = "escape_row_attribute v"
  let ?href = "CHR '' '' # ''href='' @ CHR 0x22 # ?v @ [CHR 0x22]"
  have head: "tag_head (''a'' @ ?href @ CHR ''>'' # rest) = (False, ''a'', ?href @ CHR ''>'' # rest)"
    by (simp add: tag_head_def closing_tag_def Let_def tag_char_def ctype_codes char_code_def)
  have inside: "tag_text None (?href @ CHR ''>'' # rest) = Some (?href, rest)"
    using tag_text_plain [of "'' href=''" "CHR 0x22 # ?v @ CHR 0x22 # CHR ''>'' # rest"]
      tag_text_quoted [OF row_attribute_quote, of v "CHR ''>'' # rest"] by simp
  have known: "supported_tag ''a''" by (rule known_tag) (simp add: known_elements_def)
  have open_tag: "\<not> starts_with (CHR ''<'' # ''a'' @ t) ''<!--''" for t by (simp add: starts_with_def)
  have "visible_loop (CHR ''<'' # ''a'' @ ?href @ CHR ''>'' # rest) st =
      visible_loop rest (st\<lparr>visible_elements := ''a'' # visible_elements st\<rparr>)"
    unfolding visible_loop.simps(2) head inside row_attribute_parsed row_link_visible prod.case option.case
      and_then_Inr
    using known open_tag by simp
  then show ?thesis by simp
qed

lemma row_link_closed:
  "visible_loop (''</a>'' @ rest) (st\<lparr>visible_elements := ''a'' # es\<rparr>) = visible_loop rest (st\<lparr>visible_elements := es\<rparr>)"
proof -
  let ?st = "st\<lparr>visible_elements := ''a'' # es\<rparr>"
  have "''a'' \<in> set known_elements" by (simp add: known_elements_def)
  from shows_close_tag [OF this]
  have "visible_loop (close_tag ''a'' @ rest) ?st = and_then (visible_tokens [End_tag ''a''] ?st) (visible_loop rest)"
    by (simp only: shows_as_def)
  moreover have "visible_tag True ''a'' [] ?st = Inr (st\<lparr>visible_elements := es\<rparr>)"
    by (simp add: visible_tag_def boundary_def nest_def empty_element_def show_image_def show_list_def split: list.split)
  then have "visible_tokens [End_tag ''a''] ?st = Inr (st\<lparr>visible_elements := es\<rparr>)" by simp
  moreover have "close_tag ''a'' = ''</a>''" by (simp add: close_tag_def)
  ultimately show ?thesis by (simp only: and_then_Inr)
qed

lemma emit_elements: "emit s (st\<lparr>visible_elements := es\<rparr>) = (emit s st)\<lparr>visible_elements := es\<rparr>"
  by (simp add: emit_def)

lemma emit_emit: "emit t (emit s st) = emit (s @ t) st"
  by (simp add: emit_def)

lemma drop_slice: "a \<le> b \<Longrightarrow> drop a s = Prelude.slice s a b @ drop b s"
  unfolding Prelude.slice_def by (metis append_take_drop_id drop_drop le_add_diff_inverse2)

lemma links_shown:
  "cursor \<le> length s \<Longrightarrow> visible_loop (render_links s cursor links @ rest) st = visible_loop rest (emit (drop cursor s) st)"
proof (induction links arbitrary: cursor st)
  case Nil
  then show ?case by (simp add: row_text_shown)
next
  case (Cons l links)
  show ?case
  proof (cases "link_begin l < cursor \<or> link_end l > length s \<or> link_begin l \<ge> link_end l")
    case True
    then show ?thesis using Cons by simp
  next
    case False
    let ?front = "Prelude.slice s cursor (link_begin l)" and ?middle = "Prelude.slice s (link_begin l) (link_end l)"
    let ?tail = "escape_row_text ?middle @ ''</a>'' @ render_links s (link_end l) links @ rest"
    have printed: "render_links s cursor (l # links) @ rest =
        escape_row_text ?front @ ''<a href='' @ [CHR 0x22] @ escape_row_attribute (link_destination l) @ [CHR 0x22] @
        ''>'' @ ?tail"
      using False by simp
    have "drop cursor s = ?front @ drop (link_begin l) s" "drop (link_begin l) s = ?middle @ drop (link_end l) s"
      using False by (simp_all add: drop_slice not_less)
    then have "emit (drop cursor s) st = emit (drop (link_end l) s) (emit ?middle (emit ?front st))"
      by (simp add: emit_emit)
    moreover have "visible_loop (render_links s cursor (l # links) @ rest) st =
        visible_loop (render_links s (link_end l) links @ rest) (emit ?middle (emit ?front st))"
      unfolding printed row_text_shown row_link_opened
      by (simp only: row_text_shown emit_elements row_link_closed) (simp add: emit_def)
    ultimately show ?thesis using Cons.IH [of "link_end l"] False by simp
  qed
qed

text \<open>C20: The markup of a row, read back by the text projection, is the text of the row, whatever its links: nothing of
  the row is lost or added, every tag is closed and every attribute is one the element may have.\<close>

theorem row_markup_shows_row:
  "html_visible_text (render_verbatim_row row) = Inr (row_text row)"
  using links_shown [of 0 "row_text row" "row_links row" "[]"]
  by (simp add: html_visible_text_def render_verbatim_row_def emit_def)

end
