(* ===== verification/Markdown_Sink.thy ===== *)
theory Markdown_Sink
  imports Html_Render Verbatim_Rows
begin

section \<open>Markdown pieces (\<open>src/render/document_markdown_renderer.cpp\<close>, \<open>markdown_render_sink.hpp\<close>)\<close>

text \<open>
  Escaping, destinations and code spans of the Markdown renderer, and its sink. The sink appends a piece of output
  and notes in the trace where it came from. What a printing function sends to the sink is the value of its model:
  a list of emissions. The sink then folds that list into the text and the spans of the trace. A scope that pushes
  a step of the path is \<open>at_step\<close>, which puts the step in front of the paths of the emissions made in it.
\<close>

subsection \<open>Escaping\<close>

definition is_markdown_punctuation :: "char \<Rightarrow> bool" where
  "is_markdown_punctuation ch \<longleftrightarrow> ch \<in> set (CHR 0x5C # CHR 0x60 # ''*_{}[]<>()#+-.!|~'')"

function escape_markdown_text :: "string \<Rightarrow> string" where
  "escape_markdown_text [] = []"
| "escape_markdown_text (ch # s) =
     (if ch = CHR 0x0D \<or> ch = CHR 0x0A
      then CHR '' '' # escape_markdown_text (if ch = CHR 0x0D \<and> s \<noteq> [] \<and> hd s = CHR 0x0A then tl s else s)
      else if ch = CHR ''&'' then ''&amp;'' @ escape_markdown_text s
      else (if is_markdown_punctuation ch then [CHR 0x5C, ch] else [ch]) @ escape_markdown_text s)"
  by pat_completeness auto
termination by (relation "measure length") auto

definition is_uri_safe :: "char \<Rightarrow> bool" where
  "is_uri_safe ch \<longleftrightarrow> isalnum ch \<or> ch \<in> set (CHR 0x27 # ''-._~:/?#[]@!$&()*+,;=%'')"

definition percent_char :: "char \<Rightarrow> string" where
  "percent_char ch = [CHR 0x25, hex_upper (char_code ch div 16), hex_upper (char_code ch mod 16)]"

definition markdown_destination :: "string \<Rightarrow> string" where
  "markdown_destination s =
     ''<'' @ concat (map (\<lambda>ch. if is_uri_safe ch then [ch] else percent_char ch) s) @ ''>''"

definition footnote_label :: "string \<Rightarrow> string" where
  "footnote_label s =
     concat (map (\<lambda>ch. if isalnum ch \<or> ch = CHR ''-'' \<or> ch = CHR ''_'' \<or> ch = CHR ''.'' then [ch]
                      else percent_char ch) s)"

subsection \<open>Code spans and emphasis\<close>

fun longest_run :: "nat \<Rightarrow> nat \<Rightarrow> string \<Rightarrow> nat" where
  "longest_run longest current [] = longest"
| "longest_run longest current (ch # s) =
     (if ch = CHR 0x60 then longest_run (max longest (current + 1)) (current + 1) s else longest_run longest 0 s)"

definition longest_backtick_run :: "string \<Rightarrow> nat" where
  "longest_backtick_run s = longest_run 0 0 s"

definition normalize_code_span :: "string \<Rightarrow> bool \<Rightarrow> string" where
  "normalize_code_span code in_cell =
     (let s = map (\<lambda>ch. if line_break ch then CHR '' '' else ch) code in
      if in_cell then concat (map (\<lambda>ch. if ch = CHR ''|'' then [CHR 0x5C, ch] else [ch]) s) else s)"

text \<open>The delimiters of a code span and the body between them.\<close>

definition code_span_parts :: "string \<Rightarrow> bool \<Rightarrow> string \<times> string \<times> string" where
  "code_span_parts v in_cell =
     (let code = normalize_code_span v in_cell;
          delimiter = replicate (longest_backtick_run code + 1) (CHR 0x60);
          all_spaces = code \<noteq> [] \<and> list_all (\<lambda>ch. ch = CHR '' '') code;
          padded = (code \<noteq> [] \<and> (hd code = CHR 0x60 \<or> last code = CHR 0x60)) \<or>
            (\<not> all_spaces \<and> length code \<ge> 2 \<and> hd code = CHR '' '' \<and> last code = CHR '' '');
          padding = (if padded then '' '' else [])
      in (delimiter @ padding, code, padding @ delimiter))"

definition emphasis_delimiter :: "emphasis_kind \<Rightarrow> string" where
  "emphasis_delimiter kind =
     (case kind of Emphasis \<Rightarrow> ''*'' | Strong \<Rightarrow> ''**'' | Strong_emphasis \<Rightarrow> ''***'')"

subsection \<open>Destinations\<close>

record markdown_options =
  resolve_reference :: "(cross_reference_target \<Rightarrow> string option) option"

definition resolved_reference :: "markdown_options \<Rightarrow> cross_reference_target \<Rightarrow> string option" where
  "resolved_reference opts target = (case resolve_reference opts of None \<Rightarrow> None | Some f \<Rightarrow> f target)"

definition plain_destination :: "cross_reference_target \<Rightarrow> string" where
  "plain_destination target =
     (case target_kind target of
        Topic_target \<Rightarrow> target_value target
      | Resource_target \<Rightarrow> target_value target
      | External_target \<Rightarrow> external_url_of target
      | Anchor_target \<Rightarrow> CHR ''#'' # target_value target
      | _ \<Rightarrow> ''#'')"

definition claimed_destination :: "markdown_options \<Rightarrow> target_claim \<Rightarrow> (string \<times> node_origin option) option" where
  "claimed_destination opts claim =
     map_option (\<lambda>s. (if s = [] then ''#'' else s, control_origin claim)) (resolved_reference opts (claim_target claim))"

text \<open>\<open>claims.front()\<close> has no value without claims.\<close>

definition cross_reference_destination ::
  "markdown_options \<Rightarrow> target_claim list \<Rightarrow> (string \<times> node_origin option) option" where
  "cross_reference_destination opts claims =
     (case claims of
        [] \<Rightarrow> None
      | first # _ \<Rightarrow>
          Some (or_else (first_some (claimed_destination opts) claims)
            (plain_destination (claim_target first), control_origin first)))"

definition menu_destination :: "markdown_options \<Rightarrow> cross_reference_target \<Rightarrow> string" where
  "menu_destination opts target = or_else (resolved_reference opts target) (CHR ''#'' # target_value target)"

subsection \<open>Emissions\<close>

datatype trace_role = Content_role | Syntax_role | Generated_role

datatype text_projection =
  Hidden_text | Boundary_text | Escaped_text | Literal_text | Html_text

type_synonym path_step = "string \<times> nat"

record emission =
  emitted :: string
  emitted_role :: trace_role
  emitted_projection :: text_projection
  emitted_reason :: string
  emitted_path :: "path_step list"
  emitted_origin :: "node_origin option"

definition emission_of ::
  "trace_role \<Rightarrow> text_projection \<Rightarrow> string \<Rightarrow> string \<Rightarrow> node_origin option \<Rightarrow> emission list" where
  "emission_of role projection s reason origin =
     [\<lparr> emitted = s, emitted_role = role, emitted_projection = projection, emitted_reason = reason,
        emitted_path = [], emitted_origin = origin \<rparr>]"

definition md_syntax :: "string \<Rightarrow> string \<Rightarrow> node_origin option \<Rightarrow> emission list" where
  "md_syntax = emission_of Syntax_role Hidden_text"

definition md_boundary :: "string \<Rightarrow> string \<Rightarrow> node_origin option \<Rightarrow> emission list" where
  "md_boundary = emission_of Syntax_role Boundary_text"

definition md_marker :: "string \<Rightarrow> string \<Rightarrow> node_origin option \<Rightarrow> emission list" where
  "md_marker = emission_of Syntax_role Literal_text"

definition md_generated :: "string \<Rightarrow> string \<Rightarrow> emission list" where
  "md_generated s reason = emission_of Generated_role Escaped_text s reason None"

definition md_content :: "string \<Rightarrow> string \<Rightarrow> node_origin option \<Rightarrow> emission list" where
  "md_content = emission_of Content_role Escaped_text"

definition md_literal :: "string \<Rightarrow> string \<Rightarrow> node_origin option \<Rightarrow> emission list" where
  "md_literal = emission_of Content_role Literal_text"

definition md_html :: "string \<Rightarrow> string \<Rightarrow> node_origin option \<Rightarrow> emission list" where
  "md_html = emission_of Content_role Html_text"

definition at_step :: "string \<Rightarrow> nat \<Rightarrow> emission list \<Rightarrow> emission list" where
  "at_step kind index es = map (\<lambda>e. e\<lparr>emitted_path := (kind, index) # emitted_path e\<rparr>) es"

text \<open>One after the other, each of which may have read outside a vector.\<close>

fun joined :: "'a list option list \<Rightarrow> 'a list option" where
  "joined [] = Some []"
| "joined (m # ms) = (case m of None \<Rightarrow> None | Some xs \<Rightarrow> map_option ((@) xs) (joined ms))"

subsection \<open>The sink\<close>

record trace_span =
  span_begin :: nat
  span_end :: nat
  span_role :: trace_role
  span_projection :: text_projection
  span_reason :: string
  span_path :: "path_step list"
  span_origin :: "node_origin option"

record markdown_sink =
  md_text :: string
  md_spans :: "trace_span list"

definition emit_markdown :: "markdown_sink \<Rightarrow> emission \<Rightarrow> markdown_sink" where
  "emit_markdown sink e =
     (if emitted e = [] then sink
      else \<lparr> md_text = md_text sink @ emitted e,
             md_spans = md_spans sink @
               [\<lparr> span_begin = length (md_text sink), span_end = length (md_text sink @ emitted e),
                  span_role = emitted_role e, span_projection = emitted_projection e,
                  span_reason = emitted_reason e, span_path = emitted_path e,
                  span_origin = emitted_origin e \<rparr>] \<rparr>)"

definition markdown_of :: "emission list \<Rightarrow> markdown_sink" where
  "markdown_of es = foldl emit_markdown \<lparr> md_text = [], md_spans = [] \<rparr> es"

text \<open>The printed form of a path.\<close>

fun path_from :: "string \<Rightarrow> path_step list \<Rightarrow> string" where
  "path_from out [] = out"
| "path_from out ((kind, index) # steps) =
     path_from ((if out = [] then [] else out @ ''/'') @ kind @ ''['' @ decimal index @ '']'') steps"

definition format_document_node_path :: "path_step list \<Rightarrow> string" where
  "format_document_node_path steps = path_from [] steps"

end
