(* ===== verification/Markdown_Render.thy ===== *)
theory Markdown_Render
  imports Markdown_Sink
begin

section \<open>The Markdown renderer (\<open>src/render/document_markdown_renderer.cpp\<close>)\<close>

text \<open>
  The functions that print inlines, blocks and a document as Markdown. As in the HTML renderer, a function that
  reaches for a member that need not exist gives \<open>None\<close> where the code reads outside the vector.
\<close>

subsection \<open>Inlines\<close>

datatype inline_context = Prose_context | Single_line_context | Table_cell_context

definition is_emphasis :: "inline_ir \<Rightarrow> bool" where
  "is_emphasis i \<longleftrightarrow> (case inline_node i of Emphasis_inline _ _ _ \<Rightarrow> True | _ \<Rightarrow> False)"

definition is_image :: "inline_ir \<Rightarrow> bool" where
  "is_image i \<longleftrightarrow> (case inline_node i of Image_inline _ \<Rightarrow> True | _ \<Rightarrow> False)"

definition is_text :: "inline_ir \<Rightarrow> bool" where
  "is_text i \<longleftrightarrow> (case inline_node i of Text_inline _ \<Rightarrow> True | _ \<Rightarrow> False)"

fun wholly_emphasised :: "inline_ir \<Rightarrow> bool"
  and all_emphasised :: "inlines \<Rightarrow> bool" where
  "wholly_emphasised (Inline node origin) \<longleftrightarrow>
     (case node of
        Emphasis_inline _ _ _ \<Rightarrow> True
      | Revised_inline _ children \<Rightarrow> children \<noteq> [] \<and> all_emphasised children
      | _ \<Rightarrow> False)"
| "all_emphasised [] \<longleftrightarrow> True"
| "all_emphasised (i # is) \<longleftrightarrow> wholly_emphasised i \<and> all_emphasised is"

definition wholly_emphasised_label :: "inlines \<Rightarrow> bool" where
  "wholly_emphasised_label is \<longleftrightarrow> is \<noteq> [] \<and> all_emphasised is"

text \<open>\<open>None\<close> where \<open>std::get\<close> throws.\<close>

fun plain_inline :: "inline_ir \<Rightarrow> inline_ir option"
  and plain_label :: "inlines \<Rightarrow> inlines option" where
  "plain_inline (Inline node origin) =
     (case node of
        Emphasis_inline s _ _ \<Rightarrow> Some (Inline (Text_inline s) origin)
      | Revised_inline mark children \<Rightarrow>
          map_option (\<lambda>cs. Inline (Revised_inline mark cs) origin) (plain_label children)
      | _ \<Rightarrow> None)"
| "plain_label [] = Some []"
| "plain_label (i # is) =
     (case plain_inline i of None \<Rightarrow> None | Some p \<Rightarrow> map_option ((#) p) (plain_label is))"

text \<open>Runs that a revision mark has split print as the one run they were.\<close>

definition merge_inline :: "inline_ir \<Rightarrow> inline_ir \<Rightarrow> inline_ir option" where
  "merge_inline into next =
     (case (inline_node into, inline_node next) of
        (Emphasis_inline s kind phrase, Emphasis_inline t kind' phrase') \<Rightarrow>
          if kind' \<noteq> kind \<or> phrase' \<noteq> phrase then None
          else Some (Inline (Emphasis_inline (s @ t) kind phrase) (inline_origin into))
      | (Code_inline s phrase, Code_inline t phrase') \<Rightarrow>
          if phrase' \<noteq> phrase then None else Some (Inline (Code_inline (s @ t) phrase) (inline_origin into))
      | (Underline_inline s, Underline_inline t) \<Rightarrow> Some (Inline (Underline_inline (s @ t)) (inline_origin into))
      | (Text_inline s, Text_inline t) \<Rightarrow> Some (Inline (Text_inline (s @ t)) (inline_origin into))
      | _ \<Rightarrow> None)"

definition push_run :: "inlines \<Rightarrow> inline_ir \<Rightarrow> inlines" where
  "push_run flat child =
     (case (if flat = [] then None else merge_inline (last flat) child) of
        None \<Rightarrow> flat @ [child]
      | Some run \<Rightarrow> butlast flat @ [run])"

fun flatten_runs :: "inlines \<Rightarrow> bool \<Rightarrow> inlines \<Rightarrow> inlines" where
  "flatten_runs flat boundary [] = flat"
| "flatten_runs flat boundary (i # is) =
     (let children = revised_children i;
          flat' = (case children of
                     [] \<Rightarrow> flat
                   | c # cs \<Rightarrow> (if boundary \<or> is_revised i then push_run flat c else flat @ [c]) @ cs)
      in flatten_runs flat' (is_revised i) is)"

definition md_code_span :: "string \<Rightarrow> inline_context \<Rightarrow> string \<Rightarrow> node_origin \<Rightarrow> emission list" where
  "md_code_span s context reason origin =
     (let (opening, body, closing) = code_span_parts s (context = Table_cell_context) in
      md_syntax opening ''code delimiter'' (Some origin) @ md_literal body reason (Some origin) @
      md_syntax closing ''code delimiter'' (Some origin))"

definition md_emphasised :: "string \<Rightarrow> emphasis_kind \<Rightarrow> string \<Rightarrow> node_origin \<Rightarrow> emission list" where
  "md_emphasised s kind reason origin =
     md_syntax (emphasis_delimiter kind) ''emphasis delimiter'' (Some origin) @
     md_content (escape_markdown_text s) reason (Some origin) @
     md_syntax (emphasis_delimiter kind) ''emphasis delimiter'' (Some origin)"

definition md_html_inlines ::
  "markdown_options \<Rightarrow> inlines \<Rightarrow> string \<Rightarrow> node_origin \<Rightarrow> emission list option" where
  "md_html_inlines opts is reason origin =
     map_option (\<lambda>s. md_html s reason (Some origin))
       (render_document_html_inlines is no_resolvers (resolve_reference opts) True)"

definition md_picture :: "string \<Rightarrow> string \<Rightarrow> node_origin \<Rightarrow> emission list" where
  "md_picture alt resource origin =
     md_syntax ''!['' ''image syntax'' (Some origin) @
     md_content (escape_markdown_text alt) ''image alt text'' (Some origin) @
     md_syntax '']('' ''image syntax'' (Some origin) @
     md_syntax (markdown_destination resource) ''image destination'' (Some origin)"

definition md_cross_reference ::
  "markdown_options \<Rightarrow> inline_context \<Rightarrow> cross_reference \<Rightarrow> node_origin \<Rightarrow> emission list option" where
  "md_cross_reference opts context r origin =
     (case cross_reference_destination opts (xref_targets r) of
        None \<Rightarrow> None
      | Some (destination, provenance) \<Rightarrow>
          Some (md_syntax ''['' ''link syntax'' (Some origin) @
            (case label_image r of
               None \<Rightarrow> []
             | Some pic \<Rightarrow> md_picture (image_alt_text pic) (image_resource pic) origin @
                          md_boundary '')'' ''image syntax'' (Some origin)) @
            (if label_code r then md_code_span (label_text r) context ''link label code text'' origin
             else case label_emphasis r of
                    Some kind \<Rightarrow> md_emphasised (label_text r) kind ''styled link label'' origin
                  | None \<Rightarrow> md_content (escape_markdown_text (label_text r)) ''link label'' (Some origin)) @
            md_syntax '']('' ''link syntax'' (Some origin) @
            md_syntax (markdown_destination destination) ''link destination''
              (Some (or_else provenance origin)) @
            md_syntax '')'' ''link syntax'' (Some origin)))"

text \<open>Emphasis that abuts on other emphasis is written as HTML, save in a table cell when it holds a bar.\<close>

definition md_emphasis ::
  "markdown_options \<Rightarrow> inline_context \<Rightarrow> bool \<Rightarrow> string \<Rightarrow> emphasis_kind \<Rightarrow> phrase_kind \<Rightarrow> node_origin \<Rightarrow>
   emission list option" where
  "md_emphasis opts context abutting s kind phrase origin =
     (if abutting \<and> \<not> (context = Table_cell_context \<and> CHR ''|'' \<in> set s)
      then md_html_inlines opts [Inline (Emphasis_inline s kind phrase) origin] ''abutting emphasis'' origin
      else Some (md_emphasised s kind ''emphasis text'' origin))"

definition holds_at :: "('a \<Rightarrow> bool) \<Rightarrow> 'a option \<Rightarrow> bool" where
  "holds_at p m = (case m of None \<Rightarrow> False | Some x \<Rightarrow> p x)"

text \<open>One inline between its neighbours; the first has none in front.\<close>

definition md_flat_inline ::
  "markdown_options \<Rightarrow> inline_context \<Rightarrow> inline_ir option \<Rightarrow> inline_ir option \<Rightarrow> inline_ir \<Rightarrow>
   emission list option" where
  "md_flat_inline opts context before after i =
     (let origin = inline_origin i in
      case inline_node i of
        Text_inline s \<Rightarrow>
          Some ((if context = Prose_context \<and> holds_at is_hard_break before \<and> s \<noteq> [] \<and> hd s = CHR ''=''
                 then md_syntax [CHR 0x5C] ''line start escape'' (Some origin) else []) @
                md_content (escape_markdown_text s) ''text'' (Some origin))
      | Emphasis_inline s kind phrase \<Rightarrow>
          md_emphasis opts context (holds_at is_emphasis after \<or> holds_at is_emphasis before) s kind phrase origin
      | Underline_inline s \<Rightarrow> md_html_inlines opts [i] ''underline'' origin
      | Code_inline s phrase \<Rightarrow> Some (md_code_span s context ''code text'' origin)
      | Cross_reference_inline r \<Rightarrow> md_cross_reference opts context r origin
      | Image_inline pic \<Rightarrow>
          Some (md_picture (if image_description pic = [] then image_alt_text pic else image_description pic)
                  (image_resource pic) origin @ md_syntax '')'' ''image syntax'' (Some origin))
      | Hard_break_inline \<Rightarrow>
          Some (md_boundary
            (if context = Prose_context \<and> before \<noteq> None then ''  '' @ [CHR 0x0A] else ''<br>'')
            ''hard break'' (Some origin))
      | Opaque_inline kind content \<Rightarrow>
          Some (md_code_span (if content = [] then kind else kind @ '': '' @ content) context ''opaque inline'' origin)
      | Revised_inline _ _ \<Rightarrow> Some [])"

definition md_placed_anchor :: "string \<Rightarrow> placed_anchor \<Rightarrow> emission list" where
  "md_placed_anchor reason a =
     md_syntax (''<a id='' @ [CHR 0x22] @ escape_html_attribute (anchor_id (placed_block a)) @ [CHR 0x22] @ ''></a>'')
       reason (Some (placed_origin a))"

definition md_cell_anchors :: "placed_anchor list \<Rightarrow> emission list" where
  "md_cell_anchors as = concat (map (md_placed_anchor ''table cell anchor'') as)"

text \<open>The loop over the inlines of a sequence; \<open>line\<close> counts the hard breaks, \<open>anchors\<close> are the ones not yet placed.\<close>

fun md_flat_from ::
  "markdown_options \<Rightarrow> inline_context \<Rightarrow> nat \<Rightarrow> nat \<Rightarrow> inline_ir option \<Rightarrow> nat \<Rightarrow> placed_anchor list \<Rightarrow> inlines \<Rightarrow>
   emission list option" where
  "md_flat_from opts context last_line index before line anchors [] =
     Some (md_cell_anchors (takeWhile (\<lambda>a. placed_line a \<le> last_line) anchors))"
| "md_flat_from opts context last_line index before line anchors (i # is) =
     (let after = (if is = [] then None else Some (hd is));
          line' = (if is_hard_break i then line + 1 else line);
          here = (if is_hard_break i then takeWhile (\<lambda>a. placed_line a \<le> line') anchors else []);
          later = (if is_hard_break i then dropWhile (\<lambda>a. placed_line a \<le> line') anchors else anchors)
      in joined
           [map_option (at_step ''inline'' index)
              (joined [md_flat_inline opts context before after i, Some (md_cell_anchors here)]),
            md_flat_from opts context last_line (index + 1) (Some i) line' later is])"

definition md_flat_inlines ::
  "markdown_options \<Rightarrow> inline_context \<Rightarrow> placed_anchor list \<Rightarrow> inlines \<Rightarrow> emission list option" where
  "md_flat_inlines opts context anchors is =
     joined
       [Some (md_cell_anchors (takeWhile (\<lambda>a. placed_line a \<le> 0) anchors)),
        md_flat_from opts context (if anchors = [] then 0 else placed_line (last anchors)) 0 None 0
          (dropWhile (\<lambda>a. placed_line a \<le> 0) anchors) is]"

definition md_inlines ::
  "markdown_options \<Rightarrow> inline_context \<Rightarrow> placed_anchor list \<Rightarrow> inlines \<Rightarrow> emission list option" where
  "md_inlines opts context anchors is =
     md_flat_inlines opts context anchors (if has_revised_inline is then flatten_runs [] False is else is)"

subsection \<open>Drawn rows\<close>

definition origin_at :: "node_origin list \<Rightarrow> node_origin \<Rightarrow> nat \<Rightarrow> node_origin" where
  "origin_at origins origin index = (if index < length origins then origins ! index else origin)"

definition md_fence_line :: "string \<Rightarrow> node_origin list \<Rightarrow> node_origin \<Rightarrow> nat \<times> string \<Rightarrow> emission list" where
  "md_fence_line reason origins origin = (\<lambda>(index, line).
     at_step ''line'' index
       (md_literal line reason (Some (origin_at origins origin index)) @
        md_boundary [CHR 0x0A] ''code fence line break'' (Some (origin_at origins origin index))))"

definition md_fenced_block :: "string list \<Rightarrow> node_origin \<Rightarrow> string \<Rightarrow> node_origin list \<Rightarrow> emission list" where
  "md_fenced_block lines origin reason origins =
     (let longest = foldl max 0 (map longest_backtick_run lines);
          fence = replicate (max 3 (longest + 1)) (CHR 0x60)
      in md_boundary (fence @ [CHR 0x0A]) ''code fence'' (Some origin) @
         concat (map (md_fence_line reason origins origin) (enumerate 0 lines)) @
         md_syntax fence ''code fence'' (Some origin))"

text \<open>A row of a raw \<open>pre\<close> block, styled or with its links.\<close>

definition md_pre_row :: "markdown_options \<Rightarrow> preformatted_block \<Rightarrow> node_origin \<Rightarrow> nat \<Rightarrow> string \<Rightarrow> emission list option" where
  "md_pre_row opts pre origin index line =
     (if pre_styled_lines pre \<noteq> [] then
        (if index \<ge> length (pre_styled_lines pre) then None
         else joined
           [md_html_inlines opts (pre_styled_lines pre ! index) ''preformatted line'' origin,
            Some (if index + 1 < length (pre_lines pre)
                  then md_boundary [CHR 0x0A] ''preformatted line break'' (Some origin) else [])])
      else
        (let links = (if index < length (pre_line_links pre) then pre_line_links pre ! index else []) in
         Some (md_html (render_verbatim_row \<lparr>row_text = line, row_links = links\<rparr>) ''preformatted line'' (Some origin) @
           md_boundary [CHR 0x0A] ''preformatted line break'' (Some origin))))"

fun md_pre_rows ::
  "markdown_options \<Rightarrow> preformatted_block \<Rightarrow> node_origin \<Rightarrow> nat \<Rightarrow> placed_anchor list \<Rightarrow> string list \<Rightarrow>
   emission list option" where
  "md_pre_rows opts pre origin index anchors [] = Some []"
| "md_pre_rows opts pre origin index anchors (line # lines) =
     joined
       [map_option (at_step ''line'' index)
          (joined
             [Some (concat (map (md_placed_anchor ''preformatted anchor'')
                     (takeWhile (\<lambda>a. placed_line a = index) anchors))),
              md_pre_row opts pre (origin_at (pre_line_origins pre) origin index) index line]),
        md_pre_rows opts pre origin (index + 1) (dropWhile (\<lambda>a. placed_line a = index) anchors) lines]"

definition md_preformatted_html_block ::
  "markdown_options \<Rightarrow> preformatted_block \<Rightarrow> node_origin \<Rightarrow> emission list option" where
  "md_preformatted_html_block opts pre origin =
     joined
       [Some (md_boundary
          (if pre_styled_lines pre = [] then ''<pre>'' @ [CHR 0x0A]
           else ''<pre class='' @ [CHR 0x22] @ ''geist-preformatted'' @ [CHR 0x22] @ ''>'' @ [CHR 0x0A])
          ''preformatted block open'' (Some origin)),
        md_pre_rows opts pre origin 0 (pre_line_anchors pre) (pre_lines pre),
        Some (md_boundary ''</pre>'' ''preformatted block close'' (Some origin))]"

text \<open>A label that is taken from the target has no value without targets.\<close>

definition preformatted_row_text :: "inline_ir \<Rightarrow> string option" where
  "preformatted_row_text i =
     (case inline_node i of
        Text_inline s \<Rightarrow> Some s
      | Emphasis_inline s kind phrase \<Rightarrow> Some s
      | Underline_inline s \<Rightarrow> Some s
      | Code_inline s phrase \<Rightarrow> Some s
      | Cross_reference_inline r \<Rightarrow> if xref_label r = [] \<and> xref_targets r = [] then None else Some (label_text r)
      | Image_inline pic \<Rightarrow> Some (blank_image_cells pic)
      | _ \<Rightarrow> Some [])"

definition row_places_image :: "inlines \<Rightarrow> bool" where
  "row_places_image row \<longleftrightarrow> list_ex is_image row"

fun needs_html :: "inline_ir \<Rightarrow> bool"
  and row_needs_html :: "inlines \<Rightarrow> bool" where
  "needs_html (Inline node origin) \<longleftrightarrow>
     (case node of
        Text_inline _ \<Rightarrow> False
      | Code_inline _ _ \<Rightarrow> False
      | Revised_inline _ children \<Rightarrow> row_needs_html children
      | _ \<Rightarrow> True)"
| "row_needs_html [] \<longleftrightarrow> False"
| "row_needs_html (i # is) \<longleftrightarrow> needs_html i \<or> row_needs_html is"

definition styled_rows_need_html :: "preformatted_block \<Rightarrow> bool" where
  "styled_rows_need_html pre \<longleftrightarrow> list_ex row_needs_html (pre_styled_lines pre)"

definition places_images :: "preformatted_block \<Rightarrow> bool" where
  "places_images pre \<longleftrightarrow> list_ex row_places_image (pre_styled_lines pre)"

definition md_preformatted_stretch ::
  "markdown_options \<Rightarrow> preformatted_block \<Rightarrow> node_origin \<Rightarrow> emission list option" where
  "md_preformatted_stretch opts stretch origin =
     (if list_all (list_all is_text) (pre_styled_lines stretch) \<and> pre_line_links stretch = [] \<and>
         pre_line_anchors stretch = []
      then Some (md_fenced_block (pre_lines stretch) origin ''preformatted line'' (pre_line_origins stretch))
      else md_preformatted_html_block opts stretch origin)"

subsection \<open>Drawings with pictures\<close>

definition empty_stretch :: preformatted_block where
  "empty_stretch =
     \<lparr> pre_lines = [], pre_line_origins = [], pre_line_links = [], pre_line_anchors = [], pre_styled_lines = [] \<rparr>"

definition md_separate :: "node_origin \<Rightarrow> bool \<Rightarrow> emission list" where
  "md_separate origin first =
     (if first then [] else md_boundary [CHR 0x0A, CHR 0x0A] ''preformatted image split'' (Some origin))"

definition md_flush_stretch ::
  "markdown_options \<Rightarrow> node_origin \<Rightarrow> bool \<Rightarrow> preformatted_block \<Rightarrow> emission list option" where
  "md_flush_stretch opts origin first stretch =
     (if pre_lines stretch = [] then Some []
      else joined [Some (md_separate origin first), md_preformatted_stretch opts stretch origin])"

fun md_row_images :: "markdown_options \<Rightarrow> node_origin \<Rightarrow> bool \<Rightarrow> inlines \<Rightarrow> emission list option" where
  "md_row_images opts origin first [] = Some []"
| "md_row_images opts origin first (i # is) =
     (if is_image i
      then joined [Some (md_separate origin first), md_inlines opts Prose_context [] [i],
                   md_row_images opts origin False is]
      else md_row_images opts origin first is)"

text \<open>The inlines of a row with blanks for its pictures.\<close>

definition drawn_inlines :: "inline_ir \<Rightarrow> inlines" where
  "drawn_inlines i =
     (case inline_node i of
        Image_inline pic \<Rightarrow>
          (if blank_image_cells pic = [] then [] else [Inline (Text_inline (blank_image_cells pic)) (inline_origin i)])
      | _ \<Rightarrow> [i])"

definition extended_stretch ::
  "preformatted_block \<Rightarrow> preformatted_block \<Rightarrow> nat \<Rightarrow> placed_anchor list \<Rightarrow> string \<Rightarrow> inlines \<Rightarrow> preformatted_block" where
  "extended_stretch pre stretch index anchors s row =
     stretch\<lparr>
       pre_lines := pre_lines stretch @ [s],
       pre_line_origins := pre_line_origins stretch @
         (if index < length (pre_line_origins pre) then [pre_line_origins pre ! index] else []),
       pre_line_anchors := pre_line_anchors stretch @
         map (\<lambda>a. a\<lparr>placed_line := length (pre_lines stretch)\<rparr>) anchors,
       pre_styled_lines := pre_styled_lines stretch @ [concat (map drawn_inlines row)] \<rparr>"

text \<open>The loop over the rows: a row with pictures ends the stretch in front of it and opens the next one.\<close>

fun md_image_rows ::
  "markdown_options \<Rightarrow> preformatted_block \<Rightarrow> node_origin \<Rightarrow> bool \<Rightarrow> preformatted_block \<Rightarrow> nat \<Rightarrow> placed_anchor list \<Rightarrow>
   string list \<Rightarrow> emission list option" where
  "md_image_rows opts pre origin first stretch index anchors [] = md_flush_stretch opts origin first stretch"
| "md_image_rows opts pre origin first stretch index anchors (line # lines) =
     (if index \<ge> length (pre_styled_lines pre) then None
      else
        let row = pre_styled_lines pre ! index; pictured = row_places_image row;
            stretch' = (if pictured then empty_stretch else stretch);
            here = takeWhile (\<lambda>a. placed_line a = index) anchors
        in (case joined (map preformatted_row_text row) of
              None \<Rightarrow> None
            | Some s \<Rightarrow>
                joined
                  [map_option (at_step ''line'' index)
                     (if pictured
                      then joined [md_flush_stretch opts origin first stretch,
                                   md_row_images opts origin (first \<and> pre_lines stretch = []) row]
                      else Some []),
                   md_image_rows opts pre origin (first \<and> \<not> pictured)
                     (extended_stretch pre stretch' index here s row) (index + 1)
                     (dropWhile (\<lambda>a. placed_line a = index) anchors) lines]))"

definition md_preformatted_with_images ::
  "markdown_options \<Rightarrow> preformatted_block \<Rightarrow> node_origin \<Rightarrow> emission list option" where
  "md_preformatted_with_images opts pre origin =
     md_image_rows opts pre origin True empty_stretch 0 (pre_line_anchors pre) (pre_lines pre)"

definition md_preformatted ::
  "markdown_options \<Rightarrow> preformatted_block \<Rightarrow> node_origin \<Rightarrow> emission list option" where
  "md_preformatted opts pre origin =
     (if places_images pre then md_preformatted_with_images opts pre origin
      else if styled_rows_need_html pre \<or> pre_line_links pre \<noteq> [] \<or> pre_line_anchors pre \<noteq> []
      then md_preformatted_html_block opts pre origin
      else Some (md_fenced_block (pre_lines pre) origin ''preformatted line'' (pre_line_origins pre)))"

subsection \<open>Tables\<close>

definition md_cell :: "markdown_options \<Rightarrow> table_cell \<Rightarrow> emission list option" where
  "md_cell opts cell = md_inlines opts Table_cell_context (cell_anchors cell) (cell_content cell)"

definition md_header_cell ::
  "markdown_options \<Rightarrow> table_row list \<Rightarrow> nat \<Rightarrow> nat \<Rightarrow> emission list option" where
  "md_header_cell opts rows cell row =
     (if row \<ge> length rows \<or> cell \<ge> length (row_cells (rows ! row)) then None
      else
        let c = row_cells (rows ! row) ! cell in
        map_option (at_step ''row'' row \<circ> at_step ''cell'' cell)
          (joined [Some (if row \<noteq> 0 then md_boundary ''<br>'' ''table header join'' (Some (cell_origin c)) else []),
                   md_cell opts c]))"

definition md_header_column ::
  "markdown_options \<Rightarrow> node_origin \<Rightarrow> table_row list \<Rightarrow> nat \<Rightarrow> nat \<Rightarrow> emission list option" where
  "md_header_column opts origin rows header_rows cell =
     joined [Some (md_boundary '' '' ''table cell padding'' (Some origin)),
             joined (map (md_header_cell opts rows cell) [0..<header_rows]),
             Some (md_boundary '' |'' ''table pipe'' (Some origin))]"

definition md_body_cell :: "markdown_options \<Rightarrow> nat \<times> table_cell \<Rightarrow> emission list option" where
  "md_body_cell opts = (\<lambda>(index, cell).
     map_option (at_step ''cell'' index)
       (joined [Some (md_boundary '' '' ''table cell padding'' (Some (cell_origin cell))), md_cell opts cell,
                Some (md_boundary '' |'' ''table pipe'' (Some (cell_origin cell)))]))"

definition md_body_row :: "markdown_options \<Rightarrow> nat \<times> table_row \<Rightarrow> emission list option" where
  "md_body_row opts = (\<lambda>(index, row).
     map_option (at_step ''row'' index)
       (joined [Some (md_boundary [CHR 0x0A, CHR ''|''] ''table pipe'' (Some (row_origin row))),
                joined (map (md_body_cell opts) (enumerate 0 (row_cells row)))]))"

definition md_table ::
  "markdown_options \<Rightarrow> table_row list \<Rightarrow> nat \<Rightarrow> node_origin \<Rightarrow> emission list option" where
  "md_table opts rows header_rows origin =
     (case rows of
        [] \<Rightarrow> None
      | head_row # _ \<Rightarrow>
          let width = length (row_cells head_row) in
          joined
            [Some (md_boundary ''|'' ''table pipe'' (Some origin)),
             joined (map (md_header_column opts origin rows header_rows) [0..<width]),
             Some (md_boundary [CHR 0x0A, CHR ''|''] ''table pipe'' (Some origin)),
             Some (concat (replicate width (md_boundary '' --- |'' ''table delimiter row'' (Some origin)))),
             joined (map (md_body_row opts) (drop header_rows (enumerate 0 rows)))])"

subsection \<open>Marks and labels\<close>

fun collapse_dashes :: "string \<Rightarrow> string" where
  "collapse_dashes (c # d # s) =
     (if c = CHR ''-'' \<and> d = CHR ''-'' then collapse_dashes (d # s) else c # collapse_dashes (d # s))"
| "collapse_dashes s = s"

definition is_dash :: "char \<Rightarrow> bool" where
  "is_dash ch \<longleftrightarrow> ch = CHR ''-''"

definition comment_safe_code :: "string \<Rightarrow> string" where
  "comment_safe_code s =
     (let safe = map (\<lambda>ch. if char_code ch < 0x20 \<or> char_code ch = 0x7F \<or> ch \<in> set ''-><  '' then CHR ''-'' else ch) s;
          code = rev (dropWhile is_dash (rev (dropWhile is_dash (collapse_dashes safe))))
      in if code = [] then ''unnamed'' else code)"

definition md_degradation_marker :: "node_origin \<Rightarrow> emission list" where
  "md_degradation_marker origin =
     (if fidelity origin \<noteq> Degraded then []
      else md_syntax
        (''<!-- geist-block: degraded='' @ comment_safe_code (degradation_code origin) @ '' -->'' @ [CHR 0x0A])
        ''block degradation marker'' (Some origin))"

definition ends_in_colon :: "string \<Rightarrow> bool" where
  "ends_in_colon s \<longleftrightarrow> s \<noteq> [] \<and> last s = CHR '':''"

fun inline_ends_with_colon :: "inline_ir \<Rightarrow> bool"
  and inline_sequence_ends_with_colon :: "inlines \<Rightarrow> bool" where
  "inline_ends_with_colon (Inline node origin) \<longleftrightarrow>
     (case node of
        Revised_inline _ children \<Rightarrow> inline_sequence_ends_with_colon children
      | Text_inline s \<Rightarrow> ends_in_colon s
      | Emphasis_inline s _ _ \<Rightarrow> ends_in_colon s
      | Underline_inline s \<Rightarrow> ends_in_colon s
      | Code_inline s _ \<Rightarrow> ends_in_colon s
      | Cross_reference_inline r \<Rightarrow> ends_in_colon (label_text r)
      | _ \<Rightarrow> False)"
| "inline_sequence_ends_with_colon [] \<longleftrightarrow> False"
| "inline_sequence_ends_with_colon [i] \<longleftrightarrow> inline_ends_with_colon i"
| "inline_sequence_ends_with_colon (i # j # is) \<longleftrightarrow> inline_sequence_ends_with_colon (j # is)"

definition markdown_alt_text :: "string \<Rightarrow> string" where
  "markdown_alt_text resource =
     (if take (length resource_marker) resource = resource_marker
      then escape_markdown_text (''PICTURE '' @ drop (length resource_marker) resource)
      else escape_markdown_text resource)"

subsection \<open>Replaying a rendered child\<close>

text \<open>A span is written line by line. Behind a line break comes the indentation, unless the line is blank or the
  rendered text ends there.\<close>

function replay_span :: "string \<Rightarrow> trace_span \<Rightarrow> nat \<Rightarrow> emission list" where
  "replay_span rendered span cursor =
     (if cursor \<ge> span_end span then []
      else
        let newline = find_from rendered [CHR 0x0A] cursor;
            line_break = (case newline of None \<Rightarrow> False | Some n \<Rightarrow> n < span_end span);
            stop = (case newline of Some n \<Rightarrow> if n < span_end span then n + 1 else span_end span | None \<Rightarrow> span_end span)
        in emission_of (span_role span) (span_projection span) (slice rendered cursor stop) (span_reason span)
             (span_origin span) @
           (if line_break \<and> stop < length rendered \<and> rendered ! stop \<noteq> CHR 0x0A
            then md_boundary ''    '' ''compound block indentation'' (span_origin span) else []) @
           (if stop \<le> cursor then [] else replay_span rendered span stop))"
  by pat_completeness auto
termination
  by (relation "measure (\<lambda>(rendered, span, cursor). span_end span - cursor)") auto

declare replay_span.simps [simp del]

definition replay_indented :: "markdown_sink \<Rightarrow> emission list" where
  "replay_indented child = concat (map (\<lambda>span. replay_span (md_text child) span (span_begin span)) (md_spans child))"

subsection \<open>Blocks\<close>

definition answer_as :: "markdown_options \<Rightarrow> target_kind \<Rightarrow> (string \<Rightarrow> string option) option" where
  "answer_as opts kind =
     map_option (\<lambda>resolver s. resolver (plain_target kind s [])) (resolve_reference opts)"

definition html_options_for_markdown :: "markdown_options \<Rightarrow> html_render_options" where
  "html_options_for_markdown opts =
     no_resolvers\<lparr> resolve_topic := answer_as opts Topic_target, resolve_anchor := answer_as opts Anchor_target,
       resolve_resource := answer_as opts Resource_target, resolve_external := answer_as opts External_target \<rparr>"

definition md_compound_html :: "markdown_options \<Rightarrow> block_ir \<Rightarrow> string \<Rightarrow> emission list option" where
  "md_compound_html opts b reason =
     map_option (\<lambda>s. md_html s reason (Some (block_origin b)))
       (render_document_html_blocks [b] (html_options_for_markdown opts) (resolve_reference opts) True)"

definition md_heading ::
  "markdown_options \<Rightarrow> node_origin \<Rightarrow> u32 \<Rightarrow> inlines \<Rightarrow> u32 option \<Rightarrow> emission list option" where
  "md_heading opts origin level content mark =
     joined
       [Some (md_boundary (replicate (unat level) (CHR ''#'') @ '' '') ''heading marker'' (Some origin)),
        Some (case mark of
           None \<Rightarrow> []
         | Some m \<Rightarrow> md_content (escape_markdown_text (revision_mark_text m) @ '' '') ''heading revision mark'' (Some origin)),
        md_inlines opts Single_line_context [] content]"

definition list_letter :: "list_marker \<Rightarrow> u64 \<Rightarrow> char" where
  "list_letter marker n =
     char_of (unat (of_nat (char_code (if marker = Lower_alpha_marker then CHR ''a'' else CHR ''A'')) + n - 1 :: u64))"

definition md_item_marker :: "bool \<Rightarrow> list_marker \<Rightarrow> list_item \<Rightarrow> emission list" where
  "md_item_marker ordered marker item =
     (let origin = Some (item_origin item); n = or_else (item_ordinal item) 1 in
      md_boundary (replicate (unat (item_depth item) * 2) (CHR '' '')) ''list indent'' origin @
      (if \<not> ordered then md_boundary ''- '' ''list bullet'' origin
       else if marker = Decimal_marker then md_marker (decimal (unat n) @ ''. '') ''ordered list marker'' origin
       else md_marker ([list_letter marker n] @ ''. '') ''ordered list marker'' origin))"

definition md_item_label :: "markdown_options \<Rightarrow> list_item \<Rightarrow> emission list option" where
  "md_item_label opts item =
     (if item_label item = [] then Some []
      else joined [md_inlines opts Single_line_context [] (item_label item),
                   Some (md_boundary '' '' ''list item label separator'' (Some (item_origin item)))])"

definition md_term :: "markdown_options \<Rightarrow> inlines \<Rightarrow> emission list option" where
  "md_term opts content =
     map_option (at_step ''term'' 0)
       (if wholly_emphasised_label content
        then (case plain_label content of None \<Rightarrow> None | Some plain \<Rightarrow> md_inlines opts Single_line_context [] plain)
        else md_inlines opts Single_line_context [] content)"

definition md_note :: "markdown_options \<Rightarrow> node_origin \<Rightarrow> inlines \<Rightarrow> inlines \<Rightarrow> emission list option" where
  "md_note opts origin label content =
     joined
       [Some (md_boundary ''> '' ''note marker'' (Some origin)),
        if label = [] then Some []
        else joined [Some (md_syntax ''**'' ''note label syntax'' (Some origin)),
                     map_option (at_step ''label'' 0) (md_inlines opts Single_line_context [] label),
                     Some (md_boundary '':** '' ''note label syntax'' (Some origin))],
        map_option (at_step ''content'' 0) (md_inlines opts Single_line_context [] content)]"

definition md_publication_paragraph ::
  "markdown_options \<Rightarrow> node_origin \<Rightarrow> nat \<times> inlines \<Rightarrow> emission list option" where
  "md_publication_paragraph opts origin = (\<lambda>(index, content).
     map_option (at_step ''paragraph'' index)
       (joined [Some (md_boundary ([CHR 0x0A, CHR 0x0A] @ ''  '') ''publication paragraph indent'' (Some origin)),
                md_inlines opts Single_line_context [] content]))"

definition md_publication_entry :: "markdown_options \<Rightarrow> nat \<times> publication_entry \<Rightarrow> emission list option" where
  "md_publication_entry opts = (\<lambda>(index, entry).
     let origin = publication_origin entry in
     map_option (at_step ''entry'' index)
       (joined
          [Some (if index \<noteq> 0 then md_boundary [CHR 0x0A, CHR 0x0A] ''publication entry break'' (Some origin) else []),
           Some (md_boundary ''- **'' ''publication title syntax'' (Some origin)),
           map_option (at_step ''title'' 0) (md_inlines opts Single_line_context [] (publication_title entry)),
           Some (md_syntax ''**'' ''publication title syntax'' (Some origin)),
           joined (map (md_publication_paragraph opts origin) (enumerate 0 (publication_paragraphs entry)))]))"

definition md_figure :: "markdown_options \<Rightarrow> node_origin \<Rightarrow> figure_block \<Rightarrow> emission list option" where
  "md_figure opts origin figure =
     joined
       [Some (md_syntax ''!['' ''image syntax'' (Some origin) @
              (if figure_description figure \<noteq> []
               then md_content (escape_markdown_text (figure_description figure)) ''figure description'' (Some origin)
               else md_generated (markdown_alt_text (figure_resource figure)) ''figure alt text'') @
              md_syntax '']('' ''image syntax'' (Some origin) @
              md_syntax (markdown_destination (figure_resource figure)) ''image destination'' (Some origin) @
              md_syntax '')'' ''image syntax'' (Some origin)),
        if figure_caption figure = [] then Some []
        else joined
          [Some (md_boundary ([CHR 0x0A, CHR 0x0A] @ ''*'') ''figure caption syntax'' (Some origin)),
           map_option (at_step ''caption'' 0)
             (joined [md_inlines opts Single_line_context [] (figure_caption figure),
                      Some (md_syntax ''*'' ''figure caption syntax'' (Some origin))])]]"

definition md_footnote :: "markdown_options \<Rightarrow> node_origin \<Rightarrow> string \<Rightarrow> inlines \<Rightarrow> emission list option" where
  "md_footnote opts origin i content =
     joined [Some (md_marker (''[^'' @ footnote_label i @ '']: '') ''footnote marker'' (Some origin)),
             md_inlines opts Single_line_context [] content]"

definition md_index_entry :: "markdown_options \<Rightarrow> nat \<times> index_entry \<Rightarrow> emission list option" where
  "md_index_entry opts = (\<lambda>(index, entry).
     let origin = index_origin entry in
     map_option (at_step ''entry'' index)
       (joined
          [Some (if index \<noteq> 0 then md_boundary [CHR 0x0A] ''index entry break'' (Some origin) else []),
           Some (md_boundary ''- ['' ''index entry syntax'' (Some origin)),
           map_option (at_step ''term'' 0) (md_inlines opts Single_line_context [] (index_term entry)),
           Some (md_syntax '']('' ''index entry syntax'' (Some origin) @
                 md_syntax (markdown_destination (index_target entry)) ''index entry destination'' (Some origin) @
                 md_syntax '')'' ''index entry syntax'' (Some origin))]))"

definition md_index_group ::
  "markdown_options \<Rightarrow> node_origin \<Rightarrow> inlines \<Rightarrow> index_entry list \<Rightarrow> emission list option" where
  "md_index_group opts origin heading entries =
     joined
       [if heading = [] then Some []
        else joined [Some (md_syntax ''**'' ''index heading syntax'' (Some origin)),
                     map_option (at_step ''heading'' 0) (md_inlines opts Single_line_context [] heading),
                     Some (md_boundary (''**'' @ [CHR 0x0A, CHR 0x0A]) ''index heading syntax'' (Some origin))],
        joined (map (md_index_entry opts) (enumerate 0 entries))]"

definition md_menu_item :: "markdown_options \<Rightarrow> nat \<times> menu_item \<Rightarrow> emission list" where
  "md_menu_item opts = (\<lambda>(index, item).
     let origin = Some (menu_origin item) in
     at_step ''item'' index
       ((if index \<noteq> 0 then md_boundary [CHR 0x0A] ''menu item break'' origin else []) @
        md_boundary ''- ['' ''menu item syntax'' origin @
        md_content (escape_markdown_text (target_value (menu_target item))) ''menu item target id'' origin @
        md_generated (escape_markdown_text '' '') ''reader-generated menu label separator'' @
        md_content (escape_markdown_text (menu_label item)) ''menu item label'' origin @
        md_syntax '']('' ''menu item syntax'' origin @
        md_syntax (markdown_destination (menu_destination opts (menu_target item))) ''menu item destination'' origin @
        md_syntax '')'' ''menu item syntax'' origin))"

definition md_menu :: "markdown_options \<Rightarrow> menu_item list \<Rightarrow> emission list" where
  "md_menu opts items =
     md_generated (''Subtopics:'' @ [CHR 0x0A, CHR 0x0A]) ''reader-generated menu lead line'' @
     concat (map (md_menu_item opts) (enumerate 0 items))"

definition md_opaque :: "node_origin \<Rightarrow> string \<Rightarrow> string \<Rightarrow> emission list" where
  "md_opaque origin kind content =
     md_marker ''**Opaque '' ''opaque block syntax'' (Some origin) @
     md_content (escape_markdown_text kind) ''opaque block kind'' (Some origin) @
     md_marker ('' content:**'' @ [CHR 0x0A, CHR 0x0A]) ''opaque block syntax'' (Some origin) @
     md_fenced_block [content] origin ''opaque block content'' []"

definition compound_entry :: "definition_entry \<Rightarrow> bool" where
  "compound_entry entry \<longleftrightarrow> entry_empty_term entry \<or> entry_blocks entry \<noteq> []"

definition compound_row :: "table_row \<Rightarrow> bool" where
  "compound_row row \<longleftrightarrow> list_ex (\<lambda>cell. cell_blocks cell \<noteq> []) (row_cells row)"

fun md_block :: "markdown_options \<Rightarrow> block_ir \<Rightarrow> emission list option"
  and md_items :: "markdown_options \<Rightarrow> bool \<Rightarrow> list_marker \<Rightarrow> nat \<Rightarrow> list_item list \<Rightarrow> emission list option"
  and md_entries :: "markdown_options \<Rightarrow> nat \<Rightarrow> definition_entry list \<Rightarrow> emission list option"
  and md_compound_blocks :: "markdown_options \<Rightarrow> bool \<Rightarrow> nat \<Rightarrow> block_ir list \<Rightarrow> emission list option" where
  "md_block opts (Block node origin) =
     joined
       [Some (md_degradation_marker origin),
        (case node of
           Heading_block level content mark \<Rightarrow> md_heading opts origin level content mark
         | Paragraph_block content \<Rightarrow> md_inlines opts Prose_context [] content
         | Anchor_block anchor \<Rightarrow>
             Some (md_syntax (''<a id='' @ [CHR 0x22] @ escape_html_attribute (anchor_id anchor) @ [CHR 0x22] @ ''></a>'')
               ''anchor'' (Some origin))
         | Thematic_break_block \<Rightarrow> Some (md_marker ''---'' ''thematic break'' (Some origin))
         | List_block ordered items marker \<Rightarrow> md_items opts ordered marker 0 items
         | Definition_list_block entries \<Rightarrow>
             if list_ex compound_entry entries
             then md_compound_html opts (Block node origin) ''compound definition list HTML''
             else md_entries opts 0 entries
         | Table_block rows header_rows \<Rightarrow>
             if list_ex compound_row rows then md_compound_html opts (Block node origin) ''compound table HTML''
             else md_table opts rows header_rows origin
         | Preformatted_block pre \<Rightarrow> md_preformatted opts pre origin
         | Note_block label content \<Rightarrow> md_note opts origin label content
         | Publication_list_block entries \<Rightarrow> joined (map (md_publication_entry opts) (enumerate 0 entries))
         | Figure_block figure \<Rightarrow> md_figure opts origin figure
         | Footnote_block i content \<Rightarrow> md_footnote opts origin i content
         | Index_group_block heading entries \<Rightarrow> md_index_group opts origin heading entries
         | Menu_block items \<Rightarrow> Some (md_menu opts items)
         | Opaque_block kind content \<Rightarrow> Some (md_opaque origin kind content))]"
| "md_items opts ordered marker index [] = Some []"
| "md_items opts ordered marker index
     (List_item content origin ordinal depth empty_content children label mark # items) =
     (let item = List_item content origin ordinal depth empty_content children label mark in
      joined
        [map_option (at_step ''item'' index)
           (joined
              [Some (if index \<noteq> 0 then md_boundary [CHR 0x0A] ''list item break'' (Some origin) else []),
               Some (md_item_marker ordered marker item), md_item_label opts item,
               if children = [] then md_inlines opts Single_line_context [] content
               else md_compound_blocks opts True 0 children]),
         md_items opts ordered marker (index + 1) items])"
| "md_entries opts index [] = Some []"
| "md_entries opts index (Definition_entry word body origin children empty_term # entries) =
     joined
       [map_option (at_step ''entry'' index)
          (joined
             [Some (if index \<noteq> 0 then md_boundary [CHR 0x0A] ''definition entry break'' (Some origin) else []),
              Some (md_boundary ''- **'' ''definition term syntax'' (Some origin)),
              md_term opts word,
              Some (md_boundary
                (if inline_sequence_ends_with_colon word then (if children \<noteq> [] then ''**'' else ''** '')
                 else (if children \<noteq> [] then '':**'' else '':** ''))
                ''definition term syntax'' (Some origin)),
              map_option (at_step ''definition'' 0)
                (if children = [] then md_inlines opts Single_line_context [] body
                 else md_compound_blocks opts False 0 children)]),
        md_entries opts (index + 1) entries]"
| "md_compound_blocks opts follows_marker index [] = Some []"
| "md_compound_blocks opts follows_marker index (b # bs) =
     joined
       [Some (if index \<noteq> 0 \<or> \<not> follows_marker
              then md_boundary [CHR 0x0A, CHR 0x0A] ''compound block separator'' (Some (block_origin b)) @
                   md_boundary ''    '' ''compound block indentation'' (Some (block_origin b))
              else []),
        map_option (at_step ''block'' index \<circ> replay_indented \<circ> markdown_of) (md_block opts b),
        md_compound_blocks opts follows_marker (index + 1) bs]"

subsection \<open>Documents\<close>

text \<open>Blocks are set apart once there is text; \<open>es\<close> is what the sink has.\<close>

fun md_document_blocks ::
  "markdown_options \<Rightarrow> emission list \<Rightarrow> nat \<Rightarrow> block_ir list \<Rightarrow> emission list option" where
  "md_document_blocks opts es index [] = Some es"
| "md_document_blocks opts es index (b # bs) =
     (case md_block opts b of
        None \<Rightarrow> None
      | Some fs \<Rightarrow>
          md_document_blocks opts
            (es @ at_step ''block'' index
               ((if md_text (markdown_of es) = [] then []
                 else md_boundary [CHR 0x0A, CHR 0x0A] ''block separator'' (Some (block_origin b))) @ fs))
            (index + 1) bs)"

definition render_document_markdown :: "document_ir \<Rightarrow> markdown_options \<Rightarrow> exn + markdown_sink option" where
  "render_document_markdown document opts =
     (case verify_document_ir document of
        Some message \<Rightarrow> Inl (InvalidArgument (''invalid DocumentIR: '' @ message))
      | None \<Rightarrow>
          Inr (map_option
            (\<lambda>es. markdown_of (es @ md_boundary [CHR 0x0A] ''document terminator'' None))
            (md_document_blocks opts [] 0 (document_blocks document))))"

end
