(* ===== verification/Markdown_Visible.thy ===== *)
theory Markdown_Visible
  imports Markdown_Render Html_Visible
begin

section \<open>The text of emitted Markdown (\<open>src/render/markdown_visible_text.cpp\<close>)\<close>

text \<open>
  The projection that gives back the text a reader of the Markdown sees. It does not parse Markdown: it follows the
  trace, which says of every span how its bytes contribute, and refuses a trace that does not account for every
  byte and bytes that no printing function would have escaped this way. Errors are the messages of the exceptions.
\<close>

function unescape_markdown :: "string \<Rightarrow> string + string" where
  "unescape_markdown [] = Inr []"
| "unescape_markdown (ch # s) =
     (if ch = CHR 0x5C then
        (if s = [] \<or> \<not> is_markdown_punctuation (hd s) then Inl ''unsupported emitted Markdown escape''
         else and_then (unescape_markdown (tl s)) (\<lambda>out. Inr (hd s # out)))
      else if starts_with (ch # s) ''&amp;''
      then and_then (unescape_markdown (drop 4 s)) (\<lambda>out. Inr (CHR ''&'' # out))
      else if ch = CHR ''&'' \<or> is_markdown_punctuation ch then Inl ''unescaped punctuation in emitted Markdown text''
      else and_then (unescape_markdown s) (\<lambda>out. Inr (ch # out)))"
  by pat_completeness auto
termination by (relation "measure length") auto

definition projected_text :: "text_projection \<Rightarrow> string \<Rightarrow> string + string" where
  "projected_text projection bytes =
     (case projection of
        Hidden_text \<Rightarrow> Inr []
      | Boundary_text \<Rightarrow> Inr [CHR 0x0A]
      | Literal_text \<Rightarrow> Inr bytes
      | Escaped_text \<Rightarrow> unescape_markdown bytes
      | Html_text \<Rightarrow> Inl ''unsupported Markdown text projection'')"

definition flush_html :: "string \<Rightarrow> string + string" where
  "flush_html html = (if html = [] then Inr [] else html_visible_text html)"

text \<open>The indentation in front of a further line of one HTML block is not a boundary.\<close>

definition continues_html :: "string \<Rightarrow> text_projection \<Rightarrow> string \<Rightarrow> bool" where
  "continues_html html projection bytes \<longleftrightarrow>
     projection = Boundary_text \<and> html \<noteq> [] \<and> last html = CHR 0x0A \<and> list_all (\<lambda>ch. ch = CHR '' '') bytes"

fun project_spans :: "string \<Rightarrow> nat \<Rightarrow> string \<Rightarrow> string \<Rightarrow> trace_span list \<Rightarrow> string + string" where
  "project_spans markdown next html out [] =
     and_then (flush_html html) (\<lambda>shown.
       if next \<noteq> length markdown then Inl ''Markdown text projection requires a complete trace''
       else Inr (out @ shown))"
| "project_spans markdown next html out (span # spans) =
     (if span_begin span \<noteq> next \<or> span_end span \<le> span_begin span \<or> span_end span > length markdown
      then Inl ''Markdown text projection requires a complete trace''
      else
        let bytes = slice markdown (span_begin span) (span_end span) in
        if span_projection span = Html_text then project_spans markdown (span_end span) (html @ bytes) out spans
        else if continues_html html (span_projection span) bytes
        then project_spans markdown (span_end span) html out spans
        else
          and_then (flush_html html) (\<lambda>shown.
          and_then (projected_text (span_projection span) bytes) (\<lambda>own.
            project_spans markdown (span_end span) [] (out @ shown @ own) spans)))"

definition markdown_visible_text :: "string \<Rightarrow> trace_span list \<Rightarrow> string + string" where
  "markdown_visible_text markdown spans = project_spans markdown 0 [] [] spans"

definition verified_markdown_visible_text ::
  "string \<Rightarrow> string \<Rightarrow> trace_span list \<Rightarrow> string \<Rightarrow> string + string" where
  "verified_markdown_visible_text actual serialized spans diagnostic_prefix =
     (if actual \<noteq> diagnostic_prefix @ serialized then Inl ''serialized Markdown disagrees with topic output''
      else markdown_visible_text (drop (length diagnostic_prefix) actual) spans)"

end
