(* ===== verification/Markdown_Reads.thy ===== *)
theory Markdown_Reads
  imports Markdown_Visible Html_Seen Verbatim_Html
begin

section \<open>The projection over emissions\<close>

text \<open>
  The text projection restated over the emissions of a printing function, with the HTML it has pending as its
  state (\<open>md_reads\<close>): what is unescaped as it was escaped, which HTML can be read, and that the replay of a nested
  block, which cuts its spans into indented lines, is read like the block.
\<close>

subsection \<open>The trace of a list of emissions\<close>

fun spans_from :: "nat \<Rightarrow> emission list \<Rightarrow> trace_span list" where
  "spans_from pos [] = []"
| "spans_from pos (e # es) =
     (if emitted e = [] then spans_from pos es
      else \<lparr> span_begin = pos, span_end = pos + length (emitted e), span_role = emitted_role e,
             span_projection = emitted_projection e, span_reason = emitted_reason e, span_path = emitted_path e,
             span_origin = emitted_origin e \<rparr> # spans_from (pos + length (emitted e)) es)"

definition output_of :: "emission list \<Rightarrow> string" where
  "output_of es = concat (map emitted es)"

lemma output_of_simps [simp]:
  "output_of [] = []" "output_of (e # es) = emitted e @ output_of es" "output_of (es @ fs) = output_of es @ output_of fs"
  by (simp_all add: output_of_def)

lemma emitted_all:
  "foldl emit_markdown sink es =
     \<lparr> md_text = md_text sink @ output_of es, md_spans = md_spans sink @ spans_from (length (md_text sink)) es \<rparr>"
  by (induction es arbitrary: sink) (simp_all add: emit_markdown_def)

lemma markdown_of_eq: "markdown_of es = \<lparr> md_text = output_of es, md_spans = spans_from 0 es \<rparr>"
  by (simp add: markdown_of_def emitted_all)

subsection \<open>Reading emissions\<close>

fun md_reads :: "string \<Rightarrow> emission list \<Rightarrow> (string \<times> string) option" where
  "md_reads h [] = Some ([], h)"
| "md_reads h (e # es) =
     (if emitted e = [] then md_reads h es
      else if emitted_projection e = Html_text then md_reads (h @ emitted e) es
      else if continues_html h (emitted_projection e) (emitted e) then md_reads h es
      else
        (case (flush_html h, projected_text (emitted_projection e) (emitted e)) of
           (Inr shown, Inr own) \<Rightarrow> map_option (\<lambda>(out, h'). (shown @ own @ out, h')) (md_reads [] es)
         | _ \<Rightarrow> None))"

lemma md_reads_append:
  "md_reads h (es @ fs) =
     (case md_reads h es of None \<Rightarrow> None
      | Some (out, h') \<Rightarrow> map_option (\<lambda>(out', h''). (out @ out', h'')) (md_reads h' fs))"
  by (induction h es rule: md_reads.induct)
    (auto simp: option.map_comp option.map_id comp_def case_prod_beta split: option.split sum.split intro: option.map_cong)

lemma project_reads:
  "md_reads h es = Some (out', h') \<Longrightarrow>
     project_spans (pre @ output_of es) (length pre) h out (spans_from (length pre) es) =
       and_then (flush_html h') (\<lambda>shown. Inr (out @ out' @ shown))"
proof (induction h es arbitrary: pre out out' rule: md_reads.induct)
  case (1 h)
  then show ?case by simp
next
  case (2 h e es)
  show ?case
  proof (cases "emitted e = []")
    case True
    with 2 show ?thesis by simp
  next
    case False
    note parts = 2(2-4)
    have rest: "project_spans (pre @ output_of (e # es)) (length pre + length (emitted e)) h2 out2
          (spans_from (length pre + length (emitted e)) es) =
        and_then (flush_html h') (\<lambda>shown. Inr (out2 @ out3 @ shown))"
      if "\<And>pre out. project_spans (pre @ output_of es) (length pre) h2 out (spans_from (length pre) es) =
          and_then (flush_html h') (\<lambda>shown. Inr (out @ out3 @ shown))" for h2 out2 out3
      using that [of "pre @ emitted e" out2] by simp
    show ?thesis
      using 2 False rest
      by (fastforce simp: slice_middle split: if_splits sum.splits)
  qed
qed

subsection \<open>Escaped text\<close>

definition single_line :: "string \<Rightarrow> string" where
  "single_line s = (case unescape_markdown (escape_markdown_text s) of Inr t \<Rightarrow> t | Inl _ \<Rightarrow> [])"

definition unbroken :: "string \<Rightarrow> bool" where
  "unbroken s \<longleftrightarrow> \<not> list_ex line_break s"

lemma unescape_plain:
  "ch \<noteq> CHR 0x5C \<Longrightarrow> ch \<noteq> CHR ''&'' \<Longrightarrow> \<not> is_markdown_punctuation ch \<Longrightarrow>
     unescape_markdown (ch # s) = and_then (unescape_markdown s) (\<lambda>out. Inr (ch # out))"
  by (simp add: starts_with_def)

lemma unescape_punctuation:
  "is_markdown_punctuation ch \<Longrightarrow>
     unescape_markdown (CHR 0x5C # ch # s) = and_then (unescape_markdown s) (\<lambda>out. Inr (ch # out))"
  by simp

lemma unescape_ampersand:
  "unescape_markdown (''&amp;'' @ s) = and_then (unescape_markdown s) (\<lambda>out. Inr (CHR ''&'' # out))"
  by (simp add: starts_with_def is_markdown_punctuation_def)

lemma punctuation_chars [simp]:
  "\<not> is_markdown_punctuation (CHR '' '')" "\<not> is_markdown_punctuation (CHR 0x0A)" "is_markdown_punctuation (CHR 0x5C)"
  "\<not> is_markdown_punctuation (CHR ''&'')"
  by (simp_all add: is_markdown_punctuation_def)

declare unescape_markdown.simps(2) [simp del] escape_markdown_text.simps(2) [simp del]

lemma unescape_escaped_append:
  "\<exists>t. unescape_markdown (escape_markdown_text s @ rest) = and_then (unescape_markdown rest) (\<lambda>out. Inr (t @ out)) \<and>
     (unbroken s \<longrightarrow> t = s)"
proof (induction s rule: escape_markdown_text.induct)
  case 1
  show ?case by (cases "unescape_markdown rest") (simp_all)
next
  case (2 ch s)
  note simps = escape_markdown_text.simps(2) [of ch s]
  consider "line_break ch" | "ch = CHR ''&''" | "is_markdown_punctuation ch"
    | "\<not> line_break ch" "ch \<noteq> CHR ''&''" "\<not> is_markdown_punctuation ch" by blast
  then show ?case
  proof cases
    case 1
    then obtain t where "unescape_markdown (escape_markdown_text
        (if ch = CHR 0x0D \<and> s \<noteq> [] \<and> hd s = CHR 0x0A then tl s else s) @ rest) =
        and_then (unescape_markdown rest) (\<lambda>out. Inr (t @ out))"
      using 2(1) by (auto simp: line_break_def)
    with 1 show ?thesis
      by (intro exI [of _ "CHR '' '' # t"])
        (auto simp: simps line_break_def unescape_plain unbroken_def and_then_assoc)
  next
    case 2
    then obtain t where "unescape_markdown (escape_markdown_text s @ rest) =
        and_then (unescape_markdown rest) (\<lambda>out. Inr (t @ out))" "unbroken s \<longrightarrow> t = s"
      using \<open>\<lbrakk>\<not> (ch = CHR 0x0D \<or> ch = CHR 0x0A); ch = CHR ''&''\<rbrakk> \<Longrightarrow> _\<close> by auto
    with 2 show ?thesis
      using unescape_ampersand [of "escape_markdown_text s @ rest"]
      by (intro exI [of _ "CHR ''&'' # t"])
        (auto simp: escape_markdown_text.simps(2) [of "CHR ''&''" s] unbroken_def and_then_assoc)
  next
    case 3
    then have "ch \<noteq> CHR 0x0D" "ch \<noteq> CHR 0x0A" "ch \<noteq> CHR ''&''" by (auto simp: is_markdown_punctuation_def)
    moreover from this obtain t where "unescape_markdown (escape_markdown_text s @ rest) =
        and_then (unescape_markdown rest) (\<lambda>out. Inr (t @ out))" "unbroken s \<longrightarrow> t = s"
      using 2(3) by auto
    ultimately show ?thesis
      using 3 by (intro exI [of _ "ch # t"]) (auto simp: simps unescape_punctuation unbroken_def and_then_assoc)
  next
    case 4
    then obtain t where "unescape_markdown (escape_markdown_text s @ rest) =
        and_then (unescape_markdown rest) (\<lambda>out. Inr (t @ out))" "unbroken s \<longrightarrow> t = s"
      using 2(3) by (auto simp: line_break_def)
    moreover have "ch \<noteq> CHR 0x5C" using 4 by auto
    ultimately show ?thesis
      using 4 by (intro exI [of _ "ch # t"])
        (auto simp: simps unescape_plain unbroken_def and_then_assoc line_break_def)
  qed
qed

lemma unescape_escaped: "unescape_markdown (escape_markdown_text s) = Inr (single_line s)"
  using unescape_escaped_append [of s "[]"] by (auto simp: single_line_def)

lemma single_line_unbroken: "unbroken s \<Longrightarrow> single_line s = s"
  using unescape_escaped_append [of s "[]"] by (auto simp: single_line_def)

lemma entity_before_break:
  "starts_with (s @ CHR 0x0A # rest) ''&amp;'' \<longleftrightarrow> starts_with s ''&amp;''"
proof (cases "length s < 5")
  case True
  then have "CHR 0x0A \<in> set (take 5 (s @ CHR 0x0A # rest))" by (simp add: take_Cons')
  moreover have "CHR 0x0A \<notin> set ''&amp;''" by simp
  ultimately have "take 5 (s @ CHR 0x0A # rest) \<noteq> ''&amp;''" by metis
  moreover have "take 5 s \<noteq> ''&amp;''" using True arg_cong [of "take 5 s" "''&amp;''" length] by auto
  moreover have five: "length ''&amp;'' = 5" by simp
  ultimately show ?thesis unfolding starts_with_def five by blast
next
  case False
  then show ?thesis by (simp add: starts_with_def)
qed

lemma unescape_at_break:
  "unescape_markdown (s @ CHR 0x0A # rest) = Inr out \<Longrightarrow>
     (\<exists>t. unescape_markdown (s @ [CHR 0x0A]) = Inr t) \<and> (\<exists>t. unescape_markdown rest = Inr t)"
proof (induction s arbitrary: out rule: unescape_markdown.induct)
  case 1
  then show ?case by (auto simp: unescape_markdown.simps(2) starts_with_def and_then_eq_Inr)
next
  case (2 ch s)
  have long: "length s \<ge> 4" if "starts_with (ch # s) ''&amp;''"
  proof -
    have "take 4 s = ''amp;''" using that by (simp add: starts_with_def eval_nat_numeral)
    then have "length (take 4 s) = 4" by simp
    then show ?thesis by simp
  qed
  have step: "unescape_markdown (ch # s @ CHR 0x0A # r) =
      (if ch = CHR 0x5C then
         (if s = [] \<or> \<not> is_markdown_punctuation (hd s) then Inl ''unsupported emitted Markdown escape''
          else and_then (unescape_markdown (tl s @ CHR 0x0A # r)) (\<lambda>out. Inr (hd s # out)))
       else if starts_with (ch # s) ''&amp;''
       then and_then (unescape_markdown (drop 4 s @ CHR 0x0A # r)) (\<lambda>out. Inr (CHR ''&'' # out))
       else if ch = CHR ''&'' \<or> is_markdown_punctuation ch then Inl ''unescaped punctuation in emitted Markdown text''
       else and_then (unescape_markdown (s @ CHR 0x0A # r)) (\<lambda>out. Inr (ch # out)))" for r
    using entity_before_break [of "ch # s" r] long
    by (cases "starts_with (ch # s) ''&amp;''")
      (auto simp: unescape_markdown.simps(2) [of ch "s @ CHR 0x0A # r"] hd_append)
  consider "ch = CHR 0x5C" "s \<noteq> []" "is_markdown_punctuation (hd s)" | "ch \<noteq> CHR 0x5C" "starts_with (ch # s) ''&amp;''"
    | "ch \<noteq> CHR 0x5C" "\<not> starts_with (ch # s) ''&amp;''" "\<not> (ch = CHR ''&'' \<or> is_markdown_punctuation ch)"
    using 2(4) unfolding append.simps step by (auto split: if_splits)
  then show ?case
  proof cases
    case 1
    with 2(4) obtain t where "unescape_markdown (tl s @ CHR 0x0A # rest) = Inr t"
      unfolding append.simps step by (auto simp: and_then_eq_Inr)
    with 1 show ?thesis using 2(1) unfolding append.simps step by (fastforce simp: and_then_eq_Inr)
  next
    case c: 2
    with 2(4) obtain t where "unescape_markdown (drop 4 s @ CHR 0x0A # rest) = Inr t"
      unfolding append.simps step by (auto simp: and_then_eq_Inr)
    with c show ?thesis using 2(2) unfolding append.simps step by (fastforce simp: and_then_eq_Inr)
  next
    case 3
    with 2(4) obtain t where "unescape_markdown (s @ CHR 0x0A # rest) = Inr t"
      unfolding append.simps step by (auto simp: and_then_eq_Inr)
    with 3 show ?thesis using 2(3) unfolding append.simps step by (fastforce simp: and_then_eq_Inr)
  qed
qed

subsection \<open>HTML that can be read\<close>

definition fragment :: "string \<Rightarrow> bool" where
  "fragment h \<longleftrightarrow>
     (\<forall>st :: visible_state. \<exists>st'. visible_elements st' = visible_elements st \<and>
        (\<forall>rest. visible_loop (h @ rest) st = visible_loop rest st'))"

lemma fragment_Nil: "fragment []"
  by (auto simp: fragment_def)

lemma fragment_append: "fragment g \<Longrightarrow> fragment h \<Longrightarrow> fragment (g @ h)"
  unfolding fragment_def by (metis append_assoc)

lemma fragment_flushes: "fragment h \<Longrightarrow> \<exists>shown. flush_html h = Inr shown"
proof -
  assume "fragment h"
  then obtain st' where "visible_elements st' = []"
    "\<And>rest. visible_loop (h @ rest) \<lparr> visible_out = [], visible_lists = [], visible_elements = [] \<rparr> = visible_loop rest st'"
    unfolding fragment_def by (metis visible_state.select_convs(3))
  from this(2) [of "[]"] this(1) show ?thesis by (simp add: flush_html_def html_visible_text_def)
qed

lemma draws_fragment: "draws (Some h) w \<Longrightarrow> fragment h"
  unfolding draws_def fragment_def
proof (elim exE conjE, intro allI)
  fix s and st :: visible_state
  assume "Some h = Some s" and "\<forall>rest st. visible_loop (s @ rest) st = visible_loop rest (emit w st)"
  then show "\<exists>st'. visible_elements st' = visible_elements st \<and> (\<forall>rest. visible_loop (h @ rest) st = visible_loop rest st')"
    by (intro exI [of _ "emit w st"]) (simp add: emit_def)
qed

lemma opens_fragment:
  assumes "\<And>a. opens (\<lambda>_. True) a (Some h) a"
  shows "fragment h"
  unfolding fragment_def
proof
  fix st :: visible_state
  obtain ts where ts: "shows_as h ts" "open_elements (visible_elements st) ts = Some (visible_elements st)"
    "list_all (admits (\<lambda>_. True)) ts"
    using assms [of "visible_elements st"] by (auto simp: opens_def prints_def)
  obtain st' where "visible_tokens ts st = Inr st'" "visible_elements st' = visible_elements st"
    using visible_tokens_admitted [OF ts(3,2)] by blast
  with ts(1) show "\<exists>st'. visible_elements st' = visible_elements st \<and>
      (\<forall>rest. visible_loop (h @ rest) st = visible_loop rest st')"
    by (auto simp: shows_as_def)
qed

subsection \<open>Emissions that can be read\<close>

definition readable :: "emission list \<Rightarrow> bool" where
  "readable es \<longleftrightarrow> (\<forall>h. fragment h \<longrightarrow> (\<exists>out h'. md_reads h es = Some (out, h') \<and> fragment h'))"

lemma readable_Nil: "readable []"
  by (simp add: readable_def)

lemma readable_append: "readable es \<Longrightarrow> readable fs \<Longrightarrow> readable (es @ fs)"
  by (fastforce simp: readable_def md_reads_append)

lemma readable_emission:
  assumes "projection = Html_text \<and> fragment s \<or> projection \<noteq> Html_text \<and> (\<exists>own. projected_text projection s = Inr own)"
  shows "readable (emission_of role projection s reason origin)"
  using assms fragment_append fragment_flushes fragment_Nil
  by (fastforce simp: readable_def emission_of_def)

lemma readable_pieces:
  "readable (md_syntax s reason origin)" "readable (md_boundary s reason origin)"
  "readable (md_marker s reason origin)" "readable (md_literal s reason origin)"
  "readable (md_content (escape_markdown_text t) reason origin)"
  "readable (md_generated (escape_markdown_text t) reason)"
  "fragment s \<Longrightarrow> readable (md_html s reason origin)"
  by (auto simp: md_syntax_def md_boundary_def md_marker_def md_literal_def md_content_def md_generated_def md_html_def
      projected_text_def unescape_escaped intro!: readable_emission)

lemma readable_escaped:
  "unescape_markdown s = Inr own \<Longrightarrow> readable (md_content s reason origin)"
  "unescape_markdown s = Inr own \<Longrightarrow> readable (md_generated s reason)"
  by (auto simp: md_content_def md_generated_def projected_text_def intro!: readable_emission)

lemma md_reads_at_step [simp]: "md_reads h (at_step kind index es) = md_reads h es"
  unfolding at_step_def by (induction h es rule: md_reads.induct) (auto split: sum.split)

lemma readable_at_step: "readable (at_step kind index es) \<longleftrightarrow> readable es"
  by (simp add: readable_def)

subsection \<open>Replaying a block\<close>

text \<open>The part of a span that is written first: up to and with a line break, or the rest of it.\<close>

definition line_stop :: "string \<Rightarrow> trace_span \<Rightarrow> nat \<Rightarrow> nat" where
  "line_stop rendered span cursor =
     (case find_from rendered [CHR 0x0A] cursor of
        Some n \<Rightarrow> if n < span_end span then n + 1 else span_end span
      | None \<Rightarrow> span_end span)"

lemma replay_span_step:
  assumes "cursor < span_end span" and "span_end span \<le> length rendered"
  shows "cursor < line_stop rendered span cursor" "line_stop rendered span cursor \<le> span_end span"
    "line_stop rendered span cursor = span_end span \<or> rendered ! (line_stop rendered span cursor - 1) = CHR 0x0A"
    "\<exists>indent. replay_span rendered span cursor =
       emission_of (span_role span) (span_projection span) (slice rendered cursor (line_stop rendered span cursor))
         (span_reason span) (span_origin span) @ indent @ replay_span rendered span (line_stop rendered span cursor) \<and>
       (indent = [] \<or>
         indent = md_boundary ''    '' ''compound block indentation'' (span_origin span) \<and>
           rendered ! (line_stop rendered span cursor - 1) = CHR 0x0A)"
proof -
  have found: "cursor \<le> n \<and> n < length rendered \<and> rendered ! n = CHR 0x0A"
    if "find_from rendered [CHR 0x0A] cursor = Some n" for n
    using find_from_Some [OF that] by (auto simp: starts_with_def take_Suc_conv_app_nth)
  show "cursor < line_stop rendered span cursor" "line_stop rendered span cursor \<le> span_end span"
    "line_stop rendered span cursor = span_end span \<or> rendered ! (line_stop rendered span cursor - 1) = CHR 0x0A"
    using assms found by (auto simp: line_stop_def less_Suc_eq_le split: option.split)
  then show "\<exists>indent. replay_span rendered span cursor =
       emission_of (span_role span) (span_projection span) (slice rendered cursor (line_stop rendered span cursor))
         (span_reason span) (span_origin span) @ indent @ replay_span rendered span (line_stop rendered span cursor) \<and>
       (indent = [] \<or>
         indent = md_boundary ''    '' ''compound block indentation'' (span_origin span) \<and>
           rendered ! (line_stop rendered span cursor - 1) = CHR 0x0A)"
    using assms found
    by (subst replay_span.simps) (auto simp: line_stop_def Let_def split: option.split)
qed

lemma replay_span_done: "span_end span \<le> cursor \<Longrightarrow> replay_span rendered span cursor = []"
  by (subst replay_span.simps) simp

lemma slice_nonempty: "b < e \<Longrightarrow> e \<le> length s \<Longrightarrow> slice s b e \<noteq> []"
  by (auto simp: slice_def)

lemma slice_at_break:
  assumes "b < e" and "e \<le> length s" and "s ! (e - 1) = CHR 0x0A"
  shows "slice s b e = slice s b (e - 1) @ [CHR 0x0A]"
proof -
  have "slice s b e = slice s b (e - 1) @ slice s (e - 1) e" using assms by (simp add: slice_append)
  moreover have "slice s (e - 1) e = [s ! (e - 1)]"
    using assms by (intro nth_equalityI) (auto simp: nth_slice)
  ultimately show ?thesis using assms(3) by simp
qed

lemma indent_skipped:
  "last h = CHR 0x0A \<Longrightarrow> h \<noteq> [] \<Longrightarrow>
     md_reads h (md_boundary ''    '' ''compound block indentation'' origin @ fs) = md_reads h fs"
  by (simp add: md_boundary_def emission_of_def continues_html_def)

lemma html_span_replayed:
  "cursor \<le> span_end span \<Longrightarrow> span_end span \<le> length rendered \<Longrightarrow> span_projection span = Html_text \<Longrightarrow>
     md_reads h (replay_span rendered span cursor @ fs) = md_reads (h @ slice rendered cursor (span_end span)) fs"
proof (induction "span_end span - cursor" arbitrary: cursor h rule: less_induct)
  case less
  show ?case
  proof (cases "cursor < span_end span")
    case False
    then show ?thesis using less.prems by (simp add: replay_span_done)
  next
    case True
    let ?stop = "line_stop rendered span cursor"
    note step = replay_span_step [OF True less.prems(2)]
    obtain indent where indent: "replay_span rendered span cursor =
        emission_of (span_role span) (span_projection span) (slice rendered cursor ?stop)
          (span_reason span) (span_origin span) @ indent @ replay_span rendered span ?stop"
      "indent = [] \<or> indent = md_boundary ''    '' ''compound block indentation'' (span_origin span) \<and>
         rendered ! (?stop - 1) = CHR 0x0A"
      using step(4) by blast
    let ?h = "h @ slice rendered cursor ?stop"
    have nonempty: "slice rendered cursor ?stop \<noteq> []"
      using step(1,2) less.prems(2) by (intro slice_nonempty) simp_all
    have "md_reads ?h (indent @ gs) = md_reads ?h gs" for gs
      using indent(2) slice_at_break [of cursor ?stop rendered] step(1,2) less.prems(2)
      by (auto simp: indent_skipped)
    then have "md_reads h (replay_span rendered span cursor @ fs) = md_reads ?h (replay_span rendered span ?stop @ fs)"
      using nonempty less.prems(3) by (simp add: indent(1) emission_of_def)
    also have "\<dots> = md_reads (?h @ slice rendered ?stop (span_end span)) fs"
      using less.hyps [of ?stop ?h] step(1,2) less.prems True by simp
    also have "?h @ slice rendered ?stop (span_end span) = h @ slice rendered cursor (span_end span)"
      using step(1,2) less.prems(2) by (simp add: slice_append)
    finally show ?thesis .
  qed
qed

lemma projected_at_break:
  assumes "projection \<noteq> Html_text" and "projected_text projection (s @ CHR 0x0A # rest) = Inr own"
  shows "\<exists>t. projected_text projection (s @ [CHR 0x0A]) = Inr t" "\<exists>t. projected_text projection rest = Inr t"
  using assms unescape_at_break [of s rest] by (cases projection; auto simp: projected_text_def)+

lemma span_replayed:
  assumes "span_end span \<le> length rendered" and "span_projection span \<noteq> Html_text"
    and "md_reads [] fs = Some (out, h')"
  shows "cursor < span_end span \<Longrightarrow> flush_html h = Inr shown \<Longrightarrow>
     \<not> continues_html h (span_projection span) (slice rendered cursor (span_end span)) \<Longrightarrow>
     projected_text (span_projection span) (slice rendered cursor (span_end span)) = Inr own \<Longrightarrow>
     \<exists>out'. md_reads h (replay_span rendered span cursor @ fs) = Some (out', h')"
proof (induction "span_end span - cursor" arbitrary: cursor h shown own rule: less_induct)
  case less
  let ?stop = "line_stop rendered span cursor"
  note step = replay_span_step [OF less.prems(1) assms(1)]
  obtain indent where indent: "replay_span rendered span cursor =
      emission_of (span_role span) (span_projection span) (slice rendered cursor ?stop)
        (span_reason span) (span_origin span) @ indent @ replay_span rendered span ?stop"
    "indent = [] \<or> indent = md_boundary ''    '' ''compound block indentation'' (span_origin span) \<and>
       rendered ! (?stop - 1) = CHR 0x0A"
    using step(4) by blast
  have whole: "slice rendered cursor (span_end span) = slice rendered cursor ?stop @ slice rendered ?stop (span_end span)"
    using step(1,2) assms(1) by (simp add: slice_append)
  have nonempty: "slice rendered cursor ?stop \<noteq> []"
    using step(1,2) assms(1) by (intro slice_nonempty) simp_all
  have later: "\<exists>out'. md_reads [] (replay_span rendered span ?stop @ fs) = Some (out', h')" and
    first: "\<exists>t. projected_text (span_projection span) (slice rendered cursor ?stop) = Inr t" and
    open_piece: "\<not> continues_html h (span_projection span) (slice rendered cursor ?stop)"
  proof -
    have "(\<exists>out'. md_reads [] (replay_span rendered span ?stop @ fs) = Some (out', h')) \<and>
      (\<exists>t. projected_text (span_projection span) (slice rendered cursor ?stop) = Inr t) \<and>
      \<not> continues_html h (span_projection span) (slice rendered cursor ?stop)"
    proof (cases "?stop = span_end span")
      case True
      then show ?thesis using less.prems assms(3) by (simp add: replay_span_done)
    next
      case False
      then have piece: "slice rendered cursor ?stop = slice rendered cursor (?stop - 1) @ [CHR 0x0A]"
        using step(1-3) assms(1) by (intro slice_at_break) auto
      have "\<exists>t. projected_text (span_projection span) (slice rendered cursor ?stop) = Inr t"
        "\<exists>t. projected_text (span_projection span) (slice rendered ?stop (span_end span)) = Inr t"
        using projected_at_break [OF assms(2), of "slice rendered cursor (?stop - 1)" "slice rendered ?stop (span_end span)"]
          less.prems(4) whole piece by auto
      moreover from this(2) have "\<exists>out'. md_reads [] (replay_span rendered span ?stop @ fs) = Some (out', h')"
        using less.hyps [of ?stop "[]"] False step(1,2) less.prems(1)
        by (auto simp: flush_html_def continues_html_def)
      ultimately show ?thesis using piece by (simp add: continues_html_def)
    qed
    then show "\<exists>out'. md_reads [] (replay_span rendered span ?stop @ fs) = Some (out', h')"
      "\<exists>t. projected_text (span_projection span) (slice rendered cursor ?stop) = Inr t"
      "\<not> continues_html h (span_projection span) (slice rendered cursor ?stop)" by blast+
  qed
  have "\<exists>out'. md_reads [] (indent @ replay_span rendered span ?stop @ fs) = Some (out', h')"
    using indent(2) later
    by (auto simp: md_boundary_def emission_of_def continues_html_def flush_html_def projected_text_def)
  with first open_piece nonempty less.prems(2) assms(2) show ?case
    by (auto simp: indent(1) emission_of_def)
qed

lemma skipped_span_replayed:
  assumes "cursor < span_end span" and "span_end span \<le> length rendered"
    and "continues_html h (span_projection span) (slice rendered cursor (span_end span))"
  shows "md_reads h (replay_span rendered span cursor @ fs) = md_reads h fs"
proof -
  let ?stop = "line_stop rendered span cursor"
  note step = replay_span_step [OF assms(1,2)]
  have blank: "rendered ! i = CHR '' ''" if "cursor \<le> i" "i < span_end span" for i
  proof -
    have "slice rendered cursor (span_end span) ! (i - cursor) = CHR '' ''"
      using that assms by (auto simp: continues_html_def list_all_length)
    then show ?thesis using that assms(2) by (simp add: nth_slice)
  qed
  have stop: "?stop = span_end span" "rendered ! (?stop - 1) \<noteq> CHR 0x0A"
    using step(1-3) blank [of "?stop - 1"] by auto
  have "slice rendered cursor (span_end span) \<noteq> []" using assms(1,2) by (rule slice_nonempty)
  with step(4) stop assms(3) show ?thesis
    by (auto simp: replay_span_done emission_of_def continues_html_def)
qed

lemma replayed:
  "md_reads h es = Some (out, h') \<Longrightarrow>
     \<exists>out'. md_reads h (concat (map (\<lambda>span. replay_span (pre @ output_of es @ post) span (span_begin span))
       (spans_from (length pre) es))) = Some (out', h')"
proof (induction h es arbitrary: pre out rule: md_reads.induct)
  case (1 h)
  then show ?case by simp
next
  case (2 h e es)
  let ?rendered = "pre @ output_of (e # es) @ post"
  let ?fs = "concat (map (\<lambda>span. replay_span ?rendered span (span_begin span))
    (spans_from (length pre + length (emitted e)) es))"
  have rest: "\<exists>out'. md_reads g ?fs = Some (out', h')"
    if "\<And>pre. \<exists>out'. md_reads g (concat (map (\<lambda>span. replay_span (pre @ output_of es @ post) span (span_begin span))
       (spans_from (length pre) es))) = Some (out', h')" for g
    using that [of "pre @ emitted e"] by simp
  show ?case
  proof (cases "emitted e = []")
    case True
    with 2 show ?thesis by simp
  next
    case False
    let ?span = "\<lparr> span_begin = length pre, span_end = length pre + length (emitted e), span_role = emitted_role e,
      span_projection = emitted_projection e, span_reason = emitted_reason e, span_path = emitted_path e,
      span_origin = emitted_origin e \<rparr>"
    have bounds: "span_begin ?span < span_end ?span" "span_end ?span \<le> length ?rendered" using False by simp_all
    have piece: "slice ?rendered (span_begin ?span) (span_end ?span) = emitted e"
      using slice_middle [of pre "emitted e" "output_of es @ post"] by simp
    have spans: "concat (map (\<lambda>span. replay_span ?rendered span (span_begin span)) (spans_from (length pre) (e # es))) =
        replay_span ?rendered ?span (span_begin ?span) @ ?fs"
      using False by simp
    consider "emitted_projection e = Html_text"
      | "emitted_projection e \<noteq> Html_text" "continues_html h (emitted_projection e) (emitted e)"
      | "emitted_projection e \<noteq> Html_text" "\<not> continues_html h (emitted_projection e) (emitted e)" by blast
    then show ?thesis
    proof cases
      case 1
      then have "\<exists>out'. md_reads (h @ emitted e) ?fs = Some (out', h')"
        using 2 False by (intro rest) auto
      then show ?thesis
        unfolding spans using html_span_replayed [of "span_begin ?span" ?span ?rendered h ?fs] bounds 1 piece by simp
    next
      case c: 2
      then have "\<exists>out'. md_reads h ?fs = Some (out', h')"
        using 2 False by (intro rest) auto
      then show ?thesis
        unfolding spans using skipped_span_replayed [OF bounds, of h ?fs] c piece by simp
    next
      case c: 3
      then obtain shown own where flushed: "flush_html h = Inr shown"
        "projected_text (emitted_projection e) (emitted e) = Inr own" "\<exists>out'. md_reads [] es = Some (out', h')"
        using 2(5) False by (auto split: sum.splits)
      then obtain out1 where "md_reads [] ?fs = Some (out1, h')"
        using rest [of "[]"] 2(4) [OF False c] by blast
      then show ?thesis
        unfolding spans
        using span_replayed [OF bounds(2) _ _ bounds(1), of ?fs out1 h' h shown own] c flushed(1,2) piece by simp
    qed
  qed
qed

lemma readable_replayed: "readable es \<Longrightarrow> readable (replay_indented (markdown_of es))"
  unfolding readable_def replay_indented_def markdown_of_eq markdown_sink.select_convs
  using replayed [where pre = "[]" and post = "[]"] by fastforce

end
