(* ===== verification/Markdown_Facts.thy ===== *)
theory Markdown_Facts
  imports Markdown_Reads Row_Revisions
begin

section \<open>The Markdown renderer and the text projection composed\<close>

text \<open>
  What the renderer prints for a checked document. Everything that follows from a contract of the sink's pieces is
  proved once, in the locale \<open>printer_contract\<close>, by one induction over the printing functions; its interpretations
  are that the projection can read the output and that the trace attributes it.
\<close>

subsection \<open>Facts about checked nodes\<close>

text \<open>What is needed of an inline: a cross reference has a target.\<close>

definition referenced :: "inline_ir \<Rightarrow> bool" where
  "referenced i \<longleftrightarrow> (case inline_node i of Cross_reference_inline r \<Rightarrow> xref_targets r \<noteq> [] | _ \<Rightarrow> True)"

lemma verified_referenced: "verify_inline row i = None \<Longrightarrow> referenced i"
  by (cases i) (auto simp: referenced_def canonical_inline_def dest: verified_reference split: inline_node.splits)

lemma verified_children: "verify_inline row i = None \<Longrightarrow> list_all (\<lambda>c. verify_inline row c = None) (revised_children i)"
  by (cases i) (auto simp: revised_children_def verify_inline_list_iff simp del: verify_inline.simps split: inline_node.split,
      auto simp: verify_inline_list_iff)

lemma merged_referenced: "merge_inline into next = Some run \<Longrightarrow> referenced run"
  by (auto simp: merge_inline_def referenced_def split: inline_node.splits if_splits)

lemma pushed_referenced: "list_all referenced flat \<Longrightarrow> referenced child \<Longrightarrow> list_all referenced (push_run flat child)"
  by (auto simp: push_run_def list_all_iff dest: in_set_butlastD merged_referenced split: option.split)

lemma runs_referenced:
  "list_all referenced flat \<Longrightarrow> list_all (\<lambda>i. list_all referenced (revised_children i)) is \<Longrightarrow>
     list_all referenced (flatten_runs flat split is)"
proof (induction flat split "is" rule: flatten_runs.induct)
  case (1 flat split)
  then show ?case by simp
next
  case (2 flat split i "is")
  then show ?case
    by (auto simp: Let_def pushed_referenced split: list.split)
qed

lemma draws_one: "append_inline sink i = Some s \<Longrightarrow> draws (Some s) w \<Longrightarrow> draws (append_inlines sink [i]) w"
  using draws_pieces_Cons [OF _ draws_pieces_Cons [OF draws_Nil draws_pieces_Nil], of "Some s" w]
  by simp

definition styled_well :: "preformatted_block \<Rightarrow> bool" where
  "styled_well pre \<longleftrightarrow>
     pre_styled_lines pre = [] \<or>
     length (pre_styled_lines pre) = length (pre_lines pre) \<and>
       list_all (\<lambda>row. verify_inline_list True row = None) (pre_styled_lines pre)"

lemma verified_styled_well: "verify_preformatted pre = None \<Longrightarrow> styled_well pre"
  using any_link.verified_styled_row [of pre]
  by (auto simp: styled_well_def list_all_length verify_inlines_def verify_preformatted_def Let_def)

lemma row_fragment: "fragment (render_verbatim_row row)"
proof -
  have "draws (Some (render_verbatim_row row)) (row_text row)"
    by (auto simp: draws_def render_verbatim_row_def links_shown)
  then show ?thesis by (rule draws_fragment)
qed

lemma drawn_verified:
  assumes "verify_inline True i = None"
  shows "list_all (\<lambda>d. verify_inline True d = None) (drawn_inlines i)"
  using assms
  by (cases i) (auto simp: drawn_inlines_def verify_claims_def canonical_inline_def split: inline_node.splits)

lemma row_text_there: "verify_inline_list True row = None \<Longrightarrow> joined (map preformatted_row_text row) \<noteq> None"
proof (induction row)
  case Nil
  then show ?case by simp
next
  case (Cons i row)
  have "preformatted_row_text i \<noteq> None"
    using verified_referenced [of True i] Cons.prems
    by (auto simp: preformatted_row_text_def referenced_def split: inline_node.split)
  with Cons show ?case by auto
qed

lemma extended_styled_well:
  assumes "styled_well stretch" and "length (pre_styled_lines stretch) = length (pre_lines stretch)"
    and "verify_inline_list True row = None"
  shows "styled_well (extended_stretch pre stretch index anchors s row)"
    "length (pre_styled_lines (extended_stretch pre stretch index anchors s row)) =
      length (pre_lines (extended_stretch pre stretch index anchors s row))"
  using assms drawn_verified
  by (auto simp: extended_stretch_def styled_well_def verify_inline_list_iff list_all_iff)

lemma verified_cells:
  "verify_cells cells = None \<Longrightarrow> c \<in> set cells \<Longrightarrow> cell_blocks c = [] \<Longrightarrow>
     verify_inlines (cell_content c) True False = None"
proof (induction cells rule: list.induct)
  case Nil
  then show ?case by simp
next
  case (Cons d cells)
  then show ?case by (cases d) (auto simp: verify_cell_head_def)
qed

lemma verified_rows:
  "verify_table_rows width rows = None \<Longrightarrow> r \<in> set rows \<Longrightarrow>
     length (row_cells r) = width \<and> verify_cells (row_cells r) = None"
proof (induction rows rule: list.induct)
  case Nil
  then show ?case by simp
next
  case (Cons d rows)
  then show ?case by (cases d) (auto simp: verify_row_head_def)
qed

lemma emphasised_plain:
  "wholly_emphasised i \<Longrightarrow> verify_inline row i = None \<Longrightarrow> \<exists>p. plain_inline i = Some p \<and> verify_inline row p = None \<and>
     is_revised p = is_revised i"
  "all_emphasised is \<Longrightarrow> verify_inline_list row is = None \<Longrightarrow> \<exists>ps. plain_label is = Some ps \<and>
     verify_inline_list row ps = None \<and> list_ex is_revised ps = list_ex is_revised is \<and> (ps = []) = (is = [])"
proof (induction i and "is" rule: wholly_emphasised_all_emphasised.induct)
  case (1 node origin)
  show ?case
  proof (cases node)
    case (Revised_inline mark children)
    then have "all_emphasised children" "verify_inline_list row children = None" using 1(2,3) by simp_all
    from 1(1) [OF Revised_inline this] obtain ps where "plain_label children = Some ps"
      "verify_inline_list row ps = None" "list_ex is_revised ps = list_ex is_revised children"
      "(ps = []) = (children = [])"
      using 1(2) Revised_inline by auto
    with Revised_inline 1(3) show ?thesis
      by (auto simp: canonical_inline_def verify_claims_def is_revised_def)
  qed (use 1 in \<open>auto simp: canonical_inline_def verify_claims_def is_revised_def\<close>)
next
  case 2
  then show ?case by simp
next
  case (3 i "is")
  then show ?case by fastforce
qed

subsection \<open>What holds of everything that is printed\<close>

definition escaped_text :: "string \<Rightarrow> bool" where
  "escaped_text s \<longleftrightarrow> (\<exists>own. unescape_markdown s = Inr own)"

lemma escaped_texts:
  "escaped_text (escape_markdown_text s)" "escaped_text (escape_markdown_text s @ '' '')"
  "escaped_text (markdown_alt_text resource)"
  "escaped_text (''Subtopics:'' @ [CHR 0x0A, CHR 0x0A])"
proof -
  show "escaped_text (escape_markdown_text s)" for s by (auto simp: escaped_text_def unescape_escaped)
  then show "escaped_text (markdown_alt_text resource)" by (simp add: markdown_alt_text_def)
  show "escaped_text (escape_markdown_text s @ '' '')"
    using unescape_escaped_append [of s "'' ''"] by (auto simp: escaped_text_def unescape_plain)
  have "escape_markdown_text ''Subtopics:'' = ''Subtopics:''" by code_simp
  moreover have "unescape_markdown [CHR 0x0A, CHR 0x0A] = Inr [CHR 0x0A, CHR 0x0A]" by (simp add: unescape_plain)
  ultimately show "escaped_text (''Subtopics:'' @ [CHR 0x0A, CHR 0x0A])"
    using unescape_escaped_append [of "''Subtopics:''" "[CHR 0x0A, CHR 0x0A]"] by (auto simp: escaped_text_def)
qed

definition prints_all :: "(emission list \<Rightarrow> bool) \<Rightarrow> emission list option \<Rightarrow> bool" where
  "prints_all good m \<longleftrightarrow> (\<exists>es. m = Some es \<and> good es)"

lemma prints_all_Some: "prints_all good (Some es) \<longleftrightarrow> good es"
  by (simp add: prints_all_def)

text \<open>
  A contract of the sink's pieces that composition, the steps of the path and the replay of nested blocks keep. It is
  carried through all printing functions once; text that is handed to the sink as escaped is, and HTML is complete.
\<close>

locale printer_contract =
  fixes good :: "emission list \<Rightarrow> bool"
  assumes good_Nil: "good []"
    and good_append: "good es \<Longrightarrow> good fs \<Longrightarrow> good (es @ fs)"
    and good_at_step: "good (at_step kind index es) \<longleftrightarrow> good es"
    and good_replayed: "good es \<Longrightarrow> good (replay_indented (markdown_of es))"
    and good_syntax: "good (md_syntax s reason (Some origin))"
    and good_boundary: "good (md_boundary s reason origin')"
    and good_marker: "good (md_marker s reason (Some origin))"
    and good_literal: "good (md_literal s reason (Some origin))"
    and good_content: "escaped_text s \<Longrightarrow> good (md_content s reason (Some origin))"
    and good_generated: "escaped_text s \<Longrightarrow> good (md_generated s reason)"
    and good_html: "fragment s \<Longrightarrow> good (md_html s reason (Some origin))"
begin

lemma good_concat: "\<forall>es \<in> set ess. good es \<Longrightarrow> good (concat ess)"
  by (induction ess) (auto simp: good_Nil good_append)

lemma prints_joined: "\<forall>m \<in> set ms. prints_all good m \<Longrightarrow> prints_all good (joined ms)"
  by (induction ms) (auto simp: prints_all_def good_Nil good_append split: option.split)

lemma prints_at_step: "prints_all good m \<Longrightarrow> prints_all good (map_option (at_step kind index) m)"
  by (auto simp: prints_all_def good_at_step)

lemmas good_pieces = good_syntax good_boundary good_marker good_literal good_content [OF escaped_texts(1)]
  good_content [OF escaped_texts(2)] good_generated [OF escaped_texts(1)] good_generated [OF escaped_texts(3)]
  good_html

lemmas good_lead = good_generated [OF escaped_texts(4)]

subsection \<open>Inlines\<close>

lemma good_html_inlines:
  assumes "\<And>sink. \<exists>w. draws (append_inlines sink is) w"
  shows "prints_all good (md_html_inlines opts is reason origin)"
proof -
  obtain w s where "append_inlines \<lparr> sink_options = no_resolvers, sink_resolve = resolve_reference opts,
      generic_phrases = True \<rparr> is = Some s" "draws (Some s) w"
    using assms [of "\<lparr> sink_options = no_resolvers, sink_resolve = resolve_reference opts, generic_phrases = True \<rparr>"]
    by (auto simp: draws_def)
  then show ?thesis
    by (simp add: md_html_inlines_def render_document_html_inlines_def prints_all_def good_pieces draws_fragment)
qed

lemma good_verified_html:
  "verify_inline_list row is = None \<Longrightarrow> prints_all good (md_html_inlines opts is reason origin)"
  using draws_inlines(2) by (blast intro: good_html_inlines)

lemma good_emphasis_html:
  "prints_all good (md_html_inlines opts [Inline (Emphasis_inline s kind phrase) origin] reason o')"
  by (rule good_html_inlines, intro exI, rule draws_one [OF _ draws_emphasis]) simp

lemma good_underline_html:
  "prints_all good (md_html_inlines opts [Inline (Underline_inline s) origin] reason o')"
proof -
  have "draws (Some (''<u class=\"geist-underline\">'' @ escape_html_text s @ ''</u>'')) s"
    unfolding html_literals by (simp add: draws_tagged_text inline_element_def)
  then show ?thesis by (intro good_html_inlines exI, intro draws_one) simp_all
qed

lemma good_code_span: "good (md_code_span s ctxt reason origin)"
  by (auto simp: md_code_span_def split: prod.split intro!: good_append good_pieces)

lemma good_emphasised: "good (md_emphasised s kind reason origin)"
  unfolding md_emphasised_def by (intro good_append good_pieces)

lemma good_picture: "good (md_picture alt resource origin)"
  unfolding md_picture_def by (intro good_append good_pieces)

lemmas good_intros = good_append good_pieces good_Nil good_code_span good_emphasised good_picture

lemma good_cross_reference: "xref_targets r \<noteq> [] \<Longrightarrow> prints_all good (md_cross_reference opts ctxt r origin)"
  unfolding md_cross_reference_def cross_reference_destination_def
  by (auto simp: prints_all_Some intro!: good_intros split: list.split option.split prod.split)

lemma good_flat_inline: "referenced i \<Longrightarrow> prints_all good (md_flat_inline opts ctxt before after i)"
  by (cases i) (auto simp: md_flat_inline_def md_emphasis_def Let_def prints_all_Some referenced_def
      intro!: good_intros good_cross_reference good_emphasis_html good_underline_html
      split: inline_node.split)

lemma good_anchors: "good (md_cell_anchors as)" "good (concat (map (md_placed_anchor reason) as))"
  by (auto simp: md_cell_anchors_def md_placed_anchor_def intro!: good_concat good_pieces)

lemma good_flat_from:
  "list_all referenced is \<Longrightarrow> prints_all good (md_flat_from opts ctxt last_line index before line anchors is)"
proof (induction opts ctxt last_line index before line anchors "is" rule: md_flat_from.induct)
  case (1 opts ctxt last_line index before line anchors)
  then show ?case by (simp add: prints_all_Some good_anchors)
next
  case (2 opts ctxt last_line index before line anchors i "is")
  then show ?case
    by (auto simp: Let_def prints_all_Some good_anchors simp del: joined.simps
        intro!: prints_joined prints_at_step good_flat_inline)
qed

lemma good_inlines:
  assumes "verify_inlines is allow_empty row = None"
  shows "prints_all good (md_inlines opts ctxt anchors is)"
proof -
  have verified: "list_all (\<lambda>i. verify_inline row i = None) is"
    using assms by (simp add: verify_inlines_def verify_inline_list_iff)
  then have "list_all referenced is" by (auto simp: list_all_iff intro: verified_referenced)
  moreover have "list_all (\<lambda>i. list_all referenced (revised_children i)) is"
    using verified verified_children verified_referenced unfolding list_all_iff by blast
  ultimately have "list_all referenced is" "list_all (\<lambda>i. list_all referenced (revised_children i)) is" .
  then show ?thesis
    by (auto simp: md_inlines_def md_flat_inlines_def prints_all_Some good_anchors simp del: joined.simps
        intro!: prints_joined good_flat_from runs_referenced)
qed

subsection \<open>Drawn rows\<close>

lemma good_fenced: "good (md_fenced_block ls origin reason origins)"
  by (auto simp: md_fenced_block_def md_fence_line_def Let_def good_at_step
      intro!: good_append good_pieces good_concat)

lemma good_pre_row:
  assumes "styled_well pre" and "index < length (pre_lines pre)"
  shows "prints_all good (md_pre_row opts pre origin index line)"
proof (cases "pre_styled_lines pre = []")
  case True
  then show ?thesis
    by (simp add: md_pre_row_def Let_def prints_all_Some good_append good_pieces row_fragment)
next
  case False
  then have "index < length (pre_styled_lines pre)"
    "verify_inline_list True (pre_styled_lines pre ! index) = None"
    using assms by (auto simp: styled_well_def list_all_length)
  then show ?thesis
    using False
    by (auto simp: md_pre_row_def prints_all_Some simp del: joined.simps
        intro!: prints_joined good_verified_html good_pieces good_Nil)
qed

lemma good_pre_rows:
  "styled_well pre \<Longrightarrow> index + length ls = length (pre_lines pre) \<Longrightarrow>
     prints_all good (md_pre_rows opts pre origin index anchors ls)"
proof (induction opts pre origin index anchors ls rule: md_pre_rows.induct)
  case (1 opts pre origin index anchors)
  then show ?case by (simp add: prints_all_Some good_Nil)
next
  case (2 opts pre origin index anchors line ls)
  then show ?case
    by (auto simp: prints_all_Some good_anchors simp del: joined.simps
        intro!: prints_joined prints_at_step good_pre_row)
qed

lemma good_html_block: "styled_well pre \<Longrightarrow> prints_all good (md_preformatted_html_block opts pre origin)"
  by (auto simp: md_preformatted_html_block_def prints_all_Some simp del: joined.simps
      intro!: prints_joined good_pre_rows good_pieces)

lemma good_flush: "styled_well stretch \<Longrightarrow> prints_all good (md_flush_stretch opts origin first stretch)"
  by (auto simp: md_flush_stretch_def md_separate_def md_preformatted_stretch_def prints_all_Some
      simp del: joined.simps
      intro!: prints_joined good_html_block good_pieces good_Nil good_fenced)

lemma good_row_images:
  "verify_inline_list True row = None \<Longrightarrow> prints_all good (md_row_images opts origin first row)"
proof (induction opts origin first row rule: md_row_images.induct)
  case (1 opts origin first)
  then show ?case by (simp add: prints_all_Some good_Nil)
next
  case (2 opts origin first i row)
  have "prints_all good (md_inlines opts Prose_context [] [i])"
    using 2(3) by (intro good_inlines [of _ False True]) (simp add: verify_inlines_def)
  with 2 show ?case
    by (auto simp: md_separate_def prints_all_Some simp del: joined.simps
        intro!: prints_joined good_pieces good_Nil)
qed

lemma good_image_rows:
  "styled_well pre \<Longrightarrow> pre_styled_lines pre \<noteq> [] \<Longrightarrow> index + length ls = length (pre_lines pre) \<Longrightarrow>
     styled_well stretch \<Longrightarrow> length (pre_styled_lines stretch) = length (pre_lines stretch) \<Longrightarrow>
     prints_all good (md_image_rows opts pre origin first stretch index anchors ls)"
proof (induction ls arbitrary: first stretch index anchors)
  case Nil
  then show ?case by (simp add: good_flush)
next
  case (Cons line ls)
  let ?row = "pre_styled_lines pre ! index"
  let ?stretch = "if row_places_image ?row then empty_stretch else stretch"
  have there: "index < length (pre_styled_lines pre)" "verify_inline_list True ?row = None"
    using Cons.prems(1-3) by (auto simp: styled_well_def list_all_length)
  obtain s where s: "joined (map preformatted_row_text ?row) = Some s"
    using row_text_there [OF there(2)] by auto
  have "styled_well ?stretch" "length (pre_styled_lines ?stretch) = length (pre_lines ?stretch)"
    using Cons.prems(4,5) by (auto simp: empty_stretch_def styled_well_def)
  from extended_styled_well [OF this there(2)] Cons.IH [OF Cons.prems(1,2)] Cons.prems(3)
  have "prints_all good (md_image_rows opts pre origin (first \<and> \<not> row_places_image ?row)
      (extended_stretch pre ?stretch index (takeWhile (\<lambda>a. placed_line a = index) anchors) s ?row) (index + 1)
      (dropWhile (\<lambda>a. placed_line a = index) anchors) ls)"
    by simp
  with there s show ?case
    by (auto simp: Let_def prints_all_Some good_Nil good_at_step simp del: joined.simps
        intro!: prints_joined prints_at_step good_flush good_row_images Cons.prems(4))
qed

lemma good_preformatted:
  assumes "verify_preformatted pre = None"
  shows "prints_all good (md_preformatted opts pre origin)"
proof -
  note well = verified_styled_well [OF assms]
  have "prints_all good (md_preformatted_with_images opts pre origin)" if "places_images pre"
  proof -
    have "pre_styled_lines pre \<noteq> []" using that by (auto simp: places_images_def)
    then show ?thesis
      using good_image_rows [OF well, of 0 "pre_lines pre" empty_stretch]
      by (auto simp: md_preformatted_with_images_def styled_well_def empty_stretch_def)
  qed
  then show ?thesis
    using well by (auto simp: md_preformatted_def prints_all_Some good_fenced good_html_block)
qed

subsection \<open>Tables and the blocks without blocks\<close>

lemma good_cell:
  assumes "verify_table_rows width rows = None" and "\<not> list_ex compound_row rows" and "r \<in> set rows"
    and "c \<in> set (row_cells r)"
  shows "prints_all good (md_cell opts c)"
proof -
  have "cell_blocks c = []" using assms(2-4) by (auto simp: list_ex_iff compound_row_def)
  then have "verify_inlines (cell_content c) True False = None"
    using verified_rows [OF assms(1,3)] verified_cells assms(4) by blast
  then show ?thesis unfolding md_cell_def by (rule good_inlines)
qed

lemma prints_comp_step:
  "prints_all good m \<Longrightarrow> prints_all good (map_option (at_step k i \<circ> at_step k' i') m)"
  by (auto simp: prints_all_def good_at_step)

lemma good_table:
  assumes "verify_table_head rows header_rows = None"
    and "verify_table_rows (length (row_cells (hd rows))) rows = None" and "\<not> list_ex compound_row rows"
  shows "prints_all good (md_table opts rows header_rows origin)"
proof -
  note cell = good_cell [OF assms(2,3)]
  have bound: "header_rows \<le> length rows" and "rows \<noteq> []" using assms(1) by (auto simp: verify_table_head_def)
  then obtain r rs where rows: "rows = r # rs" by (cases rows) auto
  have header_cell: "prints_all good (md_header_cell opts rows c i)" if "i < header_rows" "c < length (row_cells r)" for c i
  proof -
    have "i < length rows" using that bound by simp
    then have "rows ! i \<in> set rows" by (rule nth_mem)
    moreover from this have "c < length (row_cells (rows ! i))"
      using verified_rows [OF assms(2), of "rows ! i"] that(2) rows by simp
    ultimately have there: "rows ! i \<in> set rows" "c < length (row_cells (rows ! i))" .
    show ?thesis
      using \<open>i < length rows\<close> there
      by (auto simp: md_header_cell_def Let_def prints_all_Some good_Nil simp del: joined.simps
          intro!: prints_comp_step prints_joined good_pieces cell [OF there(1)] nth_mem)
  qed
  have body_row: "prints_all good (md_body_row opts (i, row))" if "row \<in> set rows" for i row
    using cell [OF that]
    by (auto simp: md_body_row_def md_body_cell_def prints_all_Some in_set_enumerate_eq simp del: joined.simps
        intro!: prints_joined prints_at_step good_pieces)
  have "prints_all good (md_header_column opts origin rows header_rows c)" if "c < length (row_cells r)" for c
    using header_cell that
    by (auto simp: md_header_column_def prints_all_Some simp del: joined.simps
        intro!: prints_joined good_pieces)
  moreover have "prints_all good (joined (map (md_body_row opts) (drop header_rows (enumerate 0 rows))))"
    using body_row by (auto simp: in_set_enumerate_eq dest!: in_set_dropD intro!: prints_joined)
  ultimately show ?thesis
    unfolding md_table_def rows list.case Let_def
    by (auto simp: prints_all_Some rows [symmetric] simp del: joined.simps
        intro!: prints_joined good_pieces good_concat)
qed

lemma good_heading:
  "verify_inlines content False False = None \<Longrightarrow> prints_all good (md_heading opts origin level content mark)"
  by (auto simp: md_heading_def prints_all_Some simp del: joined.simps split: option.split
      intro!: prints_joined good_intros good_inlines)

lemma good_note:
  "verify_inlines label True False = None \<Longrightarrow> verify_inlines content False False = None \<Longrightarrow>
     prints_all good (md_note opts origin label content)"
  by (auto simp: md_note_def prints_all_Some good_Nil simp del: joined.simps
      intro!: prints_joined prints_at_step good_pieces good_inlines)

lemma good_publication:
  "verify_publication_entry entry = None \<Longrightarrow> prints_all good (md_publication_entry opts (index, entry))"
  by (auto simp: md_publication_entry_def md_publication_paragraph_def verify_publication_entry_def Let_def list_all_iff
      prints_all_Some good_Nil in_set_enumerate_eq simp del: joined.simps
      intro!: prints_joined prints_at_step good_pieces good_inlines [of _ False False])

lemma good_figure:
  "verify_inlines (figure_caption figure) True False = None \<Longrightarrow> prints_all good (md_figure opts origin figure)"
  by (auto simp: md_figure_def prints_all_Some good_Nil simp del: joined.simps
      intro!: prints_joined prints_at_step good_intros good_inlines)

lemma good_footnote:
  "verify_inlines content False False = None \<Longrightarrow> prints_all good (md_footnote opts origin i content)"
  by (auto simp: md_footnote_def prints_all_Some simp del: joined.simps
      intro!: prints_joined good_pieces good_inlines)

lemma good_index_group:
  assumes "verify_inlines heading True False = None" and "list_all (\<lambda>e. verify_index_entry e = None) entries"
  shows "prints_all good (md_index_group opts origin heading entries)"
proof -
  have "prints_all good (md_index_entry opts (i, e))" if "e \<in> set entries" for i e
    using that assms(2)
    by (auto simp: md_index_entry_def verify_index_entry_def Let_def list_all_iff prints_all_Some
        simp del: joined.simps
        intro!: prints_joined prints_at_step good_intros good_inlines)
  with assms(1) show ?thesis
    by (auto simp: md_index_group_def prints_all_Some good_Nil in_set_enumerate_eq simp del: joined.simps
        intro!: prints_joined prints_at_step good_pieces good_inlines)
qed

lemma good_menu: "good (md_menu opts items)"
  unfolding md_menu_def
  by (rule good_append [OF good_lead])
    (auto simp: md_menu_item_def Let_def good_at_step intro!: good_intros good_concat)

lemma good_opaque: "good (md_opaque origin kind content)"
  unfolding md_opaque_def by (intro good_intros good_fenced)

lemma good_degradation: "good (md_degradation_marker origin)"
  by (simp add: md_degradation_marker_def good_Nil good_pieces)

lemma good_item_marker: "good (md_item_marker ordered marker item)"
  by (auto simp: md_item_marker_def Let_def intro!: good_append good_pieces)

lemma good_compound_html:
  assumes "verify_block nested b = None"
  shows "prints_all good (md_compound_html opts b reason)"
proof -
  let ?sink = "\<lparr> sink_options = html_options_for_markdown opts, sink_resolve = resolve_reference opts,
    generic_phrases = True \<rparr>"
  have opens: "opens (\<lambda>_. True) a (append_lines_of_blocks ?sink True [b]) a" for a
    using any_link.opens_blocks(1) [where sink = ?sink and a = a, OF _ assms]
    by (auto simp del: pieces.simps intro!: opens_pieces_Cons opens_pieces_Nil opens_Nil)
  then obtain s where "append_lines_of_blocks ?sink True [b] = Some s" by (auto simp: opens_def prints_def)
  moreover from this opens have "fragment s" by (intro opens_fragment) simp
  ultimately show ?thesis
    by (simp add: md_compound_html_def render_document_html_blocks_def prints_all_Some good_pieces)
qed

subsection \<open>Blocks and documents\<close>

lemma good_term:
  assumes "verify_inlines content False False = None"
  shows "prints_all good (md_term opts content)"
proof (cases "wholly_emphasised_label content")
  case True
  then obtain ps where ps: "plain_label content = Some ps" "verify_inline_list False ps = None"
    using emphasised_plain(2) [of content False] assms by (auto simp: wholly_emphasised_label_def verify_inlines_def)
  then have "verify_inlines ps True False = None" by (simp add: verify_inlines_def)
  with True ps(1) show ?thesis
    by (auto simp: md_term_def intro!: prints_at_step good_inlines)
next
  case False
  then show ?thesis
    using good_inlines [OF assms] by (simp add: md_term_def prints_at_step)
qed

lemma good_item_label:
  "item_label item = [] \<or> verify_inlines (item_label item) False False = None \<Longrightarrow>
     prints_all good (md_item_label opts item)"
  by (auto simp: md_item_label_def prints_all_Some good_Nil simp del: joined.simps
      intro!: prints_joined good_pieces good_inlines)

lemma good_blocks:
  "verify_block nested b = None \<Longrightarrow> prints_all good (md_block opts b)"
  "verify_items marker' po pd items = None \<Longrightarrow> prints_all good (md_items opts ordered marker index items)"
  "verify_entries entries = None \<Longrightarrow> \<not> list_ex compound_entry entries \<Longrightarrow>
     prints_all good (md_entries opts index entries)"
  "verify_blocks bs = None \<Longrightarrow> prints_all good (md_compound_blocks opts follows index bs)"
proof (induction opts b and opts ordered marker index items and opts index entries and opts follows index bs
    arbitrary: nested and marker' po pd
    rule: md_block_md_items_md_entries_md_compound_blocks.induct)
  case (1 opts node origin)
  note verified = 1(3)
  have compound: "prints_all good (md_compound_html opts (Block node origin) reason)" for reason
    using verified by (rule good_compound_html)
  have "prints_all good (case node of
           Heading_block level content mark \<Rightarrow> md_heading opts origin level content mark
         | Paragraph_block content \<Rightarrow> md_inlines opts Prose_context [] content
         | Anchor_block anchor \<Rightarrow>
             Some (md_syntax (''<a id='' @ [CHR 0x22] @ escape_html_attribute (anchor_id anchor) @ [CHR 0x22] @ ''></a>'')
               ''anchor'' (Some origin))
         | Thematic_break_block \<Rightarrow> Some (md_marker ''---'' ''thematic break'' (Some origin))
         | List_block ordered items marker \<Rightarrow> md_items opts ordered marker 0 items
         | Definition_list_block entries \<Rightarrow>
             if list_ex compound_entry entries
             then md_compound_html opts (Block node origin) ''compound definition list HTML''
             else md_entries opts 0 entries
         | Table_block rows header_rows \<Rightarrow>
             if list_ex compound_row rows then md_compound_html opts (Block node origin) ''compound table HTML''
             else md_table opts rows header_rows origin
         | Preformatted_block pre \<Rightarrow> md_preformatted opts pre origin
         | Note_block label content \<Rightarrow> md_note opts origin label content
         | Publication_list_block entries \<Rightarrow> joined (map (md_publication_entry opts) (enumerate 0 entries))
         | Figure_block figure \<Rightarrow> md_figure opts origin figure
         | Footnote_block i content \<Rightarrow> md_footnote opts origin i content
         | Index_group_block heading entries \<Rightarrow> md_index_group opts origin heading entries
         | Menu_block items \<Rightarrow> Some (md_menu opts items)
         | Opaque_block kind content \<Rightarrow> Some (md_opaque origin kind content))" (is "prints_all good ?printed")
  proof (cases node)
    case (List_block ordered items marker)
    then show ?thesis using 1(1) verified by auto
  next
    case (Definition_list_block entries)
    then show ?thesis using 1(2) verified compound by auto
  next
    case (Table_block rows header_rows)
    then show ?thesis using verified compound good_table by auto
  next
    case (Publication_list_block entries)
    then show ?thesis
      using verified good_publication
      by (auto simp: list_all_iff in_set_enumerate_eq simp del: joined.simps intro!: prints_joined)
  qed (use verified in \<open>auto simp: prints_all_Some good_pieces good_menu good_opaque
      intro!: good_heading good_inlines good_preformatted good_note good_figure good_footnote
        good_index_group\<close>)
  then show ?case
    unfolding md_block.simps
    by (intro prints_joined) (auto simp: prints_all_Some good_degradation)
next
  case (2 opts ordered marker index)
  then show ?case by (simp add: prints_all_Some good_Nil)
next
  case (3 opts ordered marker index content origin ordinal depth empty_content children label mark items)
  let ?item = "List_item content origin ordinal depth empty_content children label mark"
  have item: "verify_item_head ?item = None" "verify_blocks children = None"
    "\<exists>marker po pd. verify_items marker po pd items = None"
    using 3(3) by (auto simp: Let_def)
  then have label: "prints_all good (md_item_label opts ?item)"
    by (intro good_item_label) (auto simp: verify_item_head_def)
  have "prints_all good (md_inlines opts Single_line_context [] content)" if "children = []"
    using item(1) that by (intro good_inlines) (auto simp: verify_item_head_def)
  moreover have "prints_all good (md_compound_blocks opts True 0 children)" if "children \<noteq> []"
    using 3(1) that item(2) by auto
  ultimately show ?case
    unfolding md_items.simps Let_def
    using label item(3) 3(2)
    by (intro prints_joined)
      (auto simp: prints_all_Some good_Nil good_item_marker simp del: joined.simps
        intro!: prints_joined prints_at_step good_pieces)
next
  case (4 opts index)
  then show ?case by (simp add: prints_all_Some good_Nil)
next
  case (5 opts index word body origin children empty_term entries)
  have entry: "verify_entry_head (Definition_entry word body origin children empty_term) = None"
    "verify_entries entries = None" "children = []" "\<not> empty_term" "\<not> list_ex compound_entry entries"
    using 5(3,4) by (auto simp: compound_entry_def [of "Definition_entry word body origin children empty_term"])
  then have "prints_all good (md_term opts word)" "prints_all good (md_inlines opts Single_line_context [] body)"
    by (auto simp: verify_entry_head_def intro!: good_term good_inlines)
  with entry 5(2) show ?case
    unfolding md_entries.simps
    by (intro prints_joined)
      (auto simp: prints_all_Some good_Nil simp del: joined.simps
        intro!: prints_joined prints_at_step good_pieces)
next
  case (6 opts follows index)
  then show ?case by (simp add: prints_all_Some good_Nil)
next
  case (7 opts follows index b bs)
  have "prints_all good (md_block opts b)" using 7(1,3) by auto
  then have "prints_all good (map_option (at_step ''block'' index \<circ> replay_indented \<circ> markdown_of) (md_block opts b))"
    by (auto simp: prints_all_def good_at_step good_replayed)
  with 7(2,3) show ?case
    unfolding md_compound_blocks.simps
    by (intro prints_joined)
      (auto simp: prints_all_Some good_Nil simp del: joined.simps intro!: good_append good_pieces)
qed

lemma good_document_blocks:
  "list_all (\<lambda>b. verify_block False b = None) bs \<Longrightarrow> good es \<Longrightarrow>
     prints_all good (md_document_blocks opts es index bs)"
proof (induction opts es index bs rule: md_document_blocks.induct)
  case (1 opts es index)
  then show ?case by (simp add: prints_all_Some)
next
  case (2 opts es index b bs)
  then obtain fs where fs: "md_block opts b = Some fs" "good fs"
    using good_blocks(1) [of False b opts] by (auto simp: prints_all_def)
  then have "good (es @ at_step ''block'' index
      ((if md_text (markdown_of es) = [] then []
        else md_boundary [CHR 0x0A, CHR 0x0A] ''block separator'' (Some (block_origin b))) @ fs))"
    using 2(3) by (auto simp: good_at_step good_Nil intro!: good_append good_pieces)
  with 2 fs(1) show ?case by simp
qed

end

subsection \<open>The contract kept\<close>

interpretation reading: printer_contract readable
  by unfold_locales
    (auto simp: escaped_text_def readable_at_step readable_Nil intro: readable_append readable_replayed readable_pieces readable_escaped)

text \<open>Content names the node it is of, what the renderer makes up names none.\<close>

definition attributed_as :: "trace_role \<Rightarrow> node_origin option \<Rightarrow> bool" where
  "attributed_as role origin \<longleftrightarrow>
     (role = Content_role \<longrightarrow> origin \<noteq> None) \<and> (role = Generated_role \<longrightarrow> origin = None)"

definition attributed :: "emission list \<Rightarrow> bool" where
  "attributed es \<longleftrightarrow> list_all (\<lambda>e. attributed_as (emitted_role e) (emitted_origin e)) es"

lemma replay_span_attributed:
  "attributed_as (span_role span) (span_origin span) \<Longrightarrow> attributed (replay_span rendered span cursor)"
proof (induction rendered span cursor rule: replay_span.induct)
  case (1 rendered span cursor)
  then show ?case
    by (subst replay_span.simps)
      (auto simp: attributed_def emission_of_def md_boundary_def Let_def attributed_as_def split: option.split)
qed

lemma spans_attributed:
  "attributed es \<Longrightarrow> list_all (\<lambda>span. attributed_as (span_role span) (span_origin span)) (spans_from pos es)"
  by (induction es arbitrary: pos) (auto simp: attributed_def)

interpretation attribution: printer_contract attributed
proof unfold_locales
  show "attributed (at_step kind index es) \<longleftrightarrow> attributed es" for kind index es
    by (simp add: attributed_def at_step_def list.pred_map comp_def)
  show "attributed (replay_indented (markdown_of es))" if "attributed es" for es
    using spans_attributed [OF that, of 0] replay_span_attributed
    by (auto simp: replay_indented_def markdown_of_eq list_all_iff attributed_def)
qed (simp_all add: attributed_def attributed_as_def md_syntax_def md_boundary_def md_marker_def md_literal_def
    md_content_def md_generated_def md_html_def emission_of_def)

lemma spans_tile:
  "tiles (map (\<lambda>span. (span_begin span, span_end span)) (spans_from pos es)) pos (pos + length (output_of es)) \<and>
   list_all (\<lambda>span. span_begin span < span_end span) (spans_from pos es)"
proof (induction es arbitrary: pos)
  case (Cons e es)
  then show ?case using Cons.IH [of "pos + length (emitted e)"] by (simp add: add.assoc)
qed simp

lemma readable_projected:
  assumes "readable es"
  shows "\<exists>shown. markdown_visible_text (md_text (markdown_of es)) (md_spans (markdown_of es)) = Inr shown"
proof -
  obtain out h' where read: "md_reads [] es = Some (out, h')" "fragment h'"
    using assms fragment_Nil by (auto simp: readable_def)
  then show ?thesis
    using project_reads [OF read(1), of "[]" "[]"] fragment_flushes [OF read(2)]
    by (auto simp: markdown_visible_text_def markdown_of_eq)
qed

text \<open>C14: Whatever document the check accepts, the Markdown renderer prints it without reading outside a vector, and the
  text projection goes through its output: the trace accounts for every byte, every escaped span unescapes, and
  every run of embedded HTML is complete, also where a nested block's HTML is cut into indented lines.\<close>

theorem rendered_markdown_is_readable:
  "case render_document_markdown d opts of
     Inr (Some sink) \<Rightarrow> \<exists>shown. markdown_visible_text (md_text sink) (md_spans sink) = Inr shown
   | Inr None \<Rightarrow> False
   | Inl e \<Rightarrow> verify_document_ir d \<noteq> None"
proof (cases "verify_document_ir d")
  case None
  then have "list_all (\<lambda>b. verify_block False b = None) (document_blocks d)"
    by (simp add: verify_document_ir_def Let_def)
  then obtain es where es: "md_document_blocks opts [] 0 (document_blocks d) = Some es" "readable es"
    using reading.good_document_blocks [OF _ readable_Nil] unfolding prints_all_def by blast
  then have "readable (es @ md_boundary [CHR 0x0A] ''document terminator'' None)"
    by (intro readable_append readable_pieces)
  then show ?thesis
    using None es(1) readable_projected by (simp add: render_document_markdown_def)
next
  case (Some m)
  then show ?thesis by (simp add: render_document_markdown_def)
qed


end
