(* ===== verification/Markdown_Seen.thy ===== *)
theory Markdown_Seen
  imports Markdown_Facts
begin

section \<open>What rendered Markdown shows\<close>

text \<open>
  Inlines rendered as Markdown read back as their text: nothing is lost, doubled or glued together by escaping, code
  delimiters, runs that a revision mark splits, or emphasis that has to be written as HTML.
\<close>

subsection \<open>Emissions that show a text\<close>

definition md_shows :: "emission list \<Rightarrow> string \<Rightarrow> bool" where
  "md_shows es w \<longleftrightarrow>
     (\<forall>h u. draws (Some h) u \<longrightarrow>
        (\<exists>out h' u'. md_reads h es = Some (out, h') \<and> draws (Some h') u' \<and> u @ w = out @ u'))"

lemma draws_visible: "draws (Some h) u \<Longrightarrow> html_visible_text h = Inr u"
proof -
  let ?start = "\<lparr> visible_out = [], visible_lists = [], visible_elements = [] \<rparr>"
  assume "draws (Some h) u"
  then have "visible_loop (h @ []) ?start = visible_loop [] (emit u ?start)"
    unfolding draws_def by blast
  then show ?thesis by (simp add: html_visible_text_def emit_def)
qed

lemma draws_flush: "draws (Some h) u \<Longrightarrow> flush_html h = Inr u"
  using draws_visible [of h u] by (cases h) (auto simp: flush_html_def html_visible_text_def)

lemma md_shows_Nil: "md_shows [] []"
  by (auto simp: md_shows_def)

lemma md_shows_append:
  assumes "md_shows es w" and "md_shows fs v"
  shows "md_shows (es @ fs) (w @ v)"
  unfolding md_shows_def
proof (intro allI impI)
  fix h u
  assume "draws (Some h) u"
  then obtain out h' u' where first: "md_reads h es = Some (out, h')" "draws (Some h') u'" "u @ w = out @ u'"
    using assms(1) unfolding md_shows_def by blast
  then obtain out' h'' u'' where "md_reads h' fs = Some (out', h'')" "draws (Some h'') u''" "u' @ v = out' @ u''"
    using assms(2) unfolding md_shows_def by blast
  with first show "\<exists>out h' u'. md_reads h (es @ fs) = Some (out, h') \<and> draws (Some h') u' \<and> u @ w @ v = out @ u'"
    by (intro exI [of _ "out @ out'"] exI [of _ h''] exI [of _ u'']) (simp add: md_reads_append,
        metis append.assoc)
qed

lemma md_shows_at_step: "md_shows (at_step kind index es) w \<longleftrightarrow> md_shows es w"
  by (simp add: md_shows_def)

lemma md_shows_own:
  assumes "projection \<noteq> Html_text" and "projection = Boundary_text \<longrightarrow> \<not> list_all (\<lambda>ch. ch = CHR '' '') s"
    and "projected_text projection s = Inr w" and "s = [] \<longrightarrow> w = []"
  shows "md_shows (emission_of role projection s reason origin) w"
  unfolding md_shows_def
proof (intro allI impI)
  fix h u
  assume h: "draws (Some h) u"
  show "\<exists>out h' u'. md_reads h (emission_of role projection s reason origin) = Some (out, h') \<and>
      draws (Some h') u' \<and> u @ w = out @ u'"
  proof (cases "s = []")
    case True
    then show ?thesis using h assms(4) by (simp add: emission_of_def)
  next
    case False
    then have "md_reads h (emission_of role projection s reason origin) = Some (u @ w, [])"
      using assms(1-3) draws_flush [OF h] by (auto simp: emission_of_def continues_html_def)
    then show ?thesis using draws_Nil by auto
  qed
qed

lemma md_shows_html:
  assumes "draws (Some s) w"
  shows "md_shows (md_html s reason origin) w"
  unfolding md_shows_def
proof (intro allI impI)
  fix h u
  assume "draws (Some h) u"
  then have "draws (Some (h @ s)) (u @ w)" using assms by (rule draws_append)
  moreover have "md_reads h (md_html s reason origin) = Some ([], h @ s)"
    by (simp add: md_html_def emission_of_def)
  ultimately show "\<exists>out h' u'. md_reads h (md_html s reason origin) = Some (out, h') \<and> draws (Some h') u' \<and>
      u @ w = out @ u'"
    by (metis append_Nil)
qed

lemma md_shows_pieces:
  "md_shows (md_syntax s reason origin) []" "md_shows (md_literal s reason origin) s"
  "unbroken s \<Longrightarrow> md_shows (md_content (escape_markdown_text s) reason origin) s"
  "\<not> list_all (\<lambda>ch. ch = CHR '' '') s \<Longrightarrow> md_shows (md_boundary s reason origin) [CHR 0x0A]"
  unfolding md_syntax_def md_literal_def md_content_def md_boundary_def
  by (auto simp: projected_text_def unescape_escaped single_line_unbroken intro!: md_shows_own)
    (metis escape_markdown_text.simps(1) single_line_unbroken unescape_escaped unescape_markdown.simps(1) sum.inject(2))

subsection \<open>Inlines\<close>

fun markdown_inline_seen :: "inline_ir \<Rightarrow> string"
  and markdown_seen :: "inlines \<Rightarrow> string" where
  "markdown_inline_seen (Inline node origin) =
     (case node of
        Text_inline s \<Rightarrow> s
      | Emphasis_inline s kind phrase \<Rightarrow> s
      | Underline_inline s \<Rightarrow> s
      | Code_inline s phrase \<Rightarrow> s
      | Cross_reference_inline r \<Rightarrow>
          (case label_image r of None \<Rightarrow> [] | Some pic \<Rightarrow> image_alt_text pic @ [CHR 0x0A]) @ label_text r
      | Image_inline pic \<Rightarrow> if image_description pic = [] then image_alt_text pic else image_description pic
      | Hard_break_inline \<Rightarrow> [CHR 0x0A]
      | Opaque_inline kind content \<Rightarrow> if content = [] then kind else kind @ '': '' @ content
      | Revised_inline mark children \<Rightarrow> markdown_seen children)"
| "markdown_seen [] = []"
| "markdown_seen (i # is) = markdown_inline_seen i @ markdown_seen is"

text \<open>No text of the inline has a line break in it: those are inlines of their own.\<close>

fun unbroken_inline :: "inline_ir \<Rightarrow> bool"
  and unbroken_inlines :: "inlines \<Rightarrow> bool" where
  "unbroken_inline (Inline node origin) \<longleftrightarrow>
     (case node of
        Text_inline s \<Rightarrow> unbroken s
      | Emphasis_inline s kind phrase \<Rightarrow> unbroken s
      | Underline_inline s \<Rightarrow> unbroken s
      | Code_inline s phrase \<Rightarrow> unbroken s
      | Cross_reference_inline r \<Rightarrow>
          unbroken (label_text r) \<and> (case label_image r of None \<Rightarrow> True | Some pic \<Rightarrow> unbroken (image_alt_text pic))
      | Image_inline pic \<Rightarrow> unbroken (image_alt_text pic) \<and> unbroken (image_description pic)
      | Hard_break_inline \<Rightarrow> True
      | Opaque_inline kind content \<Rightarrow> unbroken kind \<and> unbroken content
      | Revised_inline mark children \<Rightarrow> unbroken_inlines children)"
| "unbroken_inlines [] \<longleftrightarrow> True"
| "unbroken_inlines (i # is) \<longleftrightarrow> unbroken_inline i \<and> unbroken_inlines is"

lemma markdown_seen_append: "markdown_seen (is @ js) = markdown_seen is @ markdown_seen js"
  by (induction "is") simp_all

lemma unbroken_inlines_all: "unbroken_inlines is \<longleftrightarrow> list_all unbroken_inline is"
  by (induction "is") simp_all

text \<open>What is needed of an inline of a flattened sequence.\<close>

definition flat_inline :: "inline_ir \<Rightarrow> bool" where
  "flat_inline i \<longleftrightarrow> referenced i \<and> \<not> is_revised i \<and> unbroken_inline i"

lemma unbroken_append [simp]: "unbroken (s @ t) \<longleftrightarrow> unbroken s \<and> unbroken t"
  by (simp add: unbroken_def)

lemma merged_flat:
  "merge_inline into child = Some run \<Longrightarrow> flat_inline into \<Longrightarrow> flat_inline child \<Longrightarrow>
     flat_inline run \<and> markdown_inline_seen run = markdown_inline_seen into @ markdown_inline_seen child"
  by (cases into; cases child)
    (auto simp: merge_inline_def flat_inline_def referenced_def is_revised_def split: inline_node.splits if_splits)

lemma pushed_flat:
  assumes "list_all flat_inline flat" and "flat_inline child"
  shows "list_all flat_inline (push_run flat child) \<and>
    markdown_seen (push_run flat child) = markdown_seen flat @ markdown_inline_seen child"
proof (cases "if flat = [] then None else merge_inline (last flat) child")
  case None
  then show ?thesis using assms by (simp add: push_run_def markdown_seen_append)
next
  case (Some run)
  then have flat: "flat = butlast flat @ [last flat]" "merge_inline (last flat) child = Some run"
    by (auto split: if_splits)
  have front: "list_all flat_inline (butlast flat)" "flat_inline (last flat)"
    using assms(1) flat(1) by (metis list_all_append list.pred_inject(2))+
  have "markdown_seen flat = markdown_seen (butlast flat) @ markdown_inline_seen (last flat)"
    by (subst flat(1)) (simp add: markdown_seen_append)
  then show ?thesis
    using Some front merged_flat [OF flat(2) front(2) assms(2)] by (simp add: push_run_def markdown_seen_append)
qed

lemma runs_flat:
  "list_all flat_inline flat \<Longrightarrow> list_all (\<lambda>i. list_all flat_inline (revised_children i)) is \<Longrightarrow>
     list_all flat_inline (flatten_runs flat split is) \<and>
     markdown_seen (flatten_runs flat split is) = markdown_seen flat @ markdown_seen is"
proof (induction flat split "is" rule: flatten_runs.induct)
  case (1 flat split)
  then show ?case by simp
next
  case (2 flat split i "is")
  let ?flat = "case revised_children i of [] \<Rightarrow> flat
    | c # cs \<Rightarrow> (if split \<or> is_revised i then push_run flat c else flat @ [c]) @ cs"
  have "list_all flat_inline ?flat \<and> markdown_seen ?flat = markdown_seen flat @ markdown_seen (revised_children i)"
    using 2(2,3) pushed_flat by (auto simp: markdown_seen_append split: list.split)
  moreover have "markdown_seen (revised_children i) = markdown_inline_seen i"
    by (cases i) (simp add: revised_children_def split: inline_node.split)
  ultimately show ?case
    using 2 by (simp add: Let_def)
qed

definition md_prints :: "emission list option \<Rightarrow> string \<Rightarrow> bool" where
  "md_prints m w \<longleftrightarrow> (\<exists>es. m = Some es \<and> md_shows es w)"

lemma md_prints_Some: "md_prints (Some es) w \<longleftrightarrow> md_shows es w"
  by (simp add: md_prints_def)

lemma md_prints_two: "md_prints m w \<Longrightarrow> md_prints m' v \<Longrightarrow> md_prints (joined [m, m']) (w @ v)"
  by (auto simp: md_prints_def md_shows_append)

lemma md_prints_html:
  assumes "\<And>sink. draws (append_inlines sink is) w"
  shows "md_prints (md_html_inlines opts is reason origin) w"
proof -
  let ?sink = "\<lparr> sink_options = no_resolvers, sink_resolve = resolve_reference opts, generic_phrases = True \<rparr>"
  obtain s where "append_inlines ?sink is = Some s" "draws (Some s) w"
    using assms [of ?sink] by (auto simp: draws_def)
  then show ?thesis
    by (simp add: md_html_inlines_def render_document_html_inlines_def md_prints_Some md_shows_html)
qed

lemma code_span_shows: "unbroken s \<Longrightarrow> ctxt \<noteq> Table_cell_context \<Longrightarrow> md_shows (md_code_span s ctxt reason origin) s"
proof -
  assume s: "unbroken s" "ctxt \<noteq> Table_cell_context"
  then have "normalize_code_span s False = s"
    by (auto simp: normalize_code_span_def unbroken_def list_ex_iff intro!: map_idI)
  then have "\<exists>opening closing. code_span_parts s False = (opening, s, closing)"
    by (auto simp: code_span_parts_def Let_def)
  then show ?thesis
    using s(2) md_shows_append [OF md_shows_pieces(1) md_shows_append [OF md_shows_pieces(2) md_shows_pieces(1)]]
    by (auto simp: md_code_span_def)
qed

lemma emphasised_shows: "unbroken s \<Longrightarrow> md_shows (md_emphasised s kind reason origin) s"
  using md_shows_append [OF md_shows_pieces(1) md_shows_append [OF md_shows_pieces(3) md_shows_pieces(1)]]
  by (simp add: md_emphasised_def)

lemma picture_shows: "unbroken alt \<Longrightarrow> md_shows (md_picture alt resource origin) alt"
  using md_shows_append [OF md_shows_pieces(1) md_shows_append [OF md_shows_pieces(3)
    md_shows_append [OF md_shows_pieces(1) md_shows_pieces(1)]]]
  by (simp add: md_picture_def)

lemma cross_reference_shows:
  assumes "xref_targets r \<noteq> []" and "unbroken (label_text r)"
    and "case label_image r of None \<Rightarrow> True | Some pic \<Rightarrow> unbroken (image_alt_text pic)" and "ctxt \<noteq> Table_cell_context"
  shows "md_prints (md_cross_reference opts ctxt r origin)
    ((case label_image r of None \<Rightarrow> [] | Some pic \<Rightarrow> image_alt_text pic @ [CHR 0x0A]) @ label_text r)"
proof -
  have "cross_reference_destination opts (xref_targets r) \<noteq> None"
    using assms(1) by (cases "xref_targets r") (auto simp: cross_reference_destination_def split: option.splits)
  then obtain destination provenance where d:
    "cross_reference_destination opts (xref_targets r) = Some (destination, provenance)"
    by fastforce
  let ?pic = "case label_image r of None \<Rightarrow> []
    | Some pic \<Rightarrow> md_picture (image_alt_text pic) (image_resource pic) origin @
        md_boundary '')'' ''image syntax'' (Some origin)"
  let ?label = "if label_code r then md_code_span (label_text r) ctxt ''link label code text'' origin
    else case label_emphasis r of
           Some kind \<Rightarrow> md_emphasised (label_text r) kind ''styled link label'' origin
         | None \<Rightarrow> md_content (escape_markdown_text (label_text r)) ''link label'' (Some origin)"
  have pic: "md_shows ?pic (case label_image r of None \<Rightarrow> [] | Some pic \<Rightarrow> image_alt_text pic @ [CHR 0x0A])"
    using assms(3) by (auto simp: md_shows_Nil intro!: md_shows_append picture_shows md_shows_pieces(4) split: option.split)
  have label: "md_shows ?label (label_text r)"
    using assms(2,4) by (auto simp: code_span_shows emphasised_shows md_shows_pieces(3) split: option.split)
  have rest: "md_shows (md_syntax '']('' ''link syntax'' (Some origin) @
      md_syntax (markdown_destination destination) ''link destination'' (Some (or_else provenance origin)) @
      md_syntax '')'' ''link syntax'' (Some origin)) []"
    using md_shows_append [OF md_shows_pieces(1) md_shows_append [OF md_shows_pieces(1) md_shows_pieces(1)]] by simp
  show ?thesis
    using md_shows_append [OF md_shows_pieces(1) md_shows_append [OF pic md_shows_append [OF label rest]]]
    by (simp add: md_cross_reference_def d md_prints_Some)
qed

lemma emphasis_shows:
  assumes "unbroken s"
  shows "md_prints (md_emphasis opts ctxt abutting s kind phrase origin) s"
proof -
  have "md_prints (md_html_inlines opts [Inline (Emphasis_inline s kind phrase) origin] ''abutting emphasis'' origin) s"
    by (rule md_prints_html, rule draws_one [OF _ draws_emphasis]) simp
  then show ?thesis using assms by (simp add: md_emphasis_def md_prints_Some emphasised_shows)
qed

lemma underline_shows: "md_prints (md_html_inlines opts [Inline (Underline_inline s) origin] reason o') s"
proof -
  have "draws (Some (''<u class=\"geist-underline\">'' @ escape_html_text s @ ''</u>'')) s"
    unfolding html_literals by (simp add: draws_tagged_text inline_element_def)
  then show ?thesis by (intro md_prints_html, intro draws_one) simp_all
qed

lemma break_shows:
  "md_shows (md_boundary (if c then ''  '' @ [CHR 0x0A] else ''<br>'') reason origin) [CHR 0x0A]"
  by (auto intro!: md_shows_pieces(4))

lemma escaped_start_shows:
  "unbroken s \<Longrightarrow>
     md_shows ((if c then md_syntax t reason origin else []) @ md_content (escape_markdown_text s) reason' origin) s"
  using md_shows_append [OF md_shows_pieces(1) md_shows_pieces(3)] md_shows_pieces(3) by auto

lemma flat_inline_shows:
  assumes "flat_inline i" and "ctxt \<noteq> Table_cell_context"
  shows "md_prints (md_flat_inline opts ctxt before after i) (markdown_inline_seen i)"
proof -
  obtain node origin where i: "i = Inline node origin" by (cases i)
  have opaque: "unbroken (if content = [] then kind else kind @ '': '' @ content)"
    if "unbroken kind" "unbroken content" for kind content :: string
    using that by (simp add: unbroken_def line_break_def)
  show ?thesis
  proof (cases node)
    case (Image_inline pic)
    then show ?thesis
      using assms i md_shows_append [OF picture_shows md_shows_pieces(1)]
      by (auto simp: flat_inline_def md_flat_inline_def md_prints_Some)
  next
    case (Opaque_inline kind content)
    then show ?thesis
      using assms i code_span_shows [OF opaque]
      by (simp add: flat_inline_def md_flat_inline_def md_prints_Some)
  qed (use assms i in \<open>simp_all add: flat_inline_def md_flat_inline_def referenced_def is_revised_def md_prints_Some
      escaped_start_shows emphasis_shows underline_shows code_span_shows cross_reference_shows break_shows\<close>)
qed

lemma flat_from_shows:
  "list_all flat_inline is \<Longrightarrow> ctxt \<noteq> Table_cell_context \<Longrightarrow>
     md_prints (md_flat_from opts ctxt last_line index before line [] is) (markdown_seen is)"
proof (induction "is" arbitrary: index before line)
  case Nil
  then show ?case by (simp add: md_cell_anchors_def md_prints_Some md_shows_Nil)
next
  case (Cons i "is")
  let ?after = "if is = [] then None else Some (hd is)"
  obtain es where es: "md_flat_inline opts ctxt before ?after i = Some es" "md_shows es (markdown_inline_seen i)"
    using flat_inline_shows [of i ctxt opts before ?after] Cons.prems by (auto simp: md_prints_def)
  have "md_prints (Some (at_step ''inline'' index es)) (markdown_inline_seen i)"
    using es(2) by (simp add: md_prints_Some md_shows_at_step)
  from md_prints_two [OF this Cons.IH]
  show ?case using Cons.prems es(1) by (simp add: md_cell_anchors_def Let_def)
qed

lemma md_shows_projected:
  assumes "md_shows es w"
  shows "markdown_visible_text (md_text (markdown_of es)) (md_spans (markdown_of es)) = Inr w"
proof -
  obtain out h' u' where read: "md_reads [] es = Some (out, h')" "draws (Some h') u'" "w = out @ u'"
    using assms draws_Nil unfolding md_shows_def by fastforce
  then show ?thesis
    using project_reads [OF read(1), of "[]" "[]"] draws_flush [OF read(2)]
    by (simp add: markdown_visible_text_def markdown_of_eq)
qed

text \<open>C15: The text projection of inlines rendered as Markdown is the text of the inlines, with a line feed for a break
  and behind a picture in a label: escaping, code delimiters, runs split by revision marks and emphasis that has
  to be written as HTML lose and add nothing. It is asked that no text contains a line break and that the
  inlines are not in a table cell, where a bar in code keeps its escape.\<close>

theorem markdown_inlines_seen_exactly:
  assumes "verify_inlines is allow_empty row = None" and "unbroken_inlines is" and "ctxt \<noteq> Table_cell_context"
  shows "\<exists>es. md_inlines opts ctxt [] is = Some es \<and>
    markdown_visible_text (md_text (markdown_of es)) (md_spans (markdown_of es)) = Inr (markdown_seen is)"
proof -
  have verified: "list_all (\<lambda>i. verify_inline row i = None) is"
    using assms(1) by (simp add: verify_inlines_def verify_inline_list_iff)
  have flat: "flat_inline i" if "verify_inline row i = None" "unbroken_inline i" "\<not> is_revised i" for i
    using that verified_referenced by (simp add: flat_inline_def)
  have children: "list_all flat_inline (revised_children i)" if "i \<in> set is" for i
  proof (cases "is_revised i")
    case True
    then obtain mark cs origin where i: "i = Inline (Revised_inline mark cs) origin"
      by (cases i) (auto simp: is_revised_def split: inline_node.splits)
    have "verify_inline row i = None" "unbroken_inline i"
      using verified assms(2) that by (auto simp: list_all_iff unbroken_inlines_all)
    then show ?thesis
      using flat i by (auto simp: revised_children_def canonical_inline_def verify_inline_list_iff
          unbroken_inlines_all list_all_iff list_ex_iff)
  next
    case False
    then show ?thesis
      using flat [of i] verified assms(2) that
      by (auto simp: revised_children_def is_revised_def list_all_iff unbroken_inlines_all split: inline_node.splits)
  qed
  let ?runs = "if has_revised_inline is then flatten_runs [] False is else is"
  have "list_all flat_inline ?runs \<and> markdown_seen ?runs = markdown_seen is"
  proof (cases "has_revised_inline is")
    case True
    then show ?thesis using runs_flat [of "[]" "is" False] children by (simp add: list_all_iff)
  next
    case False
    then show ?thesis
      using flat verified assms(2)
      by (auto simp: list_all_iff unbroken_inlines_all has_revised_inline_def list_ex_iff)
  qed
  then have "md_prints (md_inlines opts ctxt [] is) (markdown_seen is)"
    using flat_from_shows [OF _ assms(3), of ?runs opts 0 0 None 0] md_prints_two [of "Some []" "[]"]
    by (simp add: md_inlines_def md_flat_inlines_def md_cell_anchors_def md_prints_Some md_shows_Nil)
  then show ?thesis using md_shows_projected by (auto simp: md_prints_def)
qed

definition example_run :: "string \<Rightarrow> emphasis_kind \<Rightarrow> inline_ir" where
  "example_run s kind = Inline (Emphasis_inline s kind No_phrase) example_origin"

theorem markdown_inlines_seen_exactly_witness:
  "let xs = [example_run ''ft'' Emphasis, example_run '', *'' Strong,
       Inline (Revised_inline 0x7C [example_run '' &'' Strong, Inline (Text_inline ''a_b'') example_origin]) example_origin,
       Inline Hard_break_inline example_origin, Inline (Text_inline ''='') example_origin]
   in verify_inlines xs False False = None \<and>
      (\<exists>es. md_inlines \<lparr>resolve_reference = None\<rparr> Prose_context [] xs = Some es \<and>
        markdown_visible_text (md_text (markdown_of es)) (md_spans (markdown_of es)) =
          Inr (''ft, * &a_b'' @ CHR 0x0A # ''=''))"
proof -
  let ?xs = "[example_run ''ft'' Emphasis, example_run '', *'' Strong,
    Inline (Revised_inline 0x7C [example_run '' &'' Strong, Inline (Text_inline ''a_b'') example_origin]) example_origin,
    Inline Hard_break_inline example_origin, Inline (Text_inline ''='') example_origin]"
  have v: "verify_inlines ?xs False False = None" by code_simp
  have u: "unbroken_inlines ?xs" by code_simp
  have seen: "markdown_seen ?xs = ''ft, * &a_b'' @ CHR 0x0A # ''=''" by (simp add: example_run_def)
  have "\<exists>es. md_inlines \<lparr>resolve_reference = None\<rparr> Prose_context [] ?xs = Some es \<and>
      markdown_visible_text (md_text (markdown_of es)) (md_spans (markdown_of es)) = Inr (markdown_seen ?xs)"
    by (rule markdown_inlines_seen_exactly [OF v u inline_context.distinct(3)])
  then show ?thesis unfolding Let_def seen by (rule conjI [OF v])
qed

end
