(* ===== verification/Spec2Isabelle.thy ===== *)
theory Spec2Isabelle
  imports Prelude Bytes Ebcdic Strings Container Page_Runs Dictionary Paged_Index Tokens Framing
    Assembly Slices Scan Control_Ir Control_Verify Display_Controls Sources Toc Controls Records Revisions
    Mmr_Codes Mmr Mmr_T6 Mmr_Facts Mmr_Roundtrip Resources Json Json_Facts Json_Roundtrip Json_Reader
    Atomic_Cache Snapshot Snapshot_Facts Document_Ir Document_Verify Document_Origins Html_Sink Html_Render
    Html_Visible Html_Reader Html_Prints Html_Tags Html_Facts Html_Seen
    Row_Revisions Source_Facts Selectors Row_Texts Verbatim_Rows Row_Documents Verbatim_Html
    Markdown_Sink Markdown_Render Markdown_Visible Markdown_Reads Markdown_Facts Markdown_Seen
begin

text \<open>
  \<^bold>\<open>A verification library for geist, a reader of IBM BookManager BOO files.\<close>

  A BOO file is a sequence of 4096-byte pages. Page 0 is a header, page 1 the start of the resource
  directory, a directory page maps logical to physical pages; then follow dictionary pages (the words of
  the book), content pages (records of dictionary tokens) and index pages. The program opens the file,
  expands the records to text, finds the topics and the markup controls in it, builds a document tree per
  topic, and prints it as HTML or Markdown; pictures are decoded beside it, and a web module publishes
  shelves of books. This library models the path from the bytes of the file to sound record sources and
  topics, the document tree with its checks and its two printers, the picture decoder, and the
  self-contained parts of the web module.

  \<^bold>\<open>How code and model correspond.\<close> Every definition is a function of \<open>src/\<close>, or a loop, lambda or field
  update of one where the recursion needs a name. A byte buffer is an \<open>8 word list\<close>, \<open>std::string\<close> a
  \<open>string\<close> of bytes, fixed-width integers are words of their width unless the code's checks keep them from
  wrapping (then they are \<open>nat\<close>, and a lemma or the theory's text says why), a \<open>std::optional\<close> is an
  option, an exception is \<open>Inl\<close> of an \<open>error\<close> (\<open>Prelude\<close>), a \<open>struct\<close> a record, an \<open>enum class\<close> or a
  \<open>std::variant\<close> a datatype. Out-parameters and members that a loop changes are fields of a state record
  that is passed on.

  \<^bold>\<open>The container\<close> (\<open>src/core\<close>, \<open>src/container\<close>).
  \<open>Bytes\<close>: \<open>io.cpp\<close>; the big-endian reads are interpretations of one locale, \<open>fixed_width_read\<close>.
  \<open>Ebcdic\<close>: \<open>ebcdic.cpp\<close> and the code pages of \<open>src/cp\<close>. \<open>Strings\<close>: \<open>strings.cpp\<close>.
  \<open>Container\<close>: \<open>read_container_prologue\<close> and its parts in \<open>prologue.cpp\<close>, with an exact
  characterisation of the files it accepts. \<open>Page_Runs\<close>: \<open>page_runs.cpp\<close>. \<open>Dictionary\<close>: the delta-coded
  word lists of \<open>logical.cpp\<close>, against a fold over the list's operations. \<open>Paged_Index\<close>: its chained
  tables, against the relation that follows the chain.

  \<^bold>\<open>Records.\<close> \<open>Tokens\<close> models \<open>decode_record_payload_ir\<close>, the two walks that look for display lines
  and \<open>verify_token_ir\<close>; \<open>Framing\<close> shows that the tokens are the payload, that the lines tile it, that
  the framing decision is that of the walks, and that the check accepts every decoded record.
  \<open>Assembly\<close>: \<open>assemble_logical_record\<close> with the source of each output word, the output span of each
  token, and the word-to-byte offsets (locale \<open>offset_table\<close>). \<open>Slices\<close>: \<open>source_slice_text.cpp\<close>, the two
  ways of reading a slice. \<open>Scan\<close>: \<open>decoded_record_scan.cpp\<close>, string-level scanners. \<open>Control_Ir\<close> and
  \<open>Display_Controls\<close>: \<open>control_ir.cpp\<close> and \<open>display_lines.cpp\<close>, from the markup segments of a record to
  typed control segments and the cells of a line; \<open>Control_Verify\<close>: every pass keeps them ordered, so
  \<open>verify_control_segments\<close> accepts them. \<open>Sources\<close> composes all of this as
  \<open>decode_logical_record_sources\<close> does and shows that the composition never throws on a valid request.
  \<open>Records\<close>: the walk over the content pages with everything it may be asked to keep. \<open>Toc\<close>: topic
  headers and table of contents (locale \<open>finite_chain\<close> for parent chains). \<open>Controls\<close>: the book's
  controls and properties. \<open>Revisions\<close>: the declared revision characters.

  \<^bold>\<open>Pictures and resources\<close> (\<open>src/img\<close>, \<open>resources.cpp\<close>). \<open>Mmr_Codes\<close>, \<open>Mmr\<close>, \<open>Mmr_T6\<close>: the code
  tables, bit reader, one- and two-dimensional lines and the image of \<open>mmr.cpp\<close>; \<open>Mmr_Facts\<close>: the decoder
  is total and returns an image of the stated size or a runtime error; \<open>Mmr_Roundtrip\<close>: a reference
  encoder. \<open>Resources\<close>: the resource directory in its layouts and the display size of an image.

  \<^bold>\<open>Documents\<close> (\<open>src/lowering\<close>, \<open>src/render\<close>; the tree itself is \<open>document_ir.cpp\<close>).
  \<open>Document_Ir\<close>: the tree. \<open>Document_Verify\<close>: \<open>verify_document_ir\<close>; a verdict is the message the code
  leaves behind, \<open>None\<close> when it returns true. \<open>Document_Origins\<close>: \<open>normalize_document_origin_slices\<close> makes
  every container's provenance cover that of its children, the condition the check later demands.
  \<open>Row_Revisions\<close>: the pass of \<open>revision_mark_lowering.cpp\<close> that groups inlines under the revision marks of
    their source rows, from the marks in the decoded records to a document the check still accepts.

  \<^bold>\<open>Topics shown as their source rows\<close>, the program's answer to a topic no reader recognises, from bytes to
  page. \<open>Source_Facts\<close>: the bounds of what a decoded record holds. \<open>Selectors\<close>: the selectors of a book
  and their links, \<open>selector_link_ir.cpp\<close>, \<open>selector_ir.cpp\<close>, \<open>cross_reference_target.cpp\<close>; the catalogue
  the extraction builds always passes its check. \<open>Row_Texts\<close>: the rows and anchors of
  \<open>render_diagnostic.cpp\<close>. \<open>Verbatim_Rows\<close>: \<open>verbatim_cross_references.cpp\<close>, which binds selectors to
  spans of those rows and escapes a linked row. \<open>Row_Documents\<close>: \<open>source_rows_document_lowering.cpp\<close>, and
  exactly which topics become a document that \<open>verify_document_ir\<close> accepts. \<open>Verbatim_Html\<close>: the markup of
  a row, read back by \<open>Html_Visible\<close>, is the row.

  \<^bold>\<open>HTML\<close> (\<open>src/render/document_html_renderer.cpp\<close>).
  \<open>Html_Sink\<close>: escaping, hrefs and options; \<open>Html_Render\<close>: every printing function, \<open>None\<close> where the code
  would read outside a vector. The callbacks a consumer gives the renderer are function-valued fields of
  \<open>html_render_options\<close>: code outside \<open>src/\<close>, hence arguments. \<open>Html_Reader\<close> is the specification the
  printer is held to: a strict reader of tags, attributes and references. \<open>Html_Tags\<close> rewrites each printed
  piece to that reader's tokens; \<open>Html_Facts\<close> carries one statement through all printing functions, inside
  the locale \<open>link_policy\<close> (what destinations are admissible, which targets keep to it), interpreted once
  for any destination (\<open>any_link\<close>: the page is well formed) and once for checked destinations
  (\<open>book_link\<close>: no href of the page carries a scheme other than those the code allows).
  \<open>Html_Visible\<close>: \<open>html_visible_text.cpp\<close>, the program's own reader of the HTML it prints, errors included;
  \<open>Html_Prints\<close>: how one printed piece moves that reader on; \<open>Html_Seen\<close>: the two composed, so that no page
  of a checked document makes the reader throw and rendered inlines read back as their text.

  \<^bold>\<open>Markdown\<close> (\<open>src/render/document_markdown_renderer.cpp\<close>, \<open>markdown_render_sink.hpp\<close>).
  \<open>Markdown_Sink\<close>: escaping, destinations, code spans, and the sink; what a printing function sends to it is a
  list of emissions, which the sink folds into the text and the spans of its trace. \<open>Markdown_Render\<close>: every
  printing function, with runs joined across revision marks and nested blocks replayed behind an
  indentation. \<open>Markdown_Visible\<close>: \<open>markdown_visible_text.cpp\<close>, the text a reader sees, collected along the
  trace. \<open>Markdown_Reads\<close> reads emissions directly and shows that to be what the trace gives.
  \<open>Markdown_Facts\<close> proves once, in the locale \<open>printer_contract\<close>, that whatever holds of the pieces and is kept by
  appending, path steps and replaying holds of a printed document; it is interpreted with \<open>readable\<close> (the
  projection goes through) and with \<open>attributed\<close> (content names its node, made-up text names none).
  \<open>Markdown_Seen\<close>: rendered inlines read back as their text. The resolver is an argument, as above.

  \<^bold>\<open>The web module's own parts\<close> (\<open>src/apache\<close>). \<open>Json\<close>: the strict reader and the writer of
  \<open>machine/json.cpp\<close>; \<open>Json_Facts\<close>, \<open>Json_Roundtrip\<close>, \<open>Json_Reader\<close>: round trips in both directions and
  the reader's limits. \<open>Atomic_Cache\<close>: \<open>publish_once\<close> as a step relation over atomic accesses of several
  threads, a refinement of a write-once cell and wait-free. \<open>Snapshot\<close>: \<open>shelf_snapshot.cpp\<close>;
  \<open>Snapshot_Facts\<close> interprets the locale \<open>field_codec\<close> for each kind of field and shows that the reader
  accepts exactly what the writer writes.

  \<^bold>\<open>Bounds and termination.\<close> No function runs on fuel. Loops over an offset or a cursor are recursive
  functions whose measure is what is left of the input; the nesting of JSON values is bounded by the
  code's own depth limit, which is a parameter; the chained tables end because the set of visited tables
  grows inside the finite file; the parent chain of a topic is cut at the number of topics, which cuts
  cycles only. Two loops are partial functions because the code gives no reason why they end:
  \<open>replace_loop\<close>, shown to return on every input, and \<open>advance_b1\<close>, shown to return on every reference
  line the decoder builds.

  \<^bold>\<open>Not modelled.\<close> File access, threads and process start-up (input/output). The PNG writer and the Apache
  glue: they call libraries that are not under \<open>src/\<close>. The typed topic readers of \<open>src/ir\<close> and \<open>src/ir/prose\<close>
  (trap catalogues, messages, fixed tables, prose, glossaries and so on), the fixed layout of \<open>src/layout\<close> behind display
  lines, and \<open>src/lowering\<close> from these to documents: recognisers of document families tuned to a corpus of
  books, many thousand lines whose only contract is what those books look like; the development checks
  what they must produce (\<open>verify_document_ir\<close>) and what is done with it, and models the lowering the
  program falls back to (topics as source rows) whole; the choice between them in
  \<open>topic_render.cpp\<close>. The vector pictures of \<open>src/img/gdf*.cpp\<close>, which are rasterised in floating point.
  Debug formatters. The desktop programs.
\<close>

end
